(* ===== verification/Prelude.thy ===== *)
theory Prelude
  imports Main "HOL-Library.Word" "HOL-Library.Sublist" "HOL-Library.AList"
    "HOL-Library.Char_ord" "HOL-Library.List_Lexorder" "HOL-Library.Code_Target_Nat"
    "HOL-Library.Multiset"
begin

text \<open>
  Shared vocabulary of the development: the names of the machine types, the fragments of Rust's
  standard library the sources use (checked and saturating arithmetic, \<open>str\<close> helpers,
  \<open>HashMap\<close> and \<open>BTreeMap\<close> as association lists), and the generic lemmas the component
  theories share.
\<close>

section \<open>Types\<close>

type_synonym address = "160 word"
type_synonym b256 = "256 word"
type_synonym u256 = "256 word"
type_synonym u64 = "64 word"
type_synonym byte = "8 word"

text \<open>
  \<open>std::collections::HashMap\<close>: an association list with distinct keys, in the order the map
  happens to iterate. \<open>BTreeMap\<close>: an association list in ascending key order.
\<close>

type_synonym ('k, 'v) hmap = "('k \<times> 'v) list"
type_synonym ('k, 'v) btmap = "('k \<times> 'v) list"

named_theorems alist_simps \<open>lookups after updates of the association-list maps\<close>

section \<open>Machine arithmetic\<close>

definition usize_max :: nat where
  "usize_max = 2 ^ 64 - 1"

definition checked_mul :: "nat \<Rightarrow> nat \<Rightarrow> nat option" where
  "checked_mul a b = (if a * b \<le> usize_max then Some (a * b) else None)"

definition checked_add :: "nat \<Rightarrow> nat \<Rightarrow> nat option" where
  "checked_add a b = (if a + b \<le> usize_max then Some (a + b) else None)"

definition saturating_add :: "nat \<Rightarrow> nat \<Rightarrow> nat" where
  "saturating_add a b = min (a + b) usize_max"

definition saturating_mul :: "nat \<Rightarrow> nat \<Rightarrow> nat" where
  "saturating_mul a b = min (a * b) usize_max"

text \<open>Rust's \<open>saturating_sub\<close> on unsigned values is truncating subtraction on \<open>nat\<close>.\<close>

abbreviation saturating_sub :: "nat \<Rightarrow> nat \<Rightarrow> nat" where
  "saturating_sub a b \<equiv> a - b"

lemma checked_add_Some_iff: "checked_add a b = Some c \<longleftrightarrow> c = a + b \<and> a + b \<le> usize_max"
  by (auto simp: checked_add_def)

lemma checked_mul_Some_iff: "checked_mul a b = Some c \<longleftrightarrow> c = a * b \<and> a * b \<le> usize_max"
  by (auto simp: checked_mul_def)

text \<open>Powers of two by squaring, for evaluating 160- and 256-bit words.\<close>

fun pow2_int :: "nat \<Rightarrow> int" where
  "pow2_int n =
     (if n = 0 then 1
      else if even n then (let h = pow2_int (n div 2) in h * h)
      else 2 * pow2_int (n - 1))"

declare pow2_int.simps [simp del]

lemma pow2_int: "pow2_int n = 2 ^ n"
proof (induction n rule: pow2_int.induct)
  case (1 n)
  show ?case
  proof (cases "n = 0")
    case False
    show ?thesis
    proof (cases "even n")
      case True
      with False 1 show ?thesis
        by (subst pow2_int.simps) (auto simp: Let_def mult_2 elim!: evenE simp flip: power_add)
    next
      case odd: False
      with 1 False show ?thesis
        by (subst pow2_int.simps) (auto elim!: oddE)
    qed
  qed (simp add: pow2_int.simps)
qed

lemma take_bit_int_code [code]: "take_bit n (k :: int) = k mod pow2_int n"
  by (simp add: pow2_int take_bit_eq_mod)

lemma mask_int_code [code]: "mask n = pow2_int n - 1"
  by (simp add: pow2_int mask_eq_exp_minus_1)

lemma power2_int_unfold [code_unfold]: "(2 :: int) ^ n = pow2_int n"
  by (simp add: pow2_int)

section \<open>Strings\<close>

text \<open>
  A Rust \<open>str\<close> is its UTF-8 byte sequence, which is what an Isabelle \<open>string\<close> (a list of 8-bit
  characters) is.
\<close>

definition to_ascii_lowercase_char :: "char \<Rightarrow> char" where
  "to_ascii_lowercase_char c =
     (if CHR ''A'' \<le> c \<and> c \<le> CHR ''Z'' then char_of (of_char c + 32 :: nat) else c)"

definition to_ascii_lowercase :: "string \<Rightarrow> string" where
  "to_ascii_lowercase s = map to_ascii_lowercase_char s"

definition as_bytes :: "string \<Rightarrow> byte list" where
  "as_bytes s = map of_char s"

lemma as_bytes_code [code]: "as_bytes s = map (\<lambda>c. word_of_int (of_char c)) s"
  by (simp add: as_bytes_def of_int_of_char)

definition is_ascii_hexdigit :: "char \<Rightarrow> bool" where
  "is_ascii_hexdigit c \<longleftrightarrow>
     (CHR ''0'' \<le> c \<and> c \<le> CHR ''9'') \<or> (CHR ''a'' \<le> c \<and> c \<le> CHR ''f'') \<or>
     (CHR ''A'' \<le> c \<and> c \<le> CHR ''F'')"

text \<open>\<open>char::to_digit\<close> for a radix of at most 16.\<close>

definition to_digit :: "nat \<Rightarrow> char \<Rightarrow> nat option" where
  "to_digit radix c =
     (let n = of_char c :: nat;
          d = (if 48 \<le> n \<and> n \<le> 57 then Some (n - 48)
               else if 97 \<le> n \<and> n \<le> 102 then Some (n - 87)
               else if 65 \<le> n \<and> n \<le> 70 then Some (n - 55)
               else None)
      in case d of Some v \<Rightarrow> if v < radix then Some v else None | None \<Rightarrow> None)"

fun digits_value :: "nat \<Rightarrow> nat \<Rightarrow> string \<Rightarrow> nat option" where
  "digits_value radix acc [] = Some acc"
| "digits_value radix acc (c # cs) =
     (case to_digit radix c of
        None \<Rightarrow> None
      | Some d \<Rightarrow> digits_value radix (acc * radix + d) cs)"

text \<open>
  \<open>u64::from_str_radix\<close> and its kin, with \<open>bound\<close> the number of values of the type: an optional
  leading plus sign, at least one digit, no overflow.
\<close>

definition from_str_radix :: "nat \<Rightarrow> nat \<Rightarrow> string \<Rightarrow> nat option" where
  "from_str_radix bound radix s =
     (let ds = (case s of [] \<Rightarrow> [] | c # cs \<Rightarrow> if c = CHR ''+'' then cs else s)
      in if ds = [] then None
         else case digits_value radix 0 ds of
                None \<Rightarrow> None
              | Some n \<Rightarrow> if n < bound then Some n else None)"

definition digit_char :: "nat \<Rightarrow> char" where
  "digit_char d = (if d < 10 then char_of (48 + d) else char_of (87 + d))"

text \<open>Printing in lower-case digits of a radix, as \<open>{}\<close> (radix 10) and \<open>{:x}\<close> (radix 16) do.\<close>

function show_radix :: "nat \<Rightarrow> nat \<Rightarrow> string" where
  "show_radix r n =
     (if r < 2 \<or> n < r then [digit_char n]
      else show_radix r (n div r) @ [digit_char (n mod r)])"
  by pat_completeness auto
termination
  by (relation "measure snd") auto

declare show_radix.simps [simp del]

text \<open>\<open>str::trim\<close> removes Unicode white space, here by its UTF-8 encodings.\<close>

definition white_space :: "string list" where
  "white_space =
     map (\<lambda>n::nat. [char_of n]) [9, 10, 11, 12, 13, 32] @
     map (map (char_of :: nat \<Rightarrow> char))
       ([[0xC2, 0x85], [0xC2, 0xA0], [0xE1, 0x9A, 0x80]] @
        map (\<lambda>n. [0xE2, 0x80, 0x80 + n]) [0..<11] @
        [[0xE2, 0x80, 0xA8], [0xE2, 0x80, 0xA9], [0xE2, 0x80, 0xAF], [0xE2, 0x81, 0x9F],
         [0xE3, 0x80, 0x80]])"

definition strip_any :: "string list \<Rightarrow> string \<Rightarrow> string option" where
  "strip_any ps s = map_option (\<lambda>p. drop (length p) s) (find (\<lambda>p. p \<noteq> [] \<and> prefix p s) ps)"

lemma strip_any_shorter: "strip_any ps s = Some t \<Longrightarrow> length t < length s"
  by (auto simp: strip_any_def find_Some_iff prefix_def) 

function trim_start_with :: "string list \<Rightarrow> string \<Rightarrow> string" where
  "trim_start_with ps s =
     (case strip_any ps s of None \<Rightarrow> s | Some t \<Rightarrow> trim_start_with ps t)"
  by pat_completeness auto
termination
  by (relation "measure (\<lambda>(ps, s). length s)") (auto dest: strip_any_shorter)

declare trim_start_with.simps [simp del]

definition trim :: "string \<Rightarrow> string" where
  "trim s = rev (trim_start_with (map rev white_space) (rev (trim_start_with white_space s)))"

definition strip_prefix :: "string \<Rightarrow> string \<Rightarrow> string option" where
  "strip_prefix p s = (if prefix p s then Some (drop (length p) s) else None)"

text \<open>\<open>slice::join\<close>.\<close>

fun join :: "string \<Rightarrow> string list \<Rightarrow> string" where
  "join sep [] = []"
| "join sep [s] = s"
| "join sep (s # ss) = s @ sep @ join sep ss"

text \<open>\<open>str::split\<close> at a character.\<close>

fun split_at :: "char \<Rightarrow> string \<Rightarrow> string list" where
  "split_at c [] = [[]]"
| "split_at c (x # xs) = (case split_at c xs of
       [] \<Rightarrow> [[x]]
     | s # ss \<Rightarrow> if x = c then [] # s # ss else (x # s) # ss)"

lemma split_at_not_Nil [simp]: "split_at c s \<noteq> []"
  by (induction s) (auto split: list.split)

lemma split_at_append: "c \<notin> set s \<Longrightarrow> split_at c (s @ c # t) = s # split_at c t"
  by (induction s) (auto split: list.split)

lemma split_at_single: "c \<notin> set s \<Longrightarrow> split_at c s = [s]"
  by (induction s) auto

lemma split_at_join: "ss \<noteq> [] \<Longrightarrow> \<forall>s \<in> set ss. c \<notin> set s \<Longrightarrow> split_at c (join [c] ss) = ss"
  by (induction "[c]" ss rule: join.induct) (auto simp: split_at_append split_at_single)

definition quote_str :: "string \<Rightarrow> string" where
  "quote_str s = [CHR 0x27] @ s @ [CHR 0x27]"

section \<open>BTreeMap\<close>

text \<open>
  \<open>bt_alter k f m\<close> is \<open>m.entry(k)\<close> followed by writing \<open>f\<close> of the present value (if any).
\<close>

fun bt_alter :: "'k::linorder \<Rightarrow> ('v option \<Rightarrow> 'v) \<Rightarrow> ('k, 'v) btmap \<Rightarrow> ('k, 'v) btmap" where
  "bt_alter k f [] = [(k, f None)]"
| "bt_alter k f ((k', v) # m) =
     (if k < k' then (k, f None) # (k', v) # m
      else if k = k' then (k, f (Some v)) # m
      else (k', v) # bt_alter k f m)"

definition bt_insert :: "'k::linorder \<Rightarrow> 'v \<Rightarrow> ('k, 'v) btmap \<Rightarrow> ('k, 'v) btmap" where
  "bt_insert k v = bt_alter k (\<lambda>_. v)"

definition bt_or_insert :: "'k::linorder \<Rightarrow> 'v \<Rightarrow> ('k, 'v) btmap \<Rightarrow> ('k, 'v) btmap" where
  "bt_or_insert k v = bt_alter k (\<lambda>o1. case o1 of None \<Rightarrow> v | Some w \<Rightarrow> w)"

definition bt_wf :: "('k::linorder, 'v) btmap \<Rightarrow> bool" where
  "bt_wf m \<longleftrightarrow> sorted_wrt (<) (map fst m)"

lemma bt_wf_Nil [simp]: "bt_wf []"
  by (simp add: bt_wf_def)

lemma bt_wf_Cons: "bt_wf ((k, v) # m) \<longleftrightarrow> (\<forall>k' \<in> fst ` set m. k < k') \<and> bt_wf m"
  by (simp add: bt_wf_def)

lemma bt_wf_distinct: "bt_wf m \<Longrightarrow> distinct (map fst m)"
  by (induction m) (auto simp: bt_wf_def)

lemma bt_keys_alter [alist_simps]: "fst ` set (bt_alter k f m) = insert k (fst ` set m)"
  by (induction k f m rule: bt_alter.induct) auto

lemma bt_wf_alter [simp]: "bt_wf m \<Longrightarrow> bt_wf (bt_alter k f m)"
proof (induction k f m rule: bt_alter.induct)
  case (2 k f k' v m)
  then show ?case by (auto simp: bt_wf_Cons bt_keys_alter)
qed (simp add: bt_wf_def)

lemma map_of_bt_alter [alist_simps]:
  "bt_wf m \<Longrightarrow> map_of (bt_alter k f m) = (map_of m)(k \<mapsto> f (map_of m k))"
proof (induction k f m rule: bt_alter.induct)
  case (2 k f k' v m)
  have "k < k' \<Longrightarrow> map_of m k = None"
    using 2(2) by (force simp: bt_wf_Cons map_of_eq_None_iff)
  with 2 show ?case by (auto simp: bt_wf_Cons fun_eq_iff)
qed (simp add: fun_eq_iff)

lemma bt_wf_or_insert [simp]: "bt_wf m \<Longrightarrow> bt_wf (bt_or_insert k v m)"
  by (simp add: bt_or_insert_def)

lemma map_of_bt_or_insert [alist_simps]:
  "bt_wf m \<Longrightarrow> map_of (bt_or_insert k v m) =
     (case map_of m k of None \<Rightarrow> (map_of m)(k \<mapsto> v) | Some _ \<Rightarrow> map_of m)"
  by (auto simp: bt_or_insert_def alist_simps split: option.splits)

lemma bt_wf_insert [simp]: "bt_wf m \<Longrightarrow> bt_wf (bt_insert k v m)"
  by (simp add: bt_insert_def)

lemma map_of_bt_insert [alist_simps]:
  "bt_wf m \<Longrightarrow> map_of (bt_insert k v m) = (map_of m)(k \<mapsto> v)"
  by (simp add: bt_insert_def alist_simps)

lemma bt_canonical:
  assumes "bt_wf m"
  shows "m = map (\<lambda>k. (k, the (map_of m k))) (sorted_list_of_set (fst ` set m))"
proof -
  have d: "distinct (map fst m)" using assms by (rule bt_wf_distinct)
  have "sorted (map fst m)"
    using assms unfolding bt_wf_def by (rule strict_sorted_imp_sorted)
  then have keys: "sorted_list_of_set (fst ` set m) = map fst m"
    using sorted_list_of_set.idem_if_sorted_distinct [of "map fst m"] d by simp
  have "map (\<lambda>k. (k, the (map_of m k))) (map fst m) = m"
    using d by (auto intro!: map_idI simp: o_def)
  with keys show ?thesis by simp
qed

lemma bt_eqI: "bt_wf m \<Longrightarrow> bt_wf m' \<Longrightarrow> map_of m = map_of m' \<Longrightarrow> m = m'"
  using bt_canonical [of m] bt_canonical [of m'] by (metis dom_map_of_conv_image_fst)

section \<open>HashMap\<close>

text \<open>
  \<open>HashMap\<close> updates are those of \<open>HOL-Library.AList\<close>: \<open>AList.update\<close> for \<open>insert\<close>,
  \<open>AList.delete\<close> for \<open>remove\<close>, \<open>filter\<close> for \<open>retain\<close> and \<open>map\<close> for \<open>values_mut\<close>.
\<close>

lemma map_of_update [alist_simps]: "map_of (AList.update k v m) = (map_of m)(k \<mapsto> v)"
  by (rule update_conv')

lemma map_of_delete [alist_simps]: "map_of (AList.delete k m) = (map_of m)(k := None)"
  by (rule delete_conv')

lemma map_of_map_values [alist_simps]:
  "map_of (map (\<lambda>(k, v). (k, f k v)) m) k = map_option (f k) (map_of m k)"
  by (induction m) auto

lemma map_of_filter_distinct [alist_simps]:
  "distinct (map fst m) \<Longrightarrow>
     map_of (filter P m) k = (case map_of m k of None \<Rightarrow> None
                              | Some v \<Rightarrow> if P (k, v) then Some v else None)"
proof (induction m)
  case (Cons a m)
  then show ?case
    by (cases a) (auto simp: image_iff split: option.splits dest: map_of_SomeD
        intro!: map_of_eq_None_iff [THEN iffD2])
qed simp

lemma map_of_in_set: "distinct (map fst m) \<Longrightarrow> map_of m k = Some v \<longleftrightarrow> (k, v) \<in> set m"
  by (rule map_of_eq_Some_iff)

text \<open>\<open>m.entry(k).or_default().push(v)\<close>.\<close>

definition hm_push :: "'k \<Rightarrow> 'v \<Rightarrow> ('k, 'v list) hmap \<Rightarrow> ('k, 'v list) hmap" where
  "hm_push k v m = AList.update k ((case map_of m k of None \<Rightarrow> [] | Some vs \<Rightarrow> vs) @ [v]) m"

definition hm_list :: "('k, 'v list) hmap \<Rightarrow> 'k \<Rightarrow> 'v list" where
  "hm_list m k = (case map_of m k of None \<Rightarrow> [] | Some vs \<Rightarrow> vs)"

lemma hm_list_Nil [simp]: "hm_list [] k = []"
  by (simp add: hm_list_def)

lemma hm_list_push [simp]:
  "hm_list (hm_push k v m) k' = (if k' = k then hm_list m k @ [v] else hm_list m k')"
  by (simp add: hm_list_def hm_push_def alist_simps split: option.splits)

section \<open>Printing and reading numbers\<close>

lemma to_digit_digit_char: "d < r \<Longrightarrow> r \<le> 16 \<Longrightarrow> to_digit r (digit_char d) = Some d"
  by (auto simp: to_digit_def digit_char_def Let_def)

lemma digits_value_append:
  "digits_value r a (xs @ ys) = (case digits_value r a xs of None \<Rightarrow> None | Some b \<Rightarrow> digits_value r b ys)"
  by (induction r a xs rule: digits_value.induct) (auto split: option.splits)

lemma digits_value_show_radix:
  assumes "2 \<le> r" "r \<le> 16"
  shows "digits_value r 0 (show_radix r n) = Some n"
  using assms
proof (induction r n rule: show_radix.induct)
  case (1 r n)
  show ?case
  proof (cases "n < r")
    case True
    with 1 show ?thesis by (simp add: show_radix.simps [of r n] to_digit_digit_char)
  next
    case False
    with 1 have "digits_value r 0 (show_radix r (n div r)) = Some (n div r)" by simp
    with 1 False show ?thesis
      by (simp add: show_radix.simps [of r n] digits_value_append to_digit_digit_char)
  qed
qed

lemma show_radix_not_Nil [simp]: "show_radix r n \<noteq> []"
  by (subst show_radix.simps) simp

lemma digit_char_not_plus: "d < 16 \<Longrightarrow> digit_char d \<noteq> CHR ''+''"
  by (auto simp: digit_char_def dest: arg_cong [where f = "of_char :: char \<Rightarrow> nat"])

lemma hd_show_radix_not_plus:
  assumes "2 \<le> r" "r \<le> 16"
  shows "hd (show_radix r n) \<noteq> CHR ''+''"
  using assms
proof (induction r n rule: show_radix.induct)
  case (1 r n)
  then show ?case
    by (cases "n < r") (auto simp: show_radix.simps [of r n] digit_char_not_plus)
qed

text \<open>Reading back what was printed, for any radix up to 16 and any value the type can hold.\<close>

lemma from_str_radix_show_radix:
  assumes "2 \<le> r" "r \<le> 16" "n < bound"
  shows "from_str_radix bound r (show_radix r n) = Some n"
proof -
  obtain c cs where s: "show_radix r n = c # cs"
    by (cases "show_radix r n") auto
  with hd_show_radix_not_plus [of r n] assms have "c \<noteq> CHR ''+''" by simp
  with digits_value_show_radix [of r n] assms s show ?thesis
    by (simp add: from_str_radix_def Let_def)
qed

section \<open>Results\<close>

text \<open>The question mark operator: an error ends the computation.\<close>

definition and_then :: "'e + 'a \<Rightarrow> ('a \<Rightarrow> 'e + 'b) \<Rightarrow> 'e + 'b" where
  "and_then r f = (case r of Inl e \<Rightarrow> Inl e | Inr a \<Rightarrow> f a)"

lemma and_then_Inr: "and_then r f = Inr b \<longleftrightarrow> (\<exists>a. r = Inr a \<and> f a = Inr b)"
  by (cases r) (auto simp: and_then_def)

lemma and_then_InrE: "and_then r f = Inr b \<Longrightarrow> (\<And>a. r = Inr a \<Longrightarrow> f a = Inr b \<Longrightarrow> thesis) \<Longrightarrow> thesis"
  by (auto simp: and_then_Inr)

lemma and_then_Inl: "and_then r f = Inl e \<longleftrightarrow> r = Inl e \<or> (\<exists>a. r = Inr a \<and> f a = Inl e)"
  by (cases r) (auto simp: and_then_def)

lemma map_sum_Inl_iff: "map_sum f g x = Inl y \<longleftrightarrow> (\<exists>z. x = Inl z \<and> y = f z)"
  by (cases x) auto

lemma map_sum_Inr_iff: "map_sum f g x = Inr y \<longleftrightarrow> (\<exists>z. x = Inr z \<and> y = g z)"
  by (cases x) auto

section \<open>Step systems\<close>

text \<open>
  What the state machines of the components share: a predicate that every step keeps holds in every
  later state, and a step relation whose steps are runs of another one only has runs of it.
\<close>

locale step_invariant =
  fixes step :: "'s \<Rightarrow> 's \<Rightarrow> bool" and inv :: "'s \<Rightarrow> bool"
  assumes inv_step: "step s s' \<Longrightarrow> inv s \<Longrightarrow> inv s'"
begin

lemma inv_steps: "step\<^sup>*\<^sup>* s s' \<Longrightarrow> inv s \<Longrightarrow> inv s'"
  by (induction rule: rtranclp_induct) (auto intro: inv_step)

end

locale step_simulation =
  fixes step :: "'s \<Rightarrow> 's \<Rightarrow> bool" and abstract_step :: "'a \<Rightarrow> 'a \<Rightarrow> bool" and abs :: "'s \<Rightarrow> 'a"
  assumes sim_step: "step s s' \<Longrightarrow> abstract_step\<^sup>*\<^sup>* (abs s) (abs s')"
begin

lemma sim_steps: "step\<^sup>*\<^sup>* s s' \<Longrightarrow> abstract_step\<^sup>*\<^sup>* (abs s) (abs s')"
  by (induction rule: rtranclp_induct) (auto dest: sim_step)

end

section \<open>Lists\<close>

lemma prefix_drop_append: "prefix p s \<Longrightarrow> p @ drop (length p) s = s"
  by (auto simp: prefix_def)

lemma as_bytes_append: "as_bytes (s @ t) = as_bytes s @ as_bytes t"
  by (simp add: as_bytes_def)

lemma length_as_bytes [simp]: "length (as_bytes s) = length s"
  by (simp add: as_bytes_def)

end
