(* ===== verification/Externals.thy ===== *)
theory Externals
  imports Prelude
begin

text \<open>
  The data that crosses the boundary to the libraries the sources use (\<open>serde_json\<close> values,
  EVM logs, ABI-decoded values), and the functions of those libraries as one record of
  parameters. Every definition that calls such a function takes the record as its first argument;
  what a property relies on of a library function is a hypothesis of that property.
\<close>

section \<open>JSON values\<close>

text \<open>
  \<open>serde_json::Value\<close>. A number is represented by the text that its \<open>to_string()\<close> prints. An
  object is its entries in the order the map iterates.
\<close>

datatype json =
    JNull
  | JBool bool
  | JNumber string
  | JString string
  | JArray "json list"
  | JObject "(string \<times> json) list"

definition as_str :: "json \<Rightarrow> string option" where
  "as_str v = (case v of JString s \<Rightarrow> Some s | _ \<Rightarrow> None)"

definition as_array :: "json \<Rightarrow> json list option" where
  "as_array v = (case v of JArray xs \<Rightarrow> Some xs | _ \<Rightarrow> None)"

definition as_object :: "json \<Rightarrow> (string \<times> json) list option" where
  "as_object v = (case v of JObject kvs \<Rightarrow> Some kvs | _ \<Rightarrow> None)"

text \<open>\<open>Value::get\<close> with a string key.\<close>

definition json_get :: "json \<Rightarrow> string \<Rightarrow> json option" where
  "json_get v k = (case v of JObject kvs \<Rightarrow> map_of kvs k | _ \<Rightarrow> None)"

text \<open>\<open>slice::get\<close>.\<close>

definition list_get :: "'a list \<Rightarrow> nat \<Rightarrow> 'a option" where
  "list_get xs i = (if i < length xs then Some (xs ! i) else None)"

lemma list_get_simps [simp]:
  "list_get [] i = None"
  "list_get (x # xs) 0 = Some x"
  "list_get (x # xs) (Suc i) = list_get xs i"
  by (auto simp: list_get_def)

section \<open>Logs and ABI values\<close>

record log =
  log_address :: address
  log_topics :: "b256 list"
  log_data :: "byte list"

text \<open>\<open>alloy_dyn_abi::DynSolValue\<close>; \<open>DOther\<close> stands for the remaining variants, by their debug text.\<close>

datatype dyn_value =
    DAddress address
  | DUint u256 nat
  | DInt u256 nat
  | DBool bool
  | DString string
  | DFixedBytes b256 nat
  | DBytes "byte list"
  | DArray "dyn_value list"
  | DFixedArray "dyn_value list"
  | DTuple "dyn_value list"
  | DOther string

text \<open>\<open>alloy_dyn_abi::DynSolType\<close> is represented by its canonical \<open>sol_type_name\<close>.\<close>

type_synonym sol_type = string

section \<open>Library functions\<close>

record ext =
  address_from_str :: "string \<Rightarrow> address option"
  address_error :: "string \<Rightarrow> string"
  b256_from_str :: "string \<Rightarrow> b256 option"
  u256_from_str :: "string \<Rightarrow> u256 option"
  u256_from_str_radix_16 :: "string \<Rightarrow> u256 option"
  number_as_f64_is_zero :: "string \<Rightarrow> bool option"
  address_lower_hex :: "address \<Rightarrow> string"
  b256_lower_hex :: "b256 \<Rightarrow> string"
  u256_to_string :: "u256 \<Rightarrow> string"
  i256_to_string :: "u256 \<Rightarrow> string"
  hex_encode :: "byte list \<Rightarrow> string"
  json_to_string :: "json \<Rightarrow> string"
  json_from_str :: "string \<Rightarrow> json option"
  keccak256 :: "byte list \<Rightarrow> b256"
  sol_type_parse :: "string \<Rightarrow> string + sol_type"
  decode_log_parts :: "b256 option \<Rightarrow> sol_type list \<Rightarrow> sol_type list \<Rightarrow> b256 list \<Rightarrow> byte list
    \<Rightarrow> (dyn_value list \<times> dyn_value list) option"


section \<open>A concrete instance\<close>

text \<open>
  An instance of the parameters for concrete examples. Addresses and hashes are read from and
  printed as hex digits, unsigned integers as decimal or \<open>0x\<close>-prefixed text; ABI decoding knows
  the static one-word types \<open>address\<close>, \<open>uint256\<close> and \<open>bool\<close>; the digest is a stand-in that is
  not meant to be a hash function.
\<close>

definition parse_fixed_hex :: "nat \<Rightarrow> string \<Rightarrow> nat option" where
  "parse_fixed_hex n s =
     (let h = (case strip_prefix ''0x'' s of Some t \<Rightarrow> t | None \<Rightarrow> s) in
      if length h = n then digits_value 16 0 h else None)"

definition sample_u256_hex :: "string \<Rightarrow> u256 option" where
  "sample_u256_hex h = map_option (\<lambda>n. word_of_int (int n)) (from_str_radix 0x10000000000000000000000000000000000000000000000000000000000000000 16 h)"

definition sample_u256 :: "string \<Rightarrow> u256 option" where
  "sample_u256 s = (case strip_prefix ''0x'' s of
       Some h \<Rightarrow> sample_u256_hex h
     | None \<Rightarrow> map_option (\<lambda>n. word_of_int (int n)) (from_str_radix 0x10000000000000000000000000000000000000000000000000000000000000000 10 s))"

definition sample_address :: "string \<Rightarrow> address option" where
  "sample_address s = map_option (\<lambda>n. word_of_int (int n)) (parse_fixed_hex 40 s)"

definition sample_b256 :: "string \<Rightarrow> b256 option" where
  "sample_b256 s = map_option (\<lambda>n. word_of_int (int n)) (parse_fixed_hex 64 s)"

definition sample_lower_hex :: "'a::len word \<Rightarrow> string" where
  "sample_lower_hex w = ''0x'' @ show_radix 16 (unat w)"

definition sample_decimal :: "u256 \<Rightarrow> string" where
  "sample_decimal w = show_radix 10 (unat w)"

definition sample_hex_encode :: "byte list \<Rightarrow> string" where
  "sample_hex_encode bs = concat (map (\<lambda>b. show_radix 16 (unat b)) bs)"

definition sample_digest :: "byte list \<Rightarrow> b256" where
  "sample_digest bs = word_of_int (int (length bs))"

definition sample_sol_type :: "string \<Rightarrow> string + sol_type" where
  "sample_sol_type s = (if s = ''address'' \<or> s = ''uint256'' \<or> s = ''bool'' then Inr s else Inl s)"

definition be_value :: "byte list \<Rightarrow> nat" where
  "be_value bs = fold (\<lambda>b acc. acc * 256 + unat b) bs 0"

definition sample_word_value :: "sol_type \<Rightarrow> nat \<Rightarrow> dyn_value option" where
  "sample_word_value t n =
     (if t = ''address'' then Some (DAddress (word_of_int (int n)))
      else if t = ''uint256'' then Some (DUint (word_of_int (int n)) 256)
      else if t = ''bool'' then (if n \<le> 1 then Some (DBool (n = 1)) else None)
      else None)"

fun sample_indexed :: "sol_type list \<Rightarrow> b256 list \<Rightarrow> dyn_value list option" where
  "sample_indexed [] [] = Some []"
| "sample_indexed (t # ts) (w # ws) =
     (case sample_word_value t (unat w) of
        None \<Rightarrow> None
      | Some v \<Rightarrow> map_option (Cons v) (sample_indexed ts ws))"
| "sample_indexed ts ws = None"

fun sample_body :: "sol_type list \<Rightarrow> byte list \<Rightarrow> dyn_value list option" where
  "sample_body [] bs = Some []"
| "sample_body (t # ts) bs =
     (if length bs < 32 then None
      else case sample_word_value t (be_value (take 32 bs)) of
             None \<Rightarrow> None
           | Some v \<Rightarrow> map_option (Cons v) (sample_body ts (drop 32 bs)))"

definition sample_decode :: "b256 option \<Rightarrow> sol_type list \<Rightarrow> sol_type list \<Rightarrow> b256 list \<Rightarrow> byte list
    \<Rightarrow> (dyn_value list \<times> dyn_value list) option" where
  "sample_decode topic0 indexed body topics data =
     (let rest = (case topic0 of
                    None \<Rightarrow> Some topics
                  | Some t \<Rightarrow> (case topics of x # xs \<Rightarrow> if x = t then Some xs else None | [] \<Rightarrow> None))
      in case rest of
           None \<Rightarrow> None
         | Some ts \<Rightarrow>
             (case (sample_indexed indexed ts, sample_body body data) of
                (Some i, Some bd) \<Rightarrow> Some (i, bd)
              | _ \<Rightarrow> None))"

definition sample_ext :: ext where
  "sample_ext = \<lparr>
     address_from_str = sample_address,
     address_error = (\<lambda>s. ''invalid address''),
     b256_from_str = sample_b256,
     u256_from_str = sample_u256,
     u256_from_str_radix_16 = sample_u256_hex,
     number_as_f64_is_zero = (\<lambda>s. Some (s = ''0'')),
     address_lower_hex = sample_lower_hex,
     b256_lower_hex = sample_lower_hex,
     u256_to_string = sample_decimal,
     i256_to_string = sample_decimal,
     hex_encode = sample_hex_encode,
     json_to_string = (\<lambda>v. ''json''),
     json_from_str = (\<lambda>s. None),
     keccak256 = sample_digest,
     sol_type_parse = sample_sol_type,
     decode_log_parts = sample_decode \<rparr>"

end
