(* ===== verification/Json_Logic.thy ===== *)
theory Json_Logic
  imports Externals
begin

text \<open>
  The JSONLogic evaluator of \<open>crates/rcs-filter/src/rules/jsonlogic.rs\<close>: the raw evaluator
  (\<open>eval\<close>), load-time validation (\<open>validate\<close>), and the compiled form of a condition with its
  interned address sets (\<open>compile\<close>, \<open>eval_compiled\<close>).
\<close>

section \<open>Values\<close>

type_synonym bindings = "string \<Rightarrow> json option"

definition is_truthy :: "ext \<Rightarrow> json \<Rightarrow> bool" where
  "is_truthy E v = (case v of
       JBool x \<Rightarrow> x
     | JNull \<Rightarrow> False
     | JNumber n \<Rightarrow> (case number_as_f64_is_zero E n of Some z \<Rightarrow> \<not> z | None \<Rightarrow> True)
     | JString s \<Rightarrow> s \<noteq> []
     | JArray xs \<Rightarrow> xs \<noteq> []
     | JObject kvs \<Rightarrow> True)"

definition to_u256 :: "ext \<Rightarrow> json \<Rightarrow> u256 option" where
  "to_u256 E v = (case v of
       JNumber n \<Rightarrow> u256_from_str E n
     | JString s0 \<Rightarrow>
         (let s = trim s0 in
          case (case strip_prefix ''0x'' s of Some h \<Rightarrow> Some h | None \<Rightarrow> strip_prefix ''0X'' s) of
            Some h \<Rightarrow> u256_from_str_radix_16 E h
          | None \<Rightarrow> u256_from_str E s)
     | _ \<Rightarrow> None)"

definition value_eq :: "ext \<Rightarrow> json \<times> json \<Rightarrow> bool" where
  "value_eq E p = (case p of (l, r) \<Rightarrow>
     if l = JNull \<or> r = JNull then l = JNull \<and> r = JNull
     else (case (to_u256 E l, to_u256 E r) of
       (Some lu, Some ru) \<Rightarrow> lu = ru
     | _ \<Rightarrow>
        (case (as_str l, as_str r) of
           (Some ls, Some rs) \<Rightarrow>
             (case (address_from_str E ls, address_from_str E rs) of
                (Some la, Some ra) \<Rightarrow> la = ra
              | _ \<Rightarrow> l = r)
         | _ \<Rightarrow> l = r)))"

definition eval_var :: "bindings \<Rightarrow> json \<Rightarrow> json" where
  "eval_var b arg = (case arg of
       JString name \<Rightarrow> (case b name of Some v \<Rightarrow> v | None \<Rightarrow> JNull)
     | JArray parts \<Rightarrow>
         (case Option.bind (Option.bind (list_get parts 0) as_str) b of
            Some v \<Rightarrow> v
          | None \<Rightarrow> (case list_get parts 1 of Some d \<Rightarrow> d | None \<Rightarrow> JNull))
     | _ \<Rightarrow> JNull)"

definition first_operand :: "json \<Rightarrow> json" where
  "first_operand arg = (case arg of
       JArray items \<Rightarrow> (case list_get items 0 of Some v \<Rightarrow> v | None \<Rightarrow> JNull)
     | other \<Rightarrow> other)"

text \<open>The needle and the haystack are the two evaluated operands.\<close>

definition eval_in :: "ext \<Rightarrow> json \<times> json \<Rightarrow> bool" where
  "eval_in E p = (case p of (needle, hay) \<Rightarrow> (case hay of
       JArray items \<Rightarrow> list_ex (\<lambda>item. value_eq E (needle, item)) items
     | JString s \<Rightarrow> (case as_str needle of Some n \<Rightarrow> sublist n s | None \<Rightarrow> False)
     | _ \<Rightarrow> False))"

definition cmp :: "ext \<Rightarrow> json \<times> json \<Rightarrow> (u256 \<Rightarrow> u256 \<Rightarrow> bool) \<Rightarrow> json" where
  "cmp E p pass = (case (to_u256 E (fst p), to_u256 E (snd p)) of
       (Some lu, Some ru) \<Rightarrow> JBool (pass lu ru)
     | _ \<Rightarrow> JBool False)"

section \<open>The raw evaluator\<close>

lemma size_first_operand: "size (first_operand arg) \<le> size arg"
proof (cases arg)
  case (JArray xs)
  then show ?thesis by (cases xs) (simp_all add: first_operand_def)
qed (simp_all add: first_operand_def)

lemma size_list_member: "x \<in> set xs \<Longrightarrow> size x \<le> size_list size xs"
  by (induction xs) auto

lemma eval_term_member: "x \<in> set xs \<Longrightarrow> 3 * size x < 3 + 3 * size_list size (xs :: json list)"
  using size_list_member [of x xs] by simp

lemma eval_term_operand: "3 * size (first_operand arg) < 2 + 3 * size arg"
  using size_first_operand [of arg] by simp

lemma compile_term_operand: "2 * size (first_operand arg) < 6 + 2 * size arg"
  using size_first_operand [of arg] by simp

function (sequential) eval :: "ext \<Rightarrow> bindings \<Rightarrow> json \<Rightarrow> json"
  and eval_op :: "ext \<Rightarrow> bindings \<Rightarrow> string \<Rightarrow> json \<Rightarrow> json"
  and two :: "ext \<Rightarrow> bindings \<Rightarrow> json \<Rightarrow> json \<times> json"
  and eval_and :: "ext \<Rightarrow> bindings \<Rightarrow> json \<Rightarrow> json list \<Rightarrow> json"
  and eval_or :: "ext \<Rightarrow> bindings \<Rightarrow> json \<Rightarrow> json list \<Rightarrow> json" where
  "eval E b (JObject [(op, arg)]) = eval_op E b op arg"
| "eval E b (JArray items) = JArray (map (eval E b) items)"
| "eval E b v = v"
| "eval_op E b op arg =
     (if op = ''var'' then eval_var b arg
      else if op = ''=='' then JBool (value_eq E (two E b arg))
      else if op = ''!='' then JBool (\<not> value_eq E (two E b arg))
      else if op = ''in'' then JBool (eval_in E (two E b arg))
      else if op = ''and'' then (case arg of JArray items \<Rightarrow> eval_and E b JNull items | _ \<Rightarrow> JNull)
      else if op = ''or'' then (case arg of JArray items \<Rightarrow> eval_or E b JNull items | _ \<Rightarrow> JNull)
      else if op = ''!'' then JBool (\<not> is_truthy E (eval E b (first_operand arg)))
      else if op = ''>'' then cmp E (two E b arg) (\<lambda>l r. l > r)
      else if op = ''>='' then cmp E (two E b arg) (\<lambda>l r. l \<ge> r)
      else if op = ''<'' then cmp E (two E b arg) (\<lambda>l r. l < r)
      else if op = ''<='' then cmp E (two E b arg) (\<lambda>l r. l \<le> r)
      else JNull)"
| "two E b (JArray []) = (JNull, JNull)"
| "two E b (JArray [x]) = (eval E b x, JNull)"
| "two E b (JArray (x # y # zs)) = (eval E b x, eval E b y)"
| "two E b arg = (eval E b arg, JNull)"
| "eval_and E b prev [] = prev"
| "eval_and E b prev (item # items) =
     (let cur = eval E b item in if \<not> is_truthy E cur then cur else eval_and E b cur items)"
| "eval_or E b prev [] = prev"
| "eval_or E b prev (item # items) =
     (let cur = eval E b item in if is_truthy E cur then cur else eval_or E b cur items)"
  by pat_completeness auto
termination
  by (relation "measure (case_sum
        (case_sum (\<lambda>(E, b, v). 3 * size v) (\<lambda>(E, b, op, arg). 3 * size arg + 2))
        (case_sum (\<lambda>(E, b, arg). 3 * size arg + 1)
          (case_sum (\<lambda>(E, b, p, items). 3 * size_list size items + 1)
                    (\<lambda>(E, b, p, items). 3 * size_list size items + 1))))")
    (use eval_term_member eval_term_operand in \<open>simp_all add: numeral_eq_Suc\<close>)

text \<open>\<open>truthy\<close> is the entry point of the raw evaluator.\<close>

definition truthy :: "ext \<Rightarrow> json \<Rightarrow> bindings \<Rightarrow> bool" where
  "truthy E expr b = is_truthy E (eval E b expr)"

section \<open>Load-time validation\<close>

definition operands_of :: "json \<Rightarrow> json list" where
  "operands_of arg = (case arg of JArray items \<Rightarrow> items | other \<Rightarrow> [other])"

definition check_operator :: "string \<Rightarrow> json \<Rightarrow> string + unit" where
  "check_operator op arg =
     (let operands = operands_of arg in
      if op = ''var'' then
        (if \<not> (1 \<le> length operands \<and> length operands \<le> 2) \<or> as_str (operands ! 0) = None
         then Inl ''JSONLogic 'var' expects a name and optional default'' else Inr ())
      else if op \<in> {''=='', ''!='', ''in'', ''>'', ''>='', ''<'', ''<=''} then
        (if length operands \<noteq> 2
         then Inl (''JSONLogic '' @ quote_str op @ '' expects exactly two operands'') else Inr ())
      else if op = ''!'' then
        (if length operands \<noteq> 1 then Inl ''JSONLogic '!' expects exactly one operand'' else Inr ())
      else if op \<in> {''and'', ''or''} then
        (if as_array arg = None
         then Inl (''JSONLogic '' @ quote_str op @ '' expects an operand array'') else Inr ())
      else Inl (''unsupported JSONLogic operator '' @ quote_str op))"

fun validate :: "json \<Rightarrow> string + unit"
  and validate_all :: "json list \<Rightarrow> string + unit" where
  "validate (JObject [(op, JArray items)]) =
     (case check_operator op (JArray items) of Inl e \<Rightarrow> Inl e | Inr _ \<Rightarrow> validate_all items)"
| "validate (JObject [(op, arg)]) =
     (case check_operator op arg of Inl e \<Rightarrow> Inl e | Inr _ \<Rightarrow> validate arg)"
| "validate (JObject kvs) = Inl ''JSONLogic expression objects must contain exactly one operator''"
| "validate (JArray items) = validate_all items"
| "validate v = Inr ()"
| "validate_all [] = Inr ()"
| "validate_all (v # vs) = (case validate v of Inl e \<Rightarrow> Inl e | Inr _ \<Rightarrow> validate_all vs)"

section \<open>Compiled conditions\<close>

text \<open>
  An \<open>Arc<HashSet<Address>>\<close> is the set it points to: sharing is not observable, since the sets are
  never written after they are built. The interner maps a normalised address list to its set.
\<close>

type_synonym interner = "address list \<Rightarrow> address set option"

datatype compiled_condition =
    AddressSetIn json "address set" json
  | CAnd "compiled_condition list"
  | COr "compiled_condition list"
  | CNot compiled_condition
  | CRaw json

definition interner_new :: interner where
  "interner_new = Map.empty"

definition intern :: "address list \<Rightarrow> interner \<Rightarrow> address set \<times> interner" where
  "intern addrs I =
     (let k = remdups_adj (sort addrs) in
      case I k of Some s \<Rightarrow> (s, I) | None \<Rightarrow> (set k, I(k \<mapsto> set k)))"

fun collect_some :: "'a option list \<Rightarrow> 'a list option" where
  "collect_some [] = Some []"
| "collect_some (None # xs) = None"
| "collect_some (Some x # xs) = map_option (Cons x) (collect_some xs)"

definition static_address_list :: "ext \<Rightarrow> json \<Rightarrow> address list option" where
  "static_address_list E haystack = (case haystack of
       JArray items \<Rightarrow>
         (if items = [] then None
          else collect_some (map (\<lambda>it. Option.bind (as_str it) (address_from_str E)) items))
     | _ \<Rightarrow> None)"

fun contains_address_set :: "compiled_condition \<Rightarrow> bool" where
  "contains_address_set (AddressSetIn n s orig) = True"
| "contains_address_set (CAnd xs) = list_ex contains_address_set xs"
| "contains_address_set (COr xs) = list_ex contains_address_set xs"
| "contains_address_set (CNot x) = contains_address_set x"
| "contains_address_set (CRaw v) = False"

text \<open>The fast membership node: \<open>in\<close> with two operands, the second a static address list.\<close>

definition address_set_node :: "ext \<Rightarrow> string \<Rightarrow> json \<Rightarrow> (json \<times> address list) option" where
  "address_set_node E op arg =
     (if op = ''in'' then
        (case arg of
           JArray [needle, hay] \<Rightarrow> map_option (\<lambda>addrs. (needle, addrs)) (static_address_list E hay)
         | _ \<Rightarrow> None)
      else None)"

function (sequential) compile :: "ext \<Rightarrow> json \<Rightarrow> interner \<Rightarrow> compiled_condition \<times> interner"
  and compile_all :: "ext \<Rightarrow> json list \<Rightarrow> interner \<Rightarrow> compiled_condition list \<times> interner" where
  "compile E (JObject [(op, arg)]) I =
     (let expr = JObject [(op, arg)] in
      case address_set_node E op arg of
        Some (needle, addrs) \<Rightarrow> (case intern addrs I of (s, I') \<Rightarrow> (AddressSetIn needle s expr, I'))
      | None \<Rightarrow>
          if op = ''and'' \<or> op = ''or'' then
            (case arg of
               JArray items \<Rightarrow>
                 (case compile_all E items I of (children, I') \<Rightarrow>
                    if list_ex contains_address_set children
                    then (if op = ''and'' then (CAnd children, I') else (COr children, I'))
                    else (CRaw expr, I'))
             | _ \<Rightarrow> (CRaw expr, I))
          else if op = ''!'' then
            (case compile E (first_operand arg) I of (child, I') \<Rightarrow>
               if contains_address_set child then (CNot child, I') else (CRaw expr, I'))
          else (CRaw expr, I))"
| "compile E expr I = (CRaw expr, I)"
| "compile_all E [] I = ([], I)"
| "compile_all E (it # items) I =
     (case compile E it I of (c, I') \<Rightarrow>
      case compile_all E items I' of (cs, I'') \<Rightarrow> (c # cs, I''))"
  by pat_completeness auto
termination
  by (relation "measure (case_sum (\<lambda>(E, v, I). 2 * size v)
                                  (\<lambda>(E, vs, I). 2 * size_list size vs + 1))")
    (use compile_term_operand in \<open>simp_all add: numeral_eq_Suc\<close>)

fun eval_compiled :: "ext \<Rightarrow> compiled_condition \<Rightarrow> bindings \<Rightarrow> bool" where
  "eval_compiled E (CRaw v) b = truthy E v b"
| "eval_compiled E (AddressSetIn needle s orig) b =
     (case eval E b needle of
        JString str \<Rightarrow>
          (case address_from_str E str of Some addr \<Rightarrow> addr \<in> s | None \<Rightarrow> truthy E orig b)
      | _ \<Rightarrow> truthy E orig b)"
| "eval_compiled E (CAnd xs) b = list_all (\<lambda>x. eval_compiled E x b) xs"
| "eval_compiled E (COr xs) b = list_ex (\<lambda>x. eval_compiled E x b) xs"
| "eval_compiled E (CNot x) b = (\<not> eval_compiled E x b)"


section \<open>The interner\<close>

definition interner_ok :: "interner \<Rightarrow> bool" where
  "interner_ok I \<longleftrightarrow> (\<forall>k s. I k = Some s \<longrightarrow> s = set k)"

lemma interner_ok_new [simp]: "interner_ok interner_new"
  by (simp add: interner_ok_def interner_new_def)

lemma intern_correct:
  assumes "interner_ok I" and "intern addrs I = (s, I')"
  shows "s = set addrs" and "interner_ok I'"
proof -
  have *: "set (remdups_adj (sort addrs)) = set addrs" by simp
  show "s = set addrs"
    using assms unfolding interner_ok_def intern_def Let_def
    by (cases "I (remdups_adj (sort addrs))") (use * in \<open>force+\<close>)
  show "interner_ok I'"
    using assms by (auto simp: intern_def Let_def interner_ok_def split: option.splits if_splits)
qed

section \<open>The strings an evaluation can produce\<close>

fun json_strings :: "json \<Rightarrow> string list" where
  "json_strings (JString s) = [s]"
| "json_strings (JArray items) = concat (map json_strings items)"
| "json_strings (JObject kvs) = concat (map (\<lambda>kv. json_strings (snd kv)) kvs)"
| "json_strings v = []"

definition strings_ok :: "(string \<Rightarrow> bool) \<Rightarrow> json \<Rightarrow> bool" where
  "strings_ok P v \<longleftrightarrow> (\<forall>s \<in> set (json_strings v). P s)"

definition bindings_ok :: "(string \<Rightarrow> bool) \<Rightarrow> bindings \<Rightarrow> bool" where
  "bindings_ok P b \<longleftrightarrow> (\<forall>n v. b n = Some v \<longrightarrow> strings_ok P v)"

lemma strings_ok_simps [simp]:
  "strings_ok P JNull" "strings_ok P (JBool x)" "strings_ok P (JNumber n)"
  "strings_ok P (JString s) \<longleftrightarrow> P s"
  "strings_ok P (JArray items) \<longleftrightarrow> (\<forall>v \<in> set items. strings_ok P v)"
  "strings_ok P (JObject [(op, arg)]) \<longleftrightarrow> strings_ok P arg"
  by (auto simp: strings_ok_def)

lemma strings_ok_cmp [simp]: "strings_ok P (cmp E p f)"
  by (auto simp: cmp_def split: option.splits)

lemma list_get_mem: "list_get xs i = Some x \<Longrightarrow> x \<in> set xs"
  by (auto simp: list_get_def split: if_splits)

lemma strings_ok_first_operand: "strings_ok P arg \<Longrightarrow> strings_ok P (first_operand arg)"
  by (auto simp: first_operand_def dest: list_get_mem split: json.splits option.splits)

lemma strings_ok_eval_var:
  "bindings_ok P b \<Longrightarrow> strings_ok P arg \<Longrightarrow> strings_ok P (eval_var b arg)"
  by (auto simp: eval_var_def bindings_ok_def bind_eq_Some_conv dest: list_get_mem
      split: json.splits option.splits)

lemma eval_op_other:
  "op \<notin> {''var'', ''and'', ''or''} \<Longrightarrow> strings_ok P (eval_op E b op arg)"
  by (simp only: eval_op.simps if_distrib [of "strings_ok P"]) simp

lemma eval_op_literals:
  "eval_op E b ''var'' arg = eval_var b arg"
  "eval_op E b ''in'' arg = JBool (eval_in E (two E b arg))"
  "eval_op E b ''and'' arg = (case arg of JArray items \<Rightarrow> eval_and E b JNull items | _ \<Rightarrow> JNull)"
  "eval_op E b ''or'' arg = (case arg of JArray items \<Rightarrow> eval_or E b JNull items | _ \<Rightarrow> JNull)"
  "eval_op E b ''!'' arg = JBool (\<not> is_truthy E (eval E b (first_operand arg)))"
  by simp_all

declare eval_op.simps [simp del]

lemma strings_ok_eval_all:
  assumes "bindings_ok P b"
  shows "strings_ok P v \<Longrightarrow> strings_ok P (eval E b v)"
    and "strings_ok P arg \<Longrightarrow> strings_ok P (eval_op E b op arg)"
    and "strings_ok P arg2 \<Longrightarrow> strings_ok P (fst (two E b arg2)) \<and> strings_ok P (snd (two E b arg2))"
    and "strings_ok P p1 \<Longrightarrow> \<forall>i \<in> set items1. strings_ok P i \<Longrightarrow> strings_ok P (eval_and E b p1 items1)"
    and "strings_ok P p2 \<Longrightarrow> \<forall>i \<in> set items2. strings_ok P i \<Longrightarrow> strings_ok P (eval_or E b p2 items2)"
  using assms
proof (induction E b v and E b op arg and E b arg2 and E b p1 items1 and E b p2 items2
    rule: eval_eval_op_two_eval_and_eval_or.induct)
  case (4 E b op arg)
  show ?case
  proof (cases "op \<in> {''var'', ''and'', ''or''}")
    case True
    then consider "op = ''var''" | "op = ''and''" | "op = ''or''" by auto
    then show ?thesis
    proof cases
      case 1
      with 4 show ?thesis by (simp add: eval_op_literals strings_ok_eval_var)
    next
      case 2
      with 4 show ?thesis by (cases arg) (simp_all add: eval_op_literals)
    next
      case 3
      with 4 show ?thesis by (cases arg) (simp_all add: eval_op_literals)
    qed
  qed (rule eval_op_other)
qed (auto simp: Let_def)

lemmas strings_ok_eval = strings_ok_eval_all(1)

section \<open>Compiled conditions agree with the raw evaluator\<close>

text \<open>
  The coercion of an address literal to \<open>uint256\<close>, when it succeeds, is the value of the address:
  so for every \<open>0x\<close>-prefixed literal, and for an unprefixed one with a hex letter in it.
\<close>

definition address_literal_ok :: "ext \<Rightarrow> string \<Rightarrow> bool" where
  "address_literal_ok E s \<longleftrightarrow> (case address_from_str E s of
       None \<Rightarrow> True
     | Some a \<Rightarrow> (case to_u256 E (JString s) of None \<Rightarrow> True | Some u \<Rightarrow> u = ucast a))"

lemma ucast_address_inj: "(ucast (a :: address) :: u256) = ucast c \<longleftrightarrow> a = c"
  by transfer simp

lemma value_eq_addresses:
  assumes "address_literal_ok E s" "address_literal_ok E t"
    and "address_from_str E s = Some a" "address_from_str E t = Some c"
  shows "value_eq E (JString s, JString t) \<longleftrightarrow> a = c"
  using assms
  by (auto simp: value_eq_def address_literal_ok_def as_str_def ucast_address_inj
      split: option.splits)

lemma value_eq_commute: "value_eq E (l, r) = value_eq E (r, l)"
  by (auto simp: value_eq_def split: option.splits)

lemma collect_some_Some: "collect_some xs = Some ys \<longleftrightarrow> xs = map Some ys"
  by (induction xs arbitrary: ys rule: collect_some.induct) (auto simp: Cons_eq_map_conv)

lemma static_address_list_Some:
  assumes "static_address_list E hay = Some addrs"
  obtains ss where "hay = JArray (map JString ss)" "map (address_from_str E) ss = map Some addrs"
proof -
  obtain items where items: "hay = JArray items"
    "map (\<lambda>it. Option.bind (as_str it) (address_from_str E)) items = map Some addrs"
    using assms by (auto simp: static_address_list_def collect_some_Some split: json.splits if_splits)
  have "\<exists>ss. items = map JString ss \<and> map (address_from_str E) ss = map Some addrs"
    using items(2)
  proof (induction items arbitrary: addrs)
    case (Cons it items)
    then obtain a as where a: "addrs = a # as"
      "map (\<lambda>it. Option.bind (as_str it) (address_from_str E)) items = map Some as"
      "Option.bind (as_str it) (address_from_str E) = Some a"
      by (auto simp: map_eq_Cons_conv Cons_eq_map_conv)
    then obtain ss s where "items = map JString ss" "map (address_from_str E) ss = map Some as"
      "it = JString s" "address_from_str E s = Some a"
      using Cons.IH by (auto simp: as_str_def bind_eq_Some_conv split: json.splits)
    with a show ?case by (intro exI [of _ "s # ss"]) simp
  qed simp
  with items(1) that show thesis by blast
qed

lemma truthy_in_address_list:
  assumes "static_address_list E hay = Some addrs" "strings_ok (address_literal_ok E) hay"
    and "eval E b needle = JString s" "address_from_str E s = Some a" "address_literal_ok E s"
  shows "truthy E (JObject [(''in'', JArray [needle, hay])]) b \<longleftrightarrow> a \<in> set addrs"
proof -
  obtain ss where ss: "hay = JArray (map JString ss)" "map (address_from_str E) ss = map Some addrs"
    using assms(1) by (rule static_address_list_Some)
  have ev: "eval E b hay = hay"
    by (simp add: ss(1) o_def)
  have all: "list_all2 (\<lambda>t c. address_from_str E t = Some c) ss addrs"
    using ss(2) by (simp add: list_all2_conv_all_nth list_eq_iff_nth_eq)
  have "list_ex (\<lambda>t. value_eq E (JString s, JString t)) ss \<longleftrightarrow> a \<in> set addrs"
    using all assms(2) unfolding ss(1)
    by (induction rule: list_all2_induct) (auto simp: value_eq_addresses [OF assms(5) _ assms(4)])
  then show ?thesis
    by (simp add: truthy_def eval_op_literals is_truthy_def eval_in_def assms(3) ev)
      (simp add: ss(1) list_ex_iff)
qed

lemma is_truthy_eval_and:
  "is_truthy E (eval_and E b prev items) \<longleftrightarrow>
     (if items = [] then is_truthy E prev else list_all (\<lambda>i. truthy E i b) items)"
  by (induction items arbitrary: prev) (auto simp: Let_def truthy_def)

lemma is_truthy_eval_or:
  "is_truthy E (eval_or E b prev items) \<longleftrightarrow>
     (if items = [] then is_truthy E prev else list_ex (\<lambda>i. truthy E i b) items)"
  by (induction items arbitrary: prev) (auto simp: Let_def truthy_def)

lemma truthy_and_or:
  assumes "items \<noteq> []"
  shows "truthy E (JObject [(''and'', JArray items)]) b \<longleftrightarrow> list_all (\<lambda>i. truthy E i b) items"
    and "truthy E (JObject [(''or'', JArray items)]) b \<longleftrightarrow> list_ex (\<lambda>i. truthy E i b) items"
  using assms is_truthy_eval_and [of E b JNull items] is_truthy_eval_or [of E b JNull items]
  by (simp_all add: truthy_def [of E "JObject _"] eval_op_literals)

lemma truthy_not:
  "truthy E (JObject [(''!'', arg)]) b \<longleftrightarrow> \<not> truthy E (first_operand arg) b"
  by (simp add: truthy_def eval_op_literals is_truthy_def [of E "JBool _"])

lemma address_set_node_Some:
  "address_set_node E op arg = Some (needle, addrs) \<longleftrightarrow>
     op = ''in'' \<and> (\<exists>hay. arg = JArray [needle, hay] \<and> static_address_list E hay = Some addrs)"
  by (auto simp: address_set_node_def split: json.splits list.splits)


lemma eval_address_set_node:
  assumes "static_address_list E hay = Some addrs"
    and "strings_ok (address_literal_ok E) (JArray [needle, hay])"
    and "bindings_ok (address_literal_ok E) b"
  shows "eval_compiled E (AddressSetIn needle (set addrs) (JObject [(''in'', JArray [needle, hay])])) b
       = truthy E (JObject [(''in'', JArray [needle, hay])]) b"
proof (cases "\<exists>s a. eval E b needle = JString s \<and> address_from_str E s = Some a")
  case True
  then obtain s a where s: "eval E b needle = JString s" "address_from_str E s = Some a" by blast
  with strings_ok_eval [OF assms(3), of needle E] assms(2) have "address_literal_ok E s" by simp
  with truthy_in_address_list [OF assms(1) _ s] assms(2) s show ?thesis by simp
next
  case False
  then show ?thesis by (auto split: json.splits option.splits)
qed

definition compile_ok :: "ext \<Rightarrow> bindings \<Rightarrow> json \<Rightarrow> compiled_condition \<times> interner \<Rightarrow> bool" where
  "compile_ok E b v r \<longleftrightarrow> interner_ok (snd r) \<and> eval_compiled E (fst r) b = truthy E v b"

lemma compile_ok_combinator:
  assumes "interner_ok I'" "map (\<lambda>c. eval_compiled E c b) cs = map (\<lambda>v. truthy E v b) vs"
    and "op = ''and'' \<or> op = ''or''"
  shows "compile_ok E b (JObject [(op, JArray vs)])
    (if list_ex contains_address_set cs
     then (if op = ''and'' then (CAnd cs, I') else (COr cs, I'))
     else (CRaw (JObject [(op, JArray vs)]), I'))"
proof (cases "list_ex contains_address_set cs")
  case True
  with assms(2) have "vs \<noteq> []" by auto
  moreover have "list_all (\<lambda>c. eval_compiled E c b) cs = list_all (\<lambda>v. truthy E v b) vs"
    "list_ex (\<lambda>c. eval_compiled E c b) cs = list_ex (\<lambda>v. truthy E v b) vs"
    using arg_cong [OF assms(2), of "list_all id"] arg_cong [OF assms(2), of "list_ex id"]
    by (simp_all add: list.pred_map list_ex_iff list_all_iff o_def)
  ultimately show ?thesis
    using True assms(1,3) by (auto simp: compile_ok_def truthy_and_or)
qed (use assms(1) in \<open>simp add: compile_ok_def\<close>)

lemma compile_ok_raw: "interner_ok I \<Longrightarrow> compile_ok E b v (CRaw v, I)"
  by (simp add: compile_ok_def)

lemma compile_correct_all:
  assumes "bindings_ok (address_literal_ok E) b"
  shows "interner_ok I \<Longrightarrow> strings_ok (address_literal_ok E) v \<Longrightarrow> compile_ok E b v (compile E v I)"
    and "interner_ok I2 \<Longrightarrow> \<forall>v \<in> set vs. strings_ok (address_literal_ok E) v \<Longrightarrow>
      interner_ok (snd (compile_all E vs I2)) \<and>
      map (\<lambda>c. eval_compiled E c b) (fst (compile_all E vs I2)) = map (\<lambda>v. truthy E v b) vs"
  using assms
proof (induction E v I and E vs I2 rule: compile_compile_all.induct)
  case (1 E op arg I)
  consider (set) needle addrs where "address_set_node E op arg = Some (needle, addrs)"
    | (comb) items where "address_set_node E op arg = None" "op = ''and'' \<or> op = ''or''" "arg = JArray items"
    | (neg) "address_set_node E op arg = None" "op = ''!''"
    | (raw) "address_set_node E op arg = None" "op \<noteq> ''!''" "(op = ''and'' \<or> op = ''or'') \<longrightarrow> as_array arg = None"
    by (cases "address_set_node E op arg"; cases arg; cases "op = ''!''"; cases "op = ''and''")
      (auto simp: as_array_def)
  then show ?case
  proof cases
    case set
    then obtain hay where hay: "op = ''in''" "arg = JArray [needle, hay]"
      "static_address_list E hay = Some addrs"
      by (auto simp: address_set_node_Some)
    obtain s I' where i: "intern addrs I = (s, I')" by force
    from intern_correct [OF \<open>interner_ok I\<close> i] hay set i 1 eval_address_set_node [OF hay(3), of needle b]
    show ?thesis by (simp add: compile_ok_def)
  next
    case comb
    obtain cs I' where c: "compile_all E items I = (cs, I')" by force
    with 1(1) [OF refl comb(1,2,3) 1(3)] 1(4,5) comb(3) have "interner_ok I'"
      "map (\<lambda>c. eval_compiled E c b) cs = map (\<lambda>v. truthy E v b) items"
      by auto
    from compile_ok_combinator [OF this comb(2)] comb c show ?thesis by simp
  next
    case neg
    obtain c I' where c: "compile E (first_operand arg) I = (c, I')" by force
    have "compile_ok E b (first_operand arg) (c, I')"
      using neg 1(2) [OF refl neg(1) _ _ \<open>interner_ok I\<close>] 1 c by (simp add: strings_ok_first_operand)
    with neg c show ?thesis by (simp add: compile_ok_def truthy_not)
  next
    case raw
    with 1 show ?thesis by (cases arg) (simp_all add: compile_ok_raw as_array_def Let_def)
  qed
next
  case (4 E it items I)
  then show ?case by (auto simp: compile_ok_def split: prod.splits)
qed (auto simp: compile_ok_def)

text \<open>
  C34. For conditions and bindings whose address literals coerce to their own value, compiling a
  condition (with whatever address sets are already interned) changes nothing: the compiled form
  holds of a binding exactly when the raw evaluator finds the expression truthy.
\<close>

theorem compile_correct:
  assumes "interner_ok I"
    and "strings_ok (address_literal_ok E) expr"
    and "bindings_ok (address_literal_ok E) b"
  shows "eval_compiled E (fst (compile E expr I)) b = truthy E expr b"
  using compile_correct_all(1) [OF assms(3,1,2)] by (simp add: compile_ok_def)

definition addr_1 :: string where
  "addr_1 = ''0x0000000000000000000000000000000000000001''"

definition denylist_condition :: json where
  "denylist_condition = JObject [(''!'', JArray [JObject [(''in'',
     JArray [JObject [(''var'', JString ''to'')], JArray [JString addr_1]])]])]"

definition to_binding :: "string \<Rightarrow> bindings" where
  "to_binding s = [''to'' \<mapsto> JString s]"

theorem compile_correct_witness:
  "interner_ok interner_new \<and> strings_ok (address_literal_ok sample_ext) denylist_condition \<and>
   bindings_ok (address_literal_ok sample_ext) (to_binding addr_1) \<and>
   eval_compiled sample_ext (fst (compile sample_ext denylist_condition interner_new))
     (to_binding addr_1) = truthy sample_ext denylist_condition (to_binding addr_1)"
proof -
  have lit: "address_literal_ok sample_ext addr_1" "address_literal_ok sample_ext ''to''"
    by code_simp+
  have "strings_ok (address_literal_ok sample_ext) denylist_condition"
    "bindings_ok (address_literal_ok sample_ext) (to_binding addr_1)"
    using lit by (auto simp: denylist_condition_def bindings_ok_def to_binding_def)
  with compile_correct [OF interner_ok_new this] show ?thesis by simp
qed

text \<open>
  The agreement does need its hypothesis: for an unprefixed address literal of forty decimal
  digits the raw evaluator compares the literal read as a decimal number with the prefixed spelling
  of the same address read as hex, and finds them different, while the compiled set finds the
  address in the list.
\<close>

lemma compile_differs_on_decimal_literal:
  "let a = replicate 38 CHR ''0'' @ ''10'';
       expr = JObject [(''in'', JArray [JObject [(''var'', JString ''to'')], JArray [JString a]])];
       b = to_binding (''0x'' @ a)
   in address_from_str sample_ext a = address_from_str sample_ext (''0x'' @ a) \<and>
      eval_compiled sample_ext (fst (compile sample_ext expr interner_new)) b \<and>
      \<not> truthy sample_ext expr b"
  by code_simp
end
