(* ===== verification/Rules.thy ===== *)
theory Rules
  imports Json_Logic
begin

text \<open>
  The rule model of \<open>crates/rcs-filter/src/rules/model.rs\<close> and the loader of
  \<open>rules/validation.rs\<close>: raw (wire) rules, compiled rules, per-rule validation, and the rule set
  with its \<open>topic0\<close> and anonymous-event indexes.
\<close>

section \<open>The rule model\<close>

datatype action = ActDeny | ActAllow | ActAudit

datatype timeout_action = TimeoutDeny | TimeoutAllow

fun stricter :: "timeout_action \<Rightarrow> timeout_action \<Rightarrow> timeout_action" where
  "stricter TimeoutDeny _ = TimeoutDeny"
| "stricter _ TimeoutDeny = TimeoutDeny"
| "stricter _ _ = TimeoutAllow"

record abi_input =
  ai_name :: "string option"
  ai_param_type :: string
  ai_indexed :: bool

record event_abi =
  ea_abi_type :: string
  ea_name :: string
  ea_inputs :: "abi_input list"
  ea_anonymous :: bool

text \<open>\<open>audit_types\<close> is what deserialisation leaves there, \<open>default_audit_types\<close> when it is absent.\<close>

definition default_audit_types :: "string list" where
  "default_audit_types = [''quota'']"

record raw_rule =
  rr_id :: string
  rr_contract_address :: "string option"
  rr_origin :: "string option"
  rr_event_abis :: "(string, event_abi) btmap"
  rr_audit_types :: "string list"
  rr_condition :: json
  rr_action :: action
  rr_audit_timeout_action :: "timeout_action option"

record compiled_input =
  ci_name :: string
  ci_sol_type :: sol_type
  ci_indexed :: bool

record compiled_event =
  ce_var_name :: string
  ce_abi_name :: string
  ce_inputs :: "compiled_input list"
  ce_anonymous :: bool
  ce_topic0 :: b256

record compiled_rule =
  cr_id :: string
  cr_contract_address :: "address option"
  cr_origin :: "address option"
  cr_events :: "compiled_event list"
  cr_audit_types :: "string list"
  cr_condition :: json
  cr_action :: action
  cr_audit_timeout_action :: timeout_action
  cr_compiled_condition :: compiled_condition

record rejected_rule =
  rj_id :: string
  rj_reason :: string

record rule_set =
  rs_protocol_version :: nat
  rs_content_version :: nat
  rs_rules :: "compiled_rule list"
  rs_index :: "(b256, nat list) hmap"
  rs_anonymous_index :: "(nat, nat list) hmap"
  rs_rejected :: "rejected_rule list"

definition candidates_for_topic0 :: "rule_set \<Rightarrow> b256 \<Rightarrow> nat list" where
  "candidates_for_topic0 rs t = hm_list (rs_index rs) t"

definition candidates_for_anonymous :: "rule_set \<Rightarrow> nat \<Rightarrow> nat list" where
  "candidates_for_anonymous rs n = hm_list (rs_anonymous_index rs) n"

definition max_events_per_rule :: nat where
  "max_events_per_rule = 8"

definition default_max_event_bindings_per_tx :: nat where
  "default_max_event_bindings_per_tx = 10000"

section \<open>Compiling one rule\<close>

definition erc20_transfer_shape :: "string list" where
  "erc20_transfer_shape = [''from'', ''to'', ''value'']"

definition erc1155_transfer_single_shape :: "string list" where
  "erc1155_transfer_single_shape = [''operator'', ''from'', ''to'', ''id'', ''value'']"

definition erc1155_transfer_batch_shape :: "string list" where
  "erc1155_transfer_batch_shape = [''operator'', ''from'', ''to'', ''ids'', ''values'']"

text \<open>The loop over the inputs of an event, with the set of names already seen.\<close>

fun compile_inputs :: "ext \<Rightarrow> string \<Rightarrow> string set \<Rightarrow> abi_input list \<Rightarrow> string + compiled_input list" where
  "compile_inputs E var seen [] = Inr []"
| "compile_inputs E var seen (i # is) =
     (case (case ai_name i of Some n \<Rightarrow> if n \<noteq> [] then Some n else None | None \<Rightarrow> None) of
        None \<Rightarrow> Inl (''event '' @ quote_str var @ '' has an input with a missing name'')
      | Some n \<Rightarrow>
          if n \<in> seen
          then Inl (''event '' @ quote_str var @ '' has a duplicate input name '' @ quote_str n)
          else (case sol_type_parse E (ai_param_type i) of
                 Inl e \<Rightarrow> Inl (''event '' @ quote_str var @ '' input '' @ quote_str n @
                               '' has invalid type: '' @ e)
               | Inr t \<Rightarrow>
                   (case compile_inputs E var (insert n seen) is of
                      Inl e \<Rightarrow> Inl e
                    | Inr cs \<Rightarrow> Inr (\<lparr>ci_name = n, ci_sol_type = t, ci_indexed = ai_indexed i\<rparr> # cs))))"

definition signature_of :: "string \<Rightarrow> compiled_input list \<Rightarrow> string" where
  "signature_of name inputs = name @ ''('' @ join '','' (map ci_sol_type inputs) @ '')''"

definition compile_event :: "ext \<Rightarrow> string \<Rightarrow> event_abi \<Rightarrow> string + compiled_event" where
  "compile_event E var abi =
     (if ea_abi_type abi \<noteq> ''event''
      then Inl (''event '' @ quote_str var @ '' has unsupported ABI type '' @ quote_str (ea_abi_type abi))
      else
        let indexed_count = length (filter ai_indexed (ea_inputs abi));
            max_indexed = (if ea_anonymous abi then 4 else 3)
        in if indexed_count > max_indexed
           then Inl (''event '' @ quote_str var @ '' declares '' @ show_radix 10 indexed_count @
                     '' indexed inputs; maximum is '' @ show_radix 10 max_indexed)
           else case compile_inputs E var {} (ea_inputs abi) of
                  Inl e \<Rightarrow> Inl e
                | Inr inputs \<Rightarrow>
                    Inr \<lparr>ce_var_name = var, ce_abi_name = ea_name abi, ce_inputs = inputs,
                         ce_anonymous = ea_anonymous abi,
                         ce_topic0 = keccak256 E (as_bytes (signature_of (ea_name abi) inputs))\<rparr>)"

definition matches_quota_shape :: "compiled_event \<Rightarrow> bool" where
  "matches_quota_shape ev =
     (let names = map ci_name (ce_inputs ev) in
      names = erc20_transfer_shape \<or> names = erc1155_transfer_single_shape \<or>
      names = erc1155_transfer_batch_shape)"

definition parse_opt_address :: "ext \<Rightarrow> string option \<Rightarrow> string \<Rightarrow> string + address option" where
  "parse_opt_address E v field = (case v of
       None \<Rightarrow> Inr None
     | Some s \<Rightarrow> (case address_from_str E s of
                    Some a \<Rightarrow> Inr (Some a)
                  | None \<Rightarrow> Inl (field @ '' is not a valid address: '' @ address_error E s)))"

fun compile_events :: "ext \<Rightarrow> bool \<Rightarrow> (string \<times> event_abi) list \<Rightarrow> string + compiled_event list" where
  "compile_events E is_quota_audit [] = Inr []"
| "compile_events E is_quota_audit ((var, abi) # es) =
     (case compile_event E var abi of
        Inl e \<Rightarrow> Inl e
      | Inr ev \<Rightarrow>
          if is_quota_audit \<and> \<not> matches_quota_shape ev
          then Inl (''event '' @ quote_str var @ '' does not match a fixed quota shape (ERC20 Transfer / ERC1155 TransferSingle / ERC1155 TransferBatch)'')
          else (case compile_events E is_quota_audit es of
                  Inl e \<Rightarrow> Inl e
                | Inr evs \<Rightarrow> Inr (ev # evs)))"

text \<open>
  A rejected rule leaves the interner alone: the condition is compiled after the last early return.
\<close>

definition compile_rule_with_interner ::
    "ext \<Rightarrow> raw_rule \<Rightarrow> interner \<Rightarrow> string + compiled_rule \<times> interner" where
  "compile_rule_with_interner E raw I =
     (if rr_event_abis raw = [] then Inl ''event_abis is empty''
      else if length (rr_event_abis raw) > max_events_per_rule
      then Inl (''event_abis declares '' @ show_radix 10 (length (rr_event_abis raw)) @
                '' aliases; at most '' @ show_radix 10 max_events_per_rule @ '' are allowed'')
      else if rr_action raw = ActAudit \<and> rr_audit_types raw = []
      then Inl ''audit rule has no audit_types''
      else case validate (rr_condition raw) of
        Inl e \<Rightarrow> Inl e
      | Inr _ \<Rightarrow>
          (let is_quota_audit = (rr_action raw = ActAudit \<and> ''quota'' \<in> set (rr_audit_types raw)) in
           case compile_events E is_quota_audit (rr_event_abis raw) of
             Inl e \<Rightarrow> Inl e
           | Inr events \<Rightarrow>
               (case parse_opt_address E (rr_contract_address raw) ''contract_address'' of
                  Inl e \<Rightarrow> Inl e
                | Inr contract_address \<Rightarrow>
                    (case parse_opt_address E (rr_origin raw) ''origin'' of
                       Inl e \<Rightarrow> Inl e
                     | Inr origin \<Rightarrow>
                         (case compile E (rr_condition raw) I of (cond, I') \<Rightarrow>
                            Inr (\<lparr>cr_id = rr_id raw, cr_contract_address = contract_address,
                                  cr_origin = origin, cr_events = events,
                                  cr_audit_types = rr_audit_types raw,
                                  cr_condition = rr_condition raw, cr_action = rr_action raw,
                                  cr_audit_timeout_action =
                                    (case rr_audit_timeout_action raw of Some t \<Rightarrow> t | None \<Rightarrow> TimeoutAllow),
                                  cr_compiled_condition = cond\<rparr>, I'))))))"

definition compile_rule :: "ext \<Rightarrow> raw_rule \<Rightarrow> string + compiled_rule" where
  "compile_rule E raw = (case compile_rule_with_interner E raw interner_new of
       Inl e \<Rightarrow> Inl e | Inr (r, I) \<Rightarrow> Inr r)"

section \<open>Loading a batch\<close>

definition id_counts :: "raw_rule list \<Rightarrow> (string, nat) hmap" where
  "id_counts raw = fold (\<lambda>r m. AList.update (rr_id r)
     (Suc (case map_of m (rr_id r) of Some n \<Rightarrow> n | None \<Rightarrow> 0)) m) raw []"

fun load_loop :: "ext \<Rightarrow> (string, nat) hmap \<Rightarrow> raw_rule list \<Rightarrow> interner
    \<Rightarrow> compiled_rule list \<times> rejected_rule list" where
  "load_loop E counts [] I = ([], [])"
| "load_loop E counts (r # rs) I =
     (if (case map_of counts (rr_id r) of Some n \<Rightarrow> n | None \<Rightarrow> 0) > 1
      then (case load_loop E counts rs I of (ok, rej) \<Rightarrow>
              (ok, \<lparr>rj_id = rr_id r, rj_reason = ''duplicate rule id''\<rparr> # rej))
      else case compile_rule_with_interner E r I of
             Inr (c, I') \<Rightarrow> (case load_loop E counts rs I' of (ok, rej) \<Rightarrow> (c # ok, rej))
           | Inl reason \<Rightarrow> (case load_loop E counts rs I of (ok, rej) \<Rightarrow>
                              (ok, \<lparr>rj_id = rr_id r, rj_reason = reason\<rparr> # rej)))"

definition indexed_topics :: "compiled_event \<Rightarrow> nat" where
  "indexed_topics ev = length (filter ci_indexed (ce_inputs ev))"

definition index_event :: "nat \<Rightarrow> compiled_event \<Rightarrow> (b256, nat list) hmap \<times> (nat, nat list) hmap
    \<Rightarrow> (b256, nat list) hmap \<times> (nat, nat list) hmap" where
  "index_event idx ev m =
     (if ce_anonymous ev then (fst m, hm_push (indexed_topics ev) idx (snd m))
      else (hm_push (ce_topic0 ev) idx (fst m), snd m))"

fun index_rules :: "nat \<Rightarrow> compiled_rule list \<Rightarrow> (b256, nat list) hmap \<times> (nat, nat list) hmap
    \<Rightarrow> (b256, nat list) hmap \<times> (nat, nat list) hmap" where
  "index_rules idx [] m = m"
| "index_rules idx (r # rs) m = index_rules (Suc idx) rs (fold (index_event idx) (cr_events r) m)"

definition load_rules :: "ext \<Rightarrow> nat \<Rightarrow> nat \<Rightarrow> raw_rule list \<Rightarrow> rule_set" where
  "load_rules E protocol_version content_version raw =
     (case load_loop E (id_counts raw) raw interner_new of (rules, rejected) \<Rightarrow>
      case index_rules 0 rules ([], []) of (index, anonymous_index) \<Rightarrow>
        \<lparr>rs_protocol_version = protocol_version, rs_content_version = content_version,
         rs_rules = rules, rs_index = index, rs_anonymous_index = anonymous_index,
         rs_rejected = rejected\<rparr>)"


section \<open>Well-formed compiled rules\<close>

definition event_wf :: "compiled_event \<Rightarrow> bool" where
  "event_wf ev \<longleftrightarrow>
     distinct (map ci_name (ce_inputs ev)) \<and> [] \<notin> ci_name ` set (ce_inputs ev) \<and>
     indexed_topics ev \<le> (if ce_anonymous ev then 4 else 3)"

definition rule_wf :: "compiled_rule \<Rightarrow> bool" where
  "rule_wf r \<longleftrightarrow>
     1 \<le> length (cr_events r) \<and> length (cr_events r) \<le> max_events_per_rule \<and>
     sorted_wrt (<) (map ce_var_name (cr_events r)) \<and>
     (\<forall>ev \<in> set (cr_events r). event_wf ev) \<and>
     validate (cr_condition r) = Inr () \<and>
     (cr_action r = ActAudit \<longrightarrow> cr_audit_types r \<noteq> []) \<and>
     (cr_action r = ActAudit \<and> ''quota'' \<in> set (cr_audit_types r) \<longrightarrow>
        (\<forall>ev \<in> set (cr_events r). matches_quota_shape ev))"

lemma compile_inputs_Inr:
  "compile_inputs E var seen is = Inr cs \<Longrightarrow>
     distinct (map ci_name cs) \<and> ci_name ` set cs \<inter> insert [] seen = {} \<and>
     map ci_indexed cs = map ai_indexed is"
proof (induction E var seen "is" arbitrary: cs rule: compile_inputs.induct)
  case (2 E var seen i "is")
  from "2.prems" obtain n t cs' where "ai_name i = Some n" "n \<noteq> []" "n \<notin> seen"
    "sol_type_parse E (ai_param_type i) = Inr t"
    "compile_inputs E var (insert n seen) is = Inr cs'"
    "cs = \<lparr>ci_name = n, ci_sol_type = t, ci_indexed = ai_indexed i\<rparr> # cs'"
    by (auto split: option.splits sum.splits if_splits)
  with "2.IH" [of n t cs'] show ?case by auto
qed simp

lemma length_filter_map_eq:
  "map P xs = map Q ys \<Longrightarrow> length (filter P xs) = length (filter Q ys)"
  by (induction xs arbitrary: ys) (auto simp: Cons_eq_map_conv)

lemma compile_event_Inr:
  assumes "compile_event E var abi = Inr ev"
  shows "event_wf ev" and "ce_var_name ev = var"
proof -
  from assms obtain cs where cs: "compile_inputs E var {} (ea_inputs abi) = Inr cs"
    and ev: "ce_inputs ev = cs" "ce_anonymous ev = ea_anonymous abi" "ce_var_name ev = var"
    and n: "length (filter ai_indexed (ea_inputs abi)) \<le> (if ea_anonymous abi then 4 else 3)"
    by (auto simp: compile_event_def Let_def split: sum.splits if_splits)
  from compile_inputs_Inr [OF cs] show "event_wf ev"
    using n length_filter_map_eq [of ci_indexed cs ai_indexed "ea_inputs abi"]
    by (simp add: event_wf_def indexed_topics_def ev)
  show "ce_var_name ev = var" by (rule ev)
qed

lemma compile_events_Inr:
  "compile_events E q es = Inr evs \<Longrightarrow>
     map ce_var_name evs = map fst es \<and> (\<forall>ev \<in> set evs. event_wf ev \<and> (q \<longrightarrow> matches_quota_shape ev))"
  by (induction E q es arbitrary: evs rule: compile_events.induct)
    (auto split: sum.splits if_splits dest: compile_event_Inr)

lemma compile_rule_Inr:
  assumes "compile_rule_with_interner E raw I = Inr (r, I')" and "bt_wf (rr_event_abis raw)"
  shows "rule_wf r"
proof -
  let ?q = "rr_action raw = ActAudit \<and> ''quota'' \<in> set (rr_audit_types raw)"
  from assms(1) have ev: "compile_events E ?q (rr_event_abis raw) = Inr (cr_events r)"
    and len: "rr_event_abis raw \<noteq> []" "length (rr_event_abis raw) \<le> max_events_per_rule"
    and flds: "cr_action r = rr_action raw" "cr_audit_types r = rr_audit_types raw"
      "cr_condition r = rr_condition raw"
    and val: "validate (rr_condition raw) = Inr ()"
    and aud: "rr_action raw = ActAudit \<longrightarrow> rr_audit_types raw \<noteq> []"
    by (auto simp: compile_rule_with_interner_def Let_def split: if_splits sum.splits prod.splits)
  from compile_events_Inr [OF ev] have vars: "map ce_var_name (cr_events r) = map fst (rr_event_abis raw)"
    and wf: "\<forall>ev \<in> set (cr_events r). event_wf ev \<and> (?q \<longrightarrow> matches_quota_shape ev)" by simp_all
  have "length (cr_events r) = length (rr_event_abis raw)"
    using arg_cong [OF vars, of length] by simp
  then show ?thesis
    using len flds val aud wf vars assms(2) by (auto simp: rule_wf_def bt_wf_def Suc_le_eq)
qed

lemma compile_rule_id:
  "compile_rule_with_interner E raw I = Inr (r, I') \<Longrightarrow> cr_id r = rr_id raw"
  by (auto simp: compile_rule_with_interner_def Let_def split: if_splits sum.splits prod.splits)

lemma compile_rule_condition:
  assumes "compile_rule_with_interner E raw I = Inr (r, I')"
  shows "compile E (cr_condition r) I = (cr_compiled_condition r, I')"
    and "cr_condition r = rr_condition raw"
  using assms
  by (auto simp: compile_rule_with_interner_def Let_def split: if_splits sum.splits prod.splits)

section \<open>Properties of loading\<close>

lemma id_counts_gen:
  "(case map_of (fold (\<lambda>r m. AList.update (rr_id r)
       (Suc (case map_of m (rr_id r) of Some n \<Rightarrow> n | None \<Rightarrow> 0)) m) raw m0) i of Some n \<Rightarrow> n | None \<Rightarrow> 0) =
   (case map_of m0 i of Some n \<Rightarrow> n | None \<Rightarrow> 0) + count_list (map rr_id raw) i"
  by (induction raw arbitrary: m0) (auto simp: alist_simps)

lemma id_counts_count:
  "(case map_of (id_counts raw) i of Some n \<Rightarrow> n | None \<Rightarrow> 0) = count_list (map rr_id raw) i"
  using id_counts_gen [of raw "[]" i] by (simp add: id_counts_def)

lemma load_loop_split:
  "load_loop E counts raw I = (ok, rej) \<Longrightarrow>
     mset (map cr_id ok) + mset (map rj_id rej) = mset (map rr_id raw) \<and>
     subseq (map cr_id ok) (map rr_id raw)"
  by (induction E counts raw I arbitrary: ok rej rule: load_loop.induct)
    (auto split: if_splits sum.splits prod.splits dest: compile_rule_id)

lemma load_loop_ok_unique:
  "load_loop E counts raw I = (ok, rej) \<Longrightarrow> i \<in> cr_id ` set ok \<Longrightarrow>
     (case map_of counts i of Some n \<Rightarrow> n | None \<Rightarrow> 0) \<le> 1"
proof (induction E counts raw I arbitrary: ok rej rule: load_loop.induct)
  case (2 E counts r rs I)
  then show ?case
    by (auto simp: not_less split: if_splits sum.splits prod.splits dest!: compile_rule_id)
qed simp

lemma load_loop_wf:
  "load_loop E counts raw I = (ok, rej) \<Longrightarrow> \<forall>r \<in> set raw. bt_wf (rr_event_abis r) \<Longrightarrow>
     r \<in> set ok \<Longrightarrow> rule_wf r"
  by (induction E counts raw I arbitrary: ok rej rule: load_loop.induct)
    (auto split: if_splits sum.splits prod.splits dest: compile_rule_Inr)

lemma load_loop_condition:
  assumes "bindings_ok (address_literal_ok E) b"
  shows "load_loop E counts raw I = (ok, rej) \<Longrightarrow> interner_ok I \<Longrightarrow>
     \<forall>r \<in> set raw. strings_ok (address_literal_ok E) (rr_condition r) \<Longrightarrow> r \<in> set ok \<Longrightarrow>
     eval_compiled E (cr_compiled_condition r) b = truthy E (cr_condition r) b"
  using assms
proof (induction E counts raw I arbitrary: ok rej rule: load_loop.induct)
  case (2 E counts raw0 rs I)
  show ?case
  proof (cases "\<exists>c I'. compile_rule_with_interner E raw0 I = Inr (c, I')")
    case True
    then obtain c I' where c: "compile_rule_with_interner E raw0 I = Inr (c, I')" by blast
    note cond = compile_rule_condition [OF c]
    have "compile_ok E b (cr_condition c) (cr_compiled_condition c, I')"
      using compile_correct_all(1) [OF "2.prems"(5,2), of "cr_condition c"] cond "2.prems"(3) by simp
    then show ?thesis
      using 2 c by (auto simp: compile_ok_def split: if_splits prod.splits)
  next
    case False
    with 2 show ?thesis by (auto split: if_splits sum.splits prod.splits)
  qed
qed simp

definition declares_topic0 :: "b256 \<Rightarrow> compiled_rule \<Rightarrow> bool" where
  "declares_topic0 t r \<longleftrightarrow> list_ex (\<lambda>ev. \<not> ce_anonymous ev \<and> ce_topic0 ev = t) (cr_events r)"

definition declares_anonymous :: "nat \<Rightarrow> compiled_rule \<Rightarrow> bool" where
  "declares_anonymous n r \<longleftrightarrow> list_ex (\<lambda>ev. ce_anonymous ev \<and> indexed_topics ev = n) (cr_events r)"

lemma index_events_fold:
  "i \<in> set (hm_list (fst (fold (index_event idx) evs m)) t) \<longleftrightarrow>
     i \<in> set (hm_list (fst m) t) \<or> i = idx \<and> (\<exists>ev \<in> set evs. \<not> ce_anonymous ev \<and> ce_topic0 ev = t)"
  "i \<in> set (hm_list (snd (fold (index_event idx) evs m)) n) \<longleftrightarrow>
     i \<in> set (hm_list (snd m) n) \<or> i = idx \<and> (\<exists>ev \<in> set evs. ce_anonymous ev \<and> indexed_topics ev = n)"
  by (induction evs arbitrary: m) (auto simp: index_event_def)

lemma ex_shift: "(\<exists>k < length (r # rs). i = idx + k \<and> P ((r # rs) ! k)) \<longleftrightarrow>
    i = idx \<and> P r \<or> (\<exists>k < length rs. i = Suc idx + k \<and> P (rs ! k))"
  by (auto simp: less_Suc_eq_0_disj)

lemma index_rules_mem:
  "i \<in> set (hm_list (fst (index_rules idx rs m)) t) \<longleftrightarrow>
     i \<in> set (hm_list (fst m) t) \<or> (\<exists>k < length rs. i = idx + k \<and> declares_topic0 t (rs ! k))"
  "i \<in> set (hm_list (snd (index_rules idx rs m)) n) \<longleftrightarrow>
     i \<in> set (hm_list (snd m) n) \<or> (\<exists>k < length rs. i = idx + k \<and> declares_anonymous n (rs ! k))"
proof (induction idx rs m rule: index_rules.induct)
  case (2 idx r rs m)
  note IH = 2
  case 1
  show ?case unfolding index_rules.simps IH(1) index_events_fold ex_shift
    by (auto simp: declares_topic0_def list_ex_iff)
  case 2
  show ?case unfolding index_rules.simps IH(2) index_events_fold ex_shift
    by (auto simp: declares_anonymous_def list_ex_iff)
qed simp_all

lemma load_rules_fields:
  assumes "load_loop E (id_counts raw) raw interner_new = (ok, rej)"
  shows "rs_rules (load_rules E pv cv raw) = ok" "rs_rejected (load_rules E pv cv raw) = rej"
    "rs_index (load_rules E pv cv raw) = fst (index_rules 0 ok ([], []))"
    "rs_anonymous_index (load_rules E pv cv raw) = snd (index_rules 0 ok ([], []))"
  using assms by (simp_all add: load_rules_def split: prod.splits)

text \<open>
  Loading splits the batch: every raw rule ends up either compiled or rejected, once, under its
  own id; the compiled rules keep the order of the batch, have distinct ids, and every one of those
  ids occurs exactly once in the batch, so a duplicated id is rejected in all its occurrences.
\<close>

lemma load_rules_partition:
  "let rs = load_rules E pv cv raw in
    mset (map cr_id (rs_rules rs)) + mset (map rj_id (rs_rejected rs)) = mset (map rr_id raw) \<and>
    subseq (map cr_id (rs_rules rs)) (map rr_id raw) \<and>
    distinct (map cr_id (rs_rules rs)) \<and>
    cr_id ` set (rs_rules rs) \<subseteq> {i. count_list (map rr_id raw) i = 1}"
proof -
  obtain ok rej where l: "load_loop E (id_counts raw) raw interner_new = (ok, rej)" by force
  note flds = load_rules_fields [OF l, of pv cv]
  note split = load_loop_split [OF l]
  have le: "count_list (map rr_id raw) i \<le> 1" if "i \<in> cr_id ` set ok" for i
    using load_loop_ok_unique [OF l that] by (simp only: id_counts_count)
  have cnt: "count (mset (map cr_id ok)) i \<le> count_list (map rr_id raw) i" for i
    using arg_cong [OF conjunct1 [OF split], of "\<lambda>M. count M i"] by (simp add: count_mset flip: mset_map)
  have one: "count_list (map rr_id raw) i = 1" if "i \<in> cr_id ` set ok" for i
  proof -
    from that have "0 < count (mset (map cr_id ok)) i" by simp
    with cnt [of i] le [OF that] show ?thesis by linarith
  qed
  have "count (mset (map cr_id ok)) i = (if i \<in> set (map cr_id ok) then 1 else 0)" for i
  proof (cases "i \<in> cr_id ` set ok")
    case True
    then have "0 < count (mset (map cr_id ok)) i" by simp
    with cnt [of i] one [OF True] have "count (mset (map cr_id ok)) i = 1" by linarith
    with True show ?thesis by simp
  qed (auto simp: count_eq_zero_iff)
  then have "distinct (map cr_id ok)"
    by (simp add: distinct_count_atmost_1)
  with split one show ?thesis by (auto simp: flds Let_def)
qed

lemma load_rules_index_mem:
  "set (candidates_for_topic0 (load_rules E pv cv raw) t) =
     {i. i < length (rs_rules (load_rules E pv cv raw)) \<and>
         declares_topic0 t (rs_rules (load_rules E pv cv raw) ! i)}"
  "set (candidates_for_anonymous (load_rules E pv cv raw) n) =
     {i. i < length (rs_rules (load_rules E pv cv raw)) \<and>
         declares_anonymous n (rs_rules (load_rules E pv cv raw) ! i)}"
proof -
  obtain ok rej where l: "load_loop E (id_counts raw) raw interner_new = (ok, rej)" by force
  note flds = load_rules_fields [OF l, of pv cv]
  show "set (candidates_for_topic0 (load_rules E pv cv raw) t) =
     {i. i < length (rs_rules (load_rules E pv cv raw)) \<and>
         declares_topic0 t (rs_rules (load_rules E pv cv raw) ! i)}"
    by (auto simp: candidates_for_topic0_def flds index_rules_mem)
  show "set (candidates_for_anonymous (load_rules E pv cv raw) n) =
     {i. i < length (rs_rules (load_rules E pv cv raw)) \<and>
         declares_anonymous n (rs_rules (load_rules E pv cv raw) ! i)}"
    by (auto simp: candidates_for_anonymous_def flds index_rules_mem)
qed

text \<open>
  The indexes of a loaded rule set are exact: the candidates for a first topic are precisely
  the rules that declare a non-anonymous event with that \<open>topic0\<close>, and the candidates for a number
  of topics are precisely the rules that declare an anonymous event with that many indexed inputs.
\<close>

lemma load_rules_index_exact:
  "let rs = load_rules E pv cv raw in
    set (candidates_for_topic0 rs t) =
      {i. i < length (rs_rules rs) \<and> declares_topic0 t (rs_rules rs ! i)} \<and>
    set (candidates_for_anonymous rs n) =
      {i. i < length (rs_rules rs) \<and> declares_anonymous n (rs_rules rs ! i)}"
  by (simp add: Let_def load_rules_index_mem)

text \<open>
  C32. Every rule that loads is well formed: between one and eight events with strictly increasing
  aliases, input names present and distinct, at most three indexed inputs (four when anonymous), a
  condition in the supported JSONLogic subset, audit types when it audits, and only the fixed quota
  shapes when it audits quota.
\<close>

theorem load_rules_well_formed:
  assumes "\<forall>r \<in> set raw. bt_wf (rr_event_abis r)"
  shows "\<forall>r \<in> set (rs_rules (load_rules E pv cv raw)). rule_wf r"
proof -
  obtain ok rej where l: "load_loop E (id_counts raw) raw interner_new = (ok, rej)" by force
  with load_loop_wf [OF l assms] show ?thesis by (simp add: load_rules_fields)
qed

definition transfer_abi :: event_abi where
  "transfer_abi = \<lparr>ea_abi_type = ''event'', ea_name = ''Transfer'',
     ea_inputs = [\<lparr>ai_name = Some ''from'', ai_param_type = ''address'', ai_indexed = True\<rparr>,
                  \<lparr>ai_name = Some ''to'', ai_param_type = ''address'', ai_indexed = True\<rparr>,
                  \<lparr>ai_name = Some ''value'', ai_param_type = ''uint256'', ai_indexed = False\<rparr>],
     ea_anonymous = False\<rparr>"

definition sample_raw_rule :: "string \<Rightarrow> action \<Rightarrow> json \<Rightarrow> raw_rule" where
  "sample_raw_rule i act cond = \<lparr>rr_id = i, rr_contract_address = None, rr_origin = None,
     rr_event_abis = [(''t'', transfer_abi)], rr_audit_types = default_audit_types,
     rr_condition = cond, rr_action = act, rr_audit_timeout_action = Some TimeoutDeny\<rparr>"

definition sample_batch :: "raw_rule list" where
  "sample_batch = [sample_raw_rule ''a'' ActDeny denylist_condition,
     sample_raw_rule ''b'' ActAudit (JBool True), sample_raw_rule ''c'' ActAudit (JObject []),
     sample_raw_rule ''a2'' ActAllow (JBool True), sample_raw_rule ''a2'' ActDeny (JBool True)]"

theorem load_rules_well_formed_witness:
  "list_all (\<lambda>r. bt_wf (rr_event_abis r)) sample_batch \<and>
   map cr_id (rs_rules (load_rules sample_ext 1 7 sample_batch)) = [''a'', ''b''] \<and>
   list_all rule_wf (rs_rules (load_rules sample_ext 1 7 sample_batch))"
proof -
  have "\<forall>r \<in> set sample_batch. bt_wf (rr_event_abis r)"
    by (simp add: sample_batch_def sample_raw_rule_def bt_wf_def)
  moreover have "map cr_id (rs_rules (load_rules sample_ext 1 7 sample_batch)) = [''a'', ''b'']"
    by code_simp
  ultimately show ?thesis using load_rules_well_formed [of sample_batch] by (simp add: list_all_iff)
qed

text \<open>
  In a loaded rule set the compiled condition of every rule, whose address sets may be shared
  with other rules of the batch, holds of a binding exactly when the rule's raw condition is truthy.
\<close>

lemma load_rules_conditions_agree:
  assumes "\<forall>r \<in> set raw. strings_ok (address_literal_ok E) (rr_condition r)"
    and "bindings_ok (address_literal_ok E) b"
  shows "\<forall>r \<in> set (rs_rules (load_rules E pv cv raw)).
    eval_compiled E (cr_compiled_condition r) b = truthy E (cr_condition r) b"
proof -
  obtain ok rej where l: "load_loop E (id_counts raw) raw interner_new = (ok, rej)" by force
  with load_loop_condition [OF assms(2) l interner_ok_new assms(1)] show ?thesis
    by (simp add: load_rules_fields)
qed

lemma load_rules_conditions_agree_witness:
  "list_all (\<lambda>r. strings_ok (address_literal_ok sample_ext) (rr_condition r)) sample_batch \<and>
   bindings_ok (address_literal_ok sample_ext) (to_binding addr_1) \<and>
   list_all (\<lambda>r. eval_compiled sample_ext (cr_compiled_condition r) (to_binding addr_1) =
      truthy sample_ext (cr_condition r) (to_binding addr_1)) (rs_rules (load_rules sample_ext 1 7 sample_batch))"
proof -
  have "address_literal_ok sample_ext addr_1" "address_literal_ok sample_ext ''to''"
    by code_simp+
  then have "\<forall>r \<in> set sample_batch. strings_ok (address_literal_ok sample_ext) (rr_condition r)"
    "bindings_ok (address_literal_ok sample_ext) (to_binding addr_1)"
    by (auto simp: sample_batch_def sample_raw_rule_def denylist_condition_def bindings_ok_def
        to_binding_def strings_ok_def)
  with load_rules_conditions_agree [OF this] show ?thesis by (simp add: list_all_iff)
qed

end
