(* ===== verification/Filter_Types.thy ===== *)
theory Filter_Types
  imports Rules
begin

text \<open>
  The filter's configuration (\<open>config.rs\<close>), error type (\<open>error.rs\<close>), the RCS wire messages and
  the response decoder of the REST client (\<open>client.rs\<close>). Durations are natural numbers of
  nanoseconds.
\<close>

section \<open>Errors\<close>

datatype filter_error =
    Transport string
  | Timeout string
  | UnexpectedStatus nat
  | Decode string
  | UnsupportedProtocol nat
  | Config string
  | InvalidRules nat "rejected_rule list"

section \<open>Configuration\<close>

definition supported_protocol_versions :: "nat list" where
  "supported_protocol_versions = [1]"

definition max_submit_concurrency :: nat where
  "max_submit_concurrency = 64"

definition is_supported_protocol :: "nat \<Rightarrow> bool" where
  "is_supported_protocol pv \<longleftrightarrow> List.member supported_protocol_versions pv"

record filter_config =
  fc_enabled :: bool
  fc_rcs_base_url :: string
  fc_connect_timeout :: nat
  fc_request_timeout :: nat
  fc_retry_initial_backoff :: nat
  fc_retry_max_backoff :: nat
  fc_batch_window :: nat
  fc_submit_max_concurrency :: nat
  fc_submitted_confirmation_timeout :: nat
  fc_risk_module_unresponsive_timeout :: nat
  fc_total_retry_timeout :: nat
  fc_rules_version_poll_interval :: nat
  fc_terminal_entry_retention :: nat
  fc_max_native_transfers_per_tx :: nat
  fc_max_event_bindings_per_tx :: nat

definition from_secs :: "nat \<Rightarrow> nat" where
  "from_secs n = n * 1000000000"

definition from_millis :: "nat \<Rightarrow> nat" where
  "from_millis n = n * 1000000"

definition as_secs :: "nat \<Rightarrow> nat" where
  "as_secs d = d div 1000000000"

definition default_config :: filter_config where
  "default_config = \<lparr>
     fc_enabled = False,
     fc_rcs_base_url = [],
     fc_connect_timeout = from_secs 1,
     fc_request_timeout = from_secs 3,
     fc_retry_initial_backoff = from_millis 200,
     fc_retry_max_backoff = from_secs 5,
     fc_batch_window = from_millis 200,
     fc_submit_max_concurrency = 1,
     fc_submitted_confirmation_timeout = from_secs 8,
     fc_risk_module_unresponsive_timeout = from_secs 20,
     fc_total_retry_timeout = from_secs 90,
     fc_rules_version_poll_interval = from_millis 2000,
     fc_terminal_entry_retention = from_secs 300,
     fc_max_native_transfers_per_tx = 10000,
     fc_max_event_bindings_per_tx = 10000\<rparr>"

definition validate_config :: "filter_config \<Rightarrow> filter_error + unit" where
  "validate_config c =
     (if fc_enabled c \<and> trim (fc_rcs_base_url c) = []
      then Inl (Config ''rcs-filter enabled but rcs_base_url is empty'')
      else if fc_enabled c \<and> fc_terminal_entry_retention c \<le> fc_total_retry_timeout c
      then Inl (Config ''rcs-filter terminal_entry_retention must exceed total_retry_timeout'')
      else if fc_enabled c \<and>
        (fc_connect_timeout c = 0 \<or> fc_request_timeout c = 0 \<or> fc_retry_initial_backoff c = 0 \<or>
         fc_retry_max_backoff c = 0 \<or> fc_batch_window c = 0 \<or>
         fc_submitted_confirmation_timeout c = 0 \<or> fc_risk_module_unresponsive_timeout c = 0 \<or>
         fc_total_retry_timeout c = 0 \<or> fc_rules_version_poll_interval c = 0 \<or>
         fc_terminal_entry_retention c = 0)
      then Inl (Config ''rcs-filter durations must be non-zero'')
      else if fc_enabled c \<and> fc_connect_timeout c > fc_request_timeout c
      then Inl (Config ''rcs-filter connect_timeout must not exceed request_timeout'')
      else if fc_enabled c \<and>
        (fc_connect_timeout c \<ge> fc_total_retry_timeout c \<or>
         fc_request_timeout c \<ge> fc_total_retry_timeout c)
      then Inl (Config ''rcs-filter network timeouts must be less than total_retry_timeout'')
      else if fc_enabled c \<and> fc_retry_initial_backoff c > fc_retry_max_backoff c
      then Inl (Config ''rcs-filter retry_initial_backoff must not exceed retry_max_backoff'')
      else if fc_enabled c \<and>
        \<not> (1 \<le> fc_submit_max_concurrency c \<and> fc_submit_max_concurrency c \<le> max_submit_concurrency)
      then Inl (Config (''rcs-filter submit_max_concurrency must be between 1 and '' @
                        show_radix 10 max_submit_concurrency))
      else if fc_max_native_transfers_per_tx c = 0
      then Inl (Config ''rcs-filter max_native_transfers_per_tx must be >= 1'')
      else if fc_max_event_bindings_per_tx c = 0
      then Inl (Config ''rcs-filter max_event_bindings_per_tx must be >= 1'')
      else Inr ())"

section \<open>Wire messages\<close>

record rules_response =
  rsp_protocol_version :: nat
  rsp_content_version :: nat
  rsp_rules :: "raw_rule list"

record version_response =
  vr_protocol_version :: nat
  vr_content_version :: nat

record action_item =
  it_name :: string
  it_address :: string
  it_params :: "(string, json) btmap"

type_synonym actions = "(string, action_item list) btmap"

record submit_tx =
  st_tx_hash :: string
  st_origin :: string
  st_contract_address :: string
  st_nonce :: nat
  st_actions :: actions

record submit_request =
  sr_xlayer_block_height :: nat
  sr_txs :: "submit_tx list"

record submit_response =
  accepted :: "string list"
  rejected_malformed :: "string list"

datatype query_params = QStatus string | QTxHashes "string list"

record query_tx =
  qt_tx_hash :: string
  qt_status :: string
  qt_decided_at :: "int option"
  qt_reason :: "string option"

type_synonym query_response = "query_tx list"

section \<open>Decoding a response\<close>

definition max_response_body_bytes :: nat where
  "max_response_body_bytes = 16 * 1024 * 1024"

text \<open>A transport failure carries its text and whether it was a timeout.\<close>

record reqwest_error =
  re_is_timeout :: bool
  re_text :: string

record http_response =
  hr_status :: nat
  hr_content_length :: "nat option"
  hr_chunks :: "(reqwest_error + byte list) list"

definition response_too_large :: filter_error where
  "response_too_large =
     Decode (''RCS response body exceeds '' @ show_radix 10 max_response_body_bytes @ '' bytes'')"

definition transport_error :: "reqwest_error \<Rightarrow> filter_error" where
  "transport_error e = (if re_is_timeout e then Timeout (re_text e) else Transport (re_text e))"

fun read_body :: "byte list \<Rightarrow> (reqwest_error + byte list) list \<Rightarrow> filter_error + byte list" where
  "read_body body [] = Inr body"
| "read_body body (Inl e # cs) = Inl (transport_error e)"
| "read_body body (Inr chunk # cs) =
     (if saturating_add (length body) (length chunk) > max_response_body_bytes
      then Inl response_too_large
      else read_body (body @ chunk) cs)"

text \<open>\<open>from_slice\<close> is the JSON deserialiser of the expected message type.\<close>

definition decode_json :: "(byte list \<Rightarrow> string + 'a) \<Rightarrow> http_response \<Rightarrow> nat \<Rightarrow> filter_error + 'a" where
  "decode_json from_slice resp expected =
     (if hr_status resp \<noteq> expected then Inl (UnexpectedStatus (hr_status resp))
      else if (case hr_content_length resp of Some n \<Rightarrow> n > max_response_body_bytes | None \<Rightarrow> False)
      then Inl response_too_large
      else case read_body [] (hr_chunks resp) of
             Inl e \<Rightarrow> Inl e
           | Inr body \<Rightarrow> (case from_slice body of Inl e \<Rightarrow> Inl (Decode e) | Inr v \<Rightarrow> Inr v))"

definition base_url :: "string \<Rightarrow> string" where
  "base_url s = rev (dropWhile (\<lambda>c. c = CHR ''/'') (rev s))"

definition client_url :: "string \<Rightarrow> string \<Rightarrow> string" where
  "client_url base path = base_url base @ path"

lemma read_body_Inr:
  "read_body body cs = Inr r \<Longrightarrow> length body \<le> max_response_body_bytes \<Longrightarrow>
     \<exists>bs. cs = map Inr bs \<and> r = body @ concat bs \<and> length r \<le> max_response_body_bytes"
proof (induction body cs rule: read_body.induct)
  case (3 body chunk cs)
  then have ok: "saturating_add (length body) (length chunk) \<le> max_response_body_bytes"
    by (auto simp: not_less split: if_splits)
  then have "length (body @ chunk) \<le> max_response_body_bytes"
    by (auto simp: saturating_add_def usize_max_def max_response_body_bytes_def min_def split: if_splits)
  with 3 ok obtain bs where "cs = map Inr bs" "r = (body @ chunk) @ concat bs"
    "length r \<le> max_response_body_bytes" by auto
  then show ?case by (intro exI [of _ "chunk # bs"]) simp
qed simp_all

lemma read_body_complete:
  "length (body @ concat bs) \<le> max_response_body_bytes \<Longrightarrow>
     read_body body (map Inr bs) = Inr (body @ concat bs)"
  by (induction bs arbitrary: body) (auto simp: saturating_add_def min_def)

text \<open>
  A response decodes exactly when it has the endpoint's expected status, does not announce and
  does not deliver more than 16 MiB, arrives without a transport failure, and its whole body
  deserialises; no other response yields a message.
\<close>

lemma decode_json_exact:
  "decode_json from_slice resp expected = Inr v \<longleftrightarrow>
     hr_status resp = expected \<and>
     (case hr_content_length resp of Some n \<Rightarrow> n \<le> max_response_body_bytes | None \<Rightarrow> True) \<and>
     (\<exists>bs. hr_chunks resp = map Inr bs \<and> length (concat bs) \<le> max_response_body_bytes \<and>
           from_slice (concat bs) = Inr v)"
  (is "?l \<longleftrightarrow> ?r")
proof
  assume ?l
  then have *: "hr_status resp = expected"
    "case hr_content_length resp of Some n \<Rightarrow> n \<le> max_response_body_bytes | None \<Rightarrow> True"
    and "\<exists>body. read_body [] (hr_chunks resp) = Inr body \<and> from_slice body = Inr v"
    by (auto simp: decode_json_def split: if_splits sum.splits option.splits)
  then obtain body where b: "read_body [] (hr_chunks resp) = Inr body" "from_slice body = Inr v"
    by blast
  from read_body_Inr [OF b(1)] * b(2) show ?r by auto
next
  assume ?r
  then obtain bs where "hr_status resp = expected" "hr_chunks resp = map Inr bs"
    "case hr_content_length resp of Some n \<Rightarrow> n \<le> max_response_body_bytes | None \<Rightarrow> True"
    "length (concat bs) \<le> max_response_body_bytes" "from_slice (concat bs) = Inr v" by blast
  with read_body_complete [of "[]" bs] show ?l
    by (auto simp: decode_json_def split: option.splits)
qed

text \<open>
  A configuration that validates and enables the filter has a usable time line: the backoff
  range is non-empty and non-zero, connecting is bounded by the request, the request by the total
  retry window and that by the retention of tombstones, the submit concurrency is between 1 and 64,
  and both per-transaction budgets are positive (these also when the filter is off).
\<close>

lemma validate_config_timeline:
  "validate_config c = Inr () \<longleftrightarrow>
     fc_max_native_transfers_per_tx c > 0 \<and> fc_max_event_bindings_per_tx c > 0 \<and>
     (if fc_enabled c then
       trim (fc_rcs_base_url c) \<noteq> [] \<and>
       0 < fc_connect_timeout c \<and> fc_connect_timeout c \<le> fc_request_timeout c \<and>
       fc_request_timeout c < fc_total_retry_timeout c \<and>
       fc_total_retry_timeout c < fc_terminal_entry_retention c \<and>
       0 < fc_retry_initial_backoff c \<and> fc_retry_initial_backoff c \<le> fc_retry_max_backoff c \<and>
       0 < fc_batch_window c \<and> 0 < fc_submitted_confirmation_timeout c \<and>
       0 < fc_risk_module_unresponsive_timeout c \<and> 0 < fc_rules_version_poll_interval c \<and>
       fc_submit_max_concurrency c \<in> {1..64} else True)"
  by (cases "fc_enabled c") (auto simp: validate_config_def max_submit_concurrency_def split: if_splits)

end
