(* ===== verification/Matching.thy ===== *)
theory Matching
  imports Filter_Types
begin

text \<open>
  The per-transaction matcher of \<open>crates/rcs-filter/src/matching.rs\<close>: decoding logs into named
  values, enumerating the complete event bindings of a rule lazily, and merging the rules' actions.
\<close>

section \<open>Inputs and outcomes\<close>

record screen_input =
  si_tx_hash :: b256
  si_origin :: address
  si_tx_to :: "address option"
  si_nonce :: nat
  si_value :: u256
  si_block_height :: nat
  si_logs :: "log list"

datatype match_outcome =
    MAllow
  | MDeny
  | MAudit actions timeout_action

datatype match_error =
    BindingCountOverflow string
  | BindingBudgetExceeded string nat nat

record matched_event =
  me_log_index :: nat
  me_address :: string
  me_params :: "(string, json) btmap"

section \<open>Decoding\<close>

definition addr_lower :: "ext \<Rightarrow> address \<Rightarrow> string" where
  "addr_lower E a = address_lower_hex E a"

fun dyn_value_to_json :: "ext \<Rightarrow> dyn_value \<Rightarrow> json" where
  "dyn_value_to_json E (DAddress a) = JString (addr_lower E a)"
| "dyn_value_to_json E (DUint u n) = JString (u256_to_string E u)"
| "dyn_value_to_json E (DInt i n) = JString (i256_to_string E i)"
| "dyn_value_to_json E (DBool b) = JString (if b then ''true'' else ''false'')"
| "dyn_value_to_json E (DString s) = JString s"
| "dyn_value_to_json E (DFixedBytes w n) = JString (b256_lower_hex E w)"
| "dyn_value_to_json E (DBytes bs) = JString (''0x'' @ hex_encode E bs)"
| "dyn_value_to_json E (DArray vs) = JArray (map (dyn_value_to_json E) vs)"
| "dyn_value_to_json E (DFixedArray vs) = JArray (map (dyn_value_to_json E) vs)"
| "dyn_value_to_json E (DTuple vs) = JArray (map (dyn_value_to_json E) vs)"
| "dyn_value_to_json E (DOther s) = JString s"

text \<open>The loop that puts the decoded values back in declared input order.\<close>

fun reassemble :: "ext \<Rightarrow> dyn_value list \<Rightarrow> dyn_value list \<Rightarrow> nat \<Rightarrow> nat \<Rightarrow> compiled_input list
    \<Rightarrow> (string, json) btmap \<Rightarrow> (string, json) btmap" where
  "reassemble E indexed body idx_indexed idx_body [] out = out"
| "reassemble E indexed body idx_indexed idx_body (i # is) out =
     (let v = (if ci_indexed i then list_get indexed idx_indexed else list_get body idx_body);
          out' = (case v of Some x \<Rightarrow> bt_insert (ci_name i) (dyn_value_to_json E x) out | None \<Rightarrow> out)
      in if ci_indexed i then reassemble E indexed body (Suc idx_indexed) idx_body is out'
         else reassemble E indexed body idx_indexed (Suc idx_body) is out')"

definition decode_event :: "ext \<Rightarrow> compiled_event \<Rightarrow> log \<Rightarrow> (string, json) btmap option" where
  "decode_event E ev l =
     (let indexed_types = map ci_sol_type (filter ci_indexed (ce_inputs ev));
          body_types = map ci_sol_type (filter (\<lambda>i. \<not> ci_indexed i) (ce_inputs ev));
          topic0 = (if ce_anonymous ev then None else Some (ce_topic0 ev))
      in case decode_log_parts E topic0 indexed_types body_types (log_topics l) (log_data l) of
           None \<Rightarrow> None
         | Some (indexed, body) \<Rightarrow> Some (reassemble E indexed body 0 0 (ce_inputs ev) []))"

definition event_matches_shape :: "compiled_event \<Rightarrow> log \<Rightarrow> bool" where
  "event_matches_shape ev l =
     (if ce_anonymous ev then length (log_topics l) = length (filter ci_indexed (ce_inputs ev))
      else list_get (log_topics l) 0 = Some (ce_topic0 ev))"

definition find_logs_for_event :: "ext \<Rightarrow> compiled_event \<Rightarrow> log list \<Rightarrow> matched_event list" where
  "find_logs_for_event E ev logs =
     List.map_filter (\<lambda>(i, l).
       if \<not> event_matches_shape ev l then None
       else map_option (\<lambda>ps. \<lparr>me_log_index = i, me_address = addr_lower E (log_address l),
                              me_params = ps\<rparr>) (decode_event E ev l))
       (List.enumerate 0 logs)"

section \<open>Bindings\<close>

definition bind_event :: "compiled_event \<times> matched_event option \<Rightarrow> bindings \<Rightarrow> bindings" where
  "bind_event p b = (case p of (ev, m) \<Rightarrow>
     (case m of
        Some me \<Rightarrow>
          (fold (\<lambda>(n, v) b. b(ce_var_name ev @ ''.'' @ n \<mapsto> v)) (me_params me) b)
            (ce_var_name ev @ ''.address'' \<mapsto> JString (me_address me))
      | None \<Rightarrow>
          (fold (\<lambda>i b. b(ce_var_name ev @ ''.'' @ ci_name i \<mapsto> JNull)) (ce_inputs ev) b)
            (ce_var_name ev @ ''.address'' \<mapsto> JNull)))"

definition build_bindings :: "ext \<Rightarrow> compiled_rule \<Rightarrow> screen_input \<Rightarrow> matched_event option list \<Rightarrow> bindings" where
  "build_bindings E rule input binding =
     fold bind_event (zip (cr_events rule) binding)
       [''contract_address'' \<mapsto> (case si_tx_to input of Some a \<Rightarrow> JString (addr_lower E a) | None \<Rightarrow> JNull),
        ''origin'' \<mapsto> JString (addr_lower E (si_origin input)),
        ''value'' \<mapsto> JString (u256_to_string E (si_value input)),
        ''nonce'' \<mapsto> JNumber (show_radix 10 (si_nonce input))]"

definition candidates :: "ext \<Rightarrow> compiled_rule \<Rightarrow> screen_input \<Rightarrow> matched_event option list list" where
  "candidates E rule input =
     map (\<lambda>ev. let matched = find_logs_for_event E ev (si_logs input) in
                if matched = [] then [None] else map Some matched) (cr_events rule)"

fun try_fold_mul :: "nat \<Rightarrow> nat list \<Rightarrow> nat option" where
  "try_fold_mul acc [] = Some acc"
| "try_fold_mul acc (n # ns) =
     (case checked_mul acc n of None \<Rightarrow> None | Some acc' \<Rightarrow> try_fold_mul acc' ns)"

definition checked_binding_count :: "nat list \<Rightarrow> nat option" where
  "checked_binding_count ns = try_fold_mul 1 ns"

text \<open>
  The recursive visitor. \<open>candidates[event_idx..]\<close> is the list still to be chosen from, \<open>current\<close>
  the choices made; \<open>visit\<close> returns \<open>Some\<close> outcome to break, and threads the mutable state it
  captures.
\<close>

function (sequential) visit_bindings ::
    "('b list \<Rightarrow> 's \<Rightarrow> 'r option \<times> 's) \<Rightarrow> 'b list list \<Rightarrow> 'b list \<Rightarrow> 's \<Rightarrow> 'r option \<times> 's"
  and visit_each ::
    "('b list \<Rightarrow> 's \<Rightarrow> 'r option \<times> 's) \<Rightarrow> 'b list \<Rightarrow> 'b list list \<Rightarrow> 'b list \<Rightarrow> 's \<Rightarrow> 'r option \<times> 's" where
  "visit_bindings visit [] current s = visit current s"
| "visit_bindings visit (cs # rest) current s = visit_each visit cs rest current s"
| "visit_each visit [] rest current s = (None, s)"
| "visit_each visit (c # cs) rest current s =
     (case visit_bindings visit rest (current @ [c]) s of
        (Some r, s') \<Rightarrow> (Some r, s')
      | (None, s') \<Rightarrow> visit_each visit cs rest current s')"
  by pat_completeness auto
termination
  by (relation "inv_image (less_than <*lex*> less_than)
        (case_sum (\<lambda>(v, css, cur, s). (length css, 0))
                  (\<lambda>(v, cs, rest, cur, s). (length rest, Suc (length cs))))") auto

section \<open>Merging actions\<close>

record match_acc =
  acc_actions_by_log :: "(string, (nat, action_item) btmap) btmap"
  acc_has_audit :: bool
  acc_timeout_action :: timeout_action

definition match_acc_new :: match_acc where
  "match_acc_new = \<lparr>acc_actions_by_log = [], acc_has_audit = False, acc_timeout_action = TimeoutAllow\<rparr>"

definition item_of :: "compiled_event \<Rightarrow> matched_event \<Rightarrow> action_item" where
  "item_of ev me = \<lparr>it_name = ce_var_name ev, it_address = me_address me, it_params = me_params me\<rparr>"

definition add_items :: "compiled_rule \<Rightarrow> matched_event option list \<Rightarrow> (nat, action_item) btmap
    \<Rightarrow> (nat, action_item) btmap" where
  "add_items rule binding by_log =
     fold (\<lambda>(ev, m) bl. case m of
             None \<Rightarrow> bl
           | Some me \<Rightarrow> bt_or_insert (me_log_index me) (item_of ev me) bl)
       (zip (cr_events rule) binding) by_log"

definition record_audit :: "compiled_rule \<Rightarrow> matched_event option list \<Rightarrow> match_acc \<Rightarrow> match_acc" where
  "record_audit rule binding acc = acc\<lparr>
     acc_has_audit := True,
     acc_timeout_action := stricter (acc_timeout_action acc) (cr_audit_timeout_action rule),
     acc_actions_by_log :=
       fold (\<lambda>t m. bt_alter t (\<lambda>o1. add_items rule binding (case o1 of None \<Rightarrow> [] | Some bl \<Rightarrow> bl)) m)
         (cr_audit_types rule) (acc_actions_by_log acc)\<rparr>"

definition has_physical :: "matched_event option list \<Rightarrow> bool" where
  "has_physical binding = list_ex (\<lambda>m. m \<noteq> None) binding"

definition visit_rule :: "ext \<Rightarrow> compiled_rule \<Rightarrow> screen_input \<Rightarrow> matched_event option list \<Rightarrow> match_acc
    \<Rightarrow> match_outcome option \<times> match_acc" where
  "visit_rule E rule input binding acc =
     (if \<not> eval_compiled E (cr_compiled_condition rule) (build_bindings E rule input binding)
      then (None, acc)
      else case cr_action rule of
             ActDeny \<Rightarrow> (Some MDeny, acc)
           | ActAllow \<Rightarrow> (None, acc)
           | ActAudit \<Rightarrow> if \<not> has_physical binding then (None, acc)
                         else (None, record_audit rule binding acc))"

definition filter_skip :: "compiled_rule \<Rightarrow> screen_input \<Rightarrow> bool" where
  "filter_skip rule input \<longleftrightarrow>
     (case cr_contract_address rule of Some ca \<Rightarrow> si_tx_to input \<noteq> Some ca | None \<Rightarrow> False) \<or>
     (case cr_origin rule of Some o1 \<Rightarrow> si_origin input \<noteq> o1 | None \<Rightarrow> False)"

definition match_result :: "match_acc \<Rightarrow> match_outcome" where
  "match_result acc =
     (if acc_has_audit acc
      then MAudit (map (\<lambda>(t, by_log). (t, map snd by_log)) (acc_actions_by_log acc)) (acc_timeout_action acc)
      else MAllow)"

fun evaluate_rules :: "ext \<Rightarrow> screen_input \<Rightarrow> nat \<Rightarrow> compiled_rule list \<Rightarrow> nat \<Rightarrow> match_acc
    \<Rightarrow> match_error + match_outcome" where
  "evaluate_rules E input limit [] so_far acc = Inr (match_result acc)"
| "evaluate_rules E input limit (rule # rules) so_far acc =
     (if filter_skip rule input then evaluate_rules E input limit rules so_far acc
      else
        let cands = candidates E rule input in
        case checked_binding_count (map length cands) of
          None \<Rightarrow> Inl (BindingCountOverflow (cr_id rule))
        | Some n \<Rightarrow>
            (case checked_add so_far n of
               None \<Rightarrow> Inl (BindingCountOverflow (cr_id rule))
             | Some so_far' \<Rightarrow>
                 if so_far' > limit then Inl (BindingBudgetExceeded (cr_id rule) so_far' limit)
                 else (case visit_bindings (\<lambda>b. visit_rule E rule input b) cands [] acc of
                         (Some outcome, acc') \<Rightarrow> Inr outcome
                       | (None, acc') \<Rightarrow> evaluate_rules E input limit rules so_far' acc')))"

definition evaluate_checked :: "ext \<Rightarrow> rule_set \<Rightarrow> screen_input \<Rightarrow> nat \<Rightarrow> match_error + match_outcome" where
  "evaluate_checked E rs input max_event_bindings =
     evaluate_rules E input max_event_bindings (rs_rules rs) 0 match_acc_new"

definition try_evaluate :: "ext \<Rightarrow> rule_set \<Rightarrow> screen_input \<Rightarrow> nat \<Rightarrow> match_error + match_outcome" where
  "try_evaluate E rs input max_event_bindings = evaluate_checked E rs input max_event_bindings"

definition evaluate :: "ext \<Rightarrow> rule_set \<Rightarrow> screen_input \<Rightarrow> match_outcome" where
  "evaluate E rs input =
     (case try_evaluate E rs input default_max_event_bindings_per_tx of
        Inr outcome \<Rightarrow> outcome | Inl e \<Rightarrow> MDeny)"

text \<open>The \<open>topic0\<close> candidate lookup, kept by the code as a fast path that is not consulted.\<close>

definition candidate_rule_indices :: "rule_set \<Rightarrow> log list \<Rightarrow> nat list" where
  "candidate_rule_indices rs logs =
     map fst (fold (\<lambda>l acc.
       fold (\<lambda>i a. bt_insert i () a) (candidates_for_anonymous rs (length (log_topics l)))
         (case list_get (log_topics l) 0 of
            Some t \<Rightarrow> fold (\<lambda>i a. bt_insert i () a) (candidates_for_topic0 rs t) acc
          | None \<Rightarrow> acc)) logs [])"


section \<open>Early-exit visitors\<close>

text \<open>
  What the enumeration relies on of its visitor: whether it breaks is decided by the binding
  alone, and when it does not break it updates the captured state. Under that contract the lazy
  recursion is a walk along the Cartesian product.
\<close>

fun run_until :: "('b \<Rightarrow> 's \<Rightarrow> 'r option \<times> 's) \<Rightarrow> 'b list \<Rightarrow> 's \<Rightarrow> 'r option \<times> 's" where
  "run_until visit [] s = (None, s)"
| "run_until visit (b # bs) s =
     (case visit b s of (Some r, s') \<Rightarrow> (Some r, s') | (None, s') \<Rightarrow> run_until visit bs s')"

lemma run_until_append:
  "run_until visit (xs @ ys) s =
     (case run_until visit xs s of (Some r, s') \<Rightarrow> (Some r, s') | (None, s') \<Rightarrow> run_until visit ys s')"
  by (induction xs arbitrary: s) (auto split: prod.splits option.splits)

lemma visit_bindings_run_until:
  "visit_bindings visit css cur s = run_until visit (map ((@) cur) (product_lists css)) s"
  "visit_each visit cs rest cur s = run_until visit (map ((@) cur) (product_lists (cs # rest))) s"
proof (induction visit css cur s and visit cs rest cur s rule: visit_bindings_visit_each.induct)
  case (4 visit c cs rest current s)
  then show ?case
    by (auto simp: run_until_append o_def split: prod.splits option.splits)
qed (auto split: prod.splits option.splits)

lemma visit_bindings_product:
  "visit_bindings visit css [] s = run_until visit (product_lists css) s"
proof -
  have "map ((@) []) (product_lists css) = product_lists css" by (simp add: map_idI)
  then show ?thesis by (simp only: visit_bindings_run_until)
qed

locale early_exit_visitor =
  fixes visit :: "'b list \<Rightarrow> 's \<Rightarrow> 'r option \<times> 's"
    and brk :: "'b list \<Rightarrow> 'r option"
    and upd :: "'b list \<Rightarrow> 's \<Rightarrow> 's"
  assumes visit_break: "brk b = Some r \<Longrightarrow> fst (visit b s) = Some r"
    and visit_continue: "brk b = None \<Longrightarrow> visit b s = (None, upd b s)"
begin

lemma run_until_continue:
  "\<forall>b \<in> set bs. brk b = None \<Longrightarrow> run_until visit bs s = (None, fold upd bs s)"
  by (induction bs arbitrary: s) (auto simp: visit_continue)

lemma run_until_break:
  "\<exists>b \<in> set bs. brk b \<noteq> None \<Longrightarrow>
     \<exists>b \<in> set bs. brk b \<noteq> None \<and> fst (run_until visit bs s) = brk b"
proof (induction bs arbitrary: s)
  case (Cons b bs)
  show ?case
  proof (cases "brk b")
    case None
    with Cons show ?thesis by (auto simp: visit_continue)
  next
    case (Some r)
    with visit_break [OF Some, of s] show ?thesis by (auto split: prod.splits option.splits)
  qed
qed simp

lemma visit_all:
  assumes "\<forall>b \<in> set (product_lists css). brk b = None"
  shows "visit_bindings visit css [] s = (None, fold upd (product_lists css) s)"
  using assms by (simp add: visit_bindings_product run_until_continue)

lemma visit_hit:
  assumes "\<exists>b \<in> set (product_lists css). brk b \<noteq> None"
  obtains b r s' where "b \<in> set (product_lists css)" "brk b = Some r"
    "visit_bindings visit css [] s = (Some r, s')"
proof -
  obtain b where b: "b \<in> set (product_lists css)" "brk b \<noteq> None"
    "fst (run_until visit (product_lists css) s) = brk b"
    using run_until_break [OF assms, of s] by blast
  then obtain r where "brk b = Some r" by blast
  with b show thesis
    using that by (cases "run_until visit (product_lists css) s") (auto simp: visit_bindings_product)
qed

end

section \<open>Reference semantics\<close>

text \<open>
  A rule that applies to the transaction has as its complete bindings the Cartesian product of its
  events' candidate logs; a binding is a hit when the rule's condition holds of it.
\<close>

definition all_bindings :: "ext \<Rightarrow> screen_input \<Rightarrow> compiled_rule \<Rightarrow> matched_event option list list" where
  "all_bindings E input rule =
     (if filter_skip rule input then [] else product_lists (candidates E rule input))"

definition satisfied :: "ext \<Rightarrow> screen_input \<Rightarrow> compiled_rule \<Rightarrow> matched_event option list \<Rightarrow> bool" where
  "satisfied E input rule b \<longleftrightarrow>
     eval_compiled E (cr_compiled_condition rule) (build_bindings E rule input b)"

definition deny_hit :: "ext \<Rightarrow> screen_input \<Rightarrow> compiled_rule \<Rightarrow> bool" where
  "deny_hit E input rule \<longleftrightarrow>
     cr_action rule = ActDeny \<and> list_ex (satisfied E input rule) (all_bindings E input rule)"

definition audit_hit :: "ext \<Rightarrow> screen_input \<Rightarrow> compiled_rule \<Rightarrow> matched_event option list \<Rightarrow> bool" where
  "audit_hit E input rule b \<longleftrightarrow>
     cr_action rule = ActAudit \<and> satisfied E input rule b \<and> has_physical b"

type_synonym hit = "compiled_rule \<times> matched_event option list"

definition rule_hits :: "ext \<Rightarrow> screen_input \<Rightarrow> compiled_rule \<Rightarrow> hit list" where
  "rule_hits E input rule = map (Pair rule) (filter (audit_hit E input rule) (all_bindings E input rule))"

definition audit_hits :: "ext \<Rightarrow> screen_input \<Rightarrow> compiled_rule list \<Rightarrow> hit list" where
  "audit_hits E input rules = concat (map (rule_hits E input) rules)"

text \<open>The physical logs of a hit, each with the item that would be submitted for it.\<close>

definition hit_items :: "hit \<Rightarrow> (nat \<times> action_item) list" where
  "hit_items h = List.map_filter (\<lambda>(ev, m). map_option (\<lambda>me. (me_log_index me, item_of ev me)) m)
     (zip (cr_events (fst h)) (snd h))"

definition type_items :: "hit list \<Rightarrow> string \<Rightarrow> (nat \<times> action_item) list" where
  "type_items hits t = concat (map hit_items (filter (\<lambda>h. t \<in> set (cr_audit_types (fst h))) hits))"

definition hit_types :: "hit list \<Rightarrow> string set" where
  "hit_types hits = (\<Union>h \<in> set hits. set (cr_audit_types (fst h)))"

text \<open>One item per log index, in log order; the first one found for a log index wins.\<close>

definition first_per_log :: "(nat \<times> action_item) list \<Rightarrow> action_item list" where
  "first_per_log items = map (\<lambda>i. the (map_of items i)) (sorted_list_of_set (fst ` set items))"

definition merged_timeout :: "hit list \<Rightarrow> timeout_action" where
  "merged_timeout hits =
     (if list_ex (\<lambda>h. cr_audit_timeout_action (fst h) = TimeoutDeny) hits then TimeoutDeny else TimeoutAllow)"

definition reference_outcome :: "ext \<Rightarrow> screen_input \<Rightarrow> compiled_rule list \<Rightarrow> match_outcome" where
  "reference_outcome E input rules =
     (let hits = audit_hits E input rules in
      if list_ex (deny_hit E input) rules then MDeny
      else if hits = [] then MAllow
      else MAudit (map (\<lambda>t. (t, first_per_log (type_items hits t))) (sorted_list_of_set (hit_types hits)))
             (merged_timeout hits))"

definition binding_total :: "ext \<Rightarrow> screen_input \<Rightarrow> compiled_rule list \<Rightarrow> nat" where
  "binding_total E input rules = sum_list (map (\<lambda>r. length (all_bindings E input r)) rules)"

section \<open>The matcher computes the reference outcome\<close>

definition rule_brk :: "ext \<Rightarrow> compiled_rule \<Rightarrow> screen_input \<Rightarrow> matched_event option list \<Rightarrow> match_outcome option" where
  "rule_brk E rule input b =
     (if cr_action rule = ActDeny \<and> satisfied E input rule b then Some MDeny else None)"

definition rule_upd :: "ext \<Rightarrow> compiled_rule \<Rightarrow> screen_input \<Rightarrow> matched_event option list \<Rightarrow> match_acc \<Rightarrow> match_acc" where
  "rule_upd E rule input b acc = (if audit_hit E input rule b then record_audit rule b acc else acc)"

interpretation rule_visitor: early_exit_visitor
  "\<lambda>b. visit_rule E rule input b" "rule_brk E rule input" "rule_upd E rule input" for E rule input
  by unfold_locales
    (auto simp: rule_brk_def rule_upd_def visit_rule_def satisfied_def audit_hit_def
      split: action.splits if_splits)

lemma fold_rule_upd:
  "fold (rule_upd E rule input) bs acc = fold (record_audit rule) (filter (audit_hit E input rule) bs) acc"
  by (induction bs arbitrary: acc) (auto simp: rule_upd_def)

lemma visit_rule_no_deny:
  assumes "\<not> filter_skip rule input" "\<not> deny_hit E input rule"
  shows "visit_bindings (\<lambda>b. visit_rule E rule input b) (candidates E rule input) [] acc =
    (None, fold (\<lambda>h. record_audit (fst h) (snd h)) (rule_hits E input rule) acc)"
proof -
  have "fold (rule_upd E rule input) (product_lists (candidates E rule input)) acc =
        fold (\<lambda>h. record_audit (fst h) (snd h)) (rule_hits E input rule) acc"
    using assms(1) by (simp add: fold_rule_upd rule_hits_def all_bindings_def fold_map o_def)
  moreover have "\<forall>b \<in> set (product_lists (candidates E rule input)). rule_brk E rule input b = None"
    using assms by (auto simp: deny_hit_def all_bindings_def rule_brk_def list_ex_iff)
  ultimately show ?thesis using rule_visitor.visit_all by fastforce
qed

lemma visit_rule_deny:
  assumes "\<not> filter_skip rule input" "deny_hit E input rule"
  shows "\<exists>acc'. visit_bindings (\<lambda>b. visit_rule E rule input b) (candidates E rule input) [] acc =
    (Some MDeny, acc')"
proof -
  have "\<exists>b \<in> set (product_lists (candidates E rule input)). rule_brk E rule input b \<noteq> None"
    using assms by (auto simp: deny_hit_def all_bindings_def rule_brk_def list_ex_iff)
  then obtain b r s' where "rule_brk E rule input b = Some r"
    "visit_bindings (\<lambda>b. visit_rule E rule input b) (candidates E rule input) [] acc = (Some r, s')"
    by (rule rule_visitor.visit_hit)
  then show ?thesis by (auto simp: rule_brk_def split: if_splits)
qed

lemma prod_list_pos: "\<forall>n \<in> set ns. 0 < n \<Longrightarrow> 0 < prod_list (ns :: nat list)"
  by (induction ns) auto

lemma try_fold_mul_prod:
  "\<forall>n \<in> set ns. 0 < n \<Longrightarrow> acc \<le> usize_max \<Longrightarrow>
     try_fold_mul acc ns = (if acc * prod_list ns \<le> usize_max then Some (acc * prod_list ns) else None)"
proof (induction acc ns rule: try_fold_mul.induct)
  case (2 acc n ns)
  have le: "acc * n \<le> acc * (n * prod_list ns)"
    using prod_list_pos [of ns] "2.prems"(1) by auto
  show ?case
  proof (cases "acc * n \<le> usize_max")
    case True
    with 2 show ?thesis by (simp add: checked_mul_def mult.assoc)
  next
    case False
    with le have "\<not> acc * (n * prod_list ns) \<le> usize_max" by linarith
    with False show ?thesis by (simp add: checked_mul_def)
  qed
qed simp

lemma candidates_nonempty: "\<forall>c \<in> set (candidates E rule input). c \<noteq> []"
  by (auto simp: candidates_def Let_def)

lemma length_product_lists: "length (product_lists css) = prod_list (map length css)"
  by (induction css) (simp_all add: length_concat o_def sum_list_triv)

lemma checked_binding_count_exact:
  "checked_binding_count (map length (candidates E rule input)) =
     (let n = length (product_lists (candidates E rule input)) in if n \<le> usize_max then Some n else None)"
proof -
  have "\<forall>n \<in> set (map length (candidates E rule input)). 0 < n"
    using candidates_nonempty by auto
  then show ?thesis
    using try_fold_mul_prod [of "map length (candidates E rule input)" 1]
    by (simp add: checked_binding_count_def length_product_lists usize_max_def)
qed

text \<open>How the loop over the rules proceeds from one rule to the next.\<close>

lemma evaluate_rules_step:
  fixes E :: ext and input :: screen_input
  defines "n r \<equiv> length (all_bindings E input r)"
  shows "evaluate_rules E input limit (r # rs) so_far acc =
     (if filter_skip r input then evaluate_rules E input limit rs so_far acc
      else if so_far + n r > usize_max then Inl (BindingCountOverflow (cr_id r))
      else if so_far + n r > limit then Inl (BindingBudgetExceeded (cr_id r) (so_far + n r) limit)
      else if deny_hit E input r then Inr MDeny
      else evaluate_rules E input limit rs (so_far + n r)
        (fold (\<lambda>h. record_audit (fst h) (snd h)) (rule_hits E input r) acc))"
proof (cases "filter_skip r input")
  case False
  have n: "n r = length (product_lists (candidates E r input))"
    by (simp add: n_def all_bindings_def False)
  show ?thesis
  proof (cases "deny_hit E input r")
    case True
    with visit_rule_deny [OF False True, of acc] False show ?thesis
      by (auto simp: checked_binding_count_exact Let_def checked_add_def n)
  next
    case nd: False
    with visit_rule_no_deny [OF False nd, of acc] False show ?thesis
      by (auto simp: checked_binding_count_exact Let_def checked_add_def n)
  qed
qed simp

text \<open>The accumulator after recording a list of hits.\<close>

definition by_log :: "match_acc \<Rightarrow> string \<Rightarrow> (nat, action_item) btmap" where
  "by_log acc t = (case map_of (acc_actions_by_log acc) t of None \<Rightarrow> [] | Some m \<Rightarrow> m)"

definition acc_inv :: "match_acc \<Rightarrow> hit list \<Rightarrow> bool" where
  "acc_inv acc hits \<longleftrightarrow>
     bt_wf (acc_actions_by_log acc) \<and> dom (map_of (acc_actions_by_log acc)) = hit_types hits \<and>
     (\<forall>t. bt_wf (by_log acc t) \<and> map_of (by_log acc t) = map_of (type_items hits t)) \<and>
     (acc_has_audit acc \<longleftrightarrow> hits \<noteq> []) \<and> acc_timeout_action acc = merged_timeout hits"

lemma acc_inv_new: "acc_inv match_acc_new []"
  by (simp add: acc_inv_def match_acc_new_def by_log_def hit_types_def type_items_def merged_timeout_def)

lemma bt_or_insert_append:
  "bt_wf m \<Longrightarrow> map_of (bt_or_insert k v m) = map_of (m @ [(k, v)])"
  by (auto simp: alist_simps map_add_def fun_eq_iff split: option.splits)

lemma add_items_fold:
  fixes ps :: "(compiled_event \<times> matched_event option) list"
  defines "its qs \<equiv> List.map_filter (\<lambda>(ev, m). map_option (\<lambda>me. (me_log_index me, item_of ev me)) m) qs"
  shows "bt_wf m \<Longrightarrow>
    (let m' = fold (\<lambda>(ev, x) bl. case x of None \<Rightarrow> bl
       | Some me \<Rightarrow> bt_or_insert (me_log_index me) (item_of ev me) bl) ps m
     in bt_wf m' \<and> map_of m' = map_of (m @ its ps))"
proof (induction ps arbitrary: m)
  case Nil
  then show ?case by (simp add: its_def List.map_filter_def)
next
  case (Cons p ps)
  obtain ev x where p: "p = (ev, x)" by force
  show ?case
  proof (cases x)
    case None
    with Cons.IH [OF Cons.prems] show ?thesis by (simp add: p its_def List.map_filter_def)
  next
    case (Some me)
    from Cons.IH [of "bt_or_insert (me_log_index me) (item_of ev me) m"] Cons.prems Some show ?thesis
      by (simp add: p its_def List.map_filter_def bt_or_insert_append)
  qed
qed

lemma add_items_spec:
  assumes "bt_wf m"
  shows "bt_wf (add_items r b m)" and "map_of (add_items r b m) = map_of (m @ hit_items (r, b))"
  using add_items_fold [OF assms, of "zip (cr_events r) b"]
  by (simp_all add: add_items_def hit_items_def Let_def)

lemma map_add_idem: "m ++ m = m"
  by (auto simp: map_add_def fun_eq_iff split: option.splits)

lemma record_types_fold:
  fixes r :: compiled_rule and b :: "matched_event option list"
  defines "alter t \<equiv> bt_alter t (\<lambda>o1. add_items r b (case o1 of None \<Rightarrow> [] | Some bl \<Rightarrow> bl))"
  defines "look m t \<equiv> (case map_of m t of None \<Rightarrow> [] | Some bl \<Rightarrow> bl)"
  assumes "bt_wf m" and "\<forall>t. bt_wf (look m t)"
  shows "bt_wf (fold alter ts m) \<and> dom (map_of (fold alter ts m)) = dom (map_of m) \<union> set ts \<and>
    (\<forall>t. bt_wf (look (fold alter ts m) t) \<and> map_of (look (fold alter ts m) t) =
      (if t \<in> set ts then map_of (look m t @ hit_items (r, b)) else map_of (look m t)))"
  using assms(3,4)
proof (induction ts arbitrary: m)
  case (Cons u ts)
  have wf: "bt_wf (alter u m)" using Cons.prems by (simp add: alter_def)
  have lk: "look (alter u m) v = (if v = u then add_items r b (look m u) else look m v)" for v
    using Cons.prems by (simp add: alter_def look_def alist_simps)
  have dm: "dom (map_of (alter u m)) = insert u (dom (map_of m))"
    using Cons.prems by (simp add: alter_def alist_simps)
  have wfl: "\<forall>t. bt_wf (look (alter u m) t)"
    using Cons.prems add_items_spec(1) by (simp add: lk)
  have ai: "map_of (add_items r b (look m u)) = map_of (look m u @ hit_items (r, b))"
    using Cons.prems add_items_spec(2) by blast
  from Cons.IH [OF wf wfl] show ?case by (auto simp: lk ai dm map_add_idem)
qed simp

lemma acc_inv_record:
  assumes "acc_inv acc hits"
  shows "acc_inv (record_audit r b acc) (hits @ [(r, b)])"
proof -
  let ?m = "acc_actions_by_log acc"
  have wf: "bt_wf ?m" "\<forall>t. bt_wf (case map_of ?m t of None \<Rightarrow> [] | Some bl \<Rightarrow> bl)"
    using assms by (auto simp: acc_inv_def by_log_def)
  note fld = record_types_fold [OF wf, where r = r and b = b and ts = "cr_audit_types r"]
  have "merged_timeout (hits @ [(r, b)]) = stricter (merged_timeout hits) (cr_audit_timeout_action r)"
    by (cases "cr_audit_timeout_action r") (auto simp: merged_timeout_def)
  then show ?thesis
    using assms fld unfolding acc_inv_def
    by (auto simp: record_audit_def by_log_def hit_types_def type_items_def)
qed

lemma acc_inv_fold:
  "acc_inv acc hits \<Longrightarrow> acc_inv (fold (\<lambda>h. record_audit (fst h) (snd h)) hs acc) (hits @ hs)"
proof (induction hs arbitrary: acc hits)
  case (Cons h hs)
  from Cons.IH [OF acc_inv_record [OF Cons.prems, of "fst h" "snd h"]] show ?case by simp
qed simp

lemma first_per_log_by_log:
  assumes "bt_wf m" "map_of m = map_of items"
  shows "map snd m = first_per_log items"
proof -
  have "fst ` set m = fst ` set items"
    using arg_cong [OF assms(2), of dom] by (simp add: dom_map_of_conv_image_fst)
  then show ?thesis
    using arg_cong [OF bt_canonical [OF assms(1)], of "map snd"] assms(2)
    by (simp add: first_per_log_def o_def)
qed

lemma match_result_reference:
  assumes inv: "acc_inv acc hits"
  shows "match_result acc = (if hits = [] then MAllow
     else MAudit (map (\<lambda>t. (t, first_per_log (type_items hits t))) (sorted_list_of_set (hit_types hits)))
            (merged_timeout hits))"
proof -
  let ?m = "acc_actions_by_log acc"
  have wf: "bt_wf ?m" and dm: "fst ` set ?m = hit_types hits"
    using inv by (auto simp: acc_inv_def dom_map_of_conv_image_fst)
  have "map (\<lambda>(t, bl). (t, map snd bl)) ?m =
        map (\<lambda>t. (t, map snd (the (map_of ?m t)))) (sorted_list_of_set (hit_types hits))"
    using arg_cong [OF bt_canonical [OF wf], of "map (\<lambda>(t, bl). (t, map snd bl))"] dm by (simp add: o_def)
  also have "\<dots> = map (\<lambda>t. (t, first_per_log (type_items hits t))) (sorted_list_of_set (hit_types hits))"
  proof (intro map_cong refl)
    fix t assume "t \<in> set (sorted_list_of_set (hit_types hits))"
    then have "t \<in> hit_types hits" by (simp add: hit_types_def)
    then have "map_of ?m t \<noteq> None" using inv by (auto simp: acc_inv_def)
    then have "by_log acc t = the (map_of ?m t)" by (auto simp: by_log_def)
    moreover have "bt_wf (by_log acc t)" "map_of (by_log acc t) = map_of (type_items hits t)"
      using inv by (simp_all add: acc_inv_def)
    ultimately show "(t, map snd (the (map_of ?m t))) = (t, first_per_log (type_items hits t))"
      using first_per_log_by_log by simp
  qed
  finally show ?thesis using inv by (simp add: match_result_def acc_inv_def)
qed

lemma skipped_rule:
  "filter_skip r input \<Longrightarrow> \<not> deny_hit E input r" "filter_skip r input \<Longrightarrow> rule_hits E input r = []"
  by (simp_all add: deny_hit_def rule_hits_def all_bindings_def)

lemma evaluate_rules_reference:
  assumes "evaluate_rules E input limit rules so_far acc = Inr out" "acc_inv acc hits"
  shows "if list_ex (deny_hit E input) rules then out = MDeny
    else \<exists>acc'. acc_inv acc' (hits @ audit_hits E input rules) \<and> out = match_result acc'"
  using assms
proof (induction rules arbitrary: so_far acc hits)
  case (Cons r rs)
  show ?case
  proof (cases "filter_skip r input \<or> deny_hit E input r")
    case True
    note skip = skipped_rule [of r input E]
    from True Cons.prems Cons.IH [OF _ Cons.prems(2)] show ?thesis
      by (cases "filter_skip r input")
        (auto simp: evaluate_rules_step skip audit_hits_def simp del: evaluate_rules.simps(2)
          split: if_splits)
  next
    case False
    with Cons.prems(1) have "evaluate_rules E input limit rs (so_far + length (all_bindings E input r))
        (fold (\<lambda>h. record_audit (fst h) (snd h)) (rule_hits E input r) acc) = Inr out"
      by (auto simp: evaluate_rules_step split: if_splits simp del: evaluate_rules.simps(2))
    from Cons.IH [OF this acc_inv_fold [OF Cons.prems(2)]] False show ?thesis
      by (auto simp: audit_hits_def split: if_splits)
  qed
qed (auto simp: audit_hits_def)

lemma evaluate_rules_within_budget:
  assumes "so_far + binding_total E input rules \<le> limit" "limit \<le> usize_max"
  shows "\<exists>out. evaluate_rules E input limit rules so_far acc = Inr out"
  using assms
proof (induction rules arbitrary: so_far acc)
  case (Cons r rs)
  then have "so_far + length (all_bindings E input r) + binding_total E input rs \<le> limit"
    by (simp add: binding_total_def)
  with Cons show ?case
    by (auto simp: evaluate_rules_step binding_total_def simp del: evaluate_rules.simps(2))
qed simp

lemma evaluate_rules_over_budget:
  assumes "evaluate_rules E input limit rules so_far acc = Inr out" "out \<noteq> MDeny" "so_far \<le> limit"
  shows "so_far + binding_total E input rules \<le> limit"
  using assms
proof (induction rules arbitrary: so_far acc)
  case (Cons r rs)
  then show ?case
    by (cases "filter_skip r input") (fastforce simp: evaluate_rules_step binding_total_def
        all_bindings_def add.assoc split: if_splits simp del: evaluate_rules.simps(2))+
qed (simp add: binding_total_def)

lemma evaluate_checked_Inr:
  assumes "evaluate_checked E rs input limit = Inr out"
  shows "out = reference_outcome E input (rs_rules rs)"
    and "out = MDeny \<or> binding_total E input (rs_rules rs) \<le> limit"
proof -
  note ev = assms [unfolded evaluate_checked_def]
  from evaluate_rules_reference [OF ev acc_inv_new] match_result_reference
  show "out = reference_outcome E input (rs_rules rs)"
    by (fastforce simp: reference_outcome_def Let_def split: if_splits)
  from evaluate_rules_over_budget [OF ev]
  show "out = MDeny \<or> binding_total E input (rs_rules rs) \<le> limit" by auto
qed

text \<open>
  C8. Within the transaction's binding budget the matcher returns the reference outcome: deny if
  some satisfied binding of a deny rule exists anywhere in the rule set, otherwise allow if no
  audit rule is satisfied by a binding with a physical log, otherwise an audit with, for every
  audit type of a hit, one item per physical log in log order and the strictest timeout action of
  the hit rules.
\<close>

theorem evaluate_checked_reference:
  assumes "binding_total E input (rs_rules rs) \<le> limit" and "limit \<le> usize_max"
  shows "evaluate_checked E rs input limit = Inr (reference_outcome E input (rs_rules rs))"
proof -
  have "0 + binding_total E input (rs_rules rs) \<le> limit" using assms by simp
  from evaluate_rules_within_budget [OF this assms(2), of match_acc_new] evaluate_checked_Inr
  show ?thesis unfolding evaluate_checked_def by (metis evaluate_checked_def)
qed

definition sample_topic0 :: b256 where
  "sample_topic0 = keccak256 sample_ext (as_bytes ''Transfer(address,address,uint256)'')"

definition sample_transfer :: "address \<Rightarrow> log" where
  "sample_transfer to_addr = \<lparr>log_address = 0xAA, log_topics = [sample_topic0, 2, ucast to_addr],
     log_data = replicate 31 0 @ [5]\<rparr>"

definition sample_input :: "log list \<Rightarrow> screen_input" where
  "sample_input logs = \<lparr>si_tx_hash = 7, si_origin = 2, si_tx_to = Some 0xAA, si_nonce = 3,
     si_value = 0, si_block_height = 100, si_logs = logs\<rparr>"

definition sample_audit_rules :: rule_set where
  "sample_audit_rules = load_rules sample_ext 1 7
     [sample_raw_rule ''b'' ActAudit (JBool True), sample_raw_rule ''c'' ActAudit (JBool True)]"

definition sample_two_transfers :: screen_input where
  "sample_two_transfers = sample_input [sample_transfer 1, sample_transfer 3]"


theorem evaluate_checked_reference_witness:
  "binding_total sample_ext sample_two_transfers (rs_rules sample_audit_rules) \<le> 10 \<and>
   10 \<le> usize_max \<and>
   evaluate_checked sample_ext sample_audit_rules sample_two_transfers 10 =
     Inr (reference_outcome sample_ext sample_two_transfers (rs_rules sample_audit_rules))"
proof -
  have "binding_total sample_ext sample_two_transfers (rs_rules sample_audit_rules) \<le> 10"
    by code_simp
  moreover have "10 \<le> usize_max" by (simp add: usize_max_def)
  ultimately show ?thesis using evaluate_checked_reference by blast
qed

text \<open>
  Whatever the budget, a verdict is never computed from a truncated enumeration: a returned
  outcome is the reference outcome over all rules and all bindings, and an outcome other than deny
  is returned only if the enumeration fits the budget.
\<close>

lemma evaluate_checked_not_truncated:
  assumes "evaluate_checked E rs input limit = Inr out"
  shows "out = reference_outcome E input (rs_rules rs) \<and>
    (out = MDeny \<or> binding_total E input (rs_rules rs) \<le> limit)"
  using evaluate_checked_Inr [OF assms] by blast

lemma evaluate_checked_not_truncated_witness:
  "\<exists>out. evaluate_checked sample_ext sample_audit_rules (sample_input []) 2 = Inr out \<and>
    out = reference_outcome sample_ext (sample_input []) (rs_rules sample_audit_rules) \<and>
    (out = MDeny \<or> binding_total sample_ext (sample_input []) (rs_rules sample_audit_rules) \<le> 2)"
proof -
  have "evaluate_checked sample_ext sample_audit_rules (sample_input []) 2 = Inr MAllow"
    by code_simp
  from evaluate_checked_not_truncated [OF this] this show ?thesis by blast
qed

lemma reference_deny:
  "reference_outcome E input rules = MDeny \<longleftrightarrow> (\<exists>r \<in> set rules. deny_hit E input r)"
  by (auto simp: reference_outcome_def Let_def list_ex_iff)

text \<open>
  The infallible entry point fails closed: if \<open>evaluate\<close> answers anything but deny, then no
  deny rule is satisfied by any binding and the complete enumeration stayed within the default
  budget.
\<close>

lemma evaluate_fails_closed:
  assumes "evaluate E rs input \<noteq> MDeny"
  shows "(\<forall>r \<in> set (rs_rules rs). \<not> deny_hit E input r) \<and>
    binding_total E input (rs_rules rs) \<le> default_max_event_bindings_per_tx"
proof -
  obtain out where out: "evaluate_checked E rs input default_max_event_bindings_per_tx = Inr out"
    "out \<noteq> MDeny"
    using assms by (auto simp: evaluate_def try_evaluate_def split: sum.splits)
  with evaluate_checked_Inr [OF out(1)] show ?thesis by (auto simp: reference_deny)
qed

lemma evaluate_fails_closed_witness:
  "evaluate sample_ext sample_audit_rules (sample_input []) \<noteq> MDeny \<and>
   list_all (\<lambda>r. \<not> deny_hit sample_ext (sample_input []) r) (rs_rules sample_audit_rules)"
proof -
  have "evaluate sample_ext sample_audit_rules (sample_input []) \<noteq> MDeny" by code_simp
  with evaluate_fails_closed show ?thesis unfolding list_all_iff by blast
qed

section \<open>What an audit carries\<close>

lemma hit_in_product:
  assumes "(r, b) \<in> set (audit_hits E input rules)"
  shows "r \<in> set rules" "has_physical b" "length b = length (cr_events r)"
proof -
  from assms have "b \<in> set (product_lists (candidates E r input))"
    by (auto simp: audit_hits_def rule_hits_def all_bindings_def split: if_splits)
  then show "length b = length (cr_events r)"
    using in_set_product_lists_length [of b "candidates E r input"] by (simp add: candidates_def)
  show "r \<in> set rules" "has_physical b"
    using assms by (auto simp: audit_hits_def rule_hits_def audit_hit_def)
qed

lemma hit_items_nonempty:
  assumes "has_physical b" "length b = length (cr_events r)"
  shows "hit_items (r, b) \<noteq> []"
proof -
  obtain i me where "i < length b" "b ! i = Some me"
    using assms(1) by (auto simp: has_physical_def list_ex_iff in_set_conv_nth)
  then have "(cr_events r ! i, Some me) \<in> set (zip (cr_events r) b)"
    using assms(2) by (auto simp: in_set_zip)
  then show ?thesis
    by (force simp: hit_items_def List.map_filter_def filter_empty_conv)
qed

lemma first_per_log_facts:
  "length (first_per_log items) = card (fst ` set items)" "set (first_per_log items) \<subseteq> snd ` set items"
proof -
  have "the (map_of items k) \<in> snd ` set items" if "k \<in> fst ` set items" for k
  proof -
    from that obtain v where "map_of items k = Some v" by (metis map_of_eq_None_iff not_None_eq)
    then show ?thesis by (force dest: map_of_SomeD)
  qed
  then show "set (first_per_log items) \<subseteq> snd ` set items" by (auto simp: first_per_log_def)
qed (simp add: first_per_log_def)

text \<open>
  An audit verdict always carries content, and never the same physical log twice: it has at
  least one audit type, and for each of its types the submitted list is non-empty with as many
  items as there are distinct logs backing the hits of that type, each item taken from one of them.
\<close>

lemma audit_outcome_content:
  assumes "evaluate_checked E rs input limit = Inr (MAudit acts ta)"
    and "\<forall>r \<in> set (rs_rules rs). rule_wf r"
  shows "acts \<noteq> [] \<and> bt_wf acts \<and>
    (\<forall>(t, items) \<in> set acts. items \<noteq> [] \<and>
       length items = card (fst ` set (type_items (audit_hits E input (rs_rules rs)) t)) \<and>
       set items \<subseteq> snd ` set (type_items (audit_hits E input (rs_rules rs)) t))"
proof -
  let ?hits = "audit_hits E input (rs_rules rs)"
  from evaluate_checked_Inr(1) [OF assms(1)]
  have ne: "?hits \<noteq> []"
    and acts: "acts = map (\<lambda>t. (t, first_per_log (type_items ?hits t))) (sorted_list_of_set (hit_types ?hits))"
    by (auto simp: reference_outcome_def Let_def split: if_splits)
  have fin: "finite (hit_types ?hits)" by (simp add: hit_types_def)
  have types: "cr_audit_types r \<noteq> []" if "(r, b) \<in> set ?hits" for r b
    using that hit_in_product(1) [OF that] assms(2)
    by (auto simp: rule_wf_def audit_hits_def rule_hits_def audit_hit_def)
  have items: "type_items ?hits t \<noteq> []" if "t \<in> hit_types ?hits" for t
  proof -
    from that obtain r b where rb: "(r, b) \<in> set ?hits" "t \<in> set (cr_audit_types r)"
      by (auto simp: hit_types_def)
    from hit_items_nonempty [OF hit_in_product(2,3) [OF rb(1)]] rb show ?thesis
      by (auto simp: type_items_def)
  qed
  obtain r b where rb: "(r, b) \<in> set ?hits" using ne by (metis list.set_intros(1) neq_Nil_conv surj_pair)
  then have "hit_types ?hits \<noteq> {}" using types [OF rb] by (force simp: hit_types_def)
  moreover have "bt_wf acts"
    by (simp add: acts bt_wf_def o_def strict_sorted_list_of_set)
  moreover have "first_per_log (type_items ?hits t) \<noteq> []" if "t \<in> hit_types ?hits" for t
    using items [OF that] fin by (simp add: first_per_log_def)
  ultimately show ?thesis using fin first_per_log_facts by (fastforce simp: acts)
qed

lemma audit_outcome_content_witness:
  "\<exists>acts ta. evaluate_checked sample_ext sample_audit_rules (sample_input [sample_transfer 1]) 10 =
      Inr (MAudit acts ta) \<and> acts \<noteq> [] \<and> bt_wf acts"
proof -
  have "case evaluate_checked sample_ext sample_audit_rules (sample_input [sample_transfer 1]) 10 of
      Inr (MAudit acts ta) \<Rightarrow> True | _ \<Rightarrow> False"
    by code_simp
  then obtain acts ta where
    *: "evaluate_checked sample_ext sample_audit_rules (sample_input [sample_transfer 1]) 10 = Inr (MAudit acts ta)"
    by (auto split: sum.splits match_outcome.splits)
  have "\<forall>r \<in> set (rs_rules sample_audit_rules). rule_wf r"
    by code_simp
  from audit_outcome_content [OF * this] * show ?thesis by blast
qed

section \<open>The index fast path\<close>

lemma bt_insert_keys: "fst ` set (fold (\<lambda>i a. bt_insert i () a) is acc) = set is \<union> fst ` set acc"
  by (induction "is" arbitrary: acc) (auto simp: bt_insert_def bt_keys_alter)

lemma candidate_rule_indices_mem:
  "i \<in> set (candidate_rule_indices rs logs) \<longleftrightarrow>
     (\<exists>l \<in> set logs. i \<in> set (candidates_for_anonymous rs (length (log_topics l))) \<or>
        (\<exists>t. list_get (log_topics l) 0 = Some t \<and> i \<in> set (candidates_for_topic0 rs t)))"
proof -
  have "fst ` set (fold (\<lambda>l acc.
       fold (\<lambda>i a. bt_insert i () a) (candidates_for_anonymous rs (length (log_topics l)))
         (case list_get (log_topics l) 0 of
            Some t \<Rightarrow> fold (\<lambda>i a. bt_insert i () a) (candidates_for_topic0 rs t) acc
          | None \<Rightarrow> acc)) logs m) = fst ` set m \<union>
     {i. \<exists>l \<in> set logs. i \<in> set (candidates_for_anonymous rs (length (log_topics l))) \<or>
        (\<exists>t. list_get (log_topics l) 0 = Some t \<and> i \<in> set (candidates_for_topic0 rs t))}" for m
    by (induction logs arbitrary: m) (auto simp: bt_insert_keys split: option.splits)
  from this [of "[]"] show ?thesis by (simp add: candidate_rule_indices_def)
qed

lemma find_logs_empty:
  "\<forall>l \<in> set logs. \<not> event_matches_shape ev l \<Longrightarrow> find_logs_for_event E ev logs = []"
  by (auto simp: find_logs_for_event_def List.map_filter_def filter_empty_conv in_set_enumerate_eq)

lemma candidates_no_match:
  assumes "\<forall>ev \<in> set (cr_events r). \<forall>l \<in> set (si_logs input). \<not> event_matches_shape ev l"
  shows "candidates E r input = replicate (length (cr_events r)) [None]"
  using assms by (auto simp: candidates_def find_logs_empty map_replicate_const [symmetric] intro!: map_cong)

text \<open>
  The candidate lookup over the indexes misses nothing: a rule of a loaded rule set that it
  does not return has no decodable log among the transaction's logs for any of its events, so its
  only binding is the all-null one.
\<close>

lemma candidate_lookup_complete:
  assumes "i < length (rs_rules (load_rules E pv cv raw))"
    and "i \<notin> set (candidate_rule_indices (load_rules E pv cv raw) (si_logs input))"
  shows "candidates E (rs_rules (load_rules E pv cv raw) ! i) input =
    replicate (length (cr_events (rs_rules (load_rules E pv cv raw) ! i))) [None]"
proof (rule candidates_no_match, intro ballI notI)
  let ?r = "rs_rules (load_rules E pv cv raw) ! i"
  fix ev l
  assume ev: "ev \<in> set (cr_events ?r)" and l: "l \<in> set (si_logs input)" and m: "event_matches_shape ev l"
  show False
  proof (cases "ce_anonymous ev")
    case True
    with m ev have "declares_anonymous (length (log_topics l)) ?r"
      by (auto simp: event_matches_shape_def declares_anonymous_def list_ex_iff indexed_topics_def)
    with assms l show False by (auto simp: candidate_rule_indices_mem load_rules_index_mem)
  next
    case False
    with m ev have "list_get (log_topics l) 0 = Some (ce_topic0 ev)" "declares_topic0 (ce_topic0 ev) ?r"
      by (auto simp: event_matches_shape_def declares_topic0_def list_ex_iff)
    with assms l show False by (auto simp: candidate_rule_indices_mem load_rules_index_mem)
  qed
qed

definition foreign_log :: log where
  "foreign_log = \<lparr>log_address = 0xAA, log_topics = [1], log_data = []\<rparr>"

lemma candidate_lookup_complete_witness:
  "candidate_rule_indices (load_rules sample_ext 1 7 sample_batch) [foreign_log] = [] \<and>
   candidates sample_ext (rs_rules (load_rules sample_ext 1 7 sample_batch) ! 0) (sample_input [foreign_log]) =
     replicate (length (cr_events (rs_rules (load_rules sample_ext 1 7 sample_batch) ! 0))) [None]"
proof -
  have "candidate_rule_indices (load_rules sample_ext 1 7 sample_batch) [foreign_log] = []"
    "0 < length (rs_rules (load_rules sample_ext 1 7 sample_batch))"
    by code_simp+
  moreover from this have "0 \<notin> set (candidate_rule_indices (load_rules sample_ext 1 7 sample_batch)
      (si_logs (sample_input [foreign_log])))"
    by (simp add: sample_input_def)
  ultimately show ?thesis using candidate_lookup_complete by blast
qed

end
