(* ===== verification/Quota_Hash.thy ===== *)
theory Quota_Hash
  imports Matching
begin

text \<open>
  The consistency hash of \<open>crates/rcs-filter/src/quota_hash.rs\<close>: a canonical, length-prefixed
  encoding of \<open>actions.quota\<close> that is hashed at submit time and again before packaging.
\<close>

unbundle bit_operations_syntax

section \<open>The encoder\<close>

definition to_be_bytes :: "32 word \<Rightarrow> byte list" where
  "to_be_bytes n = map (\<lambda>k. ucast (drop_bit k n)) [24, 16, 8, 0]"

text \<open>The argument is cut to 32 bits, as \<open>as u32\<close> does.\<close>

definition push_u32 :: "byte list \<Rightarrow> nat \<Rightarrow> byte list" where
  "push_u32 buf n = buf @ to_be_bytes (of_nat n)"

definition push_bytes :: "byte list \<Rightarrow> byte list \<Rightarrow> byte list" where
  "push_bytes buf bytes = push_u32 buf (length bytes) @ bytes"

definition address_bytes :: "address \<Rightarrow> byte list" where
  "address_bytes a = map (\<lambda>i. ucast (drop_bit (8 * (19 - i)) a)) [0..<20]"

definition push_address :: "ext \<Rightarrow> byte list \<Rightarrow> string \<Rightarrow> byte list" where
  "push_address E buf addr = (case address_from_str E addr of
       Some a \<Rightarrow> push_u32 buf 20 @ address_bytes a
     | None \<Rightarrow> push_bytes buf (as_bytes (to_ascii_lowercase addr)))"

fun push_json_value :: "ext \<Rightarrow> byte list \<Rightarrow> json \<Rightarrow> byte list"
  and push_json_values :: "ext \<Rightarrow> byte list \<Rightarrow> json list \<Rightarrow> byte list" where
  "push_json_value E buf (JString s) = push_bytes (buf @ [0]) (as_bytes (to_ascii_lowercase s))"
| "push_json_value E buf (JArray vs) = push_json_values E (push_u32 (buf @ [1]) (length vs)) vs"
| "push_json_value E buf v = push_bytes (buf @ [2]) (as_bytes (to_ascii_lowercase (json_to_string E v)))"
| "push_json_values E buf [] = buf"
| "push_json_values E buf (v # vs) = push_json_values E (push_json_value E buf v) vs"

definition push_param :: "ext \<Rightarrow> string \<times> json \<Rightarrow> byte list \<Rightarrow> byte list" where
  "push_param E kv buf = push_json_value E (push_bytes buf (as_bytes (fst kv))) (snd kv)"

definition push_item :: "ext \<Rightarrow> action_item \<Rightarrow> byte list \<Rightarrow> byte list" where
  "push_item E item buf =
     fold (push_param E) (it_params item)
       (push_u32 (push_address E (push_bytes buf (as_bytes (it_name item))) (it_address item))
         (length (it_params item)))"

definition quota_of :: "actions \<Rightarrow> action_item list" where
  "quota_of acts = (case map_of acts ''quota'' of Some items \<Rightarrow> items | None \<Rightarrow> [])"

definition quota_buffer :: "ext \<Rightarrow> actions \<Rightarrow> byte list" where
  "quota_buffer E acts = fold (push_item E) (quota_of acts) (push_u32 [] (length (quota_of acts)))"

definition encode_and_hash :: "ext \<Rightarrow> actions \<Rightarrow> b256" where
  "encode_and_hash E acts = keccak256 E (quota_buffer E acts)"

section \<open>Prefix codes\<close>

text \<open>
  A prefix code determines the canonical form of what was encoded and where its encoding ends.
  Codes for sequences and pairs are derived once for all of them.
\<close>

lemma concat_code_unique:
  assumes "\<And>x y r s. x \<in> set xs \<Longrightarrow> y \<in> set ys \<Longrightarrow> enc x @ r = enc y @ s \<Longrightarrow> canon x = canon y \<and> r = s"
    and "length xs = length ys" "concat (map enc xs) @ r = concat (map enc ys) @ s"
  shows "map canon xs = map canon ys \<and> r = s"
  using assms(2,1,3)
proof (induction xs ys rule: list_induct2)
  case (Cons x xs y ys)
  from Cons.prems(1) [of x y "concat (map enc xs) @ r" "concat (map enc ys) @ s"] Cons.prems(2)
  have "canon x = canon y" "concat (map enc xs) @ r = concat (map enc ys) @ s" by auto
  with Cons.IH Cons.prems(1) show ?case by auto
qed simp

locale prefix_code =
  fixes enc :: "'a \<Rightarrow> byte list" and canon :: "'a \<Rightarrow> 'c" and ok :: "'a \<Rightarrow> bool"
  assumes unique: "ok x \<Longrightarrow> ok y \<Longrightarrow> enc x @ r = enc y @ s \<Longrightarrow> canon x = canon y \<and> r = s"
    and determined: "canon x = canon y \<Longrightarrow> enc x = enc y"
begin

lemma list_unique:
  assumes "list_all ok xs" "list_all ok ys" "length xs = length ys"
    and "concat (map enc xs) @ r = concat (map enc ys) @ s"
  shows "map canon xs = map canon ys \<and> r = s"
proof (rule concat_code_unique [OF _ assms(3,4)])
  show "canon x = canon y \<and> r = s"
    if "x \<in> set xs" "y \<in> set ys" "enc x @ r = enc y @ s" for x y and r s :: "byte list"
    using that assms(1,2) by (intro unique) (auto simp: list_all_iff)
qed

lemma list_determined: "map canon xs = map canon ys \<Longrightarrow> concat (map enc xs) = concat (map enc ys)"
proof -
  assume "map canon xs = map canon ys"
  then have "map enc xs = map enc ys"
    by (induction xs ys rule: list_induct2') (auto intro: determined)
  then show ?thesis by simp
qed

end

locale pair_code = a: prefix_code enc1 canon1 ok1 + b: prefix_code enc2 canon2 ok2
  for enc1 :: "'a \<Rightarrow> byte list" and canon1 :: "'a \<Rightarrow> 'c" and ok1
    and enc2 :: "'b \<Rightarrow> byte list" and canon2 :: "'b \<Rightarrow> 'd" and ok2
begin

lemma pair_prefix_code:
  "prefix_code (\<lambda>p. enc1 (fst p) @ enc2 (snd p)) (map_prod canon1 canon2) (\<lambda>p. ok1 (fst p) \<and> ok2 (snd p))"
proof
  fix x y :: "'a \<times> 'b" and r s
  assume "ok1 (fst x) \<and> ok2 (snd x)" "ok1 (fst y) \<and> ok2 (snd y)"
    and *: "(enc1 (fst x) @ enc2 (snd x)) @ r = (enc1 (fst y) @ enc2 (snd y)) @ s"
  moreover from * have "enc1 (fst x) @ (enc2 (snd x) @ r) = enc1 (fst y) @ (enc2 (snd y) @ s)" by simp
  ultimately have "canon1 (fst x) = canon1 (fst y)" "enc2 (snd x) @ r = enc2 (snd y) @ s"
    "ok2 (snd x)" "ok2 (snd y)"
    using a.unique by blast+
  then have "canon1 (fst x) = canon1 (fst y)" "canon2 (snd x) = canon2 (snd y) \<and> r = s"
    using b.unique by blast+
  then show "map_prod canon1 canon2 x = map_prod canon1 canon2 y \<and> r = s"
    by (simp add: prod_eq_iff)
next
  fix x y :: "'a \<times> 'b"
  assume "map_prod canon1 canon2 x = map_prod canon1 canon2 y"
  then have "canon1 (fst x) = canon1 (fst y)" "canon2 (snd x) = canon2 (snd y)"
    by (simp_all add: prod_eq_iff)
  then show "enc1 (fst x) @ enc2 (snd x) = enc1 (fst y) @ enc2 (snd y)"
    by (metis a.determined b.determined)
qed

end

section \<open>The codes of the encoder\<close>

lemma to_be_bytes_inj: "to_be_bytes m = to_be_bytes n \<Longrightarrow> m = n"
proof -
  assume eq: "to_be_bytes m = to_be_bytes n"
  have "bit m i = bit n i" if "i < 32" for i
  proof -
    have b: "bit (ucast (drop_bit k m) :: byte) j = bit (ucast (drop_bit k n) :: byte) j"
      if "k \<in> {24, 16, 8, 0}" for k j
      using eq that by (auto simp: to_be_bytes_def)
    have "i = 8 * (i div 8) + i mod 8" by simp
    moreover have "8 * (i div 8) \<in> {24, 16, 8, 0}" using that by (auto; presburger)
    ultimately show ?thesis
      using b [of "8 * (i div 8)" "i mod 8"] that by (auto simp: bit_simps)
  qed
  then show "m = n" by (auto intro: bit_word_eqI)
qed

lemma length_to_be_bytes [simp]: "length (to_be_bytes n) = 4"
  by (simp add: to_be_bytes_def)

lemma of_nat_32_inj: "m < 2 ^ 32 \<Longrightarrow> n < 2 ^ 32 \<Longrightarrow> (of_nat m :: 32 word) = of_nat n \<Longrightarrow> m = n"
  by (simp add: word_of_nat_eq_iff take_bit_nat_eq_self)

lemma u32_unique:
  assumes "m < 2 ^ 32" "n < 2 ^ 32" "push_u32 [] m @ r = push_u32 [] n @ s"
  shows "m = n" "r = s"
proof -
  from assms(3) have "to_be_bytes (of_nat m) = to_be_bytes (of_nat n)" "r = s"
    by (auto simp: push_u32_def)
  then show "m = n" "r = s" using assms(1,2) to_be_bytes_inj of_nat_32_inj by blast+
qed

lemma push_append:
  "push_u32 buf n = buf @ push_u32 [] n"
  "push_bytes buf b = buf @ push_bytes [] b"
  "push_address E buf a = buf @ push_address E [] a"
  by (simp_all add: push_u32_def push_bytes_def push_address_def split: option.splits)

lemma push_json_values_append:
  assumes "\<And>v buf. v \<in> set vs \<Longrightarrow> push_json_value E buf v = buf @ push_json_value E [] v"
  shows "push_json_values E buf vs = buf @ concat (map (push_json_value E []) vs)"
  using assms
proof (induction vs arbitrary: buf)
  case (Cons v vs)
  have "push_json_values E buf (v # vs) = push_json_values E (push_json_value E buf v) vs" by simp
  also have "\<dots> = push_json_value E buf v @ concat (map (push_json_value E []) vs)"
    by (rule Cons.IH) (rule Cons.prems, simp)
  also have "push_json_value E buf v = buf @ push_json_value E [] v" by (rule Cons.prems) simp
  finally show ?case by simp
qed simp

lemma push_json_value_append: "push_json_value E buf v = buf @ push_json_value E [] v"
proof (induction v arbitrary: buf)
  case (JArray vs)
  have "push_json_values E b vs = b @ concat (map (push_json_value E []) vs)" for b
    by (rule push_json_values_append) (rule JArray)
  then show ?case
    using push_append(1) [of "buf @ [1]" "length vs"] push_append(1) [of "[1]" "length vs"] by simp
qed (simp_all add: push_append(2) [of "_ @ [_]"] push_append(2) [of "[_]"])

lemmas push_json_values_concat = push_json_values_append [OF push_json_value_append]

lemma push_json_array:
  "push_json_value E [] (JArray vs) =
     1 # push_u32 [] (length vs) @ concat (map (push_json_value E []) vs)"
  using push_append(1) [of "[1]"] by (simp add: push_json_values_concat)

section \<open>Canonical forms\<close>

datatype canon_json = CanonString "byte list" | CanonArray "canon_json list" | CanonOther "byte list"

fun canon_value :: "ext \<Rightarrow> json \<Rightarrow> canon_json" where
  "canon_value E (JString s) = CanonString (as_bytes (to_ascii_lowercase s))"
| "canon_value E (JArray vs) = CanonArray (map (canon_value E) vs)"
| "canon_value E v = CanonOther (as_bytes (to_ascii_lowercase (json_to_string E v)))"

fun value_ok :: "ext \<Rightarrow> json \<Rightarrow> bool" where
  "value_ok E (JString s) \<longleftrightarrow> length s < 2 ^ 32"
| "value_ok E (JArray vs) \<longleftrightarrow> length vs < 2 ^ 32 \<and> list_all (value_ok E) vs"
| "value_ok E v \<longleftrightarrow> length (json_to_string E v) < 2 ^ 32"

definition canon_address :: "ext \<Rightarrow> string \<Rightarrow> byte list" where
  "canon_address E s = (case address_from_str E s of
       Some a \<Rightarrow> address_bytes a | None \<Rightarrow> as_bytes (to_ascii_lowercase s))"

definition canon_params :: "ext \<Rightarrow> (string \<times> json) list \<Rightarrow> (string \<times> canon_json) list" where
  "canon_params E ps = map (map_prod (\<lambda>k. k) (canon_value E)) ps"

definition canon_item :: "ext \<Rightarrow> action_item \<Rightarrow> string \<times> byte list \<times> (string \<times> canon_json) list" where
  "canon_item E item = (it_name item, canon_address E (it_address item), canon_params E (it_params item))"

definition param_ok :: "ext \<Rightarrow> string \<times> json \<Rightarrow> bool" where
  "param_ok E kv \<longleftrightarrow> length (fst kv) < 2 ^ 32 \<and> value_ok E (snd kv)"

definition item_ok :: "ext \<Rightarrow> action_item \<Rightarrow> bool" where
  "item_ok E item \<longleftrightarrow> length (it_name item) < 2 ^ 32 \<and> length (it_address item) < 2 ^ 32 \<and>
     length (it_params item) < 2 ^ 32 \<and> list_all (param_ok E) (it_params item)"

definition quota_ok :: "ext \<Rightarrow> actions \<Rightarrow> bool" where
  "quota_ok E acts \<longleftrightarrow> length (quota_of acts) < 2 ^ 32 \<and> list_all (item_ok E) (quota_of acts)"

lemma length_to_ascii_lowercase [simp]: "length (to_ascii_lowercase s) = length s"
  by (simp add: to_ascii_lowercase_def)

lemma length_address_bytes [simp]: "length (address_bytes a) = 20"
  by (simp add: address_bytes_def)

lemma of_char_byte_inj: "(of_char c :: byte) = of_char d \<Longrightarrow> c = d"
proof -
  assume "(of_char c :: byte) = of_char d"
  then have "(of_nat (of_char c) :: byte) = of_nat (of_char d)" by (simp add: of_nat_of_char)
  then show "c = d" by (simp add: word_of_nat_eq_iff take_bit_eq_mod)
qed

lemma as_bytes_inj: "as_bytes s = as_bytes t \<longleftrightarrow> s = t"
  unfolding as_bytes_def by (rule inj_map_eq_map) (auto intro!: injI of_char_byte_inj)

section \<open>The codes of the encoder\<close>

interpretation bytes_code: prefix_code "push_bytes []" "\<lambda>b. b" "\<lambda>b. length b < 2 ^ 32"
proof
  fix x y r s :: "byte list"
  assume "length x < 2 ^ 32" "length y < 2 ^ 32" and *: "push_bytes [] x @ r = push_bytes [] y @ s"
  moreover from * have "push_u32 [] (length x) @ (x @ r) = push_u32 [] (length y) @ (y @ s)"
    by (simp add: push_bytes_def)
  ultimately have "length x = length y" "x @ r = y @ s" using u32_unique by blast+
  then show "x = y \<and> r = s" by simp
qed simp

lemma push_address_bytes: "push_address E [] s = push_bytes [] (canon_address E s)"
  by (simp add: push_address_def push_bytes_def canon_address_def split: option.splits)

lemma canon_address_bound: "length s < 2 ^ 32 \<Longrightarrow> length (canon_address E s) < 2 ^ 32"
  by (simp add: canon_address_def split: option.splits)

interpretation address_code: prefix_code "push_address E []" "canon_address E" "\<lambda>s. length s < 2 ^ 32" for E
proof
  fix x y and r s :: "byte list"
  assume x: "length x < 2 ^ 32" and y: "length y < 2 ^ 32"
    and eq: "push_address E [] x @ r = push_address E [] y @ s"
  show "canon_address E x = canon_address E y \<and> r = s"
    by (rule bytes_code.unique [OF canon_address_bound [OF x] canon_address_bound [OF y]
          eq [unfolded push_address_bytes]])
qed (simp add: push_address_bytes)

interpretation key_code: prefix_code "\<lambda>k. push_bytes [] (as_bytes k)" "\<lambda>k. k" "\<lambda>k. length k < 2 ^ 32"
proof
  fix x y and r s :: "byte list"
  assume "length x < 2 ^ 32" "length y < 2 ^ 32"
    "push_bytes [] (as_bytes x) @ r = push_bytes [] (as_bytes y) @ s"
  with bytes_code.unique [of "as_bytes x" "as_bytes y" r s] show "x = y \<and> r = s"
    by (simp add: as_bytes_inj)
qed simp

lemma value_tag:
  "push_json_value E [] v = (case v of
       JString s \<Rightarrow> 0 # push_bytes [] (as_bytes (to_ascii_lowercase s))
     | JArray vs \<Rightarrow> 1 # push_u32 [] (length vs) @ concat (map (push_json_value E []) vs)
     | _ \<Rightarrow> 2 # push_bytes [] (as_bytes (to_ascii_lowercase (json_to_string E v))))"
  using push_append(2) [of "[0]"] push_append(2) [of "[2]"] push_json_array
  by (cases v) (simp_all del: push_json_value.simps(2))

lemma value_code_unique:
  "value_ok E v \<Longrightarrow> value_ok E w \<Longrightarrow> push_json_value E [] v @ r = push_json_value E [] w @ s \<Longrightarrow>
     canon_value E v = canon_value E w \<and> r = s"
proof (induction v arbitrary: w r s)
  case (JArray vs)
  from JArray.prems(3) obtain ws where w: "w = JArray ws"
    by (cases w) (simp_all add: value_tag del: push_json_value.simps)
  with JArray.prems(3) have eq: "push_u32 [] (length vs) @ (concat (map (push_json_value E []) vs) @ r) =
      push_u32 [] (length ws) @ (concat (map (push_json_value E []) ws) @ s)"
    by (simp add: value_tag del: push_json_value.simps)
  have len: "length vs = length ws" "concat (map (push_json_value E []) vs) @ r = concat (map (push_json_value E []) ws) @ s"
    using u32_unique [OF _ _ eq] JArray.prems(1,2) w by auto
  have "map (canon_value E) vs = map (canon_value E) ws \<and> r = s"
  proof (rule concat_code_unique [OF _ len])
    show "canon_value E x = canon_value E y \<and> r = s"
      if "x \<in> set vs" "y \<in> set ws" "push_json_value E [] x @ r = push_json_value E [] y @ s" for x y r s
      using JArray.IH [OF that(1)] JArray.prems(1,2) that w by (auto simp: list_all_iff)
  qed
  with w show ?case by simp
qed (case_tac w; auto simp: value_tag simp del: push_json_value.simps dest: bytes_code.unique [rotated 2])+

interpretation value_code: prefix_code "push_json_value E []" "canon_value E" "value_ok E" for E
proof
  fix v w and r s :: "byte list"
  assume "value_ok E v" "value_ok E w" "push_json_value E [] v @ r = push_json_value E [] w @ s"
  then show "canon_value E v = canon_value E w \<and> r = s" by (rule value_code_unique)
next
  fix v w
  assume "canon_value E v = canon_value E w"
  then show "push_json_value E [] v = push_json_value E [] w"
  proof (induction v arbitrary: w)
    case (JArray vs)
    then obtain ws where w: "w = JArray ws" "map (canon_value E) vs = map (canon_value E) ws"
      by (cases w) auto
    have len: "length vs = length ws" using w(2) by (rule map_eq_imp_length_eq)
    have "push_json_value E [] (vs ! i) = push_json_value E [] (ws ! i)" if "i < length vs" for i
      by (rule JArray.IH) (use that len w(2) in \<open>simp_all add: list_eq_iff_nth_eq\<close>)
    then have "map (push_json_value E []) vs = map (push_json_value E []) ws"
      using len by (simp add: list_eq_iff_nth_eq)
    with len show ?case unfolding w(1) push_json_array by (simp only:)
  qed (case_tac w; auto simp: value_tag simp del: push_json_value.simps)+
qed

interpretation param_code: pair_code "\<lambda>k. push_bytes [] (as_bytes k)" "\<lambda>k. k" "\<lambda>k. length k < 2 ^ 32"
  "push_json_value E []" "canon_value E" "value_ok E" for E ..

interpretation params_code: prefix_code
  "\<lambda>kv. push_bytes [] (as_bytes (fst kv)) @ push_json_value E [] (snd kv)"
  "map_prod (\<lambda>k. k) (canon_value E)" "\<lambda>kv. length (fst kv) < 2 ^ 32 \<and> value_ok E (snd kv)" for E
  by (rule param_code.pair_prefix_code)

lemma fold_push_param:
  "fold (push_param E) ps buf =
     buf @ concat (map (\<lambda>kv. push_bytes [] (as_bytes (fst kv)) @ push_json_value E [] (snd kv)) ps)"
proof (induction ps arbitrary: buf)
  case (Cons kv ps)
  have "push_param E kv buf = buf @ push_bytes [] (as_bytes (fst kv)) @ push_json_value E [] (snd kv)"
    unfolding push_param_def
    by (subst push_json_value_append, subst push_append(2)) simp
  then show ?case by (simp add: Cons.IH)
qed simp

lemma push_item_code:
  "push_item E item buf = buf @ push_bytes [] (as_bytes (it_name item)) @
     push_address E [] (it_address item) @ push_u32 [] (length (it_params item)) @
     concat (map (\<lambda>kv. push_bytes [] (as_bytes (fst kv)) @ push_json_value E [] (snd kv)) (it_params item))"
  unfolding push_item_def fold_push_param
  by (subst push_append(1), subst push_append(3), subst push_append(2)) simp

interpretation item_code: prefix_code "\<lambda>item. push_item E item []" "canon_item E" "item_ok E" for E
proof
  fix x y and r s :: "byte list"
  let ?enc = "\<lambda>kv. push_bytes [] (as_bytes (fst kv)) @ push_json_value E [] (snd kv)"
  assume ok: "item_ok E x" "item_ok E y" and "push_item E x [] @ r = push_item E y [] @ s"
  then have "push_bytes [] (as_bytes (it_name x)) @ (push_address E [] (it_address x) @
      (push_u32 [] (length (it_params x)) @ (concat (map ?enc (it_params x)) @ r))) =
    push_bytes [] (as_bytes (it_name y)) @ (push_address E [] (it_address y) @
      (push_u32 [] (length (it_params y)) @ (concat (map ?enc (it_params y)) @ s)))"
    by (simp add: push_item_code)
  from key_code.unique [OF _ _ this] ok have n: "it_name x = it_name y"
    and "push_address E [] (it_address x) @
      (push_u32 [] (length (it_params x)) @ (concat (map ?enc (it_params x)) @ r)) =
    push_address E [] (it_address y) @
      (push_u32 [] (length (it_params y)) @ (concat (map ?enc (it_params y)) @ s))"
    by (auto simp: item_ok_def)
  from address_code.unique [OF _ _ this(2)] ok have a: "canon_address E (it_address x) = canon_address E (it_address y)"
    and u: "push_u32 [] (length (it_params x)) @ (concat (map ?enc (it_params x)) @ r) =
      push_u32 [] (length (it_params y)) @ (concat (map ?enc (it_params y)) @ s)"
    by (auto simp: item_ok_def)
  have l: "length (it_params x) = length (it_params y)"
    "concat (map ?enc (it_params x)) @ r = concat (map ?enc (it_params y)) @ s"
    using u32_unique [OF _ _ u] ok by (auto simp: item_ok_def)
  have "list_all (\<lambda>kv. length (fst kv) < 2 ^ 32 \<and> value_ok E (snd kv)) (it_params x)"
    "list_all (\<lambda>kv. length (fst kv) < 2 ^ 32 \<and> value_ok E (snd kv)) (it_params y)"
    using ok by (auto simp: item_ok_def param_ok_def list_all_iff)
  from params_code.list_unique [OF this l] n a show "canon_item E x = canon_item E y \<and> r = s"
    by (simp add: canon_item_def canon_params_def)
next
  fix x y
  assume "canon_item E x = canon_item E y"
  then have *: "it_name x = it_name y" "canon_address E (it_address x) = canon_address E (it_address y)"
    "map (map_prod (\<lambda>k. k) (canon_value E)) (it_params x) = map (map_prod (\<lambda>k. k) (canon_value E)) (it_params y)"
    by (simp_all add: canon_item_def canon_params_def)
  have "length (it_params x) = length (it_params y)" using *(3) by (rule map_eq_imp_length_eq)
  with * params_code.list_determined [OF *(3)] show "push_item E x [] = push_item E y []"
    by (simp only: push_item_code address_code.determined [OF *(2)])
qed

lemma quota_buffer_code:
  "quota_buffer E acts =
     push_u32 [] (length (quota_of acts)) @ concat (map (\<lambda>item. push_item E item []) (quota_of acts))"
proof -
  have "fold (push_item E) items buf = buf @ concat (map (\<lambda>item. push_item E item []) items)" for items buf
  proof (induction items arbitrary: buf)
    case (Cons item items)
    have "push_item E item buf = buf @ push_item E item []" by (simp only: push_item_code append_Nil)
    with Cons.IH show ?case by simp
  qed simp
  then show ?thesis by (simp add: quota_buffer_def)
qed

lemma quota_buffer_canonical:
  assumes "quota_ok E acts" "quota_ok E acts'"
  shows "quota_buffer E acts = quota_buffer E acts' \<longleftrightarrow>
    map (canon_item E) (quota_of acts) = map (canon_item E) (quota_of acts')"
proof
  assume "quota_buffer E acts = quota_buffer E acts'"
  then have eq: "push_u32 [] (length (quota_of acts)) @ (concat (map (\<lambda>item. push_item E item []) (quota_of acts)) @ []) =
    push_u32 [] (length (quota_of acts')) @ (concat (map (\<lambda>item. push_item E item []) (quota_of acts')) @ [])"
    by (simp add: quota_buffer_code)
  have "length (quota_of acts) = length (quota_of acts')"
    "concat (map (\<lambda>item. push_item E item []) (quota_of acts)) @ [] =
     concat (map (\<lambda>item. push_item E item []) (quota_of acts')) @ []"
    using u32_unique [OF _ _ eq] assms by (auto simp: quota_ok_def)
  with item_code.list_unique [OF _ _ this] assms
  show "map (canon_item E) (quota_of acts) = map (canon_item E) (quota_of acts')"
    by (simp add: quota_ok_def)
next
  assume *: "map (canon_item E) (quota_of acts) = map (canon_item E) (quota_of acts')"
  have "length (quota_of acts) = length (quota_of acts')" using * by (rule map_eq_imp_length_eq)
  with item_code.list_determined [OF *] show "quota_buffer E acts = quota_buffer E acts'"
    by (simp add: quota_buffer_code)
qed

text \<open>
  C35. The consistency hash compares exactly the canonical quota: for action sets whose fields fit
  the 32-bit length prefixes, and when the digest does not collide on their two encodings, the
  hashes agree if and only if the quota items agree in number, order, name, raw address, parameter
  names, and parameter values up to ASCII case.
\<close>

theorem encode_and_hash_exact:
  assumes "quota_ok E acts" "quota_ok E acts'"
    and "inj_on (keccak256 E) {quota_buffer E acts, quota_buffer E acts'}"
  shows "encode_and_hash E acts = encode_and_hash E acts' \<longleftrightarrow>
    map (canon_item E) (quota_of acts) = map (canon_item E) (quota_of acts')"
  unfolding encode_and_hash_def quota_buffer_canonical [OF assms(1,2), symmetric]
  by (rule inj_on_eq_iff [OF assms(3)]) simp_all

definition sample_item :: "string \<Rightarrow> action_item" where
  "sample_item v = \<lparr>it_name = ''t'', it_address = addr_1, it_params = [(''value'', JString v)]\<rparr>"

theorem encode_and_hash_exact_witness:
  "let a = [(''quota'', [sample_item ''5''])]; b = [(''quota'', [sample_item ''50''])] in
   quota_ok sample_ext a \<and> quota_ok sample_ext b \<and>
   inj_on (keccak256 sample_ext) {quota_buffer sample_ext a, quota_buffer sample_ext b} \<and>
   encode_and_hash sample_ext a \<noteq> encode_and_hash sample_ext b"
proof -
  let ?a = "[(''quota'', [sample_item ''5''])]" and ?b = "[(''quota'', [sample_item ''50''])]"
  have ok: "quota_ok sample_ext ?a" "quota_ok sample_ext ?b"
    by (simp_all add: quota_ok_def quota_of_def item_ok_def param_ok_def sample_item_def addr_1_def)
  have "keccak256 sample_ext (quota_buffer sample_ext ?a) \<noteq> keccak256 sample_ext (quota_buffer sample_ext ?b)"
    by code_simp
  then have inj: "inj_on (keccak256 sample_ext) {quota_buffer sample_ext ?a, quota_buffer sample_ext ?b}"
    by (auto simp: inj_on_def)
  have "map (canon_item sample_ext) (quota_of ?a) \<noteq> map (canon_item sample_ext) (quota_of ?b)"
    by (simp add: quota_of_def canon_item_def canon_params_def sample_item_def as_bytes_inj to_ascii_lowercase_def)
  with encode_and_hash_exact [OF ok inj] ok inj show ?thesis by (simp add: Let_def)
qed

end
