(* ===== verification/Buffer_Pool.thy ===== *)
theory Buffer_Pool
  imports Matching
begin

text \<open>
  The buffer pool of \<open>crates/rcs-filter/src/pool.rs\<close>: the table of transactions under
  adjudication, their status machine, and the generation tokens that fence stale results. Times
  are Unix seconds. The pool's methods run under its mutex and are functions on the pool.
\<close>

section \<open>State\<close>

datatype buffer_status = NotSubmitted | Submitted | Pending | Approved | TimedOutAllow | Dropped

definition is_terminal :: "buffer_status \<Rightarrow> bool" where
  "is_terminal s \<longleftrightarrow> s = TimedOutAllow \<or> s = Dropped"

datatype resolution = ReleaseForPackaging | Discard

datatype query_resolution = RetryTimeout resolution | QDenied | QOutdated

record buffer_entry =
  be_generation :: u64
  be_tx_hash :: b256
  be_origin :: address
  be_contract_address :: address
  be_nonce :: nat
  be_block_height :: nat
  be_status :: buffer_status
  be_actions :: actions
  be_rule_snapshot :: rule_set
  be_quota_consistency_hash :: b256
  be_timeout_action :: timeout_action
  be_first_not_submitted_at :: nat
  be_last_transition_at :: nat

record buffer_pool =
  bp_entries :: "(b256, buffer_entry) hmap"
  bp_next_generation :: u64

definition pool_default :: buffer_pool where
  "pool_default = \<lparr>bp_entries = [], bp_next_generation = 0\<rparr>"

section \<open>Queries\<close>

definition pool_get :: "buffer_pool \<Rightarrow> b256 \<Rightarrow> buffer_entry option" where
  "pool_get p h = map_of (bp_entries p) h"

definition pool_matches :: "buffer_pool \<Rightarrow> b256 \<Rightarrow> u64 \<Rightarrow> buffer_status \<Rightarrow> bool" where
  "pool_matches p h g s = (case pool_get p h of
       Some e \<Rightarrow> be_generation e = g \<and> be_status e = s | None \<Rightarrow> False)"

definition pool_contains :: "buffer_pool \<Rightarrow> b256 \<Rightarrow> bool" where
  "pool_contains p h \<longleftrightarrow> pool_get p h \<noteq> None"

definition pool_len :: "buffer_pool \<Rightarrow> nat" where
  "pool_len p = length (bp_entries p)"

definition pool_is_empty :: "buffer_pool \<Rightarrow> bool" where
  "pool_is_empty p \<longleftrightarrow> bp_entries p = []"

fun status_index :: "buffer_status \<Rightarrow> nat" where
  "status_index NotSubmitted = 0"
| "status_index Submitted = 1"
| "status_index Pending = 2"
| "status_index Approved = 3"
| "status_index TimedOutAllow = 4"
| "status_index Dropped = 5"

definition status_counts :: "buffer_pool \<Rightarrow> nat list" where
  "status_counts p = fold (\<lambda>(h, e) cs. let i = status_index (be_status e) in cs[i := cs ! i + 1])
     (bp_entries p) (replicate 6 0)"

definition is_in_flight :: "buffer_status \<Rightarrow> bool" where
  "is_in_flight s \<longleftrightarrow> s = Submitted \<or> s = Pending \<or> s = Approved"

definition values_where :: "(buffer_status \<Rightarrow> bool) \<Rightarrow> buffer_pool \<Rightarrow> buffer_entry list" where
  "values_where P p = filter (\<lambda>e. P (be_status e)) (map snd (bp_entries p))"

definition not_submitted :: "buffer_pool \<Rightarrow> b256 list" where
  "not_submitted p = map be_tx_hash (values_where (\<lambda>s. s = NotSubmitted) p)"

definition in_flight_hashes :: "ext \<Rightarrow> buffer_pool \<Rightarrow> string list" where
  "in_flight_hashes E p = map (\<lambda>e. b256_lower_hex E (be_tx_hash e)) (values_where is_in_flight p)"

definition in_flight_generations :: "buffer_pool \<Rightarrow> (b256, u64) hmap" where
  "in_flight_generations p =
     fold (\<lambda>e m. AList.update (be_tx_hash e) (be_generation e) m) (values_where is_in_flight p) []"

definition dropped_hashes :: "buffer_pool \<Rightarrow> b256 list" where
  "dropped_hashes p = map be_tx_hash (values_where (\<lambda>s. s = Dropped) p)"

definition dropped_lifecycles :: "buffer_pool \<Rightarrow> (b256 \<times> u64) list" where
  "dropped_lifecycles p = map (\<lambda>e. (be_tx_hash e, be_generation e)) (values_where (\<lambda>s. s = Dropped) p)"

definition non_terminal_lifecycles :: "buffer_pool \<Rightarrow> (b256 \<times> u64) list" where
  "non_terminal_lifecycles p =
     map (\<lambda>e. (be_tx_hash e, be_generation e)) (values_where (\<lambda>s. \<not> is_terminal s) p)"

section \<open>Updates\<close>

definition put :: "b256 \<Rightarrow> buffer_entry \<Rightarrow> buffer_pool \<Rightarrow> buffer_pool" where
  "put h e p = p\<lparr>bp_entries := AList.update h e (bp_entries p)\<rparr>"

definition set_status :: "buffer_status \<Rightarrow> nat \<Rightarrow> buffer_entry \<Rightarrow> buffer_entry" where
  "set_status s now e = e\<lparr>be_status := s, be_last_transition_at := now\<rparr>"

definition pool_insert :: "buffer_entry \<Rightarrow> buffer_pool \<Rightarrow> buffer_pool" where
  "pool_insert e p =
     (if pool_contains p (be_tx_hash e) then p
      else let g = bp_next_generation p + 1
           in put (be_tx_hash e) (e\<lparr>be_generation := g\<rparr>) (p\<lparr>bp_next_generation := g\<rparr>))"

definition pool_remove :: "b256 \<Rightarrow> buffer_pool \<Rightarrow> buffer_entry option \<times> buffer_pool" where
  "pool_remove h p = (pool_get p h, p\<lparr>bp_entries := AList.delete h (bp_entries p)\<rparr>)"

definition finish_consistency_check ::
    "b256 \<Rightarrow> u64 \<Rightarrow> bool \<Rightarrow> nat \<Rightarrow> buffer_pool \<Rightarrow> buffer_status option \<times> buffer_pool" where
  "finish_consistency_check h expected_generation consistent now p = (case pool_get p h of
       None \<Rightarrow> (None, p)
     | Some e \<Rightarrow>
         if be_generation e \<noteq> expected_generation then (None, p)
         else if be_status e = Approved \<and> \<not> consistent
         then (Some Dropped, put h (set_status Dropped now e) p)
         else (Some (be_status e), p))"

fun remove_canonical :: "b256 list \<Rightarrow> buffer_pool \<Rightarrow> nat \<times> buffer_pool" where
  "remove_canonical [] p = (0, p)"
| "remove_canonical (h # hs) p =
     (case pool_remove h p of (removed, p') \<Rightarrow>
      case remove_canonical hs p' of (n, p'') \<Rightarrow> (if removed \<noteq> None then Suc n else n, p''))"

definition retain :: "(buffer_entry \<Rightarrow> bool) \<Rightarrow> buffer_pool \<Rightarrow> nat \<times> buffer_pool" where
  "retain P p = (let p' = p\<lparr>bp_entries := filter (\<lambda>(h, e). P e) (bp_entries p)\<rparr>
                 in (pool_len p - pool_len p', p'))"

definition recover_after_canonical_lag :: "buffer_pool \<Rightarrow> nat \<times> buffer_pool" where
  "recover_after_canonical_lag p = retain (\<lambda>e. be_status e = Dropped) p"

definition remove_non_terminal_if_generation :: "b256 \<Rightarrow> u64 \<Rightarrow> buffer_pool \<Rightarrow> bool \<times> buffer_pool" where
  "remove_non_terminal_if_generation h expected_generation p =
     (let should_remove = (case pool_get p h of
            Some e \<Rightarrow> be_generation e = expected_generation \<and> \<not> is_terminal (be_status e)
          | None \<Rightarrow> False)
      in (should_remove, if should_remove then snd (pool_remove h p) else p))"

definition resolve_total_timeout ::
    "filter_config \<Rightarrow> nat \<Rightarrow> buffer_entry \<Rightarrow> resolution option \<times> buffer_entry" where
  "resolve_total_timeout cfg now e =
     (if be_status e \<notin> {NotSubmitted, Submitted, Pending} \<or>
         saturating_sub now (be_first_not_submitted_at e) \<le> as_secs (fc_total_retry_timeout cfg)
      then (None, e)
      else case be_timeout_action e of
             TimeoutAllow \<Rightarrow> (Some ReleaseForPackaging, set_status TimedOutAllow now e)
           | TimeoutDeny \<Rightarrow> (Some Discard, set_status Dropped now e))"

definition parse_hash :: "ext \<Rightarrow> string \<Rightarrow> b256 option" where
  "parse_hash E s = b256_from_str E s"

text \<open>The loop over the expected generations, in the iteration order of that map.\<close>

fun submit_loop :: "filter_config \<Rightarrow> nat \<Rightarrow> b256 set \<Rightarrow> (b256 \<times> u64) list \<Rightarrow> buffer_pool
    \<Rightarrow> (b256 \<times> u64 \<times> resolution) list \<times> buffer_pool" where
  "submit_loop cfg now acc [] p = ([], p)"
| "submit_loop cfg now acc ((h, g) # hs) p =
     (case pool_get p h of
        None \<Rightarrow> submit_loop cfg now acc hs p
      | Some e \<Rightarrow>
          if be_generation e \<noteq> g then submit_loop cfg now acc hs p
          else (case resolve_total_timeout cfg now e of
                  (Some r, e') \<Rightarrow>
                    (case submit_loop cfg now acc hs (put h e' p) of (rs, p') \<Rightarrow> ((h, g, r) # rs, p'))
                | (None, e') \<Rightarrow>
                    submit_loop cfg now acc hs
                      (if h \<in> acc \<and> be_status e = NotSubmitted
                       then put h (set_status Submitted now e) p else p)))"

definition apply_submit_response ::
    "ext \<Rightarrow> string list \<Rightarrow> (b256, u64) hmap \<Rightarrow> filter_config \<Rightarrow> nat \<Rightarrow> buffer_pool
      \<Rightarrow> (b256 \<times> u64 \<times> resolution) list \<times> buffer_pool" where
  "apply_submit_response E acc expected_generations cfg now p =
     submit_loop cfg now (set (List.map_filter (parse_hash E) acc)) expected_generations p"

definition query_update ::
    "string \<Rightarrow> filter_config \<Rightarrow> nat \<Rightarrow> buffer_entry \<Rightarrow> query_resolution option \<times> buffer_entry" where
  "query_update status cfg now e =
     (case resolve_total_timeout cfg now e of
        (Some r, e') \<Rightarrow> (Some (RetryTimeout r), e')
      | (None, e') \<Rightarrow>
          if status = ''pending''
          then (None, if be_status e = Submitted then set_status Pending now e else e)
          else if status = ''approved''
          then (None, if be_status e \<in> {Submitted, Pending} then set_status Approved now e else e)
          else if status \<in> {''denied'', ''outdated''}
          then (Some (if status = ''outdated'' then QOutdated else QDenied), set_status Dropped now e)
          else (None, e))"

definition apply_query_status ::
    "b256 \<Rightarrow> u64 \<Rightarrow> string \<Rightarrow> filter_config \<Rightarrow> nat \<Rightarrow> buffer_pool \<Rightarrow> query_resolution option \<times> buffer_pool" where
  "apply_query_status h expected_generation status cfg now p = (case pool_get p h of
       None \<Rightarrow> (None, p)
     | Some e \<Rightarrow>
         if be_generation e \<noteq> expected_generation \<or> is_terminal (be_status e) then (None, p)
         else (case query_update status cfg now e of (r, e') \<Rightarrow> (r, put h e' p)))"

text \<open>\<open>values_mut\<close> loops: every entry is replaced in place, some with a reported resolution.\<close>

definition update_all :: "(buffer_entry \<Rightarrow> resolution option \<times> buffer_entry) \<Rightarrow> buffer_pool
    \<Rightarrow> (b256 \<times> u64 \<times> resolution) list \<times> buffer_pool" where
  "update_all f p =
     (List.map_filter (\<lambda>(h, e). map_option (\<lambda>r. (be_tx_hash e, be_generation e, r)) (fst (f e))) (bp_entries p),
      p\<lparr>bp_entries := map (\<lambda>(h, e). (h, snd (f e))) (bp_entries p)\<rparr>)"

definition resolve_total_timeouts ::
    "filter_config \<Rightarrow> nat \<Rightarrow> buffer_pool \<Rightarrow> (b256 \<times> u64 \<times> resolution) list \<times> buffer_pool" where
  "resolve_total_timeouts cfg now p = update_all (resolve_total_timeout cfg now) p"

definition timeout_update :: "filter_config \<Rightarrow> nat \<Rightarrow> buffer_entry \<Rightarrow> resolution option \<times> buffer_entry" where
  "timeout_update cfg now e =
     (case resolve_total_timeout cfg now e of
        (Some r, e') \<Rightarrow> (Some r, e')
      | (None, _) \<Rightarrow>
          if is_terminal (be_status e) then (None, e)
          else
            let since = saturating_sub now (be_last_transition_at e) in
            if be_status e = Submitted \<and> since > as_secs (fc_submitted_confirmation_timeout cfg)
            then (None, set_status NotSubmitted now e)
            else if be_status e = Pending \<and> since > as_secs (fc_risk_module_unresponsive_timeout cfg)
            then (None, set_status NotSubmitted now e)
            else (None, e))"

definition check_timeouts ::
    "filter_config \<Rightarrow> nat \<Rightarrow> buffer_pool \<Rightarrow> (b256 \<times> u64 \<times> resolution) list \<times> buffer_pool" where
  "check_timeouts cfg now p = update_all (timeout_update cfg now) p"

definition prune_terminal :: "nat \<Rightarrow> nat \<Rightarrow> buffer_pool \<Rightarrow> nat \<times> buffer_pool" where
  "prune_terminal retention_secs now p =
     retain (\<lambda>e. \<not> (is_terminal (be_status e) \<and>
                    saturating_sub now (be_last_transition_at e) > retention_secs)) p"


section \<open>Lookups after updates\<close>

definition pool_wf :: "buffer_pool \<Rightarrow> bool" where
  "pool_wf p \<longleftrightarrow> distinct (map fst (bp_entries p)) \<and> (\<forall>h e. pool_get p h = Some e \<longrightarrow> be_tx_hash e = h)"

named_theorems pool_simps \<open>lookups in an updated pool\<close>

lemma pool_get_put [pool_simps]: "pool_get (put h e p) = (pool_get p)(h \<mapsto> e)"
  by (simp add: pool_get_def put_def alist_simps fun_eq_iff)

lemma next_put [pool_simps]: "bp_next_generation (put h e p) = bp_next_generation p"
  by (simp add: put_def)

lemma pool_get_next [pool_simps]: "pool_get (p\<lparr>bp_next_generation := g\<rparr>) = pool_get p"
  by (simp add: pool_get_def fun_eq_iff)

lemma update_same: "map_of xs k = Some v \<Longrightarrow> AList.update k v xs = xs"
  by (induction xs) auto

lemma put_same: "pool_get p h = Some e \<Longrightarrow> put h e p = p"
  by (simp add: pool_get_def put_def update_same)

lemma pool_get_remove [pool_simps]: "pool_get (snd (pool_remove h p)) = (pool_get p)(h := None)"
  by (simp add: pool_get_def pool_remove_def alist_simps fun_eq_iff)

lemma pool_get_insert [pool_simps]:
  "pool_get (pool_insert e p) = (if pool_get p (be_tx_hash e) \<noteq> None then pool_get p
     else (pool_get p)(be_tx_hash e \<mapsto> e\<lparr>be_generation := bp_next_generation p + 1\<rparr>))"
  by (auto simp: pool_insert_def pool_contains_def Let_def pool_simps)

lemma pool_get_retain [pool_simps]:
  "distinct (map fst (bp_entries p)) \<Longrightarrow>
     pool_get (snd (retain P p)) h = (case pool_get p h of None \<Rightarrow> None | Some e \<Rightarrow> if P e then Some e else None)"
  by (simp add: pool_get_def retain_def Let_def alist_simps split: option.splits)

lemma pool_get_update_all [pool_simps]:
  "pool_get (snd (update_all f p)) h = map_option (\<lambda>e. snd (f e)) (pool_get p h)"
  by (simp add: pool_get_def update_all_def alist_simps)

lemma remove_canonical_Cons:
  "snd (remove_canonical (k # hs) p) = snd (remove_canonical hs (snd (pool_remove k p)))"
  by (simp split: prod.splits)

lemma pool_get_canonical [pool_simps]:
  "pool_get (snd (remove_canonical hs p)) h = (if h \<in> set hs then None else pool_get p h)"
proof (induction hs arbitrary: p)
  case (Cons k hs)
  then show ?case unfolding remove_canonical_Cons by (simp add: pool_simps)
qed simp

section \<open>Steps of one entry\<close>

definition status_edge :: "timeout_action \<Rightarrow> buffer_status \<Rightarrow> buffer_status \<Rightarrow> bool" where
  "status_edge ta s s' \<longleftrightarrow>
     (s, s') \<in> {(NotSubmitted, Submitted), (Submitted, Pending), (Submitted, Approved),
                (Pending, Approved), (Submitted, NotSubmitted), (Pending, NotSubmitted)} \<or>
     s' = TimedOutAllow \<and> ta = TimeoutAllow \<and> s \<in> {NotSubmitted, Submitted, Pending} \<or>
     s' = Dropped \<and> \<not> is_terminal s"

text \<open>
  An entry of a lifecycle either stays as it is, or takes an edge of the status machine at time
  \<open>now\<close>; nothing but the status and the time of the transition changes.
\<close>

definition entry_step :: "filter_config \<Rightarrow> nat \<Rightarrow> buffer_entry \<Rightarrow> buffer_entry \<Rightarrow> bool" where
  "entry_step cfg now e e' \<longleftrightarrow> e' = e \<or>
     (\<exists>s. e' = set_status s now e \<and> status_edge (be_timeout_action e) (be_status e) s \<and>
          (s = TimedOutAllow \<longrightarrow> now - be_first_not_submitted_at e > as_secs (fc_total_retry_timeout cfg)))"

lemma entry_step_refl [simp]: "entry_step cfg now e e"
  by (simp add: entry_step_def)

lemma entry_step_set_status:
  "status_edge (be_timeout_action e) (be_status e) s \<Longrightarrow> s \<noteq> TimedOutAllow \<Longrightarrow>
     entry_step cfg now e (set_status s now e)"
  by (auto simp: entry_step_def)

lemma set_status_simps [simp]:
  "be_generation (set_status s now e) = be_generation e"
  "be_tx_hash (set_status s now e) = be_tx_hash e"
  "be_status (set_status s now e) = s"
  "be_timeout_action (set_status s now e) = be_timeout_action e"
  "be_first_not_submitted_at (set_status s now e) = be_first_not_submitted_at e"
  "be_last_transition_at (set_status s now e) = now"
  by (simp_all add: set_status_def)

lemma entry_step_frame:
  assumes "entry_step cfg now e e'"
  shows "be_generation e' = be_generation e" "be_tx_hash e' = be_tx_hash e"
    "be_timeout_action e' = be_timeout_action e"
    "be_first_not_submitted_at e' = be_first_not_submitted_at e"
  using assms by (auto simp: entry_step_def)

lemma entry_step_resolve: "entry_step cfg now e (snd (resolve_total_timeout cfg now e))"
  by (auto simp: resolve_total_timeout_def entry_step_def status_edge_def is_terminal_def split: timeout_action.splits)

lemma resolve_None: "resolve_total_timeout cfg now e = (None, e') \<Longrightarrow> e' = e"
  by (auto simp: resolve_total_timeout_def split: if_splits timeout_action.splits)

lemma entry_step_query:
  assumes "\<not> is_terminal (be_status e)"
  shows "entry_step cfg now e (snd (query_update st cfg now e))"
proof (cases "resolve_total_timeout cfg now e")
  case (Pair r e')
  show ?thesis
  proof (cases r)
    case (Some x)
    with entry_step_resolve [of cfg now e] Pair show ?thesis by (simp add: query_update_def)
  next
    case None
    with Pair assms show ?thesis
      by (cases "be_status e")
        (simp_all add: query_update_def status_edge_def is_terminal_def entry_step_set_status)
  qed
qed

lemma entry_step_timeout: "entry_step cfg now e (snd (timeout_update cfg now e))"
proof (cases "resolve_total_timeout cfg now e")
  case (Pair r e')
  show ?thesis
  proof (cases r)
    case (Some x)
    with entry_step_resolve [of cfg now e] Pair show ?thesis by (simp add: timeout_update_def)
  next
    case None
    with Pair show ?thesis
      by (auto simp: timeout_update_def Let_def status_edge_def intro!: entry_step_set_status)
  qed
qed

section \<open>Steps of the pool\<close>

inductive pool_step :: "ext \<Rightarrow> filter_config \<Rightarrow> buffer_pool \<Rightarrow> buffer_pool \<Rightarrow> bool" for E cfg where
  step_insert: "be_status e = NotSubmitted \<Longrightarrow> pool_step E cfg p (pool_insert e p)"
| step_remove: "pool_step E cfg p (snd (pool_remove h p))"
| step_consistency: "pool_step E cfg p (snd (finish_consistency_check h g c now p))"
| step_canonical: "pool_step E cfg p (snd (remove_canonical hs p))"
| step_lag: "pool_step E cfg p (snd (recover_after_canonical_lag p))"
| step_absent: "pool_step E cfg p (snd (remove_non_terminal_if_generation h g p))"
| step_submit: "distinct (map fst expected) \<Longrightarrow>
    pool_step E cfg p (snd (apply_submit_response E acc expected cfg now p))"
| step_query: "pool_step E cfg p (snd (apply_query_status h g st cfg now p))"
| step_total_timeouts: "pool_step E cfg p (snd (resolve_total_timeouts cfg now p))"
| step_timeouts: "pool_step E cfg p (snd (check_timeouts cfg now p))"
| step_prune: "pool_step E cfg p (snd (prune_terminal retention now p))"

inductive_cases pool_stepE: "pool_step E cfg p p'"

lemma pool_get_consistency [pool_simps]:
  "pool_get (snd (finish_consistency_check h g c now p)) k = (case pool_get p k of
     None \<Rightarrow> None
   | Some e \<Rightarrow> Some (if k = h \<and> be_generation e = g \<and> be_status e = Approved \<and> \<not> c
                    then set_status Dropped now e else e))"
  by (auto simp: finish_consistency_check_def pool_simps split: option.splits)

lemma pool_get_query [pool_simps]:
  "pool_get (snd (apply_query_status h g st cfg now p)) k = (case pool_get p k of
     None \<Rightarrow> None
   | Some e \<Rightarrow> Some (if k = h \<and> be_generation e = g \<and> \<not> is_terminal (be_status e)
                    then snd (query_update st cfg now e) else e))"
  by (auto simp: apply_query_status_def pool_simps split: option.splits prod.splits)

definition submit_update :: "filter_config \<Rightarrow> nat \<Rightarrow> bool \<Rightarrow> buffer_entry \<Rightarrow> buffer_entry" where
  "submit_update cfg now acc e = (case resolve_total_timeout cfg now e of
       (Some r, e') \<Rightarrow> e'
     | (None, e') \<Rightarrow> if acc \<and> be_status e = NotSubmitted then set_status Submitted now e else e)"

lemma submit_loop_step:
  "snd (submit_loop cfg now acc ((h, g) # hs) p) = snd (submit_loop cfg now acc hs
     (case pool_get p h of
        Some e \<Rightarrow> if be_generation e = g then put h (submit_update cfg now (h \<in> acc) e) p else p
      | None \<Rightarrow> p))"
  by (auto simp: submit_update_def put_same split: option.splits prod.splits)

lemma pool_get_submit_loop [pool_simps]:
  "distinct (map fst hs) \<Longrightarrow> pool_get (snd (submit_loop cfg now acc hs p)) k = (case pool_get p k of
     None \<Rightarrow> None
   | Some e \<Rightarrow> Some (if map_of hs k = Some (be_generation e) then submit_update cfg now (k \<in> acc) e else e))"
proof (induction hs arbitrary: p)
  case (Cons hg hs)
  obtain h g where hg: "hg = (h, g)" by force
  have "map_of hs h = None" using Cons.prems hg by (auto simp: map_of_eq_None_iff)
  with Cons.IH Cons.prems show ?case
    by (auto simp: hg submit_loop_step pool_simps simp del: submit_loop.simps(2) split: option.splits)
qed (simp split: option.splits)

lemma entry_step_submit: "entry_step cfg now e (submit_update cfg now acc e)"
  using entry_step_resolve [of cfg now e]
  by (auto simp: submit_update_def status_edge_def intro!: entry_step_set_status split: prod.splits option.splits)

lemma bp_next_simps [simp]:
  "bp_next_generation (snd (pool_remove h p)) = bp_next_generation p"
  "bp_next_generation (snd (retain P p)) = bp_next_generation p"
  "bp_next_generation (snd (update_all f p)) = bp_next_generation p"
  by (simp_all add: pool_remove_def retain_def Let_def update_all_def)

lemma bp_next_canonical [simp]: "bp_next_generation (snd (remove_canonical hs p)) = bp_next_generation p"
proof (induction hs arbitrary: p)
  case (Cons k hs)
  then show ?case unfolding remove_canonical_Cons by simp
qed simp

lemma bp_next_submit [simp]:
  "bp_next_generation (snd (submit_loop cfg now acc hs p)) = bp_next_generation p"
  by (induction hs arbitrary: p) (auto simp: submit_loop_step pool_simps simp del: submit_loop.simps(2)
      split: option.splits)

lemma bp_next_query [simp]:
  "bp_next_generation (snd (apply_query_status h g st cfg now p)) = bp_next_generation p"
  by (simp add: apply_query_status_def pool_simps split: option.splits prod.splits)

text \<open>What a step does to the entry of a transaction: at most one status edge, or a fresh lifecycle.\<close>

lemma pool_step_entry:
  assumes "pool_step E cfg p p'" "distinct (map fst (bp_entries p))" "pool_get p' h = Some e'"
  shows "(\<exists>e now. pool_get p h = Some e \<and> entry_step cfg now e e') \<or>
    (pool_get p h = None \<and> be_tx_hash e' = h \<and> be_status e' = NotSubmitted \<and>
     be_generation e' = bp_next_generation p + 1 \<and> bp_next_generation p' = bp_next_generation p + 1)"
  using assms
proof (cases rule: pool_step.cases)
  case (step_insert e)
  then show ?thesis using assms(3)
    by (auto simp: pool_simps split: if_splits)
      (auto simp: pool_insert_def pool_contains_def Let_def pool_simps)
next
  case (step_consistency k g c now)
  then show ?thesis using assms(3)
    by (auto simp: pool_simps status_edge_def is_terminal_def split: option.splits if_splits
        intro!: exI [of _ now] entry_step_set_status)
next
  case (step_query k g st now)
  then show ?thesis using assms(3) entry_step_query
    by (fastforce simp: pool_simps split: option.splits if_splits)
next
  case (step_submit expected acc now)
  then show ?thesis using assms(3) entry_step_submit
    by (fastforce simp: apply_submit_response_def pool_simps split: option.splits if_splits)
next
  case (step_total_timeouts now)
  then show ?thesis using assms(3) entry_step_resolve
    by (fastforce simp: resolve_total_timeouts_def pool_simps)
next
  case (step_timeouts now)
  then show ?thesis using assms(3) entry_step_timeout
    by (fastforce simp: check_timeouts_def pool_simps)
next
  case (step_absent k g)
  then show ?thesis using assms(3)
    by (auto simp: remove_non_terminal_if_generation_def pool_simps Let_def split: if_splits)
qed (auto simp: pool_simps recover_after_canonical_lag_def prune_terminal_def
    split: option.splits if_splits)

lemma distinct_put: "distinct (map fst (bp_entries p)) \<Longrightarrow> distinct (map fst (bp_entries (put h e p)))"
  by (simp add: put_def distinct_update)

lemma distinct_remove:
  "distinct (map fst (bp_entries p)) \<Longrightarrow> distinct (map fst (bp_entries (snd (pool_remove h p))))"
  by (simp add: pool_remove_def distinct_delete)

lemma distinct_canonical:
  "distinct (map fst (bp_entries p)) \<Longrightarrow> distinct (map fst (bp_entries (snd (remove_canonical hs p))))"
proof (induction hs arbitrary: p)
  case (Cons k hs)
  from Cons.IH [OF distinct_remove [OF Cons.prems]] show ?case unfolding remove_canonical_Cons .
qed simp

lemma distinct_submit:
  "distinct (map fst (bp_entries p)) \<Longrightarrow> distinct (map fst (bp_entries (snd (submit_loop cfg now acc hs p))))"
proof (induction hs arbitrary: p)
  case (Cons hg hs)
  then show ?case
    by (cases hg) (auto simp: submit_loop_step distinct_put simp del: submit_loop.simps(2)
        split: option.splits)
qed simp

lemma distinct_retain:
  "distinct (map fst (bp_entries p)) \<Longrightarrow> distinct (map fst (bp_entries (snd (retain P p))))"
  by (simp add: retain_def Let_def distinct_map_filter)

lemma distinct_update_all:
  "distinct (map fst (bp_entries p)) \<Longrightarrow> distinct (map fst (bp_entries (snd (update_all f p))))"
  by (simp add: update_all_def o_def case_prod_unfold)

lemma pool_step_distinct:
  assumes "pool_step E cfg p p'" "distinct (map fst (bp_entries p))"
  shows "distinct (map fst (bp_entries p'))"
  using assms
  by (cases rule: pool_step.cases)
    (auto simp: pool_insert_def Let_def finish_consistency_check_def apply_query_status_def
      remove_non_terminal_if_generation_def recover_after_canonical_lag_def prune_terminal_def
      resolve_total_timeouts_def check_timeouts_def apply_submit_response_def
      intro: distinct_put distinct_remove distinct_canonical distinct_submit distinct_retain distinct_update_all
      split: option.splits prod.splits)

lemma pool_step_wf: "pool_step E cfg p p' \<Longrightarrow> pool_wf p \<Longrightarrow> pool_wf p'"
proof -
  assume step: "pool_step E cfg p p'" and wf: "pool_wf p"
  have "be_tx_hash e' = h" if "pool_get p' h = Some e'" for h e'
    using pool_step_entry [OF step _ that] wf entry_step_frame(2) by (auto simp: pool_wf_def)
  with pool_step_distinct [OF step] wf show "pool_wf p'" by (simp add: pool_wf_def)
qed

lemma pool_wf_default: "pool_wf pool_default"
  by (simp add: pool_wf_def pool_default_def pool_get_def)

section \<open>Generations fence lifecycles\<close>

text \<open>
  The interface the builder and the workers rely on: entries keep their generation while they
  stay, and a new entry gets a generation above every earlier one, as long as the counter does
  not wrap.
\<close>

locale lifecycle_pool =
  fixes look :: "'p \<Rightarrow> 'h \<Rightarrow> 'e option" and gen :: "'e \<Rightarrow> u64" and counter :: "'p \<Rightarrow> u64"
    and step :: "'p \<Rightarrow> 'p \<Rightarrow> bool" and wf :: "'p \<Rightarrow> bool"
    and entry_rel :: "'e \<Rightarrow> 'e \<Rightarrow> bool" and final :: "'e \<Rightarrow> bool"
  assumes step_wf: "wf p \<Longrightarrow> step p p' \<Longrightarrow> wf p'"
    and step_counter: "step p p' \<Longrightarrow> counter p \<le> counter p'"
    and step_entry: "wf p \<Longrightarrow> step p p' \<Longrightarrow> look p' h = Some e' \<Longrightarrow>
      (\<exists>e. look p h = Some e \<and> entry_rel e e') \<or>
      (look p h = None \<and> counter p < gen e' \<and> gen e' \<le> counter p')"
    and rel_gen: "entry_rel e e' \<Longrightarrow> gen e' = gen e"
    and rel_final: "entry_rel e e' \<Longrightarrow> final e \<Longrightarrow> e' = e"
begin

definition covered :: "'p \<Rightarrow> bool" where
  "covered p \<longleftrightarrow> (\<forall>h e. look p h = Some e \<longrightarrow> gen e \<le> counter p)"

definition absent :: "'p \<Rightarrow> 'h \<Rightarrow> u64 \<Rightarrow> bool" where
  "absent p h g \<longleftrightarrow> (\<forall>e. look p h = Some e \<longrightarrow> gen e \<noteq> g)"

lemma step_covered: "wf p \<Longrightarrow> covered p \<Longrightarrow> step p p' \<Longrightarrow> covered p'"
  unfolding covered_def by (metis order_trans rel_gen step_counter step_entry)

lemma step_absent: "wf p \<Longrightarrow> step p p' \<Longrightarrow> g \<le> counter p \<Longrightarrow> absent p h g \<Longrightarrow> absent p' h g"
  unfolding absent_def by (metis leD rel_gen step_entry)

lemma steps_frame:
  assumes "step\<^sup>*\<^sup>* p p'" "wf p" "covered p"
  shows "wf p' \<and> covered p' \<and> counter p \<le> counter p'"
  using assms by (induction rule: rtranclp_induct) (auto intro: step_wf step_covered dest: step_counter)

lemma absent_forever:
  assumes "step\<^sup>*\<^sup>* p p'" "wf p" "covered p" "g \<le> counter p" "absent p h g"
  shows "absent p' h g"
  using assms
proof (induction rule: rtranclp_induct)
  case (step q r)
  from steps_frame [OF step.hyps(1) step.prems(1,2)] step.prems(3) have "wf q" "g \<le> counter q" by auto
  with step show ?case using step_absent by blast
qed

text \<open>A final entry is the same entry for as long as its lifecycle is in the pool.\<close>

lemma final_forever:
  assumes "step\<^sup>*\<^sup>* p p'" "wf p" "covered p" "look p h = Some e" "final e"
  shows "look p' h = Some e \<or> absent p' h (gen e)"
  using assms
proof (induction rule: rtranclp_induct)
  case (step q r)
  from steps_frame [OF step.hyps(1) step.prems(1,2)] have q: "wf q" "covered q" "counter p \<le> counter q" by auto
  have g: "gen e \<le> counter q" using step.prems(2,3) q(3) unfolding covered_def by (meson order_trans)
  from step have "look q h = Some e \<or> absent q h (gen e)" by blast
  then show ?case
  proof
    assume "look q h = Some e"
    then show ?thesis
      using step_entry [OF q(1) step.hyps(2), of h] rel_final [OF _ step.prems(4)]
      unfolding absent_def by (metis option.sel option.simps(3))
  next
    assume "absent q h (gen e)"
    with step_absent [OF q(1) step.hyps(2) g] show ?thesis by blast
  qed
qed simp

end

text \<open>A step during which the 64-bit generation counter does not wrap around.\<close>

definition pool_step_nowrap :: "ext \<Rightarrow> filter_config \<Rightarrow> buffer_pool \<Rightarrow> buffer_pool \<Rightarrow> bool" where
  "pool_step_nowrap E cfg p p' \<longleftrightarrow> pool_step E cfg p p' \<and> bp_next_generation p \<le> bp_next_generation p'"

lemma next_generation_less: "(g :: u64) \<le> g + 1 \<Longrightarrow> g < g + 1"
  by (metis add_cancel_left_right order_le_less zero_neq_one)

lemma entry_step_terminal: "entry_step cfg now e e' \<Longrightarrow> is_terminal (be_status e) \<Longrightarrow> e' = e"
  by (auto simp: entry_step_def status_edge_def is_terminal_def)

interpretation pool: lifecycle_pool pool_get be_generation bp_next_generation "pool_step_nowrap E cfg"
  pool_wf "\<lambda>e e'. \<exists>now. entry_step cfg now e e'" "\<lambda>e. is_terminal (be_status e)" for E cfg
proof
  fix p p' h e'
  assume "pool_wf p" "pool_step_nowrap E cfg p p'" "pool_get p' h = Some e'"
  then show "(\<exists>e. pool_get p h = Some e \<and> (\<exists>now. entry_step cfg now e e')) \<or>
      (pool_get p h = None \<and> bp_next_generation p < be_generation e' \<and> be_generation e' \<le> bp_next_generation p')"
    using pool_step_entry [of E cfg p p' h e'] next_generation_less [of "bp_next_generation p"]
    by (auto simp: pool_step_nowrap_def pool_wf_def)
qed (auto simp: pool_step_nowrap_def entry_step_frame dest: entry_step_terminal pool_step_wf)

lemma pool_covered_default: "pool.covered pool_default"
  by (simp add: pool.covered_def pool_default_def pool_get_def)

section \<open>Properties\<close>

definition pool_reachable :: "ext \<Rightarrow> filter_config \<Rightarrow> buffer_pool \<Rightarrow> bool" where
  "pool_reachable E cfg p \<longleftrightarrow> (pool_step E cfg)\<^sup>*\<^sup>* pool_default p"

definition pool_reachable_nowrap :: "ext \<Rightarrow> filter_config \<Rightarrow> buffer_pool \<Rightarrow> bool" where
  "pool_reachable_nowrap E cfg p \<longleftrightarrow> (pool_step_nowrap E cfg)\<^sup>*\<^sup>* pool_default p"

definition entry_ok :: "filter_config \<Rightarrow> buffer_entry \<Rightarrow> bool" where
  "entry_ok cfg e \<longleftrightarrow> be_status e = TimedOutAllow \<longrightarrow>
     be_timeout_action e = TimeoutAllow \<and>
     be_last_transition_at e > be_first_not_submitted_at e + as_secs (fc_total_retry_timeout cfg)"

lemma entry_step_ok: "entry_step cfg now e e' \<Longrightarrow> entry_ok cfg e \<Longrightarrow> entry_ok cfg e'"
  by (auto simp: entry_step_def entry_ok_def status_edge_def)

interpretation entries: step_invariant "pool_step E cfg" "\<lambda>p. pool_wf p \<and> (\<forall>h e. pool_get p h = Some e \<longrightarrow> entry_ok cfg e)" for E cfg
proof
  fix q r
  assume s: "pool_step E cfg q r" "pool_wf q \<and> (\<forall>h e. pool_get q h = Some e \<longrightarrow> entry_ok cfg e)"
  have "entry_ok cfg e'" if "pool_get r h = Some e'" for h e'
    using pool_step_entry [OF s(1) _ that] s(2) entry_step_ok by (auto simp: pool_wf_def entry_ok_def)
  with pool_step_wf [OF s(1)] s(2) show "pool_wf r \<and> (\<forall>h e. pool_get r h = Some e \<longrightarrow> entry_ok cfg e)" by blast
qed

lemma pool_reachable_ok:
  assumes "pool_reachable E cfg p"
  shows "pool_wf p \<and> (\<forall>h e. pool_get p h = Some e \<longrightarrow> entry_ok cfg e)"
  using assms unfolding pool_reachable_def
  by (rule entries.inv_steps) (simp add: pool_wf_default; simp add: pool_default_def pool_get_def)

text \<open>
  C12. Fail-close transactions are never released by a timeout: in every pool that any sequence of
  pool operations can produce from the empty one, an entry in \<open>TimedOutAllow\<close> has timeout action
  allow and was resolved only after its full retry window; every entry is stored under its own hash.
\<close>

theorem timeout_release_only_fail_open:
  assumes "pool_reachable E cfg p" and "pool_get p h = Some e"
  shows "be_tx_hash e = h \<and>
    (be_status e = TimedOutAllow \<longrightarrow> be_timeout_action e = TimeoutAllow \<and>
       be_last_transition_at e > be_first_not_submitted_at e + as_secs (fc_total_retry_timeout cfg))"
  using pool_reachable_ok [OF assms(1)] assms(2) by (auto simp: pool_wf_def entry_ok_def)

definition sample_entry :: "timeout_action \<Rightarrow> buffer_entry" where
  "sample_entry ta = \<lparr>be_generation = 0, be_tx_hash = 7, be_origin = 2, be_contract_address = 0xAA,
     be_nonce = 3, be_block_height = 100, be_status = NotSubmitted, be_actions = [],
     be_rule_snapshot = sample_audit_rules, be_quota_consistency_hash = 0, be_timeout_action = ta,
     be_first_not_submitted_at = 1000, be_last_transition_at = 1000\<rparr>"

definition sample_timed_out :: buffer_pool where
  "sample_timed_out = snd (check_timeouts default_config 1091 (pool_insert (sample_entry TimeoutAllow) pool_default))"

lemmas sample_pool_defs = sample_timed_out_def sample_entry_def pool_default_def pool_insert_def
  pool_contains_def pool_get_def put_def Let_def check_timeouts_def update_all_def timeout_update_def
  resolve_total_timeout_def set_status_def default_config_def from_secs_def as_secs_def

lemma sample_timed_out_get:
  "pool_get sample_timed_out 7 = Some ((sample_entry TimeoutAllow)
     \<lparr>be_generation := 1, be_status := TimedOutAllow, be_last_transition_at := 1091\<rparr>)"
  by (simp add: sample_pool_defs)

lemma sample_timed_out_steps:
  "pool_reachable_nowrap sample_ext default_config sample_timed_out"
  unfolding pool_reachable_nowrap_def
proof (rule rtranclp.rtrancl_into_rtrancl [OF r_into_rtranclp])
  show "pool_step_nowrap sample_ext default_config pool_default (pool_insert (sample_entry TimeoutAllow) pool_default)"
    by (auto simp: pool_step_nowrap_def sample_entry_def intro: pool_step.step_insert)
      (simp add: pool_default_def)
  show "pool_step_nowrap sample_ext default_config (pool_insert (sample_entry TimeoutAllow) pool_default) sample_timed_out"
    unfolding pool_step_nowrap_def sample_timed_out_def
    using pool_step.step_timeouts by (simp add: check_timeouts_def)
qed

lemma nowrap_reachable: "pool_reachable_nowrap E cfg p \<Longrightarrow> pool_reachable E cfg p"
  unfolding pool_reachable_def pool_reachable_nowrap_def
  by (erule rtranclp_mono [THEN predicate2D, rotated]) (auto simp: pool_step_nowrap_def)

theorem timeout_release_only_fail_open_witness:
  "\<exists>e. pool_reachable sample_ext default_config sample_timed_out \<and> pool_get sample_timed_out 7 = Some e \<and>
     be_status e = TimedOutAllow \<and> be_timeout_action e = TimeoutAllow"
proof -
  have r: "pool_reachable sample_ext default_config sample_timed_out"
    by (rule nowrap_reachable [OF sample_timed_out_steps])
  from timeout_release_only_fail_open [OF r sample_timed_out_get] r sample_timed_out_get show ?thesis
    by auto
qed

text \<open>
  C37. Every step of the pool moves every entry along at most one edge of the status machine
  (\<open>status_edge\<close>), changing nothing else of it but the time of its last transition; an entry that
  was not there before is a fresh lifecycle in \<open>NotSubmitted\<close> with the next generation.
\<close>

theorem pool_step_follows_status_machine:
  assumes "pool_wf p" "pool_step E cfg p p'"
  shows "pool_wf p' \<and> (\<forall>h e'. pool_get p' h = Some e' \<longrightarrow>
    (\<exists>e now. pool_get p h = Some e \<and> entry_step cfg now e e') \<or>
    (pool_get p h = None \<and> be_status e' = NotSubmitted \<and> be_generation e' = bp_next_generation p + 1))"
  using pool_step_entry [OF assms(2)] pool_step_wf [OF assms(2,1)] assms(1) by (auto simp: pool_wf_def)

theorem pool_step_follows_status_machine_witness:
  "pool_wf pool_default \<and>
   pool_step sample_ext default_config pool_default (pool_insert (sample_entry TimeoutDeny) pool_default) \<and>
   pool_wf (pool_insert (sample_entry TimeoutDeny) pool_default)"
proof -
  have "pool_step sample_ext default_config pool_default (pool_insert (sample_entry TimeoutDeny) pool_default)"
    by (rule pool_step.step_insert) (simp add: sample_entry_def)
  with pool_step_follows_status_machine [OF pool_wf_default this] pool_wf_default show ?thesis by blast
qed

lemma reachable_nowrap_frame:
  assumes "pool_reachable_nowrap E cfg p"
  shows "pool_wf p" "pool.covered p"
  using pool.steps_frame [OF assms [unfolded pool_reachable_nowrap_def] pool_wf_default pool_covered_default]
  by auto

text \<open>
  A terminal decision is final for its lifecycle: as long as the generation counter does not
  wrap, whatever operations follow, an entry of the same generation is still the identical
  tombstone.
\<close>

lemma terminal_is_final:
  assumes "pool_reachable_nowrap E cfg p" "(pool_step_nowrap E cfg)\<^sup>*\<^sup>* p p'"
    and "pool_get p h = Some e" "is_terminal (be_status e)"
    and "pool_get p' h = Some e'" "be_generation e' = be_generation e"
  shows "e' = e"
  using pool.final_forever [OF assms(2) reachable_nowrap_frame [OF assms(1)] assms(3,4)] assms(5,6)
  by (auto simp: pool.absent_def)

lemma terminal_is_final_witness:
  "\<exists>e e'. pool_get sample_timed_out 7 = Some e \<and> is_terminal (be_status e) \<and>
    pool_get (snd (apply_query_status 7 1 ''denied'' default_config 1092 sample_timed_out)) 7 = Some e' \<and>
    e' = e"
proof -
  let ?p' = "snd (apply_query_status 7 1 ''denied'' default_config 1092 sample_timed_out)"
  have step: "(pool_step_nowrap sample_ext default_config)\<^sup>*\<^sup>* sample_timed_out ?p'"
    using pool_step.step_query by (intro r_into_rtranclp) (simp add: pool_step_nowrap_def)
  have get: "pool_get ?p' 7 = pool_get sample_timed_out 7"
    by (simp add: pool_simps sample_timed_out_get is_terminal_def)
  have "is_terminal (be_status (the (pool_get sample_timed_out 7)))"
    by (simp add: sample_timed_out_get is_terminal_def)
  with terminal_is_final [OF sample_timed_out_steps step sample_timed_out_get _ get [unfolded sample_timed_out_get]]
  show ?thesis using get sample_timed_out_get by auto
qed

lemma absent_noop:
  assumes "pool.absent p h g"
  shows "\<not> pool_matches p h g s" "snd (apply_query_status h g st cfg now p) = p"
    "snd (finish_consistency_check h g c now p) = p" "\<not> fst (remove_non_terminal_if_generation h g p)"
  using assms
  by (auto simp: pool.absent_def pool_matches_def apply_query_status_def finish_consistency_check_def
      remove_non_terminal_if_generation_def Let_def split: option.splits)

text \<open>
  C11. Generations fence stale results: once a lifecycle \<open>(h, g)\<close> has left the pool (by canonical
  inclusion, reconciliation or pruning), then after any further operations, including re-insertion
  of the same transaction, the token matches no entry, and a query result, a consistency result or
  a removal addressed to it changes nothing.
\<close>

theorem stale_generation_is_fenced:
  assumes "pool_reachable_nowrap E cfg p" "(pool_step_nowrap E cfg)\<^sup>*\<^sup>* p p'"
    and "g \<le> bp_next_generation p" "\<forall>e. pool_get p h = Some e \<longrightarrow> be_generation e \<noteq> g"
  shows "\<not> pool_matches p' h g s \<and> snd (apply_query_status h g st cfg now p') = p' \<and>
    snd (finish_consistency_check h g c now p') = p' \<and> \<not> fst (remove_non_terminal_if_generation h g p')"
proof -
  have "pool.absent p' h g"
    using pool.absent_forever [OF assms(2) reachable_nowrap_frame [OF assms(1)] assms(3)] assms(4)
    by (simp add: pool.absent_def)
  from absent_noop [OF this] show ?thesis by blast
qed

theorem stale_generation_is_fenced_witness:
  "let p = snd (pool_remove 7 sample_timed_out); p' = pool_insert (sample_entry TimeoutDeny) p in
   pool_contains p' 7 \<and> \<not> pool_matches p' 7 1 NotSubmitted \<and>
   snd (apply_query_status 7 1 ''denied'' default_config 1092 p') = p'"
proof -
  let ?p = "snd (pool_remove 7 sample_timed_out)" and ?p' = "pool_insert (sample_entry TimeoutDeny) (snd (pool_remove 7 sample_timed_out))"
  have nxt: "bp_next_generation sample_timed_out = 1" by (simp add: sample_pool_defs)
  have r: "pool_reachable_nowrap sample_ext default_config ?p"
    using sample_timed_out_steps unfolding pool_reachable_nowrap_def
    by (rule rtranclp.rtrancl_into_rtrancl) (auto simp: pool_step_nowrap_def intro: pool_step.step_remove)
  have "pool_step sample_ext default_config ?p ?p'"
    by (rule pool_step.step_insert) (simp add: sample_entry_def)
  then have s: "(pool_step_nowrap sample_ext default_config)\<^sup>*\<^sup>* ?p ?p'"
    by (intro r_into_rtranclp) (simp add: pool_step_nowrap_def pool_insert_def Let_def pool_simps nxt)
  have "pool_get ?p 7 = None" by (simp add: pool_simps)
  with stale_generation_is_fenced [OF r s, of 1 7 NotSubmitted "''denied''" 1092 True] nxt
  show ?thesis by (simp add: Let_def pool_contains_def pool_simps sample_entry_def)
qed

lemma timeout_update_fst:
  "fst (timeout_update cfg now e) = fst (resolve_total_timeout cfg now e)"
  by (auto simp: timeout_update_def Let_def split: prod.splits option.splits)

lemma resolve_total_timeout_Some:
  "fst (resolve_total_timeout cfg now e) = Some r \<longleftrightarrow>
     be_status e \<in> {NotSubmitted, Submitted, Pending} \<and>
     now - be_first_not_submitted_at e > as_secs (fc_total_retry_timeout cfg) \<and>
     r = (case be_timeout_action e of TimeoutAllow \<Rightarrow> ReleaseForPackaging | TimeoutDeny \<Rightarrow> Discard)"
  by (auto simp: resolve_total_timeout_def split: timeout_action.splits)

lemma timeout_update_deadline:
  "be_status (snd (timeout_update cfg now e)) \<in> {NotSubmitted, Submitted, Pending} \<Longrightarrow>
     now - be_first_not_submitted_at e \<le> as_secs (fc_total_retry_timeout cfg)"
  by (auto simp: timeout_update_def resolve_total_timeout_def Let_def
      split: if_splits timeout_action.splits)

lemma timeout_update_stalls:
  assumes "e' = snd (timeout_update cfg now e)"
  shows "be_status e' = Submitted \<Longrightarrow> now - be_last_transition_at e' \<le> as_secs (fc_submitted_confirmation_timeout cfg)"
    and "be_status e' = Pending \<Longrightarrow> now - be_last_transition_at e' \<le> as_secs (fc_risk_module_unresponsive_timeout cfg)"
  unfolding assms
  by (auto simp: timeout_update_def resolve_total_timeout_def Let_def is_terminal_def
      split: if_splits timeout_action.splits)

lemma update_all_reports:
  assumes "pool_wf p"
  shows "(h, g, r) \<in> set (fst (update_all f p)) \<longleftrightarrow>
    (\<exists>e. pool_get p h = Some e \<and> be_generation e = g \<and> fst (f e) = Some r)"
proof -
  have d: "distinct (map fst (bp_entries p))" using assms by (simp add: pool_wf_def)
  have k: "be_tx_hash e = k" if "(k, e) \<in> set (bp_entries p)" for k e
    using assms that map_of_in_set [OF d] by (auto simp: pool_wf_def pool_get_def)
  show ?thesis
    unfolding update_all_def pool_get_def map_of_in_set [OF d]
    by (auto simp: List.map_filter_def k) (force simp: k)+
qed

text \<open>
  The timeout tick leaves nothing overdue and reports exactly what it resolved: afterwards no
  entry still waits (not submitted, submitted or pending) beyond the cumulative retry window, no
  submitted or pending entry is older than its stall timeout, and the reported triples are
  precisely the waiting entries past the window with the resolution of their timeout action.
\<close>

lemma check_timeouts_complete:
  assumes "pool_wf p" and "check_timeouts cfg now p = (reported, p')"
  shows "(\<forall>h e. pool_get p' h = Some e \<longrightarrow>
      (be_status e \<in> {NotSubmitted, Submitted, Pending} \<longrightarrow>
         now - be_first_not_submitted_at e \<le> as_secs (fc_total_retry_timeout cfg)) \<and>
      (be_status e = Submitted \<longrightarrow>
         now - be_last_transition_at e \<le> as_secs (fc_submitted_confirmation_timeout cfg)) \<and>
      (be_status e = Pending \<longrightarrow>
         now - be_last_transition_at e \<le> as_secs (fc_risk_module_unresponsive_timeout cfg))) \<and>
    (\<forall>h g r. (h, g, r) \<in> set reported \<longleftrightarrow>
      (\<exists>e. pool_get p h = Some e \<and> be_generation e = g \<and>
           be_status e \<in> {NotSubmitted, Submitted, Pending} \<and>
           now - be_first_not_submitted_at e > as_secs (fc_total_retry_timeout cfg) \<and>
           r = (case be_timeout_action e of TimeoutAllow \<Rightarrow> ReleaseForPackaging | TimeoutDeny \<Rightarrow> Discard)))"
proof -
  have p': "p' = snd (update_all (timeout_update cfg now) p)"
    and rep: "reported = fst (update_all (timeout_update cfg now) p)"
    using assms(2) by (simp_all add: check_timeouts_def)
  have first: "be_first_not_submitted_at (snd (timeout_update cfg now e)) = be_first_not_submitted_at e" for e
    using entry_step_frame(4) [OF entry_step_timeout] .
  show ?thesis
    unfolding rep update_all_reports [OF assms(1)] timeout_update_fst resolve_total_timeout_Some
    using timeout_update_deadline timeout_update_stalls
    by (auto simp: p' pool_simps first; blast)
qed

lemma check_timeouts_complete_witness:
  "let p = pool_insert (sample_entry TimeoutDeny) pool_default in
   pool_wf p \<and> fst (check_timeouts default_config 1091 p) = [(7, 1, Discard)] \<and>
   (7, 1, Discard) \<in> set (fst (check_timeouts default_config 1091 p))"
proof -
  let ?p = "pool_insert (sample_entry TimeoutDeny) pool_default"
  have "pool_step sample_ext default_config pool_default ?p"
    by (rule pool_step.step_insert) (simp add: sample_entry_def)
  then have wf: "pool_wf ?p" using pool_wf_default by (rule pool_step_wf)
  have "pool_get ?p 7 = Some ((sample_entry TimeoutDeny)\<lparr>be_generation := 1\<rparr>)"
    by (simp add: sample_pool_defs)
  with check_timeouts_complete [OF wf, of default_config 1091 "fst (check_timeouts default_config 1091 ?p)"
      "snd (check_timeouts default_config 1091 ?p)"]
  have "(7, 1, Discard) \<in> set (fst (check_timeouts default_config 1091 ?p))"
    by (simp add: sample_entry_def default_config_def from_secs_def as_secs_def)
  moreover have "fst (check_timeouts default_config 1091 ?p) = [(7, 1, Discard)]"
    by (simp add: sample_pool_defs List.map_filter_def)
  ultimately show ?thesis using wf by (simp add: Let_def)
qed

text \<open>
  Pruning evicts exactly the tombstones past their retention, keeps every other entry
  unchanged, and returns how many it evicted.
\<close>

lemma prune_terminal_exact:
  assumes "pool_wf p" and "prune_terminal retention now p = (n, p')"
  shows "pool_len p' + n = pool_len p \<and> (\<forall>h e. pool_get p' h = Some e \<longleftrightarrow>
    pool_get p h = Some e \<and> (is_terminal (be_status e) \<longrightarrow> now - be_last_transition_at e \<le> retention))"
proof -
  have n: "n = pool_len p - pool_len p'"
    and p': "p' = snd (retain (\<lambda>e. \<not> (is_terminal (be_status e) \<and> now - be_last_transition_at e > retention)) p)"
    using assms(2) by (auto simp: prune_terminal_def retain_def Let_def)
  have "pool_len p' \<le> pool_len p" by (simp add: p' retain_def Let_def pool_len_def)
  then show ?thesis
    using assms(1) by (auto simp: n p' pool_wf_def pool_simps split: option.splits)
qed

lemma prune_terminal_exact_witness:
  "pool_wf sample_timed_out \<and> pool_len (snd (prune_terminal 300 1392 sample_timed_out)) + 1 = pool_len sample_timed_out"
proof -
  have wf: "pool_wf sample_timed_out" using reachable_nowrap_frame(1) [OF sample_timed_out_steps] .
  have "fst (prune_terminal 300 1392 sample_timed_out) = 1"
    by (simp add: sample_pool_defs prune_terminal_def retain_def pool_len_def is_terminal_def)
  with prune_terminal_exact [OF wf, of 300 1392 1 "snd (prune_terminal 300 1392 sample_timed_out)"] wf
  show ?thesis by (simp add: prod_eq_iff)
qed

lemma status_counts_fold:
  "length cs = 6 \<Longrightarrow>
     fold (\<lambda>(h, e) cs. let i = status_index (be_status e) in cs[i := cs ! i + 1]) es cs =
     map (\<lambda>i. cs ! i + length (filter (\<lambda>(h, e). status_index (be_status e) = i) es)) [0..<6]"
proof (induction es arbitrary: cs)
  case Nil
  then show ?case using map_nth [of cs] by simp
next
  case (Cons he es)
  obtain h e where he: "he = (h, e)" by force
  have lt: "status_index (be_status e) < 6" by (cases "be_status e") simp_all
  from Cons show ?case by (auto simp: he Let_def nth_list_update lt intro!: map_cong)
qed

lemma status_counts_sum:
  "(\<Sum>i\<leftarrow>[0..<6]. length (filter (\<lambda>(h, e). status_index (be_status e) = i) es)) = length es"
proof (induction es)
  case (Cons he es)
  obtain h e where he: "he = (h, e)" by force
  show ?case using Cons.IH by (cases "be_status e") (simp_all add: he upt_rec)
qed (simp add: upt_rec)

text \<open>
  The status counts are exact: position by position the number of entries in each of the six
  states, and together the size of the pool.
\<close>

lemma status_counts_exact:
  "status_counts p =
     map (\<lambda>i. length (filter (\<lambda>(h, e). status_index (be_status e) = i) (bp_entries p))) [0..<6] \<and>
   sum_list (status_counts p) = pool_len p"
proof -
  have "status_counts p =
     map (\<lambda>i. length (filter (\<lambda>(h, e). status_index (be_status e) = i) (bp_entries p))) [0..<6]"
    unfolding status_counts_def by (subst status_counts_fold) (auto intro!: map_cong)
  with status_counts_sum [of "bp_entries p"] show ?thesis by (simp add: pool_len_def)
qed

end
