(* ===== verification/Filter_Handle.thy ===== *)
theory Filter_Handle
  imports Quota_Hash Buffer_Pool
begin

text \<open>
  The screening entry points and the shared state of \<open>crates/rcs-filter/src/handle.rs\<close>. Each
  critical section of the pool's mutex is one function on the shared state; \<open>screen_run\<close> composes
  them with arbitrary steps of the other threads in between. Metrics are a table of named counters
  and gauges, the broadcast channel is the list of events sent so far.
\<close>

section \<open>Shared state\<close>

datatype terminal_reason = TrDenied | TrOutdated | TrFailCloseTimeout

record terminal_event =
  te_tx_hash :: b256
  te_generation :: u64
  te_reason :: terminal_reason

datatype screen = ScAllow | ScDeny | ScDrop | ScAuditPending | ScAuditApproved

datatype pre_screen_decision = PsExecute | PsDefer | PsDrop

datatype local_deny_reason = NativeTransferLimit | ObservationInvariant

record shared =
  sh_config :: filter_config
  sh_rules :: rule_set
  sh_pool :: buffer_pool
  sh_ready :: bool
  sh_terminal_events :: "terminal_event list"
  sh_metrics :: "string \<Rightarrow> nat"

definition rule_set_default :: rule_set where
  "rule_set_default = \<lparr>rs_protocol_version = 0, rs_content_version = 0, rs_rules = [], rs_index = [],
     rs_anonymous_index = [], rs_rejected = []\<rparr>"

definition increment :: "string \<Rightarrow> nat \<Rightarrow> shared \<Rightarrow> shared" where
  "increment name n sh = sh\<lparr>sh_metrics := (sh_metrics sh)(name := sh_metrics sh name + n)\<rparr>"

definition set_gauge :: "string \<Rightarrow> nat \<Rightarrow> shared \<Rightarrow> shared" where
  "set_gauge name n sh = sh\<lparr>sh_metrics := (sh_metrics sh)(name := n)\<rparr>"

text \<open>
  The counters of \<open>RcsFilterMetrics::record_request\<close>; the latency histogram is left out.
\<close>

datatype request_endpoint = ReRules | ReRulesVersion | ReSubmit | ReQuery

fun endpoint_name :: "request_endpoint \<Rightarrow> string" where
  "endpoint_name ReRules = ''rules''"
| "endpoint_name ReRulesVersion = ''rules_version''"
| "endpoint_name ReSubmit = ''submit''"
| "endpoint_name ReQuery = ''query''"

definition record_request :: "request_endpoint \<Rightarrow> filter_error + 'a \<Rightarrow> shared \<Rightarrow> shared" where
  "record_request endpoint result sh =
     (let name = endpoint_name endpoint;
          sh' = increment (name @ ''_requests_total'') 1 sh
      in case result of
           Inr _ \<Rightarrow> sh'
         | Inl e \<Rightarrow> (case e of
               Transport _ \<Rightarrow> increment (name @ ''_transport_errors_total'') 1 sh'
             | Timeout _ \<Rightarrow> increment (name @ ''_timeout_total'') 1 sh'
             | Decode _ \<Rightarrow> increment (name @ ''_decode_errors_total'') 1 sh'
             | UnexpectedStatus _ \<Rightarrow> increment (name @ ''_unexpected_status_total'') 1 sh'
             | _ \<Rightarrow> sh'))"

definition set_pool :: "buffer_pool \<Rightarrow> shared \<Rightarrow> shared" where
  "set_pool p sh = sh\<lparr>sh_pool := p\<rparr>"

text \<open>\<open>FilterHandle::spawn\<close>, up to the start of the workers.\<close>

definition spawn_shared :: "filter_config \<Rightarrow> shared" where
  "spawn_shared cfg = \<lparr>sh_config = cfg, sh_rules = rule_set_default, sh_pool = pool_default,
     sh_ready = False, sh_terminal_events = [], sh_metrics = (\<lambda>_. 0)\<rparr>"

definition current_rules :: "shared \<Rightarrow> rule_set" where
  "current_rules sh = sh_rules sh"

definition install_rules :: "rule_set \<Rightarrow> shared \<Rightarrow> shared" where
  "install_rules rs sh =
     (set_gauge ''rules_ready'' 1 (set_gauge ''rules_content_version'' (rs_content_version rs)
       (sh\<lparr>sh_rules := rs\<rparr>)))\<lparr>sh_ready := True\<rparr>"

definition emit_terminal :: "terminal_event \<Rightarrow> shared \<Rightarrow> shared" where
  "emit_terminal ev sh = (increment ''terminal_discard_events_total'' 1 sh)
     \<lparr>sh_terminal_events := sh_terminal_events sh @ [ev]\<rparr>"

definition emit_timeout_resolutions :: "(b256 \<times> u64 \<times> resolution) list \<Rightarrow> shared \<Rightarrow> shared" where
  "emit_timeout_resolutions resolved sh =
     fold (\<lambda>(h, g, r) s. if r = Discard
             then emit_terminal \<lparr>te_tx_hash = h, te_generation = g, te_reason = TrFailCloseTimeout\<rparr> s
             else s) resolved sh"

definition update_buffer_metric :: "shared \<Rightarrow> shared" where
  "update_buffer_metric sh =
     (let counts = status_counts (sh_pool sh) in
      fold (\<lambda>(n, v) s. set_gauge n v s)
        [(''buffered_transactions'', pool_len (sh_pool sh)),
         (''buffer_not_submitted'', counts ! 0), (''buffer_submitted'', counts ! 1),
         (''buffer_pending'', counts ! 2), (''buffer_approved'', counts ! 3),
         (''buffer_timed_out_allow'', counts ! 4), (''buffer_dropped'', counts ! 5)] sh)"

definition binding_overflow_counts :: "match_error \<Rightarrow> nat \<Rightarrow> nat \<times> nat" where
  "binding_overflow_counts e configured_limit = (case e of
       BindingBudgetExceeded r attempted limit \<Rightarrow> (attempted, limit)
     | BindingCountOverflow r \<Rightarrow> (usize_max, configured_limit))"

section \<open>Handle operations\<close>

definition is_ready :: "shared \<Rightarrow> bool" where
  "is_ready sh = sh_ready sh"

definition buffered_len :: "shared \<Rightarrow> nat" where
  "buffered_len sh = pool_len (sh_pool sh)"

definition record_local_deny :: "local_deny_reason \<Rightarrow> shared \<Rightarrow> shared" where
  "record_local_deny reason sh =
     increment (case reason of
        NativeTransferLimit \<Rightarrow> ''local_deny_native_transfer_limit_total''
      | ObservationInvariant \<Rightarrow> ''local_deny_observation_invariant_total'') 1
       (increment ''deny_total'' 1 sh)"

type_synonym entry_snapshot = "buffer_status \<times> b256 \<times> u64 \<times> rule_set"

definition snapshot_entry :: "b256 \<Rightarrow> shared \<Rightarrow> entry_snapshot option" where
  "snapshot_entry h sh = map_option
     (\<lambda>e. (be_status e, be_quota_consistency_hash e, be_generation e, be_rule_snapshot e))
     (pool_get (sh_pool sh) h)"

definition consistent :: "ext \<Rightarrow> filter_config \<Rightarrow> rule_set \<Rightarrow> screen_input \<Rightarrow> b256 \<Rightarrow> bool" where
  "consistent E cfg snap input stored_hash =
     (case try_evaluate E snap input (fc_max_event_bindings_per_tx cfg) of
        Inr (MAudit acts ta) \<Rightarrow> encode_and_hash E acts = stored_hash
      | _ \<Rightarrow> False)"

text \<open>The state passed in is the one the second critical section finds, not the one snapshotted.\<close>

definition screen_existing :: "ext \<Rightarrow> nat \<Rightarrow> screen_input \<Rightarrow> entry_snapshot \<Rightarrow> shared \<Rightarrow> screen \<times> shared" where
  "screen_existing E now input snap sh = (case snap of (status, stored_hash, generation, rule_snapshot) \<Rightarrow>
     (case status of
        TimedOutAllow \<Rightarrow>
          if \<not> pool_matches (sh_pool sh) (si_tx_hash input) generation TimedOutAllow
          then (ScAuditPending, sh)
          else (ScAuditApproved, increment ''audit_approved_total'' 1 sh)
      | Dropped \<Rightarrow>
          if \<not> pool_matches (sh_pool sh) (si_tx_hash input) generation Dropped
          then (ScAuditPending, sh)
          else (ScDrop, increment ''drop_total'' 1 sh)
      | Approved \<Rightarrow>
          (let cons = consistent E (sh_config sh) rule_snapshot input stored_hash in
           case finish_consistency_check (si_tx_hash input) generation cons now (sh_pool sh) of (st, p) \<Rightarrow>
             let sh' = update_buffer_metric (set_pool p sh) in
             if st = Some Approved \<and> cons
             then (ScAuditApproved, increment ''audit_approved_total'' 1 sh')
             else if st = Some Dropped
             then (ScDrop, increment ''drop_total'' 1 (increment ''consistency_mismatch_total'' 1 sh'))
             else (ScAuditPending, sh'))
      | _ \<Rightarrow> (ScAuditPending, sh)))"

definition new_entry :: "ext \<Rightarrow> nat \<Rightarrow> screen_input \<Rightarrow> rule_set \<Rightarrow> actions \<Rightarrow> timeout_action \<Rightarrow> buffer_entry" where
  "new_entry E now input rules acts ta = \<lparr>
     be_generation = 0, be_tx_hash = si_tx_hash input, be_origin = si_origin input,
     be_contract_address = (case si_tx_to input of Some a \<Rightarrow> a | None \<Rightarrow> 0),
     be_nonce = si_nonce input, be_block_height = si_block_height input, be_status = NotSubmitted,
     be_actions = acts, be_rule_snapshot = rules, be_quota_consistency_hash = encode_and_hash E acts,
     be_timeout_action = ta, be_first_not_submitted_at = now, be_last_transition_at = now\<rparr>"

definition buffer_audit :: "ext \<Rightarrow> nat \<Rightarrow> screen_input \<Rightarrow> rule_set \<Rightarrow> actions \<Rightarrow> timeout_action \<Rightarrow> shared \<Rightarrow> shared" where
  "buffer_audit E now input rules acts ta sh =
     update_buffer_metric (increment ''audit_pending_total'' 1
       (set_pool (pool_insert (new_entry E now input rules acts ta) (sh_pool sh)) sh))"

text \<open>\<open>screen_tx\<close> when no other thread gets the lock in between.\<close>

definition screen_tx :: "ext \<Rightarrow> nat \<Rightarrow> screen_input \<Rightarrow> shared \<Rightarrow> screen \<times> shared" where
  "screen_tx E now input sh = (case snapshot_entry (si_tx_hash input) sh of
       Some snap \<Rightarrow> screen_existing E now input snap sh
     | None \<Rightarrow>
         (let rules = current_rules sh in
          case try_evaluate E rules input (fc_max_event_bindings_per_tx (sh_config sh)) of
            Inl e \<Rightarrow> (ScDeny, increment ''deny_total'' 1 sh)
          | Inr MAllow \<Rightarrow>
              (case snapshot_entry (si_tx_hash input) sh of
                 Some snap \<Rightarrow> screen_existing E now input snap sh
               | None \<Rightarrow> (ScAllow, increment ''allow_total'' 1 sh))
          | Inr MDeny \<Rightarrow> (ScDeny, increment ''deny_total'' 1 sh)
          | Inr (MAudit acts ta) \<Rightarrow> (ScAuditPending, buffer_audit E now input rules acts ta sh)))"

definition pre_screen :: "b256 \<Rightarrow> shared \<Rightarrow> pre_screen_decision" where
  "pre_screen h sh = (case map_option be_status (pool_get (sh_pool sh) h) of
       None \<Rightarrow> PsExecute
     | Some s \<Rightarrow> if s = Approved \<or> s = TimedOutAllow then PsExecute
                 else if s = Dropped then PsDrop else PsDefer)"

definition remove_canonical_transactions :: "b256 list \<Rightarrow> shared \<Rightarrow> nat \<times> shared" where
  "remove_canonical_transactions hs sh = (case remove_canonical hs (sh_pool sh) of (removed, p) \<Rightarrow>
     (removed, update_buffer_metric (increment ''canonical_cleanup_total'' removed (set_pool p sh))))"

definition recover_canonical_lag :: "nat \<Rightarrow> shared \<Rightarrow> nat \<times> shared" where
  "recover_canonical_lag skipped sh = (case recover_after_canonical_lag (sh_pool sh) of (removed, p) \<Rightarrow>
     (removed, update_buffer_metric (increment ''canonical_lag_recovery_total'' removed
       (increment ''canonical_channel_lag_total'' skipped (set_pool p sh)))))"

definition remove_absent_lifecycle :: "b256 \<Rightarrow> u64 \<Rightarrow> shared \<Rightarrow> bool \<times> shared" where
  "remove_absent_lifecycle h g sh =
     (case remove_non_terminal_if_generation h g (sh_pool sh) of (removed, p) \<Rightarrow>
        (removed, if removed
                  then update_buffer_metric (increment ''txpool_absent_cleanup_total'' 1 (set_pool p sh))
                  else set_pool p sh))"

definition with_dropped_lifecycle :: "b256 \<Rightarrow> u64 \<Rightarrow> (shared \<Rightarrow> 'r \<times> shared) \<Rightarrow> shared \<Rightarrow> 'r option \<times> shared" where
  "with_dropped_lifecycle h g action sh =
     (if pool_matches (sh_pool sh) h g Dropped
      then (case action sh of (r, sh') \<Rightarrow> (Some r, sh')) else (None, sh))"

definition record_terminal_reconciliation :: "nat \<Rightarrow> nat \<Rightarrow> shared \<Rightarrow> shared" where
  "record_terminal_reconciliation skipped reconciled sh =
     increment ''terminal_reconciliation_total'' reconciled (increment ''terminal_channel_lag_total'' skipped sh)"

definition record_txpool_discard :: "bool \<Rightarrow> shared \<Rightarrow> shared" where
  "record_txpool_discard removed sh =
     increment (if removed then ''txpool_discard_success_total'' else ''txpool_discard_already_absent_total'') 1 sh"

definition buffer_status_of :: "b256 \<Rightarrow> shared \<Rightarrow> buffer_status option" where
  "buffer_status_of h sh = map_option be_status (pool_get (sh_pool sh) h)"

section \<open>Screening among other threads\<close>

text \<open>
  \<open>env\<close> is a step of another thread. A run of \<open>screen_tx\<close> takes its snapshot, its copy of the
  rules, its second look and its final critical section at different moments.
\<close>

inductive screen_run :: "ext \<Rightarrow> (shared \<Rightarrow> shared \<Rightarrow> bool) \<Rightarrow> screen_input \<Rightarrow> shared \<Rightarrow> screen \<Rightarrow> shared \<Rightarrow> bool"
  for E env input where
  run_existing: "snapshot_entry (si_tx_hash input) s0 = Some snap \<Longrightarrow> env\<^sup>*\<^sup>* s0 s1 \<Longrightarrow>
    screen_existing E now input snap s1 = (r, s2) \<Longrightarrow> screen_run E env input s0 r s2"
| run_budget: "snapshot_entry (si_tx_hash input) s0 = None \<Longrightarrow> env\<^sup>*\<^sup>* s0 s1 \<Longrightarrow>
    try_evaluate E (current_rules s1) input (fc_max_event_bindings_per_tx (sh_config s1)) = Inl e \<Longrightarrow>
    env\<^sup>*\<^sup>* s1 s2 \<Longrightarrow> screen_run E env input s0 ScDeny (increment ''deny_total'' 1 s2)"
| run_deny: "snapshot_entry (si_tx_hash input) s0 = None \<Longrightarrow> env\<^sup>*\<^sup>* s0 s1 \<Longrightarrow>
    try_evaluate E (current_rules s1) input (fc_max_event_bindings_per_tx (sh_config s1)) = Inr MDeny \<Longrightarrow>
    env\<^sup>*\<^sup>* s1 s2 \<Longrightarrow> screen_run E env input s0 ScDeny (increment ''deny_total'' 1 s2)"
| run_audit: "snapshot_entry (si_tx_hash input) s0 = None \<Longrightarrow> env\<^sup>*\<^sup>* s0 s1 \<Longrightarrow>
    try_evaluate E (current_rules s1) input (fc_max_event_bindings_per_tx (sh_config s1)) = Inr (MAudit acts ta) \<Longrightarrow>
    env\<^sup>*\<^sup>* s1 s2 \<Longrightarrow>
    screen_run E env input s0 ScAuditPending (buffer_audit E now input (current_rules s1) acts ta s2)"
| run_allow: "snapshot_entry (si_tx_hash input) s0 = None \<Longrightarrow> env\<^sup>*\<^sup>* s0 s1 \<Longrightarrow>
    try_evaluate E (current_rules s1) input (fc_max_event_bindings_per_tx (sh_config s1)) = Inr MAllow \<Longrightarrow>
    env\<^sup>*\<^sup>* s1 s2 \<Longrightarrow> snapshot_entry (si_tx_hash input) s2 = None \<Longrightarrow>
    screen_run E env input s0 ScAllow (increment ''allow_total'' 1 s2)"
| run_allow_concurrent: "snapshot_entry (si_tx_hash input) s0 = None \<Longrightarrow> env\<^sup>*\<^sup>* s0 s1 \<Longrightarrow>
    try_evaluate E (current_rules s1) input (fc_max_event_bindings_per_tx (sh_config s1)) = Inr MAllow \<Longrightarrow>
    env\<^sup>*\<^sup>* s1 s2 \<Longrightarrow> snapshot_entry (si_tx_hash input) s2 = Some snap \<Longrightarrow> env\<^sup>*\<^sup>* s2 s3 \<Longrightarrow>
    screen_existing E now input snap s3 = (r, s4) \<Longrightarrow> screen_run E env input s0 r s4"


section \<open>Steps of the other threads\<close>

text \<open>
  What another thread can do while screening does not hold the lock: any one operation of the
  pool (without wrapping the generation counter), or anything that leaves pool and configuration
  alone, such as installing rules.
\<close>

inductive env_step :: "ext \<Rightarrow> shared \<Rightarrow> shared \<Rightarrow> bool" for E where
  env_pool: "pool_step_nowrap E (sh_config s) (sh_pool s) (sh_pool s') \<Longrightarrow> sh_config s' = sh_config s \<Longrightarrow>
    env_step E s s'"
| env_other: "sh_pool s' = sh_pool s \<Longrightarrow> sh_config s' = sh_config s \<Longrightarrow> env_step E s s'"

lemma env_steps_pool:
  assumes "(env_step E)\<^sup>*\<^sup>* s s'"
  shows "(pool_step_nowrap E (sh_config s))\<^sup>*\<^sup>* (sh_pool s) (sh_pool s') \<and> sh_config s' = sh_config s"
  using assms
proof (induction rule: rtranclp_induct)
  case (step q r)
  from step.hyps(2) step.IH show ?case by cases (auto intro: rtranclp.rtrancl_into_rtrancl)
qed simp

context lifecycle_pool
begin

text \<open>What the entry steps keep is the same for all entries of one lifecycle.\<close>

lemma attr_stable:
  assumes attr: "\<And>e e'. entry_rel e e' \<Longrightarrow> attr e' = attr e"
    and "step\<^sup>*\<^sup>* p p'" "wf p" "covered p" "look p h = Some e"
  shows "(\<exists>e'. look p' h = Some e' \<and> gen e' = gen e \<and> attr e' = attr e) \<or> absent p' h (gen e)"
  using assms(2-)
proof (induction rule: rtranclp_induct)
  case (step q r)
  from steps_frame [OF step.hyps(1) step.prems(1,2)] have q: "wf q" "counter p \<le> counter q" by auto
  have g: "gen e \<le> counter q" using step.prems(2,3) q(2) unfolding covered_def by (meson order_trans)
  from step have "(\<exists>e'. look q h = Some e' \<and> gen e' = gen e \<and> attr e' = attr e) \<or> absent q h (gen e)" by blast
  then show ?case
  proof
    assume "\<exists>e'. look q h = Some e' \<and> gen e' = gen e \<and> attr e' = attr e"
    then obtain e1 where e1: "look q h = Some e1" "gen e1 = gen e" "attr e1 = attr e" by blast
    show ?thesis
    proof (cases "look r h")
      case (Some e2)
      from step_entry [OF q(1) step.hyps(2) Some] e1(1) have "entry_rel e1 e2" by auto
      with e1 Some rel_gen attr show ?thesis by metis
    qed (simp add: absent_def)
  next
    assume "absent q h (gen e)"
    with step_absent [OF q(1) step.hyps(2) g] show ?thesis by blast
  qed
qed simp

end

lemma entry_step_attrs:
  "entry_step cfg now e e' \<Longrightarrow>
     (be_rule_snapshot e', be_quota_consistency_hash e', be_actions e') =
     (be_rule_snapshot e, be_quota_consistency_hash e, be_actions e)"
  by (auto simp: entry_step_def set_status_def)

lemma reachable_steps:
  assumes "pool_reachable_nowrap E cfg p" "(pool_step_nowrap E cfg)\<^sup>*\<^sup>* p p'"
  shows "pool_reachable_nowrap E cfg p'"
  using assms unfolding pool_reachable_nowrap_def by (rule rtranclp_trans)

section \<open>Frame facts\<close>

lemma shared_frame [simp]:
  "sh_pool (increment n k s) = sh_pool s" "sh_config (increment n k s) = sh_config s"
  "sh_rules (increment n k s) = sh_rules s"
  "sh_pool (set_gauge n k s) = sh_pool s" "sh_config (set_gauge n k s) = sh_config s"
  "sh_rules (set_gauge n k s) = sh_rules s"
  "sh_pool (set_pool p s) = p" "sh_config (set_pool p s) = sh_config s" "sh_rules (set_pool p s) = sh_rules s"
  "sh_terminal_events (increment n k s) = sh_terminal_events s"
  "sh_terminal_events (set_gauge n k s) = sh_terminal_events s"
  "sh_terminal_events (set_pool p s) = sh_terminal_events s"
  by (simp_all add: increment_def set_gauge_def set_pool_def)

lemma record_request_frame [simp]:
  "sh_pool (record_request en r s) = sh_pool s" "sh_config (record_request en r s) = sh_config s"
  "sh_rules (record_request en r s) = sh_rules s" "sh_ready (record_request en r s) = sh_ready s"
  "sh_terminal_events (record_request en r s) = sh_terminal_events s"
  by (auto simp: record_request_def Let_def increment_def split: sum.splits filter_error.splits)

lemma update_buffer_metric_frame [simp]:
  "sh_pool (update_buffer_metric s) = sh_pool s" "sh_config (update_buffer_metric s) = sh_config s"
  "sh_rules (update_buffer_metric s) = sh_rules s"
  "sh_terminal_events (update_buffer_metric s) = sh_terminal_events s"
  by (simp_all add: update_buffer_metric_def Let_def)

lemma emit_frame [simp]:
  "sh_pool (emit_terminal ev s) = sh_pool s" "sh_config (emit_terminal ev s) = sh_config s"
  "sh_rules (emit_terminal ev s) = sh_rules s"
  "sh_pool (emit_timeout_resolutions rs s) = sh_pool s"
  "sh_config (emit_timeout_resolutions rs s) = sh_config s"
  "sh_rules (emit_timeout_resolutions rs s) = sh_rules s"
proof -
  show "sh_pool (emit_terminal ev s) = sh_pool s" "sh_config (emit_terminal ev s) = sh_config s"
    "sh_rules (emit_terminal ev s) = sh_rules s" for ev s by (simp_all add: emit_terminal_def)
  then show "sh_pool (emit_timeout_resolutions rs s) = sh_pool s"
    "sh_config (emit_timeout_resolutions rs s) = sh_config s"
    "sh_rules (emit_timeout_resolutions rs s) = sh_rules s"
    unfolding emit_timeout_resolutions_def by (induction rs arbitrary: s) auto
qed

section \<open>What a release means\<close>

lemma pool_matches_iff:
  "pool_matches p h g s \<longleftrightarrow> (\<exists>e. pool_get p h = Some e \<and> be_generation e = g \<and> be_status e = s)"
  by (auto simp: pool_matches_def split: option.splits)

lemma screen_existing_approved:
  assumes "screen_existing E now input (status, stored, g, snap) s1 = (ScAuditApproved, s2)"
  shows "\<exists>e. pool_get (sh_pool s2) (si_tx_hash input) = Some e \<and>
      pool_get (sh_pool s1) (si_tx_hash input) = Some e \<and> be_generation e = g \<and> sh_config s2 = sh_config s1 \<and>
      (be_status e = TimedOutAllow \<or>
       be_status e = Approved \<and> consistent E (sh_config s1) snap input stored)"
  using assms
  by (cases status)
    (auto simp: screen_existing_def Let_def finish_consistency_check_def pool_matches_iff
      split: if_splits option.splits prod.splits)

lemma screen_existing_results:
  "fst (screen_existing E now input (status, stored, g, snap) s1) \<noteq> ScAllow"
  "fst (screen_existing E now input (status, stored, g, snap) s1) \<noteq> ScDeny"
  "status \<notin> {Approved, TimedOutAllow} \<Longrightarrow>
     fst (screen_existing E now input (status, stored, g, snap) s1) \<noteq> ScAuditApproved"
  by (cases status; simp add: screen_existing_def Let_def split: prod.splits)+

lemma snapshot_entry_Some:
  "snapshot_entry h s = Some (status, stored, g, snap) \<longleftrightarrow>
     (\<exists>e. pool_get (sh_pool s) h = Some e \<and> status = be_status e \<and>
          stored = be_quota_consistency_hash e \<and> g = be_generation e \<and> snap = be_rule_snapshot e)"
  by (auto simp: snapshot_entry_def)

lemma snapshot_entry_None: "snapshot_entry h s = None \<longleftrightarrow> pool_get (sh_pool s) h = None"
  by (simp add: snapshot_entry_def)

lemma existing_release:
  assumes r: "pool_reachable_nowrap E (sh_config s0) (sh_pool s0)"
    and snap: "snapshot_entry (si_tx_hash input) s0 = Some sn"
    and env: "(env_step E)\<^sup>*\<^sup>* s0 s1"
    and scr: "screen_existing E now input sn s1 = (ScAuditApproved, s2)"
  shows "\<exists>e. pool_get (sh_pool s2) (si_tx_hash input) = Some e \<and>
      (be_status e = TimedOutAllow \<and> be_timeout_action e = TimeoutAllow \<or>
       be_status e = Approved \<and>
         consistent E (sh_config s2) (be_rule_snapshot e) input (be_quota_consistency_hash e))"
proof -
  obtain status stored g rules where sn: "sn = (status, stored, g, rules)" by (cases sn) auto
  obtain e0 where e0: "pool_get (sh_pool s0) (si_tx_hash input) = Some e0" "g = be_generation e0"
    "stored = be_quota_consistency_hash e0" "rules = be_rule_snapshot e0"
    using snap by (auto simp: sn snapshot_entry_Some)
  from screen_existing_approved [OF scr [unfolded sn]] obtain e where
    e: "pool_get (sh_pool s2) (si_tx_hash input) = Some e" "pool_get (sh_pool s1) (si_tx_hash input) = Some e"
      "be_generation e = g" "sh_config s2 = sh_config s1"
      "be_status e = TimedOutAllow \<or> be_status e = Approved \<and> consistent E (sh_config s1) rules input stored"
    by blast
  note steps = env_steps_pool [OF env]
  have "pool_reachable E (sh_config s0) (sh_pool s1)"
    using nowrap_reachable [OF reachable_steps [OF r conjunct1 [OF steps]]] .
  from pool_reachable_ok [OF this] e(2) have ok: "entry_ok (sh_config s0) e" by blast
  have "be_rule_snapshot e = rules \<and> be_quota_consistency_hash e = stored"
    using pool.attr_stable [where attr = "\<lambda>e. (be_rule_snapshot e, be_quota_consistency_hash e, be_actions e)",
        OF _ conjunct1 [OF steps] reachable_nowrap_frame [OF r] e0(1)] entry_step_attrs e(2,3) e0
    by (auto simp: pool.absent_def)
  with e ok show ?thesis by (auto simp: entry_ok_def)
qed

lemma env_reachable:
  assumes "pool_reachable_nowrap E (sh_config s) (sh_pool s)" "(env_step E)\<^sup>*\<^sup>* s s'"
  shows "pool_reachable_nowrap E (sh_config s') (sh_pool s')" "sh_config s' = sh_config s"
  using reachable_steps [OF assms(1)] env_steps_pool [OF assms(2)] by auto

text \<open>
  C5. Whatever the other threads do between its critical sections, screening releases a buffered
  transaction only if at the moment of release its entry either timed out fail-open, or is approved
  and the quota recomputed from the present logs under the entry's own rule snapshot hashes to the
  value recorded at submission.
\<close>

theorem audit_release_is_justified:
  assumes "pool_reachable_nowrap E (sh_config s0) (sh_pool s0)"
    and "screen_run E (env_step E) input s0 ScAuditApproved s'"
  shows "\<exists>e. pool_get (sh_pool s') (si_tx_hash input) = Some e \<and>
      (be_status e = TimedOutAllow \<and> be_timeout_action e = TimeoutAllow \<or>
       be_status e = Approved \<and>
         consistent E (sh_config s') (be_rule_snapshot e) input (be_quota_consistency_hash e))"
  using assms(2)
proof (cases rule: screen_run.cases)
  case (run_existing snap s1 now)
  then show ?thesis using existing_release [OF assms(1)] by blast
next
  case (run_allow_concurrent s1 s2 snap s3 now)
  then have "pool_reachable_nowrap E (sh_config s2) (sh_pool s2)"
    using assms(1) env_reachable by metis
  with run_allow_concurrent show ?thesis using existing_release by blast
qed

definition sample_shared :: shared where
  "sample_shared = (spawn_shared default_config)\<lparr>sh_rules := sample_audit_rules, sh_pool := sample_timed_out\<rparr>"

lemma screen_tx_runs:
  assumes "screen_tx E now input s = (r, s')"
  shows "screen_run E env input s r s'"
proof (cases "snapshot_entry (si_tx_hash input) s")
  case (Some snap)
  with assms show ?thesis by (auto simp: screen_tx_def intro: run_existing)
next
  case None
  note rules = run_budget run_deny run_audit run_allow
  show ?thesis
  proof (cases "try_evaluate E (current_rules s) input (fc_max_event_bindings_per_tx (sh_config s))")
    case (Inl e)
    with None assms run_budget [OF None rtranclp.rtrancl_refl Inl rtranclp.rtrancl_refl] show ?thesis
      by (simp add: screen_tx_def Let_def)
  next
    case (Inr out)
    show ?thesis
    proof (cases out)
      case MAllow
      with None Inr assms run_allow [OF None rtranclp.rtrancl_refl _ rtranclp.rtrancl_refl None]
      show ?thesis by (simp add: screen_tx_def Let_def)
    next
      case MDeny
      with None Inr assms run_deny [OF None rtranclp.rtrancl_refl _ rtranclp.rtrancl_refl]
      show ?thesis by (simp add: screen_tx_def Let_def)
    next
      case (MAudit acts ta)
      with None Inr assms run_audit [OF None rtranclp.rtrancl_refl _ rtranclp.rtrancl_refl]
      show ?thesis by (auto simp: screen_tx_def Let_def)
    qed
  qed
qed

theorem audit_release_is_justified_witness:
  "\<exists>s' e. screen_run sample_ext (env_step sample_ext) (sample_input []) sample_shared ScAuditApproved s' \<and>
     pool_get (sh_pool s') 7 = Some e \<and>
     (be_status e = TimedOutAllow \<and> be_timeout_action e = TimeoutAllow \<or> be_status e = Approved)"
proof -
  have r: "pool_reachable_nowrap sample_ext (sh_config sample_shared) (sh_pool sample_shared)"
    using sample_timed_out_steps by (simp add: sample_shared_def spawn_shared_def)
  have h: "si_tx_hash (sample_input []) = 7" by (simp add: sample_input_def)
  have "screen_tx sample_ext 1092 (sample_input []) sample_shared =
      (ScAuditApproved, increment ''audit_approved_total'' 1 sample_shared)"
    using sample_timed_out_get
    by (simp add: screen_tx_def snapshot_entry_def sample_shared_def h screen_existing_def pool_matches_def)
  then have run: "screen_run sample_ext (env_step sample_ext) (sample_input []) sample_shared ScAuditApproved
      (increment ''audit_approved_total'' 1 sample_shared)"
    by (rule screen_tx_runs)
  from audit_release_is_justified [OF r run] run show ?thesis unfolding h by blast
qed

text \<open>
  C6. A transaction is packaged without audit only if a rule set current during the run finds,
  over its complete enumeration within the configured budget, neither a satisfied deny rule nor an
  audit hit, and no other thread had put the transaction into the pool in the meantime.
\<close>

theorem allow_is_justified:
  assumes "screen_run E env input s0 ScAllow s'"
  shows "\<exists>s1. env\<^sup>*\<^sup>* s0 s1 \<and>
      reference_outcome E input (rs_rules (current_rules s1)) = MAllow \<and>
      binding_total E input (rs_rules (current_rules s1)) \<le> fc_max_event_bindings_per_tx (sh_config s1) \<and>
      pool_get (sh_pool s') (si_tx_hash input) = None"
  using assms
proof (cases rule: screen_run.cases)
  case (run_existing snap s1 now)
  then show ?thesis using screen_existing_results(1) by (metis fst_conv prod_cases4)
next
  case (run_allow s1 s2)
  from evaluate_checked_Inr [OF run_allow(4) [unfolded try_evaluate_def]] run_allow show ?thesis
    by (auto simp: snapshot_entry_None)
next
  case (run_allow_concurrent s1 s2 snap s3 now)
  then show ?thesis using screen_existing_results(1) by (metis fst_conv prod_cases4)
qed

theorem allow_is_justified_witness:
  "\<exists>s' s1. screen_run sample_ext (=) (sample_input []) (spawn_shared default_config) ScAllow s' \<and>
     reference_outcome sample_ext (sample_input []) (rs_rules (current_rules s1)) = MAllow \<and>
     pool_get (sh_pool s') 7 = None"
proof -
  have h: "si_tx_hash (sample_input []) = 7" by (simp add: sample_input_def)
  have "screen_tx sample_ext 0 (sample_input []) (spawn_shared default_config) =
     (ScAllow, increment ''allow_total'' 1 (spawn_shared default_config))"
    by (simp add: screen_tx_def snapshot_entry_def spawn_shared_def pool_default_def pool_get_def Let_def
        current_rules_def rule_set_default_def try_evaluate_def evaluate_checked_def match_result_def match_acc_new_def)
  then have run: "screen_run sample_ext (=) (sample_input []) (spawn_shared default_config) ScAllow
      (increment ''allow_total'' 1 (spawn_shared default_config))"
    by (rule screen_tx_runs)
  from allow_is_justified [OF run] run show ?thesis unfolding h by blast
qed

text \<open>
  A transaction that is undecided or dropped when its screening starts is not released by that
  screening, whatever happens concurrently; before execution it is deferred or dropped.
\<close>

lemma undecided_never_released:
  assumes "pool_get (sh_pool s0) (si_tx_hash input) = Some e"
    and "be_status e \<in> {NotSubmitted, Submitted, Pending, Dropped}"
    and "screen_run E env input s0 r s'"
  shows "r \<in> {ScDrop, ScAuditPending} \<and> pre_screen (si_tx_hash input) s0 \<in> {PsDefer, PsDrop}"
proof -
  have "r \<noteq> ScAllow \<and> r \<noteq> ScDeny \<and> r \<noteq> ScAuditApproved"
    using assms(3)
  proof (cases rule: screen_run.cases)
    case (run_existing snap s1 now)
    then obtain st q g rs where snap: "snap = (st, q, g, rs)" "st = be_status e"
      using assms(1) by (cases snap) (auto simp: snapshot_entry_Some)
    with screen_existing_results [where E = E and now = now and input = input and status = st and
          stored = q and g = g and snap = rs and ?s1.0 = s1] assms(2) run_existing show ?thesis by auto
  qed (use assms(1) in \<open>auto simp: snapshot_entry_None\<close>)
  then have "r \<in> {ScDrop, ScAuditPending}" by (cases r) auto
  moreover have "pre_screen (si_tx_hash input) s0 \<in> {PsDefer, PsDrop}"
    using assms(1,2) by (auto simp: pre_screen_def)
  ultimately show ?thesis by blast
qed

definition sample_pending_shared :: shared where
  "sample_pending_shared = (spawn_shared default_config)
     \<lparr>sh_pool := pool_insert (sample_entry TimeoutDeny) pool_default\<rparr>"

lemma undecided_never_released_witness:
  "\<exists>r s'. screen_run sample_ext (=) (sample_input []) sample_pending_shared r s' \<and> r \<in> {ScDrop, ScAuditPending}"
proof -
  have g: "pool_get (sh_pool sample_pending_shared) (si_tx_hash (sample_input [])) =
      Some ((sample_entry TimeoutDeny)\<lparr>be_generation := 1\<rparr>)"
    by (simp add: sample_pending_shared_def sample_pool_defs sample_input_def)
  obtain r s' where "screen_tx sample_ext 0 (sample_input []) sample_pending_shared = (r, s')" by force
  then have run: "screen_run sample_ext (=) (sample_input []) sample_pending_shared r s'"
    by (rule screen_tx_runs)
  have "be_status ((sample_entry TimeoutDeny)\<lparr>be_generation := 1\<rparr>) \<in> {NotSubmitted, Submitted, Pending, Dropped}"
    by (simp add: sample_entry_def)
  from undecided_never_released [OF g this run] run show ?thesis by blast
qed

text \<open>
  The sequential screening function is one of the runs: the interleaving semantics contains
  the behaviour in which no other thread intervenes.
\<close>

lemma screen_tx_refines_run:
  assumes "screen_tx E now input s = (r, s')"
  shows "screen_run E env input s r s'"
  using assms by (rule screen_tx_runs)

lemma screen_tx_refines_run_witness:
  "\<exists>r s'. screen_tx sample_ext 0 (sample_input []) sample_pending_shared = (r, s') \<and>
     screen_run sample_ext (=) (sample_input []) sample_pending_shared r s'"
proof -
  obtain r s' where "screen_tx sample_ext 0 (sample_input []) sample_pending_shared = (r, s')" by force
  with screen_tx_refines_run [OF this] show ?thesis by blast
qed

section \<open>Re-simulation is deterministic\<close>

lemma evaluate_rules_block_height:
  "evaluate_rules E (input\<lparr>si_block_height := bh\<rparr>) limit rules n acc = evaluate_rules E input limit rules n acc"
proof (induction rules arbitrary: n acc)
  case (Cons r rs)
  have *: "visit_rule E r (input\<lparr>si_block_height := bh\<rparr>) = visit_rule E r input"
    "candidates E r (input\<lparr>si_block_height := bh\<rparr>) = candidates E r input"
    "filter_skip r (input\<lparr>si_block_height := bh\<rparr>) = filter_skip r input"
    by (simp_all add: fun_eq_iff visit_rule_def build_bindings_def candidates_def filter_skip_def
        split: option.splits)
  show ?case unfolding evaluate_rules.simps * by (simp only: Cons.IH)
qed simp

lemma consistent_block_height:
  "consistent E cfg rs (input\<lparr>si_block_height := bh\<rparr>) q = consistent E cfg rs input q"
  by (simp add: consistent_def try_evaluate_def evaluate_checked_def evaluate_rules_block_height)

lemma screen_tx_buffers:
  assumes "pool_get (sh_pool s) (si_tx_hash input) = None" "screen_tx E now input s = (ScAuditPending, s1)"
  shows "\<exists>acts ta. try_evaluate E (current_rules s) input (fc_max_event_bindings_per_tx (sh_config s)) = Inr (MAudit acts ta) \<and>
    s1 = buffer_audit E now input (current_rules s) acts ta s"
  using assms
  by (auto simp: screen_tx_def snapshot_entry_None [THEN iffD2] Let_def split: sum.splits match_outcome.splits)

text \<open>
  Approval is not lost to re-simulation: a transaction that was buffered by a screening, whose
  lifecycle is later approved, is released by the next screening with the same logs, even after a
  hot reload of the rules and at another block height, and its entry stays approved. In particular
  the recomputation can neither exceed the binding budget nor mismatch the stored hash.
\<close>

lemma approved_resimulation_releases:
  assumes reach: "pool_reachable_nowrap E (sh_config s) (sh_pool s)"
    and fresh: "pool_get (sh_pool s) (si_tx_hash input) = None"
    and first: "screen_tx E now input s = (ScAuditPending, s1)"
    and nowrap: "bp_next_generation (sh_pool s) \<le> bp_next_generation (sh_pool s1)"
    and env: "(env_step E)\<^sup>*\<^sup>* s1 s2"
    and appr: "pool_get (sh_pool s2) (si_tx_hash input) = Some e" "be_status e = Approved"
      "be_generation e = bp_next_generation (sh_pool s1)"
  shows "\<exists>s3. screen_tx E now' (input\<lparr>si_block_height := bh\<rparr>) s2 = (ScAuditApproved, s3) \<and> sh_pool s3 = sh_pool s2"
proof -
  from screen_tx_buffers [OF fresh first] obtain acts ta where
    ev: "try_evaluate E (current_rules s) input (fc_max_event_bindings_per_tx (sh_config s)) = Inr (MAudit acts ta)"
    and s1: "s1 = buffer_audit E now input (current_rules s) acts ta s" by blast
  let ?e0 = "(new_entry E now input (current_rules s) acts ta)\<lparr>be_generation := bp_next_generation (sh_pool s) + 1\<rparr>"
  have p1: "sh_pool s1 = pool_insert (new_entry E now input (current_rules s) acts ta) (sh_pool s)"
    and c1: "sh_config s1 = sh_config s" by (simp_all add: s1 buffer_audit_def)
  have hash: "be_tx_hash (new_entry E now input (current_rules s) acts ta) = si_tx_hash input"
    by (simp add: new_entry_def)
  have get1: "pool_get (sh_pool s1) (si_tx_hash input) = Some ?e0"
    using fresh by (simp add: p1 pool_simps hash)
  have gen: "be_generation e = be_generation ?e0"
    using appr(3) fresh by (simp add: p1 pool_insert_def pool_contains_def Let_def pool_simps hash)
  have "pool_step_nowrap E (sh_config s) (sh_pool s) (sh_pool s1)"
    using nowrap unfolding pool_step_nowrap_def p1 by (auto intro: pool_step.step_insert simp: new_entry_def)
  then have r1: "pool_reachable_nowrap E (sh_config s1) (sh_pool s1)"
    using reachable_steps [OF reach r_into_rtranclp] c1 by simp
  note steps = env_steps_pool [OF env]
  have "be_rule_snapshot e = be_rule_snapshot ?e0 \<and> be_quota_consistency_hash e = be_quota_consistency_hash ?e0"
    using pool.attr_stable [where attr = "\<lambda>e. (be_rule_snapshot e, be_quota_consistency_hash e, be_actions e)",
        OF _ conjunct1 [OF steps] reachable_nowrap_frame [OF r1] get1] entry_step_attrs appr(1) gen
    by (auto simp: pool.absent_def)
  then have cons: "consistent E (sh_config s2) (be_rule_snapshot e) input (be_quota_consistency_hash e)"
    using ev c1 steps by (simp add: consistent_def new_entry_def)
  show ?thesis
    using appr cons
    by (simp add: screen_tx_def snapshot_entry_def screen_existing_def Let_def consistent_block_height
        finish_consistency_check_def)
qed

lemma bp_next_apply_submit [simp]:
  "bp_next_generation (snd (apply_submit_response E acc expected cfg now p)) = bp_next_generation p"
  unfolding apply_submit_response_def by (rule bp_next_submit)

lemma approval_path:
  assumes "pool_get p h = Some e" "be_status e = NotSubmitted" "parse_hash E str = Some h"
    and "now - be_first_not_submitted_at e \<le> as_secs (fc_total_retry_timeout cfg)"
  shows "\<exists>p' e'. (pool_step_nowrap E cfg)\<^sup>*\<^sup>* p p' \<and> pool_get p' h = Some e' \<and> be_status e' = Approved \<and>
    be_generation e' = be_generation e"
proof -
  let ?g = "be_generation e"
  let ?p1 = "snd (apply_submit_response E [str] [(h, ?g)] cfg now p)"
  let ?p2 = "snd (apply_query_status h ?g ''approved'' cfg now ?p1)"
  have nt: "resolve_total_timeout cfg now e = (None, e)"
    "resolve_total_timeout cfg now (set_status Submitted now e) = (None, set_status Submitted now e)"
    using assms(4) by (simp_all add: resolve_total_timeout_def)
  have p1: "pool_get ?p1 h = Some (set_status Submitted now e)"
    using assms(1-3) nt by (simp add: apply_submit_response_def pool_simps submit_update_def List.map_filter_def)
  have p2: "pool_get ?p2 h = Some (set_status Approved now (set_status Submitted now e))"
    using p1 nt by (simp add: pool_simps query_update_def is_terminal_def)
  have "pool_step_nowrap E cfg p ?p1" "pool_step_nowrap E cfg ?p1 ?p2"
    using pool_step.step_submit [of "[(h, ?g)]" E cfg p "[str]" now] pool_step.step_query [of E cfg ?p1 h ?g "''approved''" now]
    by (simp_all add: pool_step_nowrap_def)
  then have "(pool_step_nowrap E cfg)\<^sup>*\<^sup>* p ?p2"
    by (intro rtranclp.rtrancl_into_rtrancl [OF r_into_rtranclp])
  with p2 show ?thesis
    by (intro exI [of _ ?p2] exI [of _ "set_status Approved now (set_status Submitted now e)"]) simp
qed

lemma pool_steps_env:
  assumes "(pool_step_nowrap E (sh_config s))\<^sup>*\<^sup>* (sh_pool s) p"
  shows "(env_step E)\<^sup>*\<^sup>* s (set_pool p s)"
  using assms
proof (induction rule: rtranclp_induct)
  case base
  then show ?case by (simp add: set_pool_def)
next
  case (step q r)
  have "env_step E (set_pool q s) (set_pool r s)" using step.hyps(2) by (intro env_pool) simp_all
  with step.IH show ?case by (rule rtranclp.rtrancl_into_rtrancl)
qed

definition sample_hash_string :: string where
  "sample_hash_string = ''0x'' @ replicate 63 CHR ''0'' @ ''7''"

lemma approved_resimulation_releases_witness:
  "\<exists>s1 s2 s3. screen_tx sample_ext 1000 (sample_input [sample_transfer 1])
       ((spawn_shared default_config)\<lparr>sh_rules := sample_audit_rules\<rparr>) = (ScAuditPending, s1) \<and>
     (env_step sample_ext)\<^sup>*\<^sup>* s1 s2 \<and>
     screen_tx sample_ext 1005 ((sample_input [sample_transfer 1])\<lparr>si_block_height := 101\<rparr>) s2 = (ScAuditApproved, s3)"
proof -
  let ?i = "sample_input [sample_transfer 1]" and ?s = "(spawn_shared default_config)\<lparr>sh_rules := sample_audit_rules\<rparr>"
  have "case try_evaluate sample_ext sample_audit_rules ?i 10000 of Inr (MAudit acts ta) \<Rightarrow> True | _ \<Rightarrow> False"
    by code_simp
  then obtain acts ta where ev: "try_evaluate sample_ext sample_audit_rules ?i 10000 = Inr (MAudit acts ta)"
    by (auto split: sum.splits match_outcome.splits)
  have h: "si_tx_hash ?i = 7" by (simp add: sample_input_def)
  have fresh: "pool_get (sh_pool ?s) (si_tx_hash ?i) = None"
    by (simp add: spawn_shared_def pool_default_def pool_get_def)
  define s1 where "s1 = buffer_audit sample_ext 1000 ?i sample_audit_rules acts ta ?s"
  have lim: "fc_max_event_bindings_per_tx (sh_config ?s) = 10000"
    by (simp add: spawn_shared_def default_config_def)
  have first: "screen_tx sample_ext 1000 ?i ?s = (ScAuditPending, s1)"
    using ev fresh lim by (simp add: screen_tx_def snapshot_entry_None [THEN iffD2] Let_def current_rules_def s1_def)
  let ?e0 = "(new_entry sample_ext 1000 ?i sample_audit_rules acts ta)\<lparr>be_generation := 1\<rparr>"
  have p1: "pool_get (sh_pool s1) 7 = Some ?e0" and n1: "bp_next_generation (sh_pool s1) = 1"
    by (simp_all add: s1_def buffer_audit_def spawn_shared_def pool_default_def pool_insert_def
        pool_contains_def pool_get_def put_def Let_def new_entry_def sample_input_def)
  have "parse_hash sample_ext sample_hash_string = Some 7" by code_simp
  with approval_path [OF p1, of sample_ext sample_hash_string 1003 default_config]
  obtain p2 e2 where p2: "(pool_step_nowrap sample_ext default_config)\<^sup>*\<^sup>* (sh_pool s1) p2"
    "pool_get p2 7 = Some e2" "be_status e2 = Approved" "be_generation e2 = 1"
    by (auto simp: new_entry_def default_config_def from_secs_def as_secs_def)
  have env: "(env_step sample_ext)\<^sup>*\<^sup>* s1 (set_pool p2 s1)"
    by (rule pool_steps_env) (use p2(1) in \<open>simp add: s1_def buffer_audit_def spawn_shared_def\<close>)
  have reach: "pool_reachable_nowrap sample_ext (sh_config ?s) (sh_pool ?s)"
    by (simp add: pool_reachable_nowrap_def spawn_shared_def)
  have wrap: "bp_next_generation (sh_pool ?s) \<le> bp_next_generation (sh_pool s1)"
    by (simp add: spawn_shared_def pool_default_def n1)
  have "pool_get (sh_pool (set_pool p2 s1)) (si_tx_hash ?i) = Some e2" "be_generation e2 = bp_next_generation (sh_pool s1)"
    using p2 n1 by (simp_all add: h)
  from approved_resimulation_releases [OF reach fresh first wrap env this(1) p2(3) this(2)] first env
  show ?thesis by blast
qed
end
