(* ===== verification/Submit_Scheduler.thy ===== *)
theory Submit_Scheduler
  imports Filter_Handle
begin

text \<open>
  Batch submission, \<open>crates/rcs-filter/src/submit.rs\<close>: conflict profiles of the per-height groups,
  the dependency graph of a segment, its execution with bounded concurrency, and the critical
  sections of one group's submission. A \<open>HashSet\<close> is a list without repetitions.
\<close>

section \<open>Groups and their profiles\<close>

type_synonym nonce_key = "address \<times> nat"
type_synonym quota_key = "address \<times> address"

record submit_entry =
  se_tx :: submit_tx
  se_hash :: b256
  se_generation :: u64
  se_origin :: address

record conflict_profile =
  cp_nonce_keys :: "nonce_key list"
  cp_quota_keys :: "quota_key list"
  cp_exclusive :: bool

record submit_group =
  sg_block_height :: nat
  sg_entries :: "submit_entry list"
  sg_profile :: conflict_profile

record submit_node =
  sn_group :: "submit_group option"
  sn_remaining_predecessors :: nat
  sn_successors :: "nat list"

datatype execution_segment = Normal "submit_node list" | Exclusive submit_group

definition address_param :: "ext \<Rightarrow> (string, json) btmap \<Rightarrow> string \<Rightarrow> address option" where
  "address_param E params name =
     Option.bind (Option.bind (map_of params name) as_str) (address_from_str E)"

definition uint_param :: "ext \<Rightarrow> (string, json) btmap \<Rightarrow> string \<Rightarrow> bool" where
  "uint_param E params name \<longleftrightarrow>
     Option.bind (Option.bind (map_of params name) as_str) (u256_from_str E) \<noteq> None"

definition matching_uint_arrays :: "ext \<Rightarrow> (string, json) btmap \<Rightarrow> string \<Rightarrow> string \<Rightarrow> bool" where
  "matching_uint_arrays E params left right =
     (case (Option.bind (map_of params left) as_array, Option.bind (map_of params right) as_array) of
        (Some ls, Some rs) \<Rightarrow> ls \<noteq> [] \<and> length ls = length rs \<and>
          list_all (\<lambda>v. Option.bind (as_str v) (u256_from_str E) \<noteq> None) (ls @ rs)
      | _ \<Rightarrow> False)"

definition known_quota_recipient :: "ext \<Rightarrow> (string, json) btmap \<Rightarrow> address option" where
  "known_quota_recipient E params = (case address_param E params ''to'' of
       None \<Rightarrow> None
     | Some to_addr \<Rightarrow>
         (let known_shape =
            (if length params = 3 then address_param E params ''from'' \<noteq> None \<and> uint_param E params ''value''
             else if length params = 5 \<and> address_param E params ''operator'' \<noteq> None \<and>
                     address_param E params ''from'' \<noteq> None
             then uint_param E params ''id'' \<and> uint_param E params ''value'' \<or>
                  matching_uint_arrays E params ''ids'' ''values''
             else False)
          in if known_shape then Some to_addr else None))"

definition profile_item :: "ext \<Rightarrow> action_item \<Rightarrow> conflict_profile \<Rightarrow> conflict_profile" where
  "profile_item E item pr = (case known_quota_recipient E (it_params item) of
       None \<Rightarrow> pr\<lparr>cp_exclusive := True\<rparr>
     | Some to_addr \<Rightarrow> (case address_from_str E (it_address item) of
           None \<Rightarrow> pr\<lparr>cp_exclusive := True\<rparr>
         | Some token \<Rightarrow> pr\<lparr>cp_quota_keys := List.insert (to_addr, token) (cp_quota_keys pr)\<rparr>))"

definition profile_entry :: "ext \<Rightarrow> submit_entry \<Rightarrow> conflict_profile \<Rightarrow> conflict_profile" where
  "profile_entry E en pr0 =
     (let pr = pr0\<lparr>cp_nonce_keys := List.insert (se_origin en, st_nonce (se_tx en)) (cp_nonce_keys pr0)\<rparr> in
      if st_actions (se_tx en) = [] then pr\<lparr>cp_exclusive := True\<rparr>
      else fold (\<lambda>(t, items) pr. if t \<noteq> ''quota'' \<or> items = [] then pr\<lparr>cp_exclusive := True\<rparr>
                                 else fold (profile_item E) items pr) (st_actions (se_tx en)) pr)"

definition profile_entries :: "ext \<Rightarrow> submit_entry list \<Rightarrow> conflict_profile" where
  "profile_entries E entries =
     fold (profile_entry E) entries \<lparr>cp_nonce_keys = [], cp_quota_keys = [], cp_exclusive = False\<rparr>"

definition submit_group_new :: "ext \<Rightarrow> nat \<Rightarrow> submit_entry list \<Rightarrow> submit_group" where
  "submit_group_new E height entries =
     \<lparr>sg_block_height = height, sg_entries = entries, sg_profile = profile_entries E entries\<rparr>"

section \<open>The schedule\<close>

record build_state =
  bs_nodes :: "submit_node list"
  bs_last_nonce :: "(nonce_key, nat) hmap"
  bs_last_quota :: "(quota_key, nat) hmap"

definition predecessors_of :: "submit_group \<Rightarrow> build_state \<Rightarrow> nat list" where
  "predecessors_of g st = sorted_list_of_set (set
     (List.map_filter (map_of (bs_last_nonce st)) (cp_nonce_keys (sg_profile g)) @
      List.map_filter (map_of (bs_last_quota st)) (cp_quota_keys (sg_profile g))))"

definition add_successor :: "nat \<Rightarrow> nat \<Rightarrow> submit_node list \<Rightarrow> submit_node list" where
  "add_successor index pred nodes = nodes[pred := (nodes ! pred)\<lparr>sn_successors := sn_successors (nodes ! pred) @ [index]\<rparr>]"

definition add_group :: "submit_group \<Rightarrow> build_state \<Rightarrow> build_state" where
  "add_group g st =
     (let preds = predecessors_of g st;
          index = length (bs_nodes st);
          nodes = bs_nodes st @ [\<lparr>sn_group = Some g, sn_remaining_predecessors = length preds, sn_successors = []\<rparr>]
      in \<lparr>bs_nodes = fold (add_successor index) preds nodes,
          bs_last_nonce = fold (\<lambda>k m. AList.update k index m) (cp_nonce_keys (sg_profile g)) (bs_last_nonce st),
          bs_last_quota = fold (\<lambda>k m. AList.update k index m) (cp_quota_keys (sg_profile g)) (bs_last_quota st)\<rparr>)"

definition build_normal_nodes :: "submit_group list \<Rightarrow> submit_node list" where
  "build_normal_nodes groups =
     bs_nodes (fold add_group groups \<lparr>bs_nodes = [], bs_last_nonce = [], bs_last_quota = []\<rparr>)"

fun schedule_loop :: "submit_group list \<Rightarrow> submit_group list \<Rightarrow> execution_segment list" where
  "schedule_loop normal [] = (if normal \<noteq> [] then [Normal (build_normal_nodes normal)] else [])"
| "schedule_loop normal (g # gs) =
     (if cp_exclusive (sg_profile g)
      then (if normal \<noteq> [] then [Normal (build_normal_nodes normal)] else []) @
           Exclusive g # schedule_loop [] gs
      else schedule_loop (normal @ [g]) gs)"

definition build_submit_schedule :: "submit_group list \<Rightarrow> execution_segment list" where
  "build_submit_schedule groups = schedule_loop [] groups"

section \<open>Running a segment\<close>

text \<open>
  \<open>ready\<close> holds \<open>(height, index)\<close> pairs and is popped at the least one; \<open>active\<close> are the requests
  in flight. Taking the group out of a node and decrementing its counter are the operations that
  could fail in the code; \<open>None\<close> is that failure.
\<close>

record segment_state =
  sx_nodes :: "submit_node list"
  sx_ready :: "(nat \<times> nat) list"
  sx_active :: "nat list"
  sx_errors :: "(nat \<times> filter_error) list"
  sx_completed :: nat

definition pop_ready :: "(nat \<times> nat) list \<Rightarrow> ((nat \<times> nat) \<times> (nat \<times> nat) list) option" where
  "pop_ready rs = (if rs = [] then None
     else let m = fold (\<lambda>(h, i) (h', i'). if h < h' \<or> h = h' \<and> i < i' then (h, i) else (h', i')) (tl rs) (hd rs)
          in Some (m, remove1 m rs))"

definition start_node :: "nat \<Rightarrow> segment_state \<Rightarrow> segment_state option" where
  "start_node i st = (case sn_group (sx_nodes st ! i) of
       None \<Rightarrow> None
     | Some g \<Rightarrow> Some (st\<lparr>sx_nodes := (sx_nodes st)[i := (sx_nodes st ! i)\<lparr>sn_group := None\<rparr>],
                         sx_active := sx_active st @ [i]\<rparr>))"

lemma length_remove1_less: "x \<in> set xs \<Longrightarrow> length (remove1 x xs) < length xs"
  by (induction xs) auto

lemma pop_ready_length: "pop_ready rs = Some (m, rs') \<Longrightarrow> m \<in> set rs \<and> length rs' < length rs"
proof -
  have "fold (\<lambda>(h, i) (h', i'). if h < h' \<or> h = h' \<and> i < i' then (h, i) else (h', i')) xs (x :: nat \<times> nat)
      \<in> insert x (set xs)" for xs x
    by (induction xs arbitrary: x) (auto split: prod.splits)
  note * = this [of "tl rs" "hd rs"]
  assume "pop_ready rs = Some (m, rs')"
  then have "rs \<noteq> []" and rs': "rs' = remove1 m rs"
    and "m = fold (\<lambda>(h, i) (h', i'). if h < h' \<or> h = h' \<and> i < i' then (h, i) else (h', i')) (tl rs) (hd rs)"
    by (auto simp: pop_ready_def Let_def split: if_splits)
  with * have "m \<in> set rs" by (metis list.collapse list.simps(15))
  then show "m \<in> set rs \<and> length rs' < length rs" using rs' length_remove1_less [of m rs] by simp
qed

function fill_active :: "nat \<Rightarrow> segment_state \<Rightarrow> segment_state option" where
  "fill_active max_concurrency st =
     (if length (sx_active st) < max_concurrency then
        (case pop_ready (sx_ready st) of
           None \<Rightarrow> Some st
         | Some ((h, i), rest) \<Rightarrow>
             (case start_node i (st\<lparr>sx_ready := rest\<rparr>) of
                None \<Rightarrow> None
              | Some st' \<Rightarrow> fill_active max_concurrency st'))
      else Some st)"
  by pat_completeness auto
termination
  by (relation "measure (\<lambda>(m, st). length (sx_ready st))")
    (auto simp: start_node_def dest!: pop_ready_length split: option.splits)

declare fill_active.simps [simp del]

fun release_successors :: "nat list \<Rightarrow> segment_state \<Rightarrow> segment_state option" where
  "release_successors [] st = Some st"
| "release_successors (j # js) st =
     (let node = sx_nodes st ! j; n = sn_remaining_predecessors node in
      if n = 0 then None
      else
        let st' = st\<lparr>sx_nodes := (sx_nodes st)[j := node\<lparr>sn_remaining_predecessors := n - 1\<rparr>]\<rparr> in
        if n - 1 = 0 then
          (case sn_group node of
             None \<Rightarrow> None
           | Some g \<Rightarrow> release_successors js (st'\<lparr>sx_ready := (sg_block_height g, j) # sx_ready st'\<rparr>))
        else release_successors js st')"

definition initial_ready :: "submit_node list \<Rightarrow> (nat \<times> nat) list option" where
  "initial_ready nodes =
     collect_some (map (\<lambda>(i, node). map_option (\<lambda>g. (sg_block_height g, i)) (sn_group node))
       (filter (\<lambda>(i, node). sn_remaining_predecessors node = 0) (List.enumerate 0 nodes)))"

definition segment_start :: "nat \<Rightarrow> submit_node list \<Rightarrow> segment_state option" where
  "segment_start max_concurrency nodes = (case initial_ready nodes of
       None \<Rightarrow> None
     | Some ready \<Rightarrow> fill_active max_concurrency
         \<lparr>sx_nodes = nodes, sx_ready = ready, sx_active = [], sx_errors = [], sx_completed = 0\<rparr>)"

text \<open>The body of the loop when the request of node \<open>i\<close> (at height \<open>h\<close>) finishes with \<open>result\<close>.\<close>

definition segment_complete :: "nat \<Rightarrow> nat \<Rightarrow> nat \<Rightarrow> filter_error + unit \<Rightarrow> segment_state \<Rightarrow> segment_state option" where
  "segment_complete max_concurrency i h result st =
     (let st1 = st\<lparr>sx_active := remove1 i (sx_active st), sx_completed := Suc (sx_completed st),
                   sx_errors := sx_errors st @ (case result of Inl e \<Rightarrow> [(h, e)] | Inr _ \<Rightarrow> [])\<rparr>;
          successors = sn_successors (sx_nodes st1 ! i);
          st2 = st1\<lparr>sx_nodes := (sx_nodes st1)[i := (sx_nodes st1 ! i)\<lparr>sn_successors := []\<rparr>]\<rparr>
      in case release_successors successors st2 of
           None \<Rightarrow> None
         | Some st3 \<Rightarrow> fill_active max_concurrency st3)"

inductive segment_step :: "nat \<Rightarrow> segment_state \<Rightarrow> segment_state option \<Rightarrow> bool" for max_concurrency where
  complete: "i \<in> set (sx_active st) \<Longrightarrow>
    segment_step max_concurrency st (segment_complete max_concurrency i h result st)"

section \<open>Submitting\<close>

text \<open>The first critical section of \<open>submit_once\<close>: expire, then group what is not submitted by height.\<close>

definition submit_tx_of :: "ext \<Rightarrow> buffer_entry \<Rightarrow> submit_entry" where
  "submit_tx_of E e = \<lparr>se_tx = \<lparr>st_tx_hash = b256_lower_hex E (be_tx_hash e),
       st_origin = address_lower_hex E (be_origin e),
       st_contract_address = address_lower_hex E (be_contract_address e),
       st_nonce = be_nonce e, st_actions = be_actions e\<rparr>,
     se_hash = be_tx_hash e, se_generation = be_generation e, se_origin = be_origin e\<rparr>"

definition group_by_height :: "ext \<Rightarrow> buffer_pool \<Rightarrow> (nat, submit_entry list) btmap" where
  "group_by_height E p =
     fold (\<lambda>h m. case pool_get p h of
             None \<Rightarrow> m
           | Some e \<Rightarrow> bt_alter (be_block_height e)
               (\<lambda>o1. (case o1 of None \<Rightarrow> [] | Some es \<Rightarrow> es) @ [submit_tx_of E e]) m) (not_submitted p) []"

definition expire :: "nat \<Rightarrow> shared \<Rightarrow> shared" where
  "expire now sh = (case resolve_total_timeouts (sh_config sh) now (sh_pool sh) of (expired, p) \<Rightarrow>
     let sh' = emit_timeout_resolutions expired (set_pool p sh)
     in if expired \<noteq> [] then update_buffer_metric sh' else sh')"

definition submit_collect :: "ext \<Rightarrow> nat \<Rightarrow> shared \<Rightarrow> execution_segment list \<times> shared" where
  "submit_collect E now sh =
     (let p = snd (resolve_total_timeouts (sh_config sh) now (sh_pool sh));
          groups = map (\<lambda>(h, es). submit_group_new E h es) (group_by_height E p)
      in (build_submit_schedule groups, expire now sh))"

text \<open>\<open>submit_group\<close> up to the request: the request body and the generations it was built from.\<close>

definition submit_group_begin :: "nat \<Rightarrow> submit_group \<Rightarrow> shared
    \<Rightarrow> (submit_request \<times> (b256, u64) hmap) option \<times> shared" where
  "submit_group_begin now g sh =
     (let p = snd (resolve_total_timeouts (sh_config sh) now (sh_pool sh));
          entries = filter (\<lambda>en. pool_matches p (se_hash en) (se_generation en) NotSubmitted) (sg_entries g)
      in (if entries = [] then None
          else Some (\<lparr>sr_xlayer_block_height = sg_block_height g, sr_txs = map se_tx entries\<rparr>,
                     fold (\<lambda>en m. AList.update (se_hash en) (se_generation en) m) entries []),
          expire now sh))"

text \<open>\<open>submit_group\<close> from the response on.\<close>

definition submit_group_finish :: "ext \<Rightarrow> nat \<Rightarrow> (b256, u64) hmap \<Rightarrow> filter_error + submit_response \<Rightarrow> shared
    \<Rightarrow> (filter_error + unit) \<times> shared" where
  "submit_group_finish E now expected result sh =
     (let sh = record_request ReSubmit result sh in
      case result of
        Inl e \<Rightarrow> (Inl e, expire now sh)
      | Inr resp \<Rightarrow>
          (case apply_submit_response E (accepted resp) expected (sh_config sh) now (sh_pool sh) of
             (expired, p) \<Rightarrow>
               (Inr (), update_buffer_metric (emit_timeout_resolutions expired (set_pool p sh)))))"

text \<open>The error that \<open>submit_once\<close> reports: the first one among those of the least height.\<close>

fun min_by_height :: "(nat \<times> filter_error) list \<Rightarrow> (nat \<times> filter_error) option" where
  "min_by_height [] = None"
| "min_by_height (x # xs) = (case min_by_height xs of
       None \<Rightarrow> Some x | Some y \<Rightarrow> if fst x \<le> fst y then Some x else Some y)"

definition submit_outcome :: "(nat \<times> filter_error) list \<Rightarrow> filter_error + unit" where
  "submit_outcome errors = (case min_by_height errors of None \<Rightarrow> Inr () | Some (h, e) \<Rightarrow> Inl e)"


section \<open>The dependency graph\<close>

definition shares_key :: "submit_group \<Rightarrow> submit_group \<Rightarrow> bool" where
  "shares_key a b \<longleftrightarrow>
     set (cp_nonce_keys (sg_profile a)) \<inter> set (cp_nonce_keys (sg_profile b)) \<noteq> {} \<or>
     set (cp_quota_keys (sg_profile a)) \<inter> set (cp_quota_keys (sg_profile b)) \<noteq> {}"

definition edges :: "submit_node list \<Rightarrow> (nat \<times> nat) set" where
  "edges nodes = {(i, j). i < length nodes \<and> j \<in> set (sn_successors (nodes ! i))}"

definition last_ok :: "(submit_group \<Rightarrow> 'k list) \<Rightarrow> submit_group list \<Rightarrow> ('k, nat) hmap \<Rightarrow> bool" where
  "last_ok keys gs m \<longleftrightarrow> (\<forall>k. case map_of m k of
       None \<Rightarrow> \<forall>i < length gs. k \<notin> set (keys (gs ! i))
     | Some i \<Rightarrow> i < length gs \<and> k \<in> set (keys (gs ! i)) \<and>
                 (\<forall>j. i < j \<and> j < length gs \<longrightarrow> k \<notin> set (keys (gs ! j))))"

definition graph_ok :: "submit_group list \<Rightarrow> submit_node list \<Rightarrow> bool" where
  "graph_ok gs nodes \<longleftrightarrow>
     length nodes = length gs \<and>
     (\<forall>i < length gs. sn_group (nodes ! i) = Some (gs ! i) \<and> distinct (sn_successors (nodes ! i))) \<and>
     (\<forall>(i, j) \<in> edges nodes. i < j \<and> j < length gs) \<and>
     (\<forall>j < length gs. sn_remaining_predecessors (nodes ! j) = card {i. (i, j) \<in> edges nodes}) \<and>
     (\<forall>i j. i < j \<and> j < length gs \<and> shares_key (gs ! i) (gs ! j) \<longrightarrow> (i, j) \<in> (edges nodes)\<^sup>+)"

lemma graph_okD:
  assumes "graph_ok gs nodes"
  shows "length nodes = length gs"
    and "i < length gs \<Longrightarrow> sn_group (nodes ! i) = Some (gs ! i)"
    and "i < length gs \<Longrightarrow> distinct (sn_successors (nodes ! i))"
    and "(i, j) \<in> edges nodes \<Longrightarrow> i < j \<and> j < length gs"
    and "j < length gs \<Longrightarrow> sn_remaining_predecessors (nodes ! j) = card {i. (i, j) \<in> edges nodes}"
    and "i < j \<Longrightarrow> j < length gs \<Longrightarrow> shares_key (gs ! i) (gs ! j) \<Longrightarrow> (i, j) \<in> (edges nodes)\<^sup>+"
  using assms unfolding graph_ok_def by blast+

definition build_inv :: "submit_group list \<Rightarrow> build_state \<Rightarrow> bool" where
  "build_inv gs st \<longleftrightarrow> graph_ok gs (bs_nodes st) \<and>
     last_ok (\<lambda>g. cp_nonce_keys (sg_profile g)) gs (bs_last_nonce st) \<and>
     last_ok (\<lambda>g. cp_quota_keys (sg_profile g)) gs (bs_last_quota st)"

lemma map_of_fold_update:
  "map_of (fold (\<lambda>k m. AList.update k v m) ks m) k = (if k \<in> set ks then Some v else map_of m k)"
  by (induction ks arbitrary: m) (auto simp: alist_simps)

lemma last_ok_add:
  assumes "last_ok keys gs m"
  shows "last_ok keys (gs @ [g]) (fold (\<lambda>k m. AList.update k (length gs) m) (keys g) m)"
  unfolding last_ok_def map_of_fold_update
proof
  fix k
  have ok: "case map_of m k of
       None \<Rightarrow> \<forall>i < length gs. k \<notin> set (keys (gs ! i))
     | Some i \<Rightarrow> i < length gs \<and> k \<in> set (keys (gs ! i)) \<and>
                 (\<forall>j. i < j \<and> j < length gs \<longrightarrow> k \<notin> set (keys (gs ! j)))"
    using assms by (simp add: last_ok_def)
  show "case if k \<in> set (keys g) then Some (length gs) else map_of m k of
       None \<Rightarrow> \<forall>i < length (gs @ [g]). k \<notin> set (keys ((gs @ [g]) ! i))
     | Some i \<Rightarrow> i < length (gs @ [g]) \<and> k \<in> set (keys ((gs @ [g]) ! i)) \<and>
                 (\<forall>j. i < j \<and> j < length (gs @ [g]) \<longrightarrow> k \<notin> set (keys ((gs @ [g]) ! j)))"
  proof (cases "k \<in> set (keys g)")
    case False
    with ok show ?thesis by (cases "map_of m k") (auto simp: nth_append less_Suc_eq)
  qed (auto simp: nth_append)
qed

lemma fold_add_successor:
  assumes "distinct preds" "\<forall>p \<in> set preds. p < length nodes"
  shows "length (fold (add_successor ix) preds nodes) = length nodes \<and>
    (\<forall>i < length nodes. fold (add_successor ix) preds nodes ! i =
      (if i \<in> set preds then (nodes ! i)\<lparr>sn_successors := sn_successors (nodes ! i) @ [ix]\<rparr> else nodes ! i))"
  using assms
proof (induction preds arbitrary: nodes)
  case (Cons p ps)
  have len: "length (add_successor ix p nodes) = length nodes" by (simp add: add_successor_def)
  from Cons.IH [of "add_successor ix p nodes"] Cons.prems len show ?case
    by (auto simp: add_successor_def nth_list_update)
qed simp

lemma set_map_filter: "set (List.map_filter f xs) = {y. \<exists>x \<in> set xs. f x = Some y}"
  by (force simp: List.map_filter_def)

lemma last_okD:
  assumes "last_ok keys gs m"
  shows "map_of m k = Some i \<Longrightarrow> i < length gs \<and> k \<in> set (keys (gs ! i))"
    and "j < length gs \<Longrightarrow> k \<in> set (keys (gs ! j)) \<Longrightarrow> \<exists>i. map_of m k = Some i \<and> j \<le> i"
proof -
  have *: "case map_of m k of
       None \<Rightarrow> \<forall>i < length gs. k \<notin> set (keys (gs ! i))
     | Some i \<Rightarrow> i < length gs \<and> k \<in> set (keys (gs ! i)) \<and>
                 (\<forall>j. i < j \<and> j < length gs \<longrightarrow> k \<notin> set (keys (gs ! j)))"
    using assms by (simp add: last_ok_def)
  show "map_of m k = Some i \<Longrightarrow> i < length gs \<and> k \<in> set (keys (gs ! i))" using * by simp
  show "j < length gs \<Longrightarrow> k \<in> set (keys (gs ! j)) \<Longrightarrow> \<exists>i. map_of m k = Some i \<and> j \<le> i"
    using * by (auto simp: not_less [symmetric] split: option.splits)
qed

lemma predecessors_of_set:
  "set (predecessors_of g st) =
     {i. (\<exists>k \<in> set (cp_nonce_keys (sg_profile g)). map_of (bs_last_nonce st) k = Some i) \<or>
         (\<exists>k \<in> set (cp_quota_keys (sg_profile g)). map_of (bs_last_quota st) k = Some i)}"
  "distinct (predecessors_of g st)"
proof -
  have "set (predecessors_of g st) = set (List.map_filter (map_of (bs_last_nonce st)) (cp_nonce_keys (sg_profile g)) @
      List.map_filter (map_of (bs_last_quota st)) (cp_quota_keys (sg_profile g)))"
    unfolding predecessors_of_def by (rule set_sorted_list_of_set) simp
  then show "set (predecessors_of g st) =
     {i. (\<exists>k \<in> set (cp_nonce_keys (sg_profile g)). map_of (bs_last_nonce st) k = Some i) \<or>
         (\<exists>k \<in> set (cp_quota_keys (sg_profile g)). map_of (bs_last_quota st) k = Some i)}"
    by (simp only: set_append set_map_filter Un_def mem_Collect_eq)
  show "distinct (predecessors_of g st)" by (simp add: predecessors_of_def)
qed

lemma predecessors_lt:
  assumes "build_inv gs st" "p \<in> set (predecessors_of g st)"
  shows "p < length gs"
proof -
  have ok: "last_ok (\<lambda>g. cp_nonce_keys (sg_profile g)) gs (bs_last_nonce st)"
    "last_ok (\<lambda>g. cp_quota_keys (sg_profile g)) gs (bs_last_quota st)"
    using assms(1) by (simp_all add: build_inv_def)
  from assms(2) last_okD(1) [OF ok(1)] last_okD(1) [OF ok(2)] show ?thesis
    by (auto simp: predecessors_of_set)
qed

lemma add_group_edges:
  assumes "build_inv gs st"
  shows "edges (bs_nodes (add_group g st)) =
      edges (bs_nodes st) \<union> {(p, length gs) | p. p \<in> set (predecessors_of g st)}"
    and "length (bs_nodes (add_group g st)) = Suc (length gs)"
    and "i \<le> length gs \<Longrightarrow> sn_group (bs_nodes (add_group g st) ! i) = Some ((gs @ [g]) ! i)"
    and "i \<le> length gs \<Longrightarrow> distinct (sn_successors (bs_nodes (add_group g st) ! i))"
    and "i \<le> length gs \<Longrightarrow> sn_remaining_predecessors (bs_nodes (add_group g st) ! i) =
      (if i = length gs then length (predecessors_of g st) else sn_remaining_predecessors (bs_nodes st ! i))"
proof -
  let ?new = "\<lparr>sn_group = Some g, sn_remaining_predecessors = length (predecessors_of g st), sn_successors = []\<rparr>"
  let ?nodes = "bs_nodes st @ [?new]"
  have ok: "graph_ok gs (bs_nodes st)" using assms by (simp add: build_inv_def)
  have len: "length (bs_nodes st) = length gs" using ok by (rule graph_okD)
  note lt = predecessors_lt [OF assms]
  have nodes: "bs_nodes (add_group g st) = fold (add_successor (length gs)) (predecessors_of g st) ?nodes"
    by (simp add: add_group_def Let_def len)
  have *: "length (bs_nodes (add_group g st)) = Suc (length gs) \<and>
    (\<forall>i < Suc (length gs). bs_nodes (add_group g st) ! i =
      (if i \<in> set (predecessors_of g st)
       then (?nodes ! i)\<lparr>sn_successors := sn_successors (?nodes ! i) @ [length gs]\<rparr> else ?nodes ! i))"
    using fold_add_successor [OF predecessors_of_set(2) [of g st], of ?nodes "length gs"] lt
    unfolding nodes by (force simp: len)
  then show l: "length (bs_nodes (add_group g st)) = Suc (length gs)" by simp
  have at: "i < Suc (length gs) \<Longrightarrow> bs_nodes (add_group g st) ! i =
      (if i \<in> set (predecessors_of g st)
       then (?nodes ! i)\<lparr>sn_successors := sn_successors (?nodes ! i) @ [length gs]\<rparr> else ?nodes ! i)" for i
    using * by simp
  have new: "length gs \<notin> set (predecessors_of g st)" using lt by blast
  have old: "length gs \<notin> set (sn_successors (bs_nodes st ! i))" if "i < length gs" for i
    using graph_okD(4) [OF ok, of i "length gs"] that len by (auto simp: edges_def)
  show "edges (bs_nodes (add_group g st)) =
      edges (bs_nodes st) \<union> {(p, length gs) | p. p \<in> set (predecessors_of g st)}"
  proof (rule set_eqI, clarify)
    fix i j
    show "(i, j) \<in> edges (bs_nodes (add_group g st)) \<longleftrightarrow>
        (i, j) \<in> edges (bs_nodes st) \<union> {(p, length gs) | p. p \<in> set (predecessors_of g st)}"
    proof (cases "i < length gs")
      case True
      then show ?thesis by (simp add: edges_def l at len nth_append) blast
    next
      case False
      have "i \<notin> set (predecessors_of g st)" using False lt by blast
      with False show ?thesis
        by (cases "i = length gs") (simp_all add: edges_def l at len nth_append)
    qed
  qed
  show "i \<le> length gs \<Longrightarrow> sn_group (bs_nodes (add_group g st) ! i) = Some ((gs @ [g]) ! i)"
    using graph_okD(2) [OF ok] by (auto simp: at nth_append len le_less)
  show "i \<le> length gs \<Longrightarrow> distinct (sn_successors (bs_nodes (add_group g st) ! i))"
    using graph_okD(3) [OF ok] old by (auto simp: at nth_append len le_less)
  show "i \<le> length gs \<Longrightarrow> sn_remaining_predecessors (bs_nodes (add_group g st) ! i) =
      (if i = length gs then length (predecessors_of g st) else sn_remaining_predecessors (bs_nodes st ! i))"
    using new by (auto simp: at nth_append len le_less)
qed

lemma pred_path:
  assumes inv: "build_inv gs st" and i: "i < length gs" and sh: "shares_key (gs ! i) g"
  shows "\<exists>p \<in> set (predecessors_of g st). i = p \<or> (i, p) \<in> (edges (bs_nodes st))\<^sup>+"
proof -
  have path: "i = p \<or> (i, p) \<in> (edges (bs_nodes st))\<^sup>+" if "i \<le> p" "p < length gs" "shares_key (gs ! i) (gs ! p)" for p
    using graph_okD(6) [of gs "bs_nodes st" i p] inv that by (auto simp: build_inv_def le_less)
  from sh consider (nonce) k where "k \<in> set (cp_nonce_keys (sg_profile (gs ! i)))" "k \<in> set (cp_nonce_keys (sg_profile g))"
    | (quota) k where "k \<in> set (cp_quota_keys (sg_profile (gs ! i)))" "k \<in> set (cp_quota_keys (sg_profile g))"
    by (auto simp: shares_key_def)
  then show ?thesis
  proof cases
    case nonce
    note ok = inv [unfolded build_inv_def, THEN conjunct2, THEN conjunct1]
    obtain p where p: "map_of (bs_last_nonce st) k = Some p" "i \<le> p"
      using last_okD(2) [OF ok i] nonce by blast
    with last_okD(1) [OF ok p(1)] nonce path [of p] show ?thesis
      by (auto simp: predecessors_of_set shares_key_def)
  next
    case quota
    note ok = inv [unfolded build_inv_def, THEN conjunct2, THEN conjunct2]
    obtain p where p: "map_of (bs_last_quota st) k = Some p" "i \<le> p"
      using last_okD(2) [OF ok i] quota by blast
    with last_okD(1) [OF ok p(1)] quota path [of p] show ?thesis
      by (auto simp: predecessors_of_set shares_key_def)
  qed
qed

lemma graph_ok_add:
  assumes inv: "build_inv gs st"
  shows "graph_ok (gs @ [g]) (bs_nodes (add_group g st))"
proof -
  note E = add_group_edges [OF inv, where g = g]
  note lt = predecessors_lt [OF inv]
  have ok: "graph_ok gs (bs_nodes st)" using inv by (simp add: build_inv_def)
  note old = graph_okD(4) [OF ok]
  have card_new: "card {i. (i, length gs) \<in> edges (bs_nodes (add_group g st))} = length (predecessors_of g st)"
  proof -
    have "{i. (i, length gs) \<in> edges (bs_nodes (add_group g st))} = set (predecessors_of g st)"
      using old by (auto simp: E)
    then show ?thesis using predecessors_of_set(2) by (simp add: distinct_card)
  qed
  have card_old: "{i. (i, j) \<in> edges (bs_nodes (add_group g st))} = {i. (i, j) \<in> edges (bs_nodes st)}"
    if "j < length gs" for j
    using that by (auto simp: E)
  have mono: "(edges (bs_nodes st))\<^sup>+ \<subseteq> (edges (bs_nodes (add_group g st)))\<^sup>+"
    by (rule trancl_mono_subset) (simp add: E)
  have path: "(i, j) \<in> (edges (bs_nodes (add_group g st)))\<^sup>+"
    if "i < j" "j \<le> length gs" "shares_key ((gs @ [g]) ! i) ((gs @ [g]) ! j)" for i j
  proof (cases "j = length gs")
    case True
    with that pred_path [OF inv, of i g] obtain p where p: "p \<in> set (predecessors_of g st)"
      "i = p \<or> (i, p) \<in> (edges (bs_nodes st))\<^sup>+" by (auto simp: nth_append)
    then have "(p, j) \<in> edges (bs_nodes (add_group g st))" using True by (simp add: E)
    with p mono show ?thesis by (auto intro: trancl_into_trancl)
  next
    case False
    with that graph_okD(6) [OF ok, of i j] have "(i, j) \<in> (edges (bs_nodes st))\<^sup>+"
      by (auto simp: nth_append)
    with mono show ?thesis by blast
  qed
  have rem: "sn_remaining_predecessors (bs_nodes (add_group g st) ! j) =
      card {i. (i, j) \<in> edges (bs_nodes (add_group g st))}" if "j \<le> length gs" for j
    using that E(5) card_new card_old graph_okD(5) [OF ok, of j] by (cases "j = length gs") auto
  have bound: "i < j \<and> j < length (gs @ [g])" if "(i, j) \<in> edges (bs_nodes (add_group g st))" for i j
    using that old lt unfolding E(1) by fastforce
  show ?thesis
    unfolding graph_ok_def using E(2-4) rem bound path by (auto simp: less_Suc_eq_le)
qed

lemma build_inv_add: "build_inv gs st \<Longrightarrow> build_inv (gs @ [g]) (add_group g st)"
proof -
  assume inv: "build_inv gs st"
  have len: "length (bs_nodes st) = length gs"
    using inv graph_okD(1) by (auto simp: build_inv_def)
  show "build_inv (gs @ [g]) (add_group g st)"
    unfolding build_inv_def
  proof (intro conjI)
    show "graph_ok (gs @ [g]) (bs_nodes (add_group g st))" using inv by (rule graph_ok_add)
    show "last_ok (\<lambda>g. cp_nonce_keys (sg_profile g)) (gs @ [g]) (bs_last_nonce (add_group g st))"
      "last_ok (\<lambda>g. cp_quota_keys (sg_profile g)) (gs @ [g]) (bs_last_quota (add_group g st))"
      using inv last_ok_add [of "\<lambda>g. cp_nonce_keys (sg_profile g)" gs _ g]
        last_ok_add [of "\<lambda>g. cp_quota_keys (sg_profile g)" gs _ g]
      by (simp_all add: build_inv_def add_group_def Let_def len)
  qed
qed

lemma build_normal_nodes_ok: "graph_ok groups (build_normal_nodes groups)"
proof -
  have "build_inv (gs @ hs) (fold add_group hs st)" if "build_inv gs st" for gs hs st
    using that
  proof (induction hs arbitrary: gs st)
    case (Cons h hs)
    from Cons.IH [OF build_inv_add [OF Cons.prems, of h]] show ?case by simp
  qed simp
  moreover have "build_inv [] \<lparr>bs_nodes = [], bs_last_nonce = [], bs_last_quota = []\<rparr>"
    by (simp add: build_inv_def graph_ok_def last_ok_def edges_def)
  ultimately have "build_inv ([] @ groups) (fold add_group groups \<lparr>bs_nodes = [], bs_last_nonce = [], bs_last_quota = []\<rparr>)"
    by blast
  then show ?thesis by (simp add: build_normal_nodes_def build_inv_def)
qed

section \<open>Running the graph\<close>

definition waiting_on :: "submit_node list \<Rightarrow> nat set \<Rightarrow> nat \<Rightarrow> nat set" where
  "waiting_on N D j = {i. (i, j) \<in> edges N \<and> i \<notin> D}"

text \<open>
  The state after the nodes in \<open>D\<close> have finished: counters count the unfinished predecessors, the
  ready queue holds exactly the unstarted nodes without any, and whatever has started has all its
  predecessors finished.
\<close>

definition exec_inv :: "submit_node list \<Rightarrow> nat set \<Rightarrow> segment_state \<Rightarrow> bool" where
  "exec_inv N D st \<longleftrightarrow>
     length (sx_nodes st) = length N \<and> D \<subseteq> {..<length N} \<and> sx_completed st = card D \<and>
     distinct (sx_active st) \<and> set (sx_active st) \<subseteq> {..<length N} \<and> set (sx_active st) \<inter> D = {} \<and>
     (\<forall>i < length N. sn_group (sx_nodes st ! i) =
        (if i \<in> set (sx_active st) \<union> D then None else sn_group (N ! i))) \<and>
     (\<forall>i < length N. i \<notin> D \<longrightarrow> sn_successors (sx_nodes st ! i) = sn_successors (N ! i)) \<and>
     (\<forall>j < length N. sn_remaining_predecessors (sx_nodes st ! j) = card (waiting_on N D j)) \<and>
     distinct (map snd (sx_ready st)) \<and>
     snd ` set (sx_ready st) = {j. j < length N \<and> j \<notin> set (sx_active st) \<union> D \<and> waiting_on N D j = {}} \<and>
     (\<forall>j \<in> set (sx_active st) \<union> D. waiting_on N D j = {})"

lemma finite_waiting_on [simp]: "finite (waiting_on N D j)"
  by (rule finite_subset [of _ "{..<length N}"]) (auto simp: waiting_on_def edges_def)

lemma remove1_snd:
  assumes "distinct (map snd rs)" "(h, i) \<in> set rs"
  shows "snd ` set (remove1 (h, i) rs) = snd ` set rs - {i}" "distinct (map snd (remove1 (h, i) rs))"
proof -
  have d: "distinct rs" and inj: "inj_on snd (set rs)" using assms(1) by (simp_all add: distinct_map)
  have s: "set (remove1 (h, i) rs) = set rs - {(h, i)}" using d by simp
  show "snd ` set (remove1 (h, i) rs) = snd ` set rs - {i}"
    unfolding s using inj_on_image_set_diff [OF inj, of "set rs" "{(h, i)}"] assms(2) by simp
  have "inj_on snd (set rs - {(h, i)})" using inj by (rule inj_on_subset) blast
  then show "distinct (map snd (remove1 (h, i) rs))"
    using d s by (simp add: distinct_map)
qed

lemma start_node_ok:
  assumes inv: "exec_inv N D st" and mem: "(h, i) \<in> set (sx_ready st)"
    and groups: "\<forall>i < length N. sn_group (N ! i) \<noteq> None"
  shows "\<exists>st'. start_node i (st\<lparr>sx_ready := remove1 (h, i) (sx_ready st)\<rparr>) = Some st' \<and> exec_inv N D st' \<and>
    sx_active st' = sx_active st @ [i]"
proof -
  have "i \<in> snd ` set (sx_ready st)" using mem by force
  then have i: "i < length N" "i \<notin> set (sx_active st) \<union> D" "waiting_on N D i = {}"
    using inv by (auto simp: exec_inv_def)
  then obtain g where "sn_group (sx_nodes st ! i) = Some g"
    using inv groups by (auto simp: exec_inv_def)
  then have st': "start_node i (st\<lparr>sx_ready := remove1 (h, i) (sx_ready st)\<rparr>) =
      Some (st\<lparr>sx_ready := remove1 (h, i) (sx_ready st),
               sx_nodes := (sx_nodes st)[i := (sx_nodes st ! i)\<lparr>sn_group := None\<rparr>],
               sx_active := sx_active st @ [i]\<rparr>)"
    by (simp add: start_node_def)
  have rd: "distinct (map snd (sx_ready st))" using inv by (simp add: exec_inv_def)
  have "exec_inv N D (st\<lparr>sx_ready := remove1 (h, i) (sx_ready st),
               sx_nodes := (sx_nodes st)[i := (sx_nodes st ! i)\<lparr>sn_group := None\<rparr>],
               sx_active := sx_active st @ [i]\<rparr>)"
    using inv i unfolding exec_inv_def
    by (auto simp: nth_list_update remove1_snd [OF rd mem])
  with st' show ?thesis by simp
qed

lemma fill_active_ok:
  assumes "exec_inv N D st" "\<forall>i < length N. sn_group (N ! i) \<noteq> None" "length (sx_active st) \<le> m"
  shows "\<exists>st'. fill_active m st = Some st' \<and> exec_inv N D st' \<and> length (sx_active st') \<le> m \<and>
    (length (sx_active st') = m \<or> sx_ready st' = [])"
  using assms
proof (induction m st rule: fill_active.induct)
  case (1 m st)
  show ?case
  proof (cases "length (sx_active st) < m")
    case lt: True
    show ?thesis
    proof (cases "pop_ready (sx_ready st)")
      case None
      then have "sx_ready st = []" by (simp add: pop_ready_def Let_def split: if_splits)
      with 1 None show ?thesis by (simp add: fill_active.simps [of m st])
    next
      case (Some x)
      obtain h i rest where x: "x = ((h, i), rest)" by (metis surj_pair)
      have mem: "(h, i) \<in> set (sx_ready st)" and rest: "rest = remove1 (h, i) (sx_ready st)"
        using pop_ready_length [OF Some [unfolded x]] Some
        by (auto simp: x pop_ready_def Let_def split: if_splits)
      obtain st' where st': "start_node i (st\<lparr>sx_ready := rest\<rparr>) = Some st'" "exec_inv N D st'"
        "sx_active st' = sx_active st @ [i]"
        using start_node_ok [OF "1.prems"(1) mem "1.prems"(2)] rest by blast
      have "\<exists>st''. fill_active m st' = Some st'' \<and> exec_inv N D st'' \<and> length (sx_active st'') \<le> m \<and>
          (length (sx_active st'') = m \<or> sx_ready st'' = [])"
        using lt st' "1.prems"(2) by (intro "1.IH" [OF lt Some x [symmetric] refl st'(1)]) simp_all
      then show ?thesis using lt Some x st' by (simp add: fill_active.simps [of m st])
    qed
  next
    case False
    with 1 show ?thesis by (simp add: fill_active.simps [of m st])
  qed
qed

lemma release_successors_ok:
  assumes "distinct js"
    and "\<forall>j \<in> set js. j < length (sx_nodes st) \<and> 0 < sn_remaining_predecessors (sx_nodes st ! j) \<and>
          sn_group (sx_nodes st ! j) \<noteq> None"
    and "distinct (map snd (sx_ready st))" "snd ` set (sx_ready st) \<inter> set js = {}"
  shows "\<exists>st'. release_successors js st = Some st' \<and> length (sx_nodes st') = length (sx_nodes st) \<and>
    (\<forall>k < length (sx_nodes st). sx_nodes st' ! k =
       (if k \<in> set js then (sx_nodes st ! k)\<lparr>sn_remaining_predecessors := sn_remaining_predecessors (sx_nodes st ! k) - 1\<rparr>
        else sx_nodes st ! k)) \<and>
    snd ` set (sx_ready st') = snd ` set (sx_ready st) \<union> {j \<in> set js. sn_remaining_predecessors (sx_nodes st ! j) = 1} \<and>
    distinct (map snd (sx_ready st')) \<and> sx_active st' = sx_active st \<and> sx_completed st' = sx_completed st"
  using assms
proof (induction js arbitrary: st)
  case (Cons j js)
  let ?n = "sn_remaining_predecessors (sx_nodes st ! j)"
  obtain g where g: "sn_group (sx_nodes st ! j) = Some g" using Cons.prems(2) by auto
  define st1 where "st1 = st\<lparr>sx_nodes := (sx_nodes st)[j := (sx_nodes st ! j)\<lparr>sn_remaining_predecessors := ?n - 1\<rparr>]\<rparr>"
  define st2 where "st2 = (if ?n = 1 then st1\<lparr>sx_ready := (sg_block_height g, j) # sx_ready st1\<rparr> else st1)"
  have rel: "release_successors (j # js) st = release_successors js st2"
    using Cons.prems(2) g by (auto simp: Let_def st1_def st2_def)
  have nodes2: "sx_nodes st2 = (sx_nodes st)[j := (sx_nodes st ! j)\<lparr>sn_remaining_predecessors := ?n - 1\<rparr>]"
    and ready2: "sx_ready st2 = (if ?n = 1 then [(sg_block_height g, j)] else []) @ sx_ready st"
    and rest2: "sx_active st2 = sx_active st" "sx_completed st2 = sx_completed st"
    by (simp_all add: st2_def st1_def)
  have "\<forall>k \<in> set js. k < length (sx_nodes st2) \<and> 0 < sn_remaining_predecessors (sx_nodes st2 ! k) \<and>
          sn_group (sx_nodes st2 ! k) \<noteq> None"
    using Cons.prems(1,2) by (auto simp: nodes2 nth_list_update)
  moreover have "distinct (map snd (sx_ready st2))" "snd ` set (sx_ready st2) \<inter> set js = {}"
    using Cons.prems by (auto simp: ready2)
  ultimately obtain st' where st': "release_successors js st2 = Some st'"
    "length (sx_nodes st') = length (sx_nodes st2)"
    "\<forall>k < length (sx_nodes st2). sx_nodes st' ! k =
       (if k \<in> set js then (sx_nodes st2 ! k)\<lparr>sn_remaining_predecessors := sn_remaining_predecessors (sx_nodes st2 ! k) - 1\<rparr>
        else sx_nodes st2 ! k)"
    "snd ` set (sx_ready st') = snd ` set (sx_ready st2) \<union> {j \<in> set js. sn_remaining_predecessors (sx_nodes st2 ! j) = 1}"
    "distinct (map snd (sx_ready st'))" "sx_active st' = sx_active st2" "sx_completed st' = sx_completed st2"
    using Cons.IH [of st2] Cons.prems(1) by auto
  have jn: "j \<notin> set js" "j < length (sx_nodes st)" using Cons.prems by auto
  show ?case
  proof (intro exI [of _ st'] conjI)
    show "release_successors (j # js) st = Some st'" using rel st'(1) by (rule trans)
    show "length (sx_nodes st') = length (sx_nodes st)" using st'(2) by (simp add: nodes2)
    show "\<forall>k < length (sx_nodes st). sx_nodes st' ! k =
       (if k \<in> set (j # js) then (sx_nodes st ! k)\<lparr>sn_remaining_predecessors := sn_remaining_predecessors (sx_nodes st ! k) - 1\<rparr>
        else sx_nodes st ! k)"
      using st'(3) jn by (auto simp: nodes2 nth_list_update)
    show "snd ` set (sx_ready st') = snd ` set (sx_ready st) \<union>
        {k \<in> set (j # js). sn_remaining_predecessors (sx_nodes st ! k) = 1}"
      using jn unfolding st'(4) ready2 nodes2 by (auto simp: nth_list_update image_iff split: if_splits)
  qed (use st' rest2 in simp_all)
qed simp

lemma waiting_on_insert:
  "waiting_on N (insert i D) j = waiting_on N D j - {i}"
  by (auto simp: waiting_on_def)

lemma waiting_on_succ: "i < length N \<Longrightarrow> i \<notin> D \<Longrightarrow> i \<in> waiting_on N D j \<longleftrightarrow> j \<in> set (sn_successors (N ! i))"
  by (auto simp: waiting_on_def edges_def)

lemma successor_facts:
  assumes inv: "exec_inv N D st" and act: "i \<in> set (sx_active st)" and g: "graph_ok groups N"
    and j: "j \<in> set (sn_successors (N ! i))"
  shows "j < length N" "j \<noteq> i" "i \<in> waiting_on N D j" "j \<notin> set (sx_active st) \<union> D"
    "sn_group (sx_nodes st ! j) \<noteq> None" "0 < sn_remaining_predecessors (sx_nodes st ! j)"
proof -
  have i: "i < length N" "i \<notin> D" using inv act by (auto simp: exec_inv_def)
  have "(i, j) \<in> edges N" using j i by (simp add: edges_def)
  then show jN: "j < length N" "j \<noteq> i" using graph_okD(1,4) [OF g] by auto
  show w: "i \<in> waiting_on N D j" using j i by (simp add: waiting_on_succ)
  then show nj: "j \<notin> set (sx_active st) \<union> D" using inv by (auto simp: exec_inv_def)
  have "sn_group (sx_nodes st ! j) = sn_group (N ! j)" using inv jN nj by (simp add: exec_inv_def)
  then show "sn_group (sx_nodes st ! j) \<noteq> None" using graph_okD(1,2) [OF g] jN by simp
  have "sn_remaining_predecessors (sx_nodes st ! j) = card (waiting_on N D j)"
    using inv jN by (simp add: exec_inv_def)
  then show "0 < sn_remaining_predecessors (sx_nodes st ! j)" using w by (auto simp: card_gt_0_iff)
qed

text \<open>The bookkeeping when node \<open>i\<close> finishes, up to refilling the free slots.\<close>

definition finish_node :: "nat \<Rightarrow> nat \<Rightarrow> filter_error + unit \<Rightarrow> segment_state \<Rightarrow> segment_state" where
  "finish_node i h result st = st\<lparr>sx_active := remove1 i (sx_active st),
     sx_completed := Suc (sx_completed st),
     sx_errors := sx_errors st @ (case result of Inl e \<Rightarrow> [(h, e)] | Inr _ \<Rightarrow> []),
     sx_nodes := (sx_nodes st)[i := (sx_nodes st ! i)\<lparr>sn_successors := []\<rparr>]\<rparr>"

lemma segment_complete_unfold:
  "segment_complete m i h result st =
     (case release_successors (sn_successors (sx_nodes st ! i)) (finish_node i h result st) of
        None \<Rightarrow> None | Some st3 \<Rightarrow> fill_active m st3)"
  by (simp add: segment_complete_def finish_node_def Let_def)

lemma finish_node_simps [simp]:
  "sx_nodes (finish_node i h result st) = (sx_nodes st)[i := (sx_nodes st ! i)\<lparr>sn_successors := []\<rparr>]"
  "sx_ready (finish_node i h result st) = sx_ready st"
  "sx_active (finish_node i h result st) = remove1 i (sx_active st)"
  "sx_completed (finish_node i h result st) = Suc (sx_completed st)"
  by (simp_all add: finish_node_def)

lemma exec_inv_finish:
  assumes inv: "exec_inv N D st" and act: "i \<in> set (sx_active st)" and g: "graph_ok groups N"
  obtains st3 where
    "release_successors (sn_successors (sx_nodes st ! i)) (finish_node i h result st) = Some st3"
    "exec_inv N (insert i D) st3" "sx_active st3 = remove1 i (sx_active st)"
proof -
  have i: "i < length N" "i \<notin> D" using inv act by (auto simp: exec_inv_def)
  have lens: "length (sx_nodes st) = length N" using inv by (simp add: exec_inv_def)
  let ?js = "sn_successors (N ! i)" and ?st2 = "finish_node i h result st"
  have succ: "sn_successors (sx_nodes st ! i) = ?js" using inv i by (simp add: exec_inv_def)
  note jf = successor_facts [OF inv act g]
  have at2: "sx_nodes ?st2 ! k = sx_nodes st ! k" if "k \<noteq> i" for k using that by simp
  have rd: "snd ` set (sx_ready st) =
      {j. j < length N \<and> j \<notin> set (sx_active st) \<union> D \<and> waiting_on N D j = {}}"
    using inv by (simp add: exec_inv_def)
  have "distinct ?js" using graph_okD(1,3) [OF g] i by simp
  moreover have "\<forall>j \<in> set ?js. j < length (sx_nodes ?st2) \<and> 0 < sn_remaining_predecessors (sx_nodes ?st2 ! j) \<and>
      sn_group (sx_nodes ?st2 ! j) \<noteq> None"
    using jf lens by (auto simp del: finish_node_simps(1) simp: at2) (simp add: finish_node_def)
  moreover have "distinct (map snd (sx_ready ?st2))" using inv by (simp add: exec_inv_def)
  moreover have "snd ` set (sx_ready ?st2) \<inter> set ?js = {}"
    unfolding finish_node_simps rd using jf(3) by blast
  ultimately obtain st3 where st3: "release_successors ?js ?st2 = Some st3"
    "length (sx_nodes st3) = length (sx_nodes ?st2)"
    "\<forall>k < length (sx_nodes ?st2). sx_nodes st3 ! k =
       (if k \<in> set ?js then (sx_nodes ?st2 ! k)\<lparr>sn_remaining_predecessors := sn_remaining_predecessors (sx_nodes ?st2 ! k) - 1\<rparr>
        else sx_nodes ?st2 ! k)"
    "snd ` set (sx_ready st3) = snd ` set (sx_ready ?st2) \<union> {j \<in> set ?js. sn_remaining_predecessors (sx_nodes ?st2 ! j) = 1}"
    "distinct (map snd (sx_ready st3))" "sx_active st3 = sx_active ?st2" "sx_completed st3 = sx_completed ?st2"
    using release_successors_ok [of ?js ?st2] by blast
  have nodes3: "sn_group (sx_nodes st3 ! k) = sn_group (sx_nodes st ! k)"
    "k \<noteq> i \<Longrightarrow> sn_successors (sx_nodes st3 ! k) = sn_successors (sx_nodes st ! k)"
    "sn_remaining_predecessors (sx_nodes st3 ! k) = sn_remaining_predecessors (sx_nodes st ! k) - (if k \<in> set ?js then 1 else 0)"
    if "k < length N" for k
    using st3(3) that lens i by (auto simp: nth_list_update)
  have rem: "sn_remaining_predecessors (sx_nodes st ! k) = card (waiting_on N D k)" if "k < length N" for k
    using inv that by (simp add: exec_inv_def)
  have rem3: "sn_remaining_predecessors (sx_nodes st3 ! k) = card (waiting_on N (insert i D) k)" if "k < length N" for k
    using that i by (simp add: nodes3 rem waiting_on_insert card_Diff_singleton_if waiting_on_succ)
  have act': "set (remove1 i (sx_active st)) \<union> insert i D = set (sx_active st) \<union> D"
    using inv act by (auto simp: exec_inv_def)
  have one: "sn_remaining_predecessors (sx_nodes ?st2 ! j) = 1 \<longleftrightarrow> waiting_on N (insert i D) j = {}" if "j \<in> set ?js" for j
  proof -
    have "sn_remaining_predecessors (sx_nodes ?st2 ! j) = card (waiting_on N D j)"
      using jf(1,2) [OF that] rem at2 by metis
    moreover have "card (waiting_on N (insert i D) j) = card (waiting_on N D j) - 1"
      using jf(3) [OF that] by (simp add: waiting_on_insert)
    moreover have "0 < card (waiting_on N D j)" using jf(3) [OF that] by (auto simp: card_gt_0_iff)
    ultimately show ?thesis by (metis card_0_eq finite_waiting_on One_nat_def Suc_pred diff_self_eq_0)
  qed
  have "j \<in> snd ` set (sx_ready st3) \<longleftrightarrow> j < length N \<and> j \<notin> set (sx_active st) \<union> D \<and> waiting_on N (insert i D) j = {}" for j
  proof (cases "j \<in> set ?js")
    case True
    with one [OF True] jf [OF True] show ?thesis unfolding st3(4) finish_node_simps(2) rd by blast
  next
    case False
    then have "j < length N \<Longrightarrow> waiting_on N (insert i D) j = waiting_on N D j"
      using i by (simp add: waiting_on_insert waiting_on_succ)
    with False show ?thesis unfolding st3(4) finish_node_simps(2) rd by blast
  qed
  then have ready3: "snd ` set (sx_ready st3) =
      {j. j < length N \<and> j \<notin> set (sx_active st3) \<union> insert i D \<and> waiting_on N (insert i D) j = {}}"
    unfolding st3(6) finish_node_simps(3) act' by blast
  have "exec_inv N (insert i D) st3"
    unfolding exec_inv_def
  proof (intro conjI)
    show "length (sx_nodes st3) = length N" using st3(2) lens by simp
    show "insert i D \<subseteq> {..<length N}" "sx_completed st3 = card (insert i D)"
      using inv i st3(7) by (auto simp: exec_inv_def card_insert_if finite_subset)
    show "distinct (sx_active st3)" "set (sx_active st3) \<subseteq> {..<length N}" "set (sx_active st3) \<inter> insert i D = {}"
      using inv st3(6) by (auto simp: exec_inv_def)
    show "\<forall>k < length N. sn_group (sx_nodes st3 ! k) =
        (if k \<in> set (sx_active st3) \<union> insert i D then None else sn_group (N ! k))"
      unfolding st3(6) finish_node_simps(3) act' using inv nodes3(1) by (simp add: exec_inv_def)
    show "\<forall>k < length N. k \<notin> insert i D \<longrightarrow> sn_successors (sx_nodes st3 ! k) = sn_successors (N ! k)"
      using inv nodes3(2) by (simp add: exec_inv_def)
    show "\<forall>j \<in> set (sx_active st3) \<union> insert i D. waiting_on N (insert i D) j = {}"
      unfolding st3(6) finish_node_simps(3) act' waiting_on_insert using inv by (simp add: exec_inv_def)
  qed (use rem3 ready3 st3(5) in blast)+
  then show thesis using that st3(1,6) by (simp add: succ)
qed

lemma segment_complete_ok:
  assumes inv: "exec_inv N D st" and act: "i \<in> set (sx_active st)" and g: "graph_ok groups N"
    and len: "length (sx_active st) \<le> m"
  shows "\<exists>st'. segment_complete m i h result st = Some st' \<and> exec_inv N (insert i D) st' \<and>
    length (sx_active st') \<le> m \<and> (length (sx_active st') = m \<or> sx_ready st' = [])"
proof -
  obtain st3 where st3: "release_successors (sn_successors (sx_nodes st ! i)) (finish_node i h result st) = Some st3"
    "exec_inv N (insert i D) st3" "sx_active st3 = remove1 i (sx_active st)"
    by (rule exec_inv_finish [OF inv act g])
  have "\<forall>i < length N. sn_group (N ! i) \<noteq> None" using graph_okD(1,2) [OF g] by simp
  moreover have "length (sx_active st3) \<le> m" using st3(3) len act by (simp add: length_remove1)
  ultimately show ?thesis
    using fill_active_ok [OF st3(2)] st3(1) by (simp add: segment_complete_unfold)
qed

lemma initial_ready_ok:
  assumes "\<forall>i < length N. sn_group (N ! i) \<noteq> None"
  shows "\<exists>ready. initial_ready N = Some ready \<and> distinct (map snd ready) \<and>
    snd ` set ready = {j. j < length N \<and> sn_remaining_predecessors (N ! j) = 0}"
proof -
  let ?xs = "filter (\<lambda>(i, node). sn_remaining_predecessors node = 0) (List.enumerate 0 N)"
  let ?f = "\<lambda>(i, node). (sg_block_height (the (sn_group node)), i)"
  have mem: "(i, node) \<in> set (List.enumerate 0 N) \<longleftrightarrow> i < length N \<and> node = N ! i" for i node
    by (auto simp: in_set_enumerate_eq)
  have "map (\<lambda>(i, node). map_option (\<lambda>g. (sg_block_height g, i)) (sn_group node)) ?xs = map Some (map ?f ?xs)"
    using assms by (auto simp: mem)
  then have "initial_ready N = Some (map ?f ?xs)"
    unfolding initial_ready_def collect_some_Some .
  moreover have "map snd (map ?f ?xs) = map fst ?xs" by (auto simp: case_prod_unfold)
  moreover have "distinct (map fst ?xs)"
    by (rule distinct_map_filter) (simp add: distinct_enumerate)
  moreover have "fst ` set ?xs = {j. j < length N \<and> sn_remaining_predecessors (N ! j) = 0}"
    by (force simp: mem)
  ultimately show ?thesis by (metis (no_types, lifting) list.set_map)
qed

definition segment_reach :: "nat \<Rightarrow> submit_node list \<Rightarrow> segment_state \<Rightarrow> bool" where
  "segment_reach m nodes st \<longleftrightarrow>
     (\<exists>st0. segment_start m nodes = Some st0 \<and> (\<lambda>a b. segment_step m a (Some b))\<^sup>*\<^sup>* st0 st)"

lemma segment_start_ok:
  assumes g: "graph_ok groups N"
  shows "\<exists>st. segment_start m N = Some st \<and> exec_inv N {} st \<and> length (sx_active st) \<le> m \<and>
    (length (sx_active st) = m \<or> sx_ready st = [])"
proof -
  have some: "\<forall>i < length N. sn_group (N ! i) \<noteq> None" using graph_okD(1,2) [OF g] by simp
  obtain ready where r: "initial_ready N = Some ready" "distinct (map snd ready)"
    "snd ` set ready = {j. j < length N \<and> sn_remaining_predecessors (N ! j) = 0}"
    using initial_ready_ok [OF some] by blast
  let ?st = "\<lparr>sx_nodes = N, sx_ready = ready, sx_active = [], sx_errors = [], sx_completed = 0\<rparr>"
  have rem: "sn_remaining_predecessors (N ! j) = card (waiting_on N {} j)" if "j < length N" for j
    using graph_okD(1,5) [OF g] that by (simp add: waiting_on_def)
  have "exec_inv N {} ?st"
    unfolding exec_inv_def using r rem by (auto simp: card_0_eq)
  from fill_active_ok [OF this some] r(1) show ?thesis by (simp add: segment_start_def)
qed

lemma segment_reach_inv:
  assumes g: "graph_ok groups N" and "segment_reach m N st"
  shows "\<exists>D. exec_inv N D st \<and> length (sx_active st) \<le> m \<and> (length (sx_active st) = m \<or> sx_ready st = [])"
proof -
  obtain st0 where st0: "segment_start m N = Some st0" "(\<lambda>a b. segment_step m a (Some b))\<^sup>*\<^sup>* st0 st"
    using assms(2) by (auto simp: segment_reach_def)
  from st0(2) show ?thesis
  proof (induction rule: rtranclp_induct)
    case base
    then show ?case using segment_start_ok [OF g, of m] st0(1) by auto
  next
    case (step a b)
    from step.hyps(2) obtain i h result where "i \<in> set (sx_active a)" "segment_complete m i h result a = Some b"
      by (auto elim: segment_step.cases)
    with step.IH segment_complete_ok [OF _ _ g] show ?case by (metis option.sel)
  qed
qed

lemma all_done:
  assumes g: "graph_ok groups N" and inv: "exec_inv N D st" and "sx_active st = []" "sx_ready st = []"
  shows "D = {..<length N}"
proof -
  have rd: "j \<in> D \<or> waiting_on N D j \<noteq> {}" if "j < length N" for j
    using inv assms(3,4) that by (auto simp: exec_inv_def)
  have "j < length N \<longrightarrow> j \<in> D" for j
  proof (induction j rule: less_induct)
    case (less j)
    show ?case
    proof
      assume j: "j < length N"
      show "j \<in> D"
      proof (rule ccontr)
        assume "j \<notin> D"
        with rd [OF j] obtain i where "(i, j) \<in> edges N" "i \<notin> D" by (auto simp: waiting_on_def)
        with graph_okD(4) [OF g, of i j] less [of i] j show False by auto
      qed
    qed
  qed
  moreover have "D \<subseteq> {..<length N}" using inv by (simp add: exec_inv_def)
  ultimately show ?thesis by auto
qed

text \<open>
  A segment's dependency graph is sound: it has one node per group in order, edges only lead
  to later groups, every counter is the number of edges into its node, and any two groups that
  share a nonce or a quota reservation are connected by a path from the earlier to the later.
\<close>

lemma dependency_graph_sound:
  "graph_ok groups (build_normal_nodes groups)"
  by (rule build_normal_nodes_ok)

text \<open>
  Whatever the order in which requests finish and whether they succeed, with at least one slot
  a segment never gets stuck and never fails: it starts, every completion can be processed (no node
  is started twice, no counter underflows) and counts one more group, at most the configured number
  of requests is in flight, and when none is in flight any more every group has been submitted.
\<close>

lemma segment_runs_to_completion:
  assumes "1 \<le> m" and "segment_reach m (build_normal_nodes groups) st"
  shows "length (sx_active st) \<le> m \<and> sx_completed st + length (sx_active st) \<le> length groups \<and>
    (sx_active st = [] \<longrightarrow> sx_completed st = length groups) \<and>
    (\<forall>r. segment_step m st r \<longrightarrow> (\<exists>st'. r = Some st' \<and> sx_completed st' = Suc (sx_completed st)))"
proof -
  let ?N = "build_normal_nodes groups"
  note g = build_normal_nodes_ok [of groups]
  obtain D where D: "exec_inv ?N D st" "length (sx_active st) \<le> m" "length (sx_active st) = m \<or> sx_ready st = []"
    using segment_reach_inv [OF g assms(2)] by blast
  have lN: "length ?N = length groups" using g by (rule graph_okD)
  have fin: "finite D" using D(1) by (auto simp: exec_inv_def intro: finite_subset)
  have "card (D \<union> set (sx_active st)) \<le> card {..<length ?N}"
    by (rule card_mono) (use D(1) in \<open>auto simp: exec_inv_def\<close>)
  moreover have "card (D \<union> set (sx_active st)) = sx_completed st + length (sx_active st)"
    using D(1) fin by (simp add: exec_inv_def card_Un_disjoint Int_commute distinct_card)
  ultimately have le: "sx_completed st + length (sx_active st) \<le> length groups" by (simp add: lN)
  have fin_all: "sx_completed st = length groups" if "sx_active st = []"
    using all_done [OF g D(1) that] D(1,3) that assms(1) lN by (auto simp: exec_inv_def)
  have "\<exists>st'. r = Some st' \<and> sx_completed st' = Suc (sx_completed st)" if step: "segment_step m st r" for r
    using step
  proof cases
    case (complete i h result)
    from segment_complete_ok [OF D(1) complete(2) g D(2), of h result] complete(1) obtain st' where
      "r = Some st'" "exec_inv ?N (insert i D) st'" by blast
    moreover have "i \<notin> D" using D(1) complete(2) by (auto simp: exec_inv_def)
    ultimately show ?thesis using D(1) fin by (simp add: exec_inv_def)
  qed
  with le fin_all D(2) show ?thesis by blast
qed

text \<open>
  Conflicting groups are submitted in order: once a group has been started, every earlier
  group of the segment that shares a nonce or a quota reservation with it has completely finished.
\<close>

lemma conflicting_groups_in_order:
  assumes "segment_reach m (build_normal_nodes groups) st"
    and "i < j" "j < length groups" "shares_key (groups ! i) (groups ! j)"
    and "sn_group (sx_nodes st ! j) = None"
  shows "sn_group (sx_nodes st ! i) = None \<and> i \<notin> set (sx_active st)"
proof -
  let ?N = "build_normal_nodes groups"
  note g = build_normal_nodes_ok [of groups]
  obtain D where D: "exec_inv ?N D st" using segment_reach_inv [OF g assms(1)] by blast
  have lN: "length ?N = length groups" using g by (rule graph_okD)
  have up: "x \<in> D" if "(x, y) \<in> edges ?N" "y \<in> set (sx_active st) \<union> D" for x y
    using D that by (auto simp: exec_inv_def waiting_on_def)
  have "sn_group (?N ! j) \<noteq> None" using graph_okD(2) [OF g assms(3)] by simp
  then have j: "j \<in> set (sx_active st) \<union> D"
    using D assms(3,5) lN by (auto simp: exec_inv_def split: if_splits)
  have "(i, j) \<in> (edges ?N)\<^sup>+" using graph_okD(6) [OF g assms(2-4)] .
  then have "i \<in> D" using j
  proof (induction rule: converse_trancl_induct)
    case (step x y)
    then show ?case using up by blast
  qed (rule up)
  with D assms(2,3) lN show ?thesis by (auto simp: exec_inv_def)
qed

fun segment_groups :: "execution_segment \<Rightarrow> submit_group list" where
  "segment_groups (Normal nodes) = List.map_filter sn_group nodes"
| "segment_groups (Exclusive g) = [g]"

lemma map_filter_Some: "map f xs = map Some ys \<Longrightarrow> List.map_filter f xs = ys"
  by (induction xs arbitrary: ys) (auto simp: List.map_filter_simps)

lemma normal_groups: "List.map_filter sn_group (build_normal_nodes gs) = gs"
proof (rule map_filter_Some)
  show "map sn_group (build_normal_nodes gs) = map Some gs"
    using graph_okD(1,2) [OF build_normal_nodes_ok [of gs]] by (intro nth_equalityI) simp_all
qed

fun segment_separated :: "execution_segment \<Rightarrow> bool" where
  "segment_separated (Normal nodes) \<longleftrightarrow>
     (let gs = List.map_filter sn_group nodes in
      gs \<noteq> [] \<and> list_all (\<lambda>g. \<not> cp_exclusive (sg_profile g)) gs \<and> nodes = build_normal_nodes gs)"
| "segment_separated (Exclusive g) \<longleftrightarrow> cp_exclusive (sg_profile g)"

lemma schedule_loop_spec:
  "list_all (\<lambda>g. \<not> cp_exclusive (sg_profile g)) normal \<Longrightarrow>
     concat (map segment_groups (schedule_loop normal gs)) = normal @ gs \<and>
     list_all segment_separated (schedule_loop normal gs)"
  by (induction gs arbitrary: normal) (auto simp: normal_groups Let_def)

text \<open>
  A schedule submits every group exactly once and keeps their order; a group whose effects are
  not fully known is a segment of its own, and every other segment is the dependency graph of a
  non-empty run of groups with known effects.
\<close>

lemma schedule_partitions_groups:
  "concat (map segment_groups (build_submit_schedule groups)) = groups \<and>
   list_all segment_separated (build_submit_schedule groups)"
  unfolding build_submit_schedule_def using schedule_loop_spec [of "[]" groups] by simp

section \<open>Witnesses of the segment properties\<close>

definition sample_group :: "nat \<Rightarrow> address \<Rightarrow> submit_group" where
  "sample_group h recipient = \<lparr>sg_block_height = h, sg_entries = [],
     sg_profile = \<lparr>cp_nonce_keys = [(9, h)], cp_quota_keys = [(recipient, 0xAA)], cp_exclusive = False\<rparr>\<rparr>"

definition sample_groups :: "submit_group list" where
  "sample_groups = [sample_group 10 1, sample_group 11 2, sample_group 12 1]"

definition sample_segment :: segment_state where
  "sample_segment = the (segment_complete 2 0 10 (Inr ()) (the (segment_start 2 (build_normal_nodes sample_groups))))"

lemma sample_segment_start:
  "segment_start 2 (build_normal_nodes sample_groups) = Some (the (segment_start 2 (build_normal_nodes sample_groups)))"
  using segment_start_ok [OF build_normal_nodes_ok, of 2 sample_groups] by auto

lemma sample_segment_reach: "segment_reach 2 (build_normal_nodes sample_groups) sample_segment"
  unfolding segment_reach_def
proof (intro exI conjI)
  let ?st = "the (segment_start 2 (build_normal_nodes sample_groups))"
  have "0 \<in> set (sx_active ?st)" "segment_complete 2 0 10 (Inr ()) ?st = Some sample_segment"
    unfolding sample_segment_def by code_simp+
  then have "segment_step 2 ?st (Some sample_segment)" by (metis complete)
  then show "(\<lambda>a b. segment_step 2 a (Some b))\<^sup>*\<^sup>* ?st sample_segment" by blast
qed (rule sample_segment_start)

lemma segment_runs_to_completion_witness:
  "(1 :: nat) \<le> 2 \<and> segment_reach 2 (build_normal_nodes sample_groups) sample_segment \<and>
   length (sx_active sample_segment) \<le> 2 \<and> sx_completed sample_segment + length (sx_active sample_segment) \<le> 3"
  using segment_runs_to_completion [of 2 sample_groups sample_segment] sample_segment_reach
  by (simp add: sample_groups_def)

lemma conflicting_groups_in_order_witness:
  "shares_key (sample_groups ! 0) (sample_groups ! 2) \<and> sn_group (sx_nodes sample_segment ! 2) = None \<and>
   sn_group (sx_nodes sample_segment ! 0) = None \<and> 0 \<notin> set (sx_active sample_segment)"
proof -
  have a: "shares_key (sample_groups ! 0) (sample_groups ! 2)"
    by (simp add: sample_groups_def sample_group_def shares_key_def)
  have b: "sn_group (sx_nodes sample_segment ! 2) = None" by code_simp
  from conflicting_groups_in_order [OF sample_segment_reach _ _ a b] a b show ?thesis
    by (simp add: sample_groups_def)
qed

section \<open>What a batch collects\<close>

definition group_entry :: "ext \<Rightarrow> buffer_entry \<Rightarrow> (nat, submit_entry list) btmap \<Rightarrow> (nat, submit_entry list) btmap" where
  "group_entry E e = bt_alter (be_block_height e)
     (\<lambda>o1. (case o1 of None \<Rightarrow> [] | Some es \<Rightarrow> es) @ [submit_tx_of E e])"

lemma fold_lookup:
  "fold (\<lambda>h m. case f h of None \<Rightarrow> m | Some e \<Rightarrow> g e m) hs m = fold g (List.map_filter f hs) m"
  by (induction hs arbitrary: m) (auto simp: List.map_filter_simps split: option.splits)

lemma not_submitted_get:
  assumes "pool_wf p"
  shows "List.map_filter (pool_get p) (not_submitted p) = values_where (\<lambda>s. s = NotSubmitted) p"
proof (rule map_filter_Some)
  have "pool_get p (be_tx_hash e) = Some e" if "(h, e) \<in> set (bp_entries p)" for h e
    using that assms map_of_in_set [of "bp_entries p" h e] by (auto simp: pool_wf_def pool_get_def)
  then show "map (pool_get p) (not_submitted p) = map Some (values_where (\<lambda>s. s = NotSubmitted) p)"
    by (auto simp: not_submitted_def values_where_def)
qed

lemma group_by_height_entries:
  "pool_wf p \<Longrightarrow> group_by_height E p = fold (group_entry E) (values_where (\<lambda>s. s = NotSubmitted) p) []"
  unfolding group_by_height_def fold_lookup
  by (simp add: not_submitted_get) (simp add: group_entry_def [abs_def])

lemma group_fold_spec:
  "bt_wf m \<Longrightarrow> bt_wf (fold (group_entry E) es m) \<and>
     hm_list (fold (group_entry E) es m) k = hm_list m k @ map (submit_tx_of E) (filter (\<lambda>e. be_block_height e = k) es) \<and>
     (list_all (\<lambda>(h, xs). xs \<noteq> []) m \<longrightarrow> list_all (\<lambda>(h, xs). xs \<noteq> []) (fold (group_entry E) es m))"
proof (induction es arbitrary: m)
  case (Cons e es)
  have 1: "bt_wf (group_entry E e m)" using Cons.prems by (simp add: group_entry_def)
  have 2: "hm_list (group_entry E e m) k =
      hm_list m k @ map (submit_tx_of E) (filter (\<lambda>e. be_block_height e = k) [e])"
    using Cons.prems by (auto simp: hm_list_def group_entry_def alist_simps split: option.splits)
  have 3: "list_all (\<lambda>(h, xs). xs \<noteq> []) (group_entry E e m)" if "list_all (\<lambda>(h, xs). xs \<noteq> []) m"
    using that unfolding group_entry_def
    by (induction "be_block_height e" "\<lambda>o1. (case o1 of None \<Rightarrow> [] | Some es \<Rightarrow> es) @ [submit_tx_of E e]" m
        rule: bt_alter.induct) auto
  from Cons.IH [OF 1] 2 3 show ?case by auto
qed simp

lemma hm_list_filter:
  "distinct (map fst m) \<Longrightarrow> concat (map snd (filter (\<lambda>(h, xs). h = k) m)) = hm_list m k"
proof (induction m)
  case (Cons a m)
  have "filter (\<lambda>(h, xs). h = fst a) m = []" using Cons.prems by (auto simp: filter_empty_conv image_iff)
  with Cons show ?case by (cases a) (auto simp: hm_list_def)
qed (simp add: hm_list_def)

lemma expire_pool [simp]:
  "sh_pool (expire now sh) = snd (resolve_total_timeouts (sh_config sh) now (sh_pool sh))"
  "sh_config (expire now sh) = sh_config sh" "sh_rules (expire now sh) = sh_rules sh"
  by (auto simp: expire_def Let_def split: prod.splits)

text \<open>
  A batch contains exactly the entries that are not submitted after overdue ones were resolved:
  there is one group per block height, in ascending order of heights, no group is empty, and the
  group of a height holds precisely the pool's unsubmitted entries of that height with the request
  body and the generation of their present lifecycle.
\<close>

lemma submit_collect_exact:
  assumes "pool_wf (sh_pool sh)" and "submit_collect E now sh = (schedule, sh')"
    and "groups = concat (map segment_groups schedule)"
  shows "sorted_wrt (<) (map sg_block_height groups) \<and> list_all (\<lambda>g. sg_entries g \<noteq> []) groups \<and>
    concat (map sg_entries (filter (\<lambda>g. sg_block_height g = k) groups)) =
      map (submit_tx_of E) (filter (\<lambda>e. be_block_height e = k) (values_where (\<lambda>s. s = NotSubmitted) (sh_pool sh')))"
proof -
  let ?M = "group_by_height E (sh_pool sh')"
  have p: "sh_pool sh' = snd (resolve_total_timeouts (sh_config sh) now (sh_pool sh))"
    using assms(2) by (auto simp: submit_collect_def Let_def)
  have wf: "pool_wf (sh_pool sh')"
    unfolding p using pool_step_wf [OF pool_step.step_total_timeouts assms(1)] .
  have groups: "groups = map (\<lambda>(h, es). submit_group_new E h es) ?M"
    using assms(2,3) schedule_loop_spec [of "[]"]
    by (auto simp: submit_collect_def Let_def p [symmetric] build_submit_schedule_def)
  have M: "bt_wf ?M" "list_all (\<lambda>(h, xs). xs \<noteq> []) ?M"
    "hm_list ?M k = map (submit_tx_of E) (filter (\<lambda>e. be_block_height e = k) (values_where (\<lambda>s. s = NotSubmitted) (sh_pool sh')))"
    using group_fold_spec [of "[]" E] by (simp_all add: group_by_height_entries [OF wf] hm_list_def)
  have fields: "map sg_block_height groups = map fst ?M"
    "concat (map sg_entries (filter (\<lambda>g. sg_block_height g = k) groups)) =
       concat (map snd (filter (\<lambda>(h, xs). h = k) ?M))"
    by (auto simp: groups submit_group_new_def filter_map o_def case_prod_unfold)
  have "list_all (\<lambda>g. sg_entries g \<noteq> []) groups"
    using M(2) by (auto simp: groups submit_group_new_def list_all_iff)
  then show ?thesis
    using M unfolding fields hm_list_filter [OF bt_wf_distinct [OF M(1)]] by (simp add: bt_wf_def)
qed

lemma submit_collect_exact_witness:
  "let sh = set_pool (pool_insert (sample_entry TimeoutDeny) pool_default) (spawn_shared default_config);
       groups = concat (map segment_groups (fst (submit_collect sample_ext 1001 sh)))
   in pool_wf (sh_pool sh) \<and>
      concat (map sg_entries (filter (\<lambda>g. sg_block_height g = 100) groups)) =
        [submit_tx_of sample_ext ((sample_entry TimeoutDeny)\<lparr>be_generation := 1\<rparr>)]"
proof -
  let ?sh = "set_pool (pool_insert (sample_entry TimeoutDeny) pool_default) (spawn_shared default_config)"
  have wf: "pool_wf (sh_pool ?sh)"
    using pool_step_wf [OF pool_step.step_insert pool_wf_default] by (simp add: sample_entry_def)
  have "values_where (\<lambda>s. s = NotSubmitted) (sh_pool (snd (submit_collect sample_ext 1001 ?sh))) =
      [(sample_entry TimeoutDeny)\<lparr>be_generation := 1\<rparr>]"
    by (simp add: submit_collect_def Let_def spawn_shared_def resolve_total_timeouts_def values_where_def sample_pool_defs)
  with submit_collect_exact [OF wf prod.collapse [symmetric] refl, of sample_ext 1001 100] wf show ?thesis
    by (simp add: Let_def sample_entry_def)
qed
end
