(* ===== verification/Filter_Worker.thy ===== *)
theory Filter_Worker
  imports Submit_Scheduler
begin

text \<open>
  The background workers of \<open>crates/rcs-filter/src/worker.rs\<close>: loading rules, polling verdicts,
  the timeout tick, and the jittered backoff between retries. What the client answers and the
  clock's reading are arguments; a critical section of the pool's mutex is one function on the
  shared state.
\<close>

section \<open>Retry backoff\<close>

text \<open>
  Durations are nanoseconds; \<open>duration_max\<close> is the largest \<open>Duration\<close>. The jitter state is a
  xorshift generator on 64 bits.
\<close>

record retry_backoff =
  rb_initial :: nat
  rb_maximum :: nat
  rb_current :: nat
  rb_jitter_state :: u64

definition duration_max :: nat where
  "duration_max = (2 ^ 64 - 1) * 10 ^ 9 + 999999999"

definition with_seed :: "nat \<Rightarrow> nat \<Rightarrow> u64 \<Rightarrow> retry_backoff" where
  "with_seed initial maximum seed =
     \<lparr>rb_initial = initial, rb_maximum = maximum, rb_current = initial, rb_jitter_state = max seed 1\<rparr>"

definition backoff_new :: "nat \<Rightarrow> nat \<Rightarrow> u64 \<Rightarrow> retry_backoff \<times> u64" where
  "backoff_new initial maximum seed_counter =
     (with_seed initial maximum seed_counter, seed_counter + 0x9e3779b97f4a7c15)"

definition xorshift :: "u64 \<Rightarrow> u64" where
  "xorshift s0 =
     (let s1 = s0 XOR push_bit 13 s0;
          s2 = s1 XOR drop_bit 7 s1
      in s2 XOR push_bit 17 s2)"

definition next_base_delay :: "retry_backoff \<Rightarrow> nat \<times> retry_backoff" where
  "next_base_delay b = (rb_current b, b\<lparr>rb_current := min (min (rb_current b * 2) duration_max) (rb_maximum b)\<rparr>)"

definition next_delay :: "retry_backoff \<Rightarrow> nat \<times> retry_backoff" where
  "next_delay b =
     (case next_base_delay b of (base, b1) \<Rightarrow>
      let state = xorshift (rb_jitter_state b1);
          factor = 500 + unat state mod 501;
          jittered = min (min (base * factor) (2 ^ 128 - 1) div 1000) (2 ^ 64 - 1)
      in (jittered, b1\<lparr>rb_jitter_state := state\<rparr>))"

definition backoff_reset :: "retry_backoff \<Rightarrow> retry_backoff" where
  "backoff_reset b = b\<lparr>rb_current := rb_initial b\<rparr>"

definition is_capped :: "retry_backoff \<Rightarrow> bool" where
  "is_capped b \<longleftrightarrow> rb_current b = rb_maximum b"

fun error_class :: "filter_error \<Rightarrow> string" where
  "error_class (Transport _) = ''transport''"
| "error_class (Timeout _) = ''timeout''"
| "error_class (UnexpectedStatus _) = ''unexpected_status''"
| "error_class (Decode _) = ''decode''"
| "error_class (UnsupportedProtocol _) = ''unsupported_protocol''"
| "error_class (Config _) = ''config''"
| "error_class (InvalidRules _ _) = ''invalid_rules''"

text \<open>
  One turn of \<open>submit_task\<close> and \<open>query_task\<close> after the work returned \<open>result\<close>: the delay to sleep,
  if any, and the gauge named \<open>gauge\<close> (here in nanoseconds).
\<close>

definition task_turn :: "string \<Rightarrow> filter_error + unit \<Rightarrow> nat \<times> retry_backoff \<times> shared
    \<Rightarrow> nat option \<times> nat \<times> retry_backoff \<times> shared" where
  "task_turn gauge result st = (case st of (failures, b, sh) \<Rightarrow>
     (case result of
        Inr _ \<Rightarrow> (None, 0, backoff_reset b, set_gauge gauge 0 sh)
      | Inl e \<Rightarrow> (case next_delay b of (delay, b') \<Rightarrow>
          (Some delay, failures + 1, b',
           if rb_current b' = rb_initial b' then set_gauge gauge 0 sh else set_gauge gauge delay sh))))"

section \<open>Loading rules\<close>

definition load_and_install :: "ext \<Rightarrow> filter_error + rules_response \<Rightarrow> shared \<Rightarrow> (filter_error + bool) \<times> shared" where
  "load_and_install E result sh =
     (let sh = record_request ReRules result sh in
      case result of
        Inl e \<Rightarrow> (Inl e, sh)
      | Inr resp \<Rightarrow>
          if \<not> is_supported_protocol (rsp_protocol_version resp) then (Inr False, sh)
          else
            let rs = load_rules E (rsp_protocol_version resp) (rsp_content_version resp) (rsp_rules resp) in
            if rs_rejected rs \<noteq> [] then (Inl (InvalidRules (length (rs_rejected rs)) (rs_rejected rs)), sh)
            else (Inr True, install_rules rs sh))"

text \<open>The first loop of \<open>rules_task\<close> over the answers it gets, up to the first that is installed:
  whether one was, and the delays slept.\<close>

fun initial_load :: "ext \<Rightarrow> (filter_error + rules_response) list \<Rightarrow> retry_backoff \<Rightarrow> shared
    \<Rightarrow> bool \<times> nat list \<times> shared" where
  "initial_load E [] b sh = (False, [], sh)"
| "initial_load E (r # rs) b sh =
     (case load_and_install E r sh of (outcome, sh1) \<Rightarrow>
        if outcome = Inr True then (True, [], set_gauge ''rules_retry_delay_seconds'' 0 sh1)
        else (case next_delay b of (delay, b1) \<Rightarrow>
              case initial_load E rs b1 (set_gauge ''rules_retry_delay_seconds'' delay sh1) of (done, delays, sh2) \<Rightarrow>
                (done, delay # delays, sh2)))"

text \<open>One turn of the second loop: \<open>body\<close> is what \<open>GET /rules\<close> would answer if it is pulled.\<close>

definition rules_poll :: "ext \<Rightarrow> filter_error + version_response \<Rightarrow> filter_error + rules_response \<Rightarrow> shared \<Rightarrow> shared" where
  "rules_poll E version_result body sh =
     (let current = rs_content_version (current_rules sh);
          sh = record_request ReRulesVersion version_result sh
      in case version_result of
           Inl e \<Rightarrow> sh
         | Inr v \<Rightarrow>
             if vr_content_version v \<noteq> current \<and> is_supported_protocol (vr_protocol_version v)
             then snd (load_and_install E body sh) else sh)"

section \<open>Querying verdicts\<close>

definition query_statuses :: "string list" where
  "query_statuses = [''pending'', ''approved'', ''denied'', ''outdated'']"

definition query_priority :: "string \<Rightarrow> nat option" where
  "query_priority status =
     (if status = ''denied'' \<or> status = ''outdated'' then Some 2
      else if status = ''approved'' then Some 1
      else if status = ''pending'' then Some 0 else None)"

type_synonym relevant_map = "(b256, nat \<times> u64 \<times> query_tx) btmap"

definition add_relevant :: "ext \<Rightarrow> (b256, u64) hmap \<Rightarrow> query_tx \<Rightarrow> relevant_map \<Rightarrow> relevant_map" where
  "add_relevant E expected tx m = (case b256_from_str E (qt_tx_hash tx) of
       None \<Rightarrow> m
     | Some h \<Rightarrow> (case map_of expected h of
           None \<Rightarrow> m
         | Some g \<Rightarrow> (case query_priority (qt_status tx) of
               None \<Rightarrow> m
             | Some p \<Rightarrow>
                 if (case map_of m h of None \<Rightarrow> True | Some (current, _, _) \<Rightarrow> p > current)
                 then bt_insert h (p, g, tx) m else m)))"

definition relevant :: "ext \<Rightarrow> (b256, u64) hmap \<Rightarrow> query_response \<Rightarrow> relevant_map" where
  "relevant E expected txs = fold (add_relevant E expected) txs []"

fun terminal_reason_of :: "query_resolution \<Rightarrow> terminal_reason option" where
  "terminal_reason_of (RetryTimeout Discard) = Some TrFailCloseTimeout"
| "terminal_reason_of (RetryTimeout ReleaseForPackaging) = None"
| "terminal_reason_of QDenied = Some TrDenied"
| "terminal_reason_of QOutdated = Some TrOutdated"

fun apply_relevant :: "filter_config \<Rightarrow> nat \<Rightarrow> relevant_map \<Rightarrow> buffer_pool \<Rightarrow> terminal_event list \<times> buffer_pool" where
  "apply_relevant cfg now [] p = ([], p)"
| "apply_relevant cfg now ((h, (_, g, tx)) # m) p =
     (case apply_query_status h g (qt_status tx) cfg now p of (r, p1) \<Rightarrow>
      case apply_relevant cfg now m p1 of (events, p2) \<Rightarrow>
        ((case Option.bind r terminal_reason_of of
            None \<Rightarrow> []
          | Some reason \<Rightarrow> [\<lparr>te_tx_hash = h, te_generation = g, te_reason = reason\<rparr>]) @ events, p2))"

text \<open>The body of the loop over the statuses, for the answer of one of them.\<close>

definition query_apply :: "ext \<Rightarrow> (b256, u64) hmap \<Rightarrow> nat \<Rightarrow> query_response \<Rightarrow> shared \<Rightarrow> shared" where
  "query_apply E expected now txs sh =
     (case apply_relevant (sh_config sh) now (relevant E expected txs) (sh_pool sh) of (events, p) \<Rightarrow>
        fold emit_terminal events (set_pool p sh))"

definition query_answer :: "ext \<Rightarrow> (b256, u64) hmap \<Rightarrow> nat \<times> (filter_error + query_response)
    \<Rightarrow> filter_error option \<times> shared \<Rightarrow> filter_error option \<times> shared" where
  "query_answer E expected answer st =
     (let (now, result) = answer; (first_error, sh0) = st; sh = record_request ReQuery result sh0 in
      case result of
        Inl e \<Rightarrow> (Some (case first_error of None \<Rightarrow> e | Some e0 \<Rightarrow> e0), expire now sh)
      | Inr txs \<Rightarrow> (first_error, query_apply E expected now txs sh))"

text \<open>
  \<open>query_once\<close> when no other thread takes the lock in between; \<open>answer\<close> gives for a status the
  time of the critical section after it and the client's result.
\<close>

definition query_once :: "ext \<Rightarrow> nat \<Rightarrow> (string \<Rightarrow> nat \<times> (filter_error + query_response)) \<Rightarrow> shared
    \<Rightarrow> (filter_error + unit) \<times> shared" where
  "query_once E now answer sh =
     (let sh1 = expire now sh;
          expected = in_flight_generations (sh_pool sh1)
      in if expected = [] then (Inr (), sh1)
         else case fold (\<lambda>status. query_answer E expected (answer status)) query_statuses (None, sh1) of
                (first_error, sh2) \<Rightarrow>
                  ((case first_error of None \<Rightarrow> Inr () | Some e \<Rightarrow> Inl e), update_buffer_metric sh2))"

section \<open>The timeout tick\<close>

definition timeout_once :: "nat \<Rightarrow> shared \<Rightarrow> ((b256 \<times> u64 \<times> resolution) list \<times> nat) \<times> shared" where
  "timeout_once now sh =
     (let retention = as_secs (fc_terminal_entry_retention (sh_config sh)) in
      case check_timeouts (sh_config sh) now (sh_pool sh) of (resolved, p1) \<Rightarrow>
      case prune_terminal retention now p1 of (pruned, p2) \<Rightarrow>
        ((resolved, pruned), update_buffer_metric (emit_timeout_resolutions resolved (set_pool p2 sh))))"

text \<open>\<open>spawn\<close> starts the four workers only when the filter is enabled.\<close>

definition spawned_workers :: "filter_config \<Rightarrow> string list" where
  "spawned_workers cfg = (if \<not> fc_enabled cfg then [] else [''rules'', ''submit'', ''query'', ''timeout''])"

text \<open>
  A supervisor restarts its worker after every return or panic, and stops when the worker was
  cancelled; the result is how often the worker was started.
\<close>

datatype worker_exit = ExitReturned | ExitPanicked | ExitCancelled

fun supervised_starts :: "worker_exit list \<Rightarrow> nat" where
  "supervised_starts [] = 1"
| "supervised_starts (ExitCancelled # _) = 1"
| "supervised_starts (_ # exits) = Suc (supervised_starts exits)"


section \<open>Delays\<close>

lemma xor_zero_bits: "(x :: u64) XOR y = 0 \<Longrightarrow> bit x i = bit y i"
proof -
  assume "x XOR y = 0"
  then have "bit (x XOR y) i = bit (0 :: u64) i" by simp
  then show ?thesis by (simp add: bit_xor_iff)
qed

lemma shift_left_fixpoint:
  assumes "(x :: u64) XOR push_bit n x = 0" "0 < n"
  shows "x = 0"
proof -
  have "\<not> bit x i" for i
  proof (induction i rule: less_induct)
    case (less i)
    have "bit x i = bit (push_bit n x) i" using assms(1) by (rule xor_zero_bits)
    then show ?case using less [of "i - n"] assms(2) by (auto simp: bit_push_bit_iff)
  qed
  then show ?thesis by (simp add: bit_eq_iff)
qed

lemma shift_right_fixpoint:
  assumes "(x :: u64) XOR drop_bit n x = 0" "0 < n"
  shows "x = 0"
proof -
  have eq: "bit x i = bit x (n + i)" for i
    using xor_zero_bits [OF assms(1), of i] by (simp add: bit_drop_bit_eq)
  have "bit x i = bit x (k * n + i)" for k i
    by (induction k) (use eq in \<open>auto simp: add.assoc\<close>)
  moreover have "\<not> bit x (64 * n + i)" for i
    using bit_imp_le_length [of x "64 * n + i"] assms(2) by auto
  ultimately show ?thesis by (metis bit_eq_iff bit_0_eq bot_apply bot_bool_def)
qed

lemma xorshift_nonzero: "s \<noteq> 0 \<Longrightarrow> xorshift s \<noteq> 0"
  unfolding xorshift_def Let_def
  using shift_left_fixpoint shift_right_fixpoint by (metis zero_less_numeral)

lemma next_delay_fields:
  "rb_initial (snd (next_delay b)) = rb_initial b" "rb_maximum (snd (next_delay b)) = rb_maximum b"
  "rb_current (snd (next_delay b)) = min (min (rb_current b * 2) duration_max) (rb_maximum b)"
  "rb_jitter_state (snd (next_delay b)) = xorshift (rb_jitter_state b)"
  by (simp_all add: next_delay_def next_base_delay_def Let_def)

lemma next_delay_range:
  assumes "rb_current b \<le> 2 ^ 64 - 1"
  shows "fst (next_delay b) \<in> {rb_current b div 2..rb_current b}"
proof -
  define f where "f = 500 + unat (xorshift (rb_jitter_state b)) mod 501"
  have f: "500 \<le> f" "f \<le> 1000" by (auto simp: f_def)
  have le: "rb_current b * f \<le> rb_current b * 1000" using f by simp
  have "rb_current b * 1000 \<le> (2 ^ 64 - 1) * 1000" using assms by simp
  also have "\<dots> \<le> (2 ^ 128 - 1 :: nat)" by simp
  finally have m: "min (rb_current b * f) (2 ^ 128 - 1) = rb_current b * f" using le by linarith
  have up: "rb_current b * f div 1000 \<le> rb_current b" using div_le_mono [OF le, of 1000] by simp
  have "rb_current b div 2 = rb_current b * 500 div 1000" by simp
  also have "\<dots> \<le> rb_current b * f div 1000" using f by (intro div_le_mono) simp
  finally have low: "rb_current b div 2 \<le> rb_current b * f div 1000" .
  have "fst (next_delay b) = min (rb_current b * f div 1000) (2 ^ 64 - 1)"
    by (simp add: next_delay_def next_base_delay_def Let_def f_def [symmetric] m)
  moreover have "min (rb_current b * f div 1000) (2 ^ 64 - 1) = rb_current b * f div 1000"
    using up assms by linarith
  ultimately show ?thesis using up low by simp
qed

lemma backoff_iterate:
  assumes "rb_initial b = rb_current b" "rb_current b \<le> rb_maximum b" "rb_maximum b \<le> duration_max" "rb_jitter_state b \<noteq> 0"
  shows "rb_current (((snd \<circ> next_delay) ^^ k) b) = min (rb_current b * 2 ^ k) (rb_maximum b) \<and>
    rb_maximum (((snd \<circ> next_delay) ^^ k) b) = rb_maximum b \<and> rb_jitter_state (((snd \<circ> next_delay) ^^ k) b) \<noteq> 0"
  using assms
  by (induction k) (auto simp: next_delay_fields xorshift_nonzero)

text \<open>
  C38. The delay before the \<open>k\<close>-th retry lies between half and all of the base
  \<open>min (initial * 2^k) maximum\<close>, so the configured maximum is a hard cap and a failing endpoint is
  never retried in a tight loop; the jitter generator never gets stuck at zero.
\<close>

theorem retry_delay_bounds:
  assumes "initial \<le> maximum" "maximum \<le> 2 ^ 64 - 1"
    and "b = ((snd \<circ> next_delay) ^^ k) (with_seed initial maximum seed)"
  shows "fst (next_delay b) \<in> {min (initial * 2 ^ k) maximum div 2..min (initial * 2 ^ k) maximum} \<and>
    rb_jitter_state b \<noteq> 0"
proof -
  have "max seed 1 \<noteq> (0 :: u64)" by (metis max.cobounded2 word_le_0_iff zero_neq_one)
  then have b: "rb_current b = min (initial * 2 ^ k) maximum" "rb_jitter_state b \<noteq> 0"
    using backoff_iterate [of "with_seed initial maximum seed" k] assms
    by (simp_all add: with_seed_def duration_max_def)
  then have "rb_current b \<le> 2 ^ 64 - 1" using assms(2) by simp
  from next_delay_range [OF this] b show ?thesis by simp
qed

theorem retry_delay_bounds_witness:
  "fst (next_delay (((snd \<circ> next_delay) ^^ 3) (with_seed 1000 30000 7))) \<in> {4000..8000}"
  using retry_delay_bounds [OF _ _ refl, of 1000 30000 3 7] by simp

section \<open>Rules are replaced whole or not at all\<close>

lemma load_rules_complete:
  assumes "rs_rejected (load_rules E pv cv raw) = []"
  shows "map cr_id (rs_rules (load_rules E pv cv raw)) = map rr_id raw"
proof -
  obtain ok rej where l: "load_loop E (id_counts raw) raw interner_new = (ok, rej)" by force
  note flds = load_rules_fields [OF l, of pv cv]
  have "mset (map cr_id ok) = mset (map rr_id raw)" "subseq (map cr_id ok) (map rr_id raw)"
    using load_loop_split [OF l] assms by (auto simp: flds)
  with mset_eq_length [OF this(1)] show ?thesis
    using subseq_same_length [of "map cr_id ok" "map rr_id raw"] by (simp only: flds)
qed

definition acceptable :: "ext \<Rightarrow> filter_error + rules_response \<Rightarrow> bool" where
  "acceptable E result = (case result of
       Inl _ \<Rightarrow> False
     | Inr resp \<Rightarrow> is_supported_protocol (rsp_protocol_version resp) \<and>
         rs_rejected (load_rules E (rsp_protocol_version resp) (rsp_content_version resp) (rsp_rules resp)) = [])"

definition rules_of :: "ext \<Rightarrow> filter_error + rules_response \<Rightarrow> rule_set" where
  "rules_of E result = (case result of
       Inl _ \<Rightarrow> rule_set_default
     | Inr resp \<Rightarrow> load_rules E (rsp_protocol_version resp) (rsp_content_version resp) (rsp_rules resp))"

lemma load_and_install_result:
  "fst (load_and_install E result sh) = Inr True \<longleftrightarrow> acceptable E result"
  "sh_rules (snd (load_and_install E result sh)) = (if acceptable E result then rules_of E result else sh_rules sh)"
  "sh_ready (snd (load_and_install E result sh)) \<longleftrightarrow> acceptable E result \<or> sh_ready sh"
  "sh_pool (snd (load_and_install E result sh)) = sh_pool sh"
  "sh_config (snd (load_and_install E result sh)) = sh_config sh"
  "sh_terminal_events (snd (load_and_install E result sh)) = sh_terminal_events sh"
  by (auto simp: load_and_install_def acceptable_def rules_of_def Let_def install_rules_def set_gauge_def
      split: sum.splits)

text \<open>
  The rule set in force is replaced whole or not at all: an answer to \<open>GET /rules\<close> is installed
  exactly when it is of a supported protocol and every one of its rules compiles, and then the rules
  in force are all of its rules, in order; a transport error, an unsupported protocol or a single
  invalid rule leaves the current rules, the readiness and the pool as they were.
\<close>

lemma load_and_install_all_or_nothing:
  "case load_and_install E result sh of (outcome, sh') \<Rightarrow>
     sh_pool sh' = sh_pool sh \<and>
     (if outcome = Inr True
      then acceptable E result \<and> sh_ready sh' \<and> sh_rules sh' = rules_of E result \<and>
           map cr_id (rs_rules (sh_rules sh')) = (case result of Inl _ \<Rightarrow> [] | Inr resp \<Rightarrow> map rr_id (rsp_rules resp))
      else \<not> acceptable E result \<and> sh_rules sh' = sh_rules sh \<and> sh_ready sh' = sh_ready sh)"
proof -
  have "map cr_id (rs_rules (rules_of E result)) = (case result of Inl _ \<Rightarrow> [] | Inr resp \<Rightarrow> map rr_id (rsp_rules resp))"
    if "acceptable E result"
    using that load_rules_complete by (auto simp: acceptable_def rules_of_def split: sum.splits)
  then show ?thesis
    using load_and_install_result [where E = E and result = result and sh = sh]
    by (auto split: prod.splits)
qed

lemma set_gauge_ready [simp]: "sh_ready (set_gauge n v s) = sh_ready s"
  by (simp add: set_gauge_def)

text \<open>
  Start-up recovers by itself: over any finite sequence of answers, the initial load installs
  the first acceptable one and stops there, sleeping once for every answer before it; while there is
  none the node keeps the rules it had and is not declared ready, and no sleep exceeds the cap.
\<close>

lemma initial_load_recovers:
  assumes "rb_current b \<le> rb_maximum b" "rb_maximum b \<le> 2 ^ 64 - 1"
  shows "case initial_load E answers b sh of (found, delays, sh') \<Rightarrow>
     found = list_ex (acceptable E) answers \<and>
     length delays = length (takeWhile (\<lambda>r. \<not> acceptable E r) answers) \<and>
     list_all (\<lambda>d. d \<le> rb_maximum b) delays \<and>
     (if found then sh_ready sh' \<and> sh_rules sh' = rules_of E (hd (dropWhile (\<lambda>r. \<not> acceptable E r) answers))
      else sh_ready sh' = sh_ready sh \<and> sh_rules sh' = sh_rules sh)"
  using assms
proof (induction answers arbitrary: b sh)
  case (Cons r rs)
  note res = load_and_install_result [where E = E and result = r and sh = sh]
  obtain outcome sh1 where l: "load_and_install E r sh = (outcome, sh1)" by force
  obtain d b1 where d: "next_delay b = (d, b1)" by force
  have b1: "rb_current b1 \<le> rb_maximum b1" "rb_maximum b1 = rb_maximum b" "d \<le> rb_maximum b"
    using next_delay_fields [of b] next_delay_range [of b] Cons.prems d by auto
  from Cons.IH [OF b1(1)] b1(2) Cons.prems(2)
  have IH: "case initial_load E rs b1 s of (found, delays, sh') \<Rightarrow>
     found = list_ex (acceptable E) rs \<and>
     length delays = length (takeWhile (\<lambda>r. \<not> acceptable E r) rs) \<and>
     list_all (\<lambda>d. d \<le> rb_maximum b) delays \<and>
     (if found then sh_ready sh' \<and> sh_rules sh' = rules_of E (hd (dropWhile (\<lambda>r. \<not> acceptable E r) rs))
      else sh_ready sh' = sh_ready s \<and> sh_rules sh' = sh_rules s)" for s by simp
  show ?case
    using res l d b1(3) IH [of "set_gauge ''rules_retry_delay_seconds'' d sh1"]
    by (cases "acceptable E r") (auto split: prod.splits)
qed simp

definition sample_rules_response :: rules_response where
  "sample_rules_response = \<lparr>rsp_protocol_version = 1, rsp_content_version = 7, rsp_rules = take 1 sample_batch\<rparr>"

lemma initial_load_recovers_witness:
  "(case initial_load sample_ext [Inl (Timeout ''x''), Inr (sample_rules_response\<lparr>rsp_protocol_version := 2\<rparr>), Inr sample_rules_response]
      (with_seed 1000 30000 7) (spawn_shared default_config) of (found, delays, sh') \<Rightarrow>
     found \<and> length delays = 2 \<and> sh_rules sh' = rules_of sample_ext (Inr sample_rules_response))"
proof -
  let ?as = "[Inl (Timeout ''x''), Inr (sample_rules_response\<lparr>rsp_protocol_version := 2\<rparr>), Inr sample_rules_response]"
  have a: "acceptable sample_ext (Inr sample_rules_response)" by code_simp
  have na: "\<not> acceptable sample_ext (Inl (Timeout ''x''))"
    "\<not> acceptable sample_ext (Inr (sample_rules_response\<lparr>rsp_protocol_version := 2\<rparr>))"
    by (simp_all add: acceptable_def sample_rules_response_def is_supported_protocol_def supported_protocol_versions_def)
  show ?thesis
    using initial_load_recovers [of "with_seed 1000 30000 7" sample_ext ?as "spawn_shared default_config"] a na
    by (simp add: with_seed_def del: initial_load.simps split: prod.splits)
qed

section \<open>Verdicts\<close>

definition relevant_ok :: "ext \<Rightarrow> (b256, u64) hmap \<Rightarrow> query_tx list \<Rightarrow> relevant_map \<Rightarrow> bool" where
  "relevant_ok E expected txs m \<longleftrightarrow> bt_wf m \<and>
     (\<forall>h p g tx. map_of m h = Some (p, g, tx) \<longrightarrow>
        map_of expected h = Some g \<and> query_priority (qt_status tx) = Some p) \<and>
     (\<forall>tx \<in> set txs. \<forall>h g q. b256_from_str E (qt_tx_hash tx) = Some h \<and> map_of expected h = Some g \<and>
        query_priority (qt_status tx) = Some q \<longrightarrow> (\<exists>p tx'. map_of m h = Some (p, g, tx') \<and> q \<le> p))"

lemma add_relevant_ok:
  assumes ok: "relevant_ok E expected txs m"
  shows "relevant_ok E expected (txs @ [tx]) (add_relevant E expected tx m)"
proof -
  have wf: "bt_wf m" using ok by (simp add: relevant_ok_def)
  have keep: "relevant_ok E expected (txs @ [tx]) m"
    if "\<And>h g q. b256_from_str E (qt_tx_hash tx) = Some h \<Longrightarrow> map_of expected h = Some g \<Longrightarrow>
        query_priority (qt_status tx) = Some q \<Longrightarrow> \<exists>p tx'. map_of m h = Some (p, g, tx') \<and> q \<le> p"
    using ok that by (auto simp: relevant_ok_def)
  show ?thesis
  proof (cases "\<exists>h g q. b256_from_str E (qt_tx_hash tx) = Some h \<and> map_of expected h = Some g \<and>
      query_priority (qt_status tx) = Some q")
    case False
    then have "add_relevant E expected tx m = m" by (auto simp: add_relevant_def split: option.splits)
    with keep False show ?thesis by metis
  next
    case True
    then obtain h g q where t: "b256_from_str E (qt_tx_hash tx) = Some h" "map_of expected h = Some g"
      "query_priority (qt_status tx) = Some q" by blast
    show ?thesis
    proof (cases "case map_of m h of None \<Rightarrow> True | Some (current, _, _) \<Rightarrow> q > current")
      case True
      have old: "\<exists>p tx'. map_of (bt_insert h (q, g, tx) m) k = Some (p, g', tx') \<and> q' \<le> p"
        if "tx0 \<in> set txs" "b256_from_str E (qt_tx_hash tx0) = Some k" "map_of expected k = Some g'"
          "query_priority (qt_status tx0) = Some q'" for tx0 k g' q'
      proof -
        from ok that obtain p tx' where p: "map_of m k = Some (p, g', tx')" "q' \<le> p"
          unfolding relevant_ok_def by blast
        with True t(2) that(3) wf show ?thesis
          by (cases "k = h") (auto simp: alist_simps)
      qed
      from True t have "add_relevant E expected tx m = bt_insert h (q, g, tx) m"
        by (simp add: add_relevant_def)
      moreover have "relevant_ok E expected (txs @ [tx]) (bt_insert h (q, g, tx) m)"
        unfolding relevant_ok_def
      proof (intro conjI)
        show "\<forall>k p g' tx'. map_of (bt_insert h (q, g, tx) m) k = Some (p, g', tx') \<longrightarrow>
            map_of expected k = Some g' \<and> query_priority (qt_status tx') = Some p"
          using ok t wf by (auto simp: relevant_ok_def alist_simps split: if_splits)
      qed (use wf t old in \<open>auto simp: alist_simps\<close>)
      ultimately show ?thesis by simp
    next
      case False
      then obtain p g' tx' where p: "map_of m h = Some (p, g', tx')" "q \<le> p"
        by (auto split: option.splits)
      then have "g' = g" using ok t(2) unfolding relevant_ok_def by (metis option.inject)
      with False t p have "add_relevant E expected tx m = m" by (simp add: add_relevant_def)
      moreover have "relevant_ok E expected (txs @ [tx]) m" by (rule keep) (use t p \<open>g' = g\<close> in auto)
      ultimately show ?thesis by simp
    qed
  qed
qed

lemma relevant_correct: "relevant_ok E expected txs (relevant E expected txs)"
proof -
  have "relevant_ok E expected (seen @ txs) (fold (add_relevant E expected) txs m)"
    if "relevant_ok E expected seen m" for seen m
    using that
  proof (induction txs arbitrary: seen m)
    case (Cons tx txs)
    from Cons.IH [OF add_relevant_ok [OF Cons.prems]] show ?case by simp
  qed simp
  from this [of "[]" "[]"] show ?thesis by (simp add: relevant_def relevant_ok_def)
qed

lemma apply_relevant_snd:
  "snd (apply_relevant cfg now ((h, pr, g, tx) # m) p) =
     snd (apply_relevant cfg now m (snd (apply_query_status h g (qt_status tx) cfg now p)))"
  by (simp split: prod.splits)

lemma pool_get_apply_relevant [pool_simps]:
  assumes "distinct (map fst m)"
  shows "pool_get (snd (apply_relevant cfg now m p)) k = (case pool_get p k of
     None \<Rightarrow> None
   | Some e \<Rightarrow> Some (case map_of m k of
        None \<Rightarrow> e
      | Some (_, g, tx) \<Rightarrow> if be_generation e = g \<and> \<not> is_terminal (be_status e)
                          then snd (query_update (qt_status tx) cfg now e) else e))"
  using assms
proof (induction m arbitrary: p)
  case (Cons a m)
  obtain h pr g tx where a: "a = (h, pr, g, tx)" by (cases a) auto
  have "map_of m h = None" using Cons.prems a by (auto simp: map_of_eq_None_iff)
  with Cons show ?case
    by (auto simp: a apply_relevant_snd pool_simps simp del: apply_relevant.simps split: option.splits)
qed (simp split: option.splits)

lemma query_update_reason:
  "Option.bind (fst (query_update st cfg now e)) terminal_reason_of = Some r \<Longrightarrow>
     be_status (snd (query_update st cfg now e)) = Dropped"
  by (auto simp: query_update_def resolve_total_timeout_def split: if_splits timeout_action.splits)

lemma apply_query_status_result:
  "fst (apply_query_status h g st cfg now p) = (case pool_get p h of
     None \<Rightarrow> None
   | Some e \<Rightarrow> if be_generation e = g \<and> \<not> is_terminal (be_status e)
              then fst (query_update st cfg now e) else None)"
  by (auto simp: apply_query_status_def split: option.splits prod.splits)

lemma apply_relevant_events:
  assumes "distinct (map fst m)"
  shows "ev \<in> set (fst (apply_relevant cfg now m p)) \<longleftrightarrow>
    (\<exists>pr tx e. map_of m (te_tx_hash ev) = Some (pr, te_generation ev, tx) \<and>
       pool_get p (te_tx_hash ev) = Some e \<and> be_generation e = te_generation ev \<and> \<not> is_terminal (be_status e) \<and>
       Option.bind (fst (query_update (qt_status tx) cfg now e)) terminal_reason_of = Some (te_reason ev))"
  using assms
proof (induction m arbitrary: p)
  case (Cons a m)
  obtain h pr g tx where a: "a = (h, pr, g, tx)" by (cases a) auto
  let ?p1 = "snd (apply_query_status h g (qt_status tx) cfg now p)"
  have nm: "map_of m h = None" using Cons.prems a by (auto simp: map_of_eq_None_iff)
  have get: "pool_get ?p1 k = pool_get p k" if "k \<noteq> h" for k using that by (simp add: pool_simps split: option.splits)
  have fst_Cons: "fst (apply_relevant cfg now (a # m) p) =
      (case Option.bind (fst (apply_query_status h g (qt_status tx) cfg now p)) terminal_reason_of of
         None \<Rightarrow> [] | Some reason \<Rightarrow> [\<lparr>te_tx_hash = h, te_generation = g, te_reason = reason\<rparr>]) @
      fst (apply_relevant cfg now m ?p1)"
    by (simp add: a split: prod.splits)
  have IH: "ev \<in> set (fst (apply_relevant cfg now m ?p1)) \<longleftrightarrow>
    (\<exists>pr tx e. map_of m (te_tx_hash ev) = Some (pr, te_generation ev, tx) \<and>
       pool_get ?p1 (te_tx_hash ev) = Some e \<and> be_generation e = te_generation ev \<and> \<not> is_terminal (be_status e) \<and>
       Option.bind (fst (query_update (qt_status tx) cfg now e)) terminal_reason_of = Some (te_reason ev))"
    using Cons.IH [of ?p1] Cons.prems by simp
  show ?case
  proof (cases "te_tx_hash ev = h")
    case True
    then have "ev \<notin> set (fst (apply_relevant cfg now m ?p1))" using IH nm by simp
    then show ?thesis unfolding fst_Cons
      using True by (cases ev) (auto simp: a apply_query_status_result split: option.splits if_splits)
  next
    case False
    then show ?thesis unfolding fst_Cons
      using IH get [OF False] by (cases ev) (auto simp: a split: option.splits)
  qed
qed simp

lemma emit_terminals_frame [simp]:
  "sh_pool (fold emit_terminal evs s) = sh_pool s" "sh_config (fold emit_terminal evs s) = sh_config s"
  "sh_rules (fold emit_terminal evs s) = sh_rules s"
  "sh_terminal_events (fold emit_terminal evs s) = sh_terminal_events s @ evs"
  by (induction evs arbitrary: s) (auto simp: emit_terminal_def)

lemma query_apply_fields:
  "sh_pool (query_apply E expected now txs sh) =
     snd (apply_relevant (sh_config sh) now (relevant E expected txs) (sh_pool sh))"
  "sh_terminal_events (query_apply E expected now txs sh) = sh_terminal_events sh @
     fst (apply_relevant (sh_config sh) now (relevant E expected txs) (sh_pool sh))"
  "sh_config (query_apply E expected now txs sh) = sh_config sh"
  by (simp_all add: query_apply_def split: prod.splits)

lemma relevant_distinct: "distinct (map fst (relevant E expected txs))"
  using relevant_correct [of E expected txs] by (auto simp: relevant_ok_def intro: bt_wf_distinct)

lemma query_priority_2: "query_priority st = Some p \<Longrightarrow> 2 \<le> p \<Longrightarrow> st = ''denied'' \<or> st = ''outdated''"
  by (auto simp: query_priority_def split: if_splits)

lemma query_update_negative:
  assumes "st = ''denied'' \<or> st = ''outdated''"
  shows "(be_status (snd (query_update st cfg now e)) = Dropped \<and>
      (\<exists>r. Option.bind (fst (query_update st cfg now e)) terminal_reason_of = Some r)) \<or>
    (be_status (snd (query_update st cfg now e)) = TimedOutAllow \<and> be_timeout_action e = TimeoutAllow \<and>
      now - be_first_not_submitted_at e > as_secs (fc_total_retry_timeout cfg) \<and> be_status e \<noteq> Approved)"
  using assms by (auto simp: query_update_def resolve_total_timeout_def split: if_splits timeout_action.splits)

text \<open>
  C9. A negative verdict cannot be masked: if an answer mentions a live transaction of the queried
  generation as denied or outdated anywhere, then whatever else the answer says about it and in
  whatever order, its entry ends up dropped and a terminal event for that lifecycle is published,
  unless its retry window had already closed fail-open while it was still undecided.
\<close>

theorem negative_verdict_wins:
  assumes "pool_get (sh_pool sh) h = Some e" "\<not> is_terminal (be_status e)"
    and "map_of expected h = Some (be_generation e)"
    and "tx \<in> set txs" "b256_from_str E (qt_tx_hash tx) = Some h" "qt_status tx \<in> {''denied'', ''outdated''}"
    and "sh' = query_apply E expected now txs sh"
  shows "\<exists>e'. pool_get (sh_pool sh') h = Some e' \<and> be_generation e' = be_generation e \<and>
    (be_status e' = Dropped \<and>
       (\<exists>r. \<lparr>te_tx_hash = h, te_generation = be_generation e, te_reason = r\<rparr> \<in> set (sh_terminal_events sh')) \<or>
     be_status e' = TimedOutAllow \<and> be_timeout_action e = TimeoutAllow \<and> be_status e \<noteq> Approved \<and>
       now - be_first_not_submitted_at e > as_secs (fc_total_retry_timeout (sh_config sh)))"
proof -
  let ?m = "relevant E expected txs"
  have "query_priority (qt_status tx) = Some 2" using assms(6) by (auto simp: query_priority_def)
  with relevant_correct [of E expected txs] assms(3-5) obtain p tx' where
    m: "map_of ?m h = Some (p, be_generation e, tx')" "2 \<le> p" "query_priority (qt_status tx') = Some p"
    unfolding relevant_ok_def by blast
  let ?e' = "snd (query_update (qt_status tx') (sh_config sh) now e)"
  have get: "pool_get (sh_pool sh') h = Some ?e'"
    using assms(1,2,7) m(1) by (simp add: query_apply_fields pool_simps relevant_distinct)
  have gen: "be_generation ?e' = be_generation e"
    using entry_step_frame(1) [OF entry_step_query [OF assms(2), where st = "qt_status tx'" and cfg = "sh_config sh" and now = now]] by simp
  have "\<lparr>te_tx_hash = h, te_generation = be_generation e, te_reason = r\<rparr> \<in> set (sh_terminal_events sh')"
    if "Option.bind (fst (query_update (qt_status tx') (sh_config sh) now e)) terminal_reason_of = Some r" for r
    using that assms(1,2,7) m(1) by (simp add: query_apply_fields apply_relevant_events [OF relevant_distinct])
  with query_update_negative [OF query_priority_2 [OF m(3,2)], of "sh_config sh" now e] get gen show ?thesis by auto
qed

definition sample_submitted_shared :: shared where
  "sample_submitted_shared = (spawn_shared default_config)
     \<lparr>sh_pool := put 7 ((sample_entry TimeoutDeny)\<lparr>be_generation := 1, be_status := Submitted\<rparr>) pool_default\<rparr>"

definition sample_verdict :: "string \<Rightarrow> query_tx" where
  "sample_verdict status = \<lparr>qt_tx_hash = sample_hash_string, qt_status = status, qt_decided_at = None, qt_reason = None\<rparr>"

theorem negative_verdict_wins_witness:
  "\<exists>e'. pool_get (sh_pool (query_apply sample_ext [(7, 1)] 1005
       [sample_verdict ''denied'', sample_verdict ''approved''] sample_submitted_shared)) 7 = Some e' \<and>
     be_status e' = Dropped"
proof -
  let ?e = "(sample_entry TimeoutDeny)\<lparr>be_generation := 1, be_status := Submitted\<rparr>"
  have get: "pool_get (sh_pool sample_submitted_shared) 7 = Some ?e"
    by (simp add: sample_submitted_shared_def pool_simps)
  have parse: "b256_from_str sample_ext (qt_tx_hash (sample_verdict ''denied'')) = Some 7"
    by (simp add: sample_verdict_def) code_simp
  have ta: "be_timeout_action ?e = TimeoutDeny" "\<not> is_terminal (be_status ?e)" "be_generation ?e = 1"
    by (simp_all add: sample_entry_def is_terminal_def)
  have st: "qt_status (sample_verdict ''denied'') \<in> {''denied'', ''outdated''}" by (simp add: sample_verdict_def)
  from negative_verdict_wins [OF get ta(2) _ _ parse st refl, of "[(7, 1)]" "[sample_verdict ''denied'', sample_verdict ''approved'']" 1005]
  show ?thesis using ta by auto
qed

section \<open>The filter as a whole\<close>

text \<open>
  Every critical section of the screening threads, the workers and the builder's clean-up, as one
  step on the shared state. The guard of \<open>fs_buffer\<close> says that the 64-bit generation counter does
  not wrap; a \<open>HashMap\<close> of expected generations has distinct keys.
\<close>

inductive filter_step :: "ext \<Rightarrow> shared \<Rightarrow> shared \<Rightarrow> bool" for E where
  fs_existing: "filter_step E s (snd (screen_existing E now input snap s))"
| fs_buffer: "bp_next_generation (sh_pool s) \<le> bp_next_generation (sh_pool s) + 1 \<Longrightarrow>
    filter_step E s (buffer_audit E now input rules acts ta s)"
| fs_count: "filter_step E s (increment name n s)"
| fs_local_deny: "filter_step E s (record_local_deny reason s)"
| fs_load: "filter_step E s (snd (load_and_install E answer s))"
| fs_poll: "filter_step E s (rules_poll E version body s)"
| fs_collect: "filter_step E s (snd (submit_collect E now s))"
| fs_begin: "filter_step E s (snd (submit_group_begin now g s))"
| fs_finish: "distinct (map fst expected) \<Longrightarrow>
    filter_step E s (snd (submit_group_finish E now expected result s))"
| fs_query_begin: "filter_step E s (expire now s)"
| fs_query_answer: "filter_step E s (snd (query_answer E expected (now, result') (err, s)))"
| fs_timeout: "filter_step E s (snd (timeout_once now s))"
| fs_canonical: "filter_step E s (snd (remove_canonical_transactions hs s))"
| fs_lag: "filter_step E s (snd (recover_canonical_lag skipped s))"
| fs_absent: "filter_step E s (snd (remove_absent_lifecycle h gen s))"

lemma nowrap_stepI: "pool_step E cfg p p' \<Longrightarrow> bp_next_generation p \<le> bp_next_generation p' \<Longrightarrow> pool_step_nowrap E cfg p p'"
  by (simp add: pool_step_nowrap_def)

lemma apply_relevant_steps: "(pool_step_nowrap E cfg)\<^sup>*\<^sup>* p (snd (apply_relevant cfg now m p))"
proof (induction m arbitrary: p)
  case (Cons a m)
  obtain h pr g tx where a: "a = (h, pr, g, tx)" by (cases a) auto
  have "pool_step_nowrap E cfg p (snd (apply_query_status h g (qt_status tx) cfg now p))"
    by (rule nowrap_stepI [OF pool_step.step_query]) simp
  from converse_rtranclp_into_rtranclp [OF this Cons.IH] show ?case unfolding a apply_relevant_snd .
qed simp

lemma expire_steps: "(pool_step_nowrap E (sh_config s))\<^sup>*\<^sup>* (sh_pool s) (sh_pool (expire now s))"
  by (rule r_into_rtranclp, rule nowrap_stepI)
    (auto simp: resolve_total_timeouts_def intro: pool_step.step_total_timeouts [unfolded resolve_total_timeouts_def])

lemma screen_existing_pool:
  "sh_pool (snd (screen_existing E now input (st, q, g, rs) s)) = sh_pool s \<or>
   (\<exists>c. sh_pool (snd (screen_existing E now input (st, q, g, rs) s)) =
      snd (finish_consistency_check (si_tx_hash input) g c now (sh_pool s)))"
  by (cases st) (auto simp: screen_existing_def Let_def split: prod.splits, (metis snd_conv)+)

lemma screen_existing_frame:
  "sh_config (snd (screen_existing E now input snap s)) = sh_config s"
  "sh_terminal_events (snd (screen_existing E now input snap s)) = sh_terminal_events s"
  by (cases snap; simp add: screen_existing_def Let_def split: buffer_status.splits prod.splits)+

lemma bp_next_consistency [simp]:
  "bp_next_generation (snd (finish_consistency_check h g c now p)) = bp_next_generation p"
  by (simp add: finish_consistency_check_def pool_simps split: option.splits)

lemma timeout_once_fields:
  "sh_pool (snd (timeout_once now s)) = snd (prune_terminal (as_secs (fc_terminal_entry_retention (sh_config s))) now
     (snd (check_timeouts (sh_config s) now (sh_pool s))))"
  "sh_config (snd (timeout_once now s)) = sh_config s"
  by (simp_all add: timeout_once_def Let_def split: prod.splits)

lemma timeout_once_steps: "(pool_step_nowrap E (sh_config s))\<^sup>*\<^sup>* (sh_pool s) (sh_pool (snd (timeout_once now s)))"
proof -
  let ?p = "snd (check_timeouts (sh_config s) now (sh_pool s))"
  have "pool_step_nowrap E (sh_config s) (sh_pool s) ?p"
    by (rule nowrap_stepI [OF pool_step.step_timeouts]) (simp add: check_timeouts_def)
  moreover have "pool_step_nowrap E (sh_config s) ?p (sh_pool (snd (timeout_once now s)))"
    unfolding timeout_once_fields by (rule nowrap_stepI [OF pool_step.step_prune]) (simp add: prune_terminal_def)
  ultimately show ?thesis by (meson converse_rtranclp_into_rtranclp r_into_rtranclp)
qed

lemma filter_step_pool:
  assumes "filter_step E s s'"
  shows "(pool_step_nowrap E (sh_config s))\<^sup>*\<^sup>* (sh_pool s) (sh_pool s') \<and> sh_config s' = sh_config s"
  using assms
proof (cases rule: filter_step.cases)
  case (fs_existing now input snap)
  obtain st q g rs where snap: "snap = (st, q, g, rs)" by (cases snap) auto
  have "pool_step_nowrap E (sh_config s) (sh_pool s) (snd (finish_consistency_check (si_tx_hash input) g c now (sh_pool s)))" for c
    by (rule nowrap_stepI [OF pool_step.step_consistency]) simp
  then show ?thesis using screen_existing_pool [of E now input st q g rs s] fs_existing
    by (auto simp: snap screen_existing_frame)
next
  case (fs_buffer now input rules acts ta)
  have "pool_step E (sh_config s) (sh_pool s) (pool_insert (new_entry E now input rules acts ta) (sh_pool s))"
    by (rule pool_step.step_insert) (simp add: new_entry_def)
  moreover have "bp_next_generation (sh_pool s) \<le> bp_next_generation (pool_insert (new_entry E now input rules acts ta) (sh_pool s))"
    using fs_buffer(2) by (simp add: pool_insert_def Let_def pool_simps)
  ultimately show ?thesis using fs_buffer(1) by (auto simp: buffer_audit_def intro: nowrap_stepI)
next
  case (fs_poll version body)
  then show ?thesis by (auto simp: rules_poll_def Let_def load_and_install_result split: sum.splits)
next
  case (fs_collect now)
  then show ?thesis using expire_steps by (simp add: submit_collect_def Let_def)
next
  case (fs_begin now g)
  then show ?thesis using expire_steps by (simp add: submit_group_begin_def Let_def)
next
  case (fs_finish expected now result)
  have "pool_step_nowrap E (sh_config s) (sh_pool s) (snd (apply_submit_response E acc expected (sh_config s) now (sh_pool s)))" for acc
    by (rule nowrap_stepI [OF pool_step.step_submit [OF fs_finish(2)]]) simp
  then show ?thesis using fs_finish(1) expire_steps [of E "record_request ReSubmit result s" now]
    by (auto simp: submit_group_finish_def Let_def split: sum.splits prod.splits) (metis r_into_rtranclp snd_conv)
next
  case (fs_query_answer expected now result err)
  then show ?thesis
    using apply_relevant_steps expire_steps [of E "record_request ReQuery result s" now]
    by (auto simp: query_answer_def Let_def query_apply_fields split: sum.splits)
next
  case (fs_canonical hs)
  have "pool_step_nowrap E (sh_config s) (sh_pool s) (snd (remove_canonical hs (sh_pool s)))"
    by (rule nowrap_stepI [OF pool_step.step_canonical]) simp
  then show ?thesis using fs_canonical by (auto simp: remove_canonical_transactions_def split: prod.splits)
next
  case (fs_lag skipped)
  have "pool_step_nowrap E (sh_config s) (sh_pool s) (snd (recover_after_canonical_lag (sh_pool s)))"
    by (rule nowrap_stepI [OF pool_step.step_lag]) (simp add: recover_after_canonical_lag_def)
  then show ?thesis using fs_lag by (auto simp: recover_canonical_lag_def split: prod.splits)
next
  case (fs_absent h g)
  have "pool_step_nowrap E (sh_config s) (sh_pool s) (snd (remove_non_terminal_if_generation h g (sh_pool s)))"
    by (rule nowrap_stepI [OF pool_step.step_absent]) (simp add: remove_non_terminal_if_generation_def Let_def)
  then show ?thesis using fs_absent by (auto simp: remove_absent_lifecycle_def split: prod.splits)
qed (use expire_steps timeout_once_steps in \<open>auto simp: load_and_install_result record_local_deny_def timeout_once_fields\<close>)

interpretation filter_env: step_simulation "filter_step E" "env_step E" "\<lambda>s. s" for E
proof
  fix q r
  assume "filter_step E q r"
  note f = filter_step_pool [OF this]
  have "(env_step E)\<^sup>*\<^sup>* q (set_pool (sh_pool r) q)" using f by (intro pool_steps_env) simp
  moreover have "env_step E (set_pool (sh_pool r) q) r" using f by (intro env_other) simp_all
  ultimately show "(env_step E)\<^sup>*\<^sup>* q r" by (rule rtranclp.rtrancl_into_rtrancl)
qed

text \<open>
  Every critical section of the filter is a sequence of pool operations: what a screening
  thread can observe of the workers and of the builder's clean-up is covered by the steps of other
  threads under which its decisions are justified.
\<close>

lemma filter_steps_refine_env:
  assumes "(filter_step E)\<^sup>*\<^sup>* s s'"
  shows "(env_step E)\<^sup>*\<^sup>* s s'"
  using filter_env.sim_steps [OF assms] .

lemma sample_filter_steps:
  "(filter_step sample_ext)\<^sup>*\<^sup>* (spawn_shared default_config)
     (snd (timeout_once 1091 (buffer_audit sample_ext 1000 (sample_input []) sample_audit_rules [] TimeoutDeny (spawn_shared default_config))))"
proof -
  have "filter_step sample_ext (spawn_shared default_config)
      (buffer_audit sample_ext 1000 (sample_input []) sample_audit_rules [] TimeoutDeny (spawn_shared default_config))"
    by (rule fs_buffer) (simp add: spawn_shared_def pool_default_def)
  then show ?thesis by (meson fs_timeout r_into_rtranclp rtranclp.rtrancl_into_rtrancl)
qed

lemma filter_steps_refine_env_witness:
  "\<exists>s'. (filter_step sample_ext)\<^sup>*\<^sup>* (spawn_shared default_config) s' \<and>
     (env_step sample_ext)\<^sup>*\<^sup>* (spawn_shared default_config) s' \<and> sh_terminal_events s' \<noteq> []"
proof -
  have "sh_terminal_events (snd (timeout_once 1091 (buffer_audit sample_ext 1000 (sample_input []) sample_audit_rules []
      TimeoutDeny (spawn_shared default_config)))) \<noteq> []"
    by (simp add: timeout_once_def Let_def buffer_audit_def spawn_shared_def check_timeouts_def update_all_def
        pool_insert_def pool_contains_def pool_get_def pool_default_def put_def new_entry_def sample_input_def
        timeout_update_def resolve_total_timeout_def default_config_def from_secs_def as_secs_def
        emit_timeout_resolutions_def emit_terminal_def List.map_filter_def split: prod.splits)
  with filter_steps_refine_env [OF sample_filter_steps] sample_filter_steps show ?thesis by blast
qed

section \<open>Terminal events\<close>

definition closed :: "buffer_pool \<Rightarrow> terminal_event \<Rightarrow> bool" where
  "closed p ev \<longleftrightarrow> te_generation ev \<le> bp_next_generation p \<and>
     (\<forall>e. pool_get p (te_tx_hash ev) = Some e \<and> be_generation e = te_generation ev \<longrightarrow> be_status e = Dropped)"

lemma closed_steps:
  assumes "closed p ev" "(pool_step_nowrap E cfg)\<^sup>*\<^sup>* p p'" "pool_wf p" "pool.covered p"
  shows "closed p' ev"
proof -
  note fr = pool.steps_frame [OF assms(2-4)]
  have "be_status e' = Dropped" if e': "pool_get p' (te_tx_hash ev) = Some e'" "be_generation e' = te_generation ev" for e'
  proof (cases "pool.absent p (te_tx_hash ev) (te_generation ev)")
    case True
    from pool.absent_forever [OF assms(2-4) _ True] assms(1) e' show ?thesis
      by (auto simp: closed_def pool.absent_def)
  next
    case False
    then obtain e where e: "pool_get p (te_tx_hash ev) = Some e" "be_generation e = te_generation ev"
      by (auto simp: pool.absent_def)
    then have d: "be_status e = Dropped" using assms(1) by (simp add: closed_def)
    from pool.final_forever [OF assms(2-4) e(1)] d e e' show ?thesis
      by (auto simp: pool.absent_def is_terminal_def)
  qed
  with assms(1) fr show ?thesis by (auto simp: closed_def)
qed

lemma emit_timeout_events:
  "sh_terminal_events (emit_timeout_resolutions rs s) = sh_terminal_events s @
     map (\<lambda>(h, g, r). \<lparr>te_tx_hash = h, te_generation = g, te_reason = TrFailCloseTimeout\<rparr>)
       (filter (\<lambda>(h, g, r). r = Discard) rs)"
proof (induction rs arbitrary: s)
  case (Cons x rs)
  then show ?case
    by (cases x) (auto simp: emit_timeout_resolutions_def emit_terminal_def)
qed (simp add: emit_timeout_resolutions_def)

definition reports_closed :: "buffer_pool \<Rightarrow> (b256 \<times> u64 \<times> resolution) list \<Rightarrow> bool" where
  "reports_closed p rs \<longleftrightarrow> (\<forall>h g. (h, g, Discard) \<in> set rs \<longrightarrow>
     closed p \<lparr>te_tx_hash = h, te_generation = g, te_reason = TrFailCloseTimeout\<rparr>)"

lemma reports_closed_events:
  assumes "reports_closed p rs" "ev \<in> set (sh_terminal_events (emit_timeout_resolutions rs s))"
  shows "ev \<in> set (sh_terminal_events s) \<or> closed p ev"
  using assms by (auto simp: emit_timeout_events reports_closed_def)

lemma resolve_discard: "fst (resolve_total_timeout cfg now e) = Some Discard \<Longrightarrow>
    be_status (snd (resolve_total_timeout cfg now e)) = Dropped"
  by (auto simp: resolve_total_timeout_def split: if_splits timeout_action.splits)

lemma update_all_reports_closed:
  assumes "pool_wf p" "pool.covered p"
    and "\<And>e. fst (f e) = Some Discard \<Longrightarrow> be_status (snd (f e)) = Dropped"
  shows "reports_closed (snd (update_all f p)) (fst (update_all f p))"
  using assms unfolding reports_closed_def closed_def update_all_reports [OF assms(1)]
  by (auto simp: pool_simps pool.covered_def)

lemma submit_loop_reports:
  "fst (submit_loop cfg now acc ((h, g) # hs) p) =
     (case pool_get p h of
        None \<Rightarrow> []
      | Some e \<Rightarrow> if be_generation e = g
          then (case fst (resolve_total_timeout cfg now e) of None \<Rightarrow> [] | Some r \<Rightarrow> [(h, g, r)]) else []) @
     fst (submit_loop cfg now acc hs (case pool_get p h of
        Some e \<Rightarrow> if be_generation e = g then put h (submit_update cfg now (h \<in> acc) e) p else p
      | None \<Rightarrow> p))"
  by (auto simp: submit_update_def put_same split: option.splits prod.splits)

lemma reported_here:
  assumes "(h, g, r) \<in> set xs"
    and "xs = (case found of None \<Rightarrow> [] | Some e \<Rightarrow> if P e then (case F e of None \<Rightarrow> [] | Some r' \<Rightarrow> [(k, gk, r')]) else [])"
  shows "\<exists>e. found = Some e \<and> P e \<and> F e = Some r \<and> h = k \<and> g = gk"
proof (cases found)
  case None
  then have "xs = []" using assms(2) by simp
  then show ?thesis using assms(1) by simp
next
  case (Some e)
  have "xs = []" if "\<not> P e \<or> F e = None" using assms(2) Some that by (elim disjE) simp_all
  then obtain r' where r': "P e" "F e = Some r'" using assms(1) by (metis empty_iff empty_set option.exhaust)
  then have "xs = [(k, gk, r')]" using assms(2) Some by simp
  then show ?thesis using assms(1) Some r' by simp
qed

lemma submit_loop_report:
  assumes "distinct (map fst hs)" "(h, g, r) \<in> set (fst (submit_loop cfg now acc hs p))"
  shows "\<exists>e. map_of hs h = Some g \<and> pool_get p h = Some e \<and> be_generation e = g \<and>
      fst (resolve_total_timeout cfg now e) = Some r"
  using assms
proof (induction hs arbitrary: p)
  case (Cons x hs)
  obtain k gk where x: "x = (k, gk)" by force
  let ?p = "case pool_get p k of
      Some e \<Rightarrow> if be_generation e = gk then put k (submit_update cfg now (k \<in> acc) e) p else p | None \<Rightarrow> p"
  have ne: "map_of hs k = None" using Cons.prems(1) x by (auto simp: map_of_eq_None_iff)
  have get: "pool_get ?p j = pool_get p j" if "j \<noteq> k" for j using that by (simp add: pool_simps split: option.splits)
  let ?here = "case pool_get p k of
      None \<Rightarrow> []
    | Some e \<Rightarrow> if be_generation e = gk
        then (case fst (resolve_total_timeout cfg now e) of None \<Rightarrow> [] | Some r \<Rightarrow> [(k, gk, r)]) else []"
  have "(h, g, r) \<in> set ?here \<or> (h, g, r) \<in> set (fst (submit_loop cfg now acc hs ?p))"
    using Cons.prems(2) unfolding x submit_loop_reports set_append Un_iff .
  then show ?case
  proof
    assume "(h, g, r) \<in> set ?here"
    from reported_here [OF this refl] show ?thesis by (auto simp: x)
  next
    assume "(h, g, r) \<in> set (fst (submit_loop cfg now acc hs ?p))"
    from Cons.IH [OF _ this] Cons.prems(1) obtain e where
      "map_of hs h = Some g" "pool_get ?p h = Some e" "be_generation e = g" "fst (resolve_total_timeout cfg now e) = Some r"
      by auto
    moreover from this(1) ne have "h \<noteq> k" by auto
    ultimately show ?thesis using get [of h] by (auto simp: x)
  qed
qed simp

lemma submit_update_discard:
  "fst (resolve_total_timeout cfg now e) = Some Discard \<Longrightarrow> be_status (submit_update cfg now a e) = Dropped"
  using resolve_discard [of cfg now e] by (auto simp: submit_update_def split: prod.splits option.splits)

lemma submit_reports_closed:
  assumes "distinct (map fst hs)" "pool.covered p"
  shows "reports_closed (snd (submit_loop cfg now acc hs p)) (fst (submit_loop cfg now acc hs p))"
  unfolding reports_closed_def
proof (intro allI impI)
  fix h g
  assume "(h, g, Discard) \<in> set (fst (submit_loop cfg now acc hs p))"
  from submit_loop_report [OF assms(1) this] obtain e where
    e: "map_of hs h = Some g" "pool_get p h = Some e" "be_generation e = g" "fst (resolve_total_timeout cfg now e) = Some Discard"
    by blast
  have "g \<le> bp_next_generation p" using assms(2) e(2,3) by (auto simp: pool.covered_def)
  with e submit_update_discard [OF e(4)] show
    "closed (snd (submit_loop cfg now acc hs p)) \<lparr>te_tx_hash = h, te_generation = g, te_reason = TrFailCloseTimeout\<rparr>"
    by (auto simp: closed_def pool_get_submit_loop [OF assms(1)])
qed

lemma expire_events:
  assumes "pool_wf (sh_pool s)" "pool.covered (sh_pool s)" "ev \<in> set (sh_terminal_events (expire now s))"
  shows "ev \<in> set (sh_terminal_events s) \<or> closed (sh_pool (expire now s)) ev"
proof -
  let ?r = "resolve_total_timeouts (sh_config s) now (sh_pool s)"
  have "reports_closed (snd ?r) (fst ?r)"
    unfolding resolve_total_timeouts_def by (rule update_all_reports_closed [OF assms(1,2) resolve_discard])
  moreover have "sh_terminal_events (expire now s) =
      sh_terminal_events (emit_timeout_resolutions (fst ?r) (set_pool (snd ?r) s))"
    by (simp add: expire_def Let_def split: prod.splits)
  ultimately show ?thesis using assms(3) reports_closed_events by fastforce
qed

lemma timeout_discard: "fst (timeout_update cfg now e) = Some Discard \<Longrightarrow> be_status (snd (timeout_update cfg now e)) = Dropped"
  using resolve_discard [of cfg now e] by (auto simp: timeout_update_def Let_def split: prod.splits option.splits if_splits)

lemma timeout_once_events:
  assumes "pool_wf (sh_pool s)" "pool.covered (sh_pool s)" "ev \<in> set (sh_terminal_events (snd (timeout_once now s)))"
  shows "ev \<in> set (sh_terminal_events s) \<or> closed (sh_pool (snd (timeout_once now s))) ev"
proof -
  let ?r = "check_timeouts (sh_config s) now (sh_pool s)"
  let ?p = "snd (prune_terminal (as_secs (fc_terminal_entry_retention (sh_config s))) now (snd ?r))"
  have cl: "reports_closed (snd ?r) (fst ?r)"
    unfolding check_timeouts_def by (rule update_all_reports_closed [OF assms(1,2) timeout_discard])
  have "pool_step_nowrap E (sh_config s) (sh_pool s) (snd ?r)" for E
    by (rule nowrap_stepI [OF pool_step.step_timeouts]) (simp add: check_timeouts_def)
  from pool.step_wf [OF assms(1) this] pool.step_covered [OF assms(1,2) this]
  have wf: "pool_wf (snd ?r)" "pool.covered (snd ?r)" by auto
  have "pool_step_nowrap E (sh_config s) (snd ?r) ?p" for E
    by (rule nowrap_stepI [OF pool_step.step_prune]) (simp add: prune_terminal_def)
  from closed_steps [OF _ r_into_rtranclp [where r = "pool_step_nowrap _ _", OF this] wf]
  have "closed (snd ?r) ev \<Longrightarrow> closed (sh_pool (snd (timeout_once now s))) ev"
    by (simp add: timeout_once_fields)
  moreover have "sh_terminal_events (snd (timeout_once now s)) =
      sh_terminal_events (emit_timeout_resolutions (fst ?r) (set_pool ?p s))"
    by (simp add: timeout_once_def Let_def split: prod.splits)
  ultimately show ?thesis using assms(3) reports_closed_events [OF cl] by fastforce
qed

lemma query_apply_events:
  assumes "pool.covered (sh_pool s)" "ev \<in> set (sh_terminal_events (query_apply E expected now txs s))"
  shows "ev \<in> set (sh_terminal_events s) \<or> closed (sh_pool (query_apply E expected now txs s)) ev"
proof (cases "ev \<in> set (sh_terminal_events s)")
  case False
  let ?m = "relevant E expected txs"
  from False assms(2) have "ev \<in> set (fst (apply_relevant (sh_config s) now ?m (sh_pool s)))"
    by (simp add: query_apply_fields)
  then obtain pr tx e where e: "map_of ?m (te_tx_hash ev) = Some (pr, te_generation ev, tx)"
    "pool_get (sh_pool s) (te_tx_hash ev) = Some e" "be_generation e = te_generation ev" "\<not> is_terminal (be_status e)"
    "Option.bind (fst (query_update (qt_status tx) (sh_config s) now e)) terminal_reason_of = Some (te_reason ev)"
    unfolding apply_relevant_events [OF relevant_distinct] by blast
  have "te_generation ev \<le> bp_next_generation (sh_pool s)" using assms(1) e(2,3) unfolding pool.covered_def by metis
  moreover have "bp_next_generation (snd (apply_relevant cfg now m p)) = bp_next_generation p" for cfg m p
  proof (induction m arbitrary: p)
    case (Cons a m)
    then show ?case by (cases a) (simp only: apply_relevant_snd bp_next_query)
  qed simp
  ultimately show ?thesis
    using e query_update_reason [OF e(5)] by (simp add: closed_def query_apply_fields pool_simps relevant_distinct)
qed simp

lemma apply_submit_closed:
  assumes "distinct (map fst expected)" "pool.covered p"
  shows "reports_closed (snd (apply_submit_response E acc expected cfg now p)) (fst (apply_submit_response E acc expected cfg now p))"
  unfolding apply_submit_response_def by (rule submit_reports_closed [OF assms])

lemma filter_step_events:
  assumes "filter_step E s s'" "pool_wf (sh_pool s)" "pool.covered (sh_pool s)" "ev \<in> set (sh_terminal_events s')"
  shows "ev \<in> set (sh_terminal_events s) \<or> closed (sh_pool s') ev"
  using assms(1)
proof (cases rule: filter_step.cases)
  case (fs_collect now)
  then show ?thesis using expire_events [OF assms(2,3)] assms(4) by (simp add: submit_collect_def Let_def)
next
  case (fs_begin now g)
  then show ?thesis using expire_events [OF assms(2,3)] assms(4) by (simp add: submit_group_begin_def Let_def)
next
  case (fs_query_begin now)
  then show ?thesis using expire_events [OF assms(2,3)] assms(4) by simp
next
  case (fs_timeout now)
  then show ?thesis using timeout_once_events [OF assms(2,3)] assms(4) by simp
next
  case (fs_finish expected now result)
  note ex = expire_events [of "record_request ReSubmit result s" ev now]
  show ?thesis
  proof (cases result)
    case (Inl e)
    then show ?thesis using ex fs_finish(1) assms(2-4) by (simp add: submit_group_finish_def)
  next
    case (Inr resp)
    then show ?thesis
      using fs_finish(1) assms(4)
        reports_closed_events [OF apply_submit_closed [OF fs_finish(2) assms(3)], of ev E "accepted resp" "sh_config s" now]
      by (fastforce simp: submit_group_finish_def Let_def split: prod.splits)
  qed
next
  case (fs_query_answer expected now result err)
  note ex = expire_events [of "record_request ReQuery result s" ev now]
  note qa = query_apply_events [of "record_request ReQuery result s" ev E expected now]
  show ?thesis
    using fs_query_answer assms(2-4) ex qa by (cases result) (simp_all add: query_answer_def)
qed (use assms(4) in \<open>auto simp: screen_existing_frame buffer_audit_def record_local_deny_def load_and_install_result rules_poll_def Let_def
    remove_canonical_transactions_def recover_canonical_lag_def remove_absent_lifecycle_def split: sum.splits prod.splits if_splits\<close>)

definition filter_reachable :: "ext \<Rightarrow> filter_config \<Rightarrow> shared \<Rightarrow> bool" where
  "filter_reachable E cfg s \<longleftrightarrow> (filter_step E)\<^sup>*\<^sup>* (spawn_shared cfg) s"

lemma filter_steps_pool:
  assumes "(filter_step E)\<^sup>*\<^sup>* s s'"
  shows "(pool_step_nowrap E (sh_config s))\<^sup>*\<^sup>* (sh_pool s) (sh_pool s') \<and> sh_config s' = sh_config s"
  using assms
proof (induction rule: rtranclp_induct)
  case (step q r)
  with filter_step_pool [OF step.hyps(2)] show ?case by (metis rtranclp_trans)
qed simp

lemma filter_reachable_pool:
  assumes "filter_reachable E cfg s"
  shows "pool_reachable_nowrap E cfg (sh_pool s)" "sh_config s = cfg"
  using filter_steps_pool [OF assms [unfolded filter_reachable_def]]
  by (simp_all add: spawn_shared_def pool_reachable_nowrap_def)

lemma filter_reachable_events:
  assumes "filter_reachable E cfg s"
  shows "\<forall>ev \<in> set (sh_terminal_events s). closed (sh_pool s) ev"
  using assms unfolding filter_reachable_def
proof (induction rule: rtranclp_induct)
  case base
  then show ?case by (simp add: spawn_shared_def)
next
  case (step q r)
  from step.hyps(1) have q: "filter_reachable E cfg q" by (simp add: filter_reachable_def)
  note fr = reachable_nowrap_frame [OF filter_reachable_pool(1) [OF q]]
  show ?case
    using filter_step_events [OF step.hyps(2) fr] step.IH
      closed_steps [OF _ conjunct1 [OF filter_step_pool [OF step.hyps(2)]] fr] by blast
qed

text \<open>
  C17. A published terminal event is final: in every state the filter can reach from its start, a
  lifecycle whose terminal event was ever broadcast is either gone from the pool or a dropped
  tombstone there, and stays so whatever happens next; it is never deferred, executed or released.
\<close>

theorem terminal_event_is_final:
  assumes "filter_reachable E cfg s" "ev \<in> set (sh_terminal_events s)" "(filter_step E)\<^sup>*\<^sup>* s s'"
    and "pool_get (sh_pool s') (te_tx_hash ev) = Some e" "be_generation e = te_generation ev"
  shows "be_status e = Dropped \<and> pre_screen (te_tx_hash ev) s' = PsDrop"
proof -
  have "filter_reachable E cfg s" by fact
  note fr = reachable_nowrap_frame [OF filter_reachable_pool(1) [OF this]]
  have "closed (sh_pool s) ev" using filter_reachable_events assms(1,2) by blast
  then have "closed (sh_pool s') ev"
    using closed_steps [OF _ conjunct1 [OF filter_steps_pool [OF assms(3)]] fr] by blast
  with assms(4,5) show ?thesis by (auto simp: closed_def pre_screen_def)
qed

theorem terminal_event_is_final_witness:
  "\<exists>s ev. filter_reachable sample_ext default_config s \<and> ev \<in> set (sh_terminal_events s) \<and>
     pre_screen (te_tx_hash ev) s = PsDrop"
proof -
  let ?s0 = "buffer_audit sample_ext 1000 (sample_input []) sample_audit_rules [] TimeoutDeny (spawn_shared default_config)"
  let ?s = "snd (timeout_once 1091 ?s0)"
  let ?ev = "\<lparr>te_tx_hash = 7, te_generation = 1, te_reason = TrFailCloseTimeout\<rparr>"
  let ?e = "(new_entry sample_ext 1000 (sample_input []) sample_audit_rules [] TimeoutDeny)\<lparr>be_generation := 1, be_status := Dropped, be_last_transition_at := 1091\<rparr>"
  note defs = timeout_once_def Let_def buffer_audit_def spawn_shared_def check_timeouts_def update_all_def
        pool_insert_def pool_contains_def pool_get_def pool_default_def put_def new_entry_def sample_input_def
        timeout_update_def resolve_total_timeout_def default_config_def from_secs_def as_secs_def set_status_def
        emit_timeout_resolutions_def emit_terminal_def List.map_filter_def prune_terminal_def retain_def is_terminal_def
  have r: "filter_reachable sample_ext default_config ?s"
    unfolding filter_reachable_def by (rule sample_filter_steps)
  have ev: "?ev \<in> set (sh_terminal_events ?s)" by (simp add: defs)
  have get: "pool_get (sh_pool ?s) (te_tx_hash ?ev) = Some ?e" by (simp add: defs)
  have gen: "be_generation ?e = te_generation ?ev" by simp
  from terminal_event_is_final [OF r ev rtranclp.rtrancl_refl get gen] r ev show ?thesis by blast
qed
end
