(* ===== verification/Rcs_Capture.thy ===== *)
theory Rcs_Capture
  imports Filter_Worker
begin

text \<open>
  The capture inspector of \<open>crates/builder/src/flashblocks/rcs_capture.rs\<close>, its control interface,
  and the guard and the fail-closed mapping of \<open>context.rs\<close> that drive it. The EVM's execution is
  the sequence of inspector hooks it calls, with the journal lengths and nonces it reads there;
  the address derivation of the EVM library is a parameter.
\<close>

section \<open>Observations\<close>

definition native_asset_address :: address where
  "native_asset_address = 0xEeeeeEeeeEeEeeEeEeEeeEEEeeeeEeeeeeeeEEeE"

datatype native_transfer_kind = NtCall | NtCreate | NtSelfDestruct

definition transfer_topic0 :: "ext \<Rightarrow> b256" where
  "transfer_topic0 E = keccak256 E (as_bytes ''Transfer(address,address,uint256)'')"

definition into_word :: "address \<Rightarrow> b256" where
  "into_word a = ucast a"

definition u256_be_bytes :: "u256 \<Rightarrow> byte list" where
  "u256_be_bytes v = map (\<lambda>i. ucast (drop_bit (8 * (31 - i)) v)) [0..<32]"

definition native_transfer_log :: "ext \<Rightarrow> address \<Rightarrow> address \<Rightarrow> u256 \<Rightarrow> log" where
  "native_transfer_log E from to_addr value =
     \<lparr>log_address = native_asset_address,
      log_topics = [transfer_topic0 E, into_word from, into_word to_addr],
      log_data = u256_be_bytes value\<rparr>"

datatype capture_invariant_error =
    RealLogMismatch nat nat nat
  | CreateAddressMismatch nat

datatype capture_outcome =
    CoPassthrough
  | CoComplete "log list"
  | CoLimitExceeded nat nat
  | CoInvariantViolation capture_invariant_error

datatype queued_log = Real log | Virtual log

fun into_log :: "queued_log \<Rightarrow> log" where
  "into_log (Real l) = l"
| "into_log (Virtual l) = l"

section \<open>The inspector\<close>

record rcs_inspector =
  ri_active :: bool
  ri_queue :: "queued_log list"
  ri_checkpoints :: "nat list"
  ri_observed_count :: nat
  ri_overflowed :: bool
  ri_limit :: nat
  ri_create_recipients :: "address option list"
  ri_address_mismatch :: "nat option"
  ri_journal_mark :: "nat option"
  ri_wrote_journal :: bool

text \<open>The two stacks have their top at the head of the list.\<close>

definition rcs_inspector_new :: "nat \<Rightarrow> rcs_inspector" where
  "rcs_inspector_new max_native_transfers =
     \<lparr>ri_active = False, ri_queue = [], ri_checkpoints = [], ri_observed_count = 0, ri_overflowed = False,
      ri_limit = max_native_transfers, ri_create_recipients = [], ri_address_mismatch = None,
      ri_journal_mark = None, ri_wrote_journal = False\<rparr>"

definition observe_native_transfer ::
    "ext \<Rightarrow> address \<Rightarrow> address \<Rightarrow> u256 \<Rightarrow> native_transfer_kind \<Rightarrow> rcs_inspector \<Rightarrow> rcs_inspector" where
  "observe_native_transfer E from to_addr value kind r =
     (if \<not> ri_active r then r
      else if value = 0 \<or> from = to_addr then r
      else
        let n = ri_observed_count r + 1; r1 = r\<lparr>ri_observed_count := n\<rparr> in
        if n > ri_limit r then r1\<lparr>ri_overflowed := True\<rparr>
        else r1\<lparr>ri_queue := ri_queue r @ [Virtual (native_transfer_log E from to_addr value)]\<rparr>)"

definition record_call_observation :: "ext \<Rightarrow> u256 option \<Rightarrow> address \<Rightarrow> address \<Rightarrow> rcs_inspector \<Rightarrow> rcs_inspector" where
  "record_call_observation E transfer_value from to_addr r = (case transfer_value of
       None \<Rightarrow> r
     | Some value \<Rightarrow> observe_native_transfer E from to_addr value NtCall r)"

definition record_create_observation :: "ext \<Rightarrow> u256 \<Rightarrow> address \<Rightarrow> address \<Rightarrow> rcs_inspector \<Rightarrow> rcs_inspector" where
  "record_create_observation E value caller created_address r =
     observe_native_transfer E caller created_address value NtCreate r"

definition record_real_log :: "log \<Rightarrow> rcs_inspector \<Rightarrow> rcs_inspector" where
  "record_real_log l r = (if \<not> ri_active r then r else r\<lparr>ri_queue := ri_queue r @ [Real l]\<rparr>)"

definition push_checkpoint :: "rcs_inspector \<Rightarrow> rcs_inspector" where
  "push_checkpoint r =
     (if \<not> ri_active r then r else r\<lparr>ri_checkpoints := length (ri_queue r) # ri_checkpoints r\<rparr>)"

definition pop_checkpoint :: "bool \<Rightarrow> rcs_inspector \<Rightarrow> rcs_inspector" where
  "pop_checkpoint reverted r =
     (if \<not> ri_active r then r
      else case ri_checkpoints r of
             [] \<Rightarrow> r
           | c # cs \<Rightarrow> (if reverted then r\<lparr>ri_checkpoints := cs, ri_queue := take c (ri_queue r)\<rparr>
                       else r\<lparr>ri_checkpoints := cs\<rparr>))"

definition real_log_subsequence :: "queued_log list \<Rightarrow> log list" where
  "real_log_subsequence q = List.map_filter (\<lambda>e. case e of Real l \<Rightarrow> Some l | Virtual _ \<Rightarrow> None) q"

section \<open>Capture control\<close>

definition start_capture :: "rcs_inspector \<Rightarrow> rcs_inspector" where
  "start_capture r = r\<lparr>ri_queue := [], ri_checkpoints := [], ri_create_recipients := [],
     ri_observed_count := 0, ri_overflowed := False, ri_address_mismatch := None,
     ri_journal_mark := None, ri_wrote_journal := False, ri_active := True\<rparr>"

definition abort_capture :: "rcs_inspector \<Rightarrow> rcs_inspector" where
  "abort_capture r = r\<lparr>ri_queue := [], ri_checkpoints := [], ri_create_recipients := [],
     ri_observed_count := 0, ri_overflowed := False, ri_address_mismatch := None,
     ri_journal_mark := None, ri_wrote_journal := False, ri_active := False\<rparr>"

text \<open>\<open>zip\<close> followed by \<open>position\<close>.\<close>

fun first_divergence :: "log list \<Rightarrow> log list \<Rightarrow> nat option" where
  "first_divergence (a # as) (b # bs) = (if a \<noteq> b then Some 0 else map_option Suc (first_divergence as bs))"
| "first_divergence _ _ = None"

definition log_mismatch :: "log list \<Rightarrow> log list \<Rightarrow> (nat \<times> nat \<times> nat) option" where
  "log_mismatch real result_logs =
     (if length real \<noteq> length result_logs
      then Some (case first_divergence real result_logs of Some i \<Rightarrow> i | None \<Rightarrow> min (length real) (length result_logs),
                 length real, length result_logs)
      else map_option (\<lambda>i. (i, length real, length result_logs)) (first_divergence real result_logs))"

definition finish_capture :: "log list \<Rightarrow> rcs_inspector \<Rightarrow> capture_outcome \<times> rcs_inspector" where
  "finish_capture result_logs r =
     ((case ri_address_mismatch r of
         Some create_index \<Rightarrow> CoInvariantViolation (CreateAddressMismatch create_index)
       | None \<Rightarrow>
           if ri_overflowed r then CoLimitExceeded (ri_observed_count r) (ri_limit r)
           else (case log_mismatch (real_log_subsequence (ri_queue r)) result_logs of
                   Some (first_bad_index, observed, expected) \<Rightarrow>
                     CoInvariantViolation (RealLogMismatch first_bad_index observed expected)
                 | None \<Rightarrow> CoComplete (map into_log (ri_queue r)))),
      abort_capture r)"

section \<open>Hooks\<close>

datatype create_scheme = SchemeCreate | SchemeOther

record create_inputs =
  ci_caller :: address
  ci_value :: u256
  ci_scheme :: create_scheme
  ci_init :: "byte list"

text \<open>
  What the EVM tells the inspector. \<open>HCreate\<close> carries the nonce the journal holds for the caller,
  \<open>HStep\<close> whether the opcode is \<open>SELFDESTRUCT\<close>, and both step hooks the journal's length.
\<close>

datatype hook =
    HLog log
  | HCall "u256 option" address address
  | HCallEnd bool
  | HCreate create_inputs "nat option"
  | HCreateEnd bool "address option"
  | HStep bool nat
  | HStepEnd nat
  | HSelfdestruct address address u256

definition expected_address :: "(create_inputs \<Rightarrow> nat \<Rightarrow> address) \<Rightarrow> create_inputs \<Rightarrow> nat option \<Rightarrow> address" where
  "expected_address created inputs nonce =
     created inputs (case ci_scheme inputs of SchemeCreate \<Rightarrow> (case nonce of Some n \<Rightarrow> n | None \<Rightarrow> 0) | SchemeOther \<Rightarrow> 0)"

definition create_hook :: "ext \<Rightarrow> (create_inputs \<Rightarrow> nat \<Rightarrow> address) \<Rightarrow> create_inputs \<Rightarrow> nat option \<Rightarrow> rcs_inspector \<Rightarrow> rcs_inspector" where
  "create_hook E created inputs nonce r0 =
     (let r = push_checkpoint r0 in
      if \<not> ri_active r then r
      else
        let created_address = expected_address created inputs nonce;
            r1 = r\<lparr>ri_create_recipients := (if ci_value inputs \<noteq> 0 then Some created_address else None) # ri_create_recipients r\<rparr>
        in record_create_observation E (ci_value inputs) (ci_caller inputs) created_address r1)"

definition create_end :: "bool \<Rightarrow> address option \<Rightarrow> rcs_inspector \<Rightarrow> rcs_inspector" where
  "create_end is_ok addr r0 =
     (if \<not> ri_active r0 then r0
      else
        let expected = (case ri_create_recipients r0 of [] \<Rightarrow> None | e # _ \<Rightarrow> Some e);
            r = r0\<lparr>ri_create_recipients := tl (ri_create_recipients r0)\<rparr>
        in if \<not> is_ok then pop_checkpoint True r
           else if addr = None then pop_checkpoint True r
           else case (expected, addr) of
                  (Some (Some e), Some a) \<Rightarrow>
                    if e \<noteq> a
                    then pop_checkpoint True (r\<lparr>ri_address_mismatch := Some (length (ri_create_recipients r))\<rparr>)
                    else pop_checkpoint False r
                | _ \<Rightarrow> pop_checkpoint False r)"

definition step_hook :: "bool \<Rightarrow> nat \<Rightarrow> rcs_inspector \<Rightarrow> rcs_inspector" where
  "step_hook is_selfdestruct journal_len r =
     (if \<not> is_selfdestruct then r
      else if \<not> ri_active r then r
      else r\<lparr>ri_journal_mark := Some journal_len\<rparr>)"

definition step_end :: "nat \<Rightarrow> rcs_inspector \<Rightarrow> rcs_inspector" where
  "step_end journal_len r =
     (if \<not> ri_active r then r
      else case ri_journal_mark r of
             None \<Rightarrow> r
           | Some pre \<Rightarrow> r\<lparr>ri_journal_mark := None, ri_wrote_journal := (journal_len > pre)\<rparr>)"

definition selfdestruct_hook :: "ext \<Rightarrow> address \<Rightarrow> address \<Rightarrow> u256 \<Rightarrow> rcs_inspector \<Rightarrow> rcs_inspector" where
  "selfdestruct_hook E contract target value r =
     (if \<not> ri_active r then r
      else if \<not> ri_wrote_journal r then r\<lparr>ri_wrote_journal := False\<rparr>
      else observe_native_transfer E contract target value NtSelfDestruct (r\<lparr>ri_wrote_journal := False\<rparr>))"

fun inspect :: "ext \<Rightarrow> (create_inputs \<Rightarrow> nat \<Rightarrow> address) \<Rightarrow> hook \<Rightarrow> rcs_inspector \<Rightarrow> rcs_inspector" where
  "inspect E created (HLog l) r = record_real_log l r"
| "inspect E created (HCall tv from to_addr) r = record_call_observation E tv from to_addr (push_checkpoint r)"
| "inspect E created (HCallEnd is_ok) r = pop_checkpoint (\<not> is_ok) r"
| "inspect E created (HCreate inputs nonce) r = create_hook E created inputs nonce r"
| "inspect E created (HCreateEnd is_ok addr) r = create_end is_ok addr r"
| "inspect E created (HStep sd jl) r = step_hook sd jl r"
| "inspect E created (HStepEnd jl) r = step_end jl r"
| "inspect E created (HSelfdestruct contract target value) r = selfdestruct_hook E contract target value r"

definition inspect_all :: "ext \<Rightarrow> (create_inputs \<Rightarrow> nat \<Rightarrow> address) \<Rightarrow> hook list \<Rightarrow> rcs_inspector \<Rightarrow> rcs_inspector" where
  "inspect_all E created hooks r = fold (inspect E created) hooks r"

section \<open>Driving the capture\<close>

text \<open>
  \<open>CaptureGuard\<close> around one \<open>evm.transact\<close>: start on construction; \<open>finish\<close> when the execution
  returned logs, and \<open>abort\<close> by \<open>Drop\<close> when it returned an error or unwound.
\<close>

datatype transact_result = TxOk "log list" | TxErr | TxPanic

definition guarded_transact :: "('i \<Rightarrow> 'i) \<Rightarrow> (log list \<Rightarrow> 'i \<Rightarrow> capture_outcome \<times> 'i) \<Rightarrow> ('i \<Rightarrow> 'i)
    \<Rightarrow> ('i \<Rightarrow> 'i) \<Rightarrow> transact_result \<Rightarrow> 'i \<Rightarrow> capture_outcome option \<times> 'i" where
  "guarded_transact start finish abort run result i =
     (let i1 = run (start i) in
      case result of
        TxOk logs \<Rightarrow> (case finish logs i1 of (outcome, i2) \<Rightarrow> (Some outcome, i2))
      | TxErr \<Rightarrow> (None, abort i1)
      | TxPanic \<Rightarrow> (None, abort i1))"

text \<open>The filter-disabled inspector.\<close>

definition noop_start :: "unit \<Rightarrow> unit" where
  "noop_start i = i"

definition noop_finish :: "log list \<Rightarrow> unit \<Rightarrow> capture_outcome \<times> unit" where
  "noop_finish result_logs i = (CoPassthrough, i)"

definition noop_abort :: "unit \<Rightarrow> unit" where
  "noop_abort i = i"

definition fail_closed_screen :: "capture_outcome \<Rightarrow> shared \<Rightarrow> screen option \<times> shared" where
  "fail_closed_screen outcome sh = (case outcome of
       CoComplete _ \<Rightarrow> (None, sh)
     | CoLimitExceeded attempted limit \<Rightarrow> (Some ScDeny, record_local_deny NativeTransferLimit sh)
     | CoInvariantViolation (RealLogMismatch _ _ _) \<Rightarrow> (Some ScDeny, record_local_deny ObservationInvariant sh)
     | CoInvariantViolation (CreateAddressMismatch _) \<Rightarrow> (Some ScDeny, record_local_deny ObservationInvariant sh)
     | CoPassthrough \<Rightarrow> (Some ScDeny, record_local_deny ObservationInvariant sh))"


section \<open>Executions as trees\<close>

text \<open>
  A well-bracketed execution: a frame carries what happened inside it and how it ended. A
  \<open>SELFDESTRUCT\<close> carries the journal lengths around it; one that halted calls no hook of its own.
\<close>

datatype event =
    EvLog log
  | EvStep nat nat
  | EvSelfdestruct address address u256 nat nat
  | EvSelfdestructHalted nat nat
  | EvCall "u256 option" address address "event list" bool
  | EvCreate create_inputs "nat option" "event list" bool "address option"

fun hooks_of :: "event \<Rightarrow> hook list" where
  "hooks_of (EvLog l) = [HLog l]"
| "hooks_of (EvStep a b) = [HStep False a, HStepEnd b]"
| "hooks_of (EvSelfdestruct c t v a b) = [HStep True a, HStepEnd b, HSelfdestruct c t v]"
| "hooks_of (EvSelfdestructHalted a b) = [HStep True a, HStepEnd b]"
| "hooks_of (EvCall tv f t body is_ok) = HCall tv f t # concat (map hooks_of body) @ [HCallEnd is_ok]"
| "hooks_of (EvCreate inputs nonce body is_ok addr) =
     HCreate inputs nonce # concat (map hooks_of body) @ [HCreateEnd is_ok addr]"

text \<open>
  The reference: a frame's events count only if the frame committed. \<open>candidates\<close> counts every
  internal transfer that was attempted, reverted or not.
\<close>

definition transfer :: "ext \<Rightarrow> address \<Rightarrow> address \<Rightarrow> u256 \<Rightarrow> queued_log list" where
  "transfer E f t v = (if v = 0 \<or> f = t then [] else [Virtual (native_transfer_log E f t v)])"

definition create_ok :: "(create_inputs \<Rightarrow> nat \<Rightarrow> address) \<Rightarrow> create_inputs \<Rightarrow> nat option \<Rightarrow> bool \<Rightarrow> address option \<Rightarrow> bool" where
  "create_ok created inputs nonce is_ok addr \<longleftrightarrow> is_ok \<and>
     (case addr of None \<Rightarrow> False | Some a \<Rightarrow> ci_value inputs = 0 \<or> a = expected_address created inputs nonce)"

definition create_mismatch :: "(create_inputs \<Rightarrow> nat \<Rightarrow> address) \<Rightarrow> create_inputs \<Rightarrow> nat option \<Rightarrow> bool \<Rightarrow> address option \<Rightarrow> bool" where
  "create_mismatch created inputs nonce is_ok addr \<longleftrightarrow> is_ok \<and> addr \<noteq> None \<and> \<not> create_ok created inputs nonce is_ok addr"

fun committed :: "ext \<Rightarrow> (create_inputs \<Rightarrow> nat \<Rightarrow> address) \<Rightarrow> event \<Rightarrow> queued_log list" where
  "committed E C (EvLog l) = [Real l]"
| "committed E C (EvStep a b) = []"
| "committed E C (EvSelfdestruct c t v a b) = (if b > a then transfer E c t v else [])"
| "committed E C (EvSelfdestructHalted a b) = []"
| "committed E C (EvCall tv f t body is_ok) =
     (if is_ok then (case tv of None \<Rightarrow> [] | Some v \<Rightarrow> transfer E f t v) @ concat (map (committed E C) body) else [])"
| "committed E C (EvCreate inputs nonce body is_ok addr) =
     (if create_ok C inputs nonce is_ok addr
      then transfer E (ci_caller inputs) (expected_address C inputs nonce) (ci_value inputs) @ concat (map (committed E C) body)
      else [])"

fun attempts :: "(create_inputs \<Rightarrow> nat \<Rightarrow> address) \<Rightarrow> event \<Rightarrow> nat" where
  "attempts C (EvLog l) = 0"
| "attempts C (EvStep a b) = 0"
| "attempts C (EvSelfdestruct c t v a b) = (if b > a \<and> v \<noteq> 0 \<and> c \<noteq> t then 1 else 0)"
| "attempts C (EvSelfdestructHalted a b) = 0"
| "attempts C (EvCall tv f t body is_ok) =
     (if tv \<noteq> None \<and> tv \<noteq> Some 0 \<and> f \<noteq> t then 1 else 0) + sum_list (map (attempts C) body)"
| "attempts C (EvCreate inputs nonce body is_ok addr) =
     (if ci_value inputs \<noteq> 0 \<and> ci_caller inputs \<noteq> expected_address C inputs nonce then 1 else 0) +
     sum_list (map (attempts C) body)"

text \<open>The depths of the create frames whose address was not the derived one, in the order they end.\<close>

fun mismatches :: "(create_inputs \<Rightarrow> nat \<Rightarrow> address) \<Rightarrow> nat \<Rightarrow> event \<Rightarrow> nat list" where
  "mismatches C d (EvCall tv f t body is_ok) = concat (map (mismatches C d) body)"
| "mismatches C d (EvCreate inputs nonce body is_ok addr) =
     concat (map (mismatches C (Suc d)) body) @ (if create_mismatch C inputs nonce is_ok addr then [d] else [])"
| "mismatches C d _ = []"

section \<open>The inspector follows the tree\<close>

definition ready :: "rcs_inspector \<Rightarrow> bool" where
  "ready r \<longleftrightarrow> ri_active r \<and> ri_journal_mark r = None \<and> ri_overflowed r = (ri_observed_count r > ri_limit r)"

definition advances :: "rcs_inspector \<Rightarrow> nat \<Rightarrow> queued_log list \<Rightarrow> nat list \<Rightarrow> rcs_inspector \<Rightarrow> bool" where
  "advances r n q ms r' \<longleftrightarrow> ready r' \<and> ri_limit r' = ri_limit r \<and>
     ri_checkpoints r' = ri_checkpoints r \<and> ri_create_recipients r' = ri_create_recipients r \<and>
     ri_observed_count r' = ri_observed_count r + n \<and>
     ri_address_mismatch r' = (if ms = [] then ri_address_mismatch r else Some (last ms)) \<and>
     (ri_observed_count r' \<le> ri_limit r' \<longrightarrow> ri_queue r' = ri_queue r @ q)"

lemma advances_refl: "ready r \<Longrightarrow> advances r 0 [] [] r"
  by (simp add: advances_def)

lemma advances_trans:
  "advances r n q ms r1 \<Longrightarrow> advances r1 n' q' ms' r2 \<Longrightarrow> advances r (n + n') (q @ q') (ms @ ms') r2"
  by (auto simp: advances_def)

lemma advances_observe:
  assumes "ready r"
  shows "advances r (if v = 0 \<or> f = t then 0 else 1) (transfer E f t v) [] (observe_native_transfer E f t v k r)"
  using assms by (auto simp: advances_def ready_def observe_native_transfer_def transfer_def Let_def)

lemma advances_leave:
  assumes "advances (push_checkpoint r) n q ms r'" "ready r"
  shows "advances r n (if reverted then [] else q) ms (pop_checkpoint reverted r')"
  using assms by (auto simp: advances_def ready_def push_checkpoint_def pop_checkpoint_def)

lemma ready_push [simp]: "ready r \<Longrightarrow> ready (push_checkpoint r)"
  by (simp add: ready_def push_checkpoint_def)

lemma advances_ready: "advances r n q ms r' \<Longrightarrow> ready r'"
  by (simp add: advances_def)

lemma inspect_all_simps [simp]:
  "inspect_all E C [] r = r"
  "inspect_all E C (h # hs) r = inspect_all E C hs (inspect E C h r)"
  "inspect_all E C (hs @ hs') r = inspect_all E C hs' (inspect_all E C hs r)"
  by (simp_all add: inspect_all_def)

lemma advances_body:
  assumes "\<And>ev r. ev \<in> set body \<Longrightarrow> ready r \<Longrightarrow> length (ri_create_recipients r) = d \<Longrightarrow>
      advances r (attempts C ev) (committed E C ev) (mismatches C d ev) (inspect_all E C (hooks_of ev) r)"
    and "ready r" "length (ri_create_recipients r) = d"
  shows "advances r (sum_list (map (attempts C) body)) (concat (map (committed E C) body))
    (concat (map (mismatches C d) body)) (inspect_all E C (concat (map hooks_of body)) r)"
  using assms
proof (induction body arbitrary: r)
  case Nil
  then show ?case by (simp add: advances_refl)
next
  case (Cons ev body)
  let ?r = "inspect_all E C (hooks_of ev) r"
  have 1: "advances r (attempts C ev) (committed E C ev) (mismatches C d ev) ?r"
    using Cons.prems by simp
  then have "ready ?r" "length (ri_create_recipients ?r) = d" using Cons.prems(3) by (auto simp: advances_def)
  with Cons.IH [of ?r] Cons.prems(1) have
    "advances ?r (sum_list (map (attempts C) body)) (concat (map (committed E C) body))
      (concat (map (mismatches C d) body)) (inspect_all E C (concat (map hooks_of body)) ?r)" by simp
  from advances_trans [OF 1 this] show ?case by simp
qed

text \<open>A create frame: the expected recipient is pushed on entry and compared on exit.\<close>

lemma advances_create:
  assumes r: "ready r" and e: "e = (if ci_value inputs \<noteq> 0 then Some (expected_address C inputs nonce) else None)"
    and body: "advances ((push_checkpoint r)\<lparr>ri_create_recipients := e # ri_create_recipients r\<rparr>) n q ms r'"
  shows "advances r n (if create_ok C inputs nonce is_ok addr then q else [])
    (ms @ (if create_mismatch C inputs nonce is_ok addr then [length (ri_create_recipients r)] else [])) (create_end is_ok addr r')"
  using assms
  by (cases addr)
    (auto simp: advances_def ready_def push_checkpoint_def pop_checkpoint_def create_end_def Let_def
      create_ok_def create_mismatch_def split: if_splits)

lemma inspector_follows_tree:
  assumes "ready r" "length (ri_create_recipients r) = d"
  shows "advances r (attempts C ev) (committed E C ev) (mismatches C d ev) (inspect_all E C (hooks_of ev) r)"
  using assms
proof (induction ev arbitrary: r d)
  case (EvSelfdestruct c t v a b)
  let ?r = "r\<lparr>ri_wrote_journal := (b > a)\<rparr>"
  have st: "inspect_all E C (hooks_of (EvSelfdestruct c t v a b)) r =
      (if b > a then observe_native_transfer E c t v NtSelfDestruct (r\<lparr>ri_journal_mark := None, ri_wrote_journal := False\<rparr>)
       else r\<lparr>ri_journal_mark := None, ri_wrote_journal := False\<rparr>)"
    using EvSelfdestruct.prems(1) by (simp add: ready_def step_hook_def step_end_def selfdestruct_hook_def)
  have rdy: "ready (r\<lparr>ri_journal_mark := None, ri_wrote_journal := False\<rparr>)" using EvSelfdestruct.prems(1) by (simp add: ready_def)
  show ?case
    unfolding st using advances_observe [OF rdy, of v c t E NtSelfDestruct] rdy
    by (auto simp: advances_def)
next
  case (EvCall tv f t body is_ok)
  let ?r = "push_checkpoint r" and ?n = "if tv \<noteq> None \<and> tv \<noteq> Some 0 \<and> f \<noteq> t then 1 else 0"
  have 1: "advances ?r ?n (case tv of None \<Rightarrow> [] | Some v \<Rightarrow> transfer E f t v) [] (record_call_observation E tv f t ?r)"
  proof (cases tv)
    case (Some v)
    then show ?thesis using advances_observe [of ?r v f t E NtCall] EvCall.prems(1)
      by (auto simp: record_call_observation_def)
  qed (use advances_refl [of ?r] EvCall.prems(1) in \<open>simp add: record_call_observation_def\<close>)
  have "length (ri_create_recipients (record_call_observation E tv f t ?r)) = d"
    using 1 EvCall.prems by (auto simp: advances_def push_checkpoint_def)
  from advances_trans [OF 1 advances_body [OF EvCall.IH advances_ready [OF 1] this]]
  have "advances ?r (attempts C (EvCall tv f t body is_ok))
      ((case tv of None \<Rightarrow> [] | Some v \<Rightarrow> transfer E f t v) @ concat (map (committed E C) body))
      (mismatches C d (EvCall tv f t body is_ok)) (inspect_all E C (concat (map hooks_of body)) (record_call_observation E tv f t ?r))"
    by simp
  from advances_leave [OF this EvCall.prems(1), of "\<not> is_ok"] show ?case
    by (cases is_ok) (simp_all split del: if_split)
next
  case (EvCreate inputs nonce body is_ok addr)
  let ?x = "expected_address C inputs nonce"
  let ?e = "if ci_value inputs \<noteq> 0 then Some ?x else None"
  let ?r = "(push_checkpoint r)\<lparr>ri_create_recipients := ?e # ri_create_recipients r\<rparr>"
  let ?n = "if ci_value inputs \<noteq> 0 \<and> ci_caller inputs \<noteq> ?x then 1 else 0"
  have rdy: "ready ?r" using EvCreate.prems(1) ready_push [of r] by (simp add: ready_def)
  have recs: "ri_create_recipients (push_checkpoint r) = ri_create_recipients r" by (simp add: push_checkpoint_def)
  have act: "ri_active (push_checkpoint r)" using EvCreate.prems(1) by (simp add: ready_def push_checkpoint_def)
  have st: "create_hook E C inputs nonce r = observe_native_transfer E (ci_caller inputs) ?x (ci_value inputs) NtCreate ?r"
    using act by (simp add: create_hook_def Let_def record_create_observation_def recs)
  have 1: "advances ?r ?n (transfer E (ci_caller inputs) ?x (ci_value inputs)) [] (create_hook E C inputs nonce r)"
    unfolding st using advances_observe [OF rdy, of "ci_value inputs" "ci_caller inputs" ?x E NtCreate] by auto
  have "length (ri_create_recipients (create_hook E C inputs nonce r)) = Suc d"
    using 1 EvCreate.prems(2) by (simp add: advances_def)
  from advances_trans [OF 1 advances_body [OF EvCreate.IH advances_ready [OF 1] this]]
  have "advances ?r (attempts C (EvCreate inputs nonce body is_ok addr))
      (transfer E (ci_caller inputs) ?x (ci_value inputs) @ concat (map (committed E C) body))
      (concat (map (mismatches C (Suc d)) body)) (inspect_all E C (concat (map hooks_of body)) (create_hook E C inputs nonce r))"
    by simp
  from advances_create [OF EvCreate.prems(1) refl this, of is_ok addr] show ?case
    unfolding EvCreate.prems(2) by (simp split del: if_split)
qed (auto simp: advances_def ready_def record_real_log_def step_hook_def step_end_def)

lemma first_divergence_None:
  "length xs = length ys \<Longrightarrow> first_divergence xs ys = None \<longleftrightarrow> xs = ys"
  by (induction xs ys rule: list_induct2) auto

lemma first_divergence_prefix:
  "(case first_divergence xs ys of Some i \<Rightarrow> i | None \<Rightarrow> min (length xs) (length ys)) = length (longest_common_prefix xs ys)"
  by (induction xs ys rule: first_divergence.induct) (auto split: option.splits)

lemma log_mismatch_iff:
  "log_mismatch xs ys = (if xs = ys then None else Some (length (longest_common_prefix xs ys), length xs, length ys))"
proof (cases "length xs = length ys")
  case True
  then show ?thesis
    using first_divergence_None [of xs ys] first_divergence_prefix [of xs ys] by (auto simp: log_mismatch_def)
next
  case False
  then show ?thesis using first_divergence_prefix [of xs ys] by (auto simp: log_mismatch_def)
qed

lemma abort_is_new: "abort_capture r = rcs_inspector_new (ri_limit r)"
  by (simp add: abort_capture_def rcs_inspector_new_def)

lemma start_is_new: "start_capture r = (rcs_inspector_new (ri_limit r))\<lparr>ri_active := True\<rparr>"
  by (simp add: start_capture_def rcs_inspector_new_def)

lemma ready_start: "ready (start_capture r)"
  by (simp add: ready_def start_capture_def)

lemma capture_outcome_eq:
  "finish_capture logs (inspect_all E C (concat (map hooks_of evs)) (start_capture r)) =
     (let bad = concat (map (mismatches C 0) evs);
          n = sum_list (map (attempts C) evs);
          stream = concat (map (committed E C) evs);
          real = real_log_subsequence stream
      in if bad \<noteq> [] then CoInvariantViolation (CreateAddressMismatch (last bad))
         else if n > ri_limit r then CoLimitExceeded n (ri_limit r)
         else if real \<noteq> logs
         then CoInvariantViolation (RealLogMismatch (length (longest_common_prefix real logs)) (length real) (length logs))
         else CoComplete (map into_log stream),
      rcs_inspector_new (ri_limit r))"
proof -
  let ?r = "inspect_all E C (concat (map hooks_of evs)) (start_capture r)"
  have "length (ri_create_recipients (start_capture r)) = 0" by (simp add: start_capture_def)
  from advances_body [OF inspector_follows_tree ready_start this]
  have "advances (start_capture r) (sum_list (map (attempts C) evs)) (concat (map (committed E C) evs))
      (concat (map (mismatches C 0) evs)) ?r" .
  then have r: "ri_limit ?r = ri_limit r" "ri_observed_count ?r = sum_list (map (attempts C) evs)"
    "ri_overflowed ?r = (sum_list (map (attempts C) evs) > ri_limit r)"
    "ri_address_mismatch ?r = (if concat (map (mismatches C 0) evs) = [] then None else Some (last (concat (map (mismatches C 0) evs))))"
    "sum_list (map (attempts C) evs) \<le> ri_limit r \<Longrightarrow> ri_queue ?r = concat (map (committed E C) evs)"
    by (simp_all add: advances_def ready_def start_capture_def)
  show ?thesis
    unfolding finish_capture_def Let_def abort_is_new r log_mismatch_iff
    using r(5) by (simp del: concat_eq_Nil_conv)
qed

text \<open>
  C7. The capture is exact: over any well-bracketed execution, whatever the inspector held before,
  the outcome is the ordered stream of exactly the logs and internal native transfers of the frames
  that committed, provided no create returned an address other than the derived one, no more
  transfers were attempted than the budget allows (reverted ones included), and the captured real
  logs are the execution's logs; otherwise it is the corresponding failure, with the attempt count
  or the length of the common prefix. Afterwards the inspector is as new.
\<close>

theorem capture_exact:
  "finish_capture logs (inspect_all E C (concat (map hooks_of evs)) (start_capture r)) =
     (let bad = concat (map (mismatches C 0) evs);
          n = sum_list (map (attempts C) evs);
          stream = concat (map (committed E C) evs);
          real = real_log_subsequence stream
      in if bad \<noteq> [] then CoInvariantViolation (CreateAddressMismatch (last bad))
         else if n > ri_limit r then CoLimitExceeded n (ri_limit r)
         else if real \<noteq> logs
         then CoInvariantViolation (RealLogMismatch (length (longest_common_prefix real logs)) (length real) (length logs))
         else CoComplete (map into_log stream),
      rcs_inspector_new (ri_limit r))"
  by (rule capture_outcome_eq)

section \<open>Windows\<close>

lemma inactive_noop: "\<not> ri_active r \<Longrightarrow> inspect E C h r = r"
  by (cases h) (simp_all add: record_real_log_def record_call_observation_def observe_native_transfer_def push_checkpoint_def
      pop_checkpoint_def create_hook_def create_end_def step_hook_def step_end_def selfdestruct_hook_def split: option.splits)

text \<open>
  The interface of \<open>RcsCaptureControl\<close> that the transaction loop relies on: between windows the
  inspector is idle and ignores every hook, a window ends in an idle inspector of the same
  configuration, and what a window starts from depends on the configuration alone.
\<close>

locale capture_control =
  fixes start :: "'i \<Rightarrow> 'i" and finish :: "log list \<Rightarrow> 'i \<Rightarrow> capture_outcome \<times> 'i" and abort :: "'i \<Rightarrow> 'i"
    and hook :: "'h \<Rightarrow> 'i \<Rightarrow> 'i" and idle :: "'i \<Rightarrow> bool" and setting :: "'i \<Rightarrow> 'c"
  assumes idle_hook: "idle i \<Longrightarrow> hook h i = i"
    and start_same: "setting i = setting j \<Longrightarrow> start i = start j"
    and setting_start: "setting (start i) = setting i"
    and setting_hook: "setting (hook h i) = setting i"
    and finish_idle: "idle (snd (finish logs i)) \<and> setting (snd (finish logs i)) = setting i"
    and abort_idle: "idle (abort i) \<and> setting (abort i) = setting i"
begin

lemma idle_hooks: "idle i \<Longrightarrow> fold hook hs i = i"
  by (induction hs) (auto simp: idle_hook)

lemma setting_hooks: "setting (fold hook hs i) = setting i"
  by (induction hs arbitrary: i) (auto simp: setting_hook)

lemma guarded_idle:
  "idle (snd (guarded_transact start finish abort (fold hook hs) result i)) \<and>
   setting (snd (guarded_transact start finish abort (fold hook hs) result i)) = setting i"
  using finish_idle abort_idle setting_hooks setting_start
  by (auto simp: guarded_transact_def Let_def split: transact_result.splits prod.splits) (metis snd_conv)+

lemma guarded_same:
  assumes "setting i = setting j"
  shows "guarded_transact start finish abort run result i = guarded_transact start finish abort run result j"
  unfolding guarded_transact_def start_same [OF assms] by (rule refl)

definition windows :: "('h list \<times> 'h list \<times> transact_result) list \<Rightarrow> 'i \<Rightarrow> capture_outcome option list" where
  "windows cands i = fst (fold (\<lambda>(pre, hs, result) (outs, i).
     case guarded_transact start finish abort (fold hook hs) result (fold hook pre i) of (out, i') \<Rightarrow> (outs @ [out], i')) cands ([], i))"

lemma windows_isolated:
  assumes "idle i"
  shows "windows cands i = map (\<lambda>(pre, hs, result). fst (guarded_transact start finish abort (fold hook hs) result i)) cands"
proof -
  have "fst (fold (\<lambda>(pre, hs, result) (outs, i).
     case guarded_transact start finish abort (fold hook hs) result (fold hook pre i) of (out, i') \<Rightarrow> (outs @ [out], i')) cands (outs, j)) =
     outs @ map (\<lambda>(pre, hs, result). fst (guarded_transact start finish abort (fold hook hs) result i)) cands"
    if "idle j" "setting j = setting i" for outs j
    using that
  proof (induction cands arbitrary: outs j)
    case (Cons c cands)
    obtain pre hs result where c: "c = (pre, hs, result)" by (cases c) auto
    obtain out j' where g: "guarded_transact start finish abort (fold hook hs) result j = (out, j')" by force
    have "idle j'" "setting j' = setting i" using guarded_idle [of hs result j] Cons.prems(2) by (simp_all add: g)
    moreover have "out = fst (guarded_transact start finish abort (fold hook hs) result i)"
      using guarded_same [OF Cons.prems(2), of "fold hook hs" result] g by (metis fst_conv)
    ultimately show ?case using Cons.IH [of j' "outs @ [out]"] Cons.prems(1) by (simp add: c idle_hooks g)
  qed simp
  from this [OF assms refl, of "[]"] show ?thesis by (simp add: windows_def)
qed

end

lemma ri_limit_simps [simp]:
  "ri_limit (observe_native_transfer E f t v k r) = ri_limit r"
  "ri_limit (push_checkpoint r) = ri_limit r" "ri_limit (pop_checkpoint b r) = ri_limit r"
  "ri_limit (start_capture r) = ri_limit r" "ri_limit (rcs_inspector_new n) = n"
  by (simp_all add: observe_native_transfer_def push_checkpoint_def pop_checkpoint_def start_capture_def
      rcs_inspector_new_def Let_def split: list.splits)

lemma ri_limit_inspect [simp]: "ri_limit (inspect E C h r) = ri_limit r"
  by (cases h) (auto simp: record_real_log_def record_call_observation_def record_create_observation_def create_hook_def
      create_end_def step_hook_def step_end_def selfdestruct_hook_def Let_def split: option.splits)

interpretation rcs: capture_control start_capture finish_capture abort_capture "inspect E C"
  "\<lambda>r. \<not> ri_active r" ri_limit for E C
  by unfold_locales (simp_all add: inactive_noop start_is_new finish_capture_def abort_is_new, simp_all add: rcs_inspector_new_def)

interpretation noop: capture_control noop_start noop_finish noop_abort "\<lambda>h i. i" "\<lambda>i. True" "\<lambda>i. ()"
  by unfold_locales (simp_all add: noop_start_def noop_finish_def noop_abort_def)

definition rcs_windows :: "ext \<Rightarrow> (create_inputs \<Rightarrow> nat \<Rightarrow> address) \<Rightarrow> (hook list \<times> hook list \<times> transact_result) list
    \<Rightarrow> rcs_inspector \<Rightarrow> capture_outcome option list" where
  "rcs_windows E C cands r = fst (fold (\<lambda>(pre, hs, result) (outs, r).
     case guarded_transact start_capture finish_capture abort_capture (inspect_all E C hs) result (inspect_all E C pre r) of
       (out, r') \<Rightarrow> (outs @ [out], r')) cands ([], r))"

text \<open>
  Candidates do not influence each other's capture: for any sequence of candidate executions on
  one inspector, each with hooks of uncaptured pre-checks before it, and whether it returned,
  failed or unwound, every outcome is the one a fresh inspector would have given.
\<close>

lemma capture_windows_isolated:
  "rcs_windows E C cands (rcs_inspector_new limit) =
     map (\<lambda>(pre, hs, result). fst (guarded_transact start_capture finish_capture abort_capture (inspect_all E C hs) result
       (rcs_inspector_new limit))) cands"
proof -
  have "\<not> ri_active (rcs_inspector_new limit)" by (simp add: rcs_inspector_new_def)
  from rcs.windows_isolated [OF this, of E C cands] show ?thesis
    by (simp add: rcs_windows_def rcs.windows_def inspect_all_def [abs_def])
qed
end
