(* ===== verification/Bridge_Intercept.thy ===== *)
theory Bridge_Intercept
  imports Externals
begin

text \<open>
  Bridge interception, \<open>crates/intercept/src/lib.rs\<close>: the decision over a transaction's logs and
  the parser of \<open>BridgeEvent\<close> data.
\<close>

section \<open>Decision\<close>

definition bridge_event_signature :: b256 where
  "bridge_event_signature = 0x501781209a1f8899323b96b4ef08b168df93e0a90c673d1e4cce39366cb62f9b"

record bridge_intercept_config =
  bi_enabled :: bool
  bi_bridge_contract_address :: address
  bi_target_token_address :: address
  bi_wildcard :: bool

datatype bridge_intercept_error =
    WildcardBlock address address
  | TargetTokenBlock address u256 address

record bridge_event_data =
  bd_origin_address :: address
  bd_amount :: u256

datatype parse_error = InvalidSignature | InsufficientData

text \<open>\<open>Address::from_slice\<close> and \<open>U256::from_be_slice\<close> of slices of 20 and 32 bytes.\<close>

definition word_of_be :: "byte list \<Rightarrow> 'a::len word" where
  "word_of_be bs = of_nat (be_value bs)"

definition slice_of :: "nat \<Rightarrow> nat \<Rightarrow> 'a list \<Rightarrow> 'a list" where
  "slice_of from until xs = take (until - from) (drop from xs)"

definition parse_bridge_event :: "log \<Rightarrow> parse_error + bridge_event_data" where
  "parse_bridge_event l =
     (if list_get (log_topics l) 0 \<noteq> Some bridge_event_signature then Inl InvalidSignature
      else let data = log_data l in
        if length data < 256 then Inl InsufficientData
        else Inr \<lparr>bd_origin_address = word_of_be (slice_of 76 96 data), bd_amount = word_of_be (slice_of 160 192 data)\<rparr>)"

fun intercept_loop :: "log list \<Rightarrow> address \<Rightarrow> bridge_intercept_config \<Rightarrow> bridge_intercept_error + unit" where
  "intercept_loop [] tx_sender config = Inr ()"
| "intercept_loop (l # logs) tx_sender config =
     (if log_address l \<noteq> bi_bridge_contract_address config then intercept_loop logs tx_sender config
      else case parse_bridge_event l of
             Inl e \<Rightarrow> intercept_loop logs tx_sender config
           | Inr event \<Rightarrow>
               if bi_wildcard config then Inl (WildcardBlock (bi_bridge_contract_address config) tx_sender)
               else if bd_origin_address event = bi_target_token_address config
               then Inl (TargetTokenBlock (bi_target_token_address config) (bd_amount event) tx_sender)
               else intercept_loop logs tx_sender config)"

definition intercept_bridge_transaction_if_need ::
    "log list \<Rightarrow> address \<Rightarrow> bridge_intercept_config \<Rightarrow> bridge_intercept_error + unit" where
  "intercept_bridge_transaction_if_need logs tx_sender config =
     (if \<not> bi_enabled config then Inr () else intercept_loop logs tx_sender config)"

section \<open>The event layout\<close>

lemma be_value_append: "be_value (xs @ ys) = be_value xs * 256 ^ length ys + be_value ys"
proof (induction ys rule: rev_induct)
  case (snoc y ys)
  have "be_value (zs @ [y]) = be_value zs * 256 + unat y" for zs by (simp add: be_value_def)
  from this [of "xs @ ys"] this [of ys] snoc show ?case by (simp add: algebra_simps)
qed (simp add: be_value_def)

definition be_bytes :: "nat \<Rightarrow> nat \<Rightarrow> byte list" where
  "be_bytes n v = map (\<lambda>i. of_nat (v div 256 ^ (n - 1 - i))) [0..<n]"

lemma be_bytes_Suc: "be_bytes (Suc n) v = of_nat (v div 256 ^ n) # be_bytes n v"
proof (rule nth_equalityI)
  fix i
  assume "i < length (be_bytes (Suc n) v)"
  then show "be_bytes (Suc n) v ! i = (of_nat (v div 256 ^ n) # be_bytes n v) ! i"
    by (cases i) (simp_all add: be_bytes_def del: upt_Suc)
qed (simp add: be_bytes_def)

lemma be_value_Cons: "be_value (b # bs) = unat b * 256 ^ length bs + be_value bs"
  using be_value_append [of "[b]" bs] by (simp add: be_value_def)

lemma be_value_be_bytes: "be_value (be_bytes n v) = v mod 256 ^ n"
proof (induction n)
  case (Suc n)
  have "unat (of_nat (v div 256 ^ n) :: byte) = v div 256 ^ n mod 256" by (simp add: unat_of_nat)
  moreover have "length (be_bytes n v) = n" by (simp add: be_bytes_def)
  ultimately have "be_value (be_bytes (Suc n) v) = v div 256 ^ n mod 256 * 256 ^ n + v mod 256 ^ n"
    by (simp add: be_bytes_Suc be_value_Cons Suc.IH)
  also have "\<dots> = v mod (256 ^ n * 256)" by (simp add: mod_mult2_eq)
  finally show ?case by (simp add: mult.commute)
qed (simp add: be_bytes_def be_value_def)

lemma power2_byte: "(256 :: nat) = 2 ^ LENGTH(8)"
  by simp

lemma be_bytes_add: "be_bytes n (k * 256 ^ n + v) = be_bytes n v"
proof (induction n arbitrary: k)
  case (Suc n)
  have "(k * 256 ^ Suc n + v) div 256 ^ n = k * 256 + v div 256 ^ n" by (simp add: mult.assoc [symmetric])
  moreover have "(of_nat (k * 256) :: byte) = 0" by (metis dvd_triv_right power2_byte word_of_nat_eq_0_iff)
  moreover have "be_bytes n (k * 256 ^ Suc n + v) = be_bytes n v" using Suc [of "k * 256"] by (simp add: algebra_simps)
  ultimately show ?case by (simp add: be_bytes_Suc)
qed (simp add: be_bytes_def)

lemma be_value_less: "be_value bs < 256 ^ length bs"
proof (induction bs)
  case (Cons b bs)
  have "unat b < 256" using unsigned_less [where w = b] by simp
  then have "Suc (unat b) * 256 ^ length bs \<le> 256 * 256 ^ length bs" by (intro mult_le_mono1) simp
  moreover have "unat b * 256 ^ length bs + be_value bs < Suc (unat b) * 256 ^ length bs" using Cons by simp
  ultimately show ?case by (simp only: be_value_Cons length_Cons power_Suc)
qed (simp add: be_value_def)

lemma be_bytes_be_value: "be_bytes (length bs) (be_value bs) = bs"
proof (induction bs)
  case (Cons b bs)
  have "(unat b * 256 ^ length bs + be_value bs) div 256 ^ length bs = unat b" using be_value_less [of bs] by simp
  with Cons show ?case by (simp add: be_value_Cons be_bytes_Suc be_bytes_add)
qed (simp add: be_bytes_def)

text \<open>
  The ABI encoding of a \<open>BridgeEvent\<close>: eight 32-byte slots, the seventh the offset of the metadata,
  then the metadata's length and padded bytes.
\<close>

definition encode_bridge_event :: "nat \<Rightarrow> nat \<Rightarrow> address \<Rightarrow> nat \<Rightarrow> address \<Rightarrow> u256 \<Rightarrow> byte list \<Rightarrow> nat \<Rightarrow> byte list" where
  "encode_bridge_event leaf_type origin_network origin_address destination_network destination_address amount metadata deposit_count =
     concat (map (be_bytes 32) [leaf_type, origin_network, unat origin_address, destination_network,
       unat destination_address, unat amount, 256, deposit_count, length metadata]) @
     metadata @ replicate ((32 - length metadata mod 32) mod 32) 0"

lemma length_be_bytes [simp]: "length (be_bytes n v) = n"
  by (simp add: be_bytes_def)

lemma be_bytes_split: "be_bytes (m + n) v = be_bytes m (v div 256 ^ n) @ be_bytes n v"
proof (rule nth_equalityI)
  fix i
  assume "i < length (be_bytes (m + n) v)"
  then show "be_bytes (m + n) v ! i = (be_bytes m (v div 256 ^ n) @ be_bytes n v) ! i"
    by (auto simp: be_bytes_def nth_append div_mult2_eq [symmetric] power_add [symmetric] simp del: upt_Suc
        intro!: arg_cong [where f = "\<lambda>k. of_nat (v div 256 ^ k)"])
qed simp

text \<open>
  Parsing inverts the event encoding: for every bridge event whatever its fields and metadata,
  the parser returns its origin address and its amount.
\<close>

lemma bridge_event_roundtrip:
  assumes "list_get (log_topics l) 0 = Some bridge_event_signature"
    and "log_data l = encode_bridge_event leaf origin_network origin_address destination_network destination_address amount metadata deposits"
  shows "parse_bridge_event l = Inr \<lparr>bd_origin_address = origin_address, bd_amount = amount\<rparr>"
proof -
  let ?d = "log_data l"
  obtain rest where d: "?d = (be_bytes 32 leaf @ be_bytes 32 origin_network) @ be_bytes 32 (unat origin_address) @
      (be_bytes 32 destination_network @ be_bytes 32 (unat destination_address)) @ be_bytes 32 (unat amount) @ rest"
    and "64 \<le> length rest"
    using assms(2) by (auto simp: encode_bridge_event_def)
  have slot: "be_bytes 32 (unat origin_address) = be_bytes 12 (unat origin_address div 256 ^ 20) @ be_bytes 20 (unat origin_address)"
    using be_bytes_split [of 12 20] by simp
  have 1: "slice_of 76 96 ?d = be_bytes 20 (unat origin_address)"
    unfolding d slot by (simp add: slice_of_def)
  have 2: "slice_of 160 192 ?d = be_bytes 32 (unat amount)"
    unfolding d by (simp add: slice_of_def)
  have "unat origin_address < 2 ^ LENGTH(160)" "unat amount < 2 ^ LENGTH(256)"
    by (rule unsigned_less)+
  then have "unat origin_address < 256 ^ 20" "unat amount < 256 ^ 32" by simp_all
  moreover have "256 \<le> length ?d" using \<open>64 \<le> length rest\<close> by (simp add: d)
  ultimately show ?thesis
    using assms(1) by (simp add: parse_bridge_event_def 1 2 word_of_be_def be_value_be_bytes)
qed

lemma bridge_event_roundtrip_witness:
  "parse_bridge_event \<lparr>log_address = 1, log_topics = [bridge_event_signature],
     log_data = encode_bridge_event 0 7 0xAB 3 0xCD 5000 [1, 2, 3] 9\<rparr> =
   Inr \<lparr>bd_origin_address = 0xAB, bd_amount = 5000\<rparr>"
  by (rule bridge_event_roundtrip [of _ 0 7 _ 3 "0xCD" _ "[1, 2, 3]" 9]) simp_all

section \<open>What is blocked\<close>

text \<open>
  The bridge events in the logs of a transaction, with their origin address and amount, read off the
  layout of the event and not through the parser: a log of the contract with the event's signature has
  eight slots of 32 bytes, of which the third is the origin address (to the right, whatever stands before
  it) and the sixth the amount. Logs of other contracts, of other events and with less data are none.
\<close>

inductive bridge_events :: "address \<Rightarrow> log list \<Rightarrow> (address \<times> u256) list \<Rightarrow> bool" for contract where
  be_Nil: "bridge_events contract [] []"
| be_other_contract: "log_address l \<noteq> contract \<Longrightarrow> bridge_events contract logs evs \<Longrightarrow> bridge_events contract (l # logs) evs"
| be_other_event: "\<nexists>topics. log_topics l = bridge_event_signature # topics \<Longrightarrow> bridge_events contract logs evs \<Longrightarrow>
    bridge_events contract (l # logs) evs"
| be_short: "length (log_data l) < 8 * 32 \<Longrightarrow> bridge_events contract logs evs \<Longrightarrow> bridge_events contract (l # logs) evs"
| be_event: "log_address l = contract \<Longrightarrow> log_topics l = bridge_event_signature # topics \<Longrightarrow>
    log_data l = be_bytes 32 leaf_type @ be_bytes 32 origin_network @ (be_bytes 12 padding @ be_bytes 20 (unat origin_address)) @
      be_bytes 32 destination_network @ be_bytes 32 destination_address @ be_bytes 32 (unat amount) @
      be_bytes 32 metadata_offset @ be_bytes 32 deposit_count @ rest \<Longrightarrow>
    bridge_events contract logs evs \<Longrightarrow> bridge_events contract (l # logs) ((origin_address, amount) # evs)"

text \<open>Every list of bytes is the bytes of its value, so that every list of logs has its bridge events.\<close>

lemma bytes_of_word:
  assumes "length bs = n" "(2 :: nat) ^ LENGTH('a::len) = 256 ^ n"
  shows "bs = be_bytes n (unat (word_of_be bs :: 'a::len word))"
proof -
  have "be_value bs < 2 ^ LENGTH('a)" using be_value_less [of bs] assms by simp
  then have "unat (word_of_be bs :: 'a word) = be_value bs" by (simp add: word_of_be_def unat_of_nat)
  with be_bytes_be_value [of bs] assms(1) show ?thesis by simp
qed

lemma slices_append: "a \<le> b \<Longrightarrow> b \<le> length xs \<Longrightarrow> drop a xs = slice_of a b xs @ drop b xs"
  unfolding slice_of_def by (metis append_take_drop_id drop_drop le_add_diff_inverse2)

lemma event_slots:
  assumes "8 * 32 \<le> length data"
  shows "data = be_bytes 32 (be_value (slice_of 0 32 data)) @ be_bytes 32 (be_value (slice_of 32 64 data)) @
      (be_bytes 12 (be_value (slice_of 64 76 data)) @ be_bytes 20 (unat (word_of_be (slice_of 76 96 data) :: address))) @
      be_bytes 32 (be_value (slice_of 96 128 data)) @ be_bytes 32 (be_value (slice_of 128 160 data)) @
      be_bytes 32 (unat (word_of_be (slice_of 160 192 data) :: u256)) @
      be_bytes 32 (be_value (slice_of 192 224 data)) @ be_bytes 32 (be_value (slice_of 224 256 data)) @ drop 256 data"
proof -
  have v: "be_bytes (b - a) (be_value (slice_of a b data)) = slice_of a b data" if "a \<le> b" "b \<le> 256" for a b
  proof -
    have "length (slice_of a b data) = b - a" using that assms by (auto simp: slice_of_def min_def)
    with be_bytes_be_value [of "slice_of a b data"] show ?thesis by simp
  qed
  have w: "be_bytes 20 (unat (word_of_be (slice_of 76 96 data) :: address)) = slice_of 76 96 data"
    "be_bytes 32 (unat (word_of_be (slice_of 160 192 data) :: u256)) = slice_of 160 192 data"
    using assms by (intro bytes_of_word [symmetric]; simp add: slice_of_def)+
  note cut = slices_append [of _ _ data]
  have "data = slice_of 0 32 data @ slice_of 32 64 data @ slice_of 64 76 data @ slice_of 76 96 data @ slice_of 96 128 data @
      slice_of 128 160 data @ slice_of 160 192 data @ slice_of 192 224 data @ slice_of 224 256 data @ drop 256 data"
    using cut [of 0 32] cut [of 32 64] cut [of 64 76] cut [of 76 96] cut [of 96 128] cut [of 128 160] cut [of 160 192] cut [of 192 224] cut [of 224 256] assms
    by simp
  with v [of 0 32] v [of 32 64] v [of 64 76] v [of 96 128] v [of 128 160] v [of 192 224] v [of 224 256] w show ?thesis by simp
qed

lemma parse_event:
  assumes "log_topics l = bridge_event_signature # topics"
    and "log_data l = be_bytes 32 leaf @ be_bytes 32 network @ (be_bytes 12 padding @ be_bytes 20 (unat origin_address)) @
      be_bytes 32 destination_network @ be_bytes 32 destination @ be_bytes 32 (unat amount) @ be_bytes 32 metadata @ be_bytes 32 deposits @ rest"
  shows "parse_bridge_event l = Inr \<lparr>bd_origin_address = origin_address, bd_amount = amount\<rparr>"
proof -
  have "slice_of 76 96 (log_data l) = be_bytes 20 (unat origin_address)" "slice_of 160 192 (log_data l) = be_bytes 32 (unat amount)"
    unfolding assms(2) by (simp_all add: slice_of_def)
  moreover have "unat origin_address < 2 ^ LENGTH(160)" "unat amount < 2 ^ LENGTH(256)" by (rule unsigned_less)+
  then have "word_of_be (be_bytes 20 (unat origin_address)) = origin_address" "word_of_be (be_bytes 32 (unat amount)) = amount"
    by (simp_all add: word_of_be_def be_value_be_bytes)
  moreover have "256 \<le> length (log_data l)" unfolding assms(2) by simp
  ultimately show ?thesis using assms(1) by (simp add: parse_bridge_event_def list_get_def)
qed

lemma events_of_logs: "\<exists>evs. bridge_events contract logs evs"
proof (induction logs)
  case (Cons l logs)
  then obtain evs where evs: "bridge_events contract logs evs" ..
  consider "log_address l \<noteq> contract" | "\<nexists>topics. log_topics l = bridge_event_signature # topics" | "length (log_data l) < 8 * 32"
    | topics where "log_address l = contract" "log_topics l = bridge_event_signature # topics" "8 * 32 \<le> length (log_data l)"
    by (meson not_le)
  then show ?case
  proof cases
    case (4 topics)
    from be_event [OF 4(1,2) event_slots [OF 4(3)] evs] show ?thesis by blast
  qed (use evs in \<open>blast intro: bridge_events.intros\<close>)+
qed (blast intro: be_Nil)

inductive_cases bridge_events_ConsE: "bridge_events contract (l # logs) evs"
inductive_cases bridge_events_NilE: "bridge_events contract [] evs"

lemma bridge_events_unique: "bridge_events contract logs evs \<Longrightarrow> bridge_events contract logs evs' \<Longrightarrow> evs' = evs"
proof (induction arbitrary: evs' rule: bridge_events.induct)
  case be_Nil
  then show ?case by (auto elim: bridge_events_NilE)
next
  case (be_event l topics leaf_type origin_network padding origin_address destination_network destination_address amount metadata_offset deposit_count rest logs evs)
  note p = parse_event [OF be_event(2,3)]
  have "256 \<le> length (log_data l)" unfolding be_event(3) by simp
  with be_event(1,2,5,6) show ?case by (elim bridge_events_ConsE) (auto dest: parse_event simp: p)
qed (erule bridge_events_ConsE; auto)+

lemma intercept_loop_events:
  assumes "bridge_events (bi_bridge_contract_address config) logs evs"
  shows "intercept_loop logs sender config =
    (if bi_wildcard config then (if evs = [] then Inr () else Inl (WildcardBlock (bi_bridge_contract_address config) sender))
     else case find (\<lambda>ev. fst ev = bi_target_token_address config) evs of
            None \<Rightarrow> Inr ()
          | Some ev \<Rightarrow> Inl (TargetTokenBlock (bi_target_token_address config) (snd ev) sender))"
  using assms
proof induction
  case (be_event l topics leaf_type origin_network padding origin_address destination_network destination_address amount metadata_offset deposit_count rest logs evs)
  with parse_event [OF be_event(2,3)] show ?case by simp
next
  case (be_other_event l logs evs)
  then have "parse_bridge_event l = Inl InvalidSignature"
    by (cases "log_topics l") (auto simp: parse_bridge_event_def list_get_def)
  with be_other_event show ?case by simp
next
  case (be_short l logs evs)
  then have "\<exists>e. parse_bridge_event l = Inl e" by (simp add: parse_bridge_event_def)
  with be_short show ?case by auto
qed simp_all

text \<open>
  C36. Interception blocks a transaction exactly when it is enabled and the transaction emitted a bridge
  event of the configured contract that is for the target token or, in wildcard mode, any: whatever the
  logs are, the outcome is decided by the bridge events in them, as the layout of the event gives them.
  Outside wildcard mode the error names the target token, the amount of the first event for it, and the
  sender. In wildcard mode other logs of the bridge contract do not block, although a comment says so.
\<close>

theorem intercept_exact:
  "\<exists>evs. (\<forall>evs'. bridge_events (bi_bridge_contract_address config) logs evs' \<longleftrightarrow> evs' = evs) \<and>
     intercept_bridge_transaction_if_need logs sender config =
       (if \<not> bi_enabled config then Inr ()
        else if bi_wildcard config then (if evs = [] then Inr () else Inl (WildcardBlock (bi_bridge_contract_address config) sender))
        else case find (\<lambda>ev. fst ev = bi_target_token_address config) evs of
               None \<Rightarrow> Inr ()
             | Some ev \<Rightarrow> Inl (TargetTokenBlock (bi_target_token_address config) (snd ev) sender))"
proof -
  obtain evs where evs: "bridge_events (bi_bridge_contract_address config) logs evs" using events_of_logs by blast
  then have "\<forall>evs'. bridge_events (bi_bridge_contract_address config) logs evs' \<longleftrightarrow> evs' = evs" using bridge_events_unique by blast
  with intercept_loop_events [OF evs] show ?thesis by (intro exI [of _ evs]) (simp add: intercept_bridge_transaction_if_need_def)
qed

end
