(* ===== verification/Execution.thy ===== *)
theory Execution
  imports Rcs_Capture Bridge_Intercept
begin

text \<open>
  Executing transactions in the flashblock builder: the execution record and its limits
  (\<open>crates/builder/src/flashblocks/utils/execution.rs\<close>), and of \<open>context.rs\<close> the gasless detection, the
  guarded execution, the receipts, and the two routines that execute transactions which were not
  chosen here: the sequencer's and the ones replayed from another builder. The EVM, the database and
  the on-chain contracts are parameters; diagnostics are left out.
\<close>

section \<open>Transactions and the execution record\<close>

text \<open>
  What the builder reads of a transaction. \<open>px_conditional\<close> and \<open>px_effective_tip\<close> are the answers
  of library methods of the transaction, \<open>px_da_size\<close> the estimate of its encoding's size, and
  \<open>px_recovers\<close> whether its signer can be recovered.
\<close>

record pool_tx =
  px_hash :: b256
  px_signer :: address
  px_recovers :: bool
  px_nonce :: nat
  px_to :: "address option"
  px_value :: u256
  px_gas_limit :: nat
  px_max_fee_per_gas :: nat
  px_da_size :: nat
  px_is_eip4844 :: bool
  px_is_deposit :: bool
  px_conditional :: "(nat \<times> nat \<Rightarrow> bool) option"
  px_interop :: "nat option"
  px_effective_tip :: "nat \<Rightarrow> nat option"

text \<open>The two deposit fields are set in deposit receipts only.\<close>

record receipt =
  rc_success :: bool
  rc_cumulative_gas_used :: nat
  rc_logs :: "log list"
  rc_deposit_nonce :: "nat option"
  rc_deposit_receipt_version :: "nat option"

record execution_info =
  ei_executed_transactions :: "pool_tx list"
  ei_executed_senders :: "address list"
  ei_receipts :: "receipt list"
  ei_cumulative_gas_used :: nat
  ei_cumulative_gasless_gas_used :: nat
  ei_gasless_budget_exhausted :: bool
  ei_cumulative_da_bytes_used :: nat
  ei_total_fees :: u256
  ei_da_footprint_scalar :: "nat option"
  ei_optional_blob_fields :: "(nat option \<times> nat option) option"

definition execution_info_new :: execution_info where
  "execution_info_new = \<lparr>ei_executed_transactions = [], ei_executed_senders = [], ei_receipts = [],
     ei_cumulative_gas_used = 0, ei_cumulative_gasless_gas_used = 0, ei_gasless_budget_exhausted = False,
     ei_cumulative_da_bytes_used = 0, ei_total_fees = 0, ei_da_footprint_scalar = None,
     ei_optional_blob_fields = None\<rparr>"

datatype txn_execution_result =
    TransactionDALimitExceeded
  | BlockDALimitExceeded nat nat nat
  | TransactionGasLimitExceeded nat nat nat

text \<open>The integers of this function are 64 bits wide; the saturating operations cap at \<open>usize_max\<close>.\<close>

definition is_tx_over_limits :: "nat \<Rightarrow> nat \<Rightarrow> nat option \<Rightarrow> nat option \<Rightarrow> nat \<Rightarrow> nat option \<Rightarrow> nat option
    \<Rightarrow> execution_info \<Rightarrow> txn_execution_result + unit" where
  "is_tx_over_limits tx_da_size block_gas_limit tx_data_limit block_data_limit tx_gas_limit
      da_footprint_gas_scalar block_da_footprint_limit info =
     (if (case tx_data_limit of Some da_limit \<Rightarrow> tx_da_size > da_limit | None \<Rightarrow> False)
      then Inl TransactionDALimitExceeded
      else
        let total_da_bytes_used = saturating_add (ei_cumulative_da_bytes_used info) tx_da_size in
        if (case block_data_limit of Some da_limit \<Rightarrow> total_da_bytes_used > da_limit | None \<Rightarrow> False)
        then Inl (BlockDALimitExceeded (ei_cumulative_da_bytes_used info) tx_da_size
                   (case block_data_limit of Some l \<Rightarrow> l | None \<Rightarrow> 0))
        else
          let tx_da_footprint = (case da_footprint_gas_scalar of Some s \<Rightarrow> saturating_mul total_da_bytes_used s | None \<Rightarrow> 0) in
          if da_footprint_gas_scalar \<noteq> None \<and>
             tx_da_footprint > (case block_da_footprint_limit of Some l \<Rightarrow> l | None \<Rightarrow> block_gas_limit)
          then Inl (BlockDALimitExceeded total_da_bytes_used tx_da_size tx_da_footprint)
          else if saturating_add (ei_cumulative_gas_used info) tx_gas_limit > block_gas_limit
          then Inl (TransactionGasLimitExceeded (ei_cumulative_gas_used info) tx_gas_limit block_gas_limit)
          else Inr ())"

section \<open>The context\<close>

text \<open>
  \<open>FlashblocksBuilderCtx\<close>: the fields are the answers of the configuration, the payload attributes,
  the block environment and the chain specification at the payload's timestamp.
\<close>

record builder_ctx =
  cx_base_fee :: nat
  cx_block_number :: nat
  cx_timestamp :: nat
  cx_gas_limit_config :: "nat option"
  cx_attributes_gas_limit :: "nat option"
  cx_env_gas_limit :: nat
  cx_tx_da_limit :: "nat option"
  cx_block_da_limit :: "nat option"
  cx_max_gas_per_txn :: "nat option"
  cx_bridge_intercept_config :: bridge_intercept_config
  cx_has_gasless_contract :: bool
  cx_gasless_block_gas_limit :: "nat option"
  cx_filter :: bool
  cx_interop_feature :: bool
  cx_regolith :: bool
  cx_canyon :: bool
  cx_ecotone :: bool
  cx_jovian :: bool

definition block_gas_limit :: "builder_ctx \<Rightarrow> nat" where
  "block_gas_limit cx = (case cx_gas_limit_config cx of
       Some gas_limit \<Rightarrow> gas_limit
     | None \<Rightarrow> (case cx_attributes_gas_limit cx of Some gas_limit \<Rightarrow> gas_limit | None \<Rightarrow> cx_env_gas_limit cx))"

record exec_result =
  er_success :: bool
  er_gas_used :: nat
  er_logs :: "log list"

datatype evm_error = EvmInvalidTx bool | EvmFatal

text \<open>
  The libraries: \<open>w_is_valid_interop\<close>; the whitelist contract's answer (\<open>None\<close> is an error) with the
  hooks its system call triggers; the execution of a transaction with its hooks and the database
  after its state is committed; the receipt builder (\<open>None\<close> for the transactions it leaves to the
  caller); the nonce of an account and the footprint scalar in the database (\<open>None\<close> is an error);
  and the pool iterator's \<open>mark_invalid\<close>. The flag of \<open>EvmInvalidTx\<close> is \<open>is_nonce_too_low\<close>.
\<close>

record 'd world =
  w_is_valid_interop :: "nat \<Rightarrow> nat \<Rightarrow> bool"
  w_contract_is_gasless :: "'d \<Rightarrow> pool_tx \<Rightarrow> hook list \<times> bool option"
  w_transact :: "'d \<Rightarrow> pool_tx \<Rightarrow> bool \<Rightarrow> hook list \<times> (evm_error + exec_result \<times> 'd)"
  w_build_receipt :: "pool_tx \<Rightarrow> exec_result \<Rightarrow> nat \<Rightarrow> receipt option"
  w_account_nonce :: "'d \<Rightarrow> address \<Rightarrow> nat option"
  w_da_footprint_scalar :: "'d \<Rightarrow> nat option"
  w_mark_invalid :: "address \<Rightarrow> nat \<Rightarrow> pool_tx list \<Rightarrow> pool_tx list"

definition build_receipt :: "builder_ctx \<Rightarrow> 'd world \<Rightarrow> pool_tx \<Rightarrow> exec_result \<Rightarrow> nat \<Rightarrow> nat option \<Rightarrow> receipt" where
  "build_receipt cx w tx r cumulative_gas_used deposit_nonce = (case w_build_receipt w tx r cumulative_gas_used of
       Some receipt \<Rightarrow> receipt
     | None \<Rightarrow> \<lparr>rc_success = er_success r, rc_cumulative_gas_used = cumulative_gas_used, rc_logs = er_logs r,
                rc_deposit_nonce = deposit_nonce, rc_deposit_receipt_version = (if cx_canyon cx then Some 1 else None)\<rparr>)"

text \<open>
  Blob fields of the header. The product is of 64-bit integers without a check, \<open>None\<close> is the panic
  on a missing scalar.
\<close>

definition blob_fields :: "builder_ctx \<Rightarrow> execution_info \<Rightarrow> (nat option \<times> nat option) option" where
  "blob_fields cx info = (case ei_optional_blob_fields info of
       Some blob_fields \<Rightarrow> Some blob_fields
     | None \<Rightarrow>
         if cx_jovian cx then
           (case ei_da_footprint_scalar info of
              None \<Rightarrow> None
            | Some scalar \<Rightarrow> Some (Some 0, Some (ei_cumulative_da_bytes_used info * scalar mod 2 ^ 64)))
         else if cx_ecotone cx then Some (Some 0, Some 0)
         else Some (None, None))"

text \<open>The inspector's control interface and hooks.\<close>

record 'i capture_ops =
  co_start :: "'i \<Rightarrow> 'i"
  co_finish :: "log list \<Rightarrow> 'i \<Rightarrow> capture_outcome \<times> 'i"
  co_abort :: "'i \<Rightarrow> 'i"
  co_hook :: "hook \<Rightarrow> 'i \<Rightarrow> 'i"

definition rcs_ops :: "ext \<Rightarrow> (create_inputs \<Rightarrow> nat \<Rightarrow> address) \<Rightarrow> rcs_inspector capture_ops" where
  "rcs_ops E created = \<lparr>co_start = start_capture, co_finish = finish_capture, co_abort = abort_capture, co_hook = inspect E created\<rparr>"

definition noop_ops :: "unit capture_ops" where
  "noop_ops = \<lparr>co_start = noop_start, co_finish = noop_finish, co_abort = noop_abort, co_hook = (\<lambda>h i. i)\<rparr>"

section \<open>Executing one transaction\<close>

definition is_gasless :: "builder_ctx \<Rightarrow> 'd world \<Rightarrow> 'd \<Rightarrow> pool_tx \<Rightarrow> hook list \<times> bool option" where
  "is_gasless cx w db tx =
     (if px_is_deposit tx \<or> px_max_fee_per_gas tx \<noteq> 0 then ([], Some False)
      else if cx_has_gasless_contract cx then w_contract_is_gasless w db tx else ([], Some False))"

definition transact_maybe_gasless :: "builder_ctx \<Rightarrow> 'd world \<Rightarrow> 'i capture_ops \<Rightarrow> 'd \<Rightarrow> pool_tx \<Rightarrow> 'i
    \<Rightarrow> (evm_error + exec_result \<times> 'd \<times> bool \<times> capture_outcome) \<times> 'i" where
  "transact_maybe_gasless cx w co db tx i0 =
     (case is_gasless cx w db tx of
        (pre, None) \<Rightarrow> (Inl EvmFatal, fold (co_hook co) pre i0)
      | (pre, Some gasless) \<Rightarrow>
          (case w_transact w db tx gasless of (hooks, answer) \<Rightarrow>
             (case guarded_transact (co_start co) (co_finish co) (co_abort co) (fold (co_hook co) hooks)
                 (case answer of Inl _ \<Rightarrow> TxErr | Inr p \<Rightarrow> TxOk (er_logs (fst p))) (fold (co_hook co) pre i0) of
                (outcome, i1) \<Rightarrow>
                  (case answer of
                     Inl e \<Rightarrow> (Inl e, i1)
                   | Inr (r, db') \<Rightarrow> (Inr (r, db', gasless, the outcome), i1)))))"

section \<open>Recording a transaction\<close>

text \<open>What every path does once a transaction is to stay: the counters, the receipt and the lists.\<close>

definition push_executed :: "builder_ctx \<Rightarrow> 'd world \<Rightarrow> pool_tx \<Rightarrow> exec_result \<Rightarrow> nat \<Rightarrow> nat option \<Rightarrow> nat \<Rightarrow> execution_info \<Rightarrow> execution_info" where
  "push_executed cx w tx r da_size deposit_nonce miner_fee info =
     (let gas = ei_cumulative_gas_used info + er_gas_used r
      in info\<lparr>ei_cumulative_gas_used := gas,
              ei_cumulative_da_bytes_used := ei_cumulative_da_bytes_used info + da_size,
              ei_receipts := ei_receipts info @ [build_receipt cx w tx r gas deposit_nonce],
              ei_total_fees := ei_total_fees info + of_nat miner_fee * of_nat (er_gas_used r),
              ei_executed_senders := ei_executed_senders info @ [px_signer tx],
              ei_executed_transactions := ei_executed_transactions info @ [tx]\<rparr>)"

definition miner_fee :: "builder_ctx \<Rightarrow> pool_tx \<Rightarrow> nat" where
  "miner_fee cx tx = (case px_effective_tip tx (cx_base_fee cx) of Some f \<Rightarrow> f | None \<Rightarrow> 0)"

datatype payload_error =
    BlobTransactionRejected
  | TransactionEcRecoverFailed
  | AccountLoadFailed address
  | EvmExecutionError evm_error
  | OverBlockLimits b256 txn_execution_result
  | DepositRejected
  | DaScalarUnavailable

section \<open>Sequencer transactions\<close>

fun execute_sequencer_loop :: "builder_ctx \<Rightarrow> 'd world \<Rightarrow> pool_tx list \<Rightarrow> execution_info \<Rightarrow> 'd \<Rightarrow> payload_error + execution_info \<times> 'd" where
  "execute_sequencer_loop cx w [] info db = Inr (info, db)"
| "execute_sequencer_loop cx w (tx # txs) info db =
     (if px_is_eip4844 tx then Inl BlobTransactionRejected
      else if \<not> px_recovers tx then Inl TransactionEcRecoverFailed
      else if cx_regolith cx \<and> px_is_deposit tx \<and> w_account_nonce w db (px_signer tx) = None
      then Inl (AccountLoadFailed (px_signer tx))
      else
        let depositor_nonce = (if cx_regolith cx \<and> px_is_deposit tx then w_account_nonce w db (px_signer tx) else None) in
        (case fst (transact_maybe_gasless cx w noop_ops db tx ()) of
           Inl (EvmInvalidTx _) \<Rightarrow> execute_sequencer_loop cx w txs info db
         | Inl EvmFatal \<Rightarrow> Inl (EvmExecutionError EvmFatal)
         | Inr (r, db', _, _) \<Rightarrow>
             execute_sequencer_loop cx w txs
               (push_executed cx w tx r (if px_is_deposit tx then 0 else px_da_size tx) depositor_nonce 0 info) db'))"

text \<open>The last error is the panic on a footprint scalar that the database does not have.\<close>

definition execute_sequencer_transactions :: "builder_ctx \<Rightarrow> 'd world \<Rightarrow> pool_tx list \<Rightarrow> 'd \<Rightarrow> payload_error + execution_info \<times> 'd" where
  "execute_sequencer_transactions cx w txs db = (case execute_sequencer_loop cx w txs execution_info_new db of
       Inl e \<Rightarrow> Inl e
     | Inr (info, db') \<Rightarrow>
         if cx_jovian cx then
           (case w_da_footprint_scalar w db' of
              None \<Rightarrow> Inl DaScalarUnavailable
            | Some s \<Rightarrow> Inr (info\<lparr>ei_da_footprint_scalar := Some s\<rparr>, db'))
         else Inr (info\<lparr>ei_da_footprint_scalar := None\<rparr>, db'))"

section \<open>Replaying cached transactions\<close>

definition over_block_limits :: "builder_ctx \<Rightarrow> execution_info \<Rightarrow> pool_tx \<Rightarrow> txn_execution_result + unit" where
  "over_block_limits cx info tx = is_tx_over_limits (px_da_size tx) (block_gas_limit cx) (cx_tx_da_limit cx)
     (cx_block_da_limit cx) (px_gas_limit tx) (ei_da_footprint_scalar info)
     (map_option (\<lambda>_. block_gas_limit cx) (ei_da_footprint_scalar info)) info"

text \<open>A failure keeps what was replayed before it: the record and the database are mutated in place.\<close>

fun execute_cached_flashblocks_transactions ::
    "builder_ctx \<Rightarrow> 'd world \<Rightarrow> pool_tx list \<Rightarrow> execution_info \<Rightarrow> 'd \<Rightarrow> payload_error option \<times> execution_info \<times> 'd" where
  "execute_cached_flashblocks_transactions cx w [] info db = (None, info, db)"
| "execute_cached_flashblocks_transactions cx w (tx # txs) info db = (case over_block_limits cx info tx of
       Inl result \<Rightarrow> (Some (OverBlockLimits (px_hash tx) result), info, db)
     | Inr _ \<Rightarrow>
         if px_is_eip4844 tx then (Some BlobTransactionRejected, info, db)
         else if px_is_deposit tx then (Some DepositRejected, info, db)
         else (case fst (transact_maybe_gasless cx w noop_ops db tx ()) of
                 Inl e \<Rightarrow> (Some (EvmExecutionError e), info, db)
               | Inr (r, db', _, _) \<Rightarrow> execute_cached_flashblocks_transactions cx w txs
                   (push_executed cx w tx r (px_da_size tx) None (miner_fee cx tx) info) db'))"

end
