(* ===== verification/Tx_Loop.thy ===== *)
theory Tx_Loop
  imports Execution
begin

text \<open>
  The transaction loop of the flashblock builder: \<open>execute_best_transactions\<close> and \<open>run_tx_loop\<close> of
  \<open>crates/builder/src/flashblocks/context.rs\<close> over the iterator of \<open>best_txs.rs\<close>. Metrics and
  diagnostics of the loop are left out.
\<close>

section \<open>The iterator\<close>

text \<open>
  \<open>BestFlashblocksTxs\<close>. The inner iterator is the list of transactions it has left; what marking a
  sender's nonce invalid does to it is a parameter of the loop.
\<close>

record best_txs =
  bt_inner :: "pool_tx list"
  bt_current_flashblock_number :: nat
  bt_commited_transactions :: "b256 list"

definition best_txs_new :: "pool_tx list \<Rightarrow> best_txs" where
  "best_txs_new inner = \<lparr>bt_inner = inner, bt_current_flashblock_number = 0, bt_commited_transactions = []\<rparr>"

definition refresh_iterator :: "pool_tx list \<Rightarrow> nat \<Rightarrow> best_txs \<Rightarrow> best_txs" where
  "refresh_iterator inner n b = b\<lparr>bt_inner := inner, bt_current_flashblock_number := n\<rparr>"

definition mark_commited :: "b256 list \<Rightarrow> best_txs \<Rightarrow> best_txs" where
  "mark_commited txs b = b\<lparr>bt_commited_transactions := fold List.insert txs (bt_commited_transactions b)\<rparr>"

fun next_uncommitted :: "b256 list \<Rightarrow> pool_tx list \<Rightarrow> (pool_tx \<times> pool_tx list) option" where
  "next_uncommitted seen [] = None"
| "next_uncommitted seen (tx # txs) = (if px_hash tx \<in> set seen then next_uncommitted seen txs else Some (tx, txs))"

definition best_next :: "best_txs \<Rightarrow> (pool_tx \<times> best_txs) option" where
  "best_next b = map_option (\<lambda>(tx, txs). (tx, b\<lparr>bt_inner := txs\<rparr>)) (next_uncommitted (bt_commited_transactions b) (bt_inner b))"

section \<open>The state of the loop\<close>

record transaction_limits =
  tl_block_gas :: nat
  tl_block_da :: "nat option"
  tl_block_da_footprint :: "nat option"

text \<open>
  What an iteration finds of its surroundings: whether the job was cancelled, the clock, and what
  other threads did to the filter's state before its two accesses.
\<close>

record iteration =
  it_cancelled :: bool
  it_now :: nat
  it_env_pre :: "shared \<Rightarrow> shared"
  it_env_screen :: "shared \<Rightarrow> shared"

record ('d, 'i) loop_state =
  ls_info :: execution_info
  ls_db :: 'd
  ls_inspector :: 'i
  ls_shared :: shared
  ls_best :: best_txs
  ls_tx_pool :: "b256 list"
  ls_considered :: nat

definition mark_invalid :: "'d world \<Rightarrow> pool_tx \<Rightarrow> ('d, 'i) loop_state \<Rightarrow> ('d, 'i) loop_state" where
  "mark_invalid w tx st = st\<lparr>ls_best := (ls_best st)\<lparr>bt_inner := w_mark_invalid w (px_signer tx) (px_nonce tx) (bt_inner (ls_best st))\<rparr>\<rparr>"

text \<open>\<open>tx_pool.remove_transaction\<close> and \<open>record_txpool_discard\<close>.\<close>

definition discard_from_pool :: "pool_tx \<Rightarrow> ('d, 'i) loop_state \<Rightarrow> ('d, 'i) loop_state" where
  "discard_from_pool tx st =
     st\<lparr>ls_tx_pool := removeAll (px_hash tx) (ls_tx_pool st),
        ls_shared := record_txpool_discard (px_hash tx \<in> set (ls_tx_pool st)) (ls_shared st)\<rparr>"

section \<open>One iteration\<close>

datatype verdict = VSkip | VDiscard | VPass

text \<open>The checks before the cancellation test: whether the candidate is skipped.\<close>

definition unfit :: "builder_ctx \<Rightarrow> 'd world \<Rightarrow> transaction_limits \<Rightarrow> execution_info \<Rightarrow> pool_tx \<Rightarrow> bool" where
  "unfit cx w lim info tx \<longleftrightarrow>
     (case px_conditional tx of Some matches \<Rightarrow> \<not> matches (cx_block_number cx, cx_timestamp cx) | None \<Rightarrow> False) \<or>
     cx_interop_feature cx \<and> (case px_interop tx of Some d \<Rightarrow> \<not> w_is_valid_interop w d (cx_timestamp cx) | None \<Rightarrow> False) \<or>
     is_tx_over_limits (px_da_size tx) (tl_block_gas lim) (cx_tx_da_limit cx) (tl_block_da lim) (px_gas_limit tx)
       (ei_da_footprint_scalar info) (tl_block_da_footprint lim) info \<noteq> Inr () \<or>
     px_is_eip4844 tx \<or> px_is_deposit tx"

text \<open>The status-only decision and the gasless budget, before execution.\<close>

definition pre_verdict :: "builder_ctx \<Rightarrow> execution_info \<Rightarrow> pool_tx \<Rightarrow> shared \<Rightarrow> verdict" where
  "pre_verdict cx info tx sh =
     (if cx_filter cx \<and> pre_screen (px_hash tx) sh = PsDefer then VSkip
      else if cx_filter cx \<and> pre_screen (px_hash tx) sh = PsDrop then VDiscard
      else if ei_gasless_budget_exhausted info \<and> px_max_fee_per_gas tx = 0 then VSkip
      else VPass)"

definition screen_input_of :: "builder_ctx \<Rightarrow> pool_tx \<Rightarrow> log list \<Rightarrow> screen_input" where
  "screen_input_of cx tx logs = \<lparr>si_tx_hash = px_hash tx, si_origin = px_signer tx, si_tx_to = px_to tx,
     si_nonce = px_nonce tx, si_value = px_value tx, si_block_height = cx_block_number cx, si_logs = logs\<rparr>"

definition screen_candidate :: "ext \<Rightarrow> builder_ctx \<Rightarrow> nat \<Rightarrow> pool_tx \<Rightarrow> capture_outcome \<Rightarrow> shared \<Rightarrow> screen \<times> shared" where
  "screen_candidate E cx now tx outcome sh = (case outcome of
       CoComplete logs \<Rightarrow> screen_tx E now (screen_input_of cx tx logs) sh
     | _ \<Rightarrow> (case fail_closed_screen outcome sh of (d, sh') \<Rightarrow> ((case d of Some s \<Rightarrow> s | None \<Rightarrow> ScDeny), sh')))"

definition over_max_gas :: "builder_ctx \<Rightarrow> nat \<Rightarrow> bool" where
  "over_max_gas cx gas_used \<longleftrightarrow> (case cx_max_gas_per_txn cx of Some m \<Rightarrow> gas_used > m | None \<Rightarrow> False)"

definition over_gasless_budget :: "builder_ctx \<Rightarrow> execution_info \<Rightarrow> bool \<Rightarrow> nat \<Rightarrow> bool" where
  "over_gasless_budget cx info gasless gas_used \<longleftrightarrow> gasless \<and> (case cx_gasless_block_gas_limit cx of
       Some limit \<Rightarrow> saturating_add (ei_cumulative_gasless_gas_used info) gas_used > limit | None \<Rightarrow> False)"

definition commit_tx :: "builder_ctx \<Rightarrow> 'd world \<Rightarrow> pool_tx \<Rightarrow> exec_result \<Rightarrow> bool \<Rightarrow> execution_info \<Rightarrow> execution_info" where
  "commit_tx cx w tx r gasless info =
     push_executed cx w tx r (px_da_size tx) None (miner_fee cx tx)
       (info\<lparr>ei_cumulative_gasless_gas_used := ei_cumulative_gasless_gas_used info + (if gasless then er_gas_used r else 0)\<rparr>)"

datatype ('d, 'i) control = Continue "('d, 'i) loop_state" | Cancelled "('d, 'i) loop_state" | Fatal "('d, 'i) loop_state"

text \<open>From the result of the execution on.\<close>

definition after_execution :: "ext \<Rightarrow> builder_ctx \<Rightarrow> 'd world \<Rightarrow> iteration \<Rightarrow> pool_tx \<Rightarrow> exec_result \<Rightarrow> 'd \<Rightarrow> bool \<Rightarrow> capture_outcome
    \<Rightarrow> ('d, 'i) loop_state \<Rightarrow> ('d, 'i) loop_state" where
  "after_execution E cx w it tx r db' gasless outcome st =
     (if over_max_gas cx (er_gas_used r) then mark_invalid w tx st
      else if over_gasless_budget cx (ls_info st) gasless (er_gas_used r)
      then mark_invalid w tx (st\<lparr>ls_info := (ls_info st)\<lparr>ei_gasless_budget_exhausted := True\<rparr>\<rparr>)
      else if intercept_bridge_transaction_if_need (er_logs r) (px_signer tx) (cx_bridge_intercept_config cx) \<noteq> Inr ()
      then mark_invalid w tx st
      else
        let committed = (\<lambda>st :: ('d, 'i) loop_state. st\<lparr>ls_info := commit_tx cx w tx r gasless (ls_info st), ls_db := db'\<rparr>) in
        if cx_filter cx then
          (case screen_candidate E cx (it_now it) tx outcome (it_env_screen it (ls_shared st)) of (decision, sh) \<Rightarrow>
             let st1 = st\<lparr>ls_shared := sh\<rparr> in
             (case decision of
               ScAllow \<Rightarrow> committed st1
             | ScAuditApproved \<Rightarrow> committed st1
             | ScDeny \<Rightarrow> discard_from_pool tx (mark_invalid w tx st1)
             | ScDrop \<Rightarrow> discard_from_pool tx (mark_invalid w tx st1)
             | ScAuditPending \<Rightarrow> mark_invalid w tx st1))
        else committed st)"

definition tx_step :: "ext \<Rightarrow> builder_ctx \<Rightarrow> 'd world \<Rightarrow> 'i capture_ops \<Rightarrow> transaction_limits \<Rightarrow> iteration \<Rightarrow> pool_tx
    \<Rightarrow> ('d, 'i) loop_state \<Rightarrow> ('d, 'i) control" where
  "tx_step E cx w co lim it tx st =
     (if unfit cx w lim (ls_info st) tx then Continue (mark_invalid w tx st)
      else if it_cancelled it then Cancelled st
      else
        let st1 = st\<lparr>ls_shared := it_env_pre it (ls_shared st)\<rparr> in
        (case pre_verdict cx (ls_info st1) tx (ls_shared st1) of
          VSkip \<Rightarrow> Continue (mark_invalid w tx st1)
        | VDiscard \<Rightarrow> Continue (discard_from_pool tx (mark_invalid w tx st1))
        | VPass \<Rightarrow>
            (case transact_maybe_gasless cx w co (ls_db st1) tx (ls_inspector st1) of (answer, i) \<Rightarrow>
               let st2 = st1\<lparr>ls_inspector := i\<rparr> in
               (case answer of
                 Inl (EvmInvalidTx nonce_too_low) \<Rightarrow> Continue (if nonce_too_low then st2 else mark_invalid w tx st2)
               | Inl EvmFatal \<Rightarrow> Fatal st2
               | Inr (r, db', gasless, outcome) \<Rightarrow> Continue (after_execution E cx w it tx r db' gasless outcome st2)))))"

partial_function (option) run_tx_loop :: "ext \<Rightarrow> builder_ctx \<Rightarrow> 'd world \<Rightarrow> 'i capture_ops \<Rightarrow> transaction_limits \<Rightarrow> (nat \<Rightarrow> iteration)
    \<Rightarrow> ('d, 'i) loop_state \<Rightarrow> ('d, 'i) control option" where
  "run_tx_loop E cx w co lim its st =
     (case best_next (ls_best st) of
        None \<Rightarrow> Some (Continue st)
      | Some (tx, best) \<Rightarrow>
          (let st1 = st\<lparr>ls_best := best, ls_considered := ls_considered st + 1\<rparr> in
           (case tx_step E cx w co lim (its (ls_considered st)) tx st1 of
             Continue st2 \<Rightarrow> run_tx_loop E cx w co lim its st2
           | c \<Rightarrow> Some c)))"

section \<open>Entry point\<close>

text \<open>
  \<open>execute_best_transactions\<close>: a fresh capture inspector when the filter is enabled, the no-op
  inspector otherwise. The result carries the final record, database, filter state, iterator and pool.
\<close>

datatype loop_end = Finished | WasCancelled | EvmFailed

record 'd loop_result =
  lr_end :: loop_end
  lr_info :: execution_info
  lr_db :: 'd
  lr_shared :: shared
  lr_best :: best_txs
  lr_tx_pool :: "b256 list"

definition start_state :: "execution_info \<Rightarrow> 'd \<Rightarrow> 'i \<Rightarrow> shared \<Rightarrow> best_txs \<Rightarrow> b256 list \<Rightarrow> ('d, 'i) loop_state" where
  "start_state info db i sh best pool = \<lparr>ls_info = info, ls_db = db, ls_inspector = i, ls_shared = sh, ls_best = best,
     ls_tx_pool = pool, ls_considered = 0\<rparr>"

fun control_state :: "('d, 'i) control \<Rightarrow> ('d, 'i) loop_state" where
  "control_state (Continue st) = st"
| "control_state (Cancelled st) = st"
| "control_state (Fatal st) = st"

fun control_end :: "('d, 'i) control \<Rightarrow> loop_end" where
  "control_end (Continue st) = Finished"
| "control_end (Cancelled st) = WasCancelled"
| "control_end (Fatal st) = EvmFailed"

definition loop_result_of :: "('d, 'i) control \<Rightarrow> 'd loop_result" where
  "loop_result_of c = (let st = control_state c in
     \<lparr>lr_end = control_end c, lr_info = ls_info st, lr_db = ls_db st, lr_shared = ls_shared st, lr_best = ls_best st,
      lr_tx_pool = ls_tx_pool st\<rparr>)"

definition execute_best_transactions :: "ext \<Rightarrow> (create_inputs \<Rightarrow> nat \<Rightarrow> address) \<Rightarrow> builder_ctx \<Rightarrow> 'd world \<Rightarrow> transaction_limits
    \<Rightarrow> (nat \<Rightarrow> iteration) \<Rightarrow> execution_info \<Rightarrow> 'd \<Rightarrow> shared \<Rightarrow> best_txs \<Rightarrow> b256 list \<Rightarrow> 'd loop_result option" where
  "execute_best_transactions E created cx w lim its info db sh best pool =
     (if cx_filter cx then
        map_option loop_result_of (run_tx_loop E cx w (rcs_ops E created) lim its
          (start_state info db (rcs_inspector_new (fc_max_native_transfers_per_tx (sh_config sh))) sh best pool))
      else map_option loop_result_of (run_tx_loop E cx w noop_ops lim its (start_state info db () sh best pool)))"

section \<open>What an iteration can do\<close>

text \<open>The conditions under which a candidate is committed with result \<open>r\<close>.\<close>

definition admitted :: "ext \<Rightarrow> builder_ctx \<Rightarrow> 'd world \<Rightarrow> 'i capture_ops \<Rightarrow> transaction_limits \<Rightarrow> iteration \<Rightarrow> pool_tx
    \<Rightarrow> ('d, 'i) loop_state \<Rightarrow> exec_result \<Rightarrow> 'd \<Rightarrow> bool \<Rightarrow> capture_outcome \<Rightarrow> bool" where
  "admitted E cx w co lim it tx st r db' gasless oc \<longleftrightarrow>
     \<not> unfit cx w lim (ls_info st) tx \<and> \<not> it_cancelled it \<and>
     fst (transact_maybe_gasless cx w co (ls_db st) tx (ls_inspector st)) = Inr (r, db', gasless, oc) \<and>
     \<not> over_max_gas cx (er_gas_used r) \<and> \<not> over_gasless_budget cx (ls_info st) gasless (er_gas_used r) \<and>
     intercept_bridge_transaction_if_need (er_logs r) (px_signer tx) (cx_bridge_intercept_config cx) = Inr () \<and>
     (cx_filter cx \<longrightarrow> pre_screen (px_hash tx) (it_env_pre it (ls_shared st)) = PsExecute \<and>
        fst (screen_candidate E cx (it_now it) tx oc (it_env_screen it (it_env_pre it (ls_shared st)))) \<in> {ScAllow, ScAuditApproved})"

lemma mark_discard_frame [simp]:
  "ls_info (mark_invalid w tx st) = ls_info st" "ls_db (mark_invalid w tx st) = ls_db st"
  "ls_inspector (mark_invalid w tx st) = ls_inspector st" "ls_shared (mark_invalid w tx st) = ls_shared st"
  "ls_tx_pool (mark_invalid w tx st) = ls_tx_pool st" "ls_considered (mark_invalid w tx st) = ls_considered st"
  "ls_info (discard_from_pool tx st) = ls_info st" "ls_db (discard_from_pool tx st) = ls_db st"
  "ls_inspector (discard_from_pool tx st) = ls_inspector st" "ls_best (discard_from_pool tx st) = ls_best st"
  "ls_considered (discard_from_pool tx st) = ls_considered st"
  by (simp_all add: mark_invalid_def discard_from_pool_def)

lemma pre_verdict_pass:
  "pre_verdict cx info tx sh = VPass \<Longrightarrow> cx_filter cx \<Longrightarrow> pre_screen (px_hash tx) sh = PsExecute"
  by (cases "pre_screen (px_hash tx) sh") (auto simp: pre_verdict_def split: if_splits)

lemma after_execution_effect:
  fixes st :: "('d, 'i) loop_state"
  assumes "s' = after_execution E cx w it tx r db' gasless oc st"
  shows "(\<not> over_max_gas cx (er_gas_used r) \<and> \<not> over_gasless_budget cx (ls_info st) gasless (er_gas_used r) \<and>
      intercept_bridge_transaction_if_need (er_logs r) (px_signer tx) (cx_bridge_intercept_config cx) = Inr () \<and>
      (cx_filter cx \<longrightarrow> fst (screen_candidate E cx (it_now it) tx oc (it_env_screen it (ls_shared st))) \<in> {ScAllow, ScAuditApproved}) \<and>
      ls_info s' = commit_tx cx w tx r gasless (ls_info st) \<and> ls_db s' = db' \<and> ls_best s' = ls_best st) \<or>
    (ls_db s' = ls_db st \<and> (\<exists>b. ls_info s' = (ls_info st)\<lparr>ei_gasless_budget_exhausted := b\<rparr>) \<and>
     ls_best s' = ls_best (mark_invalid w tx st))"
proof -
  have triv: "\<exists>b. info = (info :: execution_info)\<lparr>ei_gasless_budget_exhausted := b\<rparr>" for info
    by (rule exI [of _ "ei_gasless_budget_exhausted info"]) simp
  obtain d sh where scr: "screen_candidate E cx (it_now it) tx oc (it_env_screen it (ls_shared st)) = (d, sh)" by force
  show ?thesis
    unfolding assms after_execution_def Let_def scr
    using triv by (cases d) (auto simp: mark_invalid_def)
qed

lemma after_execution_inspector [simp]:
  "ls_inspector (after_execution E cx w it tx r db' gasless oc st) = ls_inspector st"
  by (auto simp: after_execution_def Let_def split: prod.split screen.split)

lemma tx_step_effect:
  fixes st :: "('d, 'i) loop_state"
  assumes s'_def: "s' = control_state (tx_step E cx w co lim it tx st)"
  shows "(\<exists>r db' gasless oc. admitted E cx w co lim it tx st r db' gasless oc \<and>
      ls_info s' = commit_tx cx w tx r gasless (ls_info st) \<and> ls_db s' = db' \<and> ls_best s' = ls_best st) \<or>
    (ls_db s' = ls_db st \<and> (\<exists>b. ls_info s' = (ls_info st)\<lparr>ei_gasless_budget_exhausted := b\<rparr>) \<and>
     (ls_best s' = ls_best st \<or> ls_best s' = ls_best (mark_invalid w tx st)))"
proof -
  have triv: "\<exists>b. info = (info :: execution_info)\<lparr>ei_gasless_budget_exhausted := b\<rparr>" for info
    by (rule exI [of _ "ei_gasless_budget_exhausted info"]) simp
  let ?st1 = "st\<lparr>ls_shared := it_env_pre it (ls_shared st)\<rparr>"
  consider "unfit cx w lim (ls_info st) tx" | "\<not> unfit cx w lim (ls_info st) tx" "it_cancelled it"
    | "\<not> unfit cx w lim (ls_info st) tx" "\<not> it_cancelled it" by blast
  then show ?thesis
  proof cases
    case 3
    show ?thesis
    proof (cases "pre_verdict cx (ls_info st) tx (it_env_pre it (ls_shared st))")
      case VPass
      obtain answer i where t: "transact_maybe_gasless cx w co (ls_db st) tx (ls_inspector st) = (answer, i)" by force
      let ?st2 = "?st1\<lparr>ls_inspector := i\<rparr>"
      have bm: "ls_best (mark_invalid w tx ?st2) = ls_best (mark_invalid w tx st)" by (simp add: mark_invalid_def)
      show ?thesis
      proof (cases answer)
        case (Inl e)
        with 3 VPass t bm triv show ?thesis by (cases e) (auto simp: s'_def tx_step_def Let_def)
      next
        case (Inr p)
        obtain r db' gasless oc where p: "p = (r, db', gasless, oc)" by (cases p) auto
        have s': "s' = after_execution E cx w it tx r db' gasless oc ?st2"
          using 3 VPass t Inr by (simp add: s'_def tx_step_def Let_def p)
        have pre: "cx_filter cx \<longrightarrow> pre_screen (px_hash tx) (it_env_pre it (ls_shared st)) = PsExecute"
          using pre_verdict_pass [OF VPass] by simp
        from after_execution_effect [OF s'] show ?thesis
          unfolding admitted_def t using 3 Inr p pre bm by fastforce
      qed
    qed (use 3 triv in \<open>auto simp: s'_def tx_step_def Let_def mark_invalid_def\<close>)
  qed (use triv in \<open>auto simp: s'_def tx_step_def\<close>)
qed

text \<open>An invariant of the iterations is an invariant of the loop.\<close>

lemma run_tx_loop_invariant:
  assumes "run_tx_loop E cx w co lim its st = Some c" "I st"
    and "\<And>st tx best. I st \<Longrightarrow> best_next (ls_best st) = Some (tx, best) \<Longrightarrow>
      I (control_state (tx_step E cx w co lim (its (ls_considered st)) tx (st\<lparr>ls_best := best, ls_considered := ls_considered st + 1\<rparr>)))"
  shows "I (control_state c)"
proof -
  have "I st \<longrightarrow> (\<forall>st tx best. I st \<longrightarrow> best_next (ls_best st) = Some (tx, best) \<longrightarrow>
      I (control_state (tx_step E cx w co lim (its (ls_considered st)) tx (st\<lparr>ls_best := best, ls_considered := ls_considered st + 1\<rparr>))))
      \<longrightarrow> I (control_state c)"
    using assms(1)
  proof (induction rule: run_tx_loop.raw_induct [rotated, consumes 1, case_names step])
    case (step run E cx w co lim its st c)
    show ?case
    proof (cases "best_next (ls_best st)")
      case None
      with step(2) show ?thesis by auto
    next
      case (Some p)
      obtain tx best where p: "p = (tx, best)" by (cases p)
      let ?c = "tx_step E cx w co lim (its (ls_considered st)) tx (st\<lparr>ls_best := best, ls_considered := ls_considered st + 1\<rparr>)"
      show ?thesis
      proof (cases ?c)
        case (Continue st2)
        with step(2) Some p have "run E cx w co lim its st2 = Some c" by (simp add: Let_def)
        from step(1) [OF this] Continue Some p show ?thesis by (metis control_state.simps(1))
      next
        case (Cancelled st2)
        with step(2) Some p have "c = ?c" by (simp add: Let_def)
        with Some p show ?thesis by blast
      next
        case (Fatal st2)
        with step(2) Some p have "c = ?c" by (simp add: Let_def)
        with Some p show ?thesis by blast
      qed
    qed
  qed
  with assms(2,3) show ?thesis by blast
qed

section \<open>Termination and limits\<close>

lemma next_uncommitted_Some:
  assumes "next_uncommitted seen txs = Some (tx, rest)"
  shows "\<exists>pre. txs = pre @ tx # rest \<and> px_hash tx \<notin> set seen"
  using assms by (induction txs) (auto split: if_splits intro: exI [of _ "_ # _"])

lemma best_next_Some:
  assumes "best_next b = Some (tx, b')"
  shows "\<exists>pre. bt_inner b = pre @ tx # bt_inner b' \<and> px_hash tx \<notin> set (bt_commited_transactions b) \<and>
      bt_commited_transactions b' = bt_commited_transactions b"
  using assms next_uncommitted_Some by (auto simp: best_next_def)

text \<open>Marking a sender invalid only removes transactions from what the iterator has left.\<close>

definition marks_shrink :: "'d world \<Rightarrow> bool" where
  "marks_shrink w \<longleftrightarrow> (\<forall>sender nonce txs. subseq (w_mark_invalid w sender nonce txs) txs)"

lemma tx_step_iterator:
  assumes "marks_shrink w"
  shows "subseq (bt_inner (ls_best (control_state (tx_step E cx w co lim it tx st)))) (bt_inner (ls_best st)) \<and>
    bt_commited_transactions (ls_best (control_state (tx_step E cx w co lim it tx st))) = bt_commited_transactions (ls_best st)"
  using tx_step_effect [OF refl, of E cx w co lim it tx st] assms by (auto simp: mark_invalid_def marks_shrink_def)

lemma run_tx_loop_returns:
  assumes "marks_shrink w"
  shows "\<exists>c. run_tx_loop E cx w co lim its st = Some c"
proof (induction "length (bt_inner (ls_best st))" arbitrary: st rule: less_induct)
  case less
  show ?case
  proof (cases "best_next (ls_best st)")
    case None
    then show ?thesis by (simp add: run_tx_loop.simps)
  next
    case (Some p)
    obtain tx best where p: "p = (tx, best)" by (cases p)
    let ?st1 = "st\<lparr>ls_best := best, ls_considered := ls_considered st + 1\<rparr>"
    let ?c = "tx_step E cx w co lim (its (ls_considered st)) tx ?st1"
    have "length (bt_inner best) < length (bt_inner (ls_best st))"
      using best_next_Some Some p by fastforce
    moreover have "length (bt_inner (ls_best (control_state ?c))) \<le> length (bt_inner best)"
      using tx_step_iterator [OF assms, of E cx co lim "its (ls_considered st)" tx ?st1] list_emb_length by fastforce
    ultimately have "\<exists>c. run_tx_loop E cx w co lim its (control_state ?c) = Some c" by (intro less) simp
    with Some p show ?thesis by (cases ?c) (auto simp: run_tx_loop.simps [of _ _ _ _ _ _ st] Let_def)
  qed
qed

text \<open>
  \<open>usize_max\<close> cannot be told from a saturated sum, so a limit says something only below it.
\<close>

definition limits_proper :: "builder_ctx \<Rightarrow> transaction_limits \<Rightarrow> bool" where
  "limits_proper cx lim \<longleftrightarrow> tl_block_gas lim < usize_max \<and>
     list_all (\<lambda>l. case l of Some n \<Rightarrow> n < usize_max | None \<Rightarrow> True)
       [tl_block_da lim, tl_block_da_footprint lim, cx_gasless_block_gas_limit cx]"

definition within_limits :: "builder_ctx \<Rightarrow> transaction_limits \<Rightarrow> execution_info \<Rightarrow> bool" where
  "within_limits cx lim info \<longleftrightarrow>
     ei_cumulative_gas_used info \<le> tl_block_gas lim \<and>
     (case cx_gasless_block_gas_limit cx of Some l \<Rightarrow> ei_cumulative_gasless_gas_used info \<le> l | None \<Rightarrow> True) \<and>
     (case tl_block_da lim of Some l \<Rightarrow> ei_cumulative_da_bytes_used info \<le> l | None \<Rightarrow> True) \<and>
     (case ei_da_footprint_scalar info of
        Some s \<Rightarrow> ei_cumulative_da_bytes_used info * s \<le> (case tl_block_da_footprint lim of Some l \<Rightarrow> l | None \<Rightarrow> tl_block_gas lim)
      | None \<Rightarrow> True)"

lemma within_limits_flag [simp]:
  "within_limits cx lim (info\<lparr>ei_gasless_budget_exhausted := b\<rparr>) = within_limits cx lim info"
  by (simp add: within_limits_def cong: option.case_cong)

text \<open>The EVM does not use more gas than the transaction's limit.\<close>

definition gas_sound :: "'d world \<Rightarrow> bool" where
  "gas_sound w \<longleftrightarrow> (\<forall>db tx gasless hooks r db'. w_transact w db tx gasless = (hooks, Inr (r, db')) \<longrightarrow> er_gas_used r \<le> px_gas_limit tx)"

lemma transact_maybe_gasless_Inr:
  assumes "fst (transact_maybe_gasless cx w co db tx i) = Inr (r, db', gasless, oc)"
  obtains pre hooks where "is_gasless cx w db tx = (pre, Some gasless)" "w_transact w db tx gasless = (hooks, Inr (r, db'))"
    "guarded_transact (co_start co) (co_finish co) (co_abort co) (fold (co_hook co) hooks) (TxOk (er_logs r)) (fold (co_hook co) pre i) =
       (Some oc, snd (transact_maybe_gasless cx w co db tx i))"
  using assms
  by (auto simp: transact_maybe_gasless_def guarded_transact_def Let_def split: prod.splits option.splits sum.splits)

lemma saturating_below: "saturating_add a b \<le> l \<Longrightarrow> l < usize_max \<Longrightarrow> a + b \<le> l"
  by (simp add: saturating_add_def min_def split: if_splits)

lemma saturating_mul_below: "saturating_mul a b \<le> l \<Longrightarrow> l < usize_max \<Longrightarrow> a * b \<le> l"
  by (simp add: saturating_mul_def min_def split: if_splits)

lemma is_tx_over_limits_ok:
  assumes "is_tx_over_limits da gas txl bl txg sc fl info = Inr ()"
  shows "saturating_add (ei_cumulative_gas_used info) txg \<le> gas"
    "bl = Some l \<Longrightarrow> saturating_add (ei_cumulative_da_bytes_used info) da \<le> l"
    "sc = Some s \<Longrightarrow> saturating_mul (saturating_add (ei_cumulative_da_bytes_used info) da) s \<le> (case fl of Some l \<Rightarrow> l | None \<Rightarrow> gas)"
    "txl = Some l \<Longrightarrow> da \<le> l"
  using assms by (auto simp: is_tx_over_limits_def Let_def split: if_splits option.splits)

lemma footprint_below:
  assumes "saturating_mul (saturating_add a b) s \<le> l" "l < usize_max"
  shows "(a + b) * s \<le> l"
proof (cases "s = 0")
  case False
  have "saturating_add a b * s \<le> l" by (rule saturating_mul_below [OF assms])
  moreover from this False have "saturating_add a b \<le> l" by (cases s) auto
  then have "saturating_add a b = a + b" using assms(2) by (simp add: saturating_add_def min_def split: if_splits)
  ultimately show ?thesis by simp
qed simp

lemma commit_tx_frame [simp]:
  "ei_executed_transactions (commit_tx cx w tx r g info) = ei_executed_transactions info @ [tx]"
  "ei_cumulative_gas_used (commit_tx cx w tx r g info) = ei_cumulative_gas_used info + er_gas_used r"
  "ei_cumulative_gasless_gas_used (commit_tx cx w tx r g info) = ei_cumulative_gasless_gas_used info + (if g then er_gas_used r else 0)"
  "ei_cumulative_da_bytes_used (commit_tx cx w tx r g info) = ei_cumulative_da_bytes_used info + px_da_size tx"
  "ei_da_footprint_scalar (commit_tx cx w tx r g info) = ei_da_footprint_scalar info"
  by (simp_all add: commit_tx_def push_executed_def Let_def)

lemma unfit_limits:
  assumes "\<not> unfit cx w lim info tx"
  shows "is_tx_over_limits (px_da_size tx) (tl_block_gas lim) (cx_tx_da_limit cx) (tl_block_da lim) (px_gas_limit tx)
      (ei_da_footprint_scalar info) (tl_block_da_footprint lim) info = Inr ()"
    "\<not> px_is_eip4844 tx" "\<not> px_is_deposit tx"
  using assms by (auto simp: unfit_def)

lemma within_limits_commit:
  assumes "admitted E cx w co lim it tx st r db' g oc" "gas_sound w" "limits_proper cx lim" "within_limits cx lim (ls_info st)"
  shows "within_limits cx lim (commit_tx cx w tx r g (ls_info st))"
proof -
  let ?info = "ls_info st"
  have ok: "is_tx_over_limits (px_da_size tx) (tl_block_gas lim) (cx_tx_da_limit cx) (tl_block_da lim) (px_gas_limit tx)
      (ei_da_footprint_scalar ?info) (tl_block_da_footprint lim) ?info = Inr ()"
    using assms(1) by (auto simp: admitted_def intro: unfit_limits)
  note lims = is_tx_over_limits_ok [OF ok]
  have t: "fst (transact_maybe_gasless cx w co (ls_db st) tx (ls_inspector st)) = Inr (r, db', g, oc)"
    using assms(1) by (simp add: admitted_def)
  have gas: "er_gas_used r \<le> px_gas_limit tx"
    using transact_maybe_gasless_Inr [OF t] assms(2) unfolding gas_sound_def by metis
  have 1: "ei_cumulative_gas_used ?info + er_gas_used r \<le> tl_block_gas lim"
    using saturating_below [OF lims(1)] gas assms(3) by (simp add: limits_proper_def)
  have 2: "case cx_gasless_block_gas_limit cx of
      Some l \<Rightarrow> ei_cumulative_gasless_gas_used ?info + (if g then er_gas_used r else 0) \<le> l | None \<Rightarrow> True"
    using assms(1,3,4) saturating_below
    by (auto simp: admitted_def over_gasless_budget_def limits_proper_def within_limits_def not_less split: option.splits if_splits)
  have 3: "case tl_block_da lim of Some l \<Rightarrow> ei_cumulative_da_bytes_used ?info + px_da_size tx \<le> l | None \<Rightarrow> True"
    using lims(2) saturating_below assms(3) by (auto simp: limits_proper_def split: option.splits)
  have 4: "case ei_da_footprint_scalar ?info of
      Some s \<Rightarrow> (ei_cumulative_da_bytes_used ?info + px_da_size tx) * s \<le> (case tl_block_da_footprint lim of Some l \<Rightarrow> l | None \<Rightarrow> tl_block_gas lim)
    | None \<Rightarrow> True"
    using lims(3) footprint_below assms(3) by (auto simp: limits_proper_def split: option.splits)
  from 1 2 3 4 show ?thesis unfolding within_limits_def commit_tx_frame by blast
qed

lemma run_tx_loop_within:
  assumes "run_tx_loop E cx w co lim its st = Some c" "gas_sound w" "limits_proper cx lim" "within_limits cx lim (ls_info st)"
  shows "within_limits cx lim (ls_info (control_state c))"
proof (rule run_tx_loop_invariant [where I = "\<lambda>st. within_limits cx lim (ls_info st)", OF assms(1,4)])
  fix st :: "('a, 'b) loop_state" and tx best
  assume w: "within_limits cx lim (ls_info st)"
  let ?st = "st\<lparr>ls_best := best, ls_considered := ls_considered st + 1\<rparr>"
  from tx_step_effect [OF refl, of E cx w co lim "its (ls_considered st)" tx ?st]
  show "within_limits cx lim (ls_info (control_state (tx_step E cx w co lim (its (ls_considered st)) tx ?st)))"
  proof (elim disjE exE conjE)
    fix r db' g oc
    assume "admitted E cx w co lim (its (ls_considered st)) tx ?st r db' g oc"
      and "ls_info (control_state (tx_step E cx w co lim (its (ls_considered st)) tx ?st)) = commit_tx cx w tx r g (ls_info ?st)"
    then show ?thesis using within_limits_commit assms(2,3) w by fastforce
  qed (use w in simp_all)
qed

lemma execute_best_cases:
  obtains c where "execute_best_transactions E C cx w lim its info db sh best pool = map_option loop_result_of c" "cx_filter cx"
    "c = run_tx_loop E cx w (rcs_ops E C) lim its (start_state info db (rcs_inspector_new (fc_max_native_transfers_per_tx (sh_config sh))) sh best pool)"
  | c where "execute_best_transactions E C cx w lim its info db sh best pool = map_option loop_result_of c" "\<not> cx_filter cx"
    "c = run_tx_loop E cx w noop_ops lim its (start_state info db () sh best pool)"
  by (cases "cx_filter cx") (auto simp: execute_best_transactions_def)

lemma start_state_simps [simp]:
  "ls_info (start_state info db i sh best pool) = info" "ls_db (start_state info db i sh best pool) = db"
  "ls_inspector (start_state info db i sh best pool) = i" "ls_shared (start_state info db i sh best pool) = sh"
  "ls_best (start_state info db i sh best pool) = best"
  by (simp_all add: start_state_def)

lemma loop_result_simps [simp]:
  "lr_info (loop_result_of c) = ls_info (control_state c)" "lr_db (loop_result_of c) = ls_db (control_state c)"
  "lr_best (loop_result_of c) = ls_best (control_state c)" "lr_shared (loop_result_of c) = ls_shared (control_state c)"
  by (simp_all add: loop_result_of_def Let_def)

text \<open>
  C10. The loop returns, and the block stays within its limits: gas, the gasless budget, data
  availability bytes and the data availability footprint, when the iterator only shrinks on
  \<open>mark_invalid\<close>, the EVM respects gas limits and the configured limits are below the largest integer.
\<close>

theorem loop_returns_within_limits:
  assumes "marks_shrink w" "gas_sound w" "limits_proper cx lim" "within_limits cx lim info"
  shows "\<exists>res. execute_best_transactions E C cx w lim its info db sh best pool = Some res \<and> within_limits cx lim (lr_info res)"
proof (cases rule: execute_best_cases [of E C cx w lim its info db sh best pool])
  case (1 c)
  with run_tx_loop_returns [OF assms(1)] obtain k where "c = Some k" by metis
  with 1 run_tx_loop_within [OF _ assms(2,3)] assms(4) show ?thesis by fastforce
next
  case (2 c)
  with run_tx_loop_returns [OF assms(1)] obtain k where "c = Some k" by metis
  with 2 run_tx_loop_within [OF _ assms(2,3)] assms(4) show ?thesis by fastforce
qed

section \<open>What is packaged\<close>

text \<open>The transactions an iteration adds.\<close>

lemma run_tx_loop_packages:
  assumes run: "run_tx_loop E cx w co lim its st = Some c" and "marks_shrink w"
  shows "\<exists>txs. ei_executed_transactions (ls_info (control_state c)) = ei_executed_transactions (ls_info st) @ txs \<and>
    subseq txs (bt_inner (ls_best st)) \<and> list_all (\<lambda>tx. px_hash tx \<notin> set (bt_commited_transactions (ls_best st))) txs"
proof -
  let ?I = "\<lambda>s. bt_commited_transactions (ls_best s) = bt_commited_transactions (ls_best st) \<and>
    (\<exists>txs. ei_executed_transactions (ls_info s) = ei_executed_transactions (ls_info st) @ txs \<and>
      subseq (txs @ bt_inner (ls_best s)) (bt_inner (ls_best st)) \<and>
      list_all (\<lambda>tx. px_hash tx \<notin> set (bt_commited_transactions (ls_best st))) txs)"
  have "?I (control_state c)"
  proof (rule run_tx_loop_invariant [where I = ?I, OF run])
    show "?I st" by simp
    fix s :: "('a, 'b) loop_state" and tx best
    assume I: "?I s" and nx: "best_next (ls_best s) = Some (tx, best)"
    let ?s = "s\<lparr>ls_best := best, ls_considered := ls_considered s + 1\<rparr>"
    let ?s' = "control_state (tx_step E cx w co lim (its (ls_considered s)) tx ?s)"
    obtain txs where txs: "ei_executed_transactions (ls_info s) = ei_executed_transactions (ls_info st) @ txs"
      "subseq (txs @ bt_inner (ls_best s)) (bt_inner (ls_best st))"
      "list_all (\<lambda>tx. px_hash tx \<notin> set (bt_commited_transactions (ls_best st))) txs" using I by blast
    obtain pre where pre: "bt_inner (ls_best s) = pre @ tx # bt_inner best" "px_hash tx \<notin> set (bt_commited_transactions (ls_best s))"
      "bt_commited_transactions best = bt_commited_transactions (ls_best s)" using best_next_Some [OF nx] by blast
    note it = tx_step_iterator [OF assms(2), of E cx co lim "its (ls_considered s)" tx ?s]
    have left: "subseq (bt_inner (ls_best ?s')) (bt_inner best)" using it by simp
    have "subseq (txs @ tx # bt_inner best) (bt_inner (ls_best st))"
      using txs(2) unfolding pre(1) by (rule subseq_order.trans [rotated]) (simp add: subseq_append' list_emb_append2)
    then have 1: "subseq (txs @ tx # bt_inner (ls_best ?s')) (bt_inner (ls_best st))"
      using left by (meson list_emb_append_mono subseq_Cons2 subseq_order.refl subseq_order.trans)
    have 2: "subseq (txs @ bt_inner (ls_best ?s')) (bt_inner (ls_best st))"
      using 1 by (rule subseq_order.trans [rotated]) (simp add: subseq_append' list_emb_Cons)
    from tx_step_effect [OF refl, of E cx w co lim "its (ls_considered s)" tx ?s]
    have "ei_executed_transactions (ls_info ?s') = ei_executed_transactions (ls_info st) @ (txs @ [tx]) \<or>
      ei_executed_transactions (ls_info ?s') = ei_executed_transactions (ls_info st) @ txs" using txs(1) by fastforce
    moreover have "bt_commited_transactions (ls_best ?s') = bt_commited_transactions (ls_best st)" using it pre(3) I by simp
    moreover have "list_all (\<lambda>tx. px_hash tx \<notin> set (bt_commited_transactions (ls_best st))) (txs @ [tx])"
      using txs(3) pre(2) I by simp
    ultimately show "?I ?s'" using 1 2 txs(3) by (metis append.assoc append_Cons append_Nil)
  qed
  then obtain txs where "ei_executed_transactions (ls_info (control_state c)) = ei_executed_transactions (ls_info st) @ txs"
      "subseq (txs @ bt_inner (ls_best (control_state c))) (bt_inner (ls_best st))"
      "list_all (\<lambda>tx. px_hash tx \<notin> set (bt_commited_transactions (ls_best st))) txs" by blast
  moreover have "subseq txs (txs @ bt_inner (ls_best (control_state c)))"
    using subseq_append' [of txs "[]"] by simp
  ultimately show ?thesis using subseq_order.trans by blast
qed

text \<open>
  The loop appends a subsequence of the iterator's transactions, in its order, none of which an
  earlier flashblock of the same block had marked as committed; so transactions with distinct hashes
  stay distinct across flashblocks.
\<close>

lemma loop_packages_subsequence:
  assumes "execute_best_transactions E C cx w lim its info db sh best pool = Some res" "marks_shrink w"
  shows "\<exists>txs. ei_executed_transactions (lr_info res) = ei_executed_transactions info @ txs \<and> subseq txs (bt_inner best) \<and>
    set (map px_hash txs) \<inter> set (bt_commited_transactions best) = {}"
proof -
  have "\<exists>txs. ei_executed_transactions (lr_info res) = ei_executed_transactions info @ txs \<and> subseq txs (bt_inner best) \<and>
    list_all (\<lambda>tx. px_hash tx \<notin> set (bt_commited_transactions best)) txs"
  proof (cases rule: execute_best_cases [of E C cx w lim its info db sh best pool])
    case (1 c)
    with assms(1) obtain k where "c = Some k" "res = loop_result_of k" by auto
    with run_tx_loop_packages [OF _ assms(2)] 1(3) show ?thesis by fastforce
  next
    case (2 c)
    with assms(1) obtain k where "c = Some k" "res = loop_result_of k" by auto
    with run_tx_loop_packages [OF _ assms(2)] 2(3) show ?thesis by fastforce
  qed
  then show ?thesis by (auto simp: list_all_iff)
qed

section \<open>Replay\<close>

text \<open>The limits of a flashblock are within those of its block.\<close>

definition limits_nested :: "builder_ctx \<Rightarrow> transaction_limits \<Rightarrow> bool" where
  "limits_nested cx lim \<longleftrightarrow> tl_block_gas lim \<le> block_gas_limit cx \<and>
     (case cx_block_da_limit cx of None \<Rightarrow> True | Some d \<Rightarrow> (case tl_block_da lim of None \<Rightarrow> False | Some d' \<Rightarrow> d' \<le> d)) \<and>
     (case tl_block_da_footprint lim of None \<Rightarrow> True | Some f \<Rightarrow> f \<le> block_gas_limit cx)"

definition forget_gasless :: "execution_info \<Rightarrow> execution_info \<Rightarrow> execution_info" where
  "forget_gasless base info = info\<lparr>ei_cumulative_gasless_gas_used := ei_cumulative_gasless_gas_used base,
     ei_gasless_budget_exhausted := ei_gasless_budget_exhausted base\<rparr>"

lemma over_block_limits_ok:
  assumes "limits_nested cx lim" "\<not> unfit cx w lim info tx"
  shows "over_block_limits cx (forget_gasless base info) tx = Inr ()"
proof -
  note lims = is_tx_over_limits_ok [OF unfit_limits(1) [OF assms(2)]]
  have "over_block_limits cx (forget_gasless base info) tx = over_block_limits cx info tx"
    unfolding over_block_limits_def is_tx_over_limits_def by (simp add: forget_gasless_def split del: if_split cong: if_cong)
  also have "\<dots> = Inr ()"
  proof -
    have 1: "saturating_add (ei_cumulative_gas_used info) (px_gas_limit tx) \<le> block_gas_limit cx"
      using lims(1) assms(1) by (simp add: limits_nested_def)
    have 2: "saturating_add (ei_cumulative_da_bytes_used info) (px_da_size tx) \<le> d" if "cx_block_da_limit cx = Some d" for d
      using lims(2) that assms(1) by (auto simp: limits_nested_def split: option.splits)
    have 3: "saturating_mul (saturating_add (ei_cumulative_da_bytes_used info) (px_da_size tx)) s \<le> block_gas_limit cx"
      if "ei_da_footprint_scalar info = Some s" for s
      using lims(3) [OF that] assms(1) by (auto simp: limits_nested_def split: option.splits)
    from 1 2 3 lims(4) show ?thesis
      by (auto simp: over_block_limits_def is_tx_over_limits_def Let_def not_less split: option.splits)
  qed
  finally show ?thesis .
qed

lemma transact_any_inspector:
  assumes "fst (transact_maybe_gasless cx w co db tx i) = Inr (r, db', gasless, oc)"
  shows "fst (transact_maybe_gasless cx w co' db tx j) = Inr (r, db', gasless, the (fst (guarded_transact (co_start co') (co_finish co') (co_abort co')
    (fold (co_hook co') (fst (w_transact w db tx gasless))) (TxOk (er_logs r)) (fold (co_hook co') (fst (is_gasless cx w db tx)) j))))"
  using assms by (rule transact_maybe_gasless_Inr) (simp add: transact_maybe_gasless_def split: prod.split)

lemma cached_append:
  "execute_cached_flashblocks_transactions cx w (xs @ ys) info db =
     (case execute_cached_flashblocks_transactions cx w xs info db of
        (None, info', db') \<Rightarrow> execute_cached_flashblocks_transactions cx w ys info' db'
      | failed \<Rightarrow> failed)"
  by (induction cx w xs info db rule: execute_cached_flashblocks_transactions.induct)
    (auto split: sum.split prod.split)

lemma forget_commit:
  "push_executed cx w tx r (px_da_size tx) None (miner_fee cx tx) (forget_gasless base info) =
     forget_gasless base (commit_tx cx w tx r g info)"
  by (simp add: push_executed_def forget_gasless_def commit_tx_def Let_def)

lemma cached_step:
  assumes "limits_nested cx lim" "admitted E cx w co lim it tx st r db' g oc"
  shows "execute_cached_flashblocks_transactions cx w [tx] (forget_gasless base (ls_info st)) (ls_db st) =
    (None, forget_gasless base (commit_tx cx w tx r g (ls_info st)), db')"
proof -
  have u: "\<not> unfit cx w lim (ls_info st) tx" and t: "fst (transact_maybe_gasless cx w co (ls_db st) tx (ls_inspector st)) = Inr (r, db', g, oc)"
    using assms(2) by (simp_all add: admitted_def)
  show ?thesis
    using over_block_limits_ok [OF assms(1) u] transact_any_inspector [OF t, of noop_ops "()"] unfit_limits [OF u] forget_commit
    by (simp add: forget_commit [of cx w tx r base _ g])
qed

lemma run_tx_loop_replays:
  assumes run: "run_tx_loop E cx w co lim its st = Some c" and lim: "limits_nested cx lim"
  shows "\<exists>txs. ei_executed_transactions (ls_info (control_state c)) = ei_executed_transactions (ls_info st) @ txs \<and>
    execute_cached_flashblocks_transactions cx w txs (ls_info st) (ls_db st) =
      (None, forget_gasless (ls_info st) (ls_info (control_state c)), ls_db (control_state c))"
proof (rule run_tx_loop_invariant [where I = "\<lambda>s. \<exists>txs. ei_executed_transactions (ls_info s) = ei_executed_transactions (ls_info st) @ txs \<and>
    execute_cached_flashblocks_transactions cx w txs (ls_info st) (ls_db st) = (None, forget_gasless (ls_info st) (ls_info s), ls_db s)", OF run])
  show "\<exists>txs. ei_executed_transactions (ls_info st) = ei_executed_transactions (ls_info st) @ txs \<and>
    execute_cached_flashblocks_transactions cx w txs (ls_info st) (ls_db st) = (None, forget_gasless (ls_info st) (ls_info st), ls_db st)"
    by (intro exI [of _ "[]"]) (simp add: forget_gasless_def)
  fix s :: "('a, 'b) loop_state" and tx best
  assume "\<exists>txs. ei_executed_transactions (ls_info s) = ei_executed_transactions (ls_info st) @ txs \<and>
    execute_cached_flashblocks_transactions cx w txs (ls_info st) (ls_db st) = (None, forget_gasless (ls_info st) (ls_info s), ls_db s)"
  then obtain txs where txs: "ei_executed_transactions (ls_info s) = ei_executed_transactions (ls_info st) @ txs"
    "execute_cached_flashblocks_transactions cx w txs (ls_info st) (ls_db st) = (None, forget_gasless (ls_info st) (ls_info s), ls_db s)" by blast
  let ?s = "s\<lparr>ls_best := best, ls_considered := ls_considered s + 1\<rparr>"
  let ?s' = "control_state (tx_step E cx w co lim (its (ls_considered s)) tx ?s)"
  from tx_step_effect [OF refl, of E cx w co lim "its (ls_considered s)" tx ?s]
  consider r db' g oc where "admitted E cx w co lim (its (ls_considered s)) tx ?s r db' g oc"
      "ls_info ?s' = commit_tx cx w tx r g (ls_info s)" "ls_db ?s' = db'"
    | b where "ls_info ?s' = (ls_info s)\<lparr>ei_gasless_budget_exhausted := b\<rparr>" "ls_db ?s' = ls_db s" by fastforce
  then show "\<exists>txs. ei_executed_transactions (ls_info ?s') = ei_executed_transactions (ls_info st) @ txs \<and>
    execute_cached_flashblocks_transactions cx w txs (ls_info st) (ls_db st) = (None, forget_gasless (ls_info st) (ls_info ?s'), ls_db ?s')"
  proof cases
    case (1 r db' g oc)
    with cached_step [OF lim 1(1), of "ls_info st"] txs
    show ?thesis by (intro exI [of _ "txs @ [tx]"]) (simp add: cached_append del: execute_cached_flashblocks_transactions.simps)
  next
    case (2 b)
    with txs show ?thesis by (intro exI [of _ txs]) (simp add: forget_gasless_def)
  qed
qed

lemma execute_best_replays:
  assumes "execute_best_transactions E C cx w lim its info db sh best pool = Some res" "limits_nested cx lim"
  shows "\<exists>txs. ei_executed_transactions (lr_info res) = ei_executed_transactions info @ txs \<and>
    execute_cached_flashblocks_transactions cx w txs info db = (None, forget_gasless info (lr_info res), lr_db res)"
proof (cases rule: execute_best_cases [of E C cx w lim its info db sh best pool])
  case (1 c)
  with assms(1) obtain k where "c = Some k" "res = loop_result_of k" by auto
  with run_tx_loop_replays [OF _ assms(2)] 1(3) show ?thesis by fastforce
next
  case (2 c)
  with assms(1) obtain k where "c = Some k" "res = loop_result_of k" by auto
  with run_tx_loop_replays [OF _ assms(2)] 2(3) show ?thesis by fastforce
qed

text \<open>
  Failover: a builder that takes over and replays the transactions another builder packaged, in
  their order and from the same record and database, accepts every one of them and arrives at the same
  database and the same record (gas, data availability, receipts, fees, transactions, senders); only
  the gasless accounting, which replay does not keep, stays as it was. In particular the database
  after the loop is determined by the packaged transactions alone: a rejected candidate leaves no trace.
\<close>

lemma replay_reproduces_loop:
  assumes "execute_best_transactions E C cx w lim its info db sh best pool = Some res" "limits_nested cx lim"
  shows "\<exists>txs. ei_executed_transactions (lr_info res) = ei_executed_transactions info @ txs \<and>
    execute_cached_flashblocks_transactions cx w txs info db = (None, forget_gasless info (lr_info res), lr_db res)"
  using assms by (rule execute_best_replays)

section \<open>Screening the captured stream\<close>

text \<open>The states the filter passes through during the loop.\<close>

inductive loop_shared_step :: "ext \<Rightarrow> builder_ctx \<Rightarrow> (nat \<Rightarrow> iteration) \<Rightarrow> shared \<Rightarrow> shared \<Rightarrow> bool" for E cx its where
  ls_env_pre: "loop_shared_step E cx its s (it_env_pre (its k) s)"
| ls_env_screen: "loop_shared_step E cx its s (it_env_screen (its k) s)"
| ls_screen: "loop_shared_step E cx its s (snd (screen_candidate E cx now tx oc s))"
| ls_discard: "loop_shared_step E cx its s (record_txpool_discard removed s)"

text \<open>
  What clears a transaction with the given observation stream in a state of the filter: the rules
  find nothing in their complete enumeration within the budget; or its audit timed out fail-open, or
  was approved and still hashes to what was submitted.
\<close>

definition cleared :: "ext \<Rightarrow> builder_ctx \<Rightarrow> pool_tx \<Rightarrow> log list \<Rightarrow> shared \<Rightarrow> bool" where
  "cleared E cx tx stream sh \<longleftrightarrow>
     (case pool_get (sh_pool sh) (px_hash tx) of
        None \<Rightarrow> reference_outcome E (screen_input_of cx tx stream) (rs_rules (sh_rules sh)) = MAllow \<and>
          binding_total E (screen_input_of cx tx stream) (rs_rules (sh_rules sh)) \<le> fc_max_event_bindings_per_tx (sh_config sh)
      | Some e \<Rightarrow> be_status e = TimedOutAllow \<or> be_status e = Approved \<and>
          consistent E (sh_config sh) (be_rule_snapshot e) (screen_input_of cx tx stream) (be_quota_consistency_hash e))"

lemma screen_tx_cleared:
  assumes "fst (screen_tx E now (screen_input_of cx tx stream) sh) \<in> {ScAllow, ScAuditApproved}"
  shows "cleared E cx tx stream sh"
proof (cases "pool_get (sh_pool sh) (px_hash tx)")
  case None
  let ?in = "screen_input_of cx tx stream"
  have sn: "snapshot_entry (si_tx_hash ?in) sh = None" using None by (simp add: snapshot_entry_None screen_input_of_def)
  from assms have "try_evaluate E (current_rules sh) ?in (fc_max_event_bindings_per_tx (sh_config sh)) = Inr MAllow"
    by (auto simp: screen_tx_def sn Let_def split: sum.splits match_outcome.splits)
  from evaluate_checked_Inr [OF this [unfolded try_evaluate_def]] None show ?thesis
    by (auto simp: cleared_def current_rules_def)
next
  case (Some e)
  let ?in = "screen_input_of cx tx stream"
  have h: "si_tx_hash ?in = px_hash tx" by (simp add: screen_input_of_def)
  let ?sn = "(be_status e, be_quota_consistency_hash e, be_generation e, be_rule_snapshot e)"
  have "snapshot_entry (px_hash tx) sh = Some ?sn" using Some by (simp add: snapshot_entry_def)
  with assms have "fst (screen_existing E now ?in ?sn sh) \<in> {ScAllow, ScAuditApproved}" by (simp add: screen_tx_def h)
  with screen_existing_results(1) [of E now ?in "be_status e" "be_quota_consistency_hash e" "be_generation e" "be_rule_snapshot e" sh]
  obtain sh' where "screen_existing E now ?in ?sn sh = (ScAuditApproved, sh')" by (metis insertE prod.collapse singletonD)
  from screen_existing_approved [OF this] Some show ?thesis by (auto simp: cleared_def h)
qed

lemma screen_candidate_cleared:
  assumes "fst (screen_candidate E cx now tx oc sh) \<in> {ScAllow, ScAuditApproved}"
  obtains stream where "oc = CoComplete stream" "cleared E cx tx stream sh"
  using assms screen_tx_cleared
  by (cases oc) (auto simp: screen_candidate_def fail_closed_screen_def split: capture_invariant_error.splits)

lemma rcs_ops_simps [simp]:
  "co_start (rcs_ops E C) = start_capture" "co_finish (rcs_ops E C) = finish_capture" "co_abort (rcs_ops E C) = abort_capture"
  "co_hook (rcs_ops E C) = inspect E C"
  by (simp_all add: rcs_ops_def)

lemma transact_rcs_idle:
  assumes "\<not> ri_active i"
  shows "\<not> ri_active (snd (transact_maybe_gasless cx w (rcs_ops E C) db tx i)) \<and>
    ri_limit (snd (transact_maybe_gasless cx w (rcs_ops E C) db tx i)) = ri_limit i"
proof -
  obtain pre ans where g: "is_gasless cx w db tx = (pre, ans)" by force
  have pre: "fold (inspect E C) pre i = i" using assms by (rule rcs.idle_hooks)
  show ?thesis
  proof (cases ans)
    case (Some gasless)
    obtain hooks answer where t: "w_transact w db tx gasless = (hooks, answer)" by force
    let ?res = "case answer of Inl _ \<Rightarrow> TxErr | Inr p \<Rightarrow> TxOk (er_logs (fst p))"
    obtain oc j where gt: "guarded_transact start_capture finish_capture abort_capture (fold (inspect E C) hooks) ?res i = (oc, j)" by force
    have "snd (transact_maybe_gasless cx w (rcs_ops E C) db tx i) = j"
      by (simp add: transact_maybe_gasless_def g Some t pre gt split: sum.split prod.split)
    with rcs.guarded_idle [of E C hooks ?res i] show ?thesis by (simp add: gt)
  qed (use assms in \<open>simp add: transact_maybe_gasless_def g pre\<close>)
qed

lemma transact_rcs_outcome:
  assumes "\<not> ri_active i" "fst (transact_maybe_gasless cx w (rcs_ops E C) db tx i) = Inr (r, db', gasless, oc)"
  obtains hooks where "w_transact w db tx gasless = (hooks, Inr (r, db'))"
    "oc = fst (finish_capture (er_logs r) (inspect_all E C hooks (start_capture i)))"
proof (rule transact_maybe_gasless_Inr [OF assms(2)])
  fix pre hooks
  assume h: "w_transact w db tx gasless = (hooks, Inr (r, db'))"
    and g: "guarded_transact (co_start (rcs_ops E C)) (co_finish (rcs_ops E C)) (co_abort (rcs_ops E C)) (fold (co_hook (rcs_ops E C)) hooks)
      (TxOk (er_logs r)) (fold (co_hook (rcs_ops E C)) pre i) = (Some oc, snd (transact_maybe_gasless cx w (rcs_ops E C) db tx i))"
  have "oc = fst (finish_capture (er_logs r) (inspect_all E C hooks (start_capture i)))"
    using g rcs.idle_hooks [OF assms(1), of E C pre] by (simp add: guarded_transact_def inspect_all_def split: prod.splits)
  with h show thesis by (rule that)
qed

lemma tx_step_inspector:
  assumes "\<not> ri_active (ls_inspector st)"
  shows "\<not> ri_active (ls_inspector (control_state (tx_step E cx w (rcs_ops E C) lim it tx st))) \<and>
    ri_limit (ls_inspector (control_state (tx_step E cx w (rcs_ops E C) lim it tx st))) = ri_limit (ls_inspector st)"
proof -
  obtain ans i where t: "transact_maybe_gasless cx w (rcs_ops E C) (ls_db st) tx (ls_inspector st) = (ans, i)" by force
  have "\<not> ri_active i" "ri_limit i = ri_limit (ls_inspector st)"
    using transact_rcs_idle [OF assms, of cx w E C "ls_db st" tx] by (simp_all add: t)
  with assms t show ?thesis
    by (auto simp: tx_step_def Let_def split: verdict.split sum.split evm_error.split)
qed

lemma after_execution_shared:
  "(loop_shared_step E cx its)\<^sup>*\<^sup>* (ls_shared st) (ls_shared (after_execution E cx w (its k) tx r db' g oc st))"
proof -
  let ?s1 = "it_env_screen (its k) (ls_shared st)"
  let ?s2 = "snd (screen_candidate E cx (it_now (its k)) tx oc ?s1)"
  note step = converse_rtranclp_into_rtranclp [where r = "loop_shared_step E cx its"]
  have 2: "(loop_shared_step E cx its)\<^sup>*\<^sup>* (ls_shared st) ?s2"
    by (rule step [OF ls_env_screen step [OF ls_screen rtranclp.rtrancl_refl]])
  have 3: "(loop_shared_step E cx its)\<^sup>*\<^sup>* (ls_shared st) (record_txpool_discard b ?s2)" for b
    using 2 ls_discard by (rule rtranclp.rtrancl_into_rtrancl)
  obtain d sh where "screen_candidate E cx (it_now (its k)) tx oc ?s1 = (d, sh)" by force
  with 2 3 show ?thesis by (cases d) (auto simp: after_execution_def Let_def discard_from_pool_def)
qed

lemma tx_step_shared:
  "(loop_shared_step E cx its)\<^sup>*\<^sup>* (ls_shared st) (ls_shared (control_state (tx_step E cx w co lim (its k) tx st)))"
proof -
  let ?s1 = "it_env_pre (its k) (ls_shared st)"
  note step = converse_rtranclp_into_rtranclp [where r = "loop_shared_step E cx its"]
  have 1: "(loop_shared_step E cx its)\<^sup>*\<^sup>* (ls_shared st) ?s1" by (rule step [OF ls_env_pre rtranclp.rtrancl_refl])
  have 2: "(loop_shared_step E cx its)\<^sup>*\<^sup>* (ls_shared st) (record_txpool_discard b ?s1)" for b
    using 1 ls_discard by (rule rtranclp.rtrancl_into_rtrancl)
  have 3: "(loop_shared_step E cx its)\<^sup>*\<^sup>* (ls_shared st) (ls_shared (after_execution E cx w (its k) tx r db' g oc
      (st\<lparr>ls_shared := ?s1, ls_inspector := i\<rparr>)))" for r db' g oc i
    using 1 after_execution_shared [of E cx its "st\<lparr>ls_shared := ?s1, ls_inspector := i\<rparr>"] by (auto intro: rtranclp_trans)
  show ?thesis
    using 1 2 3 by (auto simp: tx_step_def Let_def discard_from_pool_def split: verdict.split sum.split prod.split evm_error.split)
qed

definition sample_tx :: pool_tx where
  "sample_tx = \<lparr>px_hash = 7, px_signer = 1, px_recovers = True, px_nonce = 0, px_to = Some 2, px_value = 5, px_gas_limit = 30000,
     px_max_fee_per_gas = 10, px_da_size = 100, px_is_eip4844 = False, px_is_deposit = False, px_conditional = None,
     px_interop = None, px_effective_tip = (\<lambda>_. Some 2)\<rparr>"

definition sample_cx :: builder_ctx where
  "sample_cx = \<lparr>cx_base_fee = 1, cx_block_number = 1, cx_timestamp = 1000, cx_gas_limit_config = None,
     cx_attributes_gas_limit = Some 60000, cx_env_gas_limit = 0, cx_tx_da_limit = Some 1000, cx_block_da_limit = Some 5000,
     cx_max_gas_per_txn = Some 40000,
     cx_bridge_intercept_config = \<lparr>bi_enabled = False, bi_bridge_contract_address = 0, bi_target_token_address = 0, bi_wildcard = False\<rparr>,
     cx_has_gasless_contract = True, cx_gasless_block_gas_limit = Some 50000, cx_filter = True, cx_interop_feature = False,
     cx_regolith = True, cx_canyon = True, cx_ecotone = True, cx_jovian = True\<rparr>"

definition sample_world :: "nat world" where
  "sample_world = \<lparr>w_is_valid_interop = (\<lambda>_ _. True), w_contract_is_gasless = (\<lambda>_ _. ([], Some False)),
     w_transact = (\<lambda>db tx gasless. (concat (map hooks_of [EvCall (Some 5) 1 2 [] True]),
        Inr (\<lparr>er_success = True, er_gas_used = min 21000 (px_gas_limit tx), er_logs = []\<rparr>, db + 1))),
     w_build_receipt = (\<lambda>tx r gas. Some \<lparr>rc_success = er_success r, rc_cumulative_gas_used = gas, rc_logs = er_logs r,
        rc_deposit_nonce = None, rc_deposit_receipt_version = None\<rparr>),
     w_account_nonce = (\<lambda>_ _. Some 0), w_da_footprint_scalar = (\<lambda>_. Some 4),
     w_mark_invalid = (\<lambda>sender nonce txs. filter (\<lambda>tx. px_signer tx \<noteq> sender) txs)\<rparr>"

definition sample_limits :: transaction_limits where
  "sample_limits = \<lparr>tl_block_gas = 60000, tl_block_da = Some 5000, tl_block_da_footprint = Some 50000\<rparr>"

definition sample_iteration :: iteration where
  "sample_iteration = \<lparr>it_cancelled = False, it_now = 1000, it_env_pre = (\<lambda>s. s), it_env_screen = (\<lambda>s. s)\<rparr>"

abbreviation sample_run :: "nat loop_result option" where
  "sample_run \<equiv> execute_best_transactions sample_ext (\<lambda>_ _. 0) sample_cx sample_world sample_limits (\<lambda>_. sample_iteration)
     execution_info_new 0 (spawn_shared default_config) (best_txs_new [sample_tx]) [7]"

lemma sample_no_rules:
  "pool_get (sh_pool (spawn_shared default_config)) h = None"
  "try_evaluate E (current_rules (spawn_shared default_config)) input n = Inr MAllow"
  by (simp_all add: spawn_shared_def pool_default_def pool_get_def current_rules_def rule_set_default_def try_evaluate_def
      evaluate_checked_def match_result_def match_acc_new_def)

lemma sample_screen:
  "screen_tx E now input (spawn_shared default_config) = (ScAllow, increment ''allow_total'' 1 (spawn_shared default_config))"
  by (simp add: screen_tx_def snapshot_entry_def sample_no_rules Let_def)

lemma sample_finish:
  "\<exists>i. guarded_transact start_capture finish_capture abort_capture
      (fold (inspect E C) (concat (map hooks_of [EvCall (Some 5) 1 2 [] True]))) (TxOk []) (rcs_inspector_new 10000) =
     (Some (CoComplete [native_transfer_log E 1 2 5]), i)"
  by (simp add: guarded_transact_def Let_def start_capture_def rcs_inspector_new_def finish_capture_def record_call_observation_def
      observe_native_transfer_def push_checkpoint_def pop_checkpoint_def real_log_subsequence_def log_mismatch_def List.map_filter_simps)

lemma run_tx_loop_stop: "best_next (ls_best st) = None \<Longrightarrow> run_tx_loop E cx w co lim its st = Some (Continue st)"
  by (simp add: run_tx_loop.simps)

lemma run_tx_loop_continue:
  assumes "best_next (ls_best st) = Some (tx, best)"
    and "tx_step E cx w co lim (its (ls_considered st)) tx (st\<lparr>ls_best := best, ls_considered := ls_considered st + 1\<rparr>) = Continue st2"
  shows "run_tx_loop E cx w co lim its st = run_tx_loop E cx w co lim its st2"
  using assms by (simp add: run_tx_loop.simps [of _ _ _ _ _ _ st] Let_def)

lemma sample_run_packages: "\<exists>res. sample_run = Some res \<and> ei_executed_transactions (lr_info res) = [sample_tx]"
proof -
  let ?E = "sample_ext" and ?C = "\<lambda>_ _. 0"
  let ?i0 = "rcs_inspector_new (fc_max_native_transfers_per_tx (sh_config (spawn_shared default_config)))"
  let ?st = "start_state execution_info_new (0 :: nat) ?i0 (spawn_shared default_config) (best_txs_new [sample_tx]) [7]"
  let ?st1 = "?st\<lparr>ls_best := best_txs_new [], ls_considered := ls_considered ?st + 1\<rparr>"
  obtain i where gt: "guarded_transact start_capture finish_capture abort_capture
      (fold (inspect ?E ?C) (concat (map hooks_of [EvCall (Some 5) 1 2 [] True]))) (TxOk []) ?i0 =
     (Some (CoComplete [native_transfer_log ?E 1 2 5]), i)"
    using sample_finish [of ?E ?C] by (auto simp: spawn_shared_def default_config_def)
  have t: "transact_maybe_gasless sample_cx sample_world (rcs_ops ?E ?C) 0 sample_tx ?i0 =
     (Inr (\<lparr>er_success = True, er_gas_used = 21000, er_logs = []\<rparr>, 1, False, CoComplete [native_transfer_log ?E 1 2 5]), i)"
    using gt by (simp add: transact_maybe_gasless_def is_gasless_def sample_cx_def sample_world_def sample_tx_def)
  have u: "\<not> unfit sample_cx sample_world sample_limits execution_info_new sample_tx"
    by (simp add: unfit_def sample_cx_def sample_tx_def sample_limits_def execution_info_new_def is_tx_over_limits_def
        saturating_add_def usize_max_def Let_def)
  have v: "pre_verdict sample_cx execution_info_new sample_tx (spawn_shared default_config) = VPass"
    by (simp add: pre_verdict_def pre_screen_def sample_no_rules execution_info_new_def)
  let ?c = "tx_step ?E sample_cx sample_world (rcs_ops ?E ?C) sample_limits sample_iteration sample_tx ?st1"
  have c: "?c = Continue (after_execution ?E sample_cx sample_world sample_iteration sample_tx
      \<lparr>er_success = True, er_gas_used = 21000, er_logs = []\<rparr> 1 False (CoComplete [native_transfer_log ?E 1 2 5]) (?st1\<lparr>ls_shared := spawn_shared default_config, ls_inspector := i\<rparr>))"
    using u v t by (simp add: tx_step_def sample_iteration_def Let_def)
  then obtain s2 where c2: "?c = Continue s2" and s2_def: "s2 = (after_execution ?E sample_cx sample_world sample_iteration sample_tx
      \<lparr>er_success = True, er_gas_used = 21000, er_logs = []\<rparr> 1 False (CoComplete [native_transfer_log ?E 1 2 5])
      (?st1\<lparr>ls_shared := spawn_shared default_config, ls_inspector := i\<rparr>))" by blast
  have s2: "ls_info s2 = commit_tx sample_cx sample_world sample_tx \<lparr>er_success = True, er_gas_used = 21000, er_logs = []\<rparr> False execution_info_new"
    "ls_best s2 = best_txs_new []"
    unfolding s2_def by (simp_all add: after_execution_def over_max_gas_def over_gasless_budget_def sample_cx_def intercept_bridge_transaction_if_need_def
        screen_candidate_def sample_screen sample_iteration_def Let_def)
  have n: "best_next (best_txs_new [sample_tx]) = Some (sample_tx, best_txs_new [])" "best_next (best_txs_new []) = None"
    by (simp_all add: best_next_def best_txs_new_def)
  have f: "cx_filter sample_cx" by (simp add: sample_cx_def)
  have k: "ls_considered ?st = 0" "ls_best ?st = best_txs_new [sample_tx]" by (simp_all add: start_state_def)
  have "run_tx_loop ?E sample_cx sample_world (rcs_ops ?E ?C) sample_limits (\<lambda>_. sample_iteration) ?st = Some (Continue s2)"
    using run_tx_loop_continue [of ?st, OF _ c2] run_tx_loop_stop [of s2] n k s2(2) c2 by simp
  with f s2(1) show ?thesis by (simp add: execute_best_transactions_def execution_info_new_def)
qed

lemma sample_laws:
  "marks_shrink sample_world" "gas_sound sample_world" "limits_proper sample_cx sample_limits"
  "within_limits sample_cx sample_limits execution_info_new" "limits_nested sample_cx sample_limits"
  by (simp_all add: marks_shrink_def gas_sound_def limits_proper_def within_limits_def limits_nested_def sample_world_def sample_cx_def
      sample_limits_def execution_info_new_def usize_max_def block_gas_limit_def)

theorem loop_returns_within_limits_witness:
  "\<exists>res. sample_run = Some res \<and> ei_executed_transactions (lr_info res) = [sample_tx] \<and> within_limits sample_cx sample_limits (lr_info res)"
  using loop_returns_within_limits [OF sample_laws(1-4), of sample_ext "\<lambda>_ _. 0" "\<lambda>_. sample_iteration" 0 "spawn_shared default_config"
      "best_txs_new [sample_tx]" "[7]"] sample_run_packages by auto

lemma loop_packages_subsequence_witness:
  "\<exists>res txs. sample_run = Some res \<and> ei_executed_transactions (lr_info res) = txs \<and> txs = [sample_tx] \<and> subseq txs [sample_tx]"
proof -
  obtain res where r: "sample_run = Some res" "ei_executed_transactions (lr_info res) = [sample_tx]" using sample_run_packages by blast
  from loop_packages_subsequence [OF r(1) sample_laws(1)] r show ?thesis by (auto simp: best_txs_new_def execution_info_new_def)
qed

lemma replay_reproduces_loop_witness:
  "\<exists>res. sample_run = Some res \<and>
     execute_cached_flashblocks_transactions sample_cx sample_world [sample_tx] execution_info_new 0 =
       (None, forget_gasless execution_info_new (lr_info res), lr_db res)"
proof -
  obtain res where r: "sample_run = Some res" "ei_executed_transactions (lr_info res) = [sample_tx]" using sample_run_packages by blast
  from replay_reproduces_loop [OF r(1) sample_laws(5)] r show ?thesis
    by (auto simp: execution_info_new_def)
qed

end
