(* ===== verification/Builder_Tx.thy ===== *)
theory Builder_Tx
  imports Execution
begin

text \<open>
  The builder's own transactions (\<open>crates/builder/src/flashblocks/builder_tx.rs\<close>): one that names the
  block, and one that increments the flashblock number contract. Signing and the simulation of a
  contract call are parameters. Simulations run on a copy of the state and commit nothing.
\<close>

section \<open>Transactions to sign\<close>

record tx_eip1559 =
  te_nonce :: nat
  te_gas_limit :: nat
  te_max_fee_per_gas :: nat
  te_max_priority_fee_per_gas :: nat
  te_to :: address
  te_input :: "byte list"

record call_request =
  cr_gas_limit :: nat
  cr_max_fee_per_gas :: nat
  cr_to :: address
  cr_from :: address
  cr_nonce :: nat
  cr_input :: "byte list"

text \<open>A simulated call: gas, logs and whether the output decodes; or the text of a revert or halt.\<close>

datatype sim_outcome = SimSuccess nat "log list" bool | SimRevert string | SimHalt string

text \<open>
  The libraries: a signer's signature over a transaction (the chain id is part of it), the simulated
  call with balance check and block gas limit disabled, and the selector of a contract function.
\<close>

record 'd builder_lib =
  lb_sign_tx :: "address \<Rightarrow> tx_eip1559 \<Rightarrow> string + pool_tx"
  lb_simulate :: "'d \<Rightarrow> call_request \<Rightarrow> evm_error + sim_outcome"
  lb_selector :: "string \<Rightarrow> byte list"

record builder_transaction_ctx =
  bc_gas_used :: nat
  bc_da_size :: nat
  bc_signed_tx :: pool_tx
  bc_is_top_of_block :: bool

datatype invalid_contract_data_error = InvalidLogs "b256 list" "b256 list" | OutputAbiDecodeError

datatype builder_transaction_error =
    BteAccountLoadFailed address
  | SigningError string
  | InvalidContract address invalid_contract_data_error
  | TransactionHalted address string
  | TransactionReverted address string
  | InvalidTransactionError evm_error
  | BteEvmExecutionError evm_error

text \<open>\<open>FlashblocksBuilderTx\<close>; a signer is its address, and the base of the second variant has the same signer.\<close>

datatype flashblocks_builder_tx = BaseTx "address option" | NumberContract address address

definition set_top_of_block :: "builder_transaction_ctx \<Rightarrow> builder_transaction_ctx" where
  "set_top_of_block b = b\<lparr>bc_is_top_of_block := True\<rparr>"

definition get_nonce :: "'d world \<Rightarrow> 'd \<Rightarrow> address \<Rightarrow> builder_transaction_error + nat" where
  "get_nonce w db a = (case w_account_nonce w db a of None \<Rightarrow> Inl (BteAccountLoadFailed a) | Some n \<Rightarrow> Inr n)"

section \<open>The transaction that names the block\<close>

definition total_cost_floor_per_token :: nat where
  "total_cost_floor_per_token = 10"

definition estimate_builder_tx_gas :: "byte list \<Rightarrow> nat" where
  "estimate_builder_tx_gas input =
     (case fold (\<lambda>byte (zeros, nonzeros). if byte = 0 then (zeros + 1, nonzeros) else (zeros, nonzeros + 1)) input (0, 0) of
        (zero_bytes, nonzero_bytes) \<Rightarrow>
          let zero_cost = zero_bytes * 4; nonzero_cost = nonzero_bytes * 16;
              tokens_in_calldata = zero_bytes + nonzero_bytes * 4;
              floor_gas = 21000 + tokens_in_calldata * total_cost_floor_per_token
          in max (zero_cost + nonzero_cost + 21000) floor_gas)"

definition signed_builder_tx :: "builder_ctx \<Rightarrow> 'd world \<Rightarrow> 'd builder_lib \<Rightarrow> 'd \<Rightarrow> address \<Rightarrow> nat \<Rightarrow> byte list
    \<Rightarrow> builder_transaction_error + pool_tx" where
  "signed_builder_tx cx w L db signer gas_used message = (case get_nonce w db signer of
       Inl e \<Rightarrow> Inl e
     | Inr nonce \<Rightarrow>
         (case lb_sign_tx L signer \<lparr>te_nonce = nonce, te_gas_limit = gas_used, te_max_fee_per_gas = cx_base_fee cx,
                 te_max_priority_fee_per_gas = 0, te_to = 0, te_input = message\<rparr> of
            Inl e \<Rightarrow> Inl (SigningError e)
          | Inr tx \<Rightarrow> Inr tx))"

definition builder_message :: "builder_ctx \<Rightarrow> byte list" where
  "builder_message cx = as_bytes (''Block Number: '' @ show_radix 10 (cx_block_number cx))"

definition simulate_builder_tx :: "builder_ctx \<Rightarrow> 'd world \<Rightarrow> 'd builder_lib \<Rightarrow> 'd \<Rightarrow> address option
    \<Rightarrow> builder_transaction_error + builder_transaction_ctx option" where
  "simulate_builder_tx cx w L db base_signer = (case base_signer of
       None \<Rightarrow> Inr None
     | Some signer \<Rightarrow>
         let message = builder_message cx; gas_used = estimate_builder_tx_gas message in
         (case signed_builder_tx cx w L db signer gas_used message of
            Inl e \<Rightarrow> Inl e
          | Inr signed_tx \<Rightarrow> Inr (Some \<lparr>bc_gas_used = gas_used, bc_da_size = px_da_size signed_tx, bc_signed_tx = signed_tx,
              bc_is_top_of_block = False\<rparr>)))"

section \<open>The transaction to the number contract\<close>

definition flashblock_incremented_signature_hash :: "ext \<Rightarrow> b256" where
  "flashblock_incremented_signature_hash E = keccak256 E (as_bytes ''FlashblockIncremented(uint256)'')"

definition sign_tx :: "builder_ctx \<Rightarrow> 'd world \<Rightarrow> 'd builder_lib \<Rightarrow> 'd \<Rightarrow> address \<Rightarrow> address \<Rightarrow> nat \<Rightarrow> byte list
    \<Rightarrow> builder_transaction_error + pool_tx" where
  "sign_tx cx w L db to_addr signer gas_used calldata = (case get_nonce w db signer of
       Inl e \<Rightarrow> Inl e
     | Inr nonce \<Rightarrow>
         (case lb_sign_tx L signer \<lparr>te_nonce = nonce, te_gas_limit = gas_used * 64 div 63, te_max_fee_per_gas = cx_base_fee cx,
                 te_max_priority_fee_per_gas = 0, te_to = to_addr, te_input = calldata\<rparr> of
            Inl e \<Rightarrow> Inl (SigningError e)
          | Inr tx \<Rightarrow> Inr tx))"

definition simulate_call :: "'d builder_lib \<Rightarrow> 'd \<Rightarrow> call_request \<Rightarrow> b256 list \<Rightarrow> builder_transaction_error + nat" where
  "simulate_call L db req expected_logs = (case lb_simulate L db req of
       Inl (EvmInvalidTx n) \<Rightarrow> Inl (InvalidTransactionError (EvmInvalidTx n))
     | Inl EvmFatal \<Rightarrow> Inl (BteEvmExecutionError EvmFatal)
     | Inr (SimSuccess gas_used logs decodes) \<Rightarrow>
         let topics = remdups (concat (map log_topics logs)) in
         if \<not> list_all (\<lambda>t. t \<in> set topics) expected_logs then Inl (InvalidContract (cr_to req) (InvalidLogs expected_logs topics))
         else if \<not> decodes then Inl (InvalidContract (cr_to req) OutputAbiDecodeError)
         else Inr gas_used
     | Inr (SimRevert reason) \<Rightarrow> Inl (TransactionReverted (cr_to req) reason)
     | Inr (SimHalt reason) \<Rightarrow> Inl (TransactionHalted (cr_to req) reason))"

definition simulate_flashblocks_call :: "builder_ctx \<Rightarrow> 'd world \<Rightarrow> 'd builder_lib \<Rightarrow> 'd \<Rightarrow> address \<Rightarrow> address \<Rightarrow> byte list \<Rightarrow> b256 list
    \<Rightarrow> builder_transaction_error + nat" where
  "simulate_flashblocks_call cx w L db signer contract calldata expected_logs = (case get_nonce w db signer of
       Inl e \<Rightarrow> Inl e
     | Inr nonce \<Rightarrow> simulate_call L db \<lparr>cr_gas_limit = block_gas_limit cx, cr_max_fee_per_gas = cx_base_fee cx, cr_to = contract,
         cr_from = signer, cr_nonce = nonce, cr_input = calldata\<rparr> expected_logs)"

definition increment_flashblocks_tx :: "ext \<Rightarrow> builder_ctx \<Rightarrow> 'd world \<Rightarrow> 'd builder_lib \<Rightarrow> 'd \<Rightarrow> address \<Rightarrow> address \<Rightarrow> byte list
    \<Rightarrow> builder_transaction_error + builder_transaction_ctx" where
  "increment_flashblocks_tx E cx w L db signer contract calldata =
     (case simulate_flashblocks_call cx w L db signer contract calldata [flashblock_incremented_signature_hash E] of
        Inl e \<Rightarrow> Inl e
      | Inr gas_used \<Rightarrow>
          (case sign_tx cx w L db contract signer gas_used calldata of
             Inl e \<Rightarrow> Inl e
           | Inr signed_tx \<Rightarrow> Inr \<lparr>bc_gas_used = gas_used, bc_da_size = px_da_size signed_tx, bc_signed_tx = signed_tx,
               bc_is_top_of_block = True\<rparr>))"

definition signed_increment_flashblocks_tx :: "ext \<Rightarrow> builder_ctx \<Rightarrow> 'd world \<Rightarrow> 'd builder_lib \<Rightarrow> 'd \<Rightarrow> address \<Rightarrow> address
    \<Rightarrow> builder_transaction_error + builder_transaction_ctx" where
  "signed_increment_flashblocks_tx E cx w L db signer contract =
     increment_flashblocks_tx E cx w L db signer contract (lb_selector L ''incrementFlashblockNumber()'')"

section \<open>What a flashblock gets\<close>

definition opt_list :: "'a option \<Rightarrow> 'a list" where
  "opt_list x = (case x of None \<Rightarrow> [] | Some y \<Rightarrow> [y])"

definition simulate_base_builder_txs :: "builder_ctx \<Rightarrow> 'd world \<Rightarrow> 'd builder_lib \<Rightarrow> 'd \<Rightarrow> address option \<Rightarrow> bool \<Rightarrow> bool
    \<Rightarrow> builder_transaction_error + builder_transaction_ctx list" where
  "simulate_base_builder_txs cx w L db base is_first_flashblock is_last_flashblock =
     (case (if is_first_flashblock then simulate_builder_tx cx w L db base else Inr None) of
        Inl e \<Rightarrow> Inl e
      | Inr flashblocks_builder_tx \<Rightarrow>
          (case (if is_last_flashblock then simulate_builder_tx cx w L db base else Inr None) of
             Inl e \<Rightarrow> Inl e
           | Inr base_tx \<Rightarrow> Inr (opt_list flashblocks_builder_tx @ opt_list base_tx)))"

definition simulate_number_contract_builder_txs :: "ext \<Rightarrow> builder_ctx \<Rightarrow> 'd world \<Rightarrow> 'd builder_lib \<Rightarrow> 'd \<Rightarrow> address \<Rightarrow> address \<Rightarrow> bool
    \<Rightarrow> builder_transaction_error + builder_transaction_ctx list" where
  "simulate_number_contract_builder_txs E cx w L db signer contract is_first_flashblock =
     (if is_first_flashblock then map_sum id opt_list (simulate_builder_tx cx w L db (Some signer))
      else
        (case signed_increment_flashblocks_tx E cx w L db signer contract of
           Inr tx \<Rightarrow> Inr [tx]
         | Inl _ \<Rightarrow> map_sum id (\<lambda>b. opt_list (map_option set_top_of_block b)) (simulate_builder_tx cx w L db (Some signer))))"

definition simulate_builder_txs :: "ext \<Rightarrow> builder_ctx \<Rightarrow> 'd world \<Rightarrow> 'd builder_lib \<Rightarrow> flashblocks_builder_tx \<Rightarrow> 'd \<Rightarrow> bool \<Rightarrow> bool
    \<Rightarrow> builder_transaction_error + builder_transaction_ctx list" where
  "simulate_builder_txs E cx w L btx db is_first_flashblock is_last_flashblock = (case btx of
       BaseTx base \<Rightarrow> simulate_base_builder_txs cx w L db base is_first_flashblock is_last_flashblock
     | NumberContract signer contract \<Rightarrow> simulate_number_contract_builder_txs E cx w L db signer contract is_first_flashblock)"

text \<open>\<open>invalid\<close> is the set of signers whose earlier builder transaction failed.\<close>

fun add_builder_loop :: "builder_ctx \<Rightarrow> 'd world \<Rightarrow> bool \<Rightarrow> builder_transaction_ctx list \<Rightarrow> address list \<Rightarrow> execution_info \<Rightarrow> 'd
    \<Rightarrow> builder_transaction_error option \<times> execution_info \<times> 'd" where
  "add_builder_loop cx w top_of_block [] invalid info db = (None, info, db)"
| "add_builder_loop cx w top_of_block (b # bs) invalid info db =
     (let tx = bc_signed_tx b in
      if bc_is_top_of_block b \<noteq> top_of_block then add_builder_loop cx w top_of_block bs invalid info db
      else if px_signer tx \<in> set invalid then add_builder_loop cx w top_of_block bs invalid info db
      else
        (case snd (w_transact w db tx False) of
           Inl (EvmInvalidTx nonce_too_low) \<Rightarrow>
             add_builder_loop cx w top_of_block bs (if nonce_too_low then invalid else List.insert (px_signer tx) invalid) info db
         | Inl EvmFatal \<Rightarrow> (Some (BteEvmExecutionError EvmFatal), info, db)
         | Inr (r, db') \<Rightarrow>
             if \<not> er_success r then add_builder_loop cx w top_of_block bs (List.insert (px_signer tx) invalid) info db
             else add_builder_loop cx w top_of_block bs invalid (push_executed cx w tx r (bc_da_size b) None 0 info) db'))"

definition add_builder_txs :: "ext \<Rightarrow> builder_ctx \<Rightarrow> 'd world \<Rightarrow> 'd builder_lib \<Rightarrow> flashblocks_builder_tx \<Rightarrow> bool \<Rightarrow> bool \<Rightarrow> bool
    \<Rightarrow> execution_info \<Rightarrow> 'd \<Rightarrow> (builder_transaction_error + builder_transaction_ctx list) \<times> execution_info \<times> 'd" where
  "add_builder_txs E cx w L btx top_of_block is_first_flashblock is_last_flashblock info db =
     (case simulate_builder_txs E cx w L btx db is_first_flashblock is_last_flashblock of
        Inl e \<Rightarrow> (Inl e, info, db)
      | Inr builder_txs \<Rightarrow>
          (case add_builder_loop cx w top_of_block builder_txs [] info db of
             (Some e, info', db') \<Rightarrow> (Inl e, info', db')
           | (None, info', db') \<Rightarrow> (Inr builder_txs, info', db')))"

section \<open>What they do to a block\<close>

text \<open>The transactions this builder makes itself, in whatever state.\<close>

definition own_tx :: "ext \<Rightarrow> builder_ctx \<Rightarrow> 'd world \<Rightarrow> 'd builder_lib \<Rightarrow> flashblocks_builder_tx \<Rightarrow> pool_tx \<Rightarrow> bool" where
  "own_tx E cx w L btx tx \<longleftrightarrow> (\<exists>db first last bs. simulate_builder_txs E cx w L btx db first last = Inr bs \<and> tx \<in> bc_signed_tx ` set bs)"

lemma push_executed_frame [simp]:
  "ei_executed_transactions (push_executed cx w tx r da n f info) = ei_executed_transactions info @ [tx]"
  "ei_cumulative_gas_used (push_executed cx w tx r da n f info) = ei_cumulative_gas_used info + er_gas_used r"
  "ei_da_footprint_scalar (push_executed cx w tx r da n f info) = ei_da_footprint_scalar info"
  "length (ei_receipts (push_executed cx w tx r da n f info)) = Suc (length (ei_receipts info))"
  by (simp_all add: push_executed_def Let_def)

lemma add_builder_loop_appends:
  assumes "add_builder_loop cx w tob bs invalid info db = (e, info', db')"
  shows "\<exists>txs. ei_executed_transactions info' = ei_executed_transactions info @ txs \<and> set txs \<subseteq> bc_signed_tx ` set bs \<and>
    ei_da_footprint_scalar info' = ei_da_footprint_scalar info"
  using assms
proof (induction bs arbitrary: invalid info db)
  case (Cons b bs)
  let ?tx = "bc_signed_tx b"
  have skip: ?case if "add_builder_loop cx w tob bs i info db = (e, info', db')" for i
    using Cons.IH [OF that] by fastforce
  show ?case
  proof (cases "bc_is_top_of_block b \<noteq> tob \<or> px_signer ?tx \<in> set invalid")
    case True
    with Cons.prems show ?thesis by (intro skip [of invalid]) (auto simp: Let_def split: if_splits)
  next
    case False
    show ?thesis
    proof (cases "snd (w_transact w db ?tx False)")
      case (Inl err)
      with Cons.prems False skip show ?thesis by (cases err) (auto simp: Let_def)
    next
      case (Inr p)
      obtain r d where p: "p = (r, d)" by (cases p)
      show ?thesis
      proof (cases "er_success r")
        case True
        with Cons.prems False Inr p
        have "add_builder_loop cx w tob bs invalid (push_executed cx w ?tx r (bc_da_size b) None 0 info) d = (e, info', db')"
          by (simp add: Let_def)
        from Cons.IH [OF this] show ?thesis by fastforce
      qed (use Cons.prems False Inr p skip in \<open>simp add: Let_def\<close>)
    qed
  qed
qed simp

lemma add_builder_txs_appends:
  assumes "add_builder_txs E cx w L btx tob first final info db = (answer, info', db')"
  shows "\<exists>txs. ei_executed_transactions info' = ei_executed_transactions info @ txs \<and> list_all (own_tx E cx w L btx) txs \<and>
    ei_da_footprint_scalar info' = ei_da_footprint_scalar info"
proof (cases "simulate_builder_txs E cx w L btx db first final")
  case (Inr bs)
  obtain e i d where l: "add_builder_loop cx w tob bs [] info db = (e, i, d)" by (metis prod_cases3)
  have "info' = i" using assms by (auto simp: add_builder_txs_def Inr l split: option.splits)
  with add_builder_loop_appends [OF l] Inr show ?thesis
    unfolding list_all_iff own_tx_def by (metis subsetD)
qed (use assms in \<open>simp add: add_builder_txs_def\<close>)

lemma add_builder_txs_none [simp]:
  "add_builder_txs E cx w L (BaseTx None) tob first final info db = (Inr [], info, db)"
  by (simp add: add_builder_txs_def simulate_builder_txs_def simulate_base_builder_txs_def simulate_builder_tx_def opt_list_def)

text \<open>The floor of EIP-7623 always decides.\<close>

lemma estimate_builder_tx_gas_floor:
  "estimate_builder_tx_gas input = 21000 + 10 * (length (filter (\<lambda>b. b = 0) input) + 4 * length (filter (\<lambda>b. b \<noteq> 0) input))"
proof -
  have "fold (\<lambda>byte (zeros, nonzeros). if byte = 0 then (zeros + 1, nonzeros) else (zeros, nonzeros + 1)) input (a, b) =
      (a + length (filter (\<lambda>b. b = 0) input), b + length (filter (\<lambda>b. b \<noteq> 0) input))" for a b :: nat
    by (induction input arbitrary: a b) auto
  then show ?thesis by (simp add: estimate_builder_tx_gas_def total_cost_floor_per_token_def Let_def)
qed

end
