(* ===== verification/Flashblock_Cache.thy ===== *)
theory Flashblock_Cache
  imports Prelude "HOL-Library.Multiset"
begin

text \<open>
  The cache of the pending block's flashblocks (\<open>crates/builder/src/flashblocks/utils/cache.rs\<close>), from
  which a builder that takes over replays transactions, and its file on disk. Signature recovery, the
  serialisation and the outcome of file operations are parameters.
\<close>

section \<open>The sequence\<close>

record 'raw flashblock_payload =
  fp_payload_id :: u64
  fp_index :: nat
  fp_parent_hash :: "b256 option"
  fp_transactions :: "'raw list"

record 'raw payloads_sequence =
  ps_payload_id :: u64
  ps_parent_hash :: "b256 option"
  ps_payloads :: "'raw flashblock_payload list"

record 'raw payloads_cache =
  pc_inner :: "'raw payloads_sequence option"
  pc_persist_path :: "string option"

definition add_flashblock_payload :: "'raw flashblock_payload \<Rightarrow> 'raw payloads_cache \<Rightarrow> 'raw payloads_cache" where
  "add_flashblock_payload payload c =
     (let fresh = \<lparr>ps_payload_id = fp_payload_id payload, ps_parent_hash = fp_parent_hash payload, ps_payloads = [payload]\<rparr> in
      c\<lparr>pc_inner := Some (case pc_inner c of
          None \<Rightarrow> fresh
        | Some sq \<Rightarrow>
            if ps_payload_id sq = fp_payload_id payload
            then sq\<lparr>ps_parent_hash := (if ps_parent_hash sq = None then fp_parent_hash payload else ps_parent_hash sq),
                    ps_payloads := ps_payloads sq @ [payload]\<rparr>
            else fresh)\<rparr>)"

fun recover_all :: "('raw \<Rightarrow> 'tx option) \<Rightarrow> 'raw list \<Rightarrow> 'tx list option" where
  "recover_all recover [] = Some []"
| "recover_all recover (r # rs) = (case recover r of
       None \<Rightarrow> None
     | Some t \<Rightarrow> map_option (Cons t) (recover_all recover rs))"

fun collect_txs :: "('raw \<Rightarrow> 'tx option) \<Rightarrow> nat \<Rightarrow> 'raw flashblock_payload list \<Rightarrow> 'tx list \<Rightarrow> 'tx list option" where
  "collect_txs recover expected [] acc = Some acc"
| "collect_txs recover expected (p # ps) acc =
     (if fp_index p \<noteq> expected then None
      else case recover_all recover (fp_transactions p) of
             None \<Rightarrow> None
           | Some txs \<Rightarrow> collect_txs recover (Suc expected) ps (acc @ txs))"

definition get_flashblocks_sequence_txs :: "('raw \<Rightarrow> 'tx option) \<Rightarrow> b256 \<Rightarrow> 'raw payloads_cache \<Rightarrow> 'tx list option" where
  "get_flashblocks_sequence_txs recover parent_hash c = (case pc_inner c of
       None \<Rightarrow> None
     | Some sq \<Rightarrow>
         if ps_parent_hash sq \<noteq> Some parent_hash then None
         else collect_txs recover 1 (drop 1 (sort_key fp_index (ps_payloads sq))) [])"

section \<open>The file\<close>

text \<open>
  Files by name. A persist writes a temporary file and renames it; either operation may fail, and a
  write that fails or is cut off may leave anything in the temporary file.
\<close>

type_synonym 'b files = "string \<Rightarrow> 'b option"

definition pending_sequence_file :: string where
  "pending_sequence_file = ''pending_sequence.json''"

datatype 'b write_outcome = WriteOk | WriteFailed "'b option"

definition persist :: "('raw payloads_sequence \<Rightarrow> 'b option) \<Rightarrow> 'b write_outcome \<Rightarrow> bool \<Rightarrow> 'raw payloads_cache \<Rightarrow> 'b files
    \<Rightarrow> bool \<times> 'b files" where
  "persist to_vec write_out rename_ok c fs = (case pc_persist_path c of
       None \<Rightarrow> (True, fs)
     | Some path \<Rightarrow>
         (case pc_inner c of
            None \<Rightarrow> (True, fs)
          | Some sq \<Rightarrow>
              (case to_vec sq of
                 None \<Rightarrow> (False, fs)
               | Some data \<Rightarrow>
                   let tmp_path = CHR ''.'' # path in
                   (case write_out of
                      WriteFailed left \<Rightarrow> (False, fs(tmp_path := left))
                    | WriteOk \<Rightarrow>
                        let fs1 = fs(tmp_path := Some data) in
                        if rename_ok then (True, fs1(path := fs1 tmp_path, tmp_path := None)) else (False, fs1)))))"

definition try_load_from_filepath :: "('b \<Rightarrow> 'raw payloads_sequence option) \<Rightarrow> string option \<Rightarrow> 'b files \<Rightarrow> 'raw payloads_sequence option" where
  "try_load_from_filepath from_slice path fs = (case path of
       None \<Rightarrow> None
     | Some p \<Rightarrow> (case fs p of None \<Rightarrow> None | Some data \<Rightarrow> from_slice data))"

text \<open>Names are relative to the flashblocks directory; \<open>created\<close> is whether it could be created.\<close>

definition init_pending_sequence_path :: "bool \<Rightarrow> string option" where
  "init_pending_sequence_path created = (if created then Some pending_sequence_file else None)"

definition payloads_cache_new :: "('b \<Rightarrow> 'raw payloads_sequence option) \<Rightarrow> bool option \<Rightarrow> 'b files \<Rightarrow> 'raw payloads_cache" where
  "payloads_cache_new from_slice datadir fs =
     (let persist_path = Option.bind datadir init_pending_sequence_path in
      \<lparr>pc_inner = try_load_from_filepath from_slice persist_path fs, pc_persist_path = persist_path\<rparr>)"

section \<open>Any order of arrival\<close>

definition parent_of :: "'raw flashblock_payload list \<Rightarrow> b256 option" where
  "parent_of ps = (case List.map_filter fp_parent_hash ps of [] \<Rightarrow> None | h # _ \<Rightarrow> Some h)"

lemma parent_of_append: "parent_of (xs @ [p]) = (if parent_of xs = None then fp_parent_hash p else parent_of xs)"
  by (auto simp: parent_of_def List.map_filter_def split: list.splits)

definition holds :: "'raw payloads_cache \<Rightarrow> u64 \<Rightarrow> 'raw flashblock_payload list \<Rightarrow> bool" where
  "holds c i ps \<longleftrightarrow> pc_inner c = Some \<lparr>ps_payload_id = i, ps_parent_hash = parent_of ps, ps_payloads = ps\<rparr>"

lemma holds_add:
  "holds c i ps \<Longrightarrow> fp_payload_id p = i \<Longrightarrow> holds (add_flashblock_payload p c) i (ps @ [p])"
  by (simp add: holds_def add_flashblock_payload_def parent_of_append Let_def)

lemma holds_first:
  assumes "\<forall>sq. pc_inner c = Some sq \<longrightarrow> ps_payload_id sq \<noteq> fp_payload_id p"
  shows "holds (add_flashblock_payload p c) (fp_payload_id p) [p]"
  using assms by (auto simp: holds_def add_flashblock_payload_def parent_of_def List.map_filter_def Let_def split: option.splits)

lemma holds_fold:
  "holds c i qs \<Longrightarrow> \<forall>p \<in> set ps. fp_payload_id p = i \<Longrightarrow> holds (fold add_flashblock_payload ps c) i (qs @ ps)"
proof (induction ps arbitrary: c qs)
  case (Cons p ps)
  from Cons.prems have "holds (add_flashblock_payload p c) i (qs @ [p])" by (intro holds_add) simp_all
  from Cons.IH [OF this] Cons.prems(2) show ?case by simp
qed simp

lemma upt_from: "[k..<k + Suc n] = k # [Suc k..<Suc k + n]"
  by (simp add: upt_conv_Cons del: upt_Suc)

lemma sort_key_indexes:
  assumes "distinct (map f ps)" "set (map f ps) = {0..<n}"
  shows "map f (sort_key f ps) = [0..<n]"
proof (rule sorted_distinct_set_unique)
  show "sorted (map f (sort_key f ps))" by simp
  have "mset (map f (sort_key f ps)) = mset (map f ps)" by simp
  then show "distinct (map f (sort_key f ps))" using assms(1) by (metis mset_eq_imp_distinct_iff)
  show "set (map f (sort_key f ps)) = set [0..<n]" using assms(2) by simp
qed simp_all

lemma collect_txs_consecutive:
  assumes "map fp_index ps = [k..<k + length ps]" "\<forall>p \<in> set ps. recover_all recover (fp_transactions p) = Some (txs (fp_index p))"
  shows "collect_txs recover k ps acc = Some (acc @ concat (map txs [k..<k + length ps]))"
  using assms
proof (induction ps arbitrary: k acc)
  case (Cons p ps)
  have p: "fp_index p = k" "map fp_index ps = [Suc k..<Suc k + length ps]"
    using Cons.prems(1) upt_from [of k "length ps"] by simp_all
  from Cons.IH [OF p(2), of "acc @ txs k"] Cons.prems(2) p(1) show ?case
    using upt_from [of k "length ps"] by simp
qed simp

lemma parent_of_base:
  assumes "q \<in> set ps" "fp_index q = 0" "\<And>p. p \<in> set ps \<Longrightarrow> fp_parent_hash p = (if fp_index p = 0 then Some h else None)"
  shows "parent_of ps = Some h"
proof -
  have "h \<in> set (List.map_filter fp_parent_hash ps)" using assms by (force simp: List.map_filter_def)
  moreover have "x = h" if x: "x \<in> set (List.map_filter fp_parent_hash ps)" for x
  proof -
    from x obtain p where "p \<in> set ps" "fp_parent_hash p = Some x" by (auto simp: List.map_filter_def)
    then show ?thesis using assms(3) [of p] by (cases "fp_index p = 0") simp_all
  qed
  ultimately have "set (List.map_filter fp_parent_hash ps) = {h}" by blast
  then show ?thesis by (cases "List.map_filter fp_parent_hash ps") (auto simp: parent_of_def)
qed

lemma sequence_txs_any_order:
  assumes "distinct (map fp_index ps)" "set (map fp_index ps) = {0..<n}" "0 < n"
    and "\<And>p. p \<in> set ps \<Longrightarrow> fp_payload_id p = i \<and> fp_parent_hash p = (if fp_index p = 0 then Some h else None) \<and>
      recover_all recover (fp_transactions p) = Some (txs (fp_index p))"
    and "\<And>sq. pc_inner c = Some sq \<Longrightarrow> ps_payload_id sq \<noteq> i"
  shows "get_flashblocks_sequence_txs recover h (fold add_flashblock_payload ps c) = Some (concat (map txs [1..<n]))"
proof -
  obtain p qs where ps: "ps = p # qs" using assms(2,3) by (cases ps) auto
  have "holds (fold add_flashblock_payload qs (add_flashblock_payload p c)) i ([p] @ qs)"
  proof (rule holds_fold)
    show "holds (add_flashblock_payload p c) i [p]" using holds_first [of c p] assms(4) [of p] assms(5) by (auto simp: ps)
  qed (use assms(4) in \<open>simp add: ps\<close>)
  then have c: "holds (fold add_flashblock_payload ps c) i ps" by (simp add: ps)
  obtain q where q: "q \<in> set ps" "fp_index q = 0" using assms(2,3) by (metis atLeastLessThan_iff imageE list.set_map zero_le)
  have parent: "parent_of ps = Some h" using q assms(4) by (intro parent_of_base [OF q]) blast
  let ?s = "sort_key fp_index ps"
  have idx: "map fp_index ?s = [0..<n]" using sort_key_indexes [OF assms(1,2)] .
  then have len: "length ?s = n" using length_map [of fp_index ?s] by simp
  have "map fp_index (drop 1 ?s) = [1..<n]" using idx assms(3) by (simp add: drop_map [symmetric])
  then have "map fp_index (drop 1 ?s) = [1..<1 + length (drop 1 ?s)]" using assms(3) len by simp
  moreover have "\<forall>p \<in> set (drop 1 ?s). recover_all recover (fp_transactions p) = Some (txs (fp_index p))"
  proof
    fix p
    assume "p \<in> set (drop 1 ?s)"
    then have "p \<in> set ps" using in_set_dropD [of p 1 ?s] by simp
    then show "recover_all recover (fp_transactions p) = Some (txs (fp_index p))" using assms(4) by simp
  qed
  ultimately have "collect_txs recover 1 (drop 1 ?s) [] = Some ([] @ concat (map txs [1..<1 + length (drop 1 ?s)]))"
    by (rule collect_txs_consecutive)
  moreover have "1 + length (drop 1 ?s) = n" using len assms(3) by simp
  ultimately have "collect_txs recover 1 (drop 1 ?s) [] = Some (concat (map txs [1..<n]))" by (simp only: append_Nil)
  with c parent show ?thesis by (simp add: holds_def get_flashblocks_sequence_txs_def)
qed

text \<open>
  A builder that received all flashblocks of a block gets their transactions back in the order of
  the block, in whatever order the flashblocks arrived: the transactions of the flashblocks after the
  base one, one after the other.
\<close>

lemma cache_any_order:
  assumes "distinct (map fp_index ps)" "set (map fp_index ps) = {0..<n}" "0 < n"
    and "\<And>p. p \<in> set ps \<Longrightarrow> fp_payload_id p = i \<and> fp_parent_hash p = (if fp_index p = 0 then Some h else None) \<and>
      recover_all recover (fp_transactions p) = Some (txs (fp_index p))"
    and "\<And>sq. pc_inner c = Some sq \<Longrightarrow> ps_payload_id sq \<noteq> i"
  shows "get_flashblocks_sequence_txs recover h (fold add_flashblock_payload ps c) = Some (concat (map txs [1..<n]))"
  using assms by (rule sequence_txs_any_order)

text \<open>A sequence with a gap, a repeated index or a payload that cannot be recovered is not replayed.\<close>

lemma collect_txs_Some:
  assumes "collect_txs recover k ps acc = Some out"
  shows "map fp_index ps = [k..<k + length ps] \<and> (\<forall>p \<in> set ps. recover_all recover (fp_transactions p) \<noteq> None)"
  using assms
proof (induction recover k ps acc rule: collect_txs.induct)
  case (2 recover k p ps acc)
  then show ?case using upt_from [of k "length ps"] by (auto split: if_splits option.splits)
qed simp

lemma cache_refuses_gaps:
  assumes "get_flashblocks_sequence_txs recover h c = Some out"
  shows "\<exists>sq. pc_inner c = Some sq \<and> ps_parent_hash sq = Some h \<and>
    map fp_index (drop 1 (sort_key fp_index (ps_payloads sq))) = [1..<length (ps_payloads sq)]"
proof -
  obtain sq where sq: "pc_inner c = Some sq" "ps_parent_hash sq = Some h"
    and out: "collect_txs recover 1 (drop 1 (sort_key fp_index (ps_payloads sq))) [] = Some out"
    using assms by (auto simp: get_flashblocks_sequence_txs_def split: option.splits if_splits)
  from collect_txs_Some [OF out] have "map fp_index (drop 1 (sort_key fp_index (ps_payloads sq))) = [1..<1 + (length (ps_payloads sq) - 1)]"
    by simp
  then have "map fp_index (drop 1 (sort_key fp_index (ps_payloads sq))) = [1..<length (ps_payloads sq)]"
    by (cases "ps_payloads sq") simp_all
  with sq show ?thesis by blast
qed

section \<open>Persistence\<close>

text \<open>
  The file survives a crash: whatever happens during a persist, a restart finds either the
  sequence the file had before or, if the persist succeeded, exactly the cached one.
\<close>

lemma persist_atomic:
  assumes "pc_persist_path c = init_pending_sequence_path True" "pc_inner c = Some sq"
    and "\<And>s data. to_vec s = Some data \<Longrightarrow> from_slice data = Some s"
    and "persist to_vec write_out rename_ok c fs = (succeeded, fs')"
  shows "pc_inner (payloads_cache_new from_slice (Some True) fs') =
    (if succeeded then Some sq else pc_inner (payloads_cache_new from_slice (Some True) fs))"
proof -
  have "CHR ''.'' # pending_sequence_file \<noteq> pending_sequence_file" by (simp add: pending_sequence_file_def)
  with assms show ?thesis
    by (auto simp: persist_def payloads_cache_new_def init_pending_sequence_path_def try_load_from_filepath_def Let_def
        split: option.splits write_outcome.splits if_splits)
qed

section \<open>An instance\<close>

definition sample_payload :: "nat \<Rightarrow> nat flashblock_payload" where
  "sample_payload k = \<lparr>fp_payload_id = 9, fp_index = k, fp_parent_hash = (if k = 0 then Some 77 else None), fp_transactions = [10 * k, 10 * k + 1]\<rparr>"

lemma cache_any_order_witness:
  "get_flashblocks_sequence_txs Some 77 (fold add_flashblock_payload [sample_payload 2, sample_payload 0, sample_payload 1]
      \<lparr>pc_inner = None, pc_persist_path = None\<rparr>) = Some [10, 11, 20, 21]"
proof -
  have "get_flashblocks_sequence_txs Some 77 (fold add_flashblock_payload [sample_payload 2, sample_payload 0, sample_payload 1]
      \<lparr>pc_inner = None, pc_persist_path = None\<rparr>) = Some (concat (map (\<lambda>k. [10 * k, 10 * k + 1]) [1..<3]))"
    by (rule cache_any_order [where i = 9]) (auto simp: sample_payload_def)
  then show ?thesis by (simp add: upt_rec)
qed

lemma persist_atomic_witness:
  "pc_inner (payloads_cache_new Some (Some True) (snd (persist Some WriteOk True
      \<lparr>pc_inner = Some \<lparr>ps_payload_id = 9, ps_parent_hash = None, ps_payloads = [sample_payload 0]\<rparr>, pc_persist_path = Some pending_sequence_file\<rparr> (\<lambda>_. None)))) =
    Some \<lparr>ps_payload_id = 9, ps_parent_hash = None, ps_payloads = [sample_payload 0]\<rparr>"
proof -
  let ?sq = "\<lparr>ps_payload_id = 9, ps_parent_hash = None, ps_payloads = [sample_payload 0]\<rparr>"
  let ?c = "\<lparr>pc_inner = Some ?sq, pc_persist_path = Some pending_sequence_file\<rparr>"
  obtain ok fs' where p: "persist Some WriteOk True ?c (\<lambda>_. None) = (ok, fs')" by force
  then have "ok" by (simp add: persist_def Let_def)
  with persist_atomic [OF _ _ _ p, of ?sq Some] p show ?thesis by (simp add: init_pending_sequence_path_def)
qed

end
