(* ===== verification/Flashblock_Timing.thy ===== *)
theory Flashblock_Timing
  imports Filter_Worker
begin

text \<open>
  When flashblocks are built (\<open>crates/builder/src/flashblocks/timing.rs\<close>, and \<open>flashblocks_per_block\<close>
  of \<open>mod.rs\<close>): the schedule of a block and the task that follows it. Durations are nanoseconds; the
  wall clock is a number of nanoseconds since the epoch, instants are relative to the reference one.
\<close>

section \<open>The schedule\<close>

definition as_millis :: "nat \<Rightarrow> nat" where
  "as_millis d = d div 1000000"

definition div_ceil :: "nat \<Rightarrow> nat \<Rightarrow> nat" where
  "div_ceil a b = (a + b - 1) div b"

definition duration_add :: "nat \<Rightarrow> nat \<Rightarrow> nat" where
  "duration_add a b = min (a + b) duration_max"

record flashblocks_config =
  fbc_interval :: nat
  fbc_send_offset_ms :: int
  fbc_end_buffer_ms :: nat

definition compute_remaining_time :: "nat \<Rightarrow> nat \<Rightarrow> nat \<Rightarrow> nat" where
  "compute_remaining_time block_time payload_timestamp reference_system =
     (let target_time = from_secs payload_timestamp in
      if reference_system < target_time then min (target_time - reference_system) block_time else block_time)"

definition apply_offset :: "nat \<Rightarrow> int \<Rightarrow> nat" where
  "apply_offset d offset_ms =
     (let offset_delta = from_millis (nat \<bar>offset_ms\<bar>) in
      if offset_ms \<ge> 0 then duration_add d offset_delta else d - offset_delta)"

text \<open>The casts to 64 bits are written out; a zero interval panics.\<close>

definition calculate_first_flashblock_timing :: "nat \<Rightarrow> nat \<Rightarrow> nat option" where
  "calculate_first_flashblock_timing remaining_time interval =
     (let remaining_time_ms = as_millis remaining_time mod 2 ^ 64; interval_ms = as_millis interval mod 2 ^ 64 in
      if interval_ms = 0 then None else Some (from_millis ((remaining_time_ms - 1) mod interval_ms + 1)))"

fun send_times_from :: "nat \<Rightarrow> nat \<Rightarrow> int \<Rightarrow> nat \<Rightarrow> nat \<Rightarrow> nat list" where
  "send_times_from timing interval send_offset_ms deadline 0 = []"
| "send_times_from timing interval send_offset_ms deadline (Suc n) =
     min (apply_offset (min timing deadline) send_offset_ms) deadline #
     send_times_from (duration_add timing interval) interval send_offset_ms deadline n"

definition compute_scheduler_intervals :: "nat \<Rightarrow> int \<Rightarrow> nat \<Rightarrow> nat \<Rightarrow> nat \<Rightarrow> nat list option" where
  "compute_scheduler_intervals flashblock_interval send_offset_ms end_buffer_ms remaining_time target_flashblocks =
     (case calculate_first_flashblock_timing remaining_time flashblock_interval of
        None \<Rightarrow> None
      | Some first_flashblock_timing \<Rightarrow>
          (let deadline = remaining_time - from_millis end_buffer_ms in
           Some (send_times_from first_flashblock_timing flashblock_interval send_offset_ms deadline target_flashblocks)))"

record flashblock_scheduler =
  sc_target_flashblocks :: nat
  sc_send_times :: "nat list"

definition scheduler_from_reference :: "flashblocks_config \<Rightarrow> nat \<Rightarrow> nat \<Rightarrow> nat \<Rightarrow> flashblock_scheduler option" where
  "scheduler_from_reference config block_time payload_timestamp reference_system =
     (let remaining_time = compute_remaining_time block_time payload_timestamp reference_system in
      if as_millis (fbc_interval config) = 0 then None
      else
        let target_flashblocks = div_ceil (as_millis remaining_time) (as_millis (fbc_interval config)) mod 2 ^ 64 in
        map_option (\<lambda>intervals. \<lparr>sc_target_flashblocks = target_flashblocks, sc_send_times = intervals\<rparr>)
          (compute_scheduler_intervals (fbc_interval config) (fbc_send_offset_ms config) (fbc_end_buffer_ms config)
            remaining_time target_flashblocks))"

definition flashblocks_per_block :: "nat \<Rightarrow> flashblocks_config \<Rightarrow> nat" where
  "flashblocks_per_block block_time config =
     (if as_millis block_time = 0 \<or> as_millis (fbc_interval config) = 0 then 0
      else div_ceil (as_millis block_time) (as_millis (fbc_interval config)) mod 2 ^ 64)"

section \<open>Following the schedule\<close>

text \<open>
  Tokens are numbered in the order they are made. The loop wakes by the timer, and its send succeeds or
  not, or by the cancellation of the block.
\<close>

datatype wake = WakeTimer bool | WakeBlockCancelled

datatype sched_action = SaSend nat bool | SaCancel nat

fun run_loop :: "nat \<Rightarrow> nat list \<Rightarrow> wake list \<Rightarrow> sched_action list" where
  "run_loop fb_cancel [] wakes = []"
| "run_loop fb_cancel (t # ts) [] = []"
| "run_loop fb_cancel (t # ts) (WakeBlockCancelled # wakes) = []"
| "run_loop fb_cancel (t # ts) (WakeTimer sent # wakes) =
     SaCancel fb_cancel # SaSend (Suc fb_cancel) sent # (if sent then run_loop (Suc fb_cancel) ts wakes else [])"

definition run_scheduler :: "flashblock_scheduler \<Rightarrow> bool \<Rightarrow> wake list \<Rightarrow> sched_action list" where
  "run_scheduler sc first_sent wakes =
     (if sc_target_flashblocks sc = 0 then []
      else SaSend 0 first_sent # (if first_sent then run_loop 0 (sc_send_times sc) wakes else []))"

section \<open>Properties\<close>

lemma div_ceil_mono: "a \<le> b \<Longrightarrow> div_ceil a c \<le> div_ceil b c"
  by (simp add: div_ceil_def div_le_mono)

lemma send_times_from_nth:
  assumes "timing + n * interval \<le> duration_max"
  shows "send_times_from timing interval off deadline n =
    map (\<lambda>k. min (apply_offset (min (timing + k * interval) deadline) off) deadline) [0..<n]"
  using assms
proof (induction n arbitrary: timing)
  case (Suc n)
  have "duration_add timing interval = timing + interval" using Suc.prems by (simp add: duration_add_def)
  moreover have "send_times_from (timing + interval) interval off deadline n =
      map (\<lambda>k. min (apply_offset (min (timing + interval + k * interval) deadline) off) deadline) [0..<n]"
    using Suc.prems by (intro Suc.IH) (simp add: algebra_simps)
  moreover have "[0..<Suc n] = 0 # map Suc [0..<n]" by (simp add: map_Suc_upt upt_conv_Cons del: upt_Suc)
  ultimately show ?case by (simp add: comp_def algebra_simps del: upt_Suc)
qed simp

lemma ceil_steps:
  assumes "0 < i" "0 < (r :: nat)"
  shows "(r - 1) mod i + 1 + (div_ceil r i - 1) * i = r"
proof -
  have "div_ceil r i = (r - 1) div i + 1"
  proof -
    have "r + i - 1 = (r - 1) + i" using assms by simp
    then show ?thesis unfolding div_ceil_def using assms(1) by (simp only: div_add_self2)
  qed
  then show ?thesis using div_mult_mod_eq [of "r - 1" i] assms by simp
qed

text \<open>
  The schedule of a block counts back from its deadline in whole intervals: for a remaining time of
  \<open>r\<close> and an interval of \<open>i\<close> milliseconds there are \<open>r / i\<close> (rounded up) triggers, the \<open>k\<close>-th one
  \<open>n - 1 - k\<close> intervals before the end of the slot, shifted by the offset and never past the deadline;
  with no negative offset the last one is the deadline itself.
\<close>

lemma schedule_counts_back:
  assumes "0 < i" "i < 2 ^ 64" "0 < r" "r < 2 ^ 64" "n = div_ceil r i" "deadline = from_millis r - from_millis buffer"
    and "ts = map (\<lambda>k. min (apply_offset (min (from_millis (r - (n - 1 - k) * i)) deadline) off) deadline) [0..<n]"
  shows "compute_scheduler_intervals (from_millis i) off buffer (from_millis r) n = Some ts \<and> (0 \<le> off \<longrightarrow> last ts = deadline)"
proof
  let ?f = "from_millis ((r - 1) mod i + 1)"
  have ms: "as_millis (from_millis x) = x" for x by (simp add: as_millis_def from_millis_def)
  have n: "0 < n" using assms(1,3) by (simp add: assms(5) div_ceil_def div_greater_zero_iff)
  have steps: "(r - 1) mod i + 1 + (n - 1) * i = r" using ceil_steps [OF assms(1,3)] by (simp add: assms(5))
  have first: "calculate_first_flashblock_timing (from_millis r) (from_millis i) = Some ?f"
    using assms(1,2,4) by (simp add: calculate_first_flashblock_timing_def ms)
  have "(r - 1) mod i + 1 + n * i = r + i" using steps n by (cases n) (simp_all add: algebra_simps)
  then have "?f + n * from_millis i = from_millis (r + i)" by (simp add: from_millis_def algebra_simps)
  also have "\<dots> \<le> duration_max" using assms(2,4) by (simp add: from_millis_def duration_max_def)
  finally have times: "send_times_from ?f (from_millis i) off deadline n =
      map (\<lambda>k. min (apply_offset (min (?f + k * from_millis i) deadline) off) deadline) [0..<n]"
    by (rule send_times_from_nth)
  have "?f + k * from_millis i = from_millis (r - (n - 1 - k) * i)" if "k < n" for k
  proof -
    have "n - 1 = k + (n - 1 - k)" using that by simp
    then have "(n - 1) * i = k * i + (n - 1 - k) * i" by (metis add_mult_distrib)
    then have "(r - 1) mod i + 1 + k * i = r - (n - 1 - k) * i" using steps by simp
    then show ?thesis by (simp add: from_millis_def algebra_simps)
  qed
  then show "compute_scheduler_intervals (from_millis i) off buffer (from_millis r) n = Some ts"
    unfolding compute_scheduler_intervals_def first option.case Let_def assms(6) [symmetric] times assms(7) by simp
  show "0 \<le> off \<longrightarrow> last ts = deadline"
  proof
    assume "0 \<le> off"
    have "min (from_millis r) deadline = deadline" by (simp add: assms(6))
    moreover have "deadline \<le> duration_max" using assms(4) by (simp add: assms(6) from_millis_def duration_max_def)
    ultimately show "last ts = deadline"
      using n \<open>0 \<le> off\<close> by (simp add: assms(7) last_map apply_offset_def duration_add_def)
  qed
qed

lemma schedule_counts_back_witness:
  "compute_scheduler_intervals (from_millis 200) (-20) 50 (from_millis 800) 4 = Some (map from_millis [180, 380, 580, 730])"
proof -
  have "div_ceil 800 200 = 4" by (simp add: div_ceil_def)
  then show ?thesis
    using schedule_counts_back [of 200 800 4 "from_millis 800 - from_millis 50" 50 _ "-20", OF _ _ _ _ _ refl refl]
    by (simp add: from_millis_def apply_offset_def upt_rec)
qed

text \<open>The remaining time never exceeds the block time, so neither does the number of flashblocks.\<close>

lemma target_within_block:
  assumes "scheduler_from_reference config block_time ts now = Some sc" "as_millis block_time < 2 ^ 63" "as_millis (fbc_interval config) < 2 ^ 63"
  shows "sc_target_flashblocks sc \<le> flashblocks_per_block block_time config \<and> length (sc_send_times sc) = sc_target_flashblocks sc"
proof -
  let ?i = "as_millis (fbc_interval config)" and ?r = "compute_remaining_time block_time ts now"
  have r: "?r \<le> block_time" by (simp add: compute_remaining_time_def Let_def)
  have le: "div_ceil (as_millis ?r) ?i \<le> div_ceil (as_millis block_time) ?i"
    using r by (intro div_ceil_mono) (simp add: as_millis_def div_le_mono)
  have i: "?i \<noteq> 0" using assms(1) by (auto simp: scheduler_from_reference_def Let_def split: if_splits)
  have "div_ceil (as_millis block_time) ?i \<le> as_millis block_time + ?i" by (simp add: div_ceil_def) (meson diff_le_self div_le_dividend le_trans)
  then have small: "div_ceil (as_millis block_time) ?i < 2 ^ 64" using assms(2,3) by simp
  have len: "length (send_times_from t iv off d k) = k" for t iv off d k by (induction k arbitrary: t) simp_all
  have target: "sc_target_flashblocks sc = div_ceil (as_millis ?r) ?i mod 2 ^ 64" "length (sc_send_times sc) = sc_target_flashblocks sc"
    using assms(1) len by (auto simp: scheduler_from_reference_def compute_scheduler_intervals_def Let_def split: if_splits option.splits)
  show ?thesis
  proof (cases "as_millis block_time = 0")
    case True
    then have "as_millis ?r = 0" using r by (metis as_millis_def div_le_mono le_zero_eq)
    then show ?thesis using target i by (simp add: div_ceil_def)
  next
    case False
    with target le small i show ?thesis by (simp add: flashblocks_per_block_def)
  qed
qed

definition live_tokens :: "sched_action list \<Rightarrow> nat set" where
  "live_tokens as = {k. SaSend k True \<in> set as \<and> SaCancel k \<notin> set as}"

lemma run_loop_tokens: "SaSend k s \<in> set (run_loop t ts ws) \<Longrightarrow> t < k" "SaCancel k \<in> set (run_loop t ts ws) \<Longrightarrow> t \<le> k"
  by (induction t ts ws rule: run_loop.induct) (auto split: if_splits)

lemma run_loop_one_live:
  assumes "prefix as (run_loop t ts ws)"
  shows "\<exists>k. live_tokens (SaSend t True # as) \<subseteq> {k} \<and> t \<le> k"
  using assms
proof (induction t ts ws arbitrary: as rule: run_loop.induct)
  case (4 t x ts sent ws)
  have zero: "\<exists>k. live_tokens (SaSend t True # bs) \<subseteq> {k} \<and> t \<le> k" if "bs \<in> {[], [SaCancel t]}" for bs
    using that by (intro exI [of _ t]) (auto simp: live_tokens_def)
  from "4.prems" consider "as = []" | "as = [SaCancel t]"
    | bs where "as = SaCancel t # SaSend (Suc t) sent # bs" "prefix bs (if sent then run_loop (Suc t) ts ws else [])"
    by (cases as; cases "tl as") (auto simp: prefix_Cons)
  then show ?case
  proof cases
    case (3 bs)
    show ?thesis
    proof (cases sent)
      case True
      with 3 "4.IH" obtain k where k: "live_tokens (SaSend (Suc t) True # bs) \<subseteq> {k}" "Suc t \<le> k" by auto
      have "live_tokens (SaSend t True # as) \<subseteq> live_tokens (SaSend (Suc t) True # bs)"
        using 3(1) True by (auto simp: live_tokens_def)
      with k show ?thesis by (intro exI [of _ k]) auto
    next
      case False
      with 3 show ?thesis by (intro exI [of _ t]) (auto simp: live_tokens_def)
    qed
  qed (use zero in auto)
qed (auto simp: live_tokens_def intro: exI [of _ "_ :: nat"])

text \<open>
  At most one flashblock is being built at any time: at every moment of a run, whatever wakes it and
  whichever sends fail, at most one token has been handed out and not yet cancelled; and there are at
  most as many triggers as the schedule has, plus the first.
\<close>

lemma one_build_at_a_time:
  assumes "prefix as (run_scheduler sc first_sent wakes)"
  shows "card (live_tokens as) \<le> 1 \<and> length (filter (\<lambda>a. \<exists>k s. a = SaSend k s) as) \<le> 1 + length (sc_send_times sc)"
proof
  have count: "length (filter (\<lambda>a. \<exists>k s. a = SaSend k s) (run_loop t ts ws)) \<le> length ts" for t ts ws
    by (induction t ts ws rule: run_loop.induct) auto
  have le: "length (filter P xs) \<le> length (filter P ys)" if "prefix xs ys" for P and xs ys :: "sched_action list"
    using that by (auto simp: prefix_def)
  show "length (filter (\<lambda>a. \<exists>k s. a = SaSend k s) as) \<le> 1 + length (sc_send_times sc)"
    using le [OF assms, of "\<lambda>a. \<exists>k s. a = SaSend k s"] count [of 0 "sc_send_times sc" wakes]
    by (auto simp: run_scheduler_def split: if_splits)
  have "\<exists>k. live_tokens as \<subseteq> {k}"
  proof (cases "as = [] \<or> \<not> first_sent")
    case True
    with assms show ?thesis by (auto simp: run_scheduler_def live_tokens_def prefix_Cons split: if_splits)
  next
    case False
    with assms obtain bs where "as = SaSend 0 True # bs" "prefix bs (run_loop 0 (sc_send_times sc) wakes)"
      by (cases as) (auto simp: run_scheduler_def split: if_splits)
    with run_loop_one_live show ?thesis by blast
  qed
  then obtain k where "live_tokens as \<subseteq> {k}" by blast
  from card_mono [OF _ this] show "card (live_tokens as) \<le> 1" by simp
qed

lemma one_build_at_a_time_witness:
  "card (live_tokens [SaSend 0 True, SaCancel 0, SaSend 1 True]) \<le> 1"
proof -
  have "prefix [SaSend 0 True, SaCancel 0, SaSend 1 True]
      (run_scheduler \<lparr>sc_target_flashblocks = 2, sc_send_times = [200, 400]\<rparr> True [WakeTimer True, WakeTimer True])"
    by (simp add: run_scheduler_def)
  from one_build_at_a_time [OF this] show ?thesis by blast
qed

end
