(* ===== verification/Flashblock_Builder.thy ===== *)
theory Flashblock_Builder
  imports Tx_Loop Builder_Tx Flashblock_Cache Flashblock_Timing
begin

text \<open>
  Building a block (\<open>crates/builder/src/flashblocks/builder.rs\<close>): the fallback block, the flashblocks
  on top of it, and the payload that is resolved. State roots, hashes and the other parts of the node
  library are parameters; metrics, timing of the work and logging are left out.
\<close>

section \<open>The state of a block\<close>

record 'u flashblocks_state =
  fs_flashblock_index :: nat
  fs_target_flashblock_count :: nat
  fs_target_gas_for_batch :: nat
  fs_target_da_for_batch :: "nat option"
  fs_target_da_footprint_for_batch :: "nat option"
  fs_gas_per_batch :: nat
  fs_da_per_batch :: "nat option"
  fs_da_footprint_per_batch :: "nat option"
  fs_disable_state_root :: bool
  fs_last_flashblock_tx_index :: nat
  fs_prev_trie_updates :: "'u option"

definition flashblocks_state_new :: "nat \<Rightarrow> bool \<Rightarrow> 'u flashblocks_state" where
  "flashblocks_state_new target_flashblock_count disable_state_root =
     \<lparr>fs_flashblock_index = 0, fs_target_flashblock_count = target_flashblock_count, fs_target_gas_for_batch = 0,
      fs_target_da_for_batch = None, fs_target_da_footprint_for_batch = None, fs_gas_per_batch = 0, fs_da_per_batch = None,
      fs_da_footprint_per_batch = None, fs_disable_state_root = disable_state_root, fs_last_flashblock_tx_index = 0,
      fs_prev_trie_updates = None\<rparr>"

definition next_state :: "nat \<Rightarrow> nat option \<Rightarrow> nat option \<Rightarrow> 'u flashblocks_state \<Rightarrow> 'u flashblocks_state" where
  "next_state gas da footprint fs = fs\<lparr>fs_flashblock_index := fs_flashblock_index fs + 1, fs_target_gas_for_batch := gas,
     fs_target_da_for_batch := da, fs_target_da_footprint_for_batch := footprint\<rparr>"

definition with_batch_limits :: "nat \<Rightarrow> nat option \<Rightarrow> nat option \<Rightarrow> nat \<Rightarrow> nat option \<Rightarrow> nat option \<Rightarrow> 'u flashblocks_state \<Rightarrow> 'u flashblocks_state" where
  "with_batch_limits gas_per_batch da_per_batch da_footprint_per_batch gas da footprint fs =
     fs\<lparr>fs_gas_per_batch := gas_per_batch, fs_da_per_batch := da_per_batch, fs_da_footprint_per_batch := da_footprint_per_batch,
        fs_target_gas_for_batch := gas, fs_target_da_for_batch := da, fs_target_da_footprint_for_batch := footprint\<rparr>"

definition is_first_flashblock :: "'u flashblocks_state \<Rightarrow> bool" where
  "is_first_flashblock fs \<longleftrightarrow> fs_flashblock_index fs = 0"

definition is_last_flashblock :: "'u flashblocks_state \<Rightarrow> bool" where
  "is_last_flashblock fs \<longleftrightarrow> fs_flashblock_index fs = fs_target_flashblock_count fs"

text \<open>\<open>None\<close> is a slice that starts behind the end.\<close>

definition slice_from :: "nat \<Rightarrow> 'a list \<Rightarrow> 'a list option" where
  "slice_from i xs = (if i \<le> length xs then Some (drop i xs) else None)"

section \<open>Payloads\<close>

text \<open>The configuration of a payload: its parent, its attributes, and the chain specification's answers.\<close>

record payload_config =
  pl_payload_id :: u64
  pl_parent_hash :: b256
  pl_parent_number :: nat
  pl_no_tx_pool :: bool
  pl_transactions :: "pool_tx list"
  pl_suggested_fee_recipient :: address
  pl_beneficiary :: address
  pl_prev_randao :: b256
  pl_parent_beacon_block_root :: "b256 option"
  pl_withdrawals :: "nat list option"
  pl_extra_data :: "string + byte list"
  pl_isthmus :: bool

text \<open>Fields that are constants of the library (ommers, nonce, difficulty) are left out.\<close>

record header =
  hd_parent_hash :: b256
  hd_beneficiary :: address
  hd_state_root :: b256
  hd_transactions_root :: b256
  hd_receipts_root :: b256
  hd_withdrawals_root :: "b256 option"
  hd_logs_bloom :: "byte list"
  hd_timestamp :: nat
  hd_mix_hash :: b256
  hd_base_fee_per_gas :: nat
  hd_number :: nat
  hd_gas_limit :: nat
  hd_gas_used :: nat
  hd_extra_data :: "byte list"
  hd_parent_beacon_block_root :: "b256 option"
  hd_blob_gas_used :: "nat option"
  hd_excess_blob_gas :: "nat option"
  hd_requests_hash :: "b256 option"

text \<open>\<open>OpBuiltPayload\<close> with its executed block; \<open>None\<close> are the default trie updates.\<close>

record 'u built_payload =
  ob_id :: u64
  ob_header :: header
  ob_transactions :: "pool_tx list"
  ob_withdrawals :: "nat list option"
  ob_senders :: "address list"
  ob_receipts :: "receipt list"
  ob_fees :: u256
  ob_trie_updates :: "'u option"

record flashblock_base =
  fbb_parent_beacon_block_root :: b256
  fbb_parent_hash :: b256
  fbb_fee_recipient :: address
  fbb_prev_randao :: b256
  fbb_block_number :: nat
  fbb_gas_limit :: nat
  fbb_timestamp :: nat
  fbb_extra_data :: "byte list"
  fbb_base_fee_per_gas :: nat

record flashblock_delta =
  fd_state_root :: b256
  fd_receipts_root :: b256
  fd_logs_bloom :: "byte list"
  fd_gas_used :: nat
  fd_block_hash :: b256
  fd_transactions :: "pool_tx list"
  fd_withdrawals :: "nat list"
  fd_withdrawals_root :: b256
  fd_blob_gas_used :: "nat option"

record flashblock_metadata =
  fm_receipts :: "(b256, receipt) btmap"
  fm_new_account_balances :: "(address \<times> u256) list"
  fm_block_number :: nat

record op_flashblock_payload =
  of_payload_id :: u64
  of_index :: nat
  of_base :: "flashblock_base option"
  of_diff :: flashblock_delta
  of_metadata :: flashblock_metadata

text \<open>What the cache of another builder reads of a flashblock; the transactions travel encoded.\<close>

definition cached_view :: "op_flashblock_payload \<Rightarrow> pool_tx flashblock_payload" where
  "cached_view p = \<lparr>fp_payload_id = of_payload_id p, fp_index = of_index p, fp_parent_hash = map_option fbb_parent_hash (of_base p),
     fp_transactions = fd_transactions (of_diff p)\<rparr>"

definition recover_tx :: "pool_tx \<Rightarrow> pool_tx option" where
  "recover_tx tx = (if px_recovers tx then Some tx else None)"

datatype build_error =
    PayloadFailed payload_error
  | BlockNumberMismatch nat nat
  | ProviderFailed string
  | ParentBeaconRootMissing
  | ExecutionFailed
  | PublishFailed
  | SendFailed
  | BuildPanicked

text \<open>
  The node library: the pre-execution changes; the state root of a database, incremental when trie
  updates are given; the withdrawals root; the other roots, the bloom and the hash of a block.
\<close>

record ('d, 'u) chain_lib =
  cl_pre_execution :: "'d \<Rightarrow> string + 'd"
  cl_state_root :: "'u option \<Rightarrow> 'd \<Rightarrow> string + b256 \<times> 'u"
  cl_withdrawals_root :: "'d \<Rightarrow> string + b256"
  cl_empty_withdrawals :: b256
  cl_empty_requests_hash :: b256
  cl_receipts_root :: "receipt list \<Rightarrow> b256"
  cl_transactions_root :: "pool_tx list \<Rightarrow> b256"
  cl_logs_bloom :: "log list \<Rightarrow> byte list"
  cl_block_hash :: "header \<Rightarrow> pool_tx list \<Rightarrow> nat list option \<Rightarrow> b256"
  cl_balances :: "'d \<Rightarrow> (address \<times> u256) list"

definition block_hash :: "('d, 'u) chain_lib \<Rightarrow> 'u built_payload \<Rightarrow> b256" where
  "block_hash ch p = cl_block_hash ch (ob_header p) (ob_transactions p) (ob_withdrawals p)"

section \<open>Sealing a block\<close>

definition block_header :: "builder_ctx \<Rightarrow> ('d, 'u) chain_lib \<Rightarrow> payload_config \<Rightarrow> execution_info \<Rightarrow> b256 \<Rightarrow> b256 option \<Rightarrow> b256 option
    \<Rightarrow> nat option \<Rightarrow> nat option \<Rightarrow> byte list \<Rightarrow> header" where
  "block_header cx ch pl info state_root withdrawals_root requests_hash excess_blob_gas blob_gas_used extra_data =
     \<lparr>hd_parent_hash = pl_parent_hash pl, hd_beneficiary = pl_beneficiary pl, hd_state_root = state_root,
      hd_transactions_root = cl_transactions_root ch (ei_executed_transactions info),
      hd_receipts_root = cl_receipts_root ch (ei_receipts info), hd_withdrawals_root = withdrawals_root,
      hd_logs_bloom = cl_logs_bloom ch (concat (map rc_logs (ei_receipts info))), hd_timestamp = cx_timestamp cx,
      hd_mix_hash = pl_prev_randao pl, hd_base_fee_per_gas = cx_base_fee cx, hd_number = pl_parent_number pl + 1,
      hd_gas_limit = block_gas_limit cx, hd_gas_used = ei_cumulative_gas_used info, hd_extra_data = extra_data,
      hd_parent_beacon_block_root = pl_parent_beacon_block_root pl, hd_blob_gas_used = blob_gas_used,
      hd_excess_blob_gas = excess_blob_gas, hd_requests_hash = requests_hash\<rparr>"

definition flashblock_message :: "builder_ctx \<Rightarrow> ('d, 'u) chain_lib \<Rightarrow> payload_config \<Rightarrow> 'd \<Rightarrow> 'u built_payload \<Rightarrow> pool_tx list
    \<Rightarrow> receipt list \<Rightarrow> b256 \<Rightarrow> op_flashblock_payload" where
  "flashblock_message cx ch pl db payload new_transactions new_receipts beacon_root =
     (let h = ob_header payload in
      \<lparr>of_payload_id = pl_payload_id pl, of_index = 0,
       of_base = Some \<lparr>fbb_parent_beacon_block_root = beacon_root, fbb_parent_hash = pl_parent_hash pl,
         fbb_fee_recipient = pl_suggested_fee_recipient pl, fbb_prev_randao = pl_prev_randao pl, fbb_block_number = pl_parent_number pl + 1,
         fbb_gas_limit = block_gas_limit cx, fbb_timestamp = cx_timestamp cx, fbb_extra_data = hd_extra_data h,
         fbb_base_fee_per_gas = cx_base_fee cx\<rparr>,
       of_diff = \<lparr>fd_state_root = hd_state_root h, fd_receipts_root = hd_receipts_root h, fd_logs_bloom = hd_logs_bloom h,
         fd_gas_used = hd_gas_used h, fd_block_hash = block_hash ch payload, fd_transactions = new_transactions,
         fd_withdrawals = (case pl_withdrawals pl of Some ws \<Rightarrow> ws | None \<Rightarrow> []),
         fd_withdrawals_root = (case hd_withdrawals_root h of Some r \<Rightarrow> r | None \<Rightarrow> 0), fd_blob_gas_used = hd_blob_gas_used h\<rparr>,
       of_metadata = \<lparr>fm_receipts = fold (\<lambda>(tx, r). bt_insert (px_hash tx) r) (zip new_transactions new_receipts) [],
         fm_new_account_balances = cl_balances ch db, fm_block_number = pl_parent_number pl + 1\<rparr>\<rparr>)"

definition build_block :: "builder_ctx \<Rightarrow> ('d, 'u) chain_lib \<Rightarrow> payload_config \<Rightarrow> execution_info \<Rightarrow> 'd \<Rightarrow> 'u flashblocks_state option \<Rightarrow> bool
    \<Rightarrow> build_error + 'u built_payload \<times> op_flashblock_payload \<times> 'u flashblocks_state option" where
  "build_block cx ch pl info db fb_state calculate_state_root =
     (if cx_block_number cx \<noteq> pl_parent_number pl + 1
      then Inl (BlockNumberMismatch (pl_parent_number pl + 1) (cx_block_number cx))
      else
        and_then (if calculate_state_root
            then map_sum ProviderFailed (\<lambda>(root, trie). (root, Some trie)) (cl_state_root ch (Option.bind fb_state fs_prev_trie_updates) db)
            else Inr (0, None)) (\<lambda>(state_root, trie).
        and_then (if pl_isthmus pl
            then map_sum ProviderFailed (\<lambda>root. (Some root, Some (cl_empty_requests_hash ch))) (cl_withdrawals_root ch db)
            else Inr (if cx_canyon cx then Some (cl_empty_withdrawals ch) else None, None)) (\<lambda>(withdrawals_root, requests_hash).
        and_then (case blob_fields cx info of None \<Rightarrow> Inl BuildPanicked | Some bf \<Rightarrow> Inr bf) (\<lambda>(excess_blob_gas, blob_gas_used).
        and_then (map_sum ProviderFailed id (pl_extra_data pl)) (\<lambda>extra_data.
          let last_idx = (case fb_state of None \<Rightarrow> 0 | Some fs \<Rightarrow> fs_last_flashblock_tx_index fs);
              payload = \<lparr>ob_id = pl_payload_id pl,
                ob_header = block_header cx ch pl info state_root withdrawals_root requests_hash excess_blob_gas blob_gas_used extra_data,
                ob_transactions = ei_executed_transactions info, ob_withdrawals = pl_withdrawals pl, ob_senders = ei_executed_senders info,
                ob_receipts = ei_receipts info, ob_fees = ei_total_fees info, ob_trie_updates = trie\<rparr>
          in case (slice_from last_idx (ei_executed_transactions info), slice_from last_idx (ei_receipts info)) of
               (Some new_transactions, Some new_receipts) \<Rightarrow>
                 (case pl_parent_beacon_block_root pl of
                    None \<Rightarrow> Inl ParentBeaconRootMissing
                  | Some beacon_root \<Rightarrow> Inr (payload, flashblock_message cx ch pl db payload new_transactions new_receipts beacon_root,
                      map_option (\<lambda>fs. fs\<lparr>fs_prev_trie_updates := (if trie = None then fs_prev_trie_updates fs else trie),
                        fs_last_flashblock_tx_index := length (ei_executed_transactions info)\<rparr>) fb_state))
             | _ \<Rightarrow> Inl BuildPanicked)))))"

section \<open>One flashblock\<close>

text \<open>
  What a round finds of its surroundings: the iterations of the transaction loop, the pool's best
  transactions and content, whether the block was cancelled meanwhile, and whether the flashblock could
  be published and handed over.
\<close>

record fb_round =
  fr_its :: "nat \<Rightarrow> iteration"
  fr_best :: "pool_tx list"
  fr_tx_pool :: "b256 list"
  fr_block_cancelled :: bool
  fr_ws_ok :: bool
  fr_p2p_ok :: bool

record ('d, 'u) block_state =
  bs_fb :: "'u flashblocks_state"
  bs_info :: execution_info
  bs_db :: 'd
  bs_shared :: shared
  bs_best :: best_txs
  bs_best_payload :: "'u built_payload \<times> 'd"
  bs_ws :: "op_flashblock_payload list"
  bs_p2p :: "op_flashblock_payload list"

datatype 'u round_result = RoundNext "'u flashblocks_state" | RoundCancelled | RoundFailed build_error

text \<open>The builder's own transactions at the bottom of the block are reserved for.\<close>

definition reserved_gas :: "builder_transaction_ctx list \<Rightarrow> nat" where
  "reserved_gas builder_txs = fold (\<lambda>b acc. acc + bc_gas_used b) (filter (\<lambda>b. \<not> bc_is_top_of_block b) builder_txs) 0"

definition reserved_da :: "builder_transaction_ctx list \<Rightarrow> nat" where
  "reserved_da builder_txs = fold (\<lambda>b acc. acc + bc_da_size b) (filter (\<lambda>b. \<not> bc_is_top_of_block b) builder_txs) 0"

definition batch_da :: "'u flashblocks_state \<Rightarrow> builder_transaction_ctx list \<Rightarrow> nat option" where
  "batch_da fs builder_txs = map_option (\<lambda>da_limit. saturating_sub da_limit (reserved_da builder_txs)) (fs_target_da_for_batch fs)"

definition batch_footprint :: "'u flashblocks_state \<Rightarrow> nat option \<Rightarrow> builder_transaction_ctx list \<Rightarrow> nat option" where
  "batch_footprint fs scalar builder_txs = (case (fs_target_da_footprint_for_batch fs, scalar) of
       (Some footprint, Some s) \<Rightarrow> Some (saturating_sub footprint (saturating_mul (reserved_da builder_txs) s))
     | _ \<Rightarrow> fs_target_da_footprint_for_batch fs)"

definition flashblock_limits :: "builder_ctx \<Rightarrow> 'u flashblocks_state \<Rightarrow> nat option \<Rightarrow> builder_transaction_ctx list \<Rightarrow> transaction_limits" where
  "flashblock_limits cx fs scalar builder_txs =
     \<lparr>tl_block_gas = min (saturating_sub (fs_target_gas_for_batch fs) (reserved_gas builder_txs)) (block_gas_limit cx),
      tl_block_da = batch_da fs builder_txs, tl_block_da_footprint = batch_footprint fs scalar builder_txs\<rparr>"

text \<open>The state for the next flashblock: gas from the unreduced target, the others from the reduced ones.\<close>

definition advance :: "nat option \<Rightarrow> nat option \<Rightarrow> 'u flashblocks_state \<Rightarrow> 'u flashblocks_state" where
  "advance da footprint fs = next_state (fs_target_gas_for_batch fs + fs_gas_per_batch fs)
     (case (fs_da_per_batch fs, da) of (Some da_limit, Some d) \<Rightarrow> Some (d + da_limit) | _ \<Rightarrow> da)
     (case (footprint, fs_da_footprint_per_batch fs) of (Some f, Some l) \<Rightarrow> Some (f + l) | _ \<Rightarrow> footprint) fs"

text \<open>From the packaged transactions on: seal, publish, hand over.\<close>

definition seal_flashblock :: "builder_ctx \<Rightarrow> ('d, 'u) chain_lib \<Rightarrow> payload_config \<Rightarrow> fb_round \<Rightarrow> nat option \<Rightarrow> nat option
    \<Rightarrow> ('d, 'u) block_state \<Rightarrow> 'u round_result \<times> ('d, 'u) block_state" where
  "seal_flashblock cx ch pl rd da footprint bs =
     (case build_block cx ch pl (bs_info bs) (bs_db bs) (Some (bs_fb bs)) (\<not> fs_disable_state_root (bs_fb bs) \<or> pl_no_tx_pool pl) of
        Inl e \<Rightarrow> (RoundFailed e, bs)
      | Inr (payload, msg, fb) \<Rightarrow>
          let msg1 = msg\<lparr>of_index := fs_flashblock_index (bs_fb bs), of_base := None\<rparr>;
              bs1 = bs\<lparr>bs_fb := the fb\<rparr>
          in if \<not> fr_ws_ok rd then (RoundFailed PublishFailed, bs1)
             else if \<not> fr_p2p_ok rd then (RoundFailed SendFailed, bs1\<lparr>bs_ws := bs_ws bs @ [msg1]\<rparr>)
             else (RoundNext (advance da footprint (the fb)),
                   bs1\<lparr>bs_ws := bs_ws bs @ [msg1], bs_p2p := bs_p2p bs @ [msg1], bs_best_payload := (payload, bs_db bs)\<rparr>))"

definition build_next_flashblock :: "ext \<Rightarrow> (create_inputs \<Rightarrow> nat \<Rightarrow> address) \<Rightarrow> builder_ctx \<Rightarrow> 'd world \<Rightarrow> 'd builder_lib \<Rightarrow> ('d, 'u) chain_lib
    \<Rightarrow> flashblocks_builder_tx \<Rightarrow> payload_config \<Rightarrow> fb_round \<Rightarrow> ('d, 'u) block_state \<Rightarrow> ('u round_result \<times> ('d, 'u) block_state) option" where
  "build_next_flashblock E C cx w L ch btx pl rd bs =
     (let fs = bs_fb bs; first = is_first_flashblock fs; last = is_last_flashblock fs in
      case add_builder_txs E cx w L btx True first last (bs_info bs) (bs_db bs) of (answer, info1, db1) \<Rightarrow>
        let builder_txs = (case answer of Inr txs \<Rightarrow> txs | Inl _ \<Rightarrow> []);
            scalar = ei_da_footprint_scalar info1;
            best1 = refresh_iterator (fr_best rd) (fs_flashblock_index fs) (bs_best bs)
        in (case execute_best_transactions E C cx w (flashblock_limits cx fs scalar builder_txs) (fr_its rd) info1 db1 (bs_shared bs)
              best1 (fr_tx_pool rd) of
              None \<Rightarrow> None
            | Some res \<Rightarrow>
                let bs1 = bs\<lparr>bs_info := lr_info res, bs_db := lr_db res, bs_shared := lr_shared res, bs_best := lr_best res\<rparr> in
                if lr_end res = EvmFailed then Some (RoundFailed ExecutionFailed, bs1)
                else
                  (case slice_from (fs_last_flashblock_tx_index fs) (ei_executed_transactions (lr_info res)) of
                     None \<Rightarrow> Some (RoundFailed BuildPanicked, bs1)
                   | Some new_transactions \<Rightarrow>
                       let bs2 = bs1\<lparr>bs_best := mark_commited (map px_hash new_transactions) (lr_best res)\<rparr> in
                       if fr_block_cancelled rd then Some (RoundCancelled, bs2)
                       else
                         (case add_builder_txs E cx w L btx False first last (bs_info bs2) (bs_db bs2) of (_, info3, db3) \<Rightarrow>
                            Some (seal_flashblock cx ch pl rd (batch_da fs builder_txs) (batch_footprint fs scalar builder_txs)
                              (bs2\<lparr>bs_info := info3, bs_db := db3\<rparr>))))))"

section \<open>The flashblocks of a block\<close>

text \<open>
  The signals received from the scheduler, one round each; the end of the list is the closed channel.
  The result is the error the build returns with, if any.
\<close>

fun build_rounds :: "ext \<Rightarrow> (create_inputs \<Rightarrow> nat \<Rightarrow> address) \<Rightarrow> builder_ctx \<Rightarrow> 'd world \<Rightarrow> 'd builder_lib \<Rightarrow> ('d, 'u) chain_lib
    \<Rightarrow> flashblocks_builder_tx \<Rightarrow> payload_config \<Rightarrow> fb_round list \<Rightarrow> ('d, 'u) block_state \<Rightarrow> (build_error option \<times> ('d, 'u) block_state) option" where
  "build_rounds E C cx w L ch btx pl [] bs = Some (None, bs)"
| "build_rounds E C cx w L ch btx pl (rd # rds) bs =
     (if fs_flashblock_index (bs_fb bs) > fs_target_flashblock_count (bs_fb bs) then Some (None, bs)
      else
        (case build_next_flashblock E C cx w L ch btx pl rd bs of
           None \<Rightarrow> None
         | Some (RoundNext fs, bs') \<Rightarrow> build_rounds E C cx w L ch btx pl rds (bs'\<lparr>bs_fb := fs\<rparr>)
         | Some (RoundCancelled, bs') \<Rightarrow> Some (None, bs')
         | Some (RoundFailed e, bs') \<Rightarrow> Some (Some e, bs')))"

section \<open>Resolving\<close>

definition resolve_zero_state_root :: "('d, 'u) chain_lib \<Rightarrow> 'u built_payload \<times> 'd \<Rightarrow> string + 'u built_payload" where
  "resolve_zero_state_root ch best_payload = (case best_payload of (p, bundle) \<Rightarrow>
     map_sum id (\<lambda>(state_root, trie_updates). p\<lparr>ob_header := (ob_header p)\<lparr>hd_state_root := state_root\<rparr>, ob_trie_updates := Some trie_updates\<rparr>)
       (cl_state_root ch None bundle))"

text \<open>
  The payload the cell is set to, and the payloads sent on to update the engine, which for the
  asynchronous calculation happens in a task of its own.
\<close>

definition resolve_best_payload :: "bool \<Rightarrow> bool \<Rightarrow> ('d, 'u) chain_lib \<Rightarrow> 'u built_payload \<times> 'd \<Rightarrow> 'u built_payload
    \<Rightarrow> 'u built_payload option \<Rightarrow> 'u built_payload option \<times> 'u built_payload list" where
  "resolve_best_payload synchronously parent_found ch best_payload fallback_payload cell =
     (if cell \<noteq> None then (cell, [])
      else if hd_state_root (ob_header (fst best_payload)) = 0 then
        let fallback_for_resolve = (if synchronously then fallback_payload else fst best_payload) in
        if \<not> parent_found then (Some fallback_for_resolve, [])
        else
          (case resolve_zero_state_root ch best_payload of
             Inr resolved \<Rightarrow> (Some (if synchronously then resolved else fallback_for_resolve), [resolved])
           | Inl _ \<Rightarrow> (Some fallback_for_resolve, []))
      else (Some (fst best_payload), []))"

section \<open>Building a payload\<close>

record build_config =
  bg_flashblocks :: flashblocks_config
  bg_block_time :: nat
  bg_disable_state_root :: bool
  bg_disable_async_calculate_state_root :: bool

text \<open>
  What a build finds of its surroundings: the parent state, the wall clock, the cache of received
  flashblocks, the filter, whether the first flashblock could be handed over and published, the rounds,
  and whether the parent state is still found when the payload is resolved.
\<close>

record 'd build_env =
  en_parent_state :: "string + 'd"
  en_now :: nat
  en_cache :: "pool_tx payloads_cache"
  en_shared :: shared
  en_best :: "pool_tx list"
  en_p2p_ok :: bool
  en_ws_ok :: bool
  en_rounds :: "fb_round list"
  en_parent_found :: bool

record 'u build_output =
  bo_error :: "build_error option"
  bo_cell :: "'u built_payload option"
  bo_ws :: "op_flashblock_payload list"
  bo_p2p :: "op_flashblock_payload list"
  bo_built :: "'u built_payload list"

definition failed_build :: "build_error \<Rightarrow> op_flashblock_payload list \<Rightarrow> op_flashblock_payload list \<Rightarrow> 'u build_output" where
  "failed_build e ws p2p = \<lparr>bo_error = Some e, bo_cell = None, bo_ws = ws, bo_p2p = p2p, bo_built = []\<rparr>"

definition finished_build :: "build_config \<Rightarrow> 'd build_env \<Rightarrow> ('d, 'u) chain_lib \<Rightarrow> build_error option \<Rightarrow> 'u built_payload \<times> 'd \<Rightarrow> 'u built_payload
    \<Rightarrow> op_flashblock_payload list \<Rightarrow> op_flashblock_payload list \<Rightarrow> 'u build_output" where
  "finished_build cfg en ch err best_payload fallback_payload ws p2p =
     (case resolve_best_payload (bg_disable_async_calculate_state_root cfg) (en_parent_found en) ch best_payload fallback_payload None of
        (cell, built) \<Rightarrow> \<lparr>bo_error = err, bo_cell = cell, bo_ws = ws, bo_p2p = p2p, bo_built = built\<rparr>)"

definition execute_pre_steps :: "builder_ctx \<Rightarrow> 'd world \<Rightarrow> ('d, 'u) chain_lib \<Rightarrow> payload_config \<Rightarrow> 'd \<Rightarrow> build_error + execution_info \<times> 'd" where
  "execute_pre_steps cx w ch pl db = and_then (map_sum ProviderFailed id (cl_pre_execution ch db))
     (\<lambda>db1. map_sum PayloadFailed id (execute_sequencer_transactions cx w (pl_transactions pl) db1))"

definition cached_txs :: "builder_ctx \<Rightarrow> payload_config \<Rightarrow> 'd build_env \<Rightarrow> pool_tx list option" where
  "cached_txs cx pl en = (if cx_filter cx then None
     else (case get_flashblocks_sequence_txs recover_tx (pl_parent_hash pl) (en_cache en) of
             Some (tx # txs) \<Rightarrow> Some (tx # txs)
           | _ \<Rightarrow> None))"

text \<open>The transactions of the fallback block: the sequencer's, then the replayed ones or a builder transaction.\<close>

definition fallback_base :: "ext \<Rightarrow> builder_ctx \<Rightarrow> 'd world \<Rightarrow> 'd builder_lib \<Rightarrow> flashblocks_builder_tx \<Rightarrow> payload_config \<Rightarrow> 'd build_env
    \<Rightarrow> 'u flashblocks_state \<Rightarrow> execution_info \<Rightarrow> 'd \<Rightarrow> execution_info \<times> 'd" where
  "fallback_base E cx w L btx pl en fs info db = (case cached_txs cx pl en of
       Some txs \<Rightarrow> snd (execute_cached_flashblocks_transactions cx w txs info db)
     | None \<Rightarrow>
         if pl_no_tx_pool pl then (info, db)
         else snd (add_builder_txs E cx w L btx False (is_first_flashblock fs) (is_last_flashblock fs) info db))"

definition first_batch :: "builder_ctx \<Rightarrow> execution_info \<Rightarrow> nat \<Rightarrow> 'u flashblocks_state \<Rightarrow> 'u flashblocks_state" where
  "first_batch cx info target_flashblocks fs =
     (let gas_per_batch = block_gas_limit cx div target_flashblocks;
          da_per_batch = map_option (\<lambda>da_limit. da_limit div target_flashblocks) (cx_block_da_limit cx);
          da_footprint_per_batch = map_option (\<lambda>_. block_gas_limit cx div target_flashblocks) (ei_da_footprint_scalar info)
      in (with_batch_limits gas_per_batch da_per_batch da_footprint_per_batch gas_per_batch da_per_batch da_footprint_per_batch fs)
           \<lparr>fs_flashblock_index := 1, fs_target_flashblock_count := target_flashblocks\<rparr>)"

text \<open>
  The build. The context of the later flashblocks is made of the same configuration as the first one, by a
  function of it alone (\<open>get_op_payload_builder_ctx\<close>), so it is the same and that call does not fail.
\<close>

definition build_payload :: "ext \<Rightarrow> (create_inputs \<Rightarrow> nat \<Rightarrow> address) \<Rightarrow> builder_ctx \<Rightarrow> 'd world \<Rightarrow> 'd builder_lib \<Rightarrow> ('d, 'u) chain_lib
    \<Rightarrow> flashblocks_builder_tx \<Rightarrow> build_config \<Rightarrow> payload_config \<Rightarrow> 'd build_env \<Rightarrow> 'u build_output option" where
  "build_payload E C cx w L ch btx cfg pl en =
     (let fs0 = flashblocks_state_new (flashblocks_per_block (bg_block_time cfg) (bg_flashblocks cfg)) (bg_disable_state_root cfg);
          rebuild = cached_txs cx pl en \<noteq> None
      in case and_then (map_sum ProviderFailed id (en_parent_state en)) (execute_pre_steps cx w ch pl) of
        Inl e \<Rightarrow> Some (failed_build e [] [])
      | Inr (info0, db0) \<Rightarrow>
          (case fallback_base E cx w L btx pl en fs0 info0 db0 of (info, db) \<Rightarrow>
             (case build_block cx ch pl info db (Some fs0) True of
                Inl e \<Rightarrow> Some (failed_build e [] [])
              | Inr (fallback, msg, fb) \<Rightarrow>
                  let p2p = (if rebuild then [] else [msg]);
                      ws = (if pl_no_tx_pool pl \<or> rebuild then [] else [msg])
                  in if \<not> rebuild \<and> \<not> en_p2p_ok en then Some (failed_build SendFailed [] [])
                     else if \<not> pl_no_tx_pool pl \<and> \<not> rebuild \<and> \<not> en_ws_ok en then Some (failed_build PublishFailed [] p2p)
                     else if pl_no_tx_pool pl \<or> rebuild then Some (finished_build cfg en ch None (fallback, db) fallback ws p2p)
                     else
                       (case scheduler_from_reference (bg_flashblocks cfg) (bg_block_time cfg) (cx_timestamp cx) (en_now en) of
                          None \<Rightarrow> Some (failed_build BuildPanicked ws p2p)
                        | Some scheduler \<Rightarrow>
                            let target_flashblocks = sc_target_flashblocks scheduler in
                            if target_flashblocks = 0 then Some (finished_build cfg en ch None (fallback, db) fallback ws p2p)
                            else
                              map_option (\<lambda>(err, bs). finished_build cfg en ch err (bs_best_payload bs) fallback (bs_ws bs) (bs_p2p bs))
                                (build_rounds E C cx w L ch btx pl (en_rounds en)
                                  \<lparr>bs_fb = first_batch cx info target_flashblocks (the fb), bs_info = info, bs_db = db, bs_shared = en_shared en,
                                   bs_best = best_txs_new (en_best en), bs_best_payload = (fallback, db), bs_ws = ws, bs_p2p = p2p\<rparr>)))))"

section \<open>Flashblocks add up to the block\<close>

lemma build_block_Inr_fields:
  fixes ch :: "('d, 'u) chain_lib"
  assumes "build_block cx ch pl info db fb calc = Inr (p, msg, fb')"
  obtains sr trie wr rh ebg bgu xd root new_txs new_rcs where
    "p = \<lparr>ob_id = pl_payload_id pl, ob_header = block_header cx ch pl info sr wr rh ebg bgu xd,
       ob_transactions = ei_executed_transactions info, ob_withdrawals = pl_withdrawals pl, ob_senders = ei_executed_senders info,
       ob_receipts = ei_receipts info, ob_fees = ei_total_fees info, ob_trie_updates = trie\<rparr>"
    "slice_from (case fb of None \<Rightarrow> 0 | Some fs \<Rightarrow> fs_last_flashblock_tx_index fs) (ei_executed_transactions info) = Some new_txs"
    "msg = flashblock_message cx ch pl db p new_txs new_rcs root"
    "fb' = map_option (\<lambda>fs. fs\<lparr>fs_prev_trie_updates := (if trie = None then fs_prev_trie_updates fs else trie),
       fs_last_flashblock_tx_index := length (ei_executed_transactions info)\<rparr>) fb"
proof -
  let ?idx = "case fb of None \<Rightarrow> 0 | Some fs \<Rightarrow> fs_last_flashblock_tx_index fs"
  have n: "\<not> cx_block_number cx \<noteq> pl_parent_number pl + 1"
    using assms by (cases "cx_block_number cx \<noteq> pl_parent_number pl + 1") (simp_all add: build_block_def)
  from assms [unfolded build_block_def if_not_P [OF n] split_beta] show thesis
  proof (elim and_then_InrE, goal_cases)
    case (1 a1 a2 a3 xd)
    note b = 1(5)
    obtain new_txs where 5: "slice_from ?idx (ei_executed_transactions info) = Some new_txs"
      using b by (cases "slice_from ?idx (ei_executed_transactions info)") (simp_all add: Let_def)
    obtain new_rcs where 6: "slice_from ?idx (ei_receipts info) = Some new_rcs"
      using b by (cases "slice_from ?idx (ei_receipts info)") (simp_all add: Let_def 5)
    obtain root where 7: "pl_parent_beacon_block_root pl = Some root"
      using b by (cases "pl_parent_beacon_block_root pl") (simp_all add: Let_def 5 6)
    show thesis
      using b by (intro that [of "fst a1" "fst a2" "snd a2" "fst a3" "snd a3" xd "snd a1" new_txs new_rcs root]) (auto simp: Let_def 5 6 7)
  qed
qed

lemma build_block_Inr:
  assumes "build_block cx ch pl info db (Some fs) calc = Inr (p, msg, fb)"
  shows "ob_transactions p = ei_executed_transactions info" "ob_receipts p = ei_receipts info"
    "hd_gas_used (ob_header p) = ei_cumulative_gas_used info"
    "of_payload_id msg = pl_payload_id pl" "of_index msg = 0" "map_option fbb_parent_hash (of_base msg) = Some (pl_parent_hash pl)"
    "fd_transactions (of_diff msg) = drop (fs_last_flashblock_tx_index fs) (ei_executed_transactions info)"
    "\<exists>trie. fb = Some (fs\<lparr>fs_prev_trie_updates := trie, fs_last_flashblock_tx_index := length (ei_executed_transactions info)\<rparr>)"
proof -
  obtain sr trie wr rh ebg bgu xd root new_txs new_rcs where
    p: "p = \<lparr>ob_id = pl_payload_id pl, ob_header = block_header cx ch pl info sr wr rh ebg bgu xd,
       ob_transactions = ei_executed_transactions info, ob_withdrawals = pl_withdrawals pl, ob_senders = ei_executed_senders info,
       ob_receipts = ei_receipts info, ob_fees = ei_total_fees info, ob_trie_updates = trie\<rparr>"
    and s: "slice_from (case Some fs of None \<Rightarrow> 0 | Some fs \<Rightarrow> fs_last_flashblock_tx_index fs) (ei_executed_transactions info) = Some new_txs"
    and m: "msg = flashblock_message cx ch pl db p new_txs new_rcs root"
    and f: "fb = map_option (\<lambda>fs. fs\<lparr>fs_prev_trie_updates := (if trie = None then fs_prev_trie_updates fs else trie),
       fs_last_flashblock_tx_index := length (ei_executed_transactions info)\<rparr>) (Some fs)"
    by (rule build_block_Inr_fields [OF assms])
  show "ob_transactions p = ei_executed_transactions info" "ob_receipts p = ei_receipts info"
    "hd_gas_used (ob_header p) = ei_cumulative_gas_used info" by (simp_all add: p block_header_def)
  show "of_payload_id msg = pl_payload_id pl" "of_index msg = 0" "map_option fbb_parent_hash (of_base msg) = Some (pl_parent_hash pl)"
    by (simp_all add: m flashblock_message_def Let_def)
  show "fd_transactions (of_diff msg) = drop (fs_last_flashblock_tx_index fs) (ei_executed_transactions info)"
    using s by (simp add: m flashblock_message_def Let_def slice_from_def split: if_splits)
  show "\<exists>trie. fb = Some (fs\<lparr>fs_prev_trie_updates := trie, fs_last_flashblock_tx_index := length (ei_executed_transactions info)\<rparr>)"
    unfolding f option.map by (rule exI, rule refl)
qed

definition all_transactions :: "op_flashblock_payload list \<Rightarrow> pool_tx list" where
  "all_transactions ms = concat (map (\<lambda>m. fd_transactions (of_diff m)) ms)"

text \<open>A sequence of flashblocks of one payload: numbered from 0, the first one with the base.\<close>

definition proper_sequence :: "payload_config \<Rightarrow> op_flashblock_payload list \<Rightarrow> bool" where
  "proper_sequence pl ms \<longleftrightarrow> map of_index ms = [0..<length ms] \<and> list_all (\<lambda>m. of_payload_id m = pl_payload_id pl) ms \<and>
     map (\<lambda>m. map_option fbb_parent_hash (of_base m)) ms = map (\<lambda>i. if i = 0 then Some (pl_parent_hash pl) else None) [0..<length ms]"

definition in_step :: "payload_config \<Rightarrow> ('d, 'u) block_state \<Rightarrow> bool" where
  "in_step pl bs \<longleftrightarrow> bs_p2p bs \<noteq> [] \<and> proper_sequence pl (bs_p2p bs) \<and>
     ob_transactions (fst (bs_best_payload bs)) = all_transactions (bs_p2p bs)"

definition at_head :: "('d, 'u) block_state \<Rightarrow> bool" where
  "at_head bs \<longleftrightarrow> ei_executed_transactions (bs_info bs) = all_transactions (bs_p2p bs) \<and> bs_ws bs = bs_p2p bs \<and>
     fs_last_flashblock_tx_index (bs_fb bs) = length (all_transactions (bs_p2p bs)) \<and> fs_flashblock_index (bs_fb bs) = length (bs_p2p bs)"

definition ended :: "build_error option \<Rightarrow> ('d, 'u) block_state \<Rightarrow> bool" where
  "ended err bs \<longleftrightarrow> bs_ws bs = bs_p2p bs \<or> err = Some SendFailed \<and> (\<exists>m. bs_ws bs = bs_p2p bs @ [m])"

lemma proper_sequence_snoc:
  assumes "proper_sequence pl ms" "ms \<noteq> []" "of_index m = length ms" "of_payload_id m = pl_payload_id pl" "of_base m = None"
  shows "proper_sequence pl (ms @ [m])"
  using assms by (simp add: proper_sequence_def)

lemma run_tx_loop_appends:
  assumes "run_tx_loop E cx w co lim its st = Some c"
  shows "\<exists>txs. ei_executed_transactions (ls_info (control_state c)) = ei_executed_transactions (ls_info st) @ txs"
proof (rule run_tx_loop_invariant [where I = "\<lambda>s. \<exists>txs. ei_executed_transactions (ls_info s) = ei_executed_transactions (ls_info st) @ txs", OF assms])
  fix s :: "('a, 'b) loop_state" and tx best
  assume "\<exists>txs. ei_executed_transactions (ls_info s) = ei_executed_transactions (ls_info st) @ txs"
  with tx_step_effect [OF refl, of E cx w co lim "its (ls_considered s)" tx "s\<lparr>ls_best := best, ls_considered := ls_considered s + 1\<rparr>"]
  show "\<exists>txs. ei_executed_transactions (ls_info (control_state (tx_step E cx w co lim (its (ls_considered s)) tx
      (s\<lparr>ls_best := best, ls_considered := ls_considered s + 1\<rparr>)))) = ei_executed_transactions (ls_info st) @ txs"
    by fastforce
qed simp

lemma execute_best_appends:
  assumes "execute_best_transactions E C cx w lim its info db sh best pool = Some res"
  shows "\<exists>txs. ei_executed_transactions (lr_info res) = ei_executed_transactions info @ txs"
proof (cases rule: execute_best_cases [of E C cx w lim its info db sh best pool])
  case (1 c)
  with assms obtain k where "c = Some k" "res = loop_result_of k" by auto
  with run_tx_loop_appends 1(3) show ?thesis by fastforce
next
  case (2 c)
  with assms obtain k where "c = Some k" "res = loop_result_of k" by auto
  with run_tx_loop_appends 2(3) show ?thesis by fastforce
qed

lemma seal_flashblock_step:
  assumes "seal_flashblock cx ch pl rd da footprint bs = (r, bs')" "in_step pl bs" "bs_ws bs = bs_p2p bs"
    and "ei_executed_transactions (bs_info bs) = all_transactions (bs_p2p bs) @ txs"
    and "fs_last_flashblock_tx_index (bs_fb bs) = length (all_transactions (bs_p2p bs))" "fs_flashblock_index (bs_fb bs) = length (bs_p2p bs)"
  shows "in_step pl bs' \<and> (case r of RoundNext fs \<Rightarrow> at_head (bs'\<lparr>bs_fb := fs\<rparr>) | RoundCancelled \<Rightarrow> ended None bs' | RoundFailed e \<Rightarrow> ended (Some e) bs')"
proof (cases "build_block cx ch pl (bs_info bs) (bs_db bs) (Some (bs_fb bs)) (\<not> fs_disable_state_root (bs_fb bs) \<or> pl_no_tx_pool pl)")
  case (Inl e)
  with assms show ?thesis by (auto simp: seal_flashblock_def ended_def)
next
  case (Inr res)
  obtain p msg fb where res: "res = (p, msg, fb)" by (cases res)
  note b = build_block_Inr [OF Inr [unfolded res]]
  let ?m = "msg\<lparr>of_index := fs_flashblock_index (bs_fb bs), of_base := None\<rparr>"
  have t: "fd_transactions (of_diff msg) = txs" using b(7) assms(4,5) by simp
  have all: "all_transactions (bs_p2p bs @ [?m]) = all_transactions (bs_p2p bs) @ txs" by (simp add: all_transactions_def t)
  have seq: "proper_sequence pl (bs_p2p bs @ [?m])"
    using assms(2,6) b(4) by (intro proper_sequence_snoc) (simp_all add: in_step_def)
  show ?thesis
  proof (cases "fr_ws_ok rd \<and> fr_p2p_ok rd")
    case True
    with assms(1) Inr res have r: "r = RoundNext (advance da footprint (the fb))"
      "bs' = bs\<lparr>bs_fb := the fb, bs_ws := bs_ws bs @ [?m], bs_p2p := bs_p2p bs @ [?m], bs_best_payload := (p, bs_db bs)\<rparr>"
      by (auto simp: seal_flashblock_def Let_def)
    with assms b(1,8) all seq show ?thesis
      by (auto simp: in_step_def at_head_def advance_def next_state_def)
  next
    case False
    with assms Inr res show ?thesis by (auto simp: seal_flashblock_def Let_def in_step_def ended_def split: if_splits)
  qed
qed

lemma build_next_flashblock_step:
  assumes "build_next_flashblock E C cx w L ch btx pl rd bs = Some (r, bs')" "in_step pl bs" "at_head bs"
  shows "in_step pl bs' \<and> (case r of RoundNext fs \<Rightarrow> at_head (bs'\<lparr>bs_fb := fs\<rparr>) | RoundCancelled \<Rightarrow> ended None bs' | RoundFailed e \<Rightarrow> ended (Some e) bs')"
proof -
  let ?fs = "bs_fb bs"
  obtain a info1 db1 where a: "add_builder_txs E cx w L btx True (is_first_flashblock ?fs) (is_last_flashblock ?fs) (bs_info bs) (bs_db bs) = (a, info1, db1)"
    by (metis prod_cases3)
  obtain txs1 where 1: "ei_executed_transactions info1 = all_transactions (bs_p2p bs) @ txs1"
    using add_builder_txs_appends [OF a] assms(3) by (auto simp: at_head_def)
  define builder_txs where "builder_txs = (case a of Inr txs \<Rightarrow> txs | Inl _ \<Rightarrow> [])"
  let ?lim = "flashblock_limits cx ?fs (ei_da_footprint_scalar info1) builder_txs"
  obtain res where res: "execute_best_transactions E C cx w ?lim (fr_its rd) info1 db1 (bs_shared bs)
      (refresh_iterator (fr_best rd) (fs_flashblock_index ?fs) (bs_best bs)) (fr_tx_pool rd) = Some res"
    using assms(1) by (auto simp: build_next_flashblock_def a Let_def builder_txs_def split: option.splits)
  obtain txs2 where 2: "ei_executed_transactions (lr_info res) = all_transactions (bs_p2p bs) @ txs1 @ txs2"
    using execute_best_appends [OF res] 1 by auto
  let ?bs1 = "bs\<lparr>bs_info := lr_info res, bs_db := lr_db res, bs_shared := lr_shared res, bs_best := lr_best res\<rparr>"
  have keep: "ended err (?bs1\<lparr>bs_best := b\<rparr>)" "in_step pl (?bs1\<lparr>bs_best := b\<rparr>)" "ended err ?bs1" "in_step pl ?bs1" for b err
    using assms(2,3) by (simp_all add: in_step_def ended_def at_head_def)
  have slice: "slice_from (fs_last_flashblock_tx_index ?fs) (ei_executed_transactions (lr_info res)) = Some (txs1 @ txs2)"
    using assms(3) 2 by (simp add: slice_from_def at_head_def)
  let ?bs2 = "?bs1\<lparr>bs_best := mark_commited (map px_hash (txs1 @ txs2)) (lr_best res)\<rparr>"
  show ?thesis
  proof (cases "lr_end res = EvmFailed \<or> fr_block_cancelled rd")
    case True
    with assms(1) keep show ?thesis
      by (auto simp: build_next_flashblock_def a Let_def builder_txs_def [symmetric] res slice split: if_splits)
  next
    case False
    obtain a3 info3 db3 where a3: "add_builder_txs E cx w L btx False (is_first_flashblock ?fs) (is_last_flashblock ?fs) (lr_info res) (lr_db res) = (a3, info3, db3)"
      by (metis prod_cases3)
    obtain txs3 where 3: "ei_executed_transactions info3 = all_transactions (bs_p2p bs) @ txs1 @ txs2 @ txs3"
      using add_builder_txs_appends [OF a3] 2 by auto
    have "seal_flashblock cx ch pl rd (batch_da ?fs builder_txs) (batch_footprint ?fs (ei_da_footprint_scalar info1) builder_txs)
        (?bs2\<lparr>bs_info := info3, bs_db := db3\<rparr>) = (r, bs')"
      using assms(1) False by (simp add: build_next_flashblock_def a Let_def builder_txs_def [symmetric] res slice a3)
    then show ?thesis
      by (rule seal_flashblock_step) (use assms(2,3) 3 in \<open>simp_all add: in_step_def at_head_def\<close>)
  qed
qed

lemma build_rounds_step:
  assumes "build_rounds E C cx w L ch btx pl rds bs = Some (err, bs')" "in_step pl bs" "at_head bs"
  shows "in_step pl bs' \<and> ended err bs'"
  using assms
proof (induction rds arbitrary: bs)
  case Nil
  then show ?case by (auto simp: ended_def at_head_def)
next
  case (Cons rd rds)
  show ?case
  proof (cases "fs_flashblock_index (bs_fb bs) > fs_target_flashblock_count (bs_fb bs)")
    case True
    with Cons.prems show ?thesis by (auto simp: ended_def at_head_def)
  next
    case False
    with Cons.prems(1) obtain r bs1 where r: "build_next_flashblock E C cx w L ch btx pl rd bs = Some (r, bs1)"
      by (auto split: option.splits)
    note step = build_next_flashblock_step [OF r Cons.prems(2,3)]
    show ?thesis
    proof (cases r)
      case (RoundNext fs)
      with Cons.prems(1) False r have "build_rounds E C cx w L ch btx pl rds (bs1\<lparr>bs_fb := fs\<rparr>) = Some (err, bs')" by simp
      from Cons.IH [OF this] step RoundNext show ?thesis by (simp add: in_step_def)
    qed (use Cons.prems(1) False r step in auto)
  qed
qed

text \<open>The first flashblock stays the first.\<close>

lemma build_next_flashblock_p2p:
  assumes "build_next_flashblock E C cx w L ch btx pl rd bs = Some (r, bs')"
  shows "\<exists>ms. bs_p2p bs' = bs_p2p bs @ ms"
  using assms
  by (auto simp: build_next_flashblock_def seal_flashblock_def Let_def split: prod.splits option.splits if_splits sum.splits)

lemma build_rounds_first:
  assumes "build_rounds E C cx w L ch btx pl rds bs = Some (err, bs')" "bs_p2p bs \<noteq> []"
  shows "take 1 (bs_p2p bs') = take 1 (bs_p2p bs)"
  using assms
proof (induction rds arbitrary: bs)
  case (Cons rd rds)
  show ?case
  proof (cases "fs_flashblock_index (bs_fb bs) > fs_target_flashblock_count (bs_fb bs)")
    case False
    with Cons.prems(1) obtain r bs1 where r: "build_next_flashblock E C cx w L ch btx pl rd bs = Some (r, bs1)"
      by (auto split: option.splits)
    obtain ms where ms: "bs_p2p bs1 = bs_p2p bs @ ms" using build_next_flashblock_p2p [OF r] by blast
    show ?thesis
    proof (cases r)
      case (RoundNext fs)
      with Cons.prems(1) False r have "build_rounds E C cx w L ch btx pl rds (bs1\<lparr>bs_fb := fs\<rparr>) = Some (err, bs')" by simp
      from Cons.IH [OF this] ms Cons.prems(2) show ?thesis by (cases "bs_p2p bs") simp_all
    qed (use Cons.prems False r ms in \<open>cases "bs_p2p bs"; auto\<close>)+
  qed (use Cons.prems in simp)
qed simp

lemma execute_best_returns:
  assumes "marks_shrink w"
  shows "\<exists>res. execute_best_transactions E C cx w lim its info db sh best pool = Some res"
  using run_tx_loop_returns [OF assms, of E cx "rcs_ops E C" lim its] run_tx_loop_returns [OF assms, of E cx noop_ops lim its]
  by (cases "cx_filter cx") (simp_all add: execute_best_transactions_def)

lemma build_next_flashblock_returns:
  assumes "marks_shrink w"
  shows "\<exists>r bs'. build_next_flashblock E C cx w L ch btx pl rd bs = Some (r, bs')"
proof -
  let ?fs = "bs_fb bs"
  obtain a info1 db1 where a: "add_builder_txs E cx w L btx True (is_first_flashblock ?fs) (is_last_flashblock ?fs) (bs_info bs) (bs_db bs) = (a, info1, db1)"
    by (metis prod_cases3)
  define builder_txs where "builder_txs = (case a of Inr txs \<Rightarrow> txs | Inl _ \<Rightarrow> [])"
  obtain res where "execute_best_transactions E C cx w (flashblock_limits cx ?fs (ei_da_footprint_scalar info1) builder_txs) (fr_its rd) info1 db1
      (bs_shared bs) (refresh_iterator (fr_best rd) (fs_flashblock_index ?fs) (bs_best bs)) (fr_tx_pool rd) = Some res"
    using execute_best_returns [OF assms] by blast
  then show ?thesis
    by (auto simp: build_next_flashblock_def a Let_def builder_txs_def [symmetric] split: option.splits prod.splits)
qed

lemma build_rounds_returns:
  assumes "marks_shrink w"
  shows "\<exists>err bs'. build_rounds E C cx w L ch btx pl rds bs = Some (err, bs')"
proof (induction rds arbitrary: bs)
  case (Cons rd rds)
  obtain r bs' where "build_next_flashblock E C cx w L ch btx pl rd bs = Some (r, bs')"
    using build_next_flashblock_returns [OF assms] by blast
  with Cons.IH show ?case by (cases r) auto
qed simp

text \<open>The state in which the rounds start.\<close>

definition rounds_start :: "builder_ctx \<Rightarrow> 'd build_env \<Rightarrow> nat \<Rightarrow> execution_info \<Rightarrow> 'd \<Rightarrow> 'u built_payload \<Rightarrow> op_flashblock_payload \<Rightarrow> 'u flashblocks_state
    \<Rightarrow> ('d, 'u) block_state" where
  "rounds_start cx en target info db fallback msg fs =
     \<lparr>bs_fb = first_batch cx info target fs, bs_info = info, bs_db = db, bs_shared = en_shared en, bs_best = best_txs_new (en_best en),
      bs_best_payload = (fallback, db), bs_ws = [msg], bs_p2p = [msg]\<rparr>"

lemma rounds_start_step:
  assumes "build_block cx ch pl info db (Some (flashblocks_state_new n d)) True = Inr (fallback, msg, fb)"
  shows "in_step pl (rounds_start cx en target info db fallback msg (the fb))" "at_head (rounds_start cx en target info db fallback msg (the fb))"
proof -
  note b = build_block_Inr [OF assms]
  have t: "all_transactions [msg] = ei_executed_transactions info" using b(7) by (simp add: all_transactions_def flashblocks_state_new_def)
  show "in_step pl (rounds_start cx en target info db fallback msg (the fb))"
    using b t by (simp add: in_step_def rounds_start_def proper_sequence_def)
  show "at_head (rounds_start cx en target info db fallback msg (the fb))"
    using b(8) t by (auto simp: at_head_def rounds_start_def first_batch_def with_batch_limits_def Let_def)
qed

text \<open>The ways a build ends.\<close>

lemma build_payload_cases:
  fixes ch :: "('d, 'u) chain_lib"
  assumes "build_payload E C cx w L ch btx cfg pl en = Some out"
  obtains (failed) e ws p2p where "out = failed_build e ws p2p"
    | (fallback_only) db0 info0 db1 info db fallback msg fb where
        "en_parent_state en = Inr db0" "execute_pre_steps cx w ch pl db0 = Inr (info0, db1)"
        "fallback_base E cx w L btx pl en (flashblocks_state_new (flashblocks_per_block (bg_block_time cfg) (bg_flashblocks cfg)) (bg_disable_state_root cfg)
           :: 'u flashblocks_state) info0 db1 = (info, db)"
        "build_block cx ch pl info db (Some (flashblocks_state_new (flashblocks_per_block (bg_block_time cfg) (bg_flashblocks cfg)) (bg_disable_state_root cfg))) True
           = Inr (fallback, msg, fb)"
        "out = finished_build cfg en ch None (fallback, db) fallback (if pl_no_tx_pool pl \<or> cached_txs cx pl en \<noteq> None then [] else [msg])
           (if cached_txs cx pl en \<noteq> None then [] else [msg])"
    | (rounds) db0 info0 db1 info db fallback msg fb target err bs where
        "en_parent_state en = Inr db0" "execute_pre_steps cx w ch pl db0 = Inr (info0, db1)" "cached_txs cx pl en = None" "\<not> pl_no_tx_pool pl"
        "fallback_base E cx w L btx pl en (flashblocks_state_new (flashblocks_per_block (bg_block_time cfg) (bg_flashblocks cfg)) (bg_disable_state_root cfg)
           :: 'u flashblocks_state) info0 db1 = (info, db)"
        "build_block cx ch pl info db (Some (flashblocks_state_new (flashblocks_per_block (bg_block_time cfg) (bg_flashblocks cfg)) (bg_disable_state_root cfg))) True
           = Inr (fallback, msg, fb)"
        "0 < target" "build_rounds E C cx w L ch btx pl (en_rounds en) (rounds_start cx en target info db fallback msg (the fb)) = Some (err, bs)"
        "out = finished_build cfg en ch err (bs_best_payload bs) fallback (bs_ws bs) (bs_p2p bs)"
proof -
  let ?fs = "flashblocks_state_new (flashblocks_per_block (bg_block_time cfg) (bg_flashblocks cfg)) (bg_disable_state_root cfg) :: 'u flashblocks_state"
  let ?c = "cached_txs cx pl en"
  note b = assms [unfolded build_payload_def, unfolded Let_def]
  have fail: thesis if "\<exists>e ws p2p. out = failed_build e ws p2p" using that failed by blast
  show thesis
  proof (cases "and_then (map_sum ProviderFailed id (en_parent_state en)) (execute_pre_steps cx w ch pl)")
    case (Inl e)
    with b show thesis by (intro fail) auto
  next
    case (Inr p)
    obtain info0 db1 where p: "p = (info0, db1)" by (cases p)
    obtain db0 where pre: "en_parent_state en = Inr db0" "execute_pre_steps cx w ch pl db0 = Inr (info0, db1)"
      using Inr p by (cases "en_parent_state en") (auto simp: and_then_def)
    obtain info db where f: "fallback_base E cx w L btx pl en ?fs info0 db1 = (info, db)" by (metis surj_pair)
    show thesis
    proof (cases "build_block cx ch pl info db (Some ?fs) True")
      case bb: (Inl e)
      with b Inr p f show thesis by (intro fail) auto
    next
      case bb: (Inr q)
      obtain fallback msg fb where q: "q = (fallback, msg, fb)" by (cases q)
      note b = b [unfolded Inr p sum.case prod.case f bb q]
      consider "?c = None \<and> \<not> en_p2p_ok en \<or> ?c = None \<and> \<not> pl_no_tx_pool pl \<and> \<not> en_ws_ok en" |
        "\<not> (?c = None \<and> \<not> en_p2p_ok en \<or> ?c = None \<and> \<not> pl_no_tx_pool pl \<and> \<not> en_ws_ok en)" "pl_no_tx_pool pl \<or> ?c \<noteq> None" |
        "\<not> (?c = None \<and> \<not> en_p2p_ok en \<or> ?c = None \<and> \<not> pl_no_tx_pool pl \<and> \<not> en_ws_ok en)" "\<not> pl_no_tx_pool pl" "?c = None" by blast
      then show thesis
      proof cases
        case 1
        with b show thesis by (intro fail) (auto split: if_splits)
      next
        case 2
        with b show thesis by (intro fallback_only [OF pre f bb [unfolded q]]) (auto split: if_splits)
      next
        case 3
        show thesis
        proof (cases "scheduler_from_reference (bg_flashblocks cfg) (bg_block_time cfg) (cx_timestamp cx) (en_now en)")
          case None
          with b 3 show thesis by (intro fail) auto
        next
          case (Some sc)
          show thesis
          proof (cases "sc_target_flashblocks sc = 0")
            case True
            with b 3 Some show thesis by (intro fallback_only [OF pre f bb [unfolded q]]) simp
          next
            case False
            with b 3 Some obtain err bs where
              "build_rounds E C cx w L ch btx pl (en_rounds en) (rounds_start cx en (sc_target_flashblocks sc) info db fallback msg (the fb)) = Some (err, bs)"
              "out = finished_build cfg en ch err (bs_best_payload bs) fallback (bs_ws bs) (bs_p2p bs)"
              by (auto simp: rounds_start_def)
            with 3 False show thesis by (intro rounds [OF pre 3(3,2) f bb [unfolded q]]) auto
          qed
        qed
      qed
    qed
  qed
qed

text \<open>
  A build returns, whatever the pool, the filter, the other builders and the scheduler do: when
  the pool's iterator only shrinks on \<open>mark_invalid\<close>, no list of signals makes it run forever.
\<close>

lemma build_payload_returns:
  assumes "marks_shrink w"
  shows "\<exists>out. build_payload E C cx w L ch btx cfg pl en = Some out"
proof -
  have "\<exists>x. build_rounds E C cx w L ch btx pl rds bs = Some x" for rds and bs :: "('a, 'b) block_state"
    using build_rounds_returns [OF assms] by blast
  then show ?thesis
    by (auto simp: build_payload_def Let_def split: sum.split prod.split option.split)
qed

lemma resolve_best_payload_cell:
  assumes "fst (resolve_best_payload synchronously found ch best fallback None) = Some p"
  shows "ob_transactions p = ob_transactions (fst best) \<and> ob_receipts p = ob_receipts (fst best) \<and> hd_gas_used (ob_header p) = hd_gas_used (ob_header (fst best)) \<or>
    p = fallback \<and> synchronously \<and> (\<not> found \<or> (\<exists>e. cl_state_root ch None (snd best) = Inl e))"
  using assms
  by (cases best; cases "cl_state_root ch None (snd best)")
    (auto simp: resolve_best_payload_def resolve_zero_state_root_def Let_def split: if_splits)

lemma finished_build_simps [simp]:
  "bo_cell (finished_build cfg en ch err best fallback ws p2p) =
     fst (resolve_best_payload (bg_disable_async_calculate_state_root cfg) (en_parent_found en) ch best fallback None)"
  "bo_ws (finished_build cfg en ch err best fallback ws p2p) = ws" "bo_p2p (finished_build cfg en ch err best fallback ws p2p) = p2p"
  "bo_error (finished_build cfg en ch err best fallback ws p2p) = err"
  by (simp_all add: finished_build_def split: prod.split)

text \<open>
  C2. What was preconfirmed is what gets resolved. A build that takes over the flashblocks in its cache publishes
  none itself. Any other build that resolves has handed to its peers flashblocks numbered from 0 without a gap,
  whose transactions, put together in that order, are exactly the transactions of the payload it resolves
  with; the one exception is the synchronous mode when no state root can be computed, which resolves with the first
  flashblock alone. The websocket subscribers saw the same flashblocks, or one more when handing over
  the last one failed; when the attributes exclude the pool, the peers get one flashblock and the subscribers none.
\<close>

theorem flashblocks_add_up_to_block:
  assumes "build_payload E C cx w L ch btx cfg pl en = Some out" "bo_cell out = Some p"
  shows "case cached_txs cx pl en of
      Some txs \<Rightarrow> bo_p2p out = [] \<and> bo_ws out = []
    | None \<Rightarrow>
        bo_p2p out \<noteq> [] \<and> map of_index (bo_p2p out) = [0..<length (bo_p2p out)] \<and>
        (ob_transactions p = all_transactions (bo_p2p out) \<or>
         bg_disable_async_calculate_state_root cfg \<and> (\<not> en_parent_found en \<or> (\<exists>db e. cl_state_root ch None db = Inl e)) \<and>
           ob_transactions p = all_transactions (take 1 (bo_p2p out))) \<and>
        (if pl_no_tx_pool pl then length (bo_p2p out) = 1 \<and> bo_ws out = []
         else bo_ws out = bo_p2p out \<or> bo_error out = Some SendFailed \<and> (\<exists>m. bo_ws out = bo_p2p out @ [m]))"
  using assms(1)
proof (cases rule: build_payload_cases)
  case (failed e ws p2p)
  with assms(2) show ?thesis by (simp add: failed_build_def)
next
  case (fallback_only db0 info0 db1 info db fallback msg fb)
  note b = build_block_Inr [OF fallback_only(4)]
  have t: "all_transactions [msg] = ei_executed_transactions info" using b(7) by (simp add: all_transactions_def flashblocks_state_new_def)
  have "ob_transactions p = ob_transactions fallback"
    using resolve_best_payload_cell [of _ _ ch "(fallback, db)" fallback p] assms(2) fallback_only(5) by auto
  with b t fallback_only(5) show ?thesis by (cases "cached_txs cx pl en"; cases "pl_no_tx_pool pl") simp_all
next
  case (rounds db0 info0 db1 info db fallback msg fb target err bs)
  note b = build_block_Inr [OF rounds(6)]
  have t: "all_transactions [msg] = ei_executed_transactions info" using b(7) by (simp add: all_transactions_def flashblocks_state_new_def)
  have s: "in_step pl bs" "ended err bs" using build_rounds_step [OF rounds(8) rounds_start_step [OF rounds(6)]] by simp_all
  have hd: "take 1 (bs_p2p bs) = [msg]" using build_rounds_first [OF rounds(8)] by (simp add: rounds_start_def)
  have "ob_transactions p = all_transactions (bs_p2p bs) \<or> ob_transactions p = all_transactions [msg] \<and>
      bg_disable_async_calculate_state_root cfg \<and> (\<not> en_parent_found en \<or> (\<exists>db e. cl_state_root ch None db = Inl e))"
    using resolve_best_payload_cell [of "bg_disable_async_calculate_state_root cfg" "en_parent_found en" ch "bs_best_payload bs" fallback p]
      assms(2) rounds(9) t b(1) s(1) by (simp add: in_step_def) blast
  with s rounds(3,4,9) hd show ?thesis by (auto simp: in_step_def ended_def proper_sequence_def)
qed

text \<open>The library's state and withdrawals roots can be computed.\<close>

definition providers_answer :: "('d, 'u) chain_lib \<Rightarrow> bool" where
  "providers_answer ch \<longleftrightarrow> (\<forall>prev db. \<exists>r. cl_state_root ch prev db = Inr r) \<and> (\<forall>db. \<exists>r. cl_withdrawals_root ch db = Inr r)"

lemma build_block_config:
  assumes "build_block cx ch pl info db fb calc = Inr (p, msg, fb')"
  shows "cx_block_number cx = pl_parent_number pl + 1" "blob_fields cx info \<noteq> None" "\<exists>xd. pl_extra_data pl = Inr xd"
    "pl_parent_beacon_block_root pl \<noteq> None"
proof -
  show n: "cx_block_number cx = pl_parent_number pl + 1"
    using assms by (cases "cx_block_number cx \<noteq> pl_parent_number pl + 1") (simp_all add: build_block_def)
  have "blob_fields cx info \<noteq> None \<and> (\<exists>xd. pl_extra_data pl = Inr xd) \<and> pl_parent_beacon_block_root pl \<noteq> None"
    using assms [unfolded build_block_def split_beta] n
    by (auto elim!: and_then_InrE simp: map_sum_Inr_iff Let_def split: option.splits sum.splits)
  then show "blob_fields cx info \<noteq> None" "\<exists>xd. pl_extra_data pl = Inr xd" "pl_parent_beacon_block_root pl \<noteq> None" by blast+
qed

lemma build_block_succeeds:
  assumes "providers_answer ch" "cx_block_number cx = pl_parent_number pl + 1" "blob_fields cx info \<noteq> None" "pl_extra_data pl = Inr xd"
    and "pl_parent_beacon_block_root pl \<noteq> None" "fs_last_flashblock_tx_index fs = 0"
  shows "\<exists>p msg fb. build_block cx ch pl info db (Some fs) calc = Inr (p, msg, fb)"
proof -
  obtain sr trie where 1: "cl_state_root ch (fs_prev_trie_updates fs) db = Inr (sr, trie)" using assms(1) unfolding providers_answer_def by (metis surj_pair)
  obtain wr where 2: "cl_withdrawals_root ch db = Inr wr" using assms(1) unfolding providers_answer_def by blast
  obtain eb bu where 3: "blob_fields cx info = Some (eb, bu)" using assms(3) by auto
  obtain root where 4: "pl_parent_beacon_block_root pl = Some root" using assms(5) by auto
  show ?thesis
    using assms(2,6) by (simp add: build_block_def and_then_def 1 2 3 4 assms(4) slice_from_def Let_def)
qed

section \<open>An instance\<close>

text \<open>A chain with constant roots, a block of one flashblock, and a builder without a key.\<close>

definition sample_chain_lib :: "(nat, unit) chain_lib" where
  "sample_chain_lib = \<lparr>cl_pre_execution = Inr, cl_state_root = (\<lambda>_ _. Inr (1, ())), cl_withdrawals_root = (\<lambda>_. Inr 0), cl_empty_withdrawals = 0,
     cl_empty_requests_hash = 0, cl_receipts_root = (\<lambda>_. 0), cl_transactions_root = (\<lambda>_. 0), cl_logs_bloom = (\<lambda>_. []),
     cl_block_hash = (\<lambda>_ _ _. 0), cl_balances = (\<lambda>_. [])\<rparr>"

definition sample_builder_lib :: "nat builder_lib" where
  "sample_builder_lib = \<lparr>lb_sign_tx = (\<lambda>_ _. Inl ''no key''), lb_simulate = (\<lambda>_ _. Inl EvmFatal), lb_selector = (\<lambda>_. [])\<rparr>"

definition sample_pl :: payload_config where
  "sample_pl = \<lparr>pl_payload_id = 9, pl_parent_hash = 77, pl_parent_number = 0, pl_no_tx_pool = False, pl_transactions = [],
     pl_suggested_fee_recipient = 0, pl_beneficiary = 0, pl_prev_randao = 0, pl_parent_beacon_block_root = Some 0, pl_withdrawals = Some [],
     pl_extra_data = Inr [], pl_isthmus = True\<rparr>"

definition sample_build_config :: build_config where
  "sample_build_config = \<lparr>bg_flashblocks = \<lparr>fbc_interval = from_secs 1, fbc_send_offset_ms = 0, fbc_end_buffer_ms = 0\<rparr>, bg_block_time = from_secs 1,
     bg_disable_state_root = False, bg_disable_async_calculate_state_root = False\<rparr>"

definition sample_round :: fb_round where
  "sample_round = \<lparr>fr_its = (\<lambda>_. sample_iteration), fr_best = [sample_tx], fr_tx_pool = [7], fr_block_cancelled = False, fr_ws_ok = True, fr_p2p_ok = True\<rparr>"

definition sample_env :: "nat build_env" where
  "sample_env = \<lparr>en_parent_state = Inr 0, en_now = 0, en_cache = \<lparr>pc_inner = None, pc_persist_path = None\<rparr>, en_shared = spawn_shared default_config,
     en_best = [], en_p2p_ok = True, en_ws_ok = True, en_rounds = [sample_round], en_parent_found = True\<rparr>"

definition sample_bcx :: "bool \<Rightarrow> builder_ctx" where
  "sample_bcx filter_on = sample_cx\<lparr>cx_filter := filter_on, cx_jovian := False\<rparr>"

lemma sample_providers: "providers_answer sample_chain_lib"
  by (simp add: providers_answer_def sample_chain_lib_def)

lemma sample_tx_step:
  assumes "ls_info st = execution_info_new" "ls_db st = 0" "ls_shared st = spawn_shared default_config"
    and "fst (transact_maybe_gasless (sample_bcx b) sample_world co 0 sample_tx (ls_inspector st)) =
      Inr (\<lparr>er_success = True, er_gas_used = 21000, er_logs = []\<rparr>, 1, False, oc)"
    and "b \<Longrightarrow> oc = CoComplete logs" "tl_block_gas lim = 60000" "tl_block_da lim = Some 5000"
  shows "\<exists>st'. tx_step E (sample_bcx b) sample_world co lim sample_iteration sample_tx st = Continue st' \<and>
    ei_executed_transactions (ls_info st') = [sample_tx] \<and> ei_optional_blob_fields (ls_info st') = None \<and> ls_best st' = ls_best st"
proof -
  obtain i where t: "transact_maybe_gasless (sample_bcx b) sample_world co 0 sample_tx (ls_inspector st) =
      (Inr (\<lparr>er_success = True, er_gas_used = 21000, er_logs = []\<rparr>, 1, False, oc), i)"
    using assms(4) by (metis prod.collapse)
  have u: "\<not> unfit (sample_bcx b) sample_world lim execution_info_new sample_tx"
    using assms(6,7) by (simp add: unfit_def sample_bcx_def sample_cx_def sample_tx_def execution_info_new_def is_tx_over_limits_def
        saturating_add_def usize_max_def Let_def)
  have v: "pre_verdict (sample_bcx b) execution_info_new sample_tx (spawn_shared default_config) = VPass"
    by (simp add: pre_verdict_def pre_screen_def sample_no_rules execution_info_new_def)
  show ?thesis
    using assms u v t
    by (cases b) (auto simp: tx_step_def sample_iteration_def Let_def after_execution_def over_max_gas_def over_gasless_budget_def sample_bcx_def
        sample_cx_def intercept_bridge_transaction_if_need_def screen_candidate_def sample_screen execution_info_new_def commit_tx_def push_executed_def)
qed

lemma sample_transact:
  "fst (transact_maybe_gasless (sample_bcx b) sample_world noop_ops 0 sample_tx ()) =
     Inr (\<lparr>er_success = True, er_gas_used = 21000, er_logs = []\<rparr>, 1, False, CoPassthrough)"
  "\<exists>logs. fst (transact_maybe_gasless (sample_bcx b) sample_world (rcs_ops E C) 0 sample_tx (rcs_inspector_new 10000)) =
     Inr (\<lparr>er_success = True, er_gas_used = 21000, er_logs = []\<rparr>, 1, False, CoComplete logs)"
proof -
  show "fst (transact_maybe_gasless (sample_bcx b) sample_world noop_ops 0 sample_tx ()) =
     Inr (\<lparr>er_success = True, er_gas_used = 21000, er_logs = []\<rparr>, 1, False, CoPassthrough)"
    by (simp add: transact_maybe_gasless_def is_gasless_def sample_bcx_def sample_cx_def sample_world_def sample_tx_def guarded_transact_def
        noop_ops_def noop_start_def noop_finish_def)
  show "\<exists>logs. fst (transact_maybe_gasless (sample_bcx b) sample_world (rcs_ops E C) 0 sample_tx (rcs_inspector_new 10000)) =
     Inr (\<lparr>er_success = True, er_gas_used = 21000, er_logs = []\<rparr>, 1, False, CoComplete logs)"
    using sample_finish [of E C]
    by (auto simp: transact_maybe_gasless_def is_gasless_def sample_bcx_def sample_cx_def sample_world_def sample_tx_def)
qed

lemma sample_run_tx_loop:
  assumes "bt_inner best = [sample_tx]" "bt_commited_transactions best = []" "tl_block_gas lim = 60000" "tl_block_da lim = Some 5000"
    and "fst (transact_maybe_gasless (sample_bcx b) sample_world co 0 sample_tx i) =
      Inr (\<lparr>er_success = True, er_gas_used = 21000, er_logs = []\<rparr>, 1, False, oc)" "b \<Longrightarrow> oc = CoComplete logs"
  shows "\<exists>st'. run_tx_loop E (sample_bcx b) sample_world co lim (\<lambda>_. sample_iteration)
      (start_state execution_info_new 0 i (spawn_shared default_config) best pool) = Some (Continue st') \<and> ei_executed_transactions (ls_info st') = [sample_tx] \<and>
      ei_optional_blob_fields (ls_info st') = None"
proof -
  have nx: "best_next best = Some (sample_tx, best\<lparr>bt_inner := []\<rparr>)" "best_next (best\<lparr>bt_inner := []\<rparr>) = None"
    using assms(1,2) by (simp_all add: best_next_def)
  let ?st = "start_state execution_info_new (0 :: nat) i (spawn_shared default_config) best pool"
  let ?st1 = "?st\<lparr>ls_best := best\<lparr>bt_inner := []\<rparr>, ls_considered := ls_considered ?st + 1\<rparr>"
  obtain st' where s: "tx_step E (sample_bcx b) sample_world co lim sample_iteration sample_tx ?st1 = Continue st'"
    "ei_executed_transactions (ls_info st') = [sample_tx]" "ei_optional_blob_fields (ls_info st') = None" "ls_best st' = best\<lparr>bt_inner := []\<rparr>"
    using sample_tx_step [of ?st1 b co oc logs lim E] assms by auto
  have "run_tx_loop E (sample_bcx b) sample_world co lim (\<lambda>_. sample_iteration) ?st =
      run_tx_loop E (sample_bcx b) sample_world co lim (\<lambda>_. sample_iteration) st'"
    by (rule run_tx_loop_continue) (use nx(1) s(1) in simp_all)
  with run_tx_loop_stop [of st'] nx(2) s(2-4) show ?thesis by simp
qed

lemma sample_packages:
  assumes "bt_inner best = [sample_tx]" "bt_commited_transactions best = []" "tl_block_gas lim = 60000" "tl_block_da lim = Some 5000"
  shows "\<exists>res. execute_best_transactions E C (sample_bcx b) sample_world lim (\<lambda>_. sample_iteration) execution_info_new 0 (spawn_shared default_config) best pool
      = Some res \<and> lr_end res = Finished \<and> ei_executed_transactions (lr_info res) = [sample_tx] \<and> ei_optional_blob_fields (lr_info res) = None"
proof -
  show ?thesis
  proof (cases b)
    case True
    then have f: "cx_filter (sample_bcx b)" by (simp add: sample_bcx_def)
    have m: "fc_max_native_transfers_per_tx (sh_config (spawn_shared default_config)) = 10000" by (simp add: spawn_shared_def default_config_def)
    obtain logs where "fst (transact_maybe_gasless (sample_bcx b) sample_world (rcs_ops E C) 0 sample_tx (rcs_inspector_new 10000)) =
        Inr (\<lparr>er_success = True, er_gas_used = 21000, er_logs = []\<rparr>, 1, False, CoComplete logs)" using sample_transact(2) by blast
    from sample_run_tx_loop [OF assms this refl, of E pool] obtain st' where
      "run_tx_loop E (sample_bcx b) sample_world (rcs_ops E C) lim (\<lambda>_. sample_iteration)
        (start_state execution_info_new 0 (rcs_inspector_new 10000) (spawn_shared default_config) best pool) = Some (Continue st')"
      "ei_executed_transactions (ls_info st') = [sample_tx]" "ei_optional_blob_fields (ls_info st') = None" by blast
    with f show ?thesis by (simp add: execute_best_transactions_def m loop_result_of_def Let_def)
  next
    case False
    then have f: "\<not> cx_filter (sample_bcx b)" by (simp add: sample_bcx_def)
    from sample_run_tx_loop [OF assms sample_transact(1), where b = b and E = E and pool = pool and logs = "[]"] False obtain st' where
      "run_tx_loop E (sample_bcx b) sample_world noop_ops lim (\<lambda>_. sample_iteration)
        (start_state execution_info_new 0 () (spawn_shared default_config) best pool) = Some (Continue st')"
      "ei_executed_transactions (ls_info st') = [sample_tx]" "ei_optional_blob_fields (ls_info st') = None" by blast
    with f show ?thesis by (simp add: execute_best_transactions_def loop_result_of_def Let_def)
  qed
qed

text \<open>A round in which everything succeeds, for a builder without transactions of its own.\<close>

lemma build_next_flashblock_ok:
  assumes "execute_best_transactions E C cx w (flashblock_limits cx (bs_fb bs) (ei_da_footprint_scalar (bs_info bs)) []) (fr_its rd) (bs_info bs) (bs_db bs)
      (bs_shared bs) (refresh_iterator (fr_best rd) (fs_flashblock_index (bs_fb bs)) (bs_best bs)) (fr_tx_pool rd) = Some res"
    and "lr_end res = Finished" "slice_from (fs_last_flashblock_tx_index (bs_fb bs)) (ei_executed_transactions (lr_info res)) = Some txs"
    and "\<not> fr_block_cancelled rd" "fr_ws_ok rd" "fr_p2p_ok rd"
    and "build_block cx ch pl (lr_info res) (lr_db res) (Some (bs_fb bs)) (\<not> fs_disable_state_root (bs_fb bs) \<or> pl_no_tx_pool pl) = Inr (p, m, fb)"
  shows "\<exists>fs bs'. build_next_flashblock E C cx w L ch (BaseTx None) pl rd bs = Some (RoundNext fs, bs') \<and>
    bs_p2p bs' = bs_p2p bs @ [m\<lparr>of_index := fs_flashblock_index (bs_fb bs), of_base := None\<rparr>] \<and>
    bs_ws bs' = bs_ws bs @ [m\<lparr>of_index := fs_flashblock_index (bs_fb bs), of_base := None\<rparr>] \<and> fst (bs_best_payload bs') = p"
  using assms(7) by (simp add: build_next_flashblock_def Let_def assms(1-6) seal_flashblock_def)

text \<open>The whole build: the base flashblock is empty, the next one has the transaction.\<close>

lemma sample_build:
  obtains out p m0 m1 where
    "build_payload E C (sample_bcx b) sample_world sample_builder_lib sample_chain_lib (BaseTx None) sample_build_config sample_pl sample_env = Some out"
    "bo_cell out = Some p" "ob_transactions p = [sample_tx]" "bo_p2p out = [m0, m1]" "bo_ws out = [m0, m1]"
    "fd_transactions (of_diff m0) = []" "fd_transactions (of_diff m1) = [sample_tx]"
proof -
  let ?cx = "sample_bcx b" and ?ch = sample_chain_lib and ?w = sample_world
  let ?fs = "flashblocks_state_new (flashblocks_per_block (bg_block_time sample_build_config) (bg_flashblocks sample_build_config))
    (bg_disable_state_root sample_build_config) :: unit flashblocks_state"
  have pre: "and_then (map_sum ProviderFailed id (en_parent_state sample_env)) (execute_pre_steps ?cx ?w ?ch sample_pl) = Inr (execution_info_new, 0)"
    by (simp add: and_then_def sample_env_def execute_pre_steps_def sample_chain_lib_def sample_pl_def execute_sequencer_transactions_def sample_bcx_def
        execution_info_new_def)
  have c: "cached_txs ?cx sample_pl sample_env = None" by (simp add: cached_txs_def get_flashblocks_sequence_txs_def sample_env_def)
  have f: "fallback_base E ?cx ?w sample_builder_lib (BaseTx None) sample_pl sample_env ?fs execution_info_new 0 = (execution_info_new, 0)"
    by (simp add: fallback_base_def c)
  have conf: "cx_block_number ?cx = pl_parent_number sample_pl + 1" "\<And>info. ei_optional_blob_fields info = None \<Longrightarrow> blob_fields ?cx info \<noteq> None"
    "pl_extra_data sample_pl = Inr []" "pl_parent_beacon_block_root sample_pl \<noteq> None"
    by (simp_all add: sample_bcx_def sample_cx_def sample_pl_def blob_fields_def)
  obtain fallback m0 fb where bb: "build_block ?cx ?ch sample_pl execution_info_new 0 (Some ?fs) True = Inr (fallback, m0, fb)"
    using build_block_succeeds [OF sample_providers conf(1) _ conf(3,4), of execution_info_new ?fs 0 True] conf(2)
    by (auto simp: flashblocks_state_new_def execution_info_new_def)
  have sched: "\<exists>sc. scheduler_from_reference (bg_flashblocks sample_build_config) (bg_block_time sample_build_config) (cx_timestamp ?cx) (en_now sample_env) = Some sc \<and>
      sc_target_flashblocks sc = 1"
    by (simp add: scheduler_from_reference_def sample_build_config_def sample_bcx_def sample_cx_def sample_env_def compute_remaining_time_def Let_def
        from_secs_def as_millis_def div_ceil_def compute_scheduler_intervals_def calculate_first_flashblock_timing_def)
  let ?start = "rounds_start ?cx sample_env 1 execution_info_new 0 fallback m0 (the fb)"
  have fb: "fs_last_flashblock_tx_index (bs_fb ?start) = 0" "fs_flashblock_index (bs_fb ?start) = 1" "fs_target_flashblock_count (bs_fb ?start) = 1"
    "fs_target_gas_for_batch (bs_fb ?start) = 60000" "fs_target_da_for_batch (bs_fb ?start) = Some 5000"
    using build_block_Inr(8) [OF bb]
    by (auto simp: rounds_start_def first_batch_def with_batch_limits_def execution_info_new_def block_gas_limit_def sample_bcx_def sample_cx_def Let_def)
  obtain res where res: "execute_best_transactions E C ?cx ?w (flashblock_limits ?cx (bs_fb ?start) None []) (fr_its sample_round) execution_info_new 0
      (spawn_shared default_config) (refresh_iterator [sample_tx] 1 (best_txs_new [])) [7] = Some res"
    "lr_end res = Finished" "ei_executed_transactions (lr_info res) = [sample_tx]" "ei_optional_blob_fields (lr_info res) = None"
    using sample_packages [of "refresh_iterator [sample_tx] 1 (best_txs_new [])" "flashblock_limits ?cx (bs_fb ?start) None []" E C b "[7]"] fb
    by (auto simp: refresh_iterator_def best_txs_new_def flashblock_limits_def batch_da_def reserved_gas_def reserved_da_def block_gas_limit_def
        sample_bcx_def sample_cx_def sample_round_def)
  obtain p m fb2 where b2: "build_block ?cx ?ch sample_pl (lr_info res) (lr_db res) (Some (bs_fb ?start)) True = Inr (p, m, fb2)"
    using build_block_succeeds [OF sample_providers conf(1) conf(2) [OF res(4)] conf(3,4) fb(1)] by blast
  let ?m1 = "m\<lparr>of_index := 1, of_base := None\<rparr>"
  have st: "bs_info ?start = execution_info_new" "bs_db ?start = 0" "bs_shared ?start = spawn_shared default_config" "bs_best ?start = best_txs_new []"
    "bs_ws ?start = [m0]" "bs_p2p ?start = [m0]" "ei_da_footprint_scalar execution_info_new = None"
    by (simp_all add: rounds_start_def sample_env_def execution_info_new_def)
  have d: "fs_disable_state_root (bs_fb ?start) = False"
    using build_block_Inr(8) [OF bb] by (auto simp: rounds_start_def first_batch_def with_batch_limits_def flashblocks_state_new_def sample_build_config_def Let_def)
  have calc: "(\<not> fs_disable_state_root (bs_fb ?start) \<or> pl_no_tx_pool sample_pl) = True" using d by simp
  have rd: "fr_best sample_round = [sample_tx]" "fr_tx_pool sample_round = [7]" "\<not> fr_block_cancelled sample_round" "fr_ws_ok sample_round" "fr_p2p_ok sample_round"
    by (simp_all add: sample_round_def)
  obtain fs bs where r: "build_next_flashblock E C ?cx ?w sample_builder_lib ?ch (BaseTx None) sample_pl sample_round ?start = Some (RoundNext fs, bs)"
    "bs_p2p bs = [m0, ?m1]" "bs_ws bs = [m0, ?m1]" "fst (bs_best_payload bs) = p"
    using build_next_flashblock_ok [of E C ?cx ?w ?start sample_round res "[sample_tx]" ?ch sample_pl p m fb2 sample_builder_lib,
        unfolded st rd(1,2) fb(1,2) calc, OF res(1,2) _ rd(3-5) b2] res(3)
    by (auto simp: slice_from_def)
  have rounds: "build_rounds E C ?cx ?w sample_builder_lib ?ch (BaseTx None) sample_pl (en_rounds sample_env) ?start = Some (None, bs\<lparr>bs_fb := fs\<rparr>)"
    using r(1) fb(2,3) by (simp add: sample_env_def)
  let ?out = "finished_build sample_build_config sample_env ?ch None (bs_best_payload bs) fallback (bs_ws bs) (bs_p2p bs)"
  obtain sc where sc: "scheduler_from_reference (bg_flashblocks sample_build_config) (bg_block_time sample_build_config) (cx_timestamp ?cx) (en_now sample_env) = Some sc"
    "sc_target_flashblocks sc = 1" using sched by blast
  have ok: "en_p2p_ok sample_env" "en_ws_ok sample_env" "\<not> pl_no_tx_pool sample_pl" by (simp_all add: sample_env_def sample_pl_def)
  have out: "build_payload E C ?cx ?w sample_builder_lib ?ch (BaseTx None) sample_build_config sample_pl sample_env = Some ?out"
    unfolding build_payload_def Let_def pre sum.case prod.case f bb
    using rounds by (simp add: c ok sc rounds_start_def)
  have cell: "bo_cell ?out = Some p"
    using r(4) by (simp add: resolve_best_payload_def sample_build_config_def split: sum.split)
  show thesis
  proof (rule that [OF out cell])
    show "ob_transactions p = [sample_tx]" using build_block_Inr(1) [OF b2] res(3) by simp
    show "bo_p2p ?out = [m0, ?m1]" "bo_ws ?out = [m0, ?m1]" using r(2,3) by simp_all
    show "fd_transactions (of_diff m0) = []" using build_block_Inr(7) [OF bb] by (simp add: execution_info_new_def)
    show "fd_transactions (of_diff ?m1) = [sample_tx]" using build_block_Inr(7) [OF b2] fb(1) res(3) by simp
  qed
qed

definition sample_output :: "bool \<Rightarrow> unit build_output option" where
  "sample_output b = build_payload sample_ext (\<lambda>_ _. 0) (sample_bcx b) sample_world sample_builder_lib sample_chain_lib (BaseTx None)
     sample_build_config sample_pl sample_env"

lemma sample_output:
  obtains out p m0 m1 where "sample_output b = Some out" "bo_cell out = Some p" "ob_transactions p = [sample_tx]" "bo_p2p out = [m0, m1]" "bo_ws out = [m0, m1]"
    "fd_transactions (of_diff m0) = []" "fd_transactions (of_diff m1) = [sample_tx]"
  unfolding sample_output_def by (rule sample_build)

lemma sample_no_cache: "cached_txs cx sample_pl sample_env = None"
  by (simp add: cached_txs_def get_flashblocks_sequence_txs_def sample_env_def)

theorem flashblocks_add_up_to_block_witness:
  "\<exists>out p. sample_output False = Some out \<and> bo_cell out = Some p \<and> ob_transactions p = [sample_tx] \<and>
     map of_index (bo_p2p out) = [0, 1] \<and> ob_transactions p = all_transactions (bo_p2p out)"
proof -
  obtain out p m0 m1 where s: "sample_output False = Some out" "bo_cell out = Some p" "ob_transactions p = [sample_tx]" "bo_p2p out = [m0, m1]"
    by (rule sample_output)
  have "\<not> bg_disable_async_calculate_state_root sample_build_config" by (simp add: sample_build_config_def)
  with flashblocks_add_up_to_block [OF s(1) [unfolded sample_output_def] s(2)] s show ?thesis by (auto simp: sample_no_cache)
qed

end
