(* ===== verification/Flashblock_Failover.thy ===== *)
theory Flashblock_Failover
  imports Flashblock_Builder
begin

text \<open>
  Taking over a block: the builder that received another one's flashblocks replays them
  (\<open>builder.rs\<close> with \<open>cache.rs\<close> and \<open>execute_cached_flashblocks_transactions\<close>). The limits of a
  flashblock never allow more than those of the block, so the replay reaches the state of the builder
  that executed them. The last section carries a predicate of transactions through a whole build.
\<close>

section \<open>Batch limits\<close>

text \<open>
  The targets after \<open>k\<close> batches: gas is \<open>k\<close> shares of the block's, the others are at most that.
\<close>

definition batch_inv :: "builder_ctx \<Rightarrow> 'u flashblocks_state \<Rightarrow> bool" where
  "batch_inv cx fs \<longleftrightarrow>
     (let n = fs_target_flashblock_count fs; k = fs_flashblock_index fs; share = block_gas_limit cx div n in
      fs_gas_per_batch fs = share \<and> fs_target_gas_for_batch fs = k * share \<and>
      fs_da_per_batch fs = map_option (\<lambda>d. d div n) (cx_block_da_limit cx) \<and>
      (case cx_block_da_limit cx of None \<Rightarrow> True | Some d \<Rightarrow> (case fs_target_da_for_batch fs of None \<Rightarrow> False | Some d' \<Rightarrow> d' \<le> k * (d div n))) \<and>
      (case fs_da_footprint_per_batch fs of None \<Rightarrow> True | Some l \<Rightarrow> l = share) \<and>
      (case fs_target_da_footprint_for_batch fs of None \<Rightarrow> True | Some f \<Rightarrow> f \<le> k * share))"

lemma batch_inv_first: "batch_inv cx (first_batch cx info n fs)"
  by (simp add: batch_inv_def first_batch_def with_batch_limits_def Let_def split: option.split)

lemma share_le: "k \<le> n \<Longrightarrow> k * (l div n) \<le> (l :: nat)"
  by (metis div_mult_self1_is_m div_times_less_eq_dividend dual_order.trans mult.commute mult_le_mono1)

lemma flashblock_limits_nested:
  assumes "batch_inv cx fs" "fs_flashblock_index fs \<le> fs_target_flashblock_count fs"
  shows "limits_nested cx (flashblock_limits cx fs scalar builder_txs)"
proof -
  let ?n = "fs_target_flashblock_count fs" and ?k = "fs_flashblock_index fs"
  have da: "\<exists>d'. fs_target_da_for_batch fs = Some d' \<and> d' \<le> d" if "cx_block_da_limit cx = Some d" for d
    using assms share_le [OF assms(2), of d] that by (auto simp: batch_inv_def Let_def split: option.splits)
  have fp: "f \<le> block_gas_limit cx" if "fs_target_da_footprint_for_batch fs = Some f" for f
    using assms(1) share_le [OF assms(2), of "block_gas_limit cx"] that by (auto simp: batch_inv_def Let_def)
  show ?thesis
    unfolding limits_nested_def flashblock_limits_def batch_da_def batch_footprint_def
    using da fp by (fastforce simp: split: option.split)
qed

lemma batch_inv_advance:
  assumes "batch_inv cx fs" "fs' = fs\<lparr>fs_prev_trie_updates := t, fs_last_flashblock_tx_index := i\<rparr>"
  shows "batch_inv cx (advance (batch_da fs builder_txs) (batch_footprint fs scalar builder_txs) fs')"
  using assms(1) unfolding assms(2)
  by (auto simp: batch_inv_def advance_def next_state_def batch_da_def batch_footprint_def Let_def split: option.splits)

section \<open>Failover\<close>

text \<open>What a payload records of an execution.\<close>

definition records :: "'u built_payload \<Rightarrow> execution_info \<Rightarrow> bool" where
  "records p info \<longleftrightarrow> ob_transactions p = ei_executed_transactions info \<and> ob_senders p = ei_executed_senders info \<and>
     ob_receipts p = ei_receipts info \<and> ob_fees p = ei_total_fees info \<and> hd_gas_used (ob_header p) = ei_cumulative_gas_used info"

lemma build_block_records:
  assumes "build_block cx ch pl info db fb calc = Inr (p, msg, fb')"
  shows "records p info"
  by (rule build_block_Inr_fields [OF assms]) (simp add: records_def block_header_def)

lemma records_forget [simp]: "records p (forget_gasless b info) = records p info"
  by (simp add: records_def forget_gasless_def)

lemma forget_forget [simp]: "forget_gasless b (forget_gasless b' info) = forget_gasless b info"
  by (simp add: forget_gasless_def)

lemma over_block_limits_forget [simp]: "over_block_limits cx (forget_gasless b info) tx = over_block_limits cx info tx"
  unfolding over_block_limits_def is_tx_over_limits_def by (simp add: forget_gasless_def split del: if_split cong: if_cong)

lemma push_executed_forget:
  "push_executed cx w tx r da n f (forget_gasless b info) = forget_gasless b (push_executed cx w tx r da n f info)"
  by (simp add: push_executed_def forget_gasless_def Let_def)

text \<open>Replaying neither reads nor changes the gasless accounting.\<close>

lemma cached_forget:
  "execute_cached_flashblocks_transactions cx w txs (forget_gasless b info) db =
     (case execute_cached_flashblocks_transactions cx w txs info db of (e, info', db') \<Rightarrow> (e, forget_gasless b info', db'))"
  by (induction txs arbitrary: info db) (auto simp: push_executed_forget split: sum.split prod.split)

lemma cached_fixed:
  assumes "execute_cached_flashblocks_transactions cx w txs info db = (e, info', db')"
  shows "ei_da_footprint_scalar info' = ei_da_footprint_scalar info \<and> ei_optional_blob_fields info' = ei_optional_blob_fields info \<and>
    ei_cumulative_da_bytes_used info \<le> ei_cumulative_da_bytes_used info'"
  using assms
proof (induction cx w txs info db rule: execute_cached_flashblocks_transactions.induct)
  case (2 cx w tx txs info db)
  then show ?case by (fastforce simp: push_executed_def Let_def split: sum.splits if_splits prod.splits)
qed simp

text \<open>
  Replaying the flashblocks after the base one from the record and database of the base one gives
  what the best payload records.
\<close>

definition replayable :: "builder_ctx \<Rightarrow> 'd world \<Rightarrow> execution_info \<Rightarrow> 'd \<Rightarrow> ('d, 'u) block_state \<Rightarrow> execution_info \<Rightarrow> bool" where
  "replayable cx w info0 db0 bs info \<longleftrightarrow> records (fst (bs_best_payload bs)) info \<and>
     execute_cached_flashblocks_transactions cx w (all_transactions (tl (bs_p2p bs))) info0 db0 =
       (None, forget_gasless info0 info, snd (bs_best_payload bs))"

lemma replayable_cong:
  "bs_best_payload bs' = bs_best_payload bs \<Longrightarrow> bs_p2p bs' = bs_p2p bs \<Longrightarrow> replayable cx w info0 db0 bs' info = replayable cx w info0 db0 bs info"
  by (simp add: replayable_def)

lemma seal_flashblock_replayable:
  assumes seal: "seal_flashblock cx ch pl rd da footprint bs = (r, bs')" and "in_step pl bs" "replayable cx w info0 db0 bs info"
    and txs: "ei_executed_transactions (bs_info bs) = all_transactions (bs_p2p bs) @ txs"
      "fs_last_flashblock_tx_index (bs_fb bs) = length (all_transactions (bs_p2p bs))"
    and run: "execute_cached_flashblocks_transactions cx w txs info (snd (bs_best_payload bs)) = (None, forget_gasless info (bs_info bs), bs_db bs)"
  shows "case r of
      RoundNext fs \<Rightarrow> replayable cx w info0 db0 bs' (bs_info bs') \<and> snd (bs_best_payload bs') = bs_db bs' \<and>
        (\<exists>t i. fs = advance da footprint ((bs_fb bs)\<lparr>fs_prev_trie_updates := t, fs_last_flashblock_tx_index := i\<rparr>))
    | _ \<Rightarrow> replayable cx w info0 db0 bs' info"
proof (cases "build_block cx ch pl (bs_info bs) (bs_db bs) (Some (bs_fb bs)) (\<not> fs_disable_state_root (bs_fb bs) \<or> pl_no_tx_pool pl)")
  case (Inl e)
  with assms show ?thesis by (auto simp: seal_flashblock_def)
next
  case (Inr res)
  obtain p msg fb where res: "res = (p, msg, fb)" by (cases res)
  note b = build_block_Inr [OF Inr [unfolded res]]
  obtain t where fb: "fb = Some ((bs_fb bs)\<lparr>fs_prev_trie_updates := t, fs_last_flashblock_tx_index := length (ei_executed_transactions (bs_info bs))\<rparr>)"
    using b(8) by blast
  let ?m = "msg\<lparr>of_index := fs_flashblock_index (bs_fb bs), of_base := None\<rparr>"
  have m: "fd_transactions (of_diff msg) = txs" using b(7) txs by simp
  obtain m0 ms where p2p: "bs_p2p bs = m0 # ms" using assms(2) by (cases "bs_p2p bs") (auto simp: in_step_def)
  have all: "all_transactions (tl (bs_p2p bs @ [?m])) = all_transactions (tl (bs_p2p bs)) @ txs" by (simp add: all_transactions_def m p2p)
  have "execute_cached_flashblocks_transactions cx w (all_transactions (tl (bs_p2p bs @ [?m]))) info0 db0 =
      (None, forget_gasless info0 (bs_info bs), bs_db bs)"
    using assms(3) run by (simp add: all cached_append replayable_def cached_forget)
  with build_block_records [OF Inr [unfolded res]]
  have next_ok: "replayable cx w info0 db0 (bs\<lparr>bs_fb := f, bs_ws := ws, bs_p2p := bs_p2p bs @ [?m], bs_best_payload := (p, bs_db bs)\<rparr>) (bs_info bs)" for f ws
    by (simp add: replayable_def)
  show ?thesis
  proof (cases "fr_ws_ok rd \<and> fr_p2p_ok rd")
    case True
    with seal Inr res have r: "r = RoundNext (advance da footprint (the fb))"
      "bs' = bs\<lparr>bs_fb := the fb, bs_ws := bs_ws bs @ [?m], bs_p2p := bs_p2p bs @ [?m], bs_best_payload := (p, bs_db bs)\<rparr>"
      by (auto simp: seal_flashblock_def Let_def)
    with next_ok fb show ?thesis by auto
  next
    case False
    with assms(1,3) Inr res show ?thesis by (auto simp: seal_flashblock_def Let_def replayable_def split: if_splits)
  qed
qed

text \<open>One round of a builder without transactions of its own.\<close>

lemma build_next_flashblock_replayable:
  assumes next_fb: "build_next_flashblock E C cx w L ch (BaseTx None) pl rd bs = Some (r, bs')" and "in_step pl bs" "at_head bs"
    and "replayable cx w info0 db0 bs (bs_info bs)" "snd (bs_best_payload bs) = bs_db bs"
    and "batch_inv cx (bs_fb bs)" "fs_flashblock_index (bs_fb bs) \<le> fs_target_flashblock_count (bs_fb bs)"
  shows "case r of
      RoundNext fs \<Rightarrow> replayable cx w info0 db0 bs' (bs_info bs') \<and> snd (bs_best_payload bs') = bs_db bs' \<and> batch_inv cx fs
    | _ \<Rightarrow> replayable cx w info0 db0 bs' (bs_info bs)"
proof -
  let ?fs = "bs_fb bs" and ?sc = "ei_da_footprint_scalar (bs_info bs)"
  obtain res where res: "execute_best_transactions E C cx w (flashblock_limits cx ?fs ?sc []) (fr_its rd) (bs_info bs) (bs_db bs) (bs_shared bs)
      (refresh_iterator (fr_best rd) (fs_flashblock_index ?fs) (bs_best bs)) (fr_tx_pool rd) = Some res"
    using next_fb by (auto simp: build_next_flashblock_def Let_def split: option.splits)
  obtain txs where txs: "ei_executed_transactions (lr_info res) = ei_executed_transactions (bs_info bs) @ txs"
    "execute_cached_flashblocks_transactions cx w txs (bs_info bs) (bs_db bs) = (None, forget_gasless (bs_info bs) (lr_info res), lr_db res)"
    using execute_best_replays [OF res flashblock_limits_nested [OF assms(6,7)]] by blast
  let ?bs1 = "bs\<lparr>bs_info := lr_info res, bs_db := lr_db res, bs_shared := lr_shared res, bs_best := lr_best res\<rparr>"
  have keep: "replayable cx w info0 db0 ?bs1 (bs_info bs)" "replayable cx w info0 db0 (?bs1\<lparr>bs_best := b\<rparr>) (bs_info bs)" for b
    using assms(4) by (simp_all add: replayable_def)
  have slice: "slice_from (fs_last_flashblock_tx_index ?fs) (ei_executed_transactions (lr_info res)) = Some txs"
    using assms(3) txs(1) by (simp add: slice_from_def at_head_def)
  show ?thesis
  proof (cases "lr_end res = EvmFailed \<or> fr_block_cancelled rd")
    case True
    with next_fb keep show ?thesis by (auto simp: build_next_flashblock_def Let_def res slice split: if_splits)
  next
    case False
    let ?bs2 = "?bs1\<lparr>bs_best := mark_commited (map px_hash txs) (lr_best res)\<rparr>"
    have s: "seal_flashblock cx ch pl rd (batch_da ?fs []) (batch_footprint ?fs ?sc []) ?bs2 = (r, bs')"
      using next_fb False by (simp add: build_next_flashblock_def Let_def res slice)
    have "case r of
      RoundNext fs \<Rightarrow> replayable cx w info0 db0 bs' (bs_info bs') \<and> snd (bs_best_payload bs') = bs_db bs' \<and>
        (\<exists>t i. fs = advance (batch_da ?fs []) (batch_footprint ?fs ?sc []) ((bs_fb ?bs2)\<lparr>fs_prev_trie_updates := t, fs_last_flashblock_tx_index := i\<rparr>))
    | _ \<Rightarrow> replayable cx w info0 db0 bs' (bs_info bs)"
      by (rule seal_flashblock_replayable [OF s]) (use assms(2-5) txs in \<open>simp_all add: in_step_def at_head_def replayable_def\<close>)
    then show ?thesis using batch_inv_advance [OF assms(6)] by (cases r) auto
  qed
qed

lemma build_rounds_replayable:
  assumes "build_rounds E C cx w L ch (BaseTx None) pl rds bs = Some (err, bs')" "in_step pl bs" "at_head bs"
    and "replayable cx w info0 db0 bs (bs_info bs)" "snd (bs_best_payload bs) = bs_db bs" "batch_inv cx (bs_fb bs)"
  shows "\<exists>info. replayable cx w info0 db0 bs' info"
  using assms
proof (induction rds arbitrary: bs)
  case (Cons rd rds)
  show ?case
  proof (cases "fs_flashblock_index (bs_fb bs) > fs_target_flashblock_count (bs_fb bs)")
    case False
    with Cons.prems(1) obtain r bs1 where r: "build_next_flashblock E C cx w L ch (BaseTx None) pl rd bs = Some (r, bs1)"
      by (auto split: option.splits)
    note step = build_next_flashblock_step [OF r Cons.prems(2,3)]
    have rep: "case r of
      RoundNext fs \<Rightarrow> replayable cx w info0 db0 bs1 (bs_info bs1) \<and> snd (bs_best_payload bs1) = bs_db bs1 \<and> batch_inv cx fs
    | _ \<Rightarrow> replayable cx w info0 db0 bs1 (bs_info bs)"
      using build_next_flashblock_replayable [OF r Cons.prems(2-6)] False by simp
    show ?thesis
    proof (cases r)
      case (RoundNext fs)
      with Cons.prems(1) False r have n: "build_rounds E C cx w L ch (BaseTx None) pl rds (bs1\<lparr>bs_fb := fs\<rparr>) = Some (err, bs')" by simp
      show ?thesis
        by (rule Cons.IH [OF n]) (use step rep RoundNext in \<open>simp_all add: in_step_def replayable_def\<close>)
    qed (use Cons.prems(1) False r rep in auto)
  qed (use Cons.prems in auto)
qed auto

lemma recover_all_recover_tx: "list_all px_recovers txs \<Longrightarrow> recover_all recover_tx txs = Some txs"
  by (induction txs) (simp_all add: recover_tx_def)

lemma received_sequence:
  assumes "proper_sequence pl ms" "ms \<noteq> []" "mset rs = mset ms" "list_all px_recovers (all_transactions ms)"
    and "\<And>sq. pc_inner c = Some sq \<Longrightarrow> ps_payload_id sq \<noteq> pl_payload_id pl"
  shows "get_flashblocks_sequence_txs recover_tx (pl_parent_hash pl) (fold add_flashblock_payload (map cached_view rs) c) =
    Some (all_transactions (tl ms))"
proof -
  let ?txs = "\<lambda>i. fd_transactions (of_diff (ms ! i))"
  have set: "set rs = set ms" using assms(3) by (metis set_mset_mset)
  have idx: "map of_index ms = [0..<length ms]" using assms(1) by (simp add: proper_sequence_def)
  have idx_rs: "mset (map of_index rs) = mset [0..<length ms]" using assms(3) idx by (metis mset_map)
  have cv: "map fp_index (map cached_view rs) = map of_index rs" by (simp add: cached_view_def)
  have "get_flashblocks_sequence_txs recover_tx (pl_parent_hash pl) (fold add_flashblock_payload (map cached_view rs) c) =
      Some (concat (map ?txs [1..<length ms]))"
  proof (rule sequence_txs_any_order [where i = "pl_payload_id pl"])
    show "distinct (map fp_index (map cached_view rs))" using idx_rs unfolding cv by (metis distinct_upt mset_eq_imp_distinct_iff)
    show "set (map fp_index (map cached_view rs)) = {0..<length ms}" using idx_rs unfolding cv by (metis set_mset_mset set_upt)
    show "0 < length ms" using assms(2) by simp
    show "\<And>sq. pc_inner c = Some sq \<Longrightarrow> ps_payload_id sq \<noteq> pl_payload_id pl" by (rule assms(5))
    fix q
    assume "q \<in> set (map cached_view rs)"
    then obtain k where k: "k < length ms" "q = cached_view (ms ! k)" using set by (auto simp: in_set_conv_nth)
    have i: "of_index (ms ! k) = k" using idx k(1) by (metis add_0 nth_map nth_upt)
    have b: "map_option fbb_parent_hash (of_base (ms ! k)) = (if k = 0 then Some (pl_parent_hash pl) else None)"
      using arg_cong [OF conjunct2 [OF conjunct2 [OF assms(1) [unfolded proper_sequence_def]]], of "\<lambda>xs. xs ! k"] k(1) by simp
    have "list_all px_recovers (?txs k)" using assms(4) k(1) by (auto simp: all_transactions_def list_all_iff)
    with assms(1) k i b show "fp_payload_id q = pl_payload_id pl \<and> fp_parent_hash q = (if fp_index q = 0 then Some (pl_parent_hash pl) else None) \<and>
        recover_all recover_tx (fp_transactions q) = Some (?txs (fp_index q))"
      by (simp add: cached_view_def proper_sequence_def list_all_length recover_all_recover_tx)
  qed
  also have "concat (map ?txs [1..<length ms]) = all_transactions (tl ms)"
  proof -
    have "map ?txs [1..<length ms] = map (\<lambda>m. fd_transactions (of_diff m)) (map ((!) ms) [1..<length ms])" by simp
    also have "map ((!) ms) [1..<length ms] = tl ms" by (rule nth_equalityI) (simp_all add: nth_tl)
    finally show ?thesis by (simp add: all_transactions_def)
  qed
  finally show ?thesis .
qed

lemma blob_fields_defined:
  "blob_fields cx info \<noteq> None \<Longrightarrow> ei_da_footprint_scalar info' = ei_da_footprint_scalar info \<Longrightarrow>
   ei_optional_blob_fields info' = ei_optional_blob_fields info \<Longrightarrow> blob_fields cx info' \<noteq> None"
  by (auto simp: blob_fields_def split: option.splits if_splits)

lemma resolve_best_payload_Some: "\<exists>p. fst (resolve_best_payload synchronously found ch best fallback None) = Some p"
  by (auto simp: resolve_best_payload_def Let_def split: sum.split)

text \<open>A build that replays resolves with what the replay reached.\<close>

lemma rebuild_resolves:
  assumes "en_parent_state en = Inr db0" "execute_pre_steps cx w ch pl db0 = Inr (info0, db1)" "cached_txs cx pl en = Some txs"
    and "execute_cached_flashblocks_transactions cx w txs info0 db1 = (e, info, db)" "providers_answer ch"
    and "cx_block_number cx = pl_parent_number pl + 1" "blob_fields cx info0 \<noteq> None" "pl_extra_data pl = Inr xd" "pl_parent_beacon_block_root pl \<noteq> None"
  shows "\<exists>out p. build_payload E C cx w L ch btx cfg pl en = Some out \<and> bo_cell out = Some p \<and> records p info \<and> bo_p2p out = [] \<and> bo_ws out = []"
proof -
  let ?fs = "flashblocks_state_new (flashblocks_per_block (bg_block_time cfg) (bg_flashblocks cfg)) (bg_disable_state_root cfg)"
  have "blob_fields cx info \<noteq> None" using blob_fields_defined [OF assms(7)] cached_fixed [OF assms(4)] by blast
  then obtain p msg fb where b: "build_block cx ch pl info db (Some ?fs) True = Inr (p, msg, fb)"
    using build_block_succeeds [OF assms(5,6) _ assms(8,9), of info ?fs db True] by (auto simp: flashblocks_state_new_def)
  have f: "fallback_base E cx w L btx pl en ?fs info0 db1 = (info, db)" by (simp add: fallback_base_def assms(3,4))
  have pre: "and_then (map_sum ProviderFailed id (en_parent_state en)) (execute_pre_steps cx w ch pl) = Inr (info0, db1)"
    by (simp add: assms(1,2) and_then_def)
  let ?out = "finished_build cfg en ch None (p, db) p [] []"
  have out: "build_payload E C cx w L ch btx cfg pl en = Some ?out"
    unfolding build_payload_def Let_def pre sum.case prod.case f b by (simp add: assms(3))
  obtain p' where p': "bo_cell ?out = Some p'" using resolve_best_payload_Some by (metis finished_build_simps(1))
  have "records p' info"
    using p' build_block_records [OF b]
    by (auto simp: resolve_best_payload_def resolve_zero_state_root_def records_def Let_def map_sum_Inr_iff split: if_splits sum.splits)
  with out p' show ?thesis by auto
qed

text \<open>
  A builder whose cache took in the flashblocks of a block, in whatever order, resolves with the same
  block as the builder that sent them.
\<close>

lemma failover_replays:
  assumes "build_payload E C cx w L ch (BaseTx None) cfg pl en = Some out" "cached_txs cx pl en = None" "bo_cell out = Some p"
    and "\<not> bg_disable_async_calculate_state_root cfg" "\<not> cx_filter cx" "providers_answer ch"
    and "mset rs = mset (bo_p2p out)" "list_all px_recovers (all_transactions (bo_p2p out))" "all_transactions (tl (bo_p2p out)) \<noteq> []"
    and "\<And>sq. pc_inner c = Some sq \<Longrightarrow> ps_payload_id sq \<noteq> pl_payload_id pl"
    and "en_parent_state en' = en_parent_state en" "en_cache en' = fold add_flashblock_payload (map cached_view rs) c"
  shows "\<exists>out' p'. build_payload E' C' cx w L' ch btx' cfg' pl en' = Some out' \<and> bo_cell out' = Some p' \<and>
    ob_transactions p' = ob_transactions p \<and> ob_senders p' = ob_senders p \<and> ob_receipts p' = ob_receipts p \<and> ob_fees p' = ob_fees p \<and>
    hd_gas_used (ob_header p') = hd_gas_used (ob_header p) \<and> bo_p2p out' = [] \<and> bo_ws out' = []"
  using assms(1)
proof (cases rule: build_payload_cases)
  case (failed e ws p2p)
  with assms(3) show ?thesis by (simp add: failed_build_def)
next
  case (fallback_only db0 info0 db1 info db fallback msg fb)
  with assms(2,9) show ?thesis by (simp add: all_transactions_def)
next
  case (rounds db0 info0 db1 info db fallback msg fb target err bs)
  have base: "info = info0" "db = db1" using rounds(3-5) by (simp_all add: fallback_base_def)
  let ?start = "rounds_start cx en target info db fallback msg (the fb)"
  have start: "replayable cx w info0 db1 ?start (bs_info ?start)" "snd (bs_best_payload ?start) = bs_db ?start" "batch_inv cx (bs_fb ?start)"
    using build_block_records [OF rounds(6)] base batch_inv_first
    by (simp_all add: replayable_def rounds_start_def all_transactions_def forget_gasless_def)
  obtain info2 where rep: "replayable cx w info0 db1 bs info2"
    using build_rounds_replayable [OF rounds(8) rounds_start_step [OF rounds(6)] start] by blast
  have p2p: "bo_p2p out = bs_p2p bs" "p = fst (bs_best_payload bs)"
    using rounds(9) assms(3,4) by (auto simp: resolve_best_payload_def Let_def split: if_splits sum.splits)
  have seq: "proper_sequence pl (bs_p2p bs)" "bs_p2p bs \<noteq> []"
    using build_rounds_step [OF rounds(8) rounds_start_step [OF rounds(6)]] by (simp_all add: in_step_def)
  have "get_flashblocks_sequence_txs recover_tx (pl_parent_hash pl) (en_cache en') = Some (all_transactions (tl (bs_p2p bs)))"
    unfolding assms(12) using seq assms(7,8,10) by (intro received_sequence) (simp_all add: p2p)
  then have c: "cached_txs cx pl en' = Some (all_transactions (tl (bs_p2p bs)))"
    using assms(5,9) p2p(1) by (cases "all_transactions (tl (bs_p2p bs))") (simp_all add: cached_txs_def)
  have run: "execute_cached_flashblocks_transactions cx w (all_transactions (tl (bs_p2p bs))) info0 db1 =
      (None, forget_gasless info0 info2, snd (bs_best_payload bs))" and rec: "records p info2"
    using rep by (simp_all add: replayable_def p2p(2))
  note conf = build_block_config [OF rounds(6)]
  obtain xd where xd: "pl_extra_data pl = Inr xd" using conf(3) by blast
  have "\<exists>out' p'. build_payload E' C' cx w L' ch btx' cfg' pl en' = Some out' \<and> bo_cell out' = Some p' \<and>
      records p' (forget_gasless info0 info2) \<and> bo_p2p out' = [] \<and> bo_ws out' = []"
    using rounds(1) assms(11) conf base by (intro rebuild_resolves [OF _ rounds(2) c run assms(6) _ _ xd]) simp_all
  with rec show ?thesis by (auto simp: records_def forget_gasless_def)
qed

text \<open>Replay adds a prefix of what it is given.\<close>

lemma cached_prefix:
  assumes "execute_cached_flashblocks_transactions cx w txs info db = (e, info', db')"
  shows "\<exists>n. ei_executed_transactions info' = ei_executed_transactions info @ take n txs"
  using assms
proof (induction txs arbitrary: info db)
  case (Cons tx txs)
  have zero: "\<exists>n. ei_executed_transactions info = ei_executed_transactions info @ take n (tx # txs)" by (rule exI [of _ 0]) simp
  show ?case
  proof (cases "\<exists>r d g oc. fst (transact_maybe_gasless cx w noop_ops db tx ()) = Inr (r, d, g, oc) \<and> over_block_limits cx info tx = Inr () \<and>
      \<not> px_is_eip4844 tx \<and> \<not> px_is_deposit tx")
    case True
    then obtain r d g oc where "execute_cached_flashblocks_transactions cx w txs
        (push_executed cx w tx r (px_da_size tx) None (miner_fee cx tx) info) d = (e, info', db')"
      using Cons.prems by auto
    from Cons.IH [OF this] obtain n where "ei_executed_transactions info' = ei_executed_transactions info @ take (Suc n) (tx # txs)" by auto
    then show ?thesis by blast
  next
    case False
    with Cons.prems have "info' = info" by (auto split: sum.splits if_splits)
    with zero show ?thesis by simp
  qed
qed simp

lemma add_builder_txs_blob_fields:
  assumes "add_builder_txs E cx w L btx tob first final info db = (answer, info', db')"
  shows "ei_optional_blob_fields info' = ei_optional_blob_fields info"
proof -
  have loop: "ei_optional_blob_fields info' = ei_optional_blob_fields info"
    if "add_builder_loop cx w tob bs invalid info db = (e, info', db')" for bs invalid info db e info' db'
    using that
    by (induction cx w tob bs invalid info db rule: add_builder_loop.induct)
      (auto simp: push_executed_def Let_def split: if_splits sum.splits evm_error.splits prod.splits)
  show ?thesis using assms by (auto simp: add_builder_txs_def split: sum.splits prod.splits option.splits dest: loop)
qed

lemma fallback_base_own:
  assumes "fallback_base E cx w L btx pl en fs info db = (info', db')" "cached_txs cx pl en = None" "\<not> pl_no_tx_pool pl"
  shows "\<exists>own. ei_executed_transactions info' = ei_executed_transactions info @ own \<and> list_all (own_tx E cx w L btx) own \<and>
    ei_da_footprint_scalar info' = ei_da_footprint_scalar info \<and> ei_optional_blob_fields info' = ei_optional_blob_fields info"
proof -
  obtain a where a: "add_builder_txs E cx w L btx False (is_first_flashblock fs) (is_last_flashblock fs) info db = (a, info', db')"
    using assms by (cases "add_builder_txs E cx w L btx False (is_first_flashblock fs) (is_last_flashblock fs) info db") (simp add: fallback_base_def)
  from add_builder_txs_appends [OF a] add_builder_txs_blob_fields [OF a] show ?thesis by blast
qed

text \<open>
  C33. What a takeover loses. A builder builds afresh and publishes a base flashblock with more than the
  sequencer's transactions, and later ones that are not all empty; another builder, without a filter, has
  received exactly these flashblocks, in any order and with no others of that payload, and builds the same payload.
  Then the first one's block is the sequencer's transactions, its own of the base flashblock, and those of
  the later flashblocks; the second one resolves with a block that has the sequencer's transactions and a first part of
  those of the later flashblocks only: what the first builder added to its base flashblock, and published, is
  lost. (The first builder is in the asynchronous mode,
  the roots can be computed and the signatures recovered.)
\<close>

theorem takeover_drops_base_builder_tx:
  assumes "build_payload E C cx w L ch btx cfg pl en = Some out" "bo_cell out = Some p" "cached_txs cx pl en = None"
    and "\<not> bg_disable_async_calculate_state_root cfg" "\<not> cx_filter cx" "providers_answer ch"
    and "en_parent_state en = Inr db0" "execute_pre_steps cx w ch pl db0 = Inr (info0, db1)"
    and "length (ei_executed_transactions info0) < length (fd_transactions (of_diff (hd (bo_p2p out))))"
    and "mset rs = mset (bo_p2p out)" "list_all px_recovers (all_transactions (bo_p2p out))" "all_transactions (tl (bo_p2p out)) \<noteq> []"
    and "\<And>sq. pc_inner c = Some sq \<Longrightarrow> ps_payload_id sq \<noteq> pl_payload_id pl"
    and "en_parent_state en' = en_parent_state en" "en_cache en' = fold add_flashblock_payload (map cached_view rs) c"
  shows "\<exists>own n out' p'. own \<noteq> [] \<and> list_all (own_tx E cx w L btx) own \<and>
    ob_transactions p = ei_executed_transactions info0 @ own @ all_transactions (tl (bo_p2p out)) \<and>
    build_payload E' C' cx w L' ch btx' cfg' pl en' = Some out' \<and> bo_cell out' = Some p' \<and>
    ob_transactions p' = ei_executed_transactions info0 @ take n (all_transactions (tl (bo_p2p out))) \<and>
    length (ob_transactions p') < length (ob_transactions p)"
  using assms(1)
proof (cases rule: build_payload_cases)
  case (failed e ws p2p)
  with assms(2) show ?thesis by (simp add: failed_build_def)
next
  case (fallback_only db0 info0 db1 info db fallback msg fb)
  with assms(3,12) show ?thesis by (simp add: all_transactions_def)
next
  case (rounds db0' info0' db1' info db fallback msg fb target err bs)
  have eq: "info0' = info0" "db1' = db1" using rounds(1,2) assms(7,8) by simp_all
  have p2p: "bo_p2p out = bs_p2p bs" "p = fst (bs_best_payload bs)"
    using rounds(9) assms(2,4) by (auto simp: resolve_best_payload_def Let_def split: if_splits sum.splits)
  have seq: "proper_sequence pl (bs_p2p bs)" "bs_p2p bs \<noteq> []" "ob_transactions p = all_transactions (bs_p2p bs)"
    using build_rounds_step [OF rounds(8) rounds_start_step [OF rounds(6)]] by (simp_all add: in_step_def p2p)
  have "take 1 (bs_p2p bs) = [msg]" using build_rounds_first [OF rounds(8)] by (simp add: rounds_start_def)
  then have msg: "bs_p2p bs = msg # tl (bs_p2p bs)" using seq(2) by (cases "bs_p2p bs") simp_all
  obtain own where own: "ei_executed_transactions info = ei_executed_transactions info0 @ own" "list_all (own_tx E cx w L btx) own"
    "ei_da_footprint_scalar info = ei_da_footprint_scalar info0" "ei_optional_blob_fields info = ei_optional_blob_fields info0"
    using fallback_base_own [OF rounds(5,3,4)] unfolding eq by blast
  have base: "fd_transactions (of_diff msg) = ei_executed_transactions info0 @ own"
    using build_block_Inr(7) [OF rounds(6)] own(1) by (simp add: flashblocks_state_new_def)
  have p: "ob_transactions p = ei_executed_transactions info0 @ own @ all_transactions (tl (bo_p2p out))"
    using arg_cong [OF msg, of all_transactions] unfolding seq(3) p2p(1) by (simp add: all_transactions_def base)
  have ne: "own \<noteq> []" using assms(9) base msg unfolding p2p(1) by (metis append_Nil2 less_irrefl list.sel(1))
  have "get_flashblocks_sequence_txs recover_tx (pl_parent_hash pl) (en_cache en') = Some (all_transactions (tl (bs_p2p bs)))"
    unfolding assms(15) using seq assms(10,11,13) by (intro received_sequence) (simp_all add: p2p)
  then have c: "cached_txs cx pl en' = Some (all_transactions (tl (bo_p2p out)))"
    using assms(5,12) p2p(1) by (cases "all_transactions (tl (bs_p2p bs))") (simp_all add: cached_txs_def)
  obtain e info' db' where run: "execute_cached_flashblocks_transactions cx w (all_transactions (tl (bo_p2p out))) info0 db1 = (e, info', db')" by (metis prod_cases3)
  note conf = build_block_config [OF rounds(6)]
  obtain xd where xd: "pl_extra_data pl = Inr xd" using conf(3) by blast
  have bf: "blob_fields cx info0 \<noteq> None" using blob_fields_defined [OF conf(2)] own(3,4) by simp
  have pre: "en_parent_state en' = Inr db0" using assms(7,14) by simp
  obtain out' p' where o: "build_payload E' C' cx w L' ch btx' cfg' pl en' = Some out'" "bo_cell out' = Some p'" "records p' info'"
    using rebuild_resolves [OF pre assms(8) c run assms(6) conf(1) bf xd conf(4)] by blast
  obtain n where "ei_executed_transactions info' = ei_executed_transactions info0 @ take n (all_transactions (tl (bo_p2p out)))"
    using cached_prefix [OF run] by blast
  with o(3) have p': "ob_transactions p' = ei_executed_transactions info0 @ take n (all_transactions (tl (bo_p2p out)))" by (simp add: records_def)
  have "length (ob_transactions p') < length (ob_transactions p)" unfolding p p' using ne by (cases own) simp_all
  with ne own(2) p p' o(1,2) show ?thesis by blast
qed

text \<open>A builder with a key, whose transaction is in the base flashblock and, with an empty pool, again in the last one.\<close>

definition sample_own_tx :: pool_tx where
  "sample_own_tx = sample_tx\<lparr>px_hash := 8\<rparr>"

definition sample_signing_lib :: "nat builder_lib" where
  "sample_signing_lib = sample_builder_lib\<lparr>lb_sign_tx := (\<lambda>_ _. Inr sample_own_tx)\<rparr>"

definition sample_own_env :: "nat build_env" where
  "sample_own_env = sample_env\<lparr>en_rounds := [sample_round\<lparr>fr_best := []\<rparr>]\<rparr>"

abbreviation sample_own_output :: "unit build_output option" where
  "sample_own_output \<equiv> build_payload sample_ext (\<lambda>_ _. 0) (sample_bcx False) sample_world sample_signing_lib sample_chain_lib (BaseTx (Some 5))
     sample_build_config sample_pl sample_own_env"

declare run_tx_loop.simps [code]

lemma sample_own_build:
  "case sample_own_output of
     None \<Rightarrow> False
   | Some out \<Rightarrow> bo_cell out \<noteq> None \<and> length (bo_p2p out) = 2 \<and> map (\<lambda>m. map px_hash (fd_transactions (of_diff m))) (bo_p2p out) = [[8], [8]] \<and>
       list_all px_recovers (all_transactions (bo_p2p out))"
  by code_simp

definition sample_takeover_env :: "op_flashblock_payload list \<Rightarrow> nat build_env" where
  "sample_takeover_env ms = sample_env\<lparr>en_cache := fold add_flashblock_payload (map cached_view ms) (en_cache sample_env)\<rparr>"

theorem takeover_drops_base_builder_tx_witness:
  "\<exists>out p out' p'. sample_own_output = Some out \<and> bo_cell out = Some p \<and>
     build_payload sample_ext (\<lambda>_ _. 0) (sample_bcx False) sample_world sample_builder_lib sample_chain_lib (BaseTx None) sample_build_config sample_pl
       (sample_takeover_env (rev (bo_p2p out))) = Some out' \<and> bo_cell out' = Some p' \<and>
     length (ob_transactions p') < length (ob_transactions p)"
proof -
  let ?cx = "sample_bcx False"
  obtain out p where o: "sample_own_output = Some out" "bo_cell out = Some p" and m: "length (bo_p2p out) = 2"
    "map (\<lambda>m. map px_hash (fd_transactions (of_diff m))) (bo_p2p out) = [[8], [8]]" "list_all px_recovers (all_transactions (bo_p2p out))"
    using sample_own_build by (auto split: option.splits)
  obtain m0 m1 where ms: "bo_p2p out = [m0, m1]" using m(1) by (auto simp: length_Suc_conv numeral_2_eq_2)
  have pre: "en_parent_state sample_own_env = Inr 0" "execute_pre_steps ?cx sample_world sample_chain_lib sample_pl 0 = Inr (execution_info_new, 0)"
    by (simp_all add: sample_own_env_def sample_env_def and_then_def execute_pre_steps_def sample_chain_lib_def sample_pl_def
        execute_sequencer_transactions_def sample_bcx_def execution_info_new_def)
  have c: "cached_txs ?cx sample_pl sample_own_env = None"
    by (simp add: cached_txs_def get_flashblocks_sequence_txs_def sample_own_env_def sample_env_def)
  have d: "\<not> bg_disable_async_calculate_state_root sample_build_config" "\<not> cx_filter ?cx" by (simp_all add: sample_build_config_def sample_bcx_def)
  have n: "length (ei_executed_transactions execution_info_new) < length (fd_transactions (of_diff (hd (bo_p2p out))))"
    "all_transactions (tl (bo_p2p out)) \<noteq> []"
    using m(2) ms by (auto simp: execution_info_new_def all_transactions_def)
  have t: "en_parent_state (sample_takeover_env ms) = en_parent_state sample_own_env"
    "en_cache (sample_takeover_env ms) = fold add_flashblock_payload (map cached_view ms) (en_cache sample_env)" for ms
    by (simp_all add: sample_takeover_env_def sample_own_env_def)
  have "mset (rev (bo_p2p out)) = mset (bo_p2p out)" by simp
  moreover have "\<And>sq. pc_inner (en_cache sample_env) = Some sq \<Longrightarrow> ps_payload_id sq \<noteq> pl_payload_id sample_pl" by (simp add: sample_env_def)
  ultimately have "\<exists>own n out' p'. own \<noteq> [] \<and> list_all (own_tx sample_ext ?cx sample_world sample_signing_lib (BaseTx (Some 5))) own \<and>
      ob_transactions p = ei_executed_transactions execution_info_new @ own @ all_transactions (tl (bo_p2p out)) \<and>
      build_payload sample_ext (\<lambda>_ _. 0) ?cx sample_world sample_builder_lib sample_chain_lib (BaseTx None) sample_build_config sample_pl
        (sample_takeover_env (rev (bo_p2p out))) = Some out' \<and> bo_cell out' = Some p' \<and>
      ob_transactions p' = ei_executed_transactions execution_info_new @ take n (all_transactions (tl (bo_p2p out))) \<and>
      length (ob_transactions p') < length (ob_transactions p)"
    by (rule takeover_drops_base_builder_tx [OF o c d sample_providers pre n(1) _ m(3) n(2) _ t])
  with o show ?thesis by blast
qed

section \<open>What holds of every transaction\<close>

text \<open>A predicate of all transactions executed, published and in the best payload so far.\<close>

definition all_pass :: "(pool_tx \<Rightarrow> bool) \<Rightarrow> ('d, 'u) block_state \<Rightarrow> bool" where
  "all_pass Q bs \<longleftrightarrow> list_all Q (ei_executed_transactions (bs_info bs)) \<and> list_all Q (ob_transactions (fst (bs_best_payload bs))) \<and>
     list_all Q (all_transactions (bs_ws bs))"

lemma seal_flashblock_pass:
  assumes "seal_flashblock cx ch pl rd da footprint bs = (r, bs')" "all_pass Q bs"
  shows "all_pass Q bs' \<and> bs_shared bs' = bs_shared bs"
proof (cases "build_block cx ch pl (bs_info bs) (bs_db bs) (Some (bs_fb bs)) (\<not> fs_disable_state_root (bs_fb bs) \<or> pl_no_tx_pool pl)")
  case (Inr res)
  obtain p msg fb where res: "res = (p, msg, fb)" by (cases res)
  note b = build_block_Inr [OF Inr [unfolded res]]
  have "list_all Q (fd_transactions (of_diff msg))" using b(7) assms(2) by (auto simp: all_pass_def list_all_iff dest: in_set_dropD)
  with assms Inr res b(1) show ?thesis
    by (auto simp: seal_flashblock_def Let_def all_pass_def all_transactions_def split: if_splits)
qed (use assms in \<open>auto simp: seal_flashblock_def\<close>)

text \<open>
  A predicate that the builder's own transactions have, and that the transaction loop keeps while it
  keeps some property of the filter's state, is kept by the rounds.
\<close>

lemma build_next_flashblock_pass:
  assumes next_fb: "build_next_flashblock E C cx w L ch btx pl rd bs = Some (r, bs')" and "all_pass Q bs"
    and own: "\<And>tx. own_tx E cx w L btx tx \<Longrightarrow> Q tx"
    and loop: "\<And>info db lim best res. execute_best_transactions E C cx w lim (fr_its rd) info db (bs_shared bs) best (fr_tx_pool rd) = Some res \<Longrightarrow>
      list_all Q (ei_executed_transactions info) \<Longrightarrow> list_all Q (ei_executed_transactions (lr_info res)) \<and> S (lr_shared res)"
  shows "all_pass Q bs' \<and> S (bs_shared bs')"
proof -
  let ?fs = "bs_fb bs"
  have step: "list_all Q (ei_executed_transactions info')" if "add_builder_txs E cx w L btx tob f l info db = (a, info', db')"
    "list_all Q (ei_executed_transactions info)" for tob f l info db a info' db'
    using add_builder_txs_appends [OF that(1)] that(2) own by (auto simp: list_all_iff)
  obtain a info1 db1 where a: "add_builder_txs E cx w L btx True (is_first_flashblock ?fs) (is_last_flashblock ?fs) (bs_info bs) (bs_db bs) = (a, info1, db1)"
    by (metis prod_cases3)
  have 1: "list_all Q (ei_executed_transactions info1)" using step [OF a] assms(2) by (simp add: all_pass_def)
  define builder_txs where "builder_txs = (case a of Inr txs \<Rightarrow> txs | Inl _ \<Rightarrow> [])"
  obtain res where res: "execute_best_transactions E C cx w (flashblock_limits cx ?fs (ei_da_footprint_scalar info1) builder_txs) (fr_its rd) info1 db1
      (bs_shared bs) (refresh_iterator (fr_best rd) (fs_flashblock_index ?fs) (bs_best bs)) (fr_tx_pool rd) = Some res"
    using next_fb by (auto simp: build_next_flashblock_def a Let_def builder_txs_def split: option.splits)
  note 2 = loop [OF res 1]
  let ?bs1 = "bs\<lparr>bs_info := lr_info res, bs_db := lr_db res, bs_shared := lr_shared res, bs_best := lr_best res\<rparr>"
  have keep: "all_pass Q ?bs1" "all_pass Q (?bs1\<lparr>bs_best := b\<rparr>)" for b using assms(2) 2 by (simp_all add: all_pass_def)
  show ?thesis
  proof (cases "lr_end res = EvmFailed \<or> fr_block_cancelled rd \<or>
      slice_from (fs_last_flashblock_tx_index ?fs) (ei_executed_transactions (lr_info res)) = None")
    case True
    with next_fb keep 2 show ?thesis
      by (auto simp: build_next_flashblock_def a Let_def builder_txs_def [symmetric] res split: if_splits option.splits)
  next
    case False
    then obtain new_txs where slice: "slice_from (fs_last_flashblock_tx_index ?fs) (ei_executed_transactions (lr_info res)) = Some new_txs" by auto
    obtain a3 info3 db3 where a3: "add_builder_txs E cx w L btx False (is_first_flashblock ?fs) (is_last_flashblock ?fs) (lr_info res) (lr_db res) = (a3, info3, db3)"
      by (metis prod_cases3)
    let ?bs3 = "?bs1\<lparr>bs_best := mark_commited (map px_hash new_txs) (lr_best res), bs_info := info3, bs_db := db3\<rparr>"
    have "seal_flashblock cx ch pl rd (batch_da ?fs builder_txs) (batch_footprint ?fs (ei_da_footprint_scalar info1) builder_txs) ?bs3 = (r, bs')"
      using next_fb False by (simp add: build_next_flashblock_def a Let_def builder_txs_def [symmetric] res slice a3)
    moreover have "all_pass Q ?bs3" using step [OF a3] 2 assms(2) by (simp add: all_pass_def)
    ultimately show ?thesis using seal_flashblock_pass 2 by fastforce
  qed
qed

lemma build_rounds_pass:
  assumes "build_rounds E C cx w L ch btx pl rds bs = Some (err, bs')" "all_pass Q bs" "S (bs_shared bs)"
    and "\<And>tx. own_tx E cx w L btx tx \<Longrightarrow> Q tx"
    and "\<And>rd info db lim sh best res. rd \<in> set rds \<Longrightarrow> S sh \<Longrightarrow>
      execute_best_transactions E C cx w lim (fr_its rd) info db sh best (fr_tx_pool rd) = Some res \<Longrightarrow>
      list_all Q (ei_executed_transactions info) \<Longrightarrow> list_all Q (ei_executed_transactions (lr_info res)) \<and> S (lr_shared res)"
  shows "all_pass Q bs'"
  using assms(1-3,5)
proof (induction rds arbitrary: bs)
  case (Cons rd rds)
  show ?case
  proof (cases "fs_flashblock_index (bs_fb bs) > fs_target_flashblock_count (bs_fb bs)")
    case False
    with Cons.prems(1) obtain r bs1 where r: "build_next_flashblock E C cx w L ch btx pl rd bs = Some (r, bs1)"
      by (auto split: option.splits)
    have step: "all_pass Q bs1 \<and> S (bs_shared bs1)"
      by (rule build_next_flashblock_pass [OF r Cons.prems(2) assms(4)])
        (assumption, rule Cons.prems(4) [of rd "bs_shared bs", OF _ Cons.prems(3)], simp, assumption, assumption)
    show ?thesis
    proof (cases r)
      case (RoundNext fs)
      with Cons.prems(1) False r have n: "build_rounds E C cx w L ch btx pl rds (bs1\<lparr>bs_fb := fs\<rparr>) = Some (err, bs')" by simp
      have "all_pass Q (bs1\<lparr>bs_fb := fs\<rparr>)" "S (bs_shared (bs1\<lparr>bs_fb := fs\<rparr>))" using step by (simp_all add: all_pass_def)
      then show ?thesis by (rule Cons.IH [OF n]) (rule Cons.prems(4), rule list.set_intros(2), assumption+)
    qed (use Cons.prems(1) False r step in auto)
  qed (use Cons.prems in simp)
qed simp

lemma execute_sequencer_loop_txs:
  assumes "execute_sequencer_loop cx w txs info db = Inr (info', db')"
  shows "set (ei_executed_transactions info') \<subseteq> set (ei_executed_transactions info) \<union> set txs"
  using assms
proof (induction txs arbitrary: info db)
  case (Cons tx txs)
  show ?case
  proof (cases "fst (transact_maybe_gasless cx w noop_ops db tx ())")
    case (Inl e)
    with Cons show ?thesis by (cases e) (fastforce simp: Let_def split: if_splits)+
  next
    case (Inr q)
    obtain r d g oc where q: "q = (r, d, g, oc)" by (cases q) auto
    from Cons.prems obtain n where "execute_sequencer_loop cx w txs
        (push_executed cx w tx r (if px_is_deposit tx then 0 else px_da_size tx) n 0 info) d = Inr (info', db')"
      by (auto simp: Let_def Inr q split: if_splits)
    from Cons.IH [OF this] show ?thesis by auto
  qed
qed simp

lemma execute_pre_steps_txs:
  assumes "execute_pre_steps cx w ch pl db = Inr (info, db')"
  shows "set (ei_executed_transactions info) \<subseteq> set (pl_transactions pl)"
proof -
  obtain db1 where "execute_sequencer_transactions cx w (pl_transactions pl) db1 = Inr (info, db')"
    using assms by (auto simp: execute_pre_steps_def and_then_Inr map_sum_Inr_iff)
  then obtain info1 db2 where i: "execute_sequencer_loop cx w (pl_transactions pl) execution_info_new db1 = Inr (info1, db2)"
    "ei_executed_transactions info = ei_executed_transactions info1"
    by (auto simp: execute_sequencer_transactions_def split: sum.splits if_splits option.splits)
  from execute_sequencer_loop_txs [OF i(1)] i(2) show ?thesis by (simp add: execution_info_new_def)
qed

text \<open>
  Every transaction of a build, published or resolved, with the filter enabled: the sequencer's, the
  builder's own, or one that the loop admitted.
\<close>

lemma build_payload_pass:
  assumes "build_payload E C cx w L ch btx cfg pl en = Some out" "cx_filter cx" "S (en_shared en)"
    and "\<And>tx. tx \<in> set (pl_transactions pl) \<Longrightarrow> Q tx" "\<And>tx. own_tx E cx w L btx tx \<Longrightarrow> Q tx"
    and "\<And>rd info db lim sh best res. rd \<in> set (en_rounds en) \<Longrightarrow> S sh \<Longrightarrow>
      execute_best_transactions E C cx w lim (fr_its rd) info db sh best (fr_tx_pool rd) = Some res \<Longrightarrow>
      list_all Q (ei_executed_transactions info) \<Longrightarrow> list_all Q (ei_executed_transactions (lr_info res)) \<and> S (lr_shared res)"
    and "bo_cell out = Some p"
  shows "list_all Q (ob_transactions p) \<and> list_all Q (all_transactions (bo_ws out))"
proof -
  have base: "list_all Q (ei_executed_transactions info)"
    if pre: "execute_pre_steps cx w ch pl db0 = Inr (info0, db1)" and fbk: "fallback_base E cx w L btx pl en fs info0 db1 = (info, db)" for db0 info0 db1 info db fs
  proof -
    have 0: "list_all Q (ei_executed_transactions info0)" using execute_pre_steps_txs [OF pre] assms(4) by (auto simp: list_all_iff)
    have c: "cached_txs cx pl en = None" using assms(2) by (simp add: cached_txs_def)
    show ?thesis
    proof (cases "pl_no_tx_pool pl")
      case False
      obtain a where "add_builder_txs E cx w L btx False (is_first_flashblock fs) (is_last_flashblock fs) info0 db1 = (a, info, db)"
        using fbk c False by (cases "add_builder_txs E cx w L btx False (is_first_flashblock fs) (is_last_flashblock fs) info0 db1")
          (simp add: fallback_base_def)
      from add_builder_txs_appends [OF this] 0 assms(5) show ?thesis by (auto simp: list_all_iff)
    qed (use fbk c 0 in \<open>simp add: fallback_base_def\<close>)
  qed
  show ?thesis
    using assms(1)
  proof (cases rule: build_payload_cases)
    case (failed e ws p2p)
    with assms(7) show ?thesis by (simp add: failed_build_def)
  next
    case (fallback_only db0 info0 db1 info db fallback msg fb)
    note b = build_block_Inr [OF fallback_only(4)]
    have "ob_transactions p = ob_transactions fallback"
      using resolve_best_payload_cell [of _ _ ch "(fallback, db)" fallback p] assms(7) fallback_only(5) by auto
    moreover have "list_all Q (all_transactions [msg])"
      using base [OF fallback_only(2,3)] b(7) by (simp add: all_transactions_def flashblocks_state_new_def)
    ultimately show ?thesis using base [OF fallback_only(2,3)] b(1) fallback_only(5) by (simp add: all_transactions_def)
  next
    case (rounds db0 info0 db1 info db fallback msg fb target err bs)
    note b = build_block_Inr [OF rounds(6)]
    note i = base [OF rounds(2,5)]
    let ?start = "rounds_start cx en target info db fallback msg (the fb)"
    have "all_pass Q ?start" using i b(1,7) by (simp add: all_pass_def rounds_start_def all_transactions_def flashblocks_state_new_def)
    moreover have "S (bs_shared ?start)" using assms(3) by (simp add: rounds_start_def)
    ultimately have "all_pass Q bs" by (rule build_rounds_pass [OF rounds(8)]) (use assms(5,6) in auto)
    moreover have "ob_transactions p = ob_transactions (fst (bs_best_payload bs)) \<or> p = fallback"
      using resolve_best_payload_cell [of _ _ ch "bs_best_payload bs" fallback p] assms(7) rounds(9) by auto
    ultimately show ?thesis using i b(1) rounds(9) by (auto simp: all_pass_def)
  qed
qed

end
