(* ===== verification/Payload_Handler.thy ===== *)
theory Payload_Handler
  imports Flashblock_Failover
begin

text \<open>
  What happens to payloads after they are built or received (\<open>crates/builder/src/flashblocks\<close>:
  \<open>handler.rs\<close>, \<open>handler_ctx.rs\<close>, \<open>utils/p2p.rs\<close>, and of \<open>builder.rs\<close> the construction of the
  context): the handler relays flashblocks, and executes full payloads of other builders to check
  them. The client of the chain is a parameter.
\<close>

section \<open>The context of a block\<close>

record forks =
  fk_regolith :: bool
  fk_shanghai :: bool
  fk_canyon :: bool
  fk_ecotone :: bool
  fk_holocene :: bool
  fk_isthmus :: bool
  fk_jovian :: bool

record env_attributes =
  ea_timestamp :: nat
  ea_suggested_fee_recipient :: address
  ea_prev_randao :: b256
  ea_gas_limit :: nat
  ea_parent_beacon_block_root :: "b256 option"
  ea_extra_data :: "byte list"

record block_env =
  bv_number :: nat
  bv_basefee :: nat
  bv_gas_limit :: nat
  bv_beneficiary :: address

text \<open>The payload attributes; fields left out are not read.\<close>

record payload_attributes =
  at_id :: u64
  at_timestamp :: nat
  at_prev_randao :: b256
  at_suggested_fee_recipient :: address
  at_withdrawals :: "nat list"
  at_parent_beacon_block_root :: "b256 option"
  at_eip_1559_params :: "byte list option"
  at_min_base_fee :: "nat option"
  at_gas_limit :: "nat option"
  at_no_tx_pool :: bool
  at_transactions :: "pool_tx list"

text \<open>
  The chain: headers and states by hash, the forks active at a timestamp, the validation of headers,
  the environment of the next block with the EVM and the library functions that run in it, and the
  encodings of the extra data.
\<close>

record ('d, 'u) node_client =
  nc_header_by_id :: "b256 \<Rightarrow> string + header option"
  nc_state_by_block_hash :: "b256 \<Rightarrow> string + 'd"
  nc_forks :: "nat \<Rightarrow> forks"
  nc_validate_header :: "header \<Rightarrow> bool"
  nc_validate_header_against_parent :: "header \<Rightarrow> header \<Rightarrow> bool"
  nc_next_evm_env :: "header \<Rightarrow> env_attributes \<Rightarrow> string + block_env"
  nc_world :: "header \<Rightarrow> env_attributes \<Rightarrow> 'd world"
  nc_chain :: "header \<Rightarrow> env_attributes \<Rightarrow> ('d, 'u) chain_lib"
  nc_jovian_extra_data :: "nat \<Rightarrow> byte list option \<Rightarrow> nat option \<Rightarrow> string + byte list"
  nc_holocene_extra_data :: "nat \<Rightarrow> byte list option \<Rightarrow> string + byte list"
  nc_gasless_contract :: bool

text \<open>The part of \<open>BuilderConfig\<close> that enters the context.\<close>

record builder_settings =
  st_tx_da_limit :: "nat option"
  st_block_da_limit :: "nat option"
  st_gas_limit_config :: "nat option"
  st_max_gas_per_txn :: "nat option"
  st_bridge_intercept :: bridge_intercept_config
  st_gasless_block_gas_limit :: "nat option"
  st_rcs_filter :: bool
  st_interop_feature :: bool

definition extra_data :: "('d, 'u) node_client \<Rightarrow> payload_attributes \<Rightarrow> string + byte list" where
  "extra_data nc attrs = (let fk = nc_forks nc (at_timestamp attrs) in
     if fk_jovian fk then nc_jovian_extra_data nc (at_timestamp attrs) (at_eip_1559_params attrs) (at_min_base_fee attrs)
     else if fk_holocene fk then nc_holocene_extra_data nc (at_timestamp attrs) (at_eip_1559_params attrs)
     else Inr [])"

text \<open>The fields of a \<open>FlashblocksBuilderCtx\<close>.\<close>

definition make_ctx :: "('d, 'u) node_client \<Rightarrow> builder_settings \<Rightarrow> b256 \<Rightarrow> header \<Rightarrow> payload_attributes \<Rightarrow> block_env \<Rightarrow> builder_ctx \<times> payload_config" where
  "make_ctx nc st parent_hash parent_header attrs evm_env = (let fk = nc_forks nc (at_timestamp attrs) in
     (\<lparr>cx_base_fee = bv_basefee evm_env, cx_block_number = min (bv_number evm_env) usize_max, cx_timestamp = at_timestamp attrs,
       cx_gas_limit_config = st_gas_limit_config st, cx_attributes_gas_limit = at_gas_limit attrs, cx_env_gas_limit = bv_gas_limit evm_env,
       cx_tx_da_limit = st_tx_da_limit st, cx_block_da_limit = st_block_da_limit st, cx_max_gas_per_txn = st_max_gas_per_txn st,
       cx_bridge_intercept_config = st_bridge_intercept st, cx_has_gasless_contract = nc_gasless_contract nc,
       cx_gasless_block_gas_limit = st_gasless_block_gas_limit st, cx_filter = st_rcs_filter st, cx_interop_feature = st_interop_feature st,
       cx_regolith = fk_regolith fk, cx_canyon = fk_canyon fk, cx_ecotone = fk_ecotone fk, cx_jovian = fk_jovian fk\<rparr>,
      \<lparr>pl_payload_id = at_id attrs, pl_parent_hash = parent_hash, pl_parent_number = hd_number parent_header, pl_no_tx_pool = at_no_tx_pool attrs,
       pl_transactions = at_transactions attrs, pl_suggested_fee_recipient = at_suggested_fee_recipient attrs,
       pl_beneficiary = bv_beneficiary evm_env, pl_prev_randao = at_prev_randao attrs,
       pl_parent_beacon_block_root = at_parent_beacon_block_root attrs,
       pl_withdrawals = (if fk_shanghai fk then Some (at_withdrawals attrs) else None),
       pl_extra_data = extra_data nc attrs, pl_isthmus = fk_isthmus fk\<rparr>))"

definition next_block_attributes :: "header \<Rightarrow> payload_attributes \<Rightarrow> byte list \<Rightarrow> env_attributes" where
  "next_block_attributes parent_header attrs xd =
     \<lparr>ea_timestamp = at_timestamp attrs, ea_suggested_fee_recipient = at_suggested_fee_recipient attrs, ea_prev_randao = at_prev_randao attrs,
      ea_gas_limit = (case at_gas_limit attrs of Some g \<Rightarrow> g | None \<Rightarrow> hd_gas_limit parent_header),
      ea_parent_beacon_block_root = at_parent_beacon_block_root attrs, ea_extra_data = xd\<rparr>"

text \<open>The context of a block to build, with the attributes of its environment.\<close>

definition get_op_payload_builder_ctx :: "('d, 'u) node_client \<Rightarrow> builder_settings \<Rightarrow> b256 \<Rightarrow> header \<Rightarrow> payload_attributes
    \<Rightarrow> string + (builder_ctx \<times> payload_config) \<times> env_attributes" where
  "get_op_payload_builder_ctx nc st parent_hash parent_header attrs =
     and_then (extra_data nc attrs) (\<lambda>xd.
       let ea = next_block_attributes parent_header attrs xd in
       map_sum id (\<lambda>evm_env. (make_ctx nc st parent_hash parent_header attrs evm_env, ea)) (nc_next_evm_env nc parent_header ea))"

section \<open>Executing a received payload\<close>

datatype handler_error =
    HeParentHeader string
  | HeParentNotFound
  | HeInvalidHeader
  | HeInvalidAgainstParent
  | HeState string
  | HeEvmEnv string
  | HePreExecution string
  | HeExtraDataLength nat
  | HeRecover
  | HeDepositorNonce
  | HeTransact evm_error
  | HeMaxGasPerTxn
  | HeGasOverflow
  | HeGasLimit
  | HeScalarPanic
  | HeBuild build_error
  | HeHashMismatch b256 b256

record handler_context =
  hc_tx_da_limit :: "nat option"
  hc_block_da_limit :: "nat option"
  hc_max_gas_per_txn :: "nat option"

definition into_flashblocks_builder_ctx :: "('d, 'u) node_client \<Rightarrow> handler_context \<Rightarrow> b256 \<Rightarrow> header \<Rightarrow> payload_attributes \<Rightarrow> block_env
    \<Rightarrow> builder_ctx \<times> payload_config" where
  "into_flashblocks_builder_ctx nc hc = make_ctx nc \<lparr>st_tx_da_limit = hc_tx_da_limit hc, st_block_da_limit = hc_block_da_limit hc,
     st_gas_limit_config = None, st_max_gas_per_txn = hc_max_gas_per_txn hc,
     st_bridge_intercept = \<lparr>bi_enabled = False, bi_bridge_contract_address = 0, bi_target_token_address = 0, bi_wildcard = False\<rparr>,
     st_gasless_block_gas_limit = None, st_rcs_filter = False, st_interop_feature = False\<rparr>"

definition validate_pre_execution :: "('d, 'u) node_client \<Rightarrow> header \<Rightarrow> header \<Rightarrow> handler_error + unit" where
  "validate_pre_execution nc h parent_header =
     (if \<not> nc_validate_header nc h then Inl HeInvalidHeader
      else if \<not> nc_validate_header_against_parent nc h parent_header then Inl HeInvalidAgainstParent
      else Inr ())"

definition build_synced_receipt :: "bool \<Rightarrow> 'd world \<Rightarrow> pool_tx \<Rightarrow> exec_result \<Rightarrow> nat \<Rightarrow> nat option \<Rightarrow> receipt" where
  "build_synced_receipt canyon w tx r cumulative_gas_used deposit_nonce = (case w_build_receipt w tx r cumulative_gas_used of
       Some receipt \<Rightarrow> receipt
     | None \<Rightarrow> \<lparr>rc_success = er_success r, rc_cumulative_gas_used = cumulative_gas_used, rc_logs = er_logs r,
                rc_deposit_nonce = deposit_nonce, rc_deposit_receipt_version = (if canyon then Some 1 else None)\<rparr>)"

text \<open>The transactions are executed as they are: no gasless detection.\<close>

fun execute_transactions_loop :: "nat option \<Rightarrow> forks \<Rightarrow> 'd world \<Rightarrow> nat \<Rightarrow> pool_tx list \<Rightarrow> execution_info \<Rightarrow> 'd
    \<Rightarrow> handler_error + execution_info \<times> 'd" where
  "execute_transactions_loop max_gas_per_txn fk w gas_limit [] info db = Inr (info, db)"
| "execute_transactions_loop max_gas_per_txn fk w gas_limit (tx # txs) info db =
     (if \<not> px_recovers tx then Inl HeRecover
      else if fk_regolith fk \<and> px_is_deposit tx \<and> w_account_nonce w db (px_signer tx) = None then Inl HeDepositorNonce
      else
        let depositor_nonce = (if fk_regolith fk \<and> px_is_deposit tx then w_account_nonce w db (px_signer tx) else None) in
        (case snd (w_transact w db tx False) of
           Inl e \<Rightarrow> Inl (HeTransact e)
         | Inr (r, db') \<Rightarrow>
             if (case max_gas_per_txn of Some m \<Rightarrow> er_gas_used r > m | None \<Rightarrow> False) then Inl HeMaxGasPerTxn
             else
               (case checked_add (ei_cumulative_gas_used info) (er_gas_used r) of
                  None \<Rightarrow> Inl HeGasOverflow
                | Some gas \<Rightarrow>
                    if gas > gas_limit then Inl HeGasLimit
                    else execute_transactions_loop max_gas_per_txn fk w gas_limit txs
                      (info\<lparr>ei_cumulative_gas_used := gas,
                            ei_receipts := ei_receipts info @ [build_synced_receipt (fk_canyon fk) w tx r gas depositor_nonce],
                            ei_executed_senders := ei_executed_senders info @ [px_signer tx],
                            ei_executed_transactions := ei_executed_transactions info @ [tx]\<rparr>) db')))"

definition execute_transactions :: "nat option \<Rightarrow> forks \<Rightarrow> 'd world \<Rightarrow> nat \<Rightarrow> pool_tx list \<Rightarrow> execution_info \<Rightarrow> 'd
    \<Rightarrow> handler_error + execution_info \<times> 'd" where
  "execute_transactions max_gas_per_txn fk w gas_limit txs info db =
     and_then (execute_transactions_loop max_gas_per_txn fk w gas_limit txs info db) (\<lambda>(info1, db1).
       if fk_jovian fk
       then (case w_da_footprint_scalar w db1 of None \<Rightarrow> Inl HeScalarPanic | Some s \<Rightarrow> Inr (info1\<lparr>ei_da_footprint_scalar := Some s\<rparr>, db1))
       else Inr (info1\<lparr>ei_da_footprint_scalar := None\<rparr>, db1))"

text \<open>The parameters that the extra data of a header encodes.\<close>

definition extra_data_params :: "forks \<Rightarrow> byte list \<Rightarrow> handler_error + byte list option \<times> nat option" where
  "extra_data_params fk xd =
     (if fk_jovian fk then
        if length xd \<noteq> 17 then Inl (HeExtraDataLength (length xd))
        else Inr (Some (take 8 (drop 1 xd)), Some (be_value (take 8 (drop 9 xd))))
      else if fk_holocene fk then
        if length xd \<noteq> 9 then Inl (HeExtraDataLength (length xd)) else Inr (Some (take 8 (drop 1 xd)), None)
      else if xd \<noteq> [] then Inl (HeExtraDataLength (length xd))
      else Inr (None, None))"

text \<open>A payload as it travels between builders: without the executed block.\<close>

record wire_payload =
  wp_id :: u64
  wp_header :: header
  wp_transactions :: "pool_tx list"
  wp_withdrawals :: "nat list option"
  wp_fees :: u256

definition from_built_payload :: "'u built_payload \<Rightarrow> wire_payload" where
  "from_built_payload p = \<lparr>wp_id = ob_id p, wp_header = ob_header p, wp_transactions = ob_transactions p,
     wp_withdrawals = ob_withdrawals p, wp_fees = ob_fees p\<rparr>"

definition header_attributes :: "header \<Rightarrow> env_attributes" where
  "header_attributes h = \<lparr>ea_timestamp = hd_timestamp h, ea_suggested_fee_recipient = hd_beneficiary h, ea_prev_randao = hd_mix_hash h,
     ea_gas_limit = hd_gas_limit h, ea_parent_beacon_block_root = hd_parent_beacon_block_root h, ea_extra_data = hd_extra_data h\<rparr>"

definition wire_attributes :: "wire_payload \<Rightarrow> byte list option \<times> nat option \<Rightarrow> payload_attributes" where
  "wire_attributes wp params = (let h = wp_header wp in
     \<lparr>at_id = wp_id wp, at_timestamp = hd_timestamp h, at_prev_randao = hd_mix_hash h, at_suggested_fee_recipient = hd_beneficiary h,
      at_withdrawals = (case wp_withdrawals wp of Some ws \<Rightarrow> ws | None \<Rightarrow> []), at_parent_beacon_block_root = hd_parent_beacon_block_root h,
      at_eip_1559_params = fst params, at_min_base_fee = snd params, at_gas_limit = None, at_no_tx_pool = False, at_transactions = []\<rparr>)"

definition execute_built_payload :: "('d, 'u) node_client \<Rightarrow> handler_context \<Rightarrow> wire_payload \<Rightarrow> handler_error + 'u built_payload \<times> op_flashblock_payload" where
  "execute_built_payload nc hc wp =
     (let h = wp_header wp; parent_hash = hd_parent_hash h; ea = header_attributes h; fk = nc_forks nc (hd_timestamp h) in
      and_then (map_sum HeParentHeader id (nc_header_by_id nc parent_hash)) (\<lambda>found.
      and_then (case found of None \<Rightarrow> Inl HeParentNotFound | Some ph \<Rightarrow> Inr ph) (\<lambda>parent_header.
      and_then (validate_pre_execution nc h parent_header) (\<lambda>_.
      and_then (map_sum HeState id (nc_state_by_block_hash nc parent_hash)) (\<lambda>db0.
      and_then (map_sum HeEvmEnv id (nc_next_evm_env nc parent_header ea)) (\<lambda>evm_env.
      and_then (map_sum HePreExecution id (cl_pre_execution (nc_chain nc parent_header ea) db0)) (\<lambda>db1.
      and_then (extra_data_params fk (hd_extra_data h)) (\<lambda>params.
      and_then (execute_transactions (hc_max_gas_per_txn hc) fk (nc_world nc parent_header ea) (hd_gas_used h) (wp_transactions wp)
          (execution_info_new\<lparr>ei_optional_blob_fields := Some (hd_excess_blob_gas h, hd_blob_gas_used h)\<rparr>) db1) (\<lambda>(info, db).
        case into_flashblocks_builder_ctx nc hc parent_hash parent_header (wire_attributes wp params) evm_env of (cx, pl) \<Rightarrow>
          let ch = nc_chain nc parent_header ea;
              expected = cl_block_hash ch h (wp_transactions wp) (wp_withdrawals wp)
          in and_then (map_sum HeBuild id (build_block cx ch pl info db None True)) (\<lambda>(built_payload, fb_payload, _).
               if block_hash ch built_payload \<noteq> expected then Inl (HeHashMismatch expected (block_hash ch built_payload))
               else Inr (built_payload, fb_payload)))))))))))"

section \<open>What the best payload was sealed from\<close>

text \<open>
  A property of the execution record and the database that builder transactions and the transaction
  loop keep holds of the record and the database that the best payload was sealed from.
\<close>

definition sealed_from :: "builder_ctx \<Rightarrow> ('d, 'u) chain_lib \<Rightarrow> payload_config \<Rightarrow> (execution_info \<Rightarrow> 'd \<Rightarrow> bool) \<Rightarrow> 'u built_payload \<times> 'd \<Rightarrow> bool" where
  "sealed_from cx ch pl P best \<longleftrightarrow> (\<exists>info fb calc msg fb'. P info (snd best) \<and> build_block cx ch pl info (snd best) fb calc = Inr (fst best, msg, fb'))"

lemma sealed_fromI: "P info db \<Longrightarrow> build_block cx ch pl info db fb calc = Inr (p, msg, fb') \<Longrightarrow> sealed_from cx ch pl P (p, db)"
  unfolding sealed_from_def fst_conv snd_conv by blast

lemma seal_flashblock_sealed:
  assumes "seal_flashblock cx ch pl rd da footprint bs = (r, bs')" "P (bs_info bs) (bs_db bs)" "sealed_from cx ch pl P (bs_best_payload bs)"
  shows "P (bs_info bs') (bs_db bs') \<and> sealed_from cx ch pl P (bs_best_payload bs')"
proof (cases "build_block cx ch pl (bs_info bs) (bs_db bs) (Some (bs_fb bs)) (\<not> fs_disable_state_root (bs_fb bs) \<or> pl_no_tx_pool pl)")
  case (Inr res)
  obtain p msg fb where res: "res = (p, msg, fb)" by (cases res)
  have "sealed_from cx ch pl P (p, bs_db bs)" using assms(2) Inr [unfolded res] by (rule sealed_fromI)
  with assms Inr res show ?thesis by (auto simp: seal_flashblock_def Let_def split: if_splits)
qed (use assms in \<open>auto simp: seal_flashblock_def\<close>)

lemma build_next_flashblock_sealed:
  assumes next_fb: "build_next_flashblock E C cx w L ch btx pl rd bs = Some (r, bs')"
    and "P (bs_info bs) (bs_db bs)" "sealed_from cx ch pl P (bs_best_payload bs)"
    and own: "\<And>tob first final info db a info' db'. add_builder_txs E cx w L btx tob first final info db = (a, info', db') \<Longrightarrow> P info db \<Longrightarrow> P info' db'"
    and loop: "\<And>lim its info db sh best pool res. execute_best_transactions E C cx w lim its info db sh best pool = Some res \<Longrightarrow> P info db \<Longrightarrow>
      P (lr_info res) (lr_db res)"
  shows "P (bs_info bs') (bs_db bs') \<and> sealed_from cx ch pl P (bs_best_payload bs')"
proof -
  let ?fs = "bs_fb bs"
  obtain a info1 db1 where a: "add_builder_txs E cx w L btx True (is_first_flashblock ?fs) (is_last_flashblock ?fs) (bs_info bs) (bs_db bs) = (a, info1, db1)"
    by (metis prod_cases3)
  define builder_txs where "builder_txs = (case a of Inr txs \<Rightarrow> txs | Inl _ \<Rightarrow> [])"
  obtain res where res: "execute_best_transactions E C cx w (flashblock_limits cx ?fs (ei_da_footprint_scalar info1) builder_txs) (fr_its rd) info1 db1
      (bs_shared bs) (refresh_iterator (fr_best rd) (fs_flashblock_index ?fs) (bs_best bs)) (fr_tx_pool rd) = Some res"
    using next_fb by (auto simp: build_next_flashblock_def a Let_def builder_txs_def split: option.splits)
  have 2: "P (lr_info res) (lr_db res)" using loop [OF res] own [OF a] assms(2) by simp
  let ?bs1 = "bs\<lparr>bs_info := lr_info res, bs_db := lr_db res, bs_shared := lr_shared res, bs_best := lr_best res\<rparr>"
  show ?thesis
  proof (cases "lr_end res = EvmFailed \<or> fr_block_cancelled rd \<or>
      slice_from (fs_last_flashblock_tx_index ?fs) (ei_executed_transactions (lr_info res)) = None")
    case True
    with next_fb 2 assms(3) show ?thesis
      by (auto simp: build_next_flashblock_def a Let_def builder_txs_def [symmetric] res split: if_splits option.splits)
  next
    case False
    then obtain new_txs where slice: "slice_from (fs_last_flashblock_tx_index ?fs) (ei_executed_transactions (lr_info res)) = Some new_txs" by auto
    obtain a3 info3 db3 where a3: "add_builder_txs E cx w L btx False (is_first_flashblock ?fs) (is_last_flashblock ?fs) (lr_info res) (lr_db res) = (a3, info3, db3)"
      by (metis prod_cases3)
    let ?bs3 = "?bs1\<lparr>bs_best := mark_commited (map px_hash new_txs) (lr_best res), bs_info := info3, bs_db := db3\<rparr>"
    have seal: "seal_flashblock cx ch pl rd (batch_da ?fs builder_txs) (batch_footprint ?fs (ei_da_footprint_scalar info1) builder_txs) ?bs3 = (r, bs')"
      using next_fb False by (simp add: build_next_flashblock_def a Let_def builder_txs_def [symmetric] res slice a3)
    show ?thesis by (rule seal_flashblock_sealed [OF seal]) (use own [OF a3] 2 assms(3) in simp_all)
  qed
qed

lemma build_rounds_sealed:
  assumes "build_rounds E C cx w L ch btx pl rds bs = Some (err, bs')" "P (bs_info bs) (bs_db bs)" "sealed_from cx ch pl P (bs_best_payload bs)"
    and "\<And>tob first final info db a info' db'. add_builder_txs E cx w L btx tob first final info db = (a, info', db') \<Longrightarrow> P info db \<Longrightarrow> P info' db'"
    and "\<And>lim its info db sh best pool res. execute_best_transactions E C cx w lim its info db sh best pool = Some res \<Longrightarrow> P info db \<Longrightarrow>
      P (lr_info res) (lr_db res)"
  shows "sealed_from cx ch pl P (bs_best_payload bs')"
  using assms(1-3)
proof (induction rds arbitrary: bs)
  case (Cons rd rds)
  show ?case
  proof (cases "fs_flashblock_index (bs_fb bs) > fs_target_flashblock_count (bs_fb bs)")
    case False
    with Cons.prems(1) obtain r bs1 where r: "build_next_flashblock E C cx w L ch btx pl rd bs = Some (r, bs1)"
      by (auto split: option.splits)
    note step = build_next_flashblock_sealed [OF r Cons.prems(2,3) assms(4,5)]
    show ?thesis
    proof (cases r)
      case (RoundNext fs)
      with Cons.prems(1) False r have n: "build_rounds E C cx w L ch btx pl rds (bs1\<lparr>bs_fb := fs\<rparr>) = Some (err, bs')" by simp
      show ?thesis by (rule Cons.IH [OF n]) (use step in simp_all)
    qed (use Cons.prems(1) False r step in auto)
  qed (use Cons.prems in simp)
qed simp

lemma resolve_best_payload_built:
  assumes "p \<in> set (snd (resolve_best_payload synchronously found ch best fallback None))"
  shows "\<exists>root trie. cl_state_root ch None (snd best) = Inr (root, trie) \<and>
    p = (fst best)\<lparr>ob_header := (ob_header (fst best))\<lparr>hd_state_root := root\<rparr>, ob_trie_updates := Some trie\<rparr>"
  using assms
  by (auto simp: resolve_best_payload_def resolve_zero_state_root_def Let_def map_sum_Inr_iff split: if_splits sum.splits prod.splits)

text \<open>
  The payloads a build hands over for the engine and the peers: sealed from a record and a database
  with the property, with the full state root of that database.
\<close>

lemma build_payload_built:
  assumes "build_payload E C cx w L ch btx cfg pl en = Some out" "p \<in> set (bo_built out)"
    and "\<And>db0 info0 db1. en_parent_state en = Inr db0 \<Longrightarrow> execute_pre_steps cx w ch pl db0 = Inr (info0, db1) \<Longrightarrow> P info0 db1"
    and own: "\<And>tob first final info db a info' db'. add_builder_txs E cx w L btx tob first final info db = (a, info', db') \<Longrightarrow> P info db \<Longrightarrow> P info' db'"
    and loop: "\<And>lim its info db sh best pool res. execute_best_transactions E C cx w lim its info db sh best pool = Some res \<Longrightarrow> P info db \<Longrightarrow>
      P (lr_info res) (lr_db res)"
    and cached: "\<And>txs info db e info' db'. execute_cached_flashblocks_transactions cx w txs info db = (e, info', db') \<Longrightarrow> P info db \<Longrightarrow> P info' db'"
  shows "\<exists>best root trie. sealed_from cx ch pl P best \<and> cl_state_root ch None (snd best) = Inr (root, trie) \<and>
    p = (fst best)\<lparr>ob_header := (ob_header (fst best))\<lparr>hd_state_root := root\<rparr>, ob_trie_updates := Some trie\<rparr>"
proof -
  have base: "P info db" if pre: "en_parent_state en = Inr db0" "execute_pre_steps cx w ch pl db0 = Inr (info0, db1)"
    and f: "fallback_base E cx w L btx pl en fs info0 db1 = (info, db)" for db0 info0 db1 fs info db
  proof -
    have 0: "P info0 db1" by (rule assms(3) [OF pre])
    show ?thesis
    proof (cases "cached_txs cx pl en")
      case None
      show ?thesis
      proof (cases "pl_no_tx_pool pl")
        case False
        obtain a where "add_builder_txs E cx w L btx False (is_first_flashblock fs) (is_last_flashblock fs) info0 db1 = (a, info, db)"
          using f None False by (cases "add_builder_txs E cx w L btx False (is_first_flashblock fs) (is_last_flashblock fs) info0 db1")
            (simp add: fallback_base_def)
        from own [OF this 0] show ?thesis .
      qed (use f None 0 in \<open>simp add: fallback_base_def\<close>)
    next
      case (Some txs)
      obtain e where "execute_cached_flashblocks_transactions cx w txs info0 db1 = (e, info, db)"
        using f Some by (cases "execute_cached_flashblocks_transactions cx w txs info0 db1") (simp add: fallback_base_def)
      from cached [OF this 0] show ?thesis .
    qed
  qed
  have built: "bo_built (finished_build cfg en ch err best fallback ws p2p) =
      snd (resolve_best_payload (bg_disable_async_calculate_state_root cfg) (en_parent_found en) ch best fallback None)" for err best fallback ws p2p
    by (simp add: finished_build_def split: prod.split)
  show ?thesis
    using assms(1)
  proof (cases rule: build_payload_cases)
    case (failed e ws p2p)
    with assms(2) show ?thesis by (simp add: failed_build_def)
  next
    case (fallback_only db0 info0 db1 info db fallback msg fb)
    have "sealed_from cx ch pl P (fallback, db)"
      using base [OF fallback_only(1,2,3)] fallback_only(4) by (rule sealed_fromI)
    moreover have "p \<in> set (snd (resolve_best_payload (bg_disable_async_calculate_state_root cfg) (en_parent_found en) ch (fallback, db) fallback None))"
      using assms(2) unfolding fallback_only(5) built .
    ultimately show ?thesis using resolve_best_payload_built by blast
  next
    case (rounds db0 info0 db1 info db fallback msg fb target err bs)
    have P: "P info db" by (rule base [OF rounds(1,2,5)])
    have "sealed_from cx ch pl P (bs_best_payload bs)"
      by (rule build_rounds_sealed [where P = P, OF rounds(8) _ _ own loop]) (use P sealed_fromI [where P = P, OF P rounds(6)] in \<open>simp_all add: rounds_start_def\<close>)
    moreover have "p \<in> set (snd (resolve_best_payload (bg_disable_async_calculate_state_root cfg) (en_parent_found en) ch (bs_best_payload bs) fallback None))"
      using assms(2) unfolding rounds(9) built .
    ultimately show ?thesis using resolve_best_payload_built by blast
  qed
qed

section \<open>Executing again\<close>

text \<open>
  A run of plain executions: every transaction is executed on the database the ones before it left,
  without the gasless relaxation.
\<close>

definition depositor_nonce :: "builder_ctx \<Rightarrow> 'd world \<Rightarrow> 'd \<Rightarrow> pool_tx \<Rightarrow> nat option" where
  "depositor_nonce cx w db tx = (if cx_regolith cx \<and> px_is_deposit tx then w_account_nonce w db (px_signer tx) else None)"

inductive executed :: "builder_ctx \<Rightarrow> 'd world \<Rightarrow> 'd \<Rightarrow> pool_tx list \<Rightarrow> nat \<Rightarrow> receipt list \<Rightarrow> 'd \<Rightarrow> bool" for cx w db0 where
  executed_none: "executed cx w db0 [] 0 [] db0"
| executed_snoc: "executed cx w db0 txs gas rcs db \<Longrightarrow> snd (w_transact w db tx False) = Inr (r, db') \<Longrightarrow>
    (cx_regolith cx \<and> px_is_deposit tx \<longrightarrow> w_account_nonce w db (px_signer tx) \<noteq> None) \<Longrightarrow>
    executed cx w db0 (txs @ [tx]) (gas + er_gas_used r) (rcs @ [build_receipt cx w tx r (gas + er_gas_used r) (depositor_nonce cx w db tx)]) db'"

definition traced :: "builder_ctx \<Rightarrow> 'd world \<Rightarrow> 'd \<Rightarrow> execution_info \<Rightarrow> 'd \<Rightarrow> bool" where
  "traced cx w db0 info db \<longleftrightarrow> executed cx w db0 (ei_executed_transactions info) (ei_cumulative_gas_used info) (ei_receipts info) db \<and>
     ei_executed_senders info = map px_signer (ei_executed_transactions info)"

lemma traced_new: "traced cx w db0 execution_info_new db0"
  by (simp add: traced_def execution_info_new_def executed_none)

lemma traced_push:
  assumes "traced cx w db0 info db" "snd (w_transact w db tx False) = Inr (r, db')" "n = depositor_nonce cx w db tx"
    and "cx_regolith cx \<and> px_is_deposit tx \<longrightarrow> w_account_nonce w db (px_signer tx) \<noteq> None"
  shows "traced cx w db0 (push_executed cx w tx r da n f info) db'"
  using executed_snoc [OF conjunct1 [OF assms(1) [unfolded traced_def]] assms(2,4)] assms(1,3)
  by (simp add: traced_def push_executed_def Let_def)

lemma traced_cong:
  "ei_executed_transactions info' = ei_executed_transactions info \<Longrightarrow> ei_cumulative_gas_used info' = ei_cumulative_gas_used info \<Longrightarrow>
   ei_receipts info' = ei_receipts info \<Longrightarrow> ei_executed_senders info' = ei_executed_senders info \<Longrightarrow> traced cx w db0 info' db = traced cx w db0 info db"
  by (simp add: traced_def)

text \<open>On a chain without the gasless contract, every execution is a plain one.\<close>

lemma plain_transact:
  assumes "fst (transact_maybe_gasless cx w co db tx i) = Inr (r, db', g, oc)" "\<not> cx_has_gasless_contract cx"
  shows "snd (w_transact w db tx False) = Inr (r, db')"
  by (rule transact_maybe_gasless_Inr [OF assms(1)]) (use assms(2) in \<open>auto simp: is_gasless_def split: if_splits\<close>)

lemma execute_sequencer_loop_traced:
  assumes "execute_sequencer_loop cx w txs info db = Inr (info', db')" "traced cx w db0 info db" "\<not> cx_has_gasless_contract cx"
  shows "traced cx w db0 info' db'"
  using assms(1,2)
proof (induction txs arbitrary: info db)
  case (Cons tx txs)
  show ?case
  proof (cases "fst (transact_maybe_gasless cx w noop_ops db tx ())")
    case (Inl e)
    with Cons show ?thesis by (cases e) (fastforce simp: Let_def split: if_splits)+
  next
    case (Inr q)
    obtain r d g oc where q: "q = (r, d, g, oc)" by (cases q) auto
    note plain = plain_transact [OF Inr [unfolded q] assms(3)]
    let ?info = "push_executed cx w tx r (if px_is_deposit tx then 0 else px_da_size tx) (depositor_nonce cx w db tx) 0 info"
    from Cons.prems(1) have n: "cx_regolith cx \<and> px_is_deposit tx \<longrightarrow> w_account_nonce w db (px_signer tx) \<noteq> None"
      and e: "execute_sequencer_loop cx w txs ?info d = Inr (info', db')"
      by (auto simp: Let_def Inr q depositor_nonce_def split: if_splits)
    from Cons.IH [OF e traced_push [OF Cons.prems(2) plain refl n]] show ?thesis .
  qed
qed simp

lemma execute_pre_steps_traced:
  assumes "execute_pre_steps cx w ch pl db = Inr (info, db')" "\<not> cx_has_gasless_contract cx"
  shows "\<exists>db1. cl_pre_execution ch db = Inr db1 \<and> traced cx w db1 info db'"
proof -
  obtain db1 where 1: "cl_pre_execution ch db = Inr db1" "execute_sequencer_transactions cx w (pl_transactions pl) db1 = Inr (info, db')"
    using assms(1) by (auto simp: execute_pre_steps_def and_then_Inr map_sum_Inr_iff)
  then obtain info1 where i: "execute_sequencer_loop cx w (pl_transactions pl) execution_info_new db1 = Inr (info1, db')"
    "traced cx w db1 info db' = traced cx w db1 info1 db'"
    by (auto simp: execute_sequencer_transactions_def traced_def split: sum.splits if_splits option.splits)
  from execute_sequencer_loop_traced [OF i(1) traced_new assms(2)] i(2) 1(1) show ?thesis by blast
qed

lemma add_builder_loop_traced:
  assumes "add_builder_loop cx w tob bs invalid info db = (e, info', db')" "traced cx w db0 info db" "\<And>b. b \<in> set bs \<Longrightarrow> \<not> px_is_deposit (bc_signed_tx b)"
  shows "traced cx w db0 info' db'"
  using assms
proof (induction bs arbitrary: invalid info db)
  case (Cons b bs)
  let ?tx = "bc_signed_tx b"
  have nd: "\<not> px_is_deposit ?tx" using Cons.prems(3) by simp
  note IH = Cons.IH [OF _ _ Cons.prems(3)]
  show ?case
  proof (cases "bc_is_top_of_block b \<noteq> tob \<or> px_signer ?tx \<in> set invalid")
    case True
    with Cons.prems(1,2) show ?thesis by (intro IH) (auto simp: Let_def split: if_splits)
  next
    case False
    show ?thesis
    proof (cases "snd (w_transact w db ?tx False)")
      case (Inl err)
      with Cons.prems(1,2) False show ?thesis by (cases err) (auto simp: Let_def intro: IH)
    next
      case (Inr p)
      obtain r d where p: "p = (r, d)" by (cases p)
      show ?thesis
      proof (cases "er_success r")
        case True
        with Cons.prems(1) False Inr p have l: "add_builder_loop cx w tob bs invalid (push_executed cx w ?tx r (bc_da_size b) None 0 info) d = (e, info', db')"
          by (simp add: Let_def)
        have "traced cx w db0 (push_executed cx w ?tx r (bc_da_size b) None 0 info) d"
          by (rule traced_push [OF Cons.prems(2) Inr [unfolded p]]) (simp_all add: depositor_nonce_def nd)
        from IH [OF l this] show ?thesis by simp
      next
        case ns: False
        with Cons.prems(1,2) False Inr p show ?thesis by (intro IH) (auto simp: Let_def)
      qed
    qed
  qed
qed simp

lemma add_builder_txs_traced:
  assumes "add_builder_txs E cx w L btx tob first final info db = (a, info', db')" "traced cx w db0 info db"
    and "\<And>tx. own_tx E cx w L btx tx \<Longrightarrow> \<not> px_is_deposit tx"
  shows "traced cx w db0 info' db'"
proof (cases "simulate_builder_txs E cx w L btx db first final")
  case (Inr bs)
  obtain e i d where l: "add_builder_loop cx w tob bs [] info db = (e, i, d)" by (metis prod_cases3)
  have i: "info' = i" "db' = d" using assms(1) by (auto simp: add_builder_txs_def Inr l split: option.splits)
  have "\<not> px_is_deposit (bc_signed_tx b)" if "b \<in> set bs" for b
    using assms(3) [of "bc_signed_tx b"] Inr that unfolding own_tx_def by blast
  with add_builder_loop_traced [OF l assms(2)] i show ?thesis by blast
qed (use assms in \<open>simp add: add_builder_txs_def\<close>)

lemma run_tx_loop_traced:
  assumes "run_tx_loop E cx w co lim its st = Some c" "traced cx w db0 (ls_info st) (ls_db st)" "\<not> cx_has_gasless_contract cx"
  shows "traced cx w db0 (ls_info (control_state c)) (ls_db (control_state c))"
proof (rule run_tx_loop_invariant [where I = "\<lambda>s. traced cx w db0 (ls_info s) (ls_db s)", OF assms(1,2)])
  fix s :: "('a, 'b) loop_state" and tx best
  assume I: "traced cx w db0 (ls_info s) (ls_db s)"
  let ?s = "s\<lparr>ls_best := best, ls_considered := ls_considered s + 1\<rparr>"
  let ?s' = "control_state (tx_step E cx w co lim (its (ls_considered s)) tx ?s)"
  consider r db' g oc where "admitted E cx w co lim (its (ls_considered s)) tx ?s r db' g oc" "ls_info ?s' = commit_tx cx w tx r g (ls_info s)" "ls_db ?s' = db'"
    | b where "ls_info ?s' = (ls_info s)\<lparr>ei_gasless_budget_exhausted := b\<rparr>" "ls_db ?s' = ls_db s"
    using tx_step_effect [OF refl, of E cx w co lim "its (ls_considered s)" tx ?s] by fastforce
  then show "traced cx w db0 (ls_info ?s') (ls_db ?s')"
  proof cases
    case (1 r db' g oc)
    have "\<not> px_is_deposit tx" "snd (w_transact w (ls_db s) tx False) = Inr (r, db')"
      using 1(1) plain_transact [OF _ assms(3)] by (auto simp: admitted_def unfit_def)
    then have "traced cx w db0 (commit_tx cx w tx r g (ls_info s)) db'"
      unfolding commit_tx_def using I by (intro traced_push) (auto simp: depositor_nonce_def cong: traced_cong)
    with 1 show ?thesis by simp
  next
    case (2 b)
    with I show ?thesis by (simp add: traced_def)
  qed
qed

lemma execute_best_traced:
  assumes "execute_best_transactions E C cx w lim its info db sh best pool = Some res" "traced cx w db0 info db" "\<not> cx_has_gasless_contract cx"
  shows "traced cx w db0 (lr_info res) (lr_db res)"
proof (cases rule: execute_best_cases [of E C cx w lim its info db sh best pool])
  case (1 c)
  with assms(1) obtain k where k: "c = Some k" "res = loop_result_of k" by auto
  from run_tx_loop_traced [OF _ _ assms(3), of E w "rcs_ops E C"] 1(3) k assms(2) show ?thesis by fastforce
next
  case (2 c)
  with assms(1) obtain k where k: "c = Some k" "res = loop_result_of k" by auto
  from run_tx_loop_traced [OF _ _ assms(3), of E w noop_ops] 2(3) k assms(2) show ?thesis by fastforce
qed

lemma execute_cached_traced:
  assumes "execute_cached_flashblocks_transactions cx w txs info db = (e, info', db')" "traced cx w db0 info db" "\<not> cx_has_gasless_contract cx"
  shows "traced cx w db0 info' db'"
  using assms(1,2)
proof (induction txs arbitrary: info db)
  case (Cons tx txs)
  show ?case
  proof (cases "\<exists>r d g oc. fst (transact_maybe_gasless cx w noop_ops db tx ()) = Inr (r, d, g, oc) \<and> over_block_limits cx info tx = Inr () \<and>
      \<not> px_is_eip4844 tx \<and> \<not> px_is_deposit tx")
    case True
    then obtain r d g oc where t: "fst (transact_maybe_gasless cx w noop_ops db tx ()) = Inr (r, d, g, oc)" "\<not> px_is_deposit tx"
      and e: "execute_cached_flashblocks_transactions cx w txs (push_executed cx w tx r (px_da_size tx) None (miner_fee cx tx) info) d = (e, info', db')"
      using Cons.prems by auto
    have "traced cx w db0 (push_executed cx w tx r (px_da_size tx) None (miner_fee cx tx) info) d"
      by (rule traced_push [OF Cons.prems(2) plain_transact [OF t(1) assms(3)]]) (simp_all add: depositor_nonce_def t(2))
    from Cons.IH [OF e this] show ?thesis .
  next
    case False
    with Cons.prems have "info' = info \<and> db' = db" by (auto split: sum.splits if_splits)
    with Cons.prems(2) show ?thesis by simp
  qed
qed simp

lemma execute_transactions_loop_append:
  "execute_transactions_loop m fk w G (xs @ ys) info db =
     and_then (execute_transactions_loop m fk w G xs info db) (\<lambda>(i, d). execute_transactions_loop m fk w G ys i d)"
  by (induction xs arbitrary: info db) (auto simp: and_then_def Let_def split: sum.split prod.split option.split)

lemma executed_loop:
  assumes "executed cx w db0 txs gas rcs db" "list_all px_recovers txs" "gas \<le> G" "gas \<le> usize_max"
    and "fk_regolith fk = cx_regolith cx" "fk_canyon fk = cx_canyon cx"
    and "ei_cumulative_gas_used info = 0" "ei_receipts info = []" "ei_executed_senders info = []" "ei_executed_transactions info = []"
  shows "execute_transactions_loop None fk w G txs info db0 =
    Inr (info\<lparr>ei_cumulative_gas_used := gas, ei_receipts := rcs, ei_executed_senders := map px_signer txs, ei_executed_transactions := txs\<rparr>, db)"
  using assms(1-4)
proof (induction rule: executed.induct)
  case executed_none
  then show ?case using assms(7-10) by simp
next
  case (executed_snoc txs gas rcs db tx r db')
  have "build_synced_receipt (fk_canyon fk) w tx r (gas + er_gas_used r) (depositor_nonce cx w db tx) =
      build_receipt cx w tx r (gas + er_gas_used r) (depositor_nonce cx w db tx)"
    by (simp add: build_synced_receipt_def build_receipt_def assms(6))
  with executed_snoc show ?case
    by (auto simp: execute_transactions_loop_append and_then_def Let_def checked_add_def depositor_nonce_def assms(5))
qed

lemma build_block_extra_data:
  assumes "build_block cx ch pl info db fb calc = Inr (p, msg, fb')"
  shows "pl_extra_data pl = Inr (hd_extra_data (ob_header p))"
proof -
  have "\<not> cx_block_number cx \<noteq> pl_parent_number pl + 1" using build_block_config(1) [OF assms] by simp
  from assms [unfolded build_block_def if_not_P [OF this] split_beta] show ?thesis
    by (elim and_then_InrE) (auto simp: Let_def map_sum_Inr_iff block_header_def split: option.splits)
qed

text \<open>Sealing the same record again, with the full state root.\<close>

lemma build_block_again:
  assumes b: "build_block cx ch pl info db fb calc = Inr (p, msg, fb')" and root: "cl_state_root ch None db = Inr (root, trie)"
    and "cx_block_number cx' = cx_block_number cx" "cx_timestamp cx' = cx_timestamp cx" "cx_base_fee cx' = cx_base_fee cx"
      "block_gas_limit cx' = block_gas_limit cx" "cx_canyon cx' = cx_canyon cx"
    and "pl_parent_hash pl' = pl_parent_hash pl" "pl_parent_number pl' = pl_parent_number pl" "pl_beneficiary pl' = pl_beneficiary pl"
      "pl_prev_randao pl' = pl_prev_randao pl" "pl_parent_beacon_block_root pl' = pl_parent_beacon_block_root pl"
      "pl_withdrawals pl' = pl_withdrawals pl" "pl_isthmus pl' = pl_isthmus pl" "pl_extra_data pl' = pl_extra_data pl"
    and "ei_executed_transactions info' = ei_executed_transactions info" "ei_receipts info' = ei_receipts info"
      "ei_cumulative_gas_used info' = ei_cumulative_gas_used info"
      "ei_optional_blob_fields info' = Some (hd_excess_blob_gas (ob_header p), hd_blob_gas_used (ob_header p))"
  shows "\<exists>p' m. build_block cx' ch pl' info' db None True = Inr (p', m, None) \<and> ob_header p' = (ob_header p)\<lparr>hd_state_root := root\<rparr> \<and>
    ob_transactions p' = ob_transactions p \<and> ob_receipts p' = ob_receipts p \<and> ob_withdrawals p' = ob_withdrawals p"
proof -
  have n: "cx_block_number cx = pl_parent_number pl + 1" by (rule build_block_config(1) [OF b])
  from b n have "\<not> cx_block_number cx \<noteq> pl_parent_number pl + 1" by simp
  from b [unfolded build_block_def if_not_P [OF this] split_beta] show ?thesis
  proof (elim and_then_InrE, goal_cases)
    case (1 a1 a2 a3 xd)
    obtain ebg bgu where a3: "a3 = (ebg, bgu)" by (cases a3)
    obtain wr rh where a2: "a2 = (wr, rh)" by (cases a2)
    obtain root_b where br: "pl_parent_beacon_block_root pl = Some root_b" using build_block_config(4) [OF b] by auto
    have p: "ob_header p = block_header cx ch pl info (fst a1) wr rh ebg bgu xd" "ob_transactions p = ei_executed_transactions info"
      "ob_receipts p = ei_receipts info" "ob_withdrawals p = pl_withdrawals pl"
      using 1(5) by (auto simp: Let_def a2 a3 split: option.splits)
    have bf: "ei_optional_blob_fields info' = Some (ebg, bgu)" using assms(19) p(1) by (simp add: block_header_def)
    have xd: "pl_extra_data pl = Inr xd" using 1(4) by (cases "pl_extra_data pl") simp_all
    have hd: "block_header cx' ch pl' info' root wr rh ebg bgu xd = (ob_header p)\<lparr>hd_state_root := root\<rparr>"
      using assms(4-11,12,16-18) by (simp add: p(1) block_header_def)
    have w: "(if pl_isthmus pl' then map_sum ProviderFailed (\<lambda>root. (Some root, Some (cl_empty_requests_hash ch))) (cl_withdrawals_root ch db)
            else Inr (if cx_canyon cx' then Some (cl_empty_withdrawals ch) else None, None)) = Inr (wr, rh)"
      using 1(2) unfolding a2 assms(7,14) .
    show ?thesis
      using hd by (simp add: build_block_def and_then_def root w [simplified] blob_fields_def bf assms(3,9,12,13,15,16,17) n xd br slice_from_def Let_def p(2-4))
  qed
qed

text \<open>
  What is assumed of the client: the environment of the next block has the gas limit and the
  beneficiary of its attributes, and the extra data encodes its parameters in the documented length,
  so that decoding them and encoding them again gives the same.
\<close>

definition client_laws :: "('d, 'u) node_client \<Rightarrow> bool" where
  "client_laws nc \<longleftrightarrow>
     (\<forall>ph ea env. nc_next_evm_env nc ph ea = Inr env \<longrightarrow> bv_gas_limit env = ea_gas_limit ea \<and> bv_beneficiary env = ea_suggested_fee_recipient ea) \<and>
     (\<forall>ts params mbf xd. nc_jovian_extra_data nc ts params mbf = Inr xd \<longrightarrow> length xd = 17 \<and>
        nc_jovian_extra_data nc ts (Some (take 8 (drop 1 xd))) (Some (be_value (take 8 (drop 9 xd)))) = Inr xd) \<and>
     (\<forall>ts params xd. nc_holocene_extra_data nc ts params = Inr xd \<longrightarrow> length xd = 9 \<and>
        nc_holocene_extra_data nc ts (Some (take 8 (drop 1 xd))) = Inr xd)"

lemma extra_data_again:
  assumes "client_laws nc" "extra_data nc attrs = Inr xd" "hd_timestamp (wp_header wp) = at_timestamp attrs"
  obtains params where "extra_data_params (nc_forks nc (at_timestamp attrs)) xd = Inr params" "extra_data nc (wire_attributes wp params) = Inr xd"
proof -
  let ?fk = "nc_forks nc (at_timestamp attrs)"
  have jov: "length xd = 17 \<and> nc_jovian_extra_data nc ts (Some (take 8 (drop 1 xd))) (Some (be_value (take 8 (drop 9 xd)))) = Inr xd"
    if "nc_jovian_extra_data nc ts params mbf = Inr xd" for ts params mbf using assms(1) that unfolding client_laws_def by blast
  have hol: "length xd = 9 \<and> nc_holocene_extra_data nc ts (Some (take 8 (drop 1 xd))) = Inr xd"
    if "nc_holocene_extra_data nc ts params = Inr xd" for ts params using assms(1) that unfolding client_laws_def by blast
  note defs = extra_data_def extra_data_params_def wire_attributes_def Let_def
  consider "fk_jovian ?fk" | "\<not> fk_jovian ?fk" "fk_holocene ?fk" | "\<not> fk_jovian ?fk" "\<not> fk_holocene ?fk" by blast
  then show thesis
  proof cases
    case 1
    with assms(2) have "nc_jovian_extra_data nc (at_timestamp attrs) (at_eip_1559_params attrs) (at_min_base_fee attrs) = Inr xd" by (simp add: defs)
    note l = jov [OF this]
    show thesis
      by (rule that [of "(Some (take 8 (drop 1 xd)), Some (be_value (take 8 (drop 9 xd))))"])
        (use 1 l assms(3) in \<open>simp_all only: defs payload_attributes.simps fst_conv snd_conv, simp_all\<close>)
  next
    case 2
    with assms(2) have "nc_holocene_extra_data nc (at_timestamp attrs) (at_eip_1559_params attrs) = Inr xd" by (simp add: defs)
    note l = hol [OF this]
    show thesis
      by (rule that [of "(Some (take 8 (drop 1 xd)), None)"])
        (use 2 l assms(3) in \<open>simp_all only: defs payload_attributes.simps fst_conv snd_conv, simp_all\<close>)
  next
    case 3
    with assms(2) show thesis by (intro that [of "(None, None)"]) (use 3 assms(3) in \<open>simp_all add: defs\<close>)
  qed
qed

lemma make_ctx_fields:
  assumes "(cx, pl) = make_ctx nc st parent_hash parent_header attrs evm_env"
  shows "cx_block_number cx = min (bv_number evm_env) usize_max" "cx_timestamp cx = at_timestamp attrs" "cx_base_fee cx = bv_basefee evm_env"
    "cx_gas_limit_config cx = st_gas_limit_config st" "cx_attributes_gas_limit cx = at_gas_limit attrs" "cx_env_gas_limit cx = bv_gas_limit evm_env"
    "cx_regolith cx = fk_regolith (nc_forks nc (at_timestamp attrs))" "cx_canyon cx = fk_canyon (nc_forks nc (at_timestamp attrs))"
    "cx_jovian cx = fk_jovian (nc_forks nc (at_timestamp attrs))" "cx_has_gasless_contract cx = nc_gasless_contract nc"
    "pl_parent_hash pl = parent_hash" "pl_parent_number pl = hd_number parent_header" "pl_beneficiary pl = bv_beneficiary evm_env"
    "pl_prev_randao pl = at_prev_randao attrs" "pl_parent_beacon_block_root pl = at_parent_beacon_block_root attrs"
    "pl_withdrawals pl = (if fk_shanghai (nc_forks nc (at_timestamp attrs)) then Some (at_withdrawals attrs) else None)"
    "pl_isthmus pl = fk_isthmus (nc_forks nc (at_timestamp attrs))" "pl_extra_data pl = extra_data nc attrs"
  using assms by (simp_all add: make_ctx_def Let_def)

text \<open>What a builder's context says of the environment that the header of its block describes.\<close>

lemma get_ctx_header:
  assumes "get_op_payload_builder_ctx nc st parent_hash parent_header attrs = Inr ((cx, pl), ea)" "client_laws nc" "st_gas_limit_config st = None"
    and "build_block cx ch pl info db fb calc = Inr (p, msg, fb')"
  obtains evm_env where "nc_next_evm_env nc parent_header ea = Inr evm_env" "(cx, pl) = make_ctx nc st parent_hash parent_header attrs evm_env"
    "header_attributes ((ob_header p)\<lparr>hd_state_root := root\<rparr>) = ea" "extra_data nc attrs = Inr (hd_extra_data (ob_header p))"
    "bv_gas_limit evm_env = block_gas_limit cx"
proof -
  obtain xd evm_env where xd: "extra_data nc attrs = Inr xd" and ea: "ea = next_block_attributes parent_header attrs xd"
    and env: "nc_next_evm_env nc parent_header ea = Inr evm_env" and mk: "(cx, pl) = make_ctx nc st parent_hash parent_header attrs evm_env"
    using assms(1) by (auto simp: get_op_payload_builder_ctx_def and_then_Inr map_sum_Inr_iff Let_def)
  have pl: "pl_extra_data pl = Inr xd" "pl_prev_randao pl = at_prev_randao attrs" "pl_beneficiary pl = bv_beneficiary evm_env"
    "pl_parent_beacon_block_root pl = at_parent_beacon_block_root attrs" "cx_timestamp cx = at_timestamp attrs"
    "cx_gas_limit_config cx = None" "cx_attributes_gas_limit cx = at_gas_limit attrs" "cx_env_gas_limit cx = bv_gas_limit evm_env"
    using mk xd assms(3) by (simp_all add: make_ctx_def Let_def)
  have law: "bv_gas_limit evm_env = ea_gas_limit ea" "bv_beneficiary evm_env = at_suggested_fee_recipient attrs"
    using assms(2) env by (auto simp: client_laws_def ea next_block_attributes_def)
  have gas: "bv_gas_limit evm_env = block_gas_limit cx"
    using law(1) pl(6-8) by (simp add: block_gas_limit_def ea next_block_attributes_def split: option.split)
  obtain sr wr rh ebg bgu xd' where p: "ob_header p = block_header cx ch pl info sr wr rh ebg bgu xd'"
    by (rule build_block_Inr_fields [OF assms(4)]) simp
  have xd': "xd' = xd"
  proof -
    have "pl_extra_data pl = Inr (hd_extra_data (ob_header p))" by (rule build_block_extra_data [OF assms(4)])
    with pl(1) p show ?thesis by (simp add: block_header_def)
  qed
  have "header_attributes ((ob_header p)\<lparr>hd_state_root := root\<rparr>) = ea"
    using law gas pl by (simp add: header_attributes_def p block_header_def ea next_block_attributes_def xd')
  with env mk xd gas p xd' show thesis by (intro that) (simp_all add: block_header_def)
qed

section \<open>Full payloads between builders\<close>

text \<open>The plain executions that a record stands for, from the parent state of the build on.\<close>

definition parent_traced :: "builder_ctx \<Rightarrow> 'd world \<Rightarrow> ('d, 'u) chain_lib \<Rightarrow> string + 'd \<Rightarrow> execution_info \<Rightarrow> 'd \<Rightarrow> bool" where
  "parent_traced cx w ch parent info db \<longleftrightarrow> (\<exists>db0 db1. parent = Inr db0 \<and> cl_pre_execution ch db0 = Inr db1 \<and> traced cx w db1 info db)"

lemma built_parent_traced:
  assumes "build_payload E C cx w L ch btx cfg pl en = Some out" "p \<in> set (bo_built out)" "\<not> cx_has_gasless_contract cx"
    and "\<And>tx. own_tx E cx w L btx tx \<Longrightarrow> \<not> px_is_deposit tx"
  shows "\<exists>best root trie. sealed_from cx ch pl (parent_traced cx w ch (en_parent_state en)) best \<and> cl_state_root ch None (snd best) = Inr (root, trie) \<and>
    p = (fst best)\<lparr>ob_header := (ob_header (fst best))\<lparr>hd_state_root := root\<rparr>, ob_trie_updates := Some trie\<rparr>"
proof (rule build_payload_built [OF assms(1,2)])
  show "parent_traced cx w ch (en_parent_state en) info0 db1"
    if "en_parent_state en = Inr db0" "execute_pre_steps cx w ch pl db0 = Inr (info0, db1)" for db0 info0 db1
    using execute_pre_steps_traced [OF that(2) assms(3)] that(1) by (auto simp: parent_traced_def)
qed (auto simp: parent_traced_def dest: add_builder_txs_traced [OF _ _ assms(4)] execute_best_traced [OF _ _ assms(3)] execute_cached_traced [OF _ _ assms(3)])

text \<open>The peer executes the transactions to the same record.\<close>

lemma execute_transactions_again:
  assumes "traced cx w db1 info db" "list_all px_recovers (ei_executed_transactions info)" "ei_cumulative_gas_used info \<le> usize_max"
    and "fk_regolith fk = cx_regolith cx" "fk_canyon fk = cx_canyon cx" "fk_jovian fk \<Longrightarrow> w_da_footprint_scalar w db \<noteq> None"
  obtains scalar where "execute_transactions None fk w (ei_cumulative_gas_used info) (ei_executed_transactions info)
      (execution_info_new\<lparr>ei_optional_blob_fields := blob\<rparr>) db1 =
    Inr (execution_info_new\<lparr>ei_optional_blob_fields := blob, ei_cumulative_gas_used := ei_cumulative_gas_used info, ei_receipts := ei_receipts info,
      ei_executed_senders := map px_signer (ei_executed_transactions info), ei_executed_transactions := ei_executed_transactions info,
      ei_da_footprint_scalar := scalar\<rparr>, db)"
proof -
  let ?info0 = "execution_info_new\<lparr>ei_optional_blob_fields := blob\<rparr>"
  note loop = executed_loop [OF conjunct1 [OF assms(1) [unfolded traced_def]] assms(2) order_refl assms(3-5), of ?info0]
  show thesis
  proof (cases "fk_jovian fk")
    case True
    then obtain s where "w_da_footprint_scalar w db = Some s" using assms(6) by auto
    with True loop show thesis by (intro that [of "Some s"]) (simp add: execute_transactions_def and_then_def execution_info_new_def)
  next
    case False
    with loop show thesis by (intro that [of None]) (simp add: execute_transactions_def and_then_def execution_info_new_def)
  qed
qed

text \<open>The context the peer makes of a header is the one the block was sealed in, as far as sealing reads it.\<close>

lemma build_block_at_peer:
  assumes b: "build_block cx ch pl info db fb calc = Inr (p0, msg, fb')" and root: "cl_state_root ch None db = Inr (root, trie)"
    and mk: "(cx, pl) = make_ctx nc st parent_hash parent_header attrs evm_env" and gl: "bv_gas_limit evm_env = block_gas_limit cx"
    and p: "p = p0\<lparr>ob_header := (ob_header p0)\<lparr>hd_state_root := root\<rparr>, ob_trie_updates := t\<rparr>"
    and mk': "into_flashblocks_builder_ctx nc hc parent_hash parent_header (wire_attributes (from_built_payload p) params) evm_env = (cx', pl')"
    and xd: "extra_data nc (wire_attributes (from_built_payload p) params) = extra_data nc attrs"
    and info: "ei_executed_transactions info' = ei_executed_transactions info" "ei_receipts info' = ei_receipts info"
      "ei_cumulative_gas_used info' = ei_cumulative_gas_used info"
      "ei_optional_blob_fields info' = Some (hd_excess_blob_gas (ob_header p), hd_blob_gas_used (ob_header p))"
  shows "\<exists>p' m. build_block cx' ch pl' info' db None True = Inr (p', m, None) \<and> ob_header p' = ob_header p \<and>
    ob_transactions p' = ob_transactions p \<and> ob_receipts p' = ob_receipts p \<and> ob_withdrawals p' = ob_withdrawals p"
proof -
  let ?wa = "wire_attributes (from_built_payload p) params"
  note c = make_ctx_fields [OF mk]
  note c' = make_ctx_fields [OF mk' [symmetric, unfolded into_flashblocks_builder_ctx_def]]
  obtain sr wr rh ebg bgu xd0 where h0: "ob_header p0 = block_header cx ch pl info sr wr rh ebg bgu xd0" and t0: "ob_withdrawals p0 = pl_withdrawals pl"
    by (rule build_block_Inr_fields [OF b]) simp
  have at: "at_timestamp ?wa = at_timestamp attrs" "at_prev_randao ?wa = at_prev_randao attrs" "at_gas_limit ?wa = None"
    "at_parent_beacon_block_root ?wa = at_parent_beacon_block_root attrs"
    "at_withdrawals ?wa = (case pl_withdrawals pl of Some ws \<Rightarrow> ws | None \<Rightarrow> [])"
    by (simp_all add: wire_attributes_def from_built_payload_def Let_def p h0 t0 block_header_def c)
  have blob: "hd_excess_blob_gas (ob_header p) = hd_excess_blob_gas (ob_header p0)" "hd_blob_gas_used (ob_header p) = hd_blob_gas_used (ob_header p0)"
    by (simp_all add: p)
  have "block_gas_limit cx' = block_gas_limit cx" using gl by (simp add: block_gas_limit_def [of cx'] c' at)
  then have "\<exists>p' m. build_block cx' ch pl' info' db None True = Inr (p', m, None) \<and> ob_header p' = (ob_header p0)\<lparr>hd_state_root := root\<rparr> \<and>
      ob_transactions p' = ob_transactions p0 \<and> ob_receipts p' = ob_receipts p0 \<and> ob_withdrawals p' = ob_withdrawals p0"
    by (intro build_block_again [OF b root]) (use xd info in \<open>simp_all add: c' at c blob\<close>)
  then show ?thesis by (simp add: p)
qed

text \<open>
  C4. What one builder sends as a full payload, another one accepts. A builder and its peer see the
  same chain. Then every payload that the builder hands over to be sent is executed by the peer to the
  very same block: header, transactions and receipts, so the hash it compares agrees. Assumed are: the
  laws of the client, no gasless contract on the chain and no limit on the gas of one transaction at
  the peer (see below for both), that the header is valid, that the signatures can be recovered, and
  that the gas of the block fits 64 bits.
\<close>

theorem peer_accepts_built_payload:
  fixes nc :: "('d, 'u) node_client"
  assumes ctx: "get_op_payload_builder_ctx nc st parent_hash parent_header attrs = Inr ((cx, pl), ea)"
    and "build_payload E C cx (nc_world nc parent_header ea) L (nc_chain nc parent_header ea) btx cfg pl en = Some out" "p \<in> set (bo_built out)"
    and chain: "en_parent_state en = nc_state_by_block_hash nc parent_hash" "nc_header_by_id nc parent_hash = Inr (Some parent_header)" "client_laws nc"
    and "st_gas_limit_config st = None" "\<not> nc_gasless_contract nc" "hc_max_gas_per_txn hc = None"
    and "\<And>tx. own_tx E cx (nc_world nc parent_header ea) L btx tx \<Longrightarrow> \<not> px_is_deposit tx"
    and "\<And>db. cx_jovian cx \<Longrightarrow> w_da_footprint_scalar (nc_world nc parent_header ea) db \<noteq> None"
    and "validate_pre_execution nc (ob_header p) parent_header = Inr ()" "list_all px_recovers (ob_transactions p)" "hd_gas_used (ob_header p) \<le> usize_max"
  shows "\<exists>p' m. execute_built_payload nc hc (from_built_payload p) = Inr (p', m) \<and> ob_header p' = ob_header p \<and>
    ob_transactions p' = ob_transactions p \<and> ob_receipts p' = ob_receipts p"
proof -
  let ?w = "nc_world nc parent_header ea" and ?ch = "nc_chain nc parent_header ea" and ?wp = "from_built_payload p"
  let ?fk = "nc_forks nc (at_timestamp attrs)"
  obtain evm where mk0: "(cx, pl) = make_ctx nc st parent_hash parent_header attrs evm"
    using ctx by (auto simp: get_op_payload_builder_ctx_def and_then_Inr map_sum_Inr_iff Let_def)
  then have ng: "\<not> cx_has_gasless_contract cx" using assms(8) by (simp add: make_ctx_def Let_def)
  obtain best root trie where best: "sealed_from cx ?ch pl (parent_traced cx ?w ?ch (en_parent_state en)) best"
    and root: "cl_state_root ?ch None (snd best) = Inr (root, trie)"
    and p: "p = (fst best)\<lparr>ob_header := (ob_header (fst best))\<lparr>hd_state_root := root\<rparr>, ob_trie_updates := Some trie\<rparr>"
    using built_parent_traced [OF assms(2,3) ng assms(10)] by blast
  let ?p0 = "fst best"
  obtain info fb calc msg fb' db0 db1 where b: "build_block cx ?ch pl info (snd best) fb calc = Inr (?p0, msg, fb')"
    and pre: "en_parent_state en = Inr db0" "cl_pre_execution ?ch db0 = Inr db1" and tr: "traced cx ?w db1 info (snd best)"
    using best by (auto simp: sealed_from_def parent_traced_def)
  obtain evm_env where env: "nc_next_evm_env nc parent_header ea = Inr evm_env" and mk: "(cx, pl) = make_ctx nc st parent_hash parent_header attrs evm_env"
    and ha: "header_attributes (ob_header p) = ea" and xd: "extra_data nc attrs = Inr (hd_extra_data (ob_header p))" and gl: "bv_gas_limit evm_env = block_gas_limit cx"
    by (rule get_ctx_header [OF ctx chain(3) assms(7) b, where root = root]) (simp add: p)
  note c = make_ctx_fields [OF mk]
  obtain sr wr rh ebg bgu xd0 where h0: "ob_header ?p0 = block_header cx ?ch pl info sr wr rh ebg bgu xd0" and t0: "ob_transactions ?p0 = ei_executed_transactions info"
    by (rule build_block_Inr_fields [OF b]) simp
  have h: "hd_timestamp (ob_header p) = at_timestamp attrs" "hd_parent_hash (ob_header p) = parent_hash" "hd_gas_used (ob_header p) = ei_cumulative_gas_used info"
    "ob_transactions p = ei_executed_transactions info"
    by (simp_all add: p h0 t0 block_header_def c)
  have wh: "hd_timestamp (wp_header ?wp) = at_timestamp attrs" using h(1) by (simp add: from_built_payload_def)
  obtain params where params: "extra_data_params ?fk (hd_extra_data (ob_header p)) = Inr params" "extra_data nc (wire_attributes ?wp params) = Inr (hd_extra_data (ob_header p))"
    using extra_data_again [OF chain(3) xd wh] by blast
  let ?blob = "Some (hd_excess_blob_gas (ob_header p), hd_blob_gas_used (ob_header p))"
  obtain info' where exec: "execute_transactions None ?fk ?w (hd_gas_used (ob_header p)) (ob_transactions p)
      (execution_info_new\<lparr>ei_optional_blob_fields := ?blob\<rparr>) db1 = Inr (info', snd best)"
    and i': "ei_executed_transactions info' = ei_executed_transactions info" "ei_receipts info' = ei_receipts info"
      "ei_cumulative_gas_used info' = ei_cumulative_gas_used info" "ei_optional_blob_fields info' = ?blob"
    by (rule execute_transactions_again [OF tr, where fk = ?fk and blob = ?blob]) (use assms(11,13,14) h c(7-9) in auto)
  obtain cx' pl' where mk': "into_flashblocks_builder_ctx nc hc parent_hash parent_header (wire_attributes ?wp params) evm_env = (cx', pl')"
    by (metis surj_pair)
  obtain p' m where again: "build_block cx' ?ch pl' info' (snd best) None True = Inr (p', m, None)"
    and p': "ob_header p' = ob_header p" "ob_transactions p' = ob_transactions p" "ob_receipts p' = ob_receipts p" "ob_withdrawals p' = ob_withdrawals p"
    using build_block_at_peer [OF b root mk gl p mk' _ i'] params(2) xd by auto
  have state: "nc_state_by_block_hash nc parent_hash = Inr db0" using chain(1) pre(1) by simp
  have "execute_built_payload nc hc ?wp = Inr (p', m)"
    using chain(2) state pre(2) env assms(9,12) params(1) exec again mk' p'
    by (simp add: execute_built_payload_def Let_def and_then_def from_built_payload_def h(1,2) ha block_hash_def)
  with p' show ?thesis by blast
qed

text \<open>A zero-priced transaction is refused by base-fee validation unless it is executed as gasless.\<close>

definition charges_base_fee :: "nat \<Rightarrow> 'd world \<Rightarrow> bool" where
  "charges_base_fee base_fee w \<longleftrightarrow> (\<forall>db tx. \<not> px_is_deposit tx \<and> px_max_fee_per_gas tx < base_fee \<longrightarrow> (\<exists>e. snd (w_transact w db tx False) = Inl e))"

lemma execute_transactions_loop_plain:
  assumes "execute_transactions_loop m fk w G txs info db = Inr x" "tx \<in> set txs"
  shows "\<exists>db r db'. snd (w_transact w db tx False) = Inr (r, db') \<and> (case m of Some l \<Rightarrow> er_gas_used r \<le> l | None \<Rightarrow> True)"
  using assms
proof (induction txs arbitrary: info db)
  case (Cons t txs)
  obtain r db' where r: "snd (w_transact w db t False) = Inr (r, db')" "case m of Some l \<Rightarrow> er_gas_used r \<le> l | None \<Rightarrow> True"
    using Cons.prems(1) by (auto simp: Let_def split: if_splits sum.splits option.splits)
  show ?case
  proof (cases "tx = t")
    case True
    with r show ?thesis by blast
  next
    case False
    obtain info1 where rest: "execute_transactions_loop m fk w G txs info1 db' = Inr x"
      using Cons.prems(1) r(1) by (auto simp: Let_def split: if_splits option.splits)
    from Cons.prems(2) False have "tx \<in> set txs" by simp
    from Cons.IH [OF rest this] show ?thesis .
  qed
qed simp

lemma execute_built_payload_plain:
  assumes "execute_built_payload nc hc wp = Inr x" "tx \<in> set (wp_transactions wp)"
  shows "\<exists>ph env db r db'. nc_next_evm_env nc ph (header_attributes (wp_header wp)) = Inr env \<and>
    snd (w_transact (nc_world nc ph (header_attributes (wp_header wp))) db tx False) = Inr (r, db') \<and>
    (case hc_max_gas_per_txn hc of Some l \<Rightarrow> er_gas_used r \<le> l | None \<Rightarrow> True)"
proof -
  let ?h = "wp_header wp" and ?ea = "header_attributes (wp_header wp)"
  obtain ph env info db1 y where env: "nc_next_evm_env nc ph ?ea = Inr env"
    "execute_transactions (hc_max_gas_per_txn hc) (nc_forks nc (hd_timestamp ?h)) (nc_world nc ph ?ea) (hd_gas_used ?h) (wp_transactions wp) info db1 = Inr y"
    using assms(1) unfolding execute_built_payload_def Let_def by (elim and_then_InrE) (auto simp: map_sum_Inr_iff)
  from this(2) obtain z where z:
    "execute_transactions_loop (hc_max_gas_per_txn hc) (nc_forks nc (hd_timestamp ?h)) (nc_world nc ph ?ea) (hd_gas_used ?h) (wp_transactions wp) info db1 = Inr z"
    by (auto simp: execute_transactions_def and_then_Inr)
  from execute_transactions_loop_plain [OF z assms(2)] env show ?thesis by blast
qed

text \<open>
  A full payload with a gasless transaction is never accepted. The builder executes whitelisted
  zero-priced transactions with the base-fee check relaxed; the handler that executes a received
  payload does not, so whenever the base fee is positive it refuses every payload with such a
  transaction, whatever the rest of it is.
\<close>

lemma gasless_payload_rejected:
  assumes "tx \<in> set (wp_transactions wp)" "px_max_fee_per_gas tx = 0" "\<not> px_is_deposit tx"
    and "\<And>ph ea env. nc_next_evm_env nc ph ea = Inr env \<Longrightarrow> 0 < bv_basefee env \<and> charges_base_fee (bv_basefee env) (nc_world nc ph ea)"
  shows "\<exists>e. execute_built_payload nc hc wp = Inl e"
proof (cases "execute_built_payload nc hc wp")
  case (Inr x)
  from execute_built_payload_plain [OF Inr assms(1)] assms(2-4) show ?thesis unfolding charges_base_fee_def by (metis Inl_Inr_False)
qed simp

text \<open>The limit on the gas of a transaction is applied to deposits too, which the builder exempts.\<close>

lemma over_limit_payload_rejected:
  assumes "tx \<in> set (wp_transactions wp)" "hc_max_gas_per_txn hc = Some limit"
    and "\<And>ph ea db r db'. snd (w_transact (nc_world nc ph ea) db tx False) = Inr (r, db') \<Longrightarrow> limit < er_gas_used r"
  shows "\<exists>e. execute_built_payload nc hc wp = Inl e"
proof (cases "execute_built_payload nc hc wp")
  case (Inr x)
  from execute_built_payload_plain [OF Inr assms(1)] assms(2,3) show ?thesis by fastforce
qed simp

section \<open>The handler\<close>

datatype message = MsgBuiltPayload wire_payload | MsgFlashblock op_flashblock_payload

record handler_flags =
  hf_send_full_payload :: bool
  hf_process_full_payload :: bool

text \<open>The flags the service starts the handler with.\<close>

definition service_flags :: "bool \<Rightarrow> bool \<Rightarrow> builder_settings \<Rightarrow> handler_flags" where
  "service_flags p2p_send_full_payload p2p_process_full_payload st =
     \<lparr>hf_send_full_payload = p2p_send_full_payload, hf_process_full_payload = p2p_process_full_payload \<and> \<not> st_rcs_filter st\<rparr>"

text \<open>
  What the handler has sent: messages to the peers, events to the engine, flashblocks to the
  subscribers; and the payloads whose execution runs in a task. A send that fails is only logged.
\<close>

record 'u handler_state =
  hs_cache :: "pool_tx payloads_cache"
  hs_p2p :: "message list"
  hs_events :: "'u built_payload list"
  hs_ws :: "op_flashblock_payload list"
  hs_tasks :: "wire_payload list"

text \<open>What wakes the handler; a message comes with the hash of the pending block at that time.\<close>

datatype 'u handler_event =
    HvBuiltFlashblock op_flashblock_payload
  | HvBuiltPayload "'u built_payload"
  | HvMessage message "string + b256 option"

fun handle_event :: "handler_flags \<Rightarrow> (wire_payload \<Rightarrow> b256) \<Rightarrow> 'u handler_event \<Rightarrow> 'u handler_state \<Rightarrow> 'u handler_state" where
  "handle_event fl hash (HvBuiltFlashblock fb) s = s\<lparr>hs_p2p := hs_p2p s @ [MsgFlashblock fb]\<rparr>"
| "handle_event fl hash (HvBuiltPayload p) s =
     (let s1 = s\<lparr>hs_events := hs_events s @ [p]\<rparr> in
      if hf_send_full_payload fl then s1\<lparr>hs_p2p := hs_p2p s @ [MsgBuiltPayload (from_built_payload p)]\<rparr> else s1)"
| "handle_event fl hash (HvMessage (MsgBuiltPayload wp) pending) s =
     (if \<not> hf_process_full_payload fl then s
      else if pending = Inr (Some (hash wp)) then s
      else s\<lparr>hs_tasks := hs_tasks s @ [wp]\<rparr>)"
| "handle_event fl hash (HvMessage (MsgFlashblock fb) pending) s =
     s\<lparr>hs_cache := add_flashblock_payload (cached_view fb) (hs_cache s), hs_ws := hs_ws s @ [fb]\<rparr>"

text \<open>A task that ends; its number is the position in the list.\<close>

definition finish_task :: "('d, 'u) node_client \<Rightarrow> handler_context \<Rightarrow> nat \<Rightarrow> 'u handler_state \<Rightarrow> 'u handler_state" where
  "finish_task nc hc i s =
     (if i < length (hs_tasks s) then
        let s1 = s\<lparr>hs_tasks := take i (hs_tasks s) @ drop (Suc i) (hs_tasks s)\<rparr> in
        (case execute_built_payload nc hc (hs_tasks s ! i) of
           Inr (p, _) \<Rightarrow> s1\<lparr>hs_events := hs_events s @ [p]\<rparr>
         | Inl _ \<Rightarrow> s1)
      else s)"

datatype 'u handler_turn = TurnEvent "'u handler_event" | TurnTask nat

fun run_turn :: "('d, 'u) node_client \<Rightarrow> handler_context \<Rightarrow> handler_flags \<Rightarrow> (wire_payload \<Rightarrow> b256) \<Rightarrow> 'u handler_turn \<Rightarrow> 'u handler_state \<Rightarrow> 'u handler_state" where
  "run_turn nc hc fl hash (TurnEvent ev) s = handle_event fl hash ev s"
| "run_turn nc hc fl hash (TurnTask i) s = finish_task nc hc i s"

fun received_fb :: "'u handler_turn \<Rightarrow> op_flashblock_payload list" where
  "received_fb (TurnEvent (HvMessage (MsgFlashblock fb) _)) = [fb]"
| "received_fb _ = []"

fun built_here :: "'u handler_turn \<Rightarrow> 'u built_payload list" where
  "built_here (TurnEvent (HvBuiltPayload p)) = [p]"
| "built_here _ = []"

lemma run_turn_received:
  "hs_cache (run_turn nc hc fl hash t s) = fold add_flashblock_payload (map cached_view (received_fb t)) (hs_cache s)"
  "hs_ws (run_turn nc hc fl hash t s) = hs_ws s @ received_fb t"
  by (cases t rule: received_fb.cases; auto simp: finish_task_def Let_def split: sum.split)+

lemma handler_received:
  "hs_cache (fold (run_turn nc hc fl hash) ts s) = fold add_flashblock_payload (map cached_view (concat (map received_fb ts))) (hs_cache s)"
  "hs_ws (fold (run_turn nc hc fl hash) ts s) = hs_ws s @ concat (map received_fb ts)"
  by (induction ts arbitrary: s) (simp_all add: run_turn_received)

lemma run_turn_filtered:
  assumes "\<not> hf_process_full_payload fl" "hs_tasks s = []"
  shows "hs_events (run_turn nc hc fl hash t s) = hs_events s @ built_here t \<and> hs_tasks (run_turn nc hc fl hash t s) = []"
proof (cases t)
  case (TurnEvent ev)
  show ?thesis
  proof (cases ev)
    case (HvMessage msg pending)
    with TurnEvent assms show ?thesis by (cases msg) simp_all
  qed (use TurnEvent assms in \<open>simp_all add: Let_def\<close>)
qed (use assms in \<open>simp add: finish_task_def\<close>)

text \<open>
  With the filter on, the engine only hears of payloads this node built itself: whatever the
  peers send and in whatever order, no received payload is executed and none is announced.
\<close>

lemma filtered_node_announces_own_payloads:
  assumes "st_rcs_filter st" "hs_tasks s = []"
  shows "hs_events (fold (run_turn nc hc (service_flags send process st) hash) ts s) = hs_events s @ concat (map built_here ts) \<and>
    hs_tasks (fold (run_turn nc hc (service_flags send process st) hash) ts s) = []"
  using assms(2)
proof (induction ts arbitrary: s)
  case (Cons t ts)
  let ?fl = "service_flags send process st"
  have "\<not> hf_process_full_payload ?fl" using assms(1) by (simp add: service_flags_def)
  note step = run_turn_filtered [OF this Cons.prems, of nc hc hash t]
  with Cons.IH [of "run_turn nc hc ?fl hash t s"] show ?case by simp
qed simp

section \<open>Failover\<close>

text \<open>
  C3. Failover. A builder without transactions of its own, and without flashblocks of the block in its
  cache, built a block in the asynchronous mode, with some transaction in a flashblock after the first one. The handler of another one, whose cache
  did not hold that payload, took turns in which it received exactly these flashblocks from the peers (each
  once, in whatever order, and no other flashblock; any other messages, events and tasks in between), before that one builds on the same parent with the same attributes. Then the
  second one resolves with the same block: the same transactions, senders, receipts, fees and gas, and it
  publishes nothing of its own. Assumed are also that the state roots can be computed, that the signatures
  can be recovered, and that the filter is off (with it, the builder does not replay).
\<close>

theorem failover_resolves_same_block:
  assumes "build_payload E C cx w L ch (BaseTx None) cfg pl en = Some out" "cached_txs cx pl en = None" "bo_cell out = Some p"
    and "\<not> bg_disable_async_calculate_state_root cfg" "\<not> cx_filter cx" "providers_answer ch"
    and "mset (concat (map received_fb ts)) = mset (bo_p2p out)"
    and "list_all px_recovers (all_transactions (bo_p2p out))" "all_transactions (tl (bo_p2p out)) \<noteq> []"
    and "\<And>sq. pc_inner (hs_cache s) = Some sq \<Longrightarrow> ps_payload_id sq \<noteq> pl_payload_id pl"
    and "en_parent_state en' = en_parent_state en" "en_cache en' = hs_cache (fold (run_turn nc hc fl hash) ts s)"
  shows "\<exists>out' p'. build_payload E' C' cx w L' ch btx' cfg' pl en' = Some out' \<and> bo_cell out' = Some p' \<and>
    ob_transactions p' = ob_transactions p \<and> ob_senders p' = ob_senders p \<and> ob_receipts p' = ob_receipts p \<and> ob_fees p' = ob_fees p \<and>
    hd_gas_used (ob_header p') = hd_gas_used (ob_header p) \<and> bo_p2p out' = [] \<and> bo_ws out' = []"
proof -
  note cache = assms(12) [unfolded handler_received(1)]
  show ?thesis by (rule failover_replays [OF assms(1-9) _ assms(11) cache]) (rule assms(10))
qed

section \<open>An instance\<close>

text \<open>
  A chain after Isthmus with a base fee of 1 and roots that are computed, and a block of one
  transaction of the sequencer.
\<close>

definition sample_forks :: forks where
  "sample_forks = \<lparr>fk_regolith = True, fk_shanghai = True, fk_canyon = True, fk_ecotone = True, fk_holocene = True, fk_isthmus = True, fk_jovian = False\<rparr>"

definition sample_parent :: header where
  "sample_parent = \<lparr>hd_parent_hash = 76, hd_beneficiary = 0, hd_state_root = 1, hd_transactions_root = 0, hd_receipts_root = 0, hd_withdrawals_root = None,
     hd_logs_bloom = [], hd_timestamp = 999, hd_mix_hash = 0, hd_base_fee_per_gas = 1, hd_number = 0, hd_gas_limit = 60000, hd_gas_used = 0,
     hd_extra_data = replicate 9 0, hd_parent_beacon_block_root = Some 0, hd_blob_gas_used = None, hd_excess_blob_gas = None, hd_requests_hash = None\<rparr>"

text \<open>The sample world with the check of the base fee.\<close>

definition sample_paid_world :: "nat world" where
  "sample_paid_world = sample_world\<lparr>w_transact := (\<lambda>db tx gasless.
     if \<not> px_is_deposit tx \<and> px_max_fee_per_gas tx < 1 \<and> \<not> gasless then ([], Inl EvmFatal) else w_transact sample_world db tx gasless)\<rparr>"

definition sample_client :: "(nat, unit) node_client" where
  "sample_client = \<lparr>nc_header_by_id = (\<lambda>h. Inr (if h = 77 then Some sample_parent else None)), nc_state_by_block_hash = (\<lambda>_. Inr 0),
     nc_forks = (\<lambda>_. sample_forks), nc_validate_header = (\<lambda>h. hd_gas_used h \<le> hd_gas_limit h),
     nc_validate_header_against_parent = (\<lambda>h ph. hd_number h = hd_number ph + 1),
     nc_next_evm_env = (\<lambda>ph ea. Inr \<lparr>bv_number = hd_number ph + 1, bv_basefee = 1, bv_gas_limit = ea_gas_limit ea, bv_beneficiary = ea_suggested_fee_recipient ea\<rparr>),
     nc_world = (\<lambda>_ _. sample_paid_world),
     nc_chain = (\<lambda>_ _. sample_chain_lib\<lparr>cl_state_root := (\<lambda>_ _. Inr (0, ())), cl_block_hash := (\<lambda>h _ _. of_nat (hd_gas_used h))\<rparr>),
     nc_jovian_extra_data = (\<lambda>_ _ _. Inr (replicate 17 0)), nc_holocene_extra_data = (\<lambda>_ _. Inr (replicate 9 0)), nc_gasless_contract = False\<rparr>"

definition sample_settings :: builder_settings where
  "sample_settings = \<lparr>st_tx_da_limit = None, st_block_da_limit = None, st_gas_limit_config = None, st_max_gas_per_txn = None,
     st_bridge_intercept = \<lparr>bi_enabled = False, bi_bridge_contract_address = 0, bi_target_token_address = 0, bi_wildcard = False\<rparr>,
     st_gasless_block_gas_limit = None, st_rcs_filter = True, st_interop_feature = False\<rparr>"

definition sample_attrs :: payload_attributes where
  "sample_attrs = \<lparr>at_id = 9, at_timestamp = 1000, at_prev_randao = 5, at_suggested_fee_recipient = 3, at_withdrawals = [], at_parent_beacon_block_root = Some 0,
     at_eip_1559_params = None, at_min_base_fee = None, at_gas_limit = Some 60000, at_no_tx_pool = True, at_transactions = [sample_tx]\<rparr>"

definition sample_hc :: handler_context where
  "sample_hc = \<lparr>hc_tx_da_limit = None, hc_block_da_limit = None, hc_max_gas_per_txn = None\<rparr>"

lemmas sample_node_defs = sample_client_def sample_settings_def sample_attrs_def sample_hc_def sample_forks_def sample_parent_def

lemma sample_client_laws: "client_laws sample_client"
  by (simp add: client_laws_def sample_client_def)

definition sample_ctx :: "builder_ctx \<times> payload_config" where
  "sample_ctx = make_ctx sample_client sample_settings 77 sample_parent sample_attrs
     \<lparr>bv_number = 1, bv_basefee = 1, bv_gas_limit = 60000, bv_beneficiary = 3\<rparr>"

definition sample_ea :: env_attributes where
  "sample_ea = next_block_attributes sample_parent sample_attrs (replicate 9 0)"

lemma sample_ctx: "get_op_payload_builder_ctx sample_client sample_settings 77 sample_parent sample_attrs = Inr ((fst sample_ctx, snd sample_ctx), sample_ea)"
  by (simp add: get_op_payload_builder_ctx_def and_then_def extra_data_def sample_ctx_def sample_ea_def sample_node_defs next_block_attributes_def)

lemma sample_paid_step:
  "\<not> cx_has_gasless_contract cx \<Longrightarrow> fst (transact_maybe_gasless cx sample_paid_world noop_ops 0 sample_tx ()) =
     Inr (\<lparr>er_success = True, er_gas_used = 21000, er_logs = []\<rparr>, 1, False, CoPassthrough)"
  by (simp add: transact_maybe_gasless_def is_gasless_def sample_paid_world_def sample_world_def sample_tx_def guarded_transact_def
        noop_ops_def noop_start_def noop_finish_def)

lemma sample_ctx_fields:
  "\<not> cx_has_gasless_contract (fst sample_ctx)" "\<not> cx_jovian (fst sample_ctx)" "cx_block_number (fst sample_ctx) = 1" "cx_ecotone (fst sample_ctx)"
  "block_gas_limit (fst sample_ctx) = 60000" "pl_transactions (snd sample_ctx) = [sample_tx]" "pl_no_tx_pool (snd sample_ctx)"
  "pl_parent_number (snd sample_ctx) = 0" "pl_extra_data (snd sample_ctx) = Inr (replicate 9 0)" "pl_parent_beacon_block_root (snd sample_ctx) = Some 0"
  "pl_isthmus (snd sample_ctx)" "cx_filter (fst sample_ctx)"
  by (simp_all add: sample_ctx_def make_ctx_def sample_node_defs block_gas_limit_def extra_data_def Let_def usize_max_def)

lemma sample_pre_steps:
  "execute_pre_steps (fst sample_ctx) sample_paid_world (nc_chain sample_client sample_parent sample_ea) (snd sample_ctx) 0 =
     Inr (push_executed (fst sample_ctx) sample_paid_world sample_tx \<lparr>er_success = True, er_gas_used = 21000, er_logs = []\<rparr> 100 None 0 execution_info_new, 1)"
  using sample_paid_step [OF sample_ctx_fields(1)]
  by (simp add: execute_pre_steps_def and_then_def sample_client_def sample_chain_lib_def execute_sequencer_transactions_def sample_ctx_fields Let_def
      push_executed_def execution_info_new_def) (simp add: sample_tx_def)

lemma sample_built:
  "\<exists>out p. build_payload sample_ext (\<lambda>_ _. 0) (fst sample_ctx) sample_paid_world sample_builder_lib (nc_chain sample_client sample_parent sample_ea)
     (BaseTx None) sample_build_config (snd sample_ctx) sample_env = Some out \<and> bo_built out = [p] \<and> hd_gas_used (ob_header p) = 21000 \<and>
     hd_gas_limit (ob_header p) = 60000 \<and> hd_number (ob_header p) = 1 \<and> ob_transactions p = [sample_tx] \<and> bo_error out = None"
proof -
  have c: "cached_txs (fst sample_ctx) (snd sample_ctx) sample_env = None" by (simp add: cached_txs_def sample_ctx_fields)
  have s: "en_parent_state sample_env = Inr 0" "en_p2p_ok sample_env" "en_parent_found sample_env" by (simp_all add: sample_env_def)
  show ?thesis
    by (simp add: build_payload_def s c and_then_def sample_pre_steps fallback_base_def sample_ctx_fields build_block_def blob_fields_def Let_def)
      (simp add: sample_client_def sample_chain_lib_def push_executed_def Let_def execution_info_new_def flashblocks_state_new_def slice_from_def
        finished_build_def resolve_best_payload_def resolve_zero_state_root_def block_header_def sample_ctx_fields s)
qed

theorem peer_accepts_built_payload_witness:
  "\<exists>out p p' m. build_payload sample_ext (\<lambda>_ _. 0) (fst sample_ctx) sample_paid_world sample_builder_lib (nc_chain sample_client sample_parent sample_ea)
     (BaseTx None) sample_build_config (snd sample_ctx) sample_env = Some out \<and> bo_built out = [p] \<and>
     execute_built_payload sample_client sample_hc (from_built_payload p) = Inr (p', m) \<and> ob_transactions p' = [sample_tx] \<and> ob_header p' = ob_header p"
proof -
  have w: "nc_world sample_client sample_parent sample_ea = sample_paid_world" by (simp add: sample_client_def)
  obtain out p where b: "build_payload sample_ext (\<lambda>_ _. 0) (fst sample_ctx) (nc_world sample_client sample_parent sample_ea) sample_builder_lib
      (nc_chain sample_client sample_parent sample_ea) (BaseTx None) sample_build_config (snd sample_ctx) sample_env = Some out"
    and p: "bo_built out = [p]" "hd_gas_used (ob_header p) = 21000" "hd_gas_limit (ob_header p) = 60000" "hd_number (ob_header p) = 1"
      "ob_transactions p = [sample_tx]"
    using sample_built unfolding w by blast
  have own: "\<not> own_tx sample_ext (fst sample_ctx) (nc_world sample_client sample_parent sample_ea) sample_builder_lib (BaseTx None) tx" for tx
    by (auto simp: own_tx_def simulate_builder_txs_def simulate_base_builder_txs_def simulate_builder_tx_def opt_list_def)
  have "\<exists>p' m. execute_built_payload sample_client sample_hc (from_built_payload p) = Inr (p', m) \<and> ob_header p' = ob_header p \<and>
      ob_transactions p' = ob_transactions p \<and> ob_receipts p' = ob_receipts p"
  proof (rule peer_accepts_built_payload [OF sample_ctx b])
    show "client_laws sample_client" by (rule sample_client_laws)
    show "p \<in> set (bo_built out)" using p(1) by simp
    show "validate_pre_execution sample_client (ob_header p) sample_parent = Inr ()"
      using p by (simp add: validate_pre_execution_def sample_client_def sample_parent_def)
  qed (use own p sample_ctx_fields in \<open>simp_all add: sample_client_laws sample_env_def sample_node_defs sample_tx_def usize_max_def\<close>)
  with b p show ?thesis unfolding w by auto
qed

definition sample_free_payload :: wire_payload where
  "sample_free_payload = \<lparr>wp_id = 9, wp_header = sample_parent\<lparr>hd_parent_hash := 77, hd_number := 1, hd_gas_used := 21000\<rparr>,
     wp_transactions = [sample_tx\<lparr>px_max_fee_per_gas := 0\<rparr>], wp_withdrawals = Some [], wp_fees = 0\<rparr>"

lemma gasless_payload_rejected_witness:
  "sample_tx\<lparr>px_max_fee_per_gas := 0\<rparr> \<in> set (wp_transactions sample_free_payload) \<and>
   (\<exists>e. execute_built_payload sample_client sample_hc sample_free_payload = Inl e)"
proof
  show t: "sample_tx\<lparr>px_max_fee_per_gas := 0\<rparr> \<in> set (wp_transactions sample_free_payload)" by (simp add: sample_free_payload_def)
  show "\<exists>e. execute_built_payload sample_client sample_hc sample_free_payload = Inl e"
    by (rule gasless_payload_rejected [OF t])
      (auto simp: sample_tx_def sample_client_def charges_base_fee_def sample_paid_world_def)
qed

definition sample_handler :: "unit handler_state" where
  "sample_handler = \<lparr>hs_cache = \<lparr>pc_inner = None, pc_persist_path = None\<rparr>, hs_p2p = [], hs_events = [], hs_ws = [], hs_tasks = []\<rparr>"

lemma filtered_node_announces_own_payloads_witness:
  "hs_tasks (fold (run_turn sample_client sample_hc (service_flags True True sample_settings) (\<lambda>_. 0))
     [TurnEvent (HvMessage (MsgBuiltPayload sample_free_payload) (Inr None)), TurnTask 0] sample_handler) = []"
proof -
  have "st_rcs_filter sample_settings" "hs_tasks sample_handler = []" by (simp_all add: sample_settings_def sample_handler_def)
  from filtered_node_announces_own_payloads [OF this] show ?thesis by blast
qed

text \<open>The second builder hears of the flashblocks in reverse, with a full payload in between.\<close>

definition sample_turns :: "op_flashblock_payload list \<Rightarrow> unit handler_turn list" where
  "sample_turns ms = TurnEvent (HvMessage (MsgBuiltPayload sample_free_payload) (Inr None)) #
     map (\<lambda>m. TurnEvent (HvMessage (MsgFlashblock m) (Inr None))) (rev ms) @ [TurnTask 0]"

definition sample_after :: "op_flashblock_payload list \<Rightarrow> nat build_env" where
  "sample_after ms = sample_env\<lparr>en_cache := hs_cache (fold (run_turn sample_client sample_hc \<lparr>hf_send_full_payload = True, hf_process_full_payload = True\<rparr> (\<lambda>_. 0))
     (sample_turns ms) sample_handler)\<rparr>"

lemma sample_turns_received: "concat (map received_fb (sample_turns ms)) = rev ms"
proof -
  have "concat (map received_fb (map (\<lambda>m. TurnEvent (HvMessage (MsgFlashblock m) (Inr None))) xs)) = xs" for xs by (induction xs) simp_all
  then show ?thesis by (simp add: sample_turns_def)
qed

theorem failover_resolves_same_block_witness:
  "\<exists>out p out' p'. sample_output False = Some out \<and> bo_cell out = Some p \<and>
     build_payload sample_ext (\<lambda>_ _. 0) (sample_bcx False) sample_world sample_builder_lib sample_chain_lib (BaseTx None) sample_build_config sample_pl
       (sample_after (bo_p2p out)) = Some out' \<and>
     bo_cell out' = Some p' \<and> ob_transactions p' = [sample_tx] \<and> bo_ws out' = []"
proof -
  obtain out p m0 m1 where s: "sample_output False = Some out" "bo_cell out = Some p" "ob_transactions p = [sample_tx]" "bo_p2p out = [m0, m1]"
    "fd_transactions (of_diff m0) = []" "fd_transactions (of_diff m1) = [sample_tx]"
    by (rule sample_output)
  let ?en = "sample_after (bo_p2p out)"
  have m: "mset (concat (map received_fb (sample_turns (bo_p2p out)))) = mset (bo_p2p out)" by (simp add: sample_turns_received)
  have p: "en_parent_state ?en = en_parent_state sample_env" by (simp add: sample_after_def)
  have c: "en_cache ?en = hs_cache (fold (run_turn sample_client sample_hc \<lparr>hf_send_full_payload = True, hf_process_full_payload = True\<rparr> (\<lambda>_. 0))
     (sample_turns (bo_p2p out)) sample_handler)" by (simp add: sample_after_def)
  have "\<exists>out' p'. build_payload sample_ext (\<lambda>_ _. 0) (sample_bcx False) sample_world sample_builder_lib sample_chain_lib (BaseTx None) sample_build_config sample_pl
       ?en = Some out' \<and> bo_cell out' = Some p' \<and>
    ob_transactions p' = ob_transactions p \<and> ob_senders p' = ob_senders p \<and> ob_receipts p' = ob_receipts p \<and> ob_fees p' = ob_fees p \<and>
    hd_gas_used (ob_header p') = hd_gas_used (ob_header p) \<and> bo_p2p out' = [] \<and> bo_ws out' = []"
    by (rule failover_resolves_same_block [OF s(1) [unfolded sample_output_def] sample_no_cache s(2) _ _ sample_providers m _ _ _ p c])
      (use s(4-6) in \<open>simp_all add: sample_build_config_def sample_bcx_def sample_tx_def sample_handler_def all_transactions_def\<close>)
  with s show ?thesis by auto
qed

end
