(* ===== verification/Payload_Jobs.thy ===== *)
theory Payload_Jobs
  imports Payload_Handler
begin

text \<open>
  The jobs behind the engine's calls (\<open>crates/builder/src/flashblocks/generator.rs\<close>): a request for a
  payload starts a job with a build task, \<open>getPayload\<close> resolves it through a cell that the task sets,
  and polling ends it. Cancellation tokens are numbered and shared by number; the cell of a job is
  shared with its task. Instants and durations are nanoseconds. Which calls the payload service makes,
  and in which order, is left open.
\<close>

section \<open>Cached reads\<close>

text \<open>An account as the state and the bundle of an execution know it; the code is left out.\<close>

record account_info =
  ac_nonce :: nat
  ac_balance :: u256

record bundle_account =
  ba_info :: "account_info option"
  ba_storage :: "(u256 \<times> u256) list"

record cached_account =
  ca_info :: "account_info option"
  ca_storage :: "(u256 \<times> u256) list"

type_synonym cached_reads = "(address \<times> cached_account) list"

text \<open>A notification of a new canonical chain: the hash of its tip and the changed accounts with their present values.\<close>

record notification =
  no_tip :: b256
  no_bundle :: "(address \<times> bundle_account) list"

definition insert_account :: "address \<Rightarrow> account_info \<Rightarrow> (u256 \<times> u256) list \<Rightarrow> cached_reads \<Rightarrow> cached_reads" where
  "insert_account a info storage cached = AList.update a \<lparr>ca_info = Some info, ca_storage = storage\<rparr> cached"

definition reads_of :: "notification \<Rightarrow> cached_reads" where
  "reads_of n = fold (\<lambda>(a, acc) cached. case ba_info acc of Some info \<Rightarrow> insert_account a info (ba_storage acc) cached | None \<Rightarrow> cached) (no_bundle n) []"

text \<open>Reading a state through the cache.\<close>

record chain_state =
  sv_account :: "address \<Rightarrow> account_info option"
  sv_storage :: "address \<Rightarrow> u256 \<Rightarrow> u256"

definition cached_account_read :: "cached_reads \<Rightarrow> chain_state \<Rightarrow> address \<Rightarrow> account_info option" where
  "cached_account_read cached sv a = (case map_of cached a of Some ca \<Rightarrow> ca_info ca | None \<Rightarrow> sv_account sv a)"

definition cached_storage_read :: "cached_reads \<Rightarrow> chain_state \<Rightarrow> address \<Rightarrow> u256 \<Rightarrow> u256" where
  "cached_storage_read cached sv a k = (case map_of cached a of
       Some ca \<Rightarrow> (case map_of (ca_storage ca) k of Some v \<Rightarrow> v | None \<Rightarrow> sv_storage sv a k)
     | None \<Rightarrow> sv_storage sv a k)"

section \<open>Jobs\<close>

datatype job_error =
    JeProvider string
  | JeMissingParentBlock b256
  | JeOther string
  | JePanicked

text \<open>
  A job, with the reads its build task was given and, once the task is done, the error it reported.
  Nothing reads that report.
\<close>

record ('a, 'u) job =
  jb_payload_id :: u64
  jb_parent :: "b256 \<times> header"
  jb_attributes :: payload_attributes
  jb_engine_attrs :: 'a
  jb_cell :: "'u built_payload option"
  jb_cancel :: nat
  jb_deadline :: nat
  jb_task_reads :: cached_reads
  jb_build_complete :: "build_error option option"

record generator =
  gn_ensure_only_one_payload :: bool
  gn_last_payload :: nat
  gn_extra_block_deadline :: nat
  gn_pre_cached :: "(b256 \<times> cached_reads) option"

record ('a, 'u) job_system =
  sy_tokens :: "bool list"
  sy_generator :: generator
  sy_jobs :: "('a, 'u) job list"

definition token_cancel :: "nat \<Rightarrow> bool list \<Rightarrow> bool list" where
  "token_cancel t tokens = tokens[t := True]"

definition is_cancelled :: "bool list \<Rightarrow> nat \<Rightarrow> bool" where
  "is_cancelled tokens t \<longleftrightarrow> t < length tokens \<and> tokens ! t"

definition with_builder :: "bool \<Rightarrow> nat \<Rightarrow> ('a, 'u) job_system" where
  "with_builder ensure_only_one_payload extra_block_deadline =
     \<lparr>sy_tokens = [False],
      sy_generator = \<lparr>gn_ensure_only_one_payload = ensure_only_one_payload, gn_last_payload = 0, gn_extra_block_deadline = extra_block_deadline,
        gn_pre_cached = None\<rparr>,
      sy_jobs = []\<rparr>"

definition maybe_pre_cached :: "generator \<Rightarrow> b256 \<Rightarrow> cached_reads option" where
  "maybe_pre_cached g parent = (case gn_pre_cached g of Some (block, cached) \<Rightarrow> if block = parent then Some cached else None | None \<Rightarrow> None)"

definition on_new_state :: "notification \<Rightarrow> generator \<Rightarrow> generator" where
  "on_new_state n g = g\<lparr>gn_pre_cached := Some (no_tip n, reads_of n)\<rparr>"

definition job_deadline :: "nat \<Rightarrow> nat \<Rightarrow> nat" where
  "job_deadline unix_now unix_timestamp_secs =
     (let duration_until = unix_timestamp_secs - unix_now in if duration_until = 0 then from_secs 1 else from_secs duration_until)"

text \<open>The headers of the chain and the conversion of attributes, which are not part of the sources.\<close>

record 'a job_client =
  jc_latest_header :: "string + (b256 \<times> header) option"
  jc_sealed_header_by_hash :: "b256 \<Rightarrow> string + (b256 \<times> header) option"
  jc_from_rpc_attrs :: "b256 \<Rightarrow> u64 \<Rightarrow> 'a \<Rightarrow> string + payload_attributes"

text \<open>The token of a new job; with one job at a time, the one before is cancelled.\<close>

definition take_token :: "('a, 'u) job_system \<Rightarrow> nat \<times> ('a, 'u) job_system" where
  "take_token s = (let t = length (sy_tokens s); g = sy_generator s in
     if gn_ensure_only_one_payload g
     then (t, s\<lparr>sy_tokens := token_cancel (gn_last_payload g) (sy_tokens s) @ [False], sy_generator := g\<lparr>gn_last_payload := t\<rparr>\<rparr>)
     else (t, s\<lparr>sy_tokens := sy_tokens s @ [False]\<rparr>))"

definition find_parent :: "'a job_client \<Rightarrow> b256 \<Rightarrow> job_error + b256 \<times> header" where
  "find_parent jc parent_hash =
     and_then (map_sum JeProvider id (if parent_hash = 0 then jc_latest_header jc else jc_sealed_header_by_hash jc parent_hash))
       (\<lambda>found. case found of None \<Rightarrow> Inl (JeMissingParentBlock parent_hash) | Some h \<Rightarrow> Inr h)"

text \<open>The job's task takes the cached reads. Adding durations panics on overflow.\<close>

definition new_payload_job :: "'a job_client \<Rightarrow> nat \<Rightarrow> nat \<Rightarrow> b256 \<Rightarrow> 'a \<Rightarrow> u64 \<Rightarrow> ('a, 'u) job_system \<Rightarrow> (job_error + nat) \<times> ('a, 'u) job_system" where
  "new_payload_job jc unix_now now parent_hash attrs pid s =
     (case take_token s of (cancel_token, s1) \<Rightarrow>
        (case and_then (find_parent jc parent_hash) (\<lambda>parent. map_sum JeOther (Pair parent) (jc_from_rpc_attrs jc parent_hash pid attrs)) of
           Inl e \<Rightarrow> (Inl e, s1)
         | Inr (parent_header, builder_attrs) \<Rightarrow>
             let deadline = job_deadline unix_now (at_timestamp builder_attrs) + gn_extra_block_deadline (sy_generator s1) in
             if deadline > duration_max then (Inl JePanicked, s1)
             else (Inr (length (sy_jobs s1)),
               s1\<lparr>sy_jobs := sy_jobs s1 @
                 [\<lparr>jb_payload_id = pid, jb_parent = parent_header, jb_attributes = builder_attrs, jb_engine_attrs = attrs, jb_cell = None,
                   jb_cancel = cancel_token, jb_deadline = now + deadline,
                   jb_task_reads = (case maybe_pre_cached (sy_generator s1) (fst parent_header) of Some cached \<Rightarrow> cached | None \<Rightarrow> []),
                   jb_build_complete = None\<rparr>]\<rparr>)))"

text \<open>\<open>getPayload\<close> cancels the build and waits for the cell.\<close>

definition resolve_kind :: "nat \<Rightarrow> ('a, 'u) job_system \<Rightarrow> ('a, 'u) job_system" where
  "resolve_kind i s = (if i < length (sy_jobs s) then s\<lparr>sy_tokens := token_cancel (jb_cancel (sy_jobs s ! i)) (sy_tokens s)\<rparr> else s)"

text \<open>\<open>None\<close> is pending; a pending future has itself woken again at once.\<close>

definition poll_resolve :: "nat \<Rightarrow> ('a, 'u) job_system \<Rightarrow> 'u built_payload option" where
  "poll_resolve i s = (if i < length (sy_jobs s) then jb_cell (sy_jobs s ! i) else None)"

text \<open>Polling the job: whether it is over.\<close>

definition poll_job :: "nat \<Rightarrow> nat \<Rightarrow> ('a, 'u) job_system \<Rightarrow> bool \<times> ('a, 'u) job_system" where
  "poll_job i now s =
     (if i < length (sy_jobs s) then
        let j = sy_jobs s ! i in
        if jb_deadline j \<le> now then (True, s\<lparr>sy_tokens := token_cancel (jb_cancel j) (sy_tokens s)\<rparr>)
        else (is_cancelled (sy_tokens s) (jb_cancel j), s)
      else (False, s))"

section \<open>The build of a job\<close>

record ('d, 'u) builder_setup =
  bd_ext :: ext
  bd_create_address :: "create_inputs \<Rightarrow> nat \<Rightarrow> address"
  bd_client :: "('d, 'u) node_client"
  bd_settings :: builder_settings
  bd_lib :: "'d builder_lib"
  bd_builder_tx :: flashblocks_builder_tx
  bd_config :: build_config

text \<open>The builder's context, then the build; the parent state is read from the client.\<close>

definition try_build :: "('d, 'u) builder_setup \<Rightarrow> ('a, 'u) job \<Rightarrow> 'd build_env \<Rightarrow> 'u build_output option" where
  "try_build bd j en =
     (let nc = bd_client bd; parent_hash = fst (jb_parent j); parent_header = snd (jb_parent j) in
      case get_op_payload_builder_ctx nc (bd_settings bd) parent_hash parent_header (jb_attributes j) of
        Inl e \<Rightarrow> Some (failed_build (ProviderFailed e) [] [])
      | Inr ((cx, pl), ea) \<Rightarrow>
          build_payload (bd_ext bd) (bd_create_address bd) cx (nc_world nc parent_header ea) (bd_lib bd) (nc_chain nc parent_header ea)
            (bd_builder_tx bd) (bd_config bd) pl (en\<lparr>en_parent_state := nc_state_by_block_hash nc parent_hash\<rparr>))"

text \<open>The task of a job ends: the build has set the cell, or has not, and reports its result.\<close>

definition finish_build :: "nat \<Rightarrow> 'u build_output \<Rightarrow> ('a, 'u) job_system \<Rightarrow> ('a, 'u) job_system" where
  "finish_build i out s = s\<lparr>sy_jobs := (sy_jobs s)[i := (sy_jobs s ! i)\<lparr>jb_cell := bo_cell out, jb_build_complete := Some (bo_error out)\<rparr>]\<rparr>"

section \<open>Runs\<close>

text \<open>
  The calls the service makes and the ends of build tasks, in any order; \<open>known\<close> are the notifications
  that the chain sends. A request brings its own
  client and clocks, the end of a build the surroundings of that build.
\<close>

inductive job_step :: "('d, 'u) builder_setup \<Rightarrow> (notification \<Rightarrow> bool) \<Rightarrow> ('a, 'u) job_system \<Rightarrow> ('a, 'u) job_system \<Rightarrow> bool" for bd known where
  step_new: "new_payload_job jc unix_now now parent_hash attrs pid s = (r, s') \<Longrightarrow> job_step bd known s s'"
| step_state: "known n \<Longrightarrow> job_step bd known s (s\<lparr>sy_generator := on_new_state n (sy_generator s)\<rparr>)"
| step_resolve: "job_step bd known s (resolve_kind i s)"
| step_poll: "poll_job i now s = (r, s') \<Longrightarrow> job_step bd known s s'"
| step_build: "i < length (sy_jobs s) \<Longrightarrow> jb_build_complete (sy_jobs s ! i) = None \<Longrightarrow> try_build bd (sy_jobs s ! i) en = Some out \<Longrightarrow>
    job_step bd known s (finish_build i out s)"

abbreviation job_steps :: "('d, 'u) builder_setup \<Rightarrow> (notification \<Rightarrow> bool) \<Rightarrow> ('a, 'u) job_system \<Rightarrow> ('a, 'u) job_system \<Rightarrow> bool" where
  "job_steps bd known \<equiv> (job_step bd known)\<^sup>*\<^sup>*"

lemma take_token_keeps:
  "fst (take_token s) = length (sy_tokens s)" "sy_jobs (snd (take_token s)) = sy_jobs s"
  "gn_extra_block_deadline (sy_generator (snd (take_token s))) = gn_extra_block_deadline (sy_generator s)"
  "gn_pre_cached (sy_generator (snd (take_token s))) = gn_pre_cached (sy_generator s)"
  "maybe_pre_cached (sy_generator (snd (take_token s))) = maybe_pre_cached (sy_generator s)"
  by (simp_all add: take_token_def Let_def maybe_pre_cached_def fun_eq_iff)

lemma new_payload_job_cases:
  assumes "new_payload_job jc unix_now now parent_hash attrs pid s = (r, s')"
  obtains (failed) e where "r = Inl e" "s' = snd (take_token s)"
    | (started) parent_header builder_attrs where "r = Inr (length (sy_jobs s))" "find_parent jc parent_hash = Inr parent_header"
        "jc_from_rpc_attrs jc parent_hash pid attrs = Inr builder_attrs"
        "s' = (snd (take_token s))\<lparr>sy_jobs := sy_jobs s @
          [\<lparr>jb_payload_id = pid, jb_parent = parent_header, jb_attributes = builder_attrs, jb_engine_attrs = attrs, jb_cell = None,
            jb_cancel = length (sy_tokens s),
            jb_deadline = now + (job_deadline unix_now (at_timestamp builder_attrs) + gn_extra_block_deadline (sy_generator s)),
            jb_task_reads = (case maybe_pre_cached (sy_generator s) (fst parent_header) of Some cached \<Rightarrow> cached | None \<Rightarrow> []),
            jb_build_complete = None\<rparr>]\<rparr>"
proof -
  show thesis
  proof (cases "and_then (find_parent jc parent_hash) (\<lambda>parent. map_sum JeOther (Pair parent) (jc_from_rpc_attrs jc parent_hash pid attrs))")
    case (Inl e)
    show thesis by (rule failed [of e]) (use assms Inl in \<open>simp_all add: new_payload_job_def split_beta\<close>)
  next
    case (Inr q)
    then obtain parent_header builder_attrs where q: "q = (parent_header, builder_attrs)"
      and f: "find_parent jc parent_hash = Inr parent_header" "jc_from_rpc_attrs jc parent_hash pid attrs = Inr builder_attrs"
      by (auto simp: and_then_Inr map_sum_Inr_iff)
    show thesis
    proof (cases "job_deadline unix_now (at_timestamp builder_attrs) + gn_extra_block_deadline (sy_generator s) > duration_max")
      case True
      show thesis by (rule failed [of JePanicked]) (use assms Inr q True in \<open>simp_all add: new_payload_job_def Let_def split_beta take_token_keeps\<close>)
    next
      case False
      show thesis by (rule started [OF _ f]) (use assms Inr q False in \<open>auto simp: new_payload_job_def Let_def split_beta take_token_keeps\<close>)
    qed
  qed
qed

text \<open>The fields of a job that never change, and what a step does to a cell.\<close>

definition same_job :: "('a, 'u) job \<Rightarrow> ('a, 'u) job \<Rightarrow> bool" where
  "same_job j j' \<longleftrightarrow> jb_payload_id j' = jb_payload_id j \<and> jb_parent j' = jb_parent j \<and> jb_attributes j' = jb_attributes j \<and>
     jb_cancel j' = jb_cancel j \<and> jb_deadline j' = jb_deadline j \<and> jb_task_reads j' = jb_task_reads j"

lemma job_step_jobs:
  assumes "job_step bd known s s'" "i < length (sy_jobs s)"
  shows "i < length (sy_jobs s')" "same_job (sy_jobs s ! i) (sy_jobs s' ! i)"
    "jb_build_complete (sy_jobs s ! i) \<noteq> None \<Longrightarrow> sy_jobs s' ! i = sy_jobs s ! i"
proof -
  have "i < length (sy_jobs s') \<and> same_job (sy_jobs s ! i) (sy_jobs s' ! i) \<and>
      (jb_build_complete (sy_jobs s ! i) = None \<or> sy_jobs s' ! i = sy_jobs s ! i)"
    using assms
  proof (cases rule: job_step.cases)
    case (step_new jc unix_now now parent_hash attrs pid r)
    then show ?thesis by (cases rule: new_payload_job_cases) (use assms(2) in \<open>auto simp: nth_append same_job_def take_token_keeps\<close>)
  next
    case (step_build k en out)
    with assms(2) show ?thesis by (cases "k = i") (auto simp: finish_build_def same_job_def)
  qed (auto simp: same_job_def resolve_kind_def poll_job_def Let_def split: if_splits)
  then show "i < length (sy_jobs s')" "same_job (sy_jobs s ! i) (sy_jobs s' ! i)"
    "jb_build_complete (sy_jobs s ! i) \<noteq> None \<Longrightarrow> sy_jobs s' ! i = sy_jobs s ! i" by auto
qed

interpretation finished: step_invariant "job_step bd known"
  "\<lambda>s. i < length (sy_jobs s) \<and> sy_jobs s ! i = j \<and> jb_build_complete j \<noteq> None" for bd known i j
  by unfold_locales (use job_step_jobs in blast)

interpretation started: step_invariant "job_step bd known" "\<lambda>s. i < length (sy_jobs s) \<and> same_job j (sy_jobs s ! i)" for bd known i j
proof
  fix s s'
  assume "job_step bd known s s'" "i < length (sy_jobs s) \<and> same_job j (sy_jobs s ! i)"
  with job_step_jobs [of bd known s s' i] show "i < length (sy_jobs s') \<and> same_job j (sy_jobs s' ! i)" by (auto simp: same_job_def)
qed

lemma finished_job_stays:
  assumes "job_steps bd known s s'" "i < length (sy_jobs s)" "jb_build_complete (sy_jobs s ! i) \<noteq> None"
  shows "i < length (sy_jobs s') \<and> sy_jobs s' ! i = sy_jobs s ! i"
  using finished.inv_steps [OF assms(1), of i "sy_jobs s ! i"] assms(2,3) by blast

section \<open>One job at a time\<close>

definition tokens_ok :: "bool list \<Rightarrow> generator \<Rightarrow> nat list \<Rightarrow> bool" where
  "tokens_ok tokens g used \<longleftrightarrow> gn_last_payload g < length tokens \<and> (\<forall>c\<in>set used. c < length tokens) \<and> distinct used \<and>
     (gn_ensure_only_one_payload g \<longrightarrow> (\<forall>t<length tokens. tokens ! t \<or> t = gn_last_payload g) \<and> sorted used \<and> (\<forall>c\<in>set used. c \<le> gn_last_payload g))"

definition tokens_inv :: "('a, 'u) job_system \<Rightarrow> bool" where
  "tokens_inv s \<longleftrightarrow> tokens_ok (sy_tokens s) (sy_generator s) (map jb_cancel (sy_jobs s))"

lemma tokens_inv_init: "tokens_inv (with_builder ensure extra)"
  by (simp add: tokens_inv_def tokens_ok_def with_builder_def)

lemma tokens_ok_cancel: "tokens_ok tokens g used \<Longrightarrow> tokens_ok (token_cancel t tokens) g used"
  by (cases "t < length tokens") (auto simp: tokens_ok_def token_cancel_def nth_list_update)

lemma tokens_ok_take:
  assumes "tokens_inv s"
  shows "tokens_ok (sy_tokens (snd (take_token s))) (sy_generator (snd (take_token s))) (map jb_cancel (sy_jobs s))"
    and "tokens_ok (sy_tokens (snd (take_token s))) (sy_generator (snd (take_token s))) (map jb_cancel (sy_jobs s) @ [length (sy_tokens s)])"
  using assms
  by (auto simp: tokens_inv_def tokens_ok_def take_token_def token_cancel_def Let_def nth_append nth_list_update less_Suc_eq sorted_append
      intro: less_imp_le less_SucI)

lemma tokens_inv_step:
  assumes "job_step bd known s s'" "tokens_inv s"
  shows "tokens_inv s'"
  using assms(1)
proof (cases rule: job_step.cases)
  case (step_new jc unix_now now parent_hash attrs pid r)
  then show ?thesis
    by (cases rule: new_payload_job_cases) (use tokens_ok_take [OF assms(2)] in \<open>simp_all add: tokens_inv_def take_token_keeps\<close>)
next
  case (step_build i en out)
  have "map jb_cancel (sy_jobs s') = map jb_cancel (sy_jobs s)"
    by (rule nth_equalityI) (use step_build in \<open>auto simp: finish_build_def nth_list_update\<close>)
  with assms(2) step_build(1) show ?thesis by (simp add: tokens_inv_def finish_build_def)
next
  case (step_state n)
  with assms(2) show ?thesis by (simp add: tokens_inv_def tokens_ok_def on_new_state_def)
qed (use assms(2) tokens_ok_cancel in \<open>auto simp: tokens_inv_def resolve_kind_def poll_job_def Let_def split: if_splits\<close>)

interpretation tokens: step_invariant "job_step bd known" tokens_inv for bd known
  by unfold_locales (rule tokens_inv_step)

lemma job_steps_ensure:
  "job_steps bd known s s' \<Longrightarrow> gn_ensure_only_one_payload (sy_generator s') = gn_ensure_only_one_payload (sy_generator s)"
proof (induction rule: rtranclp_induct)
  case (step s1 s2)
  have "gn_ensure_only_one_payload (sy_generator s2) = gn_ensure_only_one_payload (sy_generator s1)"
    using step.hyps(2)
  proof (cases rule: job_step.cases)
    case (step_new jc unix_now now parent_hash attrs pid r)
    then show ?thesis by (cases rule: new_payload_job_cases) (auto simp: take_token_def Let_def)
  qed (auto simp: on_new_state_def resolve_kind_def poll_job_def finish_build_def Let_def split: if_splits)
  with step.IH show ?case by simp
qed simp

text \<open>
  C19. With one payload at a time, whatever calls the service makes and in whatever order, at most one
  job is not cancelled, and it is the newest one: a superseded build is always told to stop.
\<close>

theorem only_newest_job_runs:
  assumes "job_steps bd known (with_builder True extra) s" "i < length (sy_jobs s)" "\<not> is_cancelled (sy_tokens s) (jb_cancel (sy_jobs s ! i))"
  shows "Suc i = length (sy_jobs s)"
proof (rule ccontr)
  assume "Suc i \<noteq> length (sy_jobs s)"
  with assms(2) have k: "Suc i < length (sy_jobs s)" by simp
  let ?c = "map jb_cancel (sy_jobs s)" and ?g = "sy_generator s"
  have e: "gn_ensure_only_one_payload ?g" using job_steps_ensure [OF assms(1)] by (simp add: with_builder_def)
  have inv: "tokens_ok (sy_tokens s) ?g ?c" using tokens.inv_steps [OF assms(1) tokens_inv_init] by (simp add: tokens_inv_def)
  have live: "jb_cancel (sy_jobs s ! i) = gn_last_payload ?g"
    using inv e assms(2,3) by (auto simp: tokens_ok_def is_cancelled_def)
  have "?c ! i \<noteq> ?c ! Suc i" using inv k nth_eq_iff_index_eq [of ?c i "Suc i"] by (simp add: tokens_ok_def)
  moreover have "?c ! i \<le> ?c ! Suc i" using inv e k by (intro sorted_nth_mono) (simp_all add: tokens_ok_def)
  moreover have "?c ! Suc i \<le> gn_last_payload ?g" using inv e nth_mem [of "Suc i" ?c] k by (auto simp: tokens_ok_def)
  ultimately show False using live k by simp
qed

section \<open>What a job resolves to\<close>

text \<open>The fields of a block that its parent and its attributes determine.\<close>

definition block_of :: "builder_ctx \<Rightarrow> payload_config \<Rightarrow> 'u built_payload \<Rightarrow> bool" where
  "block_of cx pl p \<longleftrightarrow> ob_id p = pl_payload_id pl \<and> ob_withdrawals p = pl_withdrawals pl \<and>
     hd_parent_hash (ob_header p) = pl_parent_hash pl \<and> hd_number (ob_header p) = pl_parent_number pl + 1 \<and>
     hd_timestamp (ob_header p) = cx_timestamp cx \<and> hd_mix_hash (ob_header p) = pl_prev_randao pl \<and>
     hd_beneficiary (ob_header p) = pl_beneficiary pl \<and> hd_parent_beacon_block_root (ob_header p) = pl_parent_beacon_block_root pl"

lemma build_block_of:
  assumes "build_block cx ch pl info db fb calc = Inr (p, msg, fb')"
  shows "block_of cx pl p"
proof -
  obtain sr wr rh ebg bgu xd where "ob_header p = block_header cx ch pl info sr wr rh ebg bgu xd" "ob_id p = pl_payload_id pl" "ob_withdrawals p = pl_withdrawals pl"
    by (rule build_block_Inr_fields [OF assms]) simp
  then show ?thesis by (simp add: block_of_def block_header_def)
qed

lemma resolve_best_payload_of:
  assumes "fst (resolve_best_payload synchronously found ch best fallback None) = Some p" "block_of cx pl (fst best)" "block_of cx pl fallback"
  shows "block_of cx pl p"
  using assms
  by (auto simp: resolve_best_payload_def resolve_zero_state_root_def Let_def map_sum_Inr_iff block_of_def split: if_splits sum.splits prod.splits)

lemma build_payload_of:
  assumes "build_payload E C cx w L ch btx cfg pl en = Some out" "bo_cell out = Some p"
  shows "block_of cx pl p"
  using assms(1)
proof (cases rule: build_payload_cases)
  case (failed e ws p2p)
  with assms(2) show ?thesis by (simp add: failed_build_def)
next
  case (fallback_only db0 info0 db1 info db fallback msg fb)
  note b = build_block_of [OF fallback_only(4)]
  have "block_of cx pl (fst (fallback, db))" using b by simp
  from resolve_best_payload_of [OF _ this b] assms(2) fallback_only(5) show ?thesis by simp
next
  case (rounds db0 info0 db1 info db fallback msg fb target err bs)
  have "sealed_from cx ch pl (\<lambda>_ _. True) (bs_best_payload bs)"
    by (rule build_rounds_sealed [where P = "\<lambda>_ _. True", OF rounds(8)])
      (use sealed_fromI [where P = "\<lambda>_ _. True", OF TrueI rounds(6)] in \<open>simp_all add: rounds_start_def\<close>)
  then have "block_of cx pl (fst (bs_best_payload bs))" unfolding sealed_from_def by (elim exE conjE) (rule build_block_of)
  from resolve_best_payload_of [OF _ this build_block_of [OF rounds(6)]] assms(2) rounds(9) show ?thesis by simp
qed

text \<open>What a payload has to be to answer a request.\<close>

definition answers_request :: "b256 \<times> header \<Rightarrow> payload_attributes \<Rightarrow> 'u built_payload \<Rightarrow> bool" where
  "answers_request parent attrs p \<longleftrightarrow> ob_id p = at_id attrs \<and> hd_parent_hash (ob_header p) = fst parent \<and>
     hd_number (ob_header p) = hd_number (snd parent) + 1 \<and> hd_timestamp (ob_header p) = at_timestamp attrs \<and>
     hd_mix_hash (ob_header p) = at_prev_randao attrs \<and> hd_parent_beacon_block_root (ob_header p) = at_parent_beacon_block_root attrs"

lemma try_build_answers:
  assumes "try_build bd j en = Some out" "bo_cell out = Some p"
  shows "answers_request (jb_parent j) (jb_attributes j) p"
proof (cases "get_op_payload_builder_ctx (bd_client bd) (bd_settings bd) (fst (jb_parent j)) (snd (jb_parent j)) (jb_attributes j)")
  case (Inl e)
  with assms show ?thesis by (auto simp: try_build_def failed_build_def)
next
  case (Inr q)
  obtain cx pl ea where q: "q = ((cx, pl), ea)" by (cases q) auto
  with Inr obtain evm where mk: "(cx, pl) = make_ctx (bd_client bd) (bd_settings bd) (fst (jb_parent j)) (snd (jb_parent j)) (jb_attributes j) evm"
    by (auto simp: get_op_payload_builder_ctx_def and_then_Inr map_sum_Inr_iff Let_def)
  have "block_of cx pl p" using assms Inr q by (auto simp: try_build_def Let_def intro: build_payload_of)
  moreover have "pl_payload_id pl = at_id (jb_attributes j)" "cx_timestamp cx = at_timestamp (jb_attributes j)" using mk by (simp_all add: make_ctx_def Let_def)
  ultimately show ?thesis using make_ctx_fields [OF mk] by (simp add: block_of_def answers_request_def)
qed

definition cells_inv :: "('d, 'u) builder_setup \<Rightarrow> ('a, 'u) job_system \<Rightarrow> bool" where
  "cells_inv bd s \<longleftrightarrow> list_all (\<lambda>j. case jb_cell j of None \<Rightarrow> True
     | Some p \<Rightarrow> answers_request (jb_parent j) (jb_attributes j) p \<and> jb_build_complete j \<noteq> None) (sy_jobs s)"

lemma cells_inv_step:
  assumes "job_step bd known s s'" "cells_inv bd s"
  shows "cells_inv bd s'"
  using assms(1)
proof (cases rule: job_step.cases)
  case (step_new jc unix_now now parent_hash attrs pid r)
  then show ?thesis by (cases rule: new_payload_job_cases) (use assms(2) in \<open>simp_all add: cells_inv_def take_token_keeps\<close>)
next
  case (step_build i en out)
  have "case bo_cell out of None \<Rightarrow> True | Some p \<Rightarrow> answers_request (jb_parent (sy_jobs s ! i)) (jb_attributes (sy_jobs s ! i)) p"
    using try_build_answers [OF step_build(4)] by (simp split: option.split)
  with assms(2) step_build(1,2) show ?thesis
    by (auto simp: cells_inv_def finish_build_def list_all_length nth_list_update split: option.splits)
qed (use assms(2) in \<open>auto simp: cells_inv_def resolve_kind_def poll_job_def Let_def split: if_splits\<close>)

interpretation cells: step_invariant "job_step bd known" "cells_inv bd" for bd known
  by unfold_locales (rule cells_inv_step)

text \<open>
  What the client does: a header that is found by its hash has that hash, and the attributes of the
  builder have the identifier given to them and the timestamp, the randomness and the beacon root of the
  request's attributes (\<open>ts\<close>, \<open>randao\<close> and \<open>beacon\<close>).
\<close>

definition client_ok :: "'a job_client \<Rightarrow> ('a \<Rightarrow> nat) \<Rightarrow> ('a \<Rightarrow> b256) \<Rightarrow> ('a \<Rightarrow> b256 option) \<Rightarrow> bool" where
  "client_ok jc ts randao beacon \<longleftrightarrow>
     (\<forall>h h' header. jc_sealed_header_by_hash jc h = Inr (Some (h', header)) \<longrightarrow> h' = h) \<and>
     (\<forall>h pid attrs b. jc_from_rpc_attrs jc h pid attrs = Inr b \<longrightarrow>
        at_id b = pid \<and> at_timestamp b = ts attrs \<and> at_prev_randao b = randao attrs \<and> at_parent_beacon_block_root b = beacon attrs)"

lemma find_parent_Inr:
  assumes "find_parent jc parent_hash = Inr parent" "client_ok jc ts randao beacon"
  shows "(if parent_hash = 0 then jc_latest_header jc else jc_sealed_header_by_hash jc parent_hash) = Inr (Some parent)"
    "parent_hash \<noteq> 0 \<Longrightarrow> fst parent = parent_hash"
  using assms by (cases parent; auto simp: find_parent_def and_then_Inr map_sum_Inr_iff client_ok_def split: option.splits if_splits)+

text \<open>
  C18. \<open>getPayload\<close> answers with a block of the request. When a request for a payload with some identifier
  on some parent starts a job, then whatever calls the service makes after it and in whatever order, a
  payload to which the future of that job resolves has that identifier, extends the block with the hash of the request (the
  latest block when that is zero) by one, and has the timestamp, the randomness and the beacon root of the request's
  attributes; and later polls give the same payload. The client finds a header of the hash it is asked for,
  and converts the attributes of the request as they are.
\<close>

theorem resolved_payload_answers_request:
  assumes "job_steps bd known (with_builder ensure extra) s0" "new_payload_job jc unix_now now parent_hash attrs pid s0 = (Inr i, s1)"
    and "client_ok jc ts randao beacon" "job_steps bd known s1 s" "poll_resolve i s = Some p" "job_steps bd known s s'"
  shows "\<exists>h parent. (if parent_hash = 0 then jc_latest_header jc else jc_sealed_header_by_hash jc parent_hash) = Inr (Some (h, parent)) \<and>
      (parent_hash = 0 \<or> h = parent_hash) \<and>
      ob_id p = pid \<and> hd_parent_hash (ob_header p) = h \<and> hd_number (ob_header p) = hd_number parent + 1 \<and>
      hd_timestamp (ob_header p) = ts attrs \<and> hd_mix_hash (ob_header p) = randao attrs \<and>
      hd_parent_beacon_block_root (ob_header p) = beacon attrs \<and> poll_resolve i s' = Some p"
proof -
  have "job_steps bd known (with_builder ensure extra) s"
    using rtranclp_trans [OF rtranclp.rtrancl_into_rtrancl [OF assms(1) step_new [OF assms(2)]] assms(4)] .
  then have "cells_inv bd s" by (rule cells.inv_steps) (simp add: cells_inv_def with_builder_def)
  moreover have i: "i < length (sy_jobs s)" "jb_cell (sy_jobs s ! i) = Some p" using assms(5) by (auto simp: poll_resolve_def split: if_splits)
  ultimately have a: "answers_request (jb_parent (sy_jobs s ! i)) (jb_attributes (sy_jobs s ! i)) p" "jb_build_complete (sy_jobs s ! i) \<noteq> None"
    by (auto simp: cells_inv_def list_all_length)
  obtain parent b where n: "i < length (sy_jobs s1)" "jb_parent (sy_jobs s1 ! i) = parent" "jb_attributes (sy_jobs s1 ! i) = b"
    "find_parent jc parent_hash = Inr parent" "jc_from_rpc_attrs jc parent_hash pid attrs = Inr b"
    using assms(2) by (cases rule: new_payload_job_cases) auto
  have "i < length (sy_jobs s) \<and> same_job (sy_jobs s1 ! i) (sy_jobs s ! i)" using assms(4)
    by (rule started.inv_steps) (use n in \<open>simp add: same_job_def\<close>)
  with a(1) n(2,3) have "answers_request parent b p" by (simp add: same_job_def)
  moreover have "at_id b = pid" "at_timestamp b = ts attrs" "at_prev_randao b = randao attrs" "at_parent_beacon_block_root b = beacon attrs"
    using assms(3) n(5) by (simp_all add: client_ok_def)
  moreover have "poll_resolve i s' = Some p" using finished_job_stays [OF assms(6) i(1) a(2)] i by (simp add: poll_resolve_def)
  ultimately show ?thesis
    using find_parent_Inr [OF n(4) assms(3)]
    by (intro exI [of _ "fst parent"] exI [of _ "snd parent"]) (auto simp: answers_request_def)
qed

lemma finish_build_final:
  assumes "i < length (sy_jobs s)" "job_steps bd known (finish_build i out s) s'"
  shows "poll_resolve i s' = bo_cell out"
proof -
  have "i < length (sy_jobs (finish_build i out s))" "sy_jobs (finish_build i out s) ! i = (sy_jobs s ! i)\<lparr>jb_cell := bo_cell out, jb_build_complete := Some (bo_error out)\<rparr>"
    using assms(1) by (simp_all add: finish_build_def)
  with finished_job_stays [OF assms(2), of i] show ?thesis by (simp add: poll_resolve_def)
qed

lemma build_payload_no_error: "build_payload E C cx w L ch btx cfg pl en = Some out \<Longrightarrow> bo_error out = None \<Longrightarrow> bo_cell out \<noteq> None"
  by (cases rule: build_payload_cases, assumption) (auto simp: failed_build_def resolve_best_payload_Some)

lemma build_payload_no_parent: "en_parent_state en = Inl e \<Longrightarrow> build_payload E C cx w L ch btx cfg pl en = Some (failed_build (ProviderFailed e) [] [])"
  by (simp add: build_payload_def Let_def and_then_def)

text \<open>
  Whether \<open>getPayload\<close> is answered is decided by the build of the job, which always ends: once it
  has ended, polls give its payload or stay pending whatever happens after, and a build without an
  error has a payload. (Marking a sender as invalid must not add transactions to the iterator.)
\<close>

lemma build_decides_resolution:
  assumes "i < length (sy_jobs s)" "jb_build_complete (sy_jobs s ! i) = None" "\<And>ph ea. marks_shrink (nc_world (bd_client bd) ph ea)"
  shows "\<exists>out. try_build bd (sy_jobs s ! i) en = Some out \<and> job_step bd known s (finish_build i out s) \<and>
    (\<forall>s'. job_steps bd known (finish_build i out s) s' \<longrightarrow> poll_resolve i s' = bo_cell out) \<and> (bo_error out = None \<longrightarrow> bo_cell out \<noteq> None)"
proof -
  let ?j = "sy_jobs s ! i" and ?nc = "bd_client bd"
  have "\<exists>out. try_build bd ?j en = Some out \<and> (bo_error out = None \<longrightarrow> bo_cell out \<noteq> None)"
  proof (cases "get_op_payload_builder_ctx ?nc (bd_settings bd) (fst (jb_parent ?j)) (snd (jb_parent ?j)) (jb_attributes ?j)")
    case (Inl e)
    then show ?thesis by (simp add: try_build_def failed_build_def)
  next
    case (Inr q)
    obtain cx pl ea where q: "q = ((cx, pl), ea)" by (cases q) auto
    obtain out where b: "build_payload (bd_ext bd) (bd_create_address bd) cx (nc_world ?nc (snd (jb_parent ?j)) ea) (bd_lib bd) (nc_chain ?nc (snd (jb_parent ?j)) ea)
        (bd_builder_tx bd) (bd_config bd) pl (en\<lparr>en_parent_state := nc_state_by_block_hash ?nc (fst (jb_parent ?j))\<rparr>) = Some out"
      using build_payload_returns [OF assms(3)] by blast
    with Inr q build_payload_no_error [OF b] show ?thesis by (simp add: try_build_def Let_def)
  qed
  then obtain out where out: "try_build bd ?j en = Some out" "bo_error out = None \<longrightarrow> bo_cell out \<noteq> None" by (elim exE conjE)
  show ?thesis
    by (intro exI [of _ out] conjI allI impI) (use out step_build [OF assms(1,2) out(1)] finish_build_final [OF assms(1), of bd known out] in auto)
qed

text \<open>
  C20. A build that cannot start leaves \<open>getPayload\<close> waiting for ever. When the parent state of a job
  is not available, its build ends with an error, and no later poll of the job's future is ever
  answered, whatever else happens: the error is sent to a receiver that nobody reads, and the future
  asks to be polled again each time.
\<close>

theorem failed_build_never_resolves:
  assumes "i < length (sy_jobs s)" "nc_state_by_block_hash (bd_client bd) (fst (jb_parent (sy_jobs s ! i))) = Inl e"
    and "try_build bd (sy_jobs s ! i) en = Some out" "job_steps bd known (finish_build i out s) s'"
  shows "poll_resolve i s' = None \<and> (\<exists>e'. bo_error out = Some e')"
proof -
  have "\<exists>e'. out = failed_build e' [] []"
    using assms(2,3)
    by (cases "get_op_payload_builder_ctx (bd_client bd) (bd_settings bd) (fst (jb_parent (sy_jobs s ! i))) (snd (jb_parent (sy_jobs s ! i))) (jb_attributes (sy_jobs s ! i))")
      (auto simp: try_build_def Let_def build_payload_no_parent split: prod.splits)
  with finish_build_final [OF assms(1,4)] show ?thesis by (auto simp: failed_build_def)
qed

section \<open>Cached reads are transparent\<close>

definition bundle_true :: "chain_state \<Rightarrow> notification \<Rightarrow> bool" where
  "bundle_true sv n \<longleftrightarrow> list_all (\<lambda>(a, acc). case ba_info acc of None \<Rightarrow> True
     | Some info \<Rightarrow> sv_account sv a = Some info \<and> list_all (\<lambda>(k, v). sv_storage sv a k = v) (ba_storage acc)) (no_bundle n)"

definition reads_true :: "chain_state \<Rightarrow> cached_reads \<Rightarrow> bool" where
  "reads_true sv cached \<longleftrightarrow> (\<forall>a ca. map_of cached a = Some ca \<longrightarrow> ca_info ca = sv_account sv a \<and> list_all (\<lambda>(k, v). sv_storage sv a k = v) (ca_storage ca))"

lemma reads_true_empty [simp]: "reads_true sv []"
  by (simp add: reads_true_def)

lemma reads_of_true:
  assumes "bundle_true sv n"
  shows "reads_true sv (reads_of n)"
proof -
  have fold: "reads_true sv (fold (\<lambda>(a, acc) cached. case ba_info acc of Some info \<Rightarrow> insert_account a info (ba_storage acc) cached | None \<Rightarrow> cached) xs c)"
    if "list_all (\<lambda>(a, acc). case ba_info acc of None \<Rightarrow> True
       | Some info \<Rightarrow> sv_account sv a = Some info \<and> list_all (\<lambda>(k, v). sv_storage sv a k = v) (ba_storage acc)) xs" "reads_true sv c" for xs c
    using that
  proof (induction xs arbitrary: c)
    case (Cons x xs)
    obtain a acc where x: "x = (a, acc)" by (cases x)
    show ?case
    proof (cases "ba_info acc")
      case (Some info)
      with Cons.prems x have "reads_true sv (insert_account a info (ba_storage acc) c)"
        by (simp add: reads_true_def insert_account_def update_conv')
      with Cons x Some show ?thesis by simp
    qed (use Cons x in simp)
  qed simp
  show ?thesis unfolding reads_of_def by (rule fold [OF assms [unfolded bundle_true_def] reads_true_empty])
qed

lemma reads_transparent:
  assumes "reads_true sv cached"
  shows "cached_account_read cached sv a = sv_account sv a" "cached_storage_read cached sv a k = sv_storage sv a k"
proof -
  have c: "ca_info ca = sv_account sv a" "list_all (\<lambda>(k, v). sv_storage sv a k = v) (ca_storage ca)" if "map_of cached a = Some ca" for ca
    using assms that by (simp_all add: reads_true_def)
  show "cached_account_read cached sv a = sv_account sv a" using c(1) by (simp add: cached_account_read_def split: option.split)
  show "cached_storage_read cached sv a k = sv_storage sv a k"
    using c(2) by (auto simp: cached_storage_read_def list_all_iff dest!: map_of_SomeD [of _ k] split: option.split)
qed

definition reads_inv :: "(b256 \<Rightarrow> chain_state) \<Rightarrow> ('a, 'u) job_system \<Rightarrow> bool" where
  "reads_inv state_at s \<longleftrightarrow> (case gn_pre_cached (sy_generator s) of None \<Rightarrow> True | Some (b, cached) \<Rightarrow> reads_true (state_at b) cached) \<and>
     list_all (\<lambda>j. reads_true (state_at (fst (jb_parent j))) (jb_task_reads j)) (sy_jobs s)"

lemma reads_inv_step:
  assumes "job_step bd known s s'" "reads_inv state_at s" "\<And>n. known n \<Longrightarrow> bundle_true (state_at (no_tip n)) n"
  shows "reads_inv state_at s'"
  using assms(1)
proof (cases rule: job_step.cases)
  case (step_new jc unix_now now parent_hash attrs pid r)
  then show ?thesis
  proof (cases rule: new_payload_job_cases)
    case (started parent_header builder_attrs)
    have "reads_true (state_at (fst parent_header)) (case maybe_pre_cached (sy_generator s) (fst parent_header) of Some cached \<Rightarrow> cached | None \<Rightarrow> [])"
      using assms(2) by (auto simp: maybe_pre_cached_def reads_inv_def split: option.splits)
    with assms(2) show ?thesis unfolding started(4) by (simp add: reads_inv_def take_token_keeps)
  qed (use assms(2) in \<open>simp add: reads_inv_def take_token_keeps\<close>)
next
  case (step_state n)
  with assms(2) reads_of_true [OF assms(3)] show ?thesis by (simp add: reads_inv_def on_new_state_def)
next
  case (step_build i en out)
  with assms(2) show ?thesis by (auto simp: reads_inv_def finish_build_def list_all_length nth_list_update)
qed (use assms(2) in \<open>auto simp: reads_inv_def resolve_kind_def poll_job_def Let_def split: if_splits\<close>)

text \<open>
  C21. The reads cached from the canonical chain never change what a build sees. The notifications of
  the chain tell the present values of what changed up to their tip. Then whatever calls were made, the
  reads that the build task of a job was given agree with the state of the job's parent: reading
  accounts and storage through them is reading that state.
\<close>

theorem cached_reads_transparent:
  assumes "job_steps bd known (with_builder ensure extra) s" "\<And>n. known n \<Longrightarrow> bundle_true (state_at (no_tip n)) n" "j \<in> set (sy_jobs s)"
  shows "cached_account_read (jb_task_reads j) (state_at (fst (jb_parent j))) a = sv_account (state_at (fst (jb_parent j))) a \<and>
    cached_storage_read (jb_task_reads j) (state_at (fst (jb_parent j))) a k = sv_storage (state_at (fst (jb_parent j))) a k"
proof -
  have "reads_inv state_at s" using assms(1)
  proof (induction rule: rtranclp_induct)
    case (step s1 s2)
    show ?case by (rule reads_inv_step [OF step.hyps(2) step.IH assms(2)])
  qed (simp add: reads_inv_def with_builder_def)
  with assms(3) have "reads_true (state_at (fst (jb_parent j))) (jb_task_reads j)" by (simp add: reads_inv_def list_all_iff)
  then show ?thesis by (simp add: reads_transparent)
qed

section \<open>How long a job lives\<close>

lemma job_deadline_bounds: "from_secs 1 \<le> job_deadline unix_now ts" "ts \<le> unix_now + max 1 (ts - unix_now)"
  "job_deadline unix_now ts = from_secs (max 1 (ts - unix_now))"
  by (auto simp: job_deadline_def Let_def from_secs_def max_def)

text \<open>
  A job is not dropped early. A job that a request started stays pending for at least a second
  and until the timestamp of its block, and for the configured time after that, unless it is cancelled;
  after that time a poll ends it.
\<close>

lemma job_lives_until_deadline:
  assumes "new_payload_job jc unix_now now parent_hash attrs pid s = (Inr i, s1)" "job_steps bd known s1 s2"
  defines "lifetime \<equiv> from_secs (max 1 (at_timestamp (jb_attributes (sy_jobs s1 ! i)) - unix_now)) + gn_extra_block_deadline (sy_generator s)"
  shows "fst (poll_job i t s2) = (now + lifetime \<le> t \<or> is_cancelled (sy_tokens s2) (jb_cancel (sy_jobs s1 ! i)))"
proof -
  have i: "i < length (sy_jobs s1)" "jb_deadline (sy_jobs s1 ! i) = now + lifetime"
    using assms(1) by (cases rule: new_payload_job_cases; auto simp: lifetime_def job_deadline_bounds(3))+
  have "i < length (sy_jobs s2) \<and> same_job (sy_jobs s1 ! i) (sy_jobs s2 ! i)" using assms(2)
    by (rule started.inv_steps) (use i in \<open>simp add: same_job_def\<close>)
  with i show ?thesis by (auto simp: poll_job_def Let_def same_job_def)
qed

section \<open>An instance\<close>

text \<open>A client that knows one block, requests for payloads on it, and the build of the sample block.\<close>

definition sample_jc :: "unit job_client" where
  "sample_jc = \<lparr>jc_latest_header = Inr None, jc_sealed_header_by_hash = (\<lambda>h. Inr (if h = 77 then Some (77, sample_parent) else None)),
     jc_from_rpc_attrs = (\<lambda>_ pid _. Inr (sample_attrs\<lparr>at_id := pid\<rparr>))\<rparr>"

definition sample_bd :: "(nat, unit) builder_setup" where
  "sample_bd = \<lparr>bd_ext = sample_ext, bd_create_address = (\<lambda>_ _. 0), bd_client = sample_client, bd_settings = sample_settings,
     bd_lib = sample_builder_lib, bd_builder_tx = BaseTx None, bd_config = sample_build_config\<rparr>"

definition sample_notification :: notification where
  "sample_notification = \<lparr>no_tip = 77, no_bundle = [(5, \<lparr>ba_info = Some \<lparr>ac_nonce = 1, ac_balance = 8\<rparr>, ba_storage = [(0, 3)]\<rparr>)]\<rparr>"

definition sample_job :: "(unit, unit) job" where
  "sample_job = \<lparr>jb_payload_id = 9, jb_parent = (77, sample_parent), jb_attributes = sample_attrs, jb_engine_attrs = (), jb_cell = None, jb_cancel = 1,
     jb_deadline = from_secs 10, jb_task_reads = reads_of sample_notification, jb_build_complete = None\<rparr>"

definition sample_notified :: "(unit, unit) job_system" where
  "sample_notified = (with_builder True 0)\<lparr>sy_generator := on_new_state sample_notification (sy_generator (with_builder True 0 :: (unit, unit) job_system))\<rparr>"

definition sample_started :: "(unit, unit) job_system" where
  "sample_started = snd (new_payload_job sample_jc 990 0 77 () 9 sample_notified)"

lemma sample_request: "new_payload_job sample_jc 990 0 77 () 9 sample_notified = (Inr 0, sample_started)"
  and sample_started_fields: "sy_jobs sample_started = [sample_job]" "sy_tokens sample_started = [True, False]"
  by (simp_all add: sample_started_def new_payload_job_def sample_notified_def with_builder_def take_token_def Let_def find_parent_def and_then_def
      sample_jc_def job_deadline_def sample_attrs_def from_secs_def duration_max_def maybe_pre_cached_def on_new_state_def sample_job_def token_cancel_def
      sample_notification_def)

lemma job_steps_one: "job_step bd known s s' \<Longrightarrow> job_steps bd known s s'"
  by (rule r_into_rtranclp)

lemma sample_start: "job_steps sample_bd (\<lambda>n. n = sample_notification) (with_builder True 0) sample_started"
proof (rule rtranclp.rtrancl_into_rtrancl)
  show "job_steps sample_bd (\<lambda>n. n = sample_notification) (with_builder True 0) sample_notified"
    unfolding sample_notified_def by (rule job_steps_one, rule step_state) simp
  show "job_step sample_bd (\<lambda>n. n = sample_notification) sample_notified sample_started" by (rule step_new [OF sample_request])
qed

lemma sample_try_build: "\<exists>out p. try_build sample_bd sample_job sample_env = Some out \<and> bo_cell out = Some p"
proof -
  let ?b = "build_payload sample_ext (\<lambda>_ _. 0) (fst sample_ctx) sample_paid_world sample_builder_lib
      (nc_chain sample_client sample_parent sample_ea) (BaseTx None) sample_build_config (snd sample_ctx) sample_env"
  have e: "sample_env\<lparr>en_parent_state := Inr 0\<rparr> = sample_env" "nc_state_by_block_hash sample_client 77 = Inr 0"
    "nc_world sample_client ph ea = sample_paid_world" for ph ea
    by (simp_all add: sample_env_def sample_client_def)
  have t: "try_build sample_bd sample_job sample_env = ?b"
    using sample_ctx by (simp add: try_build_def sample_bd_def sample_job_def Let_def e split_beta)
  obtain out where "?b = Some out" "bo_error out = None" using sample_built by blast
  with build_payload_no_error t show ?thesis by fastforce
qed

lemma sample_marks: "marks_shrink (nc_world (bd_client sample_bd) ph ea)"
  using sample_laws(1) by (simp add: sample_bd_def sample_client_def sample_paid_world_def marks_shrink_def)

theorem only_newest_job_runs_witness:
  "\<not> is_cancelled (sy_tokens sample_started) (jb_cancel (sy_jobs sample_started ! 0)) \<and> Suc 0 = length (sy_jobs sample_started)"
proof -
  have "0 < length (sy_jobs sample_started)" "\<not> is_cancelled (sy_tokens sample_started) (jb_cancel (sy_jobs sample_started ! 0))"
    by (simp_all add: sample_started_fields is_cancelled_def sample_job_def)
  with only_newest_job_runs [OF sample_start this] show ?thesis by blast
qed

lemma build_decides_resolution_witness:
  "\<exists>out. try_build sample_bd (sy_jobs sample_started ! 0) sample_env = Some out \<and> job_step sample_bd (\<lambda>_. True) sample_started (finish_build 0 out sample_started)"
proof -
  have "0 < length (sy_jobs sample_started)" "jb_build_complete (sy_jobs sample_started ! 0) = None" by (simp_all add: sample_started_fields sample_job_def)
  from build_decides_resolution [OF this, of sample_bd sample_env "\<lambda>_. True"] sample_marks show ?thesis by blast
qed

theorem resolved_payload_answers_request_witness:
  "\<exists>out p. try_build sample_bd sample_job sample_env = Some out \<and> poll_resolve 0 (finish_build 0 out sample_started) = Some p \<and>
     ob_id p = 9 \<and> hd_parent_hash (ob_header p) = 77 \<and> poll_resolve 0 (resolve_kind 0 (finish_build 0 out sample_started)) = Some p"
proof -
  obtain out p where b: "try_build sample_bd sample_job sample_env = Some out" "bo_cell out = Some p" using sample_try_build by blast
  let ?s = "finish_build 0 out sample_started" and ?k = "\<lambda>n. n = sample_notification"
  have n: "job_steps sample_bd ?k (with_builder True 0) sample_notified"
    unfolding sample_notified_def by (rule job_steps_one, rule step_state) simp
  have st: "job_step sample_bd ?k sample_started ?s"
    by (rule step_build [where en = sample_env]) (use b in \<open>simp_all add: sample_started_fields sample_job_def\<close>)
  have r: "poll_resolve 0 ?s = Some p" by (simp add: poll_resolve_def finish_build_def sample_started_fields b(2))
  have c: "client_ok sample_jc (\<lambda>_. at_timestamp sample_attrs) (\<lambda>_. at_prev_randao sample_attrs) (\<lambda>_. at_parent_beacon_block_root sample_attrs)"
    by (auto simp: client_ok_def sample_jc_def)
  from resolved_payload_answers_request [OF n sample_request c job_steps_one [OF st] r job_steps_one [OF step_resolve]] b(1) r
  show ?thesis by auto
qed

text \<open>A client without the state of the parent.\<close>

definition sample_bd_stateless :: "(nat, unit) builder_setup" where
  "sample_bd_stateless = sample_bd\<lparr>bd_client := sample_client\<lparr>nc_state_by_block_hash := (\<lambda>_. Inl ''pruned'')\<rparr>\<rparr>"

theorem failed_build_never_resolves_witness:
  "\<exists>out. try_build sample_bd_stateless sample_job sample_env = Some out \<and>
     poll_resolve 0 (resolve_kind 0 (finish_build 0 out sample_started)) = None"
proof -
  have j: "0 < length (sy_jobs sample_started)" "sy_jobs sample_started ! 0 = sample_job" "jb_build_complete (sy_jobs sample_started ! 0) = None"
    by (simp_all add: sample_started_fields sample_job_def)
  have n: "nc_state_by_block_hash (bd_client sample_bd_stateless) (fst (jb_parent (sy_jobs sample_started ! 0))) = Inl ''pruned''"
    by (simp add: sample_bd_stateless_def)
  have "\<exists>out. try_build sample_bd_stateless (sy_jobs sample_started ! 0) sample_env = Some out"
    by (auto simp: try_build_def sample_bd_stateless_def Let_def build_payload_no_parent split: sum.split)
  then obtain out where o: "try_build sample_bd_stateless (sy_jobs sample_started ! 0) sample_env = Some out" by blast
  from failed_build_never_resolves [OF j(1) n o job_steps_one [OF step_resolve]] o j(2) show ?thesis by auto
qed

theorem cached_reads_transparent_witness:
  "cached_account_read (jb_task_reads sample_job) \<lparr>sv_account = \<lambda>_. Some \<lparr>ac_nonce = 1, ac_balance = 8\<rparr>, sv_storage = \<lambda>_ _. 3\<rparr> 5 =
     Some \<lparr>ac_nonce = 1, ac_balance = 8\<rparr>"
proof -
  let ?sv = "\<lparr>sv_account = \<lambda>_. Some \<lparr>ac_nonce = 1, ac_balance = 8\<rparr>, sv_storage = \<lambda>_ _. 3\<rparr>"
  have "bundle_true ?sv n" if "n = sample_notification" for n using that by (simp add: bundle_true_def sample_notification_def)
  from cached_reads_transparent [OF sample_start, where state_at = "\<lambda>_. ?sv" and j = sample_job and a = 5] this
  show ?thesis by (simp add: sample_started_fields)
qed

lemma job_lives_until_deadline_witness:
  "\<not> fst (poll_job 0 (from_secs 9) sample_started) \<and> fst (poll_job 0 (from_secs 10) sample_started)"
  using job_lives_until_deadline [OF sample_request, of sample_bd "\<lambda>_. True" sample_started "from_secs 9"]
    job_lives_until_deadline [OF sample_request, of sample_bd "\<lambda>_. True" sample_started "from_secs 10"]
  by (simp add: sample_started_fields sample_job_def sample_attrs_def sample_notified_def on_new_state_def with_builder_def from_secs_def is_cancelled_def)

end
