(* ===== verification/Txpool_Discard.thy ===== *)
theory Txpool_Discard
  imports Filter_Worker
begin

text \<open>
  Keeping the filter and the transaction pool in step (\<open>crates/builder/src/flashblocks/service.rs\<close>):
  the task that applies terminal discards to the transaction pool, and the one that cleans up after
  canonical blocks. Each critical section is one step, so that other threads act between any two of
  them. The transaction pool is the list of the hashes it holds.
\<close>

section \<open>The tasks\<close>

text \<open>The filter's pool stays locked while the transaction is removed.\<close>

definition discard_transaction :: "b256 \<Rightarrow> u64 \<Rightarrow> shared \<times> b256 list \<Rightarrow> bool \<times> shared \<times> b256 list" where
  "discard_transaction h generation s = (case s of (sh, pool) \<Rightarrow>
     (case with_dropped_lifecycle h generation (\<lambda>sh. (h \<in> set pool, sh)) sh of
        (None, sh') \<Rightarrow> (False, sh', pool)
      | (Some removed, sh') \<Rightarrow> (True, record_txpool_discard removed sh', removeAll h pool)))"

text \<open>
  What the discard task still has to do of the event it handles: discard a lifecycle, for the event
  itself, for a new transaction or while reconciling; record the lag; scan for lifecycles without a
  transaction, and of those look one up and then remove it.
\<close>

datatype discard_work =
    WorkTerminal b256 u64
  | WorkNew b256 u64
  | WorkReconcile b256 u64
  | WorkRecordLag nat nat
  | WorkScanAbsent
  | WorkAbsent b256 u64
  | WorkRemoveAbsent b256 u64

record discard_task =
  dt_dropped :: "(b256, u64) hmap"
  dt_todo :: "discard_work list"

datatype discard_event = TerminalReceived terminal_event | TerminalLagged nat | NewTransaction b256 | ReconcileTick

definition collect_map :: "(b256 \<times> u64) list \<Rightarrow> (b256, u64) hmap" where
  "collect_map xs = fold (\<lambda>(h, g) m. AList.update h g m) xs []"

definition run_terminal_discard_start :: "shared \<Rightarrow> discard_task" where
  "run_terminal_discard_start sh = \<lparr>dt_dropped = collect_map (dropped_lifecycles (sh_pool sh)), dt_todo = []\<rparr>"

text \<open>One turn of the loop, up to the first critical section of its body. A closed channel ends the task.\<close>

definition run_terminal_discard :: "discard_event \<Rightarrow> shared \<Rightarrow> discard_task \<Rightarrow> discard_task" where
  "run_terminal_discard ev sh t = (case ev of
       TerminalReceived e \<Rightarrow> t\<lparr>dt_todo := [WorkTerminal (te_tx_hash e) (te_generation e)]\<rparr>
     | TerminalLagged skipped \<Rightarrow>
         let dropped = collect_map (dropped_lifecycles (sh_pool sh)) in
         t\<lparr>dt_dropped := dropped, dt_todo := map (\<lambda>(h, g). WorkReconcile h g) dropped @ [WorkRecordLag skipped (length dropped)]\<rparr>
     | NewTransaction h \<Rightarrow> t\<lparr>dt_todo := (case map_of (dt_dropped t) h of Some g \<Rightarrow> [WorkNew h g] | None \<Rightarrow> [])\<rparr>
     | ReconcileTick \<Rightarrow>
         let dropped = collect_map (dropped_lifecycles (sh_pool sh)) in
         t\<lparr>dt_dropped := dropped, dt_todo := map (\<lambda>(h, g). WorkReconcile h g) dropped @ [WorkScanAbsent]\<rparr>)"

record node =
  nd_shared :: shared
  nd_txpool :: "b256 list"
  nd_task :: discard_task

definition set_task :: "(b256, u64) hmap \<Rightarrow> discard_work list \<Rightarrow> node \<Rightarrow> node" where
  "set_task dropped todo n = n\<lparr>nd_task := \<lparr>dt_dropped = dropped, dt_todo = todo\<rparr>\<rparr>"

text \<open>One critical section; \<open>todo\<close> is what follows it.\<close>

fun do_work :: "discard_work \<Rightarrow> discard_work list \<Rightarrow> node \<Rightarrow> node" where
  "do_work (WorkTerminal h g) todo n =
     (case discard_transaction h g (nd_shared n, nd_txpool n) of (applied, sh, pool) \<Rightarrow>
        set_task (if applied then AList.update h g (dt_dropped (nd_task n)) else dt_dropped (nd_task n)) todo
          (n\<lparr>nd_shared := sh, nd_txpool := pool\<rparr>))"
| "do_work (WorkNew h g) todo n =
     (case discard_transaction h g (nd_shared n, nd_txpool n) of (applied, sh, pool) \<Rightarrow>
        set_task (if applied then dt_dropped (nd_task n) else AList.delete h (dt_dropped (nd_task n))) todo
          (n\<lparr>nd_shared := sh, nd_txpool := pool\<rparr>))"
| "do_work (WorkReconcile h g) todo n =
     (case discard_transaction h g (nd_shared n, nd_txpool n) of (_, sh, pool) \<Rightarrow>
        set_task (dt_dropped (nd_task n)) todo (n\<lparr>nd_shared := sh, nd_txpool := pool\<rparr>))"
| "do_work (WorkRecordLag skipped reconciled) todo n =
     set_task (dt_dropped (nd_task n)) todo (n\<lparr>nd_shared := record_terminal_reconciliation skipped reconciled (nd_shared n)\<rparr>)"
| "do_work WorkScanAbsent todo n =
     set_task (dt_dropped (nd_task n)) (map (\<lambda>(h, g). WorkAbsent h g) (non_terminal_lifecycles (sh_pool (nd_shared n))) @ todo) n"
| "do_work (WorkAbsent h g) todo n =
     set_task (dt_dropped (nd_task n)) (if h \<in> set (nd_txpool n) then todo else WorkRemoveAbsent h g # todo) n"
| "do_work (WorkRemoveAbsent h g) todo n =
     set_task (dt_dropped (nd_task n)) todo (n\<lparr>nd_shared := snd (remove_absent_lifecycle h g (nd_shared n))\<rparr>)"

datatype canonical_event = CanonicalCommitted "b256 list" | CanonicalLagged nat

definition canonical_cleanup :: "canonical_event \<Rightarrow> shared \<Rightarrow> shared" where
  "canonical_cleanup ev sh = (case ev of
       CanonicalCommitted hashes \<Rightarrow> snd (remove_canonical_transactions hashes sh)
     | CanonicalLagged skipped \<Rightarrow> snd (recover_canonical_lag skipped sh))"

section \<open>The tasks among the other threads\<close>

text \<open>
  The task receives an event when it has finished the last one; only events that were broadcast
  arrive. Between its steps, the filter's workers, the canonical clean-up and the pool's users act.
\<close>

inductive node_step :: "ext \<Rightarrow> node \<Rightarrow> node \<Rightarrow> bool" for E where
  ns_receive: "dt_todo (nd_task n) = [] \<Longrightarrow> (\<And>e. ev = TerminalReceived e \<Longrightarrow> e \<in> set (sh_terminal_events (nd_shared n))) \<Longrightarrow>
    node_step E n (n\<lparr>nd_task := run_terminal_discard ev (nd_shared n) (nd_task n)\<rparr>)"
| ns_work: "dt_todo (nd_task n) = wk # todo \<Longrightarrow> node_step E n (do_work wk todo n)"
| ns_canonical: "node_step E n (n\<lparr>nd_shared := canonical_cleanup cev (nd_shared n)\<rparr>)"
| ns_filter: "filter_step E (nd_shared n) sh \<Longrightarrow> node_step E n (n\<lparr>nd_shared := sh\<rparr>)"
| ns_pool: "node_step E n (n\<lparr>nd_txpool := pool\<rparr>)"

definition node_reachable :: "ext \<Rightarrow> filter_config \<Rightarrow> node \<Rightarrow> bool" where
  "node_reachable E cfg n \<longleftrightarrow> (\<exists>pool. (node_step E)\<^sup>*\<^sup>*
     \<lparr>nd_shared = spawn_shared cfg, nd_txpool = pool, nd_task = run_terminal_discard_start (spawn_shared cfg)\<rparr> n)"

lemma set_task_simps [simp]:
  "nd_shared (set_task d t n) = nd_shared n" "nd_txpool (set_task d t n) = nd_txpool n"
  "dt_dropped (nd_task (set_task d t n)) = d" "dt_todo (nd_task (set_task d t n)) = t"
  by (simp_all add: set_task_def)

lemma discard_transaction_eq:
  "discard_transaction h g (sh, pool) = (if pool_matches (sh_pool sh) h g Dropped
     then (True, record_txpool_discard (h \<in> set pool) sh, removeAll h pool) else (False, sh, pool))"
  by (simp add: discard_transaction_def with_dropped_lifecycle_def)

text \<open>Both tasks only do what the filter tolerates.\<close>

lemma do_work_filter: "(filter_step E)\<^sup>*\<^sup>* (nd_shared n) (nd_shared (do_work wk todo n))"
proof (cases wk)
  case (WorkRecordLag skipped reconciled)
  let ?s = "increment ''terminal_channel_lag_total'' skipped (nd_shared n)"
  have "filter_step E (nd_shared n) ?s" "filter_step E ?s (increment ''terminal_reconciliation_total'' reconciled ?s)"
    by (rule fs_count)+
  with WorkRecordLag show ?thesis by (simp add: record_terminal_reconciliation_def)
next
  case (WorkRemoveAbsent h g)
  then show ?thesis by (auto intro: fs_absent)
qed (auto simp: discard_transaction_eq record_txpool_discard_def intro: fs_count)

lemma node_step_filter: "node_step E n n' \<Longrightarrow> (filter_step E)\<^sup>*\<^sup>* (nd_shared n) (nd_shared n')"
proof (induction rule: node_step.induct)
  case (ns_work n wk todo)
  show ?case by (rule do_work_filter)
next
  case (ns_canonical n cev)
  show ?case by (cases cev) (auto simp: canonical_cleanup_def intro: fs_canonical fs_lag)
qed auto

interpretation node: step_simulation "node_step E" "filter_step E" nd_shared for E
  by unfold_locales (rule node_step_filter)

lemma node_reachable_filter: "node_reachable E cfg n \<Longrightarrow> filter_reachable E cfg (nd_shared n)"
  by (auto simp: node_reachable_def filter_reachable_def dest: node.sim_steps)

section \<open>Remembered drops\<close>

text \<open>A lifecycle that is closed: gone for good, or dropped.\<close>

definition drop_event :: "b256 \<Rightarrow> u64 \<Rightarrow> terminal_event" where
  "drop_event h g = \<lparr>te_tx_hash = h, te_generation = g, te_reason = TrFailCloseTimeout\<rparr>"

fun work_lifecycle :: "discard_work \<Rightarrow> (b256 \<times> u64) option" where
  "work_lifecycle (WorkTerminal h g) = Some (h, g)"
| "work_lifecycle (WorkNew h g) = Some (h, g)"
| "work_lifecycle (WorkReconcile h g) = Some (h, g)"
| "work_lifecycle _ = None"

definition remembered :: "node \<Rightarrow> (b256 \<times> u64) set" where
  "remembered n = set (dt_dropped (nd_task n)) \<union> {l. \<exists>wk \<in> set (dt_todo (nd_task n)). work_lifecycle wk = Some l}"

lemma closed_event: "te_tx_hash ev = te_tx_hash ev' \<Longrightarrow> te_generation ev = te_generation ev' \<Longrightarrow> closed p ev = closed p ev'"
  by (simp add: closed_def)

lemma set_collect_map: "set (collect_map xs) \<subseteq> set xs"
proof -
  have "set (fold (\<lambda>(h, g) m. AList.update h g m) xs m) \<subseteq> set xs \<union> set m" for m
  proof (induction xs arbitrary: m)
    case (Cons x xs)
    have "set (AList.update (fst x) (snd x) m) \<subseteq> insert x (set m)" by (induction m) (auto split: if_splits)
    with Cons [of "AList.update (fst x) (snd x) m"] show ?case by (cases x) auto
  qed simp
  from this [of "[]"] show ?thesis by (simp add: collect_map_def)
qed

text \<open>The lifecycles of the entries with some status.\<close>

lemma lifecycles_iff:
  assumes "pool_wf p"
  shows "(h, g) \<in> set (map (\<lambda>e. (be_tx_hash e, be_generation e)) (values_where P p)) \<longleftrightarrow>
    (\<exists>e. pool_get p h = Some e \<and> P (be_status e) \<and> be_generation e = g)"
proof -
  have e: "e \<in> set (map snd (bp_entries p)) \<longleftrightarrow> pool_get p (be_tx_hash e) = Some e" for e
  proof
    assume "e \<in> set (map snd (bp_entries p))"
    then obtain k where "(k, e) \<in> set (bp_entries p)" by auto
    with assms have "pool_get p k = Some e" by (simp add: pool_wf_def pool_get_def)
    with assms show "pool_get p (be_tx_hash e) = Some e" by (auto simp: pool_wf_def)
  next
    assume "pool_get p (be_tx_hash e) = Some e"
    then show "e \<in> set (map snd (bp_entries p))" by (force simp: pool_get_def dest: map_of_SomeD)
  qed
  have "(h, g) \<in> set (map (\<lambda>e. (be_tx_hash e, be_generation e)) (values_where P p)) \<longleftrightarrow>
      (\<exists>e \<in> set (map snd (bp_entries p)). P (be_status e) \<and> h = be_tx_hash e \<and> g = be_generation e)"
    by (auto simp: values_where_def)
  moreover have "be_tx_hash e = h" if "pool_get p h = Some e" for h e using assms that by (simp add: pool_wf_def)
  ultimately show ?thesis using e by blast
qed

lemma lifecycles_distinct:
  assumes "pool_wf p"
  shows "distinct (map fst (map (\<lambda>e. (be_tx_hash e, be_generation e)) (values_where P p)))"
proof -
  have "map be_tx_hash (map snd (bp_entries p)) = map fst (bp_entries p)"
    using assms by (auto simp: pool_wf_def pool_get_def)
  then have "distinct (map be_tx_hash (map snd (bp_entries p)))" using assms unfolding pool_wf_def by metis
  then have "distinct (map be_tx_hash (values_where P p))" unfolding values_where_def by (rule distinct_map_filter)
  then show ?thesis by (simp add: comp_def)
qed

lemmas dropped_lifecycles_iff = lifecycles_iff [where P = "\<lambda>s. s = Dropped", folded dropped_lifecycles_def]
lemmas non_terminal_lifecycles_iff = lifecycles_iff [where P = "\<lambda>s. \<not> is_terminal s", folded non_terminal_lifecycles_def]
lemmas dropped_lifecycles_distinct = lifecycles_distinct [where P = "\<lambda>s. s = Dropped", folded dropped_lifecycles_def]
lemmas non_terminal_lifecycles_distinct = lifecycles_distinct [where P = "\<lambda>s. \<not> is_terminal s", folded non_terminal_lifecycles_def]

lemma dropped_lifecycles_closed:
  assumes "pool_wf p" "pool.covered p" "(h, g) \<in> set (dropped_lifecycles p)"
  shows "closed p (drop_event h g)"
  using assms by (auto simp: dropped_lifecycles_iff closed_def drop_event_def pool.covered_def)

lemma set_alist_update: "set (AList.update k v m) \<subseteq> insert (k, v) (set m)"
  by (induction m) (auto split: if_splits)

lemma set_alist_delete: "set (AList.delete k m) \<subseteq> set m"
  by (auto simp: AList.delete_eq)

lemma remembered_do_work: "dt_todo (nd_task n) = wk # todo \<Longrightarrow> remembered (do_work wk todo n) \<subseteq> remembered n"
  using set_alist_update set_alist_delete
  by (cases wk) (fastforce simp: remembered_def split: prod.splits if_splits)+

text \<open>What the discard task remembers as dropped is dropped for good, whatever the other threads do.\<close>

lemma remembered_closed:
  assumes "node_reachable E cfg n" "(h, g) \<in> remembered n"
  shows "closed (sh_pool (nd_shared n)) (drop_event h g)"
proof -
  obtain pool where "(node_step E)\<^sup>*\<^sup>*
     \<lparr>nd_shared = spawn_shared cfg, nd_txpool = pool, nd_task = run_terminal_discard_start (spawn_shared cfg)\<rparr> n"
    using assms(1) by (auto simp: node_reachable_def)
  then have "filter_reachable E cfg (nd_shared n) \<and> (\<forall>(h, g) \<in> remembered n. closed (sh_pool (nd_shared n)) (drop_event h g))"
  proof (induction rule: rtranclp_induct)
    case base
    then show ?case
      by (auto simp: filter_reachable_def remembered_def run_terminal_discard_start_def spawn_shared_def dropped_lifecycles_def
          values_where_def pool_default_def collect_map_def)
  next
    case (step n n')
    then have r: "filter_reachable E cfg (nd_shared n)" and c: "\<And>h g. (h, g) \<in> remembered n \<Longrightarrow> closed (sh_pool (nd_shared n)) (drop_event h g)"
      by auto
    note fr = reachable_nowrap_frame [OF filter_reachable_pool(1) [OF r]]
    have steps: "(filter_step E)\<^sup>*\<^sup>* (nd_shared n) (nd_shared n')" by (rule node_step_filter [OF step.hyps(2)])
    have "closed (sh_pool (nd_shared n)) (drop_event h g)" if "(h, g) \<in> remembered n'" for h g
      using step.hyps(2)
    proof cases
      case (ns_receive ev)
      have d: "closed (sh_pool (nd_shared n)) (drop_event h g)" if "(h, g) \<in> set (collect_map (dropped_lifecycles (sh_pool (nd_shared n))))"
        using dropped_lifecycles_closed [OF fr] set_collect_map that by blast
      show ?thesis
      proof (cases ev)
        case (TerminalReceived e)
        with ns_receive(3) have "closed (sh_pool (nd_shared n)) e" using filter_reachable_events [OF r] by blast
        with that c ns_receive(1) TerminalReceived show ?thesis
          by (auto simp: remembered_def run_terminal_discard_def drop_event_def cong: closed_event)
      qed (use that c d ns_receive in \<open>auto simp: remembered_def run_terminal_discard_def Let_def dest: map_of_SomeD split: option.splits\<close>)
    next
      case (ns_work wk todo)
      with that remembered_do_work c show ?thesis by blast
    qed (use that c in \<open>auto simp: remembered_def\<close>)
    then have "closed (sh_pool (nd_shared n')) (drop_event h g)" if "(h, g) \<in> remembered n'" for h g
      using that closed_steps [OF _ conjunct1 [OF filter_steps_pool [OF steps]] fr] by blast
    moreover have "filter_reachable E cfg (nd_shared n')" using r steps unfolding filter_reachable_def by simp
    ultimately show ?case by auto
  qed
  with assms(2) show ?thesis by blast
qed


text \<open>
  C22. The transaction pool only loses what the filter has discarded for good. In whatever state the
  node is and whatever the other threads do, if the discard task removes a transaction from the pool,
  the filter holds it dropped at that moment, refuses it at its first look, and no later step of the
  filter makes the same lifecycle anything but dropped.
\<close>

theorem discard_removes_only_dropped:
  assumes "node_reachable E cfg n" "dt_todo (nd_task n) = wk # todo" "h \<in> set (nd_txpool n)" "h \<notin> set (nd_txpool (do_work wk todo n))"
  shows "pre_screen h (nd_shared n) = PsDrop \<and>
    (\<exists>e. pool_get (sh_pool (nd_shared n)) h = Some e \<and> be_status e = Dropped \<and>
      (\<forall>s' e'. (filter_step E)\<^sup>*\<^sup>* (nd_shared n) s' \<and> pool_get (sh_pool s') h = Some e' \<and> be_generation e' = be_generation e \<longrightarrow>
        be_status e' = Dropped))"
proof -
  let ?p = "sh_pool (nd_shared n)"
  obtain g where "pool_matches ?p h g Dropped" "(h, g) \<in> remembered n"
    using assms(2-4) by (cases wk) (auto simp: discard_transaction_eq remembered_def split: if_splits)
  then obtain e where e: "pool_get ?p h = Some e" "be_status e = Dropped" "be_generation e = g" and c: "closed ?p (drop_event h g)"
    using remembered_closed [OF assms(1)] by (auto simp: pool_matches_iff)
  note fr = reachable_nowrap_frame [OF filter_reachable_pool(1) [OF node_reachable_filter [OF assms(1)]]]
  have "be_status e' = Dropped" if "(filter_step E)\<^sup>*\<^sup>* (nd_shared n) s'" "pool_get (sh_pool s') h = Some e'" "be_generation e' = g" for s' e'
    using closed_steps [OF c conjunct1 [OF filter_steps_pool [OF that(1)]] fr] that(2,3) by (simp add: closed_def drop_event_def)
  with e show ?thesis by (auto simp: pre_screen_def)
qed

section \<open>Reconciliation\<close>

definition work_weight :: "discard_work \<Rightarrow> nat" where
  "work_weight wk = (case wk of WorkAbsent _ _ \<Rightarrow> 2 | _ \<Rightarrow> 1)"

text \<open>The task alone, until it has nothing left to do.\<close>

function drain :: "node \<Rightarrow> node" where
  "drain n = (case dt_todo (nd_task n) of [] \<Rightarrow> n | wk # todo \<Rightarrow> drain (do_work wk todo n))"
  by pat_completeness auto

lemma scan_free [simp]: "filter (\<lambda>wk. wk = WorkScanAbsent) (map (\<lambda>(h, g). WorkAbsent h g) ls) = []"
  by (induction ls) auto

termination drain
proof (relation "measures [\<lambda>n. length (filter (\<lambda>wk. wk = WorkScanAbsent) (dt_todo (nd_task n))), \<lambda>n. sum_list (map work_weight (dt_todo (nd_task n)))]")
  fix n :: node and wk todo
  assume "dt_todo (nd_task n) = wk # todo"
  then show "(do_work wk todo n, n) \<in> measures [\<lambda>n. length (filter (\<lambda>wk. wk = WorkScanAbsent) (dt_todo (nd_task n))),
      \<lambda>n. sum_list (map work_weight (dt_todo (nd_task n)))]"
    by (cases wk) (auto simp: work_weight_def split: prod.splits)
qed simp

declare drain.simps [simp del]


lemma drain_Nil: "dt_todo (nd_task n) = [] \<Longrightarrow> drain n = n"
  by (subst drain.simps) simp

lemma drain_Cons: "dt_todo (nd_task n) = wk # todo \<Longrightarrow> drain n = drain (do_work wk todo n)"
  by (subst drain.simps) simp

lemma drain_reconcile:
  assumes "dt_todo (nd_task n) = map (\<lambda>(h, g). WorkReconcile h g) ls @ rest"
  shows "\<exists>n'. drain n = drain n' \<and> dt_todo (nd_task n') = rest \<and> sh_pool (nd_shared n') = sh_pool (nd_shared n) \<and>
    set (nd_txpool n') = set (nd_txpool n) - {h. \<exists>g. (h, g) \<in> set ls \<and> pool_matches (sh_pool (nd_shared n)) h g Dropped}"
  using assms
proof (induction ls arbitrary: n)
  case (Cons l ls)
  obtain h g where l: "l = (h, g)" by (cases l)
  let ?n = "do_work (WorkReconcile h g) (map (\<lambda>(h, g). WorkReconcile h g) ls @ rest) n"
  have n: "dt_todo (nd_task ?n) = map (\<lambda>(h, g). WorkReconcile h g) ls @ rest" "sh_pool (nd_shared ?n) = sh_pool (nd_shared n)"
    "set (nd_txpool ?n) = set (nd_txpool n) - {k. k = h \<and> pool_matches (sh_pool (nd_shared n)) h g Dropped}"
    by (auto simp: discard_transaction_eq record_txpool_discard_def)
  have "drain n = drain ?n" using Cons.prems by (simp add: drain_Cons l del: do_work.simps)
  moreover obtain n' where "drain ?n = drain n'" "dt_todo (nd_task n') = rest" "sh_pool (nd_shared n') = sh_pool (nd_shared n)"
    "set (nd_txpool n') = set (nd_txpool ?n) - {h. \<exists>g. (h, g) \<in> set ls \<and> pool_matches (sh_pool (nd_shared n)) h g Dropped}"
    using Cons.IH [OF n(1)] unfolding n(2) by blast
  ultimately show ?case unfolding n(3) by (intro exI [of _ n']) (auto simp: l)
qed auto

lemma drain_absent:
  assumes "dt_todo (nd_task n) = map (\<lambda>(h, g). WorkAbsent h g) ls" "pool_wf (sh_pool (nd_shared n))"
    and "\<And>h g. (h, g) \<in> set ls \<Longrightarrow> \<exists>e. pool_get (sh_pool (nd_shared n)) h = Some e \<and> \<not> is_terminal (be_status e) \<and> be_generation e = g"
    and "distinct (map fst ls)"
  shows "dt_todo (nd_task (drain n)) = [] \<and> nd_txpool (drain n) = nd_txpool n \<and>
    (\<forall>h. pool_get (sh_pool (nd_shared (drain n))) h =
      (if h \<in> fst ` set ls \<and> h \<notin> set (nd_txpool n) then None else pool_get (sh_pool (nd_shared n)) h))"
  using assms
proof (induction ls arbitrary: n)
  case Nil
  then show ?case by (simp add: drain_Nil)
next
  case (Cons l ls)
  obtain h g where l: "l = (h, g)" by (cases l)
  let ?todo = "map (\<lambda>(h, g). WorkAbsent h g) ls"
  let ?n1 = "do_work (WorkAbsent h g) ?todo n"
  let ?n2 = "if h \<in> set (nd_txpool n) then ?n1 else do_work (WorkRemoveAbsent h g) ?todo ?n1"
  obtain e where e: "pool_get (sh_pool (nd_shared n)) h = Some e" "\<not> is_terminal (be_status e)" "be_generation e = g"
    using Cons.prems(3) l by auto
  have d: "drain n = drain ?n2"
    using Cons.prems(1) by (cases "h \<in> set (nd_txpool n)") (simp_all add: drain_Cons l)
  have n2: "dt_todo (nd_task ?n2) = ?todo" "nd_txpool ?n2 = nd_txpool n"
    "pool_get (sh_pool (nd_shared ?n2)) k = (if k = h \<and> h \<notin> set (nd_txpool n) then None else pool_get (sh_pool (nd_shared n)) k)" for k
    using e by (auto simp: remove_absent_lifecycle_def remove_non_terminal_if_generation_def pool_simps split: prod.splits if_splits)
  have wf: "pool_wf (sh_pool (nd_shared ?n2))"
    using Cons.prems(2) e
    by (auto simp: remove_absent_lifecycle_def remove_non_terminal_if_generation_def pool_simps pool_wf_def distinct_remove split: if_splits)
  have "\<exists>e. pool_get (sh_pool (nd_shared ?n2)) k = Some e \<and> \<not> is_terminal (be_status e) \<and> be_generation e = g'" if "(k, g') \<in> set ls" for k g'
    using Cons.prems(3) [of k g'] Cons.prems(4) that n2(3) [of k] l by force
  from Cons.IH [OF n2(1) wf this] Cons.prems(4) show ?case
    unfolding d n2(2) using l n2(3) by auto
qed


lemma set_collect_map_distinct: "distinct (map fst xs) \<Longrightarrow> set (collect_map xs) = set xs"
proof -
  have "set (fold (\<lambda>(h, g) m. AList.update h g m) xs m) = set xs \<union> set m"
    if "distinct (map fst xs)" "fst ` set xs \<inter> fst ` set m = {}" for m
    using that
  proof (induction xs arbitrary: m)
    case (Cons x xs)
    have "set (AList.update (fst x) (snd x) m) = insert x (set m)"
      using Cons.prems(2) by (induction m) (auto split: if_splits)
    with Cons.IH [of "AList.update (fst x) (snd x) m"] Cons.prems show ?case by (cases x) force
  qed simp
  then show "distinct (map fst xs) \<Longrightarrow> set (collect_map xs) = set xs" by (simp add: collect_map_def)
qed

lemma drain_steps: "(node_step E)\<^sup>*\<^sup>* n (drain n)"
proof (induction n rule: drain.induct)
  case (1 n)
  show ?case
  proof (cases "dt_todo (nd_task n)")
    case (Cons wk todo)
    with 1 [OF Cons] ns_work [OF Cons, of E] show ?thesis by (metis converse_rtranclp_into_rtranclp drain_Cons)
  qed (simp add: drain_Nil)
qed

text \<open>
  C23. Reconciliation. When the task's timer fires and nothing else happens, it ends, and then the
  transaction pool has lost exactly the transactions the filter holds dropped, and the filter exactly
  the undecided lifecycles of transactions that are not in the pool.
\<close>

theorem tick_reconciles:
  assumes "node_reachable E cfg n" "dt_todo (nd_task n) = []"
    and "n' = drain (n\<lparr>nd_task := run_terminal_discard ReconcileTick (nd_shared n) (nd_task n)\<rparr>)"
  shows "(node_step E)\<^sup>*\<^sup>* n n' \<and> dt_todo (nd_task n') = [] \<and>
    set (nd_txpool n') = {h \<in> set (nd_txpool n). \<forall>e. pool_get (sh_pool (nd_shared n)) h = Some e \<longrightarrow> be_status e \<noteq> Dropped} \<and>
    (\<forall>h. pool_get (sh_pool (nd_shared n')) h = (case pool_get (sh_pool (nd_shared n)) h of
       Some e \<Rightarrow> if \<not> is_terminal (be_status e) \<and> h \<notin> set (nd_txpool n) then None else Some e | None \<Rightarrow> None))"
proof -
  let ?p = "sh_pool (nd_shared n)" and ?n0 = "n\<lparr>nd_task := run_terminal_discard ReconcileTick (nd_shared n) (nd_task n)\<rparr>"
  have wf: "pool_wf ?p" using reachable_nowrap_frame(1) [OF filter_reachable_pool(1) [OF node_reachable_filter [OF assms(1)]]] .
  have "node_step E n ?n0" by (rule ns_receive [OF assms(2)]) simp
  from converse_rtranclp_into_rtranclp [OF this drain_steps] have steps: "(node_step E)\<^sup>*\<^sup>* n n'" unfolding assms(3) .
  have "dt_todo (nd_task ?n0) = map (\<lambda>(h, g). WorkReconcile h g) (collect_map (dropped_lifecycles ?p)) @ [WorkScanAbsent]"
    by (simp add: run_terminal_discard_def Let_def)
  from drain_reconcile [OF this] obtain n1 where n1: "n' = drain n1" "dt_todo (nd_task n1) = [WorkScanAbsent]" "sh_pool (nd_shared n1) = ?p"
    "set (nd_txpool n1) = set (nd_txpool n) - {h. \<exists>g. (h, g) \<in> set (dropped_lifecycles ?p) \<and> pool_matches ?p h g Dropped}"
    using set_collect_map_distinct [OF dropped_lifecycles_distinct [OF wf]] assms(3) by auto
  have pool: "set (nd_txpool n1) = {h \<in> set (nd_txpool n). \<forall>e. pool_get ?p h = Some e \<longrightarrow> be_status e \<noteq> Dropped}"
    unfolding n1(4) by (auto simp: dropped_lifecycles_iff [OF wf] pool_matches_iff)
  let ?n2 = "do_work WorkScanAbsent [] n1"
  have n2: "n' = drain ?n2" "nd_txpool ?n2 = nd_txpool n1" "sh_pool (nd_shared ?n2) = ?p"
    "dt_todo (nd_task ?n2) = map (\<lambda>(h, g). WorkAbsent h g) (non_terminal_lifecycles ?p)"
    using drain_Cons [OF n1(2)] n1(1,3) by simp_all
  have "dt_todo (nd_task n') = [] \<and> nd_txpool n' = nd_txpool n1 \<and> (\<forall>h. pool_get (sh_pool (nd_shared n')) h =
      (if h \<in> fst ` set (non_terminal_lifecycles ?p) \<and> h \<notin> set (nd_txpool n1) then None else pool_get ?p h))"
    using drain_absent [OF n2(4)] wf non_terminal_lifecycles_iff [OF wf] non_terminal_lifecycles_distinct [OF wf]
    unfolding n2(1) n2(2,3) by simp
  moreover have "h \<in> fst ` set (non_terminal_lifecycles ?p) \<longleftrightarrow> (\<exists>e. pool_get ?p h = Some e \<and> \<not> is_terminal (be_status e))" for h
    using non_terminal_lifecycles_iff [OF wf, of h] by force
  ultimately show ?thesis using steps pool by (auto simp: is_terminal_def split: option.split)
qed

section \<open>An instance\<close>

lemma filter_steps_node: "(filter_step E)\<^sup>*\<^sup>* (nd_shared n) sh \<Longrightarrow> (node_step E)\<^sup>*\<^sup>* n (n\<lparr>nd_shared := sh\<rparr>)"
proof (induction rule: rtranclp_induct)
  case (step s s')
  have "node_step E (n\<lparr>nd_shared := s\<rparr>) ((n\<lparr>nd_shared := s\<rparr>)\<lparr>nd_shared := s'\<rparr>)" by (rule ns_filter) (use step.hyps(2) in simp)
  with step.IH show ?case by simp
qed simp

text \<open>A transaction that timed out fail-close, in the pool beside another one.\<close>

definition sample_dropped_shared :: shared where
  "sample_dropped_shared = snd (timeout_once 1091 (buffer_audit sample_ext 1000 (sample_input []) sample_audit_rules [] TimeoutDeny (spawn_shared default_config)))"

definition sample_node :: node where
  "sample_node = \<lparr>nd_shared = sample_dropped_shared, nd_txpool = [7, 8], nd_task = run_terminal_discard_start (spawn_shared default_config)\<rparr>"

lemma sample_dropped:
  "map_option be_status (pool_get (sh_pool sample_dropped_shared) 7) = Some Dropped" "pool_matches (sh_pool sample_dropped_shared) 7 1 Dropped"
  "\<lparr>te_tx_hash = 7, te_generation = 1, te_reason = TrFailCloseTimeout\<rparr> \<in> set (sh_terminal_events sample_dropped_shared)"
  by (simp_all add: sample_dropped_shared_def timeout_once_def Let_def buffer_audit_def spawn_shared_def check_timeouts_def update_all_def
        pool_insert_def pool_contains_def pool_get_def pool_default_def put_def new_entry_def sample_input_def pool_matches_def
        timeout_update_def resolve_total_timeout_def default_config_def from_secs_def as_secs_def set_status_def
        emit_timeout_resolutions_def emit_terminal_def List.map_filter_def prune_terminal_def retain_def is_terminal_def)

lemma sample_node_reachable: "node_reachable sample_ext default_config sample_node"
proof -
  let ?n = "\<lparr>nd_shared = spawn_shared default_config, nd_txpool = [7, 8], nd_task = run_terminal_discard_start (spawn_shared default_config)\<rparr>"
  have "(node_step sample_ext)\<^sup>*\<^sup>* ?n (?n\<lparr>nd_shared := sample_dropped_shared\<rparr>)"
    by (rule filter_steps_node) (simp add: sample_dropped_shared_def sample_filter_steps)
  then show ?thesis unfolding node_reachable_def sample_node_def by (intro exI [of _ "[7, 8]"]) simp
qed

theorem discard_removes_only_dropped_witness:
  "\<exists>n. node_reachable sample_ext default_config n \<and> dt_todo (nd_task n) = [WorkTerminal 7 1] \<and> 7 \<in> set (nd_txpool n) \<and>
     nd_txpool (do_work (WorkTerminal 7 1) [] n) = [8] \<and> pre_screen 7 (nd_shared n) = PsDrop"
proof -
  let ?ev = "\<lparr>te_tx_hash = 7, te_generation = 1, te_reason = TrFailCloseTimeout\<rparr>"
  let ?n = "sample_node\<lparr>nd_task := run_terminal_discard (TerminalReceived ?ev) (nd_shared sample_node) (nd_task sample_node)\<rparr>"
  have "node_step sample_ext sample_node ?n"
    by (rule ns_receive) (use sample_dropped(3) in \<open>simp_all add: sample_node_def run_terminal_discard_start_def\<close>)
  with sample_node_reachable have r: "node_reachable sample_ext default_config ?n"
    unfolding node_reachable_def by (meson rtranclp.rtrancl_into_rtrancl)
  have t: "dt_todo (nd_task ?n) = [WorkTerminal 7 1]" "7 \<in> set (nd_txpool ?n)" by (simp_all add: run_terminal_discard_def sample_node_def)
  have p: "nd_txpool (do_work (WorkTerminal 7 1) [] ?n) = [8]" using sample_dropped(2) by (simp add: discard_transaction_eq sample_node_def)
  then have "7 \<notin> set (nd_txpool (do_work (WorkTerminal 7 1) [] ?n))" by simp
  from discard_removes_only_dropped [OF r t(1,2) this] r t p show ?thesis by blast
qed

theorem tick_reconciles_witness:
  "\<exists>n'. (node_step sample_ext)\<^sup>*\<^sup>* sample_node n' \<and> 7 \<in> set (nd_txpool sample_node) \<and> set (nd_txpool n') = {8}"
proof -
  have "dt_todo (nd_task sample_node) = []" by (simp add: sample_node_def run_terminal_discard_start_def)
  note t = tick_reconciles [OF sample_node_reachable this refl]
  have "pool_get (sh_pool sample_dropped_shared) 8 = None"
    by (simp add: sample_dropped_shared_def timeout_once_def Let_def buffer_audit_def spawn_shared_def check_timeouts_def update_all_def
        pool_insert_def pool_contains_def pool_get_def pool_default_def put_def new_entry_def sample_input_def
        timeout_update_def resolve_total_timeout_def default_config_def from_secs_def as_secs_def set_status_def
        emit_timeout_resolutions_def emit_terminal_def List.map_filter_def prune_terminal_def retain_def is_terminal_def)
  then have "{h \<in> set (nd_txpool sample_node). \<forall>e. pool_get (sh_pool (nd_shared sample_node)) h = Some e \<longrightarrow> be_status e \<noteq> Dropped} = {8}"
    using sample_dropped(1) by (auto simp: sample_node_def)
  moreover have "7 \<in> set (nd_txpool sample_node)" by (simp add: sample_node_def)
  ultimately show ?thesis using t by metis
qed

end
