(* ===== verification/Audit_Rpc.thy ===== *)
theory Audit_Rpc
  imports Matching
begin

text \<open>
  \<open>xlayer_auditTransactions\<close> of \<open>crates/rpc/src/audit\<close> (\<open>deposit.rs\<close>, \<open>verdict.rs\<close>, \<open>rpc.rs\<close>): deposit
  transactions are built from a request, executed in order on a throwaway copy of the chain tip and
  classified against rules sent along. The execution, the transaction hash and the hex decoder are
  parameters.
\<close>

section \<open>Deposits\<close>

record deposit_tx_request =
  dq_source_hash :: string
  dq_from :: string
  dq_to :: "string option"
  dq_mint :: string
  dq_value :: string
  dq_gas_limit :: nat
  dq_is_system_transaction :: bool
  dq_data :: string

datatype deposit_build_error =
    InvalidSourceHash string
  | InvalidFrom string
  | InvalidTo string
  | MintOverflowsU128 string
  | InvalidValue string
  | InvalidData string

record tx_deposit =
  dt_source_hash :: b256
  dt_from :: address
  dt_to :: "address option"
  dt_mint :: nat
  dt_value :: u256
  dt_gas_limit :: nat
  dt_is_system_transaction :: bool
  dt_input :: "byte list"

text \<open>
  The libraries: \<open>hex::decode\<close>, the hash of the sealed transaction, the execution (an error, or the
  logs and the database with the state committed), and the chain tip with its environment.
\<close>

record 'd audit_lib =
  al_hex_decode :: "string \<Rightarrow> byte list option"
  al_tx_hash :: "tx_deposit \<Rightarrow> b256"
  al_transact :: "'d \<Rightarrow> tx_deposit \<Rightarrow> string + log list \<times> 'd"
  al_chain_tip :: "string + 'd"

definition hex_decode_data :: "'d audit_lib \<Rightarrow> string \<Rightarrow> byte list option" where
  "hex_decode_data A s = al_hex_decode A (case strip_prefix ''0x'' s of Some t \<Rightarrow> t | None \<Rightarrow> s)"

definition build_deposit_tx :: "ext \<Rightarrow> 'd audit_lib \<Rightarrow> deposit_tx_request \<Rightarrow> deposit_build_error + tx_deposit" where
  "build_deposit_tx E A req = (case b256_from_str E (dq_source_hash req) of
       None \<Rightarrow> Inl (InvalidSourceHash (dq_source_hash req))
     | Some source_hash \<Rightarrow>
     (case address_from_str E (dq_from req) of
       None \<Rightarrow> Inl (InvalidFrom (dq_from req))
     | Some from_addr \<Rightarrow>
     (case (case dq_to req of
              Some addr \<Rightarrow> (case address_from_str E addr of None \<Rightarrow> Inl (InvalidTo addr) | Some a \<Rightarrow> Inr (Some a))
            | None \<Rightarrow> Inr None) of
       Inl e \<Rightarrow> Inl e
     | Inr to_addr \<Rightarrow>
     (case from_str_radix (2 ^ 128) 10 (dq_mint req) of
       None \<Rightarrow> Inl (MintOverflowsU128 (dq_mint req))
     | Some mint \<Rightarrow>
     (case u256_from_str E (dq_value req) of
       None \<Rightarrow> Inl (InvalidValue (dq_value req))
     | Some v \<Rightarrow>
     (case hex_decode_data A (dq_data req) of
       None \<Rightarrow> Inl (InvalidData (dq_data req))
     | Some input \<Rightarrow>
         Inr \<lparr>dt_source_hash = source_hash, dt_from = from_addr, dt_to = to_addr, dt_mint = mint, dt_value = v,
              dt_gas_limit = dq_gas_limit req, dt_is_system_transaction = dq_is_system_transaction req, dt_input = input\<rparr>))))))"

section \<open>Verdicts\<close>

datatype audit_verdict = AvAllow | AvDeny | AvAudit | AvUnknown | AvMalformed

record audit_result =
  ar_tx_hash :: string
  ar_source_hash :: string
  ar_verdict :: audit_verdict
  ar_actions :: "actions option"

definition result_malformed :: "string \<Rightarrow> audit_result" where
  "result_malformed source_hash = \<lparr>ar_tx_hash = [], ar_source_hash = source_hash, ar_verdict = AvMalformed, ar_actions = None\<rparr>"

definition result_unknown :: "string \<Rightarrow> audit_result" where
  "result_unknown source_hash = \<lparr>ar_tx_hash = [], ar_source_hash = source_hash, ar_verdict = AvUnknown, ar_actions = None\<rparr>"

definition verdict_for :: "ext \<Rightarrow> deposit_tx_request \<Rightarrow> address \<Rightarrow> address option \<Rightarrow> b256 \<Rightarrow> u256 \<Rightarrow> log list \<Rightarrow> rule_set \<Rightarrow> audit_result" where
  "verdict_for E req from_addr to_addr tx_hash v logs rules =
     (let input = \<lparr>si_tx_hash = tx_hash, si_origin = from_addr, si_tx_to = to_addr, si_nonce = 0, si_value = v,
            si_block_height = 0, si_logs = logs\<rparr>;
          answer = (\<lambda>verdict acts. \<lparr>ar_tx_hash = b256_lower_hex E tx_hash, ar_source_hash = dq_source_hash req,
            ar_verdict = verdict, ar_actions = acts\<rparr>)
      in case try_evaluate E rules input default_max_event_bindings_per_tx of
           Inl e \<Rightarrow> result_malformed (dq_source_hash req)
         | Inr MAllow \<Rightarrow> answer AvAllow None
         | Inr MDeny \<Rightarrow> answer AvDeny None
         | Inr (MAudit acts ta) \<Rightarrow> answer AvAudit (Some acts))"

text \<open>\<open>None\<close> is the panic of \<open>unreachable!\<close>.\<close>

fun commit_and_continue :: "audit_verdict \<Rightarrow> (bool \<times> bool) option" where
  "commit_and_continue AvAllow = Some (True, True)"
| "commit_and_continue AvDeny = Some (False, True)"
| "commit_and_continue AvAudit = Some (False, False)"
| "commit_and_continue AvMalformed = Some (False, True)"
| "commit_and_continue AvUnknown = None"

definition known_allowed_result :: "ext \<Rightarrow> b256 \<Rightarrow> string \<Rightarrow> audit_result" where
  "known_allowed_result E tx_hash source_hash = \<lparr>ar_tx_hash = b256_lower_hex E tx_hash, ar_source_hash = source_hash,
     ar_verdict = AvAllow, ar_actions = None\<rparr>"

section \<open>The request\<close>

record audit_request =
  aq_rules :: "raw_rule list"
  aq_txs :: "deposit_tx_request list"
  aq_known_allowed :: "string list"

datatype audit_failure = RulesRejected "rejected_rule list" | NodeError string | Panicked

text \<open>\<open>built\<close> and the two vectors of what could be built, with the next execution index.\<close>

fun build_all :: "ext \<Rightarrow> 'd audit_lib \<Rightarrow> nat \<Rightarrow> deposit_tx_request list \<Rightarrow> nat option list \<times> (deposit_tx_request \<times> tx_deposit) list" where
  "build_all E A n [] = ([], [])"
| "build_all E A n (req # reqs) = (case build_deposit_tx E A req of
       Inr tx \<Rightarrow> (case build_all E A (Suc n) reqs of (built, ordered) \<Rightarrow> (Some n # built, (req, tx) # ordered))
     | Inl _ \<Rightarrow> (case build_all E A n reqs of (built, ordered) \<Rightarrow> (None # built, ordered)))"

text \<open>The vector \<open>executed\<close>: entries after the loop stopped stay \<open>None\<close>.\<close>

fun execute_ordered :: "ext \<Rightarrow> 'd audit_lib \<Rightarrow> rule_set \<Rightarrow> string list \<Rightarrow> (deposit_tx_request \<times> tx_deposit) list \<Rightarrow> 'd
    \<Rightarrow> audit_failure + audit_result option list" where
  "execute_ordered E A rules known [] db = Inr []"
| "execute_ordered E A rules known ((req, tx) # rest) db = (case al_transact A db tx of
       Inl e \<Rightarrow> Inl (NodeError e)
     | Inr (logs, db') \<Rightarrow>
         if dq_source_hash req \<in> set known
         then map_sum id (Cons (Some (known_allowed_result E (al_tx_hash A tx) (dq_source_hash req)))) (execute_ordered E A rules known rest db')
         else
           let v = verdict_for E req (dt_from tx) (dt_to tx) (al_tx_hash A tx) (dt_value tx) logs rules in
           (case commit_and_continue (ar_verdict v) of
              None \<Rightarrow> Inl Panicked
            | Some (commit, keep_going) \<Rightarrow>
                if keep_going then map_sum id (Cons (Some v)) (execute_ordered E A rules known rest (if commit then db' else db))
                else Inr (Some v # replicate (length rest) None)))"

text \<open>\<open>None\<close> is an index out of range; taking a result leaves \<open>None\<close> in its place.\<close>

fun assemble_results :: "deposit_tx_request list \<Rightarrow> nat option list \<Rightarrow> audit_result option list \<Rightarrow> audit_result list option" where
  "assemble_results [] built executed = Some []"
| "assemble_results (req # reqs) (b # built) executed = (case b of
       None \<Rightarrow> map_option (Cons (result_malformed (dq_source_hash req))) (assemble_results reqs built executed)
     | Some i \<Rightarrow>
         (case list_get executed i of
            None \<Rightarrow> None
          | Some (Some r) \<Rightarrow> map_option (Cons r) (assemble_results reqs built (executed[i := None]))
          | Some None \<Rightarrow> map_option (Cons (result_unknown (dq_source_hash req))) (assemble_results reqs built executed)))"
| "assemble_results (req # reqs) [] executed = None"

definition audit_transactions :: "ext \<Rightarrow> 'd audit_lib \<Rightarrow> audit_request \<Rightarrow> audit_failure + audit_result list" where
  "audit_transactions E A req =
     (let rules = load_rules E 1 0 (aq_rules req) in
      if rs_rejected rules \<noteq> [] then Inl (RulesRejected (rs_rejected rules))
      else
        (case build_all E A 0 (aq_txs req) of (built, ordered) \<Rightarrow>
           (case al_chain_tip A of
              Inl e \<Rightarrow> Inl (NodeError e)
            | Inr db \<Rightarrow>
                (case execute_ordered E A rules (aq_known_allowed req) ordered db of
                   Inl e \<Rightarrow> Inl e
                 | Inr executed \<Rightarrow>
                     (case assemble_results (aq_txs req) built executed of None \<Rightarrow> Inl Panicked | Some rs \<Rightarrow> Inr rs)))))"

section \<open>What an answer says\<close>

text \<open>The reference: one pass over the requests in their order.\<close>

fun audit_in_order :: "ext \<Rightarrow> 'd audit_lib \<Rightarrow> rule_set \<Rightarrow> string list \<Rightarrow> deposit_tx_request list \<Rightarrow> 'd option \<Rightarrow> string + audit_result list" where
  "audit_in_order E A rules known [] state = Inr []"
| "audit_in_order E A rules known (req # reqs) state = (case build_deposit_tx E A req of
       Inl _ \<Rightarrow> map_sum id (Cons (result_malformed (dq_source_hash req))) (audit_in_order E A rules known reqs state)
     | Inr tx \<Rightarrow>
         (case state of
            None \<Rightarrow> map_sum id (Cons (result_unknown (dq_source_hash req))) (audit_in_order E A rules known reqs None)
          | Some db \<Rightarrow>
              (case al_transact A db tx of
                 Inl e \<Rightarrow> Inl e
               | Inr (logs, db') \<Rightarrow>
                   let v = (if dq_source_hash req \<in> set known then known_allowed_result E (al_tx_hash A tx) (dq_source_hash req)
                            else verdict_for E req (dt_from tx) (dt_to tx) (al_tx_hash A tx) (dt_value tx) logs rules);
                       next_state = (case ar_verdict v of AvAllow \<Rightarrow> Some db' | AvAudit \<Rightarrow> None | _ \<Rightarrow> Some db)
                   in map_sum id (Cons v) (audit_in_order E A rules known reqs next_state))))"

lemma verdict_for_not_unknown: "ar_verdict (verdict_for E req f t h v logs rules) \<noteq> AvUnknown"
  by (simp add: verdict_for_def Let_def result_malformed_def split: sum.split match_outcome.split)

lemma build_all_shift:
  "build_all E A n reqs = (map (map_option (\<lambda>i. i + n)) (fst (build_all E A 0 reqs)), snd (build_all E A 0 reqs))"
proof (induction reqs arbitrary: n)
  case (Cons req reqs)
  have "build_all E A (Suc n) reqs = (map (map_option (\<lambda>i. i + Suc n)) (fst (build_all E A 0 reqs)), snd (build_all E A 0 reqs))"
    "build_all E A (Suc 0) reqs = (map (map_option Suc) (fst (build_all E A 0 reqs)), snd (build_all E A 0 reqs))"
    "build_all E A n reqs = (map (map_option (\<lambda>i. i + n)) (fst (build_all E A 0 reqs)), snd (build_all E A 0 reqs))"
    using Cons.IH [of "Suc n"] Cons.IH [of "Suc 0"] Cons.IH [of n] by simp_all
  then show ?case by (simp add: option.map_comp comp_def split: sum.split prod.split)
qed simp

text \<open>Assembling with shifted indices looks at the tail of the executed vector.\<close>

lemma assemble_shift:
  "assemble_results reqs (map (map_option Suc) built) (x # executed) = assemble_results reqs built executed"
  by (induction reqs built executed rule: assemble_results.induct) (auto split: option.splits)

lemma assemble_replicate_None:
  "assemble_results reqs (fst (build_all E A 0 reqs)) (replicate (length (snd (build_all E A 0 reqs))) None) = Some
     (map (\<lambda>req. case build_deposit_tx E A req of Inl _ \<Rightarrow> result_malformed (dq_source_hash req)
        | Inr _ \<Rightarrow> result_unknown (dq_source_hash req)) reqs)"
proof (induction reqs)
  case (Cons req reqs)
  obtain built ordered where b: "build_all E A 0 reqs = (built, ordered)" by force
  with Cons show ?case
    by (cases "build_deposit_tx E A req") (simp_all add: build_all_shift [of _ _ "Suc 0"] assemble_shift)
qed simp

lemma audit_in_order_stopped:
  "audit_in_order E A rules known reqs None = Inr (map (\<lambda>req. case build_deposit_tx E A req of
      Inl _ \<Rightarrow> result_malformed (dq_source_hash req) | Inr _ \<Rightarrow> result_unknown (dq_source_hash req)) reqs)"
  by (induction reqs) (auto split: sum.split)

lemma execute_assemble:
  "(case execute_ordered E A rules known (snd (build_all E A 0 reqs)) db of
      Inl e \<Rightarrow> Inl e
    | Inr executed \<Rightarrow> (case assemble_results reqs (fst (build_all E A 0 reqs)) executed of None \<Rightarrow> Inl Panicked | Some rs \<Rightarrow> Inr rs)) =
   map_sum NodeError id (audit_in_order E A rules known reqs (Some db))"
proof (induction reqs arbitrary: db)
  case (Cons req reqs)
  let ?b = "build_all E A 0 reqs"
  show ?case
  proof (cases "build_deposit_tx E A req")
    case (Inl e)
    then show ?thesis using Cons.IH [of db]
      by (cases "execute_ordered E A rules known (snd ?b) db")
        (auto simp: map_sum_def split: prod.splits sum.splits option.splits)
  next
    case (Inr tx)
    have built: "fst (build_all E A 0 (req # reqs)) = Some 0 # map (map_option Suc) (fst ?b)"
      "snd (build_all E A 0 (req # reqs)) = (req, tx) # snd ?b"
      by (simp_all add: Inr build_all_shift [of _ _ "Suc 0"])
    show ?thesis
    proof (cases "al_transact A db tx")
      case (Inl e)
      then show ?thesis unfolding built by (simp add: Inr)
    next
      case t: (Inr p)
      obtain logs db' where p: "p = (logs, db')" by (cases p)
      let ?v = "verdict_for E req (dt_from tx) (dt_to tx) (al_tx_hash A tx) (dt_value tx) logs rules"
      have step: "(case map_sum id (Cons (Some r)) (execute_ordered E A rules known (snd ?b) d) of
          Inl e \<Rightarrow> Inl e
        | Inr executed \<Rightarrow> (case assemble_results (req # reqs) (Some 0 # map (map_option Suc) (fst ?b)) executed of
            None \<Rightarrow> Inl Panicked | Some rs \<Rightarrow> Inr rs)) =
        map_sum NodeError id (map_sum id (Cons r) (audit_in_order E A rules known reqs (Some d)))" for r d
        using Cons.IH [of d]
        by (cases "execute_ordered E A rules known (snd ?b) d"; cases "audit_in_order E A rules known reqs (Some d)")
          (auto simp: assemble_shift split: option.splits)
      show ?thesis
      proof (cases "dq_source_hash req \<in> set known")
        case True
        have "ar_verdict (known_allowed_result E (al_tx_hash A tx) (dq_source_hash req)) = AvAllow" by (simp add: known_allowed_result_def)
        with True show ?thesis unfolding built using step [of "known_allowed_result E (al_tx_hash A tx) (dq_source_hash req)" db']
          by (simp add: Inr t p Let_def id_def)
      next
        case False
        show ?thesis
        proof (cases "ar_verdict ?v")
          case AvAudit
          with False show ?thesis unfolding built
            by (simp add: Inr t p Let_def assemble_shift assemble_replicate_None audit_in_order_stopped)
        qed (use False step in \<open>unfold built, auto simp: Inr t p Let_def verdict_for_not_unknown id_def\<close>)
      qed
    qed
  qed
qed simp

text \<open>
  C40. An audit answers as one pass over the requests would: a request whose rules are not all valid is
  refused as a whole; otherwise there is one result per transaction, in the order of the request; a
  transaction that cannot be built is malformed and does not disturb the others; every other one is
  executed on the state left by the transactions allowed before it (and by no denied, malformed or
  audited one), and classified, until the first that needs an audit, after which they are unknown.
\<close>

theorem audit_transactions_in_order:
  "audit_transactions E A req =
     (let rules = load_rules E 1 0 (aq_rules req) in
      if rs_rejected rules \<noteq> [] then Inl (RulesRejected (rs_rejected rules))
      else case al_chain_tip A of
             Inl e \<Rightarrow> Inl (NodeError e)
           | Inr db \<Rightarrow> map_sum NodeError id (audit_in_order E A rules (aq_known_allowed req) (aq_txs req) (Some db)))"
  unfolding audit_transactions_def Let_def split_beta execute_assemble by simp

end
