(* ===== verification/Flashblock_Subscription.thy ===== *)
theory Flashblock_Subscription
  imports Flashblock_Builder
begin

text \<open>
  The subscription to pending flashblocks (\<open>crates/flashblocks/src\<close>: \<open>pubsub.rs\<close>, \<open>subscription.rs\<close>):
  decoding and checking of the parameters, and the events of a stream. The standard subscriptions, the
  converter of transactions and receipts and the cache of hashes are libraries and parameters.
\<close>

section \<open>Parameters\<close>

record sub_tx_filter =
  sf_subscribe_addresses :: "address list"
  sf_tx_info :: bool
  sf_tx_receipt :: bool

record flashblocks_filter =
  ff_header_info :: bool
  ff_sub_tx_filter :: sub_tx_filter

datatype 'k flashblock_subscription_kind = KindFlashblocks | KindStandard 'k

datatype 'p flashblock_params = ParamsFilter flashblocks_filter | ParamsStandard 'p

definition has_address_filter :: "sub_tx_filter \<Rightarrow> bool" where
  "has_address_filter f \<longleftrightarrow> sf_subscribe_addresses f \<noteq> []"

definition requires_address_filtering :: "flashblocks_filter \<Rightarrow> bool" where
  "requires_address_filtering f = has_address_filter (ff_sub_tx_filter f)"

definition validate_params :: "nat \<Rightarrow> 'p flashblock_params \<Rightarrow> string + unit" where
  "validate_params max_subscribed_addresses params = (case params of
       ParamsFilter f \<Rightarrow>
         if length (sf_subscribe_addresses (ff_sub_tx_filter f)) > max_subscribed_addresses then Inl ''too many subscribe addresses'' else Inr ()
     | ParamsStandard _ \<Rightarrow> Inr ())"

text \<open>
  The derived decoders: a structure with defaults and no unknown fields, from an object, in which no
  field appears twice, or from an array of the first fields.
\<close>

definition struct_fields :: "string list \<Rightarrow> json \<Rightarrow> json option list option" where
  "struct_fields names v = (case v of
       JObject kvs \<Rightarrow> if distinct (map fst kvs) \<and> list_all (\<lambda>k. k \<in> set names) (map fst kvs) then Some (map (map_of kvs) names) else None
     | JArray xs \<Rightarrow> if length xs \<le> length names then Some (map Some xs @ replicate (length names - length xs) None) else None
     | _ \<Rightarrow> None)"

definition bool_field :: "json option \<Rightarrow> bool option" where
  "bool_field v = (case v of None \<Rightarrow> Some False | Some (JBool b) \<Rightarrow> Some b | _ \<Rightarrow> None)"

fun decode_all :: "('a \<Rightarrow> 'b option) \<Rightarrow> 'a list \<Rightarrow> 'b list option" where
  "decode_all d [] = Some []"
| "decode_all d (x # xs) = (case d x of None \<Rightarrow> None | Some y \<Rightarrow> map_option (Cons y) (decode_all d xs))"

definition address_set_field :: "(json \<Rightarrow> address option) \<Rightarrow> json option \<Rightarrow> address list option" where
  "address_set_field address v = (case v of None \<Rightarrow> Some [] | Some (JArray xs) \<Rightarrow> map_option remdups (decode_all address xs) | _ \<Rightarrow> None)"

definition decode_sub_tx_filter :: "(json \<Rightarrow> address option) \<Rightarrow> json \<Rightarrow> sub_tx_filter option" where
  "decode_sub_tx_filter address v = (case struct_fields [''subscribeAddresses'', ''txInfo'', ''txReceipt''] v of
       Some [a, i, r] \<Rightarrow>
         (case (address_set_field address a, bool_field i, bool_field r) of
            (Some a', Some i', Some r') \<Rightarrow> Some \<lparr>sf_subscribe_addresses = a', sf_tx_info = i', sf_tx_receipt = r'\<rparr>
          | _ \<Rightarrow> None)
     | _ \<Rightarrow> None)"

definition default_sub_tx_filter :: sub_tx_filter where
  "default_sub_tx_filter = \<lparr>sf_subscribe_addresses = [], sf_tx_info = False, sf_tx_receipt = False\<rparr>"

definition decode_flashblocks_filter :: "(json \<Rightarrow> address option) \<Rightarrow> json \<Rightarrow> flashblocks_filter option" where
  "decode_flashblocks_filter address v = (case struct_fields [''headerInfo'', ''subTxFilter''] v of
       Some [h, f] \<Rightarrow>
         (case (bool_field h, case f of None \<Rightarrow> Some default_sub_tx_filter | Some w \<Rightarrow> decode_sub_tx_filter address w) of
            (Some h', Some f') \<Rightarrow> Some \<lparr>ff_header_info = h', ff_sub_tx_filter = f'\<rparr>
          | _ \<Rightarrow> None)
     | _ \<Rightarrow> None)"

text \<open>Untagged: the first variant that decodes. An absent parameter and \<open>null\<close> are no parameters.\<close>

definition decode_kind :: "(json \<Rightarrow> 'k option) \<Rightarrow> json \<Rightarrow> 'k flashblock_subscription_kind option" where
  "decode_kind standard v = (if v = JString ''flashblocks'' then Some KindFlashblocks else map_option KindStandard (standard v))"

definition decode_params :: "(json \<Rightarrow> address option) \<Rightarrow> (json \<Rightarrow> 'p option) \<Rightarrow> json \<Rightarrow> 'p flashblock_params option" where
  "decode_params address standard v = (case decode_flashblocks_filter address v of
       Some f \<Rightarrow> Some (ParamsFilter f)
     | None \<Rightarrow> map_option ParamsStandard (standard v))"

section \<open>Subscribing\<close>

datatype ('k, 'p) subscription_task = FlashblocksStream flashblocks_filter | StandardTask 'k "'p option"

definition handle_accepted :: "'k flashblock_subscription_kind \<Rightarrow> 'p flashblock_params option \<Rightarrow> string + ('k, 'p) subscription_task" where
  "handle_accepted kind params = (case kind of
       KindFlashblocks \<Rightarrow>
         (case params of Some (ParamsFilter f) \<Rightarrow> Inr (FlashblocksStream f) | _ \<Rightarrow> Inl ''invalid params for flashblocks'')
     | KindStandard k \<Rightarrow>
         (case params of
            Some (ParamsStandard p) \<Rightarrow> Inr (StandardTask k (Some p))
          | None \<Rightarrow> Inr (StandardTask k None)
          | Some (ParamsFilter _) \<Rightarrow> Inl ''invalid params for standard eth subscription''))"

text \<open>
  The answer to the client is the rejection, or the acceptance; then a task runs what the subscription
  turns out to be, and an error of that is dropped.
\<close>

datatype ('k, 'p) subscribe_outcome = Rejected string | Accepted "string + ('k, 'p) subscription_task"

definition subscribe :: "nat \<Rightarrow> 'k flashblock_subscription_kind \<Rightarrow> 'p flashblock_params option \<Rightarrow> ('k, 'p) subscribe_outcome" where
  "subscribe max_subscribed_addresses kind params =
     (case kind of
        KindFlashblocks \<Rightarrow>
          (case params of
             None \<Rightarrow> Rejected ''flashblocks subscription requires filter params, no params specified''
           | Some ps \<Rightarrow>
               (case validate_params max_subscribed_addresses ps of
                  Inl err \<Rightarrow> Rejected err
                | Inr _ \<Rightarrow> Accepted (handle_accepted kind params)))
      | KindStandard _ \<Rightarrow> Accepted (handle_accepted kind params))"

section \<open>The events of a pending block\<close>

record pending_flash_block =
  pf_header :: header
  pf_hash :: b256
  pf_rlp_length :: nat
  pf_transactions :: "pool_tx list"
  pf_receipts :: "receipt list"

record transaction_info =
  ti_hash :: b256
  ti_index :: nat
  ti_block_hash :: b256
  ti_block_number :: nat
  ti_block_timestamp :: nat
  ti_base_fee :: nat

record convert_receipt_input =
  cri_receipt :: receipt
  cri_tx :: pool_tx
  cri_gas_used :: nat
  cri_next_log_index :: nat
  cri_meta :: transaction_info
  cri_excess_blob_gas :: "nat option"

record ('t, 'r) rpc_convert =
  rx_fill :: "pool_tx \<Rightarrow> transaction_info \<Rightarrow> 't option"
  rx_convert_receipts_with_block :: "convert_receipt_input list \<Rightarrow> pending_flash_block \<Rightarrow> 'r list option"
  rx_gas_used_and_next_log_index :: "nat \<Rightarrow> receipt list \<Rightarrow> nat \<times> nat"

text \<open>The cache of hashes; looking one up may change which is evicted next.\<close>

record 'c cache_ops =
  ch_get :: "b256 \<Rightarrow> 'c \<Rightarrow> bool \<times> 'c"
  ch_insert :: "b256 \<Rightarrow> 'c \<Rightarrow> 'c"

definition MAX_TXHASH_CACHE_SIZE :: nat where
  "MAX_TXHASH_CACHE_SIZE = 10000"

record ('t, 'r) enriched_transaction =
  et_tx_hash :: b256
  et_tx_data :: "'t option"
  et_receipt :: "'r option"

datatype ('t, 'r) flashblock_stream_event =
    EvHeader nat "header \<times> b256 \<times> nat"
  | EvTransaction nat "('t, 'r) enriched_transaction"

definition event_block_number :: "('t, 'r) flashblock_stream_event \<Rightarrow> nat" where
  "event_block_number ev = (case ev of EvHeader n _ \<Rightarrow> n | EvTransaction n _ \<Rightarrow> n)"

definition extract_header_from_pending_block :: "pending_flash_block \<Rightarrow> header \<times> b256 \<times> nat" where
  "extract_header_from_pending_block pb = (pf_header pb, pf_hash pb, pf_rlp_length pb)"

definition is_address_in_transaction :: "pool_tx \<Rightarrow> receipt option \<Rightarrow> address list \<Rightarrow> bool" where
  "is_address_in_transaction tx receipt addresses \<longleftrightarrow>
     px_signer tx \<in> set addresses \<or> (case px_to tx of Some to \<Rightarrow> to \<in> set addresses | None \<Rightarrow> False) \<or>
     (case receipt of Some r \<Rightarrow> list_ex (\<lambda>log. log_address log \<in> set addresses) (rc_logs r) | None \<Rightarrow> False)"

definition tx_info_of :: "pending_flash_block \<Rightarrow> nat \<Rightarrow> pool_tx \<Rightarrow> transaction_info" where
  "tx_info_of pb idx tx = \<lparr>ti_hash = px_hash tx, ti_index = idx, ti_block_hash = pf_hash pb, ti_block_number = hd_number (pf_header pb),
     ti_block_timestamp = hd_timestamp (pf_header pb), ti_base_fee = hd_base_fee_per_gas (pf_header pb)\<rparr>"

definition enrich_transaction_data :: "('t, 'r) rpc_convert \<Rightarrow> flashblocks_filter \<Rightarrow> pending_flash_block \<Rightarrow> nat \<Rightarrow> pool_tx \<Rightarrow> 't option" where
  "enrich_transaction_data rx f pb idx tx =
     (if \<not> sf_tx_info (ff_sub_tx_filter f) then None else rx_fill rx tx (tx_info_of pb idx tx))"

text \<open>The subtraction on 64 bits wraps.\<close>

definition enrich_receipt :: "('t, 'r) rpc_convert \<Rightarrow> flashblocks_filter \<Rightarrow> pending_flash_block \<Rightarrow> nat \<Rightarrow> pool_tx \<Rightarrow> receipt \<Rightarrow> 'r option" where
  "enrich_receipt rx f pb idx tx r =
     (if \<not> sf_tx_receipt (ff_sub_tx_filter f) then None
      else case rx_gas_used_and_next_log_index rx idx (pf_receipts pb) of (gas_used, next_log_index) \<Rightarrow>
        (case rx_convert_receipts_with_block rx
            [\<lparr>cri_receipt = r, cri_tx = tx, cri_gas_used = nat ((int (rc_cumulative_gas_used r) - int gas_used) mod 2 ^ 64),
              cri_next_log_index = next_log_index, cri_meta = tx_info_of pb idx tx, cri_excess_blob_gas = hd_excess_blob_gas (pf_header pb)\<rparr>] pb of
           Some (x # _) \<Rightarrow> Some x
         | _ \<Rightarrow> None))"

fun collect_transactions_from :: "'c cache_ops \<Rightarrow> ('t, 'r) rpc_convert \<Rightarrow> flashblocks_filter \<Rightarrow> pending_flash_block \<Rightarrow> nat \<Rightarrow> pool_tx list \<Rightarrow> 'c
    \<Rightarrow> ('t, 'r) enriched_transaction list \<times> 'c" where
  "collect_transactions_from co rx f pb idx [] c = ([], c)"
| "collect_transactions_from co rx f pb idx (tx # txs) c =
     (case ch_get co (px_hash tx) c of (seen, c1) \<Rightarrow>
        if seen then collect_transactions_from co rx f pb (Suc idx) txs c1
        else (case list_get (pf_receipts pb) idx of
               None \<Rightarrow> collect_transactions_from co rx f pb (Suc idx) txs c1
             | Some r \<Rightarrow>
                 if requires_address_filtering f \<and> \<not> is_address_in_transaction tx (Some r) (sf_subscribe_addresses (ff_sub_tx_filter f))
                 then collect_transactions_from co rx f pb (Suc idx) txs c1
                 else
                   (case collect_transactions_from co rx f pb (Suc idx) txs (ch_insert co (px_hash tx) c1) of (rest, c2) \<Rightarrow>
                     (\<lparr>et_tx_hash = px_hash tx, et_tx_data = enrich_transaction_data rx f pb idx tx, et_receipt = enrich_receipt rx f pb idx tx r\<rparr> # rest, c2))))"

definition collect_transactions :: "'c cache_ops \<Rightarrow> ('t, 'r) rpc_convert \<Rightarrow> flashblocks_filter \<Rightarrow> pending_flash_block \<Rightarrow> 'c
    \<Rightarrow> ('t, 'r) enriched_transaction list \<times> 'c" where
  "collect_transactions co rx f pb c = collect_transactions_from co rx f pb 0 (pf_transactions pb) c"

definition flashblock_to_stream_events :: "'c cache_ops \<Rightarrow> ('t, 'r) rpc_convert \<Rightarrow> flashblocks_filter \<Rightarrow> pending_flash_block \<Rightarrow> 'c
    \<Rightarrow> ('t, 'r) flashblock_stream_event list \<times> 'c" where
  "flashblock_to_stream_events co rx f pb c =
     (case collect_transactions co rx f pb c of (txs, c1) \<Rightarrow>
        ((if ff_header_info f then [EvHeader (hd_number (pf_header pb)) (extract_header_from_pending_block pb)] else []) @
           map (EvTransaction (hd_number (pf_header pb))) txs, c1))"

text \<open>The stream over the values the pending block takes while the subscription watches it.\<close>

fun new_flashblocks_stream :: "'c cache_ops \<Rightarrow> ('t, 'r) rpc_convert \<Rightarrow> flashblocks_filter \<Rightarrow> pending_flash_block option list \<Rightarrow> 'c
    \<Rightarrow> ('t, 'r) flashblock_stream_event list" where
  "new_flashblocks_stream co rx f [] c = []"
| "new_flashblocks_stream co rx f (None # pbs) c = new_flashblocks_stream co rx f pbs c"
| "new_flashblocks_stream co rx f (Some pb # pbs) c =
     (case flashblock_to_stream_events co rx f pb c of (evs, c1) \<Rightarrow> evs @ new_flashblocks_stream co rx f pbs c1)"

section \<open>Every transaction once\<close>

text \<open>
  The cache gives back what was put in while no more than its capacity was. Which states of the cache
  stand for which hashes is the library's affair.
\<close>

definition cache_keeps :: "'c cache_ops \<Rightarrow> ('c \<Rightarrow> b256 set \<Rightarrow> bool) \<Rightarrow> bool" where
  "cache_keeps co stands \<longleftrightarrow>
     (\<forall>c S h. stands c S \<longrightarrow> fst (ch_get co h c) = (h \<in> S) \<and> stands (snd (ch_get co h c)) S) \<and>
     (\<forall>c S h. stands c S \<and> card (insert h S) \<le> MAX_TXHASH_CACHE_SIZE \<longrightarrow> stands (ch_insert co h c) (insert h S))"

text \<open>The transactions of a block that a filter asks for: those with a receipt and, when addresses are given, one of them.\<close>

definition tx_wanted :: "flashblocks_filter \<Rightarrow> pending_flash_block \<Rightarrow> nat \<Rightarrow> pool_tx \<Rightarrow> bool" where
  "tx_wanted f pb idx tx \<longleftrightarrow> idx < length (pf_receipts pb) \<and>
     (sf_subscribe_addresses (ff_sub_tx_filter f) = [] \<or>
      (\<exists>a \<in> set (sf_subscribe_addresses (ff_sub_tx_filter f)). a = px_signer tx \<or> Some a = px_to tx \<or> a \<in> log_address ` set (rc_logs (pf_receipts pb ! idx))))"

definition wanted_from :: "flashblocks_filter \<Rightarrow> pending_flash_block \<Rightarrow> nat \<Rightarrow> pool_tx list \<Rightarrow> b256 list" where
  "wanted_from f pb idx txs = map (\<lambda>(i, tx). px_hash tx) (filter (\<lambda>(i, tx). tx_wanted f pb i tx) (enumerate idx txs))"

definition wanted_hashes :: "flashblocks_filter \<Rightarrow> pending_flash_block \<Rightarrow> b256 list" where
  "wanted_hashes f pb = wanted_from f pb 0 (pf_transactions pb)"

lemma wanted_from_simps [simp]:
  "wanted_from f pb idx [] = []"
  "wanted_from f pb idx (tx # txs) = (if tx_wanted f pb idx tx then px_hash tx # wanted_from f pb (Suc idx) txs else wanted_from f pb (Suc idx) txs)"
  by (simp_all add: wanted_from_def)

lemma set_wanted_from: "set (wanted_from f pb idx txs) \<subseteq> px_hash ` set txs"
  by (induction txs arbitrary: idx) auto

fun fresh :: "'a set \<Rightarrow> 'a list \<Rightarrow> 'a list" where
  "fresh S [] = []"
| "fresh S (x # xs) = (if x \<in> S then fresh S xs else x # fresh (insert x S) xs)"

lemma fresh_append: "fresh S (xs @ ys) = fresh S xs @ fresh (S \<union> set xs) ys"
  by (induction xs arbitrary: S) (auto simp: insert_absorb)

lemma fresh_first: "fresh {} xs = rev (remdups (rev xs))"
  by (induction xs rule: rev_induct) (simp_all add: fresh_append)

lemma tx_wanted_eq:
  "tx_wanted f pb idx tx \<longleftrightarrow> (case list_get (pf_receipts pb) idx of None \<Rightarrow> False
     | Some r \<Rightarrow> \<not> (requires_address_filtering f \<and> \<not> is_address_in_transaction tx (Some r) (sf_subscribe_addresses (ff_sub_tx_filter f))))"
  by (cases "px_to tx")
    (auto simp: tx_wanted_def list_get_def requires_address_filtering_def has_address_filter_def is_address_in_transaction_def list_ex_iff)

lemma collect_transactions_from_fresh:
  assumes "cache_keeps co stands" "stands c S" "finite S" "card (S \<union> px_hash ` set txs) \<le> MAX_TXHASH_CACHE_SIZE"
  shows "map et_tx_hash (fst (collect_transactions_from co rx f pb idx txs c)) = fresh S (wanted_from f pb idx txs) \<and>
    stands (snd (collect_transactions_from co rx f pb idx txs c)) (S \<union> set (wanted_from f pb idx txs))"
  using assms(2-4)
proof (induction txs arbitrary: idx c S)
  case (Cons tx txs)
  let ?h = "px_hash tx"
  obtain seen c1 where g: "ch_get co ?h c = (seen, c1)" by (cases "ch_get co ?h c")
  have c1: "seen = (?h \<in> S)" "stands c1 S" using assms(1) Cons.prems(1) g unfolding cache_keeps_def by (metis fst_conv, metis snd_conv)
  have sub: "card (S \<union> px_hash ` set txs) \<le> MAX_TXHASH_CACHE_SIZE"
    by (rule le_trans [OF card_mono Cons.prems(3)]) (use Cons.prems(2) in auto)
  note skip = Cons.IH [OF c1(2) Cons.prems(2) sub, of "Suc idx"]
  show ?case
  proof (cases "seen \<or> \<not> tx_wanted f pb idx tx")
    case True
    then have e: "collect_transactions_from co rx f pb idx (tx # txs) c = collect_transactions_from co rx f pb (Suc idx) txs c1"
      by (auto simp: g tx_wanted_eq split: option.splits)
    show ?thesis unfolding e using skip True c1(1) by (cases "tx_wanted f pb idx tx") (auto simp: insert_absorb)
  next
    case False
    then obtain r where r: "list_get (pf_receipts pb) idx = Some r"
      "\<not> (requires_address_filtering f \<and> \<not> is_address_in_transaction tx (Some r) (sf_subscribe_addresses (ff_sub_tx_filter f)))"
      by (auto simp: tx_wanted_eq split: option.splits)
    have all: "insert ?h S \<union> px_hash ` set txs = S \<union> px_hash ` set (tx # txs)" by auto
    have "card (insert ?h S) \<le> MAX_TXHASH_CACHE_SIZE"
      by (rule le_trans [OF card_mono Cons.prems(3)]) (use Cons.prems(2) in auto)
    with assms(1) c1(2) have "stands (ch_insert co ?h c1) (insert ?h S)" unfolding cache_keeps_def by blast
    from Cons.IH [OF this, of "Suc idx"] Cons.prems(2,3) all
    show ?thesis using False c1(1) r by (auto simp: g split: prod.split)
  qed
qed simp

fun event_hashes :: "('t, 'r) flashblock_stream_event list \<Rightarrow> b256 list" where
  "event_hashes [] = []"
| "event_hashes (EvHeader _ _ # evs) = event_hashes evs"
| "event_hashes (EvTransaction _ t # evs) = et_tx_hash t # event_hashes evs"

lemma event_hashes_append [simp]: "event_hashes (xs @ ys) = event_hashes xs @ event_hashes ys"
  by (induction xs rule: event_hashes.induct) simp_all

lemma event_hashes_map [simp]: "event_hashes (map (EvTransaction n) ts) = map et_tx_hash ts"
  by (induction ts) simp_all

definition watched :: "pending_flash_block option list \<Rightarrow> pending_flash_block list" where
  "watched pbs = List.map_filter id pbs"

lemma watched_simps [simp]: "watched [] = []" "watched (None # pbs) = watched pbs" "watched (Some pb # pbs) = pb # watched pbs"
  by (simp_all add: watched_def List.map_filter_simps)

lemma stream_fresh:
  assumes "cache_keeps co stands" "stands c S" "finite S"
    and "card (S \<union> (\<Union>pb \<in> set (watched pbs). px_hash ` set (pf_transactions pb))) \<le> MAX_TXHASH_CACHE_SIZE"
  shows "event_hashes (new_flashblocks_stream co rx f pbs c) = fresh S (concat (map (wanted_hashes f) (watched pbs)))"
  using assms(2-4)
proof (induction pbs arbitrary: c S)
  case (Cons p pbs)
  show ?case
  proof (cases p)
    case (Some pb)
    let ?r = "collect_transactions_from co rx f pb 0 (pf_transactions pb) c"
    let ?U = "\<Union>pb \<in> set (watched pbs). px_hash ` set (pf_transactions pb)"
    have le: "card T \<le> MAX_TXHASH_CACHE_SIZE" if "T \<subseteq> S \<union> (px_hash ` set (pf_transactions pb) \<union> ?U)" for T
      by (rule le_trans [OF card_mono [OF _ that]]) (use Cons.prems(2,3) Some in auto)
    have step: "map et_tx_hash (fst ?r) = fresh S (wanted_hashes f pb)" "stands (snd ?r) (S \<union> set (wanted_hashes f pb))"
      using collect_transactions_from_fresh [OF assms(1) Cons.prems(1,2) le, where txs = "pf_transactions pb" and f = f and pb = pb and idx = 0 and rx = rx] by (auto simp: wanted_hashes_def)
    have "event_hashes (new_flashblocks_stream co rx f pbs (snd ?r)) = fresh (S \<union> set (wanted_hashes f pb)) (concat (map (wanted_hashes f) (watched pbs)))"
      by (rule Cons.IH [OF step(2)])
        (use Cons.prems(2) set_wanted_from [of f pb 0 "pf_transactions pb"] in \<open>auto simp: wanted_hashes_def intro!: le\<close>)
    with step(1) Some show ?thesis
      by (simp add: flashblock_to_stream_events_def collect_transactions_def fresh_append split_beta)
  qed (use Cons in simp)
qed simp

text \<open>
  C24. A subscriber receives every transaction that its filter asks for exactly once, in the order in
  which they first appear. Whatever blocks are pending while the subscription watches, the hashes of its
  transaction events are the hashes of the transactions that the filter asks for, in order, without the
  repetitions; a filter without addresses asks for every transaction with a receipt, one with addresses
  for those sent by, sent to or logged by one of them. Assumed is that the cache of hashes keeps what is
  put in up to its capacity, which the pending blocks do not pass.
\<close>

theorem subscriber_receives_each_once:
  assumes "cache_keeps co stands" "stands c {}"
    and "card (\<Union>pb \<in> set (watched pbs). px_hash ` set (pf_transactions pb)) \<le> MAX_TXHASH_CACHE_SIZE"
  shows "event_hashes (new_flashblocks_stream co rx f pbs c) = rev (remdups (rev (concat (map (wanted_hashes f) (watched pbs)))))"
  unfolding fresh_first [symmetric] by (rule stream_fresh [OF assms(1,2)]) (use assms(3) in simp_all)

section \<open>Into the socket\<close>

text \<open>
  A turn of the pipe: the connection is found closed, or the next item is taken and sent, with success or
  not. The pipe ends with the connection, with the stream, with a failed send, or with an item that cannot
  be serialised, which is its only error; \<open>None\<close> is a pipe that still runs.
\<close>

datatype pipe_turn = SinkClosed | NextItem bool

fun pipe_from_flashblocks_stream :: "('i \<Rightarrow> string + 'm) \<Rightarrow> pipe_turn list \<Rightarrow> 'i list \<Rightarrow> 'm list \<times> (string + unit) option" where
  "pipe_from_flashblocks_stream serialize [] items = ([], None)"
| "pipe_from_flashblocks_stream serialize (SinkClosed # turns) items = ([], Some (Inr ()))"
| "pipe_from_flashblocks_stream serialize (NextItem ok # turns) [] = ([], Some (Inr ()))"
| "pipe_from_flashblocks_stream serialize (NextItem ok # turns) (item # items) = (case serialize item of
       Inl e \<Rightarrow> ([], Some (Inl (''Failed to serialize subscription item: '' @ e)))
     | Inr msg \<Rightarrow> if ok then apfst (Cons msg) (pipe_from_flashblocks_stream serialize turns items) else ([], Some (Inr ())))"

text \<open>What reaches the socket are the first items of the stream, each once and in their order.\<close>

lemma pipe_sends_prefix:
  "\<exists>n. map Inr (fst (pipe_from_flashblocks_stream serialize turns items)) = map serialize (take n items)"
proof (induction serialize turns items rule: pipe_from_flashblocks_stream.induct)
  case (4 serialize ok turns item items)
  show ?case
  proof (cases "serialize item")
    case (Inr msg)
    with 4 obtain n where "ok \<longrightarrow> map Inr (fst (pipe_from_flashblocks_stream serialize turns items)) = map serialize (take n items)" by blast
    with Inr show ?thesis by (cases ok) (auto intro: exI [of _ "Suc n"] exI [of _ 0])
  qed (auto intro: exI [of _ 0])
qed (auto intro: exI [of _ 0])

lemma pipe_complete:
  assumes "\<And>i. i \<in> set items \<Longrightarrow> \<exists>m. serialize i = Inr m"
  shows "pipe_from_flashblocks_stream serialize (replicate (Suc (length items)) (NextItem True)) items = (map (projr \<circ> serialize) items, Some (Inr ()))"
  using assms
proof (induction items)
  case (Cons i items)
  then obtain m where "serialize i = Inr m" by auto
  with Cons show ?case by simp
qed simp

section \<open>What is accepted\<close>

text \<open>
  A stream of flashblocks only ever runs with a filter that the limit on addresses allows, and a
  request for flashblocks that is refused or accepted in vain is one without such a filter.
\<close>

lemma flashblocks_stream_within_limit:
  "subscribe limit kind params = Accepted (Inr (FlashblocksStream f)) \<longleftrightarrow>
     kind = KindFlashblocks \<and> params = Some (ParamsFilter f) \<and> length (sf_subscribe_addresses (ff_sub_tx_filter f)) \<le> limit"
  by (cases kind; cases params rule: option.exhaust; auto simp: subscribe_def handle_accepted_def validate_params_def not_less
      split: flashblock_params.splits if_splits)

text \<open>
  Standard subscriptions with an empty filter are accepted and then die in silence. The parameters
  are decoded as a flashblocks filter first, and all fields of that have defaults, so the empty object
  is one; a standard subscription refuses it after the client was told that the subscription is
  accepted, and the refusal is dropped. For \<open>eth_subscribe("logs", {})\<close>, which asks for all logs,
  nothing is ever sent.
\<close>

lemma empty_filter_subscription_dies:
  "\<exists>ps. decode_params address standard (JObject []) = Some ps \<and>
     subscribe limit (KindStandard k) (Some ps) = Accepted (Inl ''invalid params for standard eth subscription'')"
  by (simp add: decode_params_def decode_flashblocks_filter_def struct_fields_def bool_field_def subscribe_def handle_accepted_def)

section \<open>An instance\<close>

text \<open>A cache that is a list of hashes, and two pending blocks of which the second repeats a transaction.\<close>

definition sample_cache_ops :: "b256 list cache_ops" where
  "sample_cache_ops = \<lparr>ch_get = (\<lambda>h c. (h \<in> set c, c)), ch_insert = (\<lambda>h c. take MAX_TXHASH_CACHE_SIZE (List.insert h c))\<rparr>"

definition sample_rpc_convert :: "(b256, nat) rpc_convert" where
  "sample_rpc_convert = \<lparr>rx_fill = (\<lambda>tx info. Some (ti_hash info)), rx_convert_receipts_with_block = (\<lambda>inputs _. Some (map cri_gas_used inputs)),
     rx_gas_used_and_next_log_index = (\<lambda>idx receipts. (if idx = 0 then 0 else rc_cumulative_gas_used (receipts ! (idx - 1)), 0))\<rparr>"

definition sample_receipt :: receipt where
  "sample_receipt = \<lparr>rc_success = True, rc_cumulative_gas_used = 21000, rc_logs = [], rc_deposit_nonce = None, rc_deposit_receipt_version = None\<rparr>"

definition sample_pending :: "pool_tx list \<Rightarrow> pending_flash_block" where
  "sample_pending txs = \<lparr>pf_header = block_header (sample_bcx False) sample_chain_lib sample_pl execution_info_new 0 None None None None [],
     pf_hash = 5, pf_rlp_length = 500, pf_transactions = txs, pf_receipts = map (\<lambda>_. sample_receipt) txs\<rparr>"

definition sample_filter :: flashblocks_filter where
  "sample_filter = \<lparr>ff_header_info = True, ff_sub_tx_filter = \<lparr>sf_subscribe_addresses = [1], sf_tx_info = True, sf_tx_receipt = True\<rparr>\<rparr>"

lemma sample_cache_keeps: "cache_keeps sample_cache_ops (\<lambda>c S. set c = S \<and> distinct c)"
proof -
  have "length (List.insert h c) \<le> MAX_TXHASH_CACHE_SIZE" if "card (insert h (set c)) \<le> MAX_TXHASH_CACHE_SIZE" "distinct c" for h :: b256 and c
    using that distinct_card [of "List.insert h c"] by simp
  then show ?thesis by (auto simp: cache_keeps_def sample_cache_ops_def)
qed

theorem subscriber_receives_each_once_witness:
  "event_hashes (new_flashblocks_stream sample_cache_ops sample_rpc_convert sample_filter
     [None, Some (sample_pending [sample_tx]), Some (sample_pending [sample_tx, sample_tx\<lparr>px_hash := 8\<rparr>, sample_tx\<lparr>px_hash := 9, px_signer := 4\<rparr>])] []) = [7, 8]"
proof -
  let ?pbs = "[None, Some (sample_pending [sample_tx]), Some (sample_pending [sample_tx, sample_tx\<lparr>px_hash := 8\<rparr>, sample_tx\<lparr>px_hash := 9, px_signer := 4\<rparr>])]"
  have "(\<Union>pb \<in> set (watched ?pbs). px_hash ` set (pf_transactions pb)) \<subseteq> {7, 8, 9}" by (auto simp: sample_pending_def sample_tx_def)
  then have "card (\<Union>pb \<in> set (watched ?pbs). px_hash ` set (pf_transactions pb)) \<le> card {7, 8, 9 :: b256}" by (intro card_mono) simp_all
  also have "\<dots> \<le> MAX_TXHASH_CACHE_SIZE" by (simp add: MAX_TXHASH_CACHE_SIZE_def)
  finally have "card (\<Union>pb \<in> set (watched ?pbs). px_hash ` set (pf_transactions pb)) \<le> MAX_TXHASH_CACHE_SIZE" .
  from subscriber_receives_each_once [OF sample_cache_keeps _ this, of "[]" sample_rpc_convert sample_filter] show ?thesis
    by (simp add: wanted_hashes_def wanted_from_def tx_wanted_def sample_filter_def sample_pending_def sample_tx_def sample_receipt_def)
qed

end
