(* ===== verification/Flashblock_Relay.thy ===== *)
theory Flashblock_Relay
  imports Flashblock_Cache
begin

text \<open>
  How flashblocks reach subscribers and the disk: the websocket publisher
  (\<open>crates/builder/src/flashblocks/utils/wspub.rs\<close>), the relay of a node that is not the builder and its
  persistence (\<open>crates/flashblocks/src/handler.rs\<close>), and the transaction count over flashblocks
  (\<open>crates/rpc/src/eth.rs\<close>). Sockets, serialisation and the node's API are parameters.
\<close>

section \<open>The publisher\<close>

text \<open>
  A connection, by the steps of its task: accepted with a receiver that starts at the messages not
  yet sent; admitted by the check of the limit; open once counted; leaving when its loop has ended,
  until it is subtracted; or rejected. It remembers where its receiver started and stands, and what was
  sent to the client.
\<close>

datatype 'm connection =
    ConnAccepted nat
  | ConnAdmitted nat
  | ConnOpen nat nat "'m list"
  | ConnLeaving nat "'m list"
  | ConnClosed nat "'m list"
  | ConnRejected

record 'm web_socket_publisher =
  wp_sent :: nat
  wp_subs :: nat
  wp_term :: bool
  wp_pipe :: "'m list"
  wp_subscriber_limit :: "nat option"
  wp_connections :: "'m connection list"

definition web_socket_publisher_new :: "nat option \<Rightarrow> 'm web_socket_publisher" where
  "web_socket_publisher_new subscriber_limit =
     \<lparr>wp_sent = 0, wp_subs = 0, wp_term = False, wp_pipe = [], wp_subscriber_limit = subscriber_limit, wp_connections = []\<rparr>"

text \<open>\<open>None\<close> is a payload that cannot be serialised.\<close>

definition ws_publish :: "'m option \<Rightarrow> 'm web_socket_publisher \<Rightarrow> bool \<times> 'm web_socket_publisher" where
  "ws_publish serialized p = (case serialized of None \<Rightarrow> (False, p) | Some m \<Rightarrow> (True, p\<lparr>wp_pipe := wp_pipe p @ [m]\<rparr>))"

definition ws_drop :: "'m web_socket_publisher \<Rightarrow> 'm web_socket_publisher" where
  "ws_drop p = p\<lparr>wp_term := True\<rparr>"

definition set_connection :: "nat \<Rightarrow> 'm connection \<Rightarrow> 'm web_socket_publisher \<Rightarrow> 'm web_socket_publisher" where
  "set_connection i c p = p\<lparr>wp_connections := (wp_connections p)[i := c]\<rparr>"

text \<open>The listener accepts while the publisher is there.\<close>

definition listener_accept :: "'m web_socket_publisher \<Rightarrow> 'm web_socket_publisher" where
  "listener_accept p = (if wp_term p then p else p\<lparr>wp_connections := wp_connections p @ [ConnAccepted (length (wp_pipe p))]\<rparr>)"

definition check_limit :: "nat \<Rightarrow> nat \<Rightarrow> 'm web_socket_publisher \<Rightarrow> 'm web_socket_publisher" where
  "check_limit i start p =
     (if (case wp_subscriber_limit p of Some limit \<Rightarrow> limit \<le> wp_subs p | None \<Rightarrow> False) then set_connection i ConnRejected p
      else set_connection i (ConnAdmitted start) p)"

definition count_connection :: "nat \<Rightarrow> nat \<Rightarrow> 'm web_socket_publisher \<Rightarrow> 'm web_socket_publisher" where
  "count_connection i start p = (set_connection i (ConnOpen start start []) p)\<lparr>wp_subs := wp_subs p + 1\<rparr>"

text \<open>One message of the loop; a send that fails ends it.\<close>

definition broadcast_payload :: "bool \<Rightarrow> nat \<Rightarrow> nat \<Rightarrow> nat \<Rightarrow> 'm list \<Rightarrow> 'm web_socket_publisher \<Rightarrow> 'm web_socket_publisher" where
  "broadcast_payload send_ok i start pos got p =
     (let p1 = p\<lparr>wp_sent := wp_sent p + 1\<rparr> in
      if send_ok then set_connection i (ConnOpen start (Suc pos) (got @ [wp_pipe p ! pos])) p1 else set_connection i (ConnLeaving start got) p1)"

text \<open>
  The steps of all tasks. The channel keeps at least the last 100 messages (its capacity may be rounded
  up): a receiver that is further behind may be told so, and goes on at the oldest message that is kept.
\<close>

definition pipe_capacity :: nat where
  "pipe_capacity = 100"

inductive ws_step :: "'m web_socket_publisher \<Rightarrow> 'm web_socket_publisher \<Rightarrow> bool" where
  ws_publish: "ws_step p (snd (ws_publish m p))"
| ws_drop: "ws_step p (ws_drop p)"
| ws_accept: "ws_step p (listener_accept p)"
| ws_check: "i < length (wp_connections p) \<Longrightarrow> wp_connections p ! i = ConnAccepted start \<Longrightarrow> ws_step p (check_limit i start p)"
| ws_count: "i < length (wp_connections p) \<Longrightarrow> wp_connections p ! i = ConnAdmitted start \<Longrightarrow> ws_step p (count_connection i start p)"
| ws_send: "i < length (wp_connections p) \<Longrightarrow> wp_connections p ! i = ConnOpen start pos got \<Longrightarrow> pos < length (wp_pipe p) \<Longrightarrow>
    ws_step p (broadcast_payload send_ok i start pos got p)"
| ws_lagged: "i < length (wp_connections p) \<Longrightarrow> wp_connections p ! i = ConnOpen start pos got \<Longrightarrow> pos < oldest \<Longrightarrow>
    oldest \<le> length (wp_pipe p) - pipe_capacity \<Longrightarrow> ws_step p (set_connection i (ConnOpen start oldest got) p)"
| ws_leave: "i < length (wp_connections p) \<Longrightarrow> wp_connections p ! i = ConnOpen start pos got \<Longrightarrow> ws_step p (set_connection i (ConnLeaving start got) p)"
| ws_uncount: "i < length (wp_connections p) \<Longrightarrow> wp_connections p ! i = ConnLeaving start got \<Longrightarrow>
    ws_step p ((set_connection i (ConnClosed start got) p)\<lparr>wp_subs := wp_subs p - 1\<rparr>)"

abbreviation ws_reachable :: "nat option \<Rightarrow> 'm web_socket_publisher \<Rightarrow> bool" where
  "ws_reachable limit p \<equiv> ws_step\<^sup>*\<^sup>* (web_socket_publisher_new limit) p"

fun counted :: "'m connection \<Rightarrow> bool" where
  "counted (ConnOpen _ _ _) = True"
| "counted (ConnLeaving _ _) = True"
| "counted _ = False"

fun was_sent :: "'m connection \<Rightarrow> (nat \<times> 'm list) option" where
  "was_sent (ConnOpen start _ got) = Some (start, got)"
| "was_sent (ConnLeaving start got) = Some (start, got)"
| "was_sent (ConnClosed start got) = Some (start, got)"
| "was_sent _ = None"

text \<open>
  What was sent to a client is a subsequence of the messages between its start and its position, and
  all of them as long as no more than the capacity have been published since it connected.
\<close>

definition sent_in_order :: "'m list \<Rightarrow> nat \<Rightarrow> 'm list \<Rightarrow> bool" where
  "sent_in_order pipe start got \<longleftrightarrow> subseq got (drop start pipe) \<and> (length pipe \<le> start + pipe_capacity \<longrightarrow> prefix got (drop start pipe))"

fun in_order :: "'m list \<Rightarrow> 'm connection \<Rightarrow> bool" where
  "in_order pipe (ConnOpen start pos got) \<longleftrightarrow> start \<le> pos \<and> pos \<le> length pipe \<and> subseq got (drop start (take pos pipe)) \<and>
     (length pipe \<le> start + pipe_capacity \<longrightarrow> got = drop start (take pos pipe))"
| "in_order pipe (ConnLeaving start got) \<longleftrightarrow> sent_in_order pipe start got"
| "in_order pipe (ConnClosed start got) \<longleftrightarrow> sent_in_order pipe start got"
| "in_order pipe (ConnAccepted start) \<longleftrightarrow> start \<le> length pipe"
| "in_order pipe (ConnAdmitted start) \<longleftrightarrow> start \<le> length pipe"
| "in_order pipe ConnRejected = True"

definition ws_inv :: "'m web_socket_publisher \<Rightarrow> bool" where
  "ws_inv p \<longleftrightarrow> wp_subs p = length (filter counted (wp_connections p)) \<and> list_all (in_order (wp_pipe p)) (wp_connections p)"

lemma count_update:
  assumes "i < length cs"
  shows "length (filter counted (cs[i := c])) + (if counted (cs ! i) then 1 else 0) = length (filter counted cs) + (if counted c then 1 else 0)"
  using assms
proof (induction cs arbitrary: i)
  case (Cons x cs)
  then show ?case by (cases i) auto
qed simp

lemma in_order_publish: "in_order pipe c \<Longrightarrow> in_order (pipe @ [m]) c"
  by (cases c) (auto simp: list_emb_prefix sent_in_order_def)

lemma ws_inv_update:
  assumes "ws_inv p" "i < length (wp_connections p)" "in_order (wp_pipe p) c"
    and "n + (if counted (wp_connections p ! i) then 1 else 0) = wp_subs p + (if counted c then 1 else 0)"
  shows "ws_inv ((set_connection i c p)\<lparr>wp_subs := n\<rparr>)"
proof -
  have "n = length (filter counted ((wp_connections p)[i := c]))"
    using count_update [OF assms(2), of c] assms(1,4) by (auto simp: ws_inv_def split: if_splits)
  moreover have "list_all (in_order (wp_pipe p)) ((wp_connections p)[i := c])"
    using assms(1,3) by (auto simp: ws_inv_def list_all_iff dest!: set_update_subset_insert [THEN subsetD])
  ultimately show ?thesis by (simp add: ws_inv_def set_connection_def)
qed

lemma ws_inv_keep:
  assumes "ws_inv p" "i < length (wp_connections p)" "in_order (wp_pipe p) c" "counted (wp_connections p ! i) = counted c"
  shows "ws_inv (set_connection i c p)"
  using ws_inv_update [OF assms(1-3), of "wp_subs p"] assms(4) by (simp add: ws_inv_def set_connection_def)

lemma subseq_until_next:
  assumes "subseq got (drop start (take pos pipe))" "start \<le> pos" "pos < length pipe"
  shows "subseq (got @ [pipe ! pos]) (drop start (take (Suc pos) pipe))"
  using list_emb_append_mono [OF assms(1), of "[pipe ! pos]" "[pipe ! pos]"] assms(2,3) by (simp add: take_Suc_conv_app_nth)

lemma subseq_until_mono: "subseq got (drop start (take pos pipe)) \<Longrightarrow> pos \<le> pos' \<Longrightarrow> subseq got (drop start (take pos' pipe))"
proof -
  assume "subseq got (drop start (take pos pipe))" "pos \<le> pos'"
  moreover from this have "prefix (take pos pipe) (take pos' pipe)" by (metis take_is_prefix min.absorb1 take_take)
  then obtain zs where "take pos' pipe = take pos pipe @ zs" by (auto simp: prefix_def)
  ultimately show ?thesis by (simp add: list_emb_prefix)
qed

lemma open_sent_in_order: "in_order pipe (ConnOpen start pos got) \<Longrightarrow> sent_in_order pipe start got"
proof -
  assume o: "in_order pipe (ConnOpen start pos got)"
  have "prefix (drop start (take pos pipe)) (drop start pipe)" by (simp add: drop_take take_is_prefix)
  with o subseq_until_mono [of got start pos pipe "length pipe"] show ?thesis by (auto simp: sent_in_order_def)
qed

lemma ws_inv_step:
  assumes "ws_step p p'" "ws_inv p"
  shows "ws_inv p'"
  using assms(1)
proof (cases rule: ws_step.cases)
  case (ws_publish m)
  with assms(2) show ?thesis by (cases m) (auto simp: ws_publish_def ws_inv_def list_all_iff in_order_publish)
next
  case (ws_accept)
  with assms(2) show ?thesis by (simp add: listener_accept_def ws_inv_def)
next
  case (ws_check i start)
  have "in_order (wp_pipe p) (ConnAccepted start)" using assms(2) ws_check(2,3) unfolding ws_inv_def list_all_length by metis
  then show ?thesis unfolding ws_check(1) check_limit_def using ws_check(2,3) by (simp add: ws_inv_keep [OF assms(2)])
next
  case (ws_count i start)
  have "in_order (wp_pipe p) (ConnAdmitted start)" using assms(2) ws_count(2,3) unfolding ws_inv_def list_all_length by metis
  then show ?thesis unfolding ws_count(1) count_connection_def using ws_count(2,3) by (intro ws_inv_update [OF assms(2)]) simp_all
next
  case (ws_send i start pos got send_ok)
  let ?p = "p\<lparr>wp_sent := Suc (wp_sent p)\<rparr>"
  have inv: "ws_inv ?p" using assms(2) by (simp add: ws_inv_def)
  have o: "in_order (wp_pipe p) (ConnOpen start pos got)" using assms(2) ws_send(2,3) unfolding ws_inv_def list_all_length by metis
  have "in_order (wp_pipe p) (ConnOpen start (Suc pos) (got @ [wp_pipe p ! pos]))"
    using o subseq_until_next [of got start pos "wp_pipe p"] ws_send(4) by (auto simp: take_Suc_conv_app_nth)
  with open_sent_in_order [OF o] ws_send(2,3) show ?thesis
    unfolding ws_send(1) broadcast_payload_def Let_def by (auto intro!: ws_inv_keep [OF inv])
next
  case (ws_lagged i start pos got oldest)
  have o: "in_order (wp_pipe p) (ConnOpen start pos got)" using assms(2) ws_lagged(2,3) unfolding ws_inv_def list_all_length by metis
  have "pos \<le> oldest" "start \<le> pos" "oldest \<le> length (wp_pipe p)" "start + pipe_capacity < length (wp_pipe p)" using ws_lagged(4,5) o by auto
  with o subseq_until_mono [of got start pos "wp_pipe p" oldest]
  show ?thesis unfolding ws_lagged(1) using ws_lagged(2,3) by (intro ws_inv_keep [OF assms(2)]) simp_all
next
  case (ws_leave i start pos got)
  have o: "in_order (wp_pipe p) (ConnOpen start pos got)" using assms(2) ws_leave(2,3) unfolding ws_inv_def list_all_length by metis
  from open_sent_in_order [OF this] show ?thesis unfolding ws_leave(1) using ws_leave(2,3) by (intro ws_inv_keep [OF assms(2)]) simp_all
next
  case (ws_uncount i start got)
  have o: "in_order (wp_pipe p) (ConnLeaving start got)" using assms(2) ws_uncount(2,3) unfolding ws_inv_def list_all_length by metis
  have "counted (wp_connections p ! i)" "wp_subs p = length (filter counted (wp_connections p))"
    using ws_uncount(3) assms(2) by (simp_all add: ws_inv_def)
  moreover from this(1) ws_uncount(2) have "filter counted (wp_connections p) \<noteq> []" by (auto simp: filter_empty_conv dest: nth_mem)
  ultimately have "0 < wp_subs p" by (simp add: length_greater_0_conv)
  then show ?thesis unfolding ws_uncount(1) using ws_uncount(2,3) o by (intro ws_inv_update [OF assms(2)]) simp_all
qed (use assms(2) in \<open>simp add: ws_drop_def ws_inv_def\<close>)

interpretation ws: step_invariant ws_step ws_inv
  by unfold_locales (rule ws_inv_step)

lemma ws_inv_reachable: "ws_reachable limit p \<Longrightarrow> ws_inv p"
  by (erule ws.inv_steps) (simp add: web_socket_publisher_new_def ws_inv_def)

text \<open>
  C25. Every websocket subscriber sees the flashblocks published after it connected, in order and none
  twice, and it misses none before the channel has overflowed. Whatever the interleaving of publishing
  and of the tasks of the connections, what was sent to a client is a subsequence of what was published
  from its start on, and a gapless prefix of it while no more messages than the channel keeps have been
  published since; the counter of subscribers is exactly the number of connections in their loop.
\<close>

theorem subscribers_see_published_in_order:
  assumes "ws_reachable limit p" "c \<in> set (wp_connections p)" "was_sent c = Some (start, got)"
  shows "subseq got (drop start (wp_pipe p)) \<and> (length (wp_pipe p) \<le> start + pipe_capacity \<longrightarrow> prefix got (drop start (wp_pipe p))) \<and>
    wp_subs p = length (filter counted (wp_connections p))"
proof -
  have inv: "ws_inv p" by (rule ws_inv_reachable [OF assms(1)])
  then have "in_order (wp_pipe p) c" using assms(2) by (simp add: ws_inv_def list_all_iff)
  with assms(3) have "sent_in_order (wp_pipe p) start got" by (cases c) (auto simp del: in_order.simps(1) dest: open_sent_in_order)
  with inv show ?thesis by (simp add: ws_inv_def sent_in_order_def)
qed

text \<open>
  The limit on subscribers can be passed: the check and the count of a connection are two steps of
  a task of its own, so any number of connections can be checked before one is counted. For every
  positive limit there is a run after which more clients than the limit are in their loop.
\<close>

lemma subscriber_limit_can_be_passed:
  assumes "0 < limit"
  shows "\<exists>p :: 'm web_socket_publisher. ws_reachable (Some limit) p \<and> limit < length (filter counted (wp_connections p))"
proof -
  let ?q = "\<lambda>cs n. (web_socket_publisher_new (Some limit) :: 'm web_socket_publisher)\<lparr>wp_connections := cs, wp_subs := n\<rparr>"
  have admitted: "ws_reachable (Some limit) (?q (replicate n (ConnAdmitted 0)) 0)" for n
  proof (induction n)
    case (Suc n)
    let ?a = "?q (replicate n (ConnAdmitted 0) @ [ConnAccepted 0]) 0"
    have "ws_step (?q (replicate n (ConnAdmitted 0)) 0) ?a"
      using ws_accept [of "?q (replicate n (ConnAdmitted 0)) 0"] by (simp add: listener_accept_def web_socket_publisher_new_def)
    moreover have "ws_step ?a (?q (replicate (Suc n) (ConnAdmitted 0)) 0)"
      using ws_check [of n ?a 0] assms
      by (simp add: check_limit_def set_connection_def web_socket_publisher_new_def nth_append list_update_append replicate_append_same [symmetric])
    ultimately show ?case using Suc by (meson rtranclp.rtrancl_into_rtrancl)
  qed (simp add: web_socket_publisher_new_def)
  have "ws_reachable (Some limit) (?q (replicate k (ConnOpen 0 0 []) @ replicate n (ConnAdmitted 0)) k)" for k n
  proof (induction k arbitrary: n)
    case (Suc k)
    let ?a = "?q (replicate k (ConnOpen 0 0 []) @ replicate (Suc n) (ConnAdmitted 0)) k"
    have "ws_step ?a (?q (replicate (Suc k) (ConnOpen 0 0 []) @ replicate n (ConnAdmitted 0)) (Suc k))"
      using ws_count [of k ?a 0]
      by (simp add: count_connection_def set_connection_def web_socket_publisher_new_def nth_append list_update_append replicate_app_Cons_same)
    with Suc [of "Suc n"] show ?case by (meson rtranclp.rtrancl_into_rtrancl)
  qed (use admitted in simp)
  from this [of "Suc limit" 0] show ?thesis by (intro exI [of _ "?q (replicate (Suc limit) (ConnOpen 0 0 [])) (Suc limit)"]) (simp add: filter_replicate)
qed

section \<open>The relay\<close>

datatype 'f rx_event = RxFlashblock 'f | RxLagged nat | RxClosed

text \<open>
  The flashblocks handed to the publisher: any error of the receiver, lagging included, ends the task.
  A failing publish is only logged.
\<close>

fun relay_publish :: "'f rx_event list \<Rightarrow> 'f list" where
  "relay_publish [] = []"
| "relay_publish (RxFlashblock f # evs) = f # relay_publish evs"
| "relay_publish (_ # evs) = []"

text \<open>
  The persistence task: the cache, whether it changed since the last flush, and the files. A tick
  comes with the outcome of writing and renaming the file at that time.
\<close>

datatype ('raw, 'b) persistence_event = PersistReceive "'raw flashblock_payload rx_event" | PersistTick "'b write_outcome" bool

record ('raw, 'b) persistence =
  pe_cache :: "'raw payloads_cache"
  pe_dirty :: bool
  pe_files :: "'b files"

definition flush :: "('raw payloads_sequence \<Rightarrow> 'b option) \<Rightarrow> 'b write_outcome \<Rightarrow> bool \<Rightarrow> ('raw, 'b) persistence \<Rightarrow> ('raw, 'b) persistence" where
  "flush to_vec write_out rename_ok s =
     (if pe_dirty s then s\<lparr>pe_files := snd (persist to_vec write_out rename_ok (pe_cache s) (pe_files s)), pe_dirty := False\<rparr> else s)"

text \<open>The loop, and the last flush when it ends; events after an error of the receiver are not read.\<close>

fun persistence_loop :: "('raw payloads_sequence \<Rightarrow> 'b option) \<Rightarrow> ('raw, 'b) persistence_event list \<Rightarrow> ('raw, 'b) persistence \<Rightarrow> ('raw, 'b) persistence" where
  "persistence_loop to_vec [] s = s"
| "persistence_loop to_vec (PersistReceive (RxFlashblock f) # evs) s =
     persistence_loop to_vec evs (s\<lparr>pe_cache := add_flashblock_payload f (pe_cache s), pe_dirty := True\<rparr>)"
| "persistence_loop to_vec (PersistTick write_out rename_ok # evs) s = persistence_loop to_vec evs (flush to_vec write_out rename_ok s)"
| "persistence_loop to_vec (PersistReceive _ # evs) s = s"

definition handle_persistence :: "('raw payloads_sequence \<Rightarrow> 'b option) \<Rightarrow> ('b \<Rightarrow> 'raw payloads_sequence option) \<Rightarrow> bool \<Rightarrow> ('raw, 'b) persistence_event list
    \<Rightarrow> 'b write_outcome \<Rightarrow> bool \<Rightarrow> 'b files \<Rightarrow> ('raw, 'b) persistence" where
  "handle_persistence to_vec from_slice created evs write_out rename_ok fs =
     flush to_vec write_out rename_ok
       (persistence_loop to_vec evs \<lparr>pe_cache = payloads_cache_new from_slice (Some created) fs, pe_dirty = False, pe_files = fs\<rparr>)"

fun persisted_fbs :: "('raw, 'b) persistence_event list \<Rightarrow> 'raw flashblock_payload list" where
  "persisted_fbs [] = []"
| "persisted_fbs (PersistReceive (RxFlashblock f) # evs) = f # persisted_fbs evs"
| "persisted_fbs (PersistTick _ _ # evs) = persisted_fbs evs"
| "persisted_fbs (PersistReceive _ # evs) = []"

fun tick_ok :: "('raw, 'b) persistence_event \<Rightarrow> bool" where
  "tick_ok (PersistTick write_out rename_ok) \<longleftrightarrow> write_out = WriteOk \<and> rename_ok"
| "tick_ok _ = True"

text \<open>Without a pending change, the file is what the cache would be read from.\<close>

definition on_disk :: "('b \<Rightarrow> 'raw payloads_sequence option) \<Rightarrow> ('raw, 'b) persistence \<Rightarrow> bool" where
  "on_disk from_slice s \<longleftrightarrow> try_load_from_filepath from_slice (pc_persist_path (pe_cache s)) (pe_files s) = pc_inner (pe_cache s)"

lemma add_path [simp]: "pc_persist_path (add_flashblock_payload f c) = pc_persist_path c"
  by (simp add: add_flashblock_payload_def Let_def)

lemma flush_on_disk:
  assumes "\<And>sq. \<exists>data. to_vec sq = Some data \<and> from_slice data = Some sq" "pc_persist_path (pe_cache s) = Some path"
    and "\<not> pe_dirty s \<Longrightarrow> on_disk from_slice s" "pe_dirty s \<Longrightarrow> pc_inner (pe_cache s) \<noteq> None"
  shows "on_disk from_slice (flush to_vec WriteOk True s)"
proof (cases "pe_dirty s")
  case True
  then obtain sq where sq: "pc_inner (pe_cache s) = Some sq" using assms(4) by auto
  obtain data where d: "to_vec sq = Some data" "from_slice data = Some sq" using assms(1) by blast
  have "CHR ''.'' # path \<noteq> path" by (metis not_Cons_self)
  with True sq d assms(2) show ?thesis by (simp add: flush_def persist_def on_disk_def try_load_from_filepath_def Let_def)
qed (use assms(3) in \<open>simp add: flush_def\<close>)

definition persist_inv :: "('b \<Rightarrow> 'raw payloads_sequence option) \<Rightarrow> string \<Rightarrow> ('raw, 'b) persistence \<Rightarrow> bool" where
  "persist_inv from_slice path s \<longleftrightarrow> pc_persist_path (pe_cache s) = Some path \<and> (pe_dirty s \<or> on_disk from_slice s) \<and>
     (\<not> pe_dirty s \<or> pc_inner (pe_cache s) \<noteq> None)"

lemma persist_inv_flush:
  assumes "\<And>sq. \<exists>data. to_vec sq = Some data \<and> from_slice data = Some sq" "persist_inv from_slice path s"
  shows "persist_inv from_slice path (flush to_vec WriteOk True s) \<and> on_disk from_slice (flush to_vec WriteOk True s)"
proof -
  have "on_disk from_slice (flush to_vec WriteOk True s)" by (rule flush_on_disk [OF assms(1)]) (use assms(2) in \<open>auto simp: persist_inv_def\<close>)
  moreover have "pc_persist_path (pe_cache (flush to_vec WriteOk True s)) = Some path" "\<not> pe_dirty (flush to_vec WriteOk True s)"
    using assms(2) by (simp_all add: flush_def persist_inv_def)
  ultimately show ?thesis by (simp add: persist_inv_def)
qed

lemma flush_cache [simp]: "pe_cache (flush to_vec wo r s) = pe_cache s"
  by (simp add: flush_def)

lemma persistence_loop_inv:
  assumes "\<And>sq. \<exists>data. to_vec sq = Some data \<and> from_slice data = Some sq" "persist_inv from_slice path s" "list_all tick_ok evs"
  shows "persist_inv from_slice path (persistence_loop to_vec evs s) \<and>
    pe_cache (persistence_loop to_vec evs s) = fold add_flashblock_payload (persisted_fbs evs) (pe_cache s)"
  using assms(2,3)
proof (induction evs arbitrary: s rule: persisted_fbs.induct)
  case (2 f evs)
  have "persist_inv from_slice path (s\<lparr>pe_cache := add_flashblock_payload f (pe_cache s), pe_dirty := True\<rparr>)"
    using "2.prems"(1) by (simp add: persist_inv_def add_flashblock_payload_def Let_def)
  from "2.IH" [OF this] "2.prems"(2) show ?case by simp
next
  case (3 wo r evs)
  then have "wo = WriteOk" "r" by simp_all
  with "3.IH" [of "flush to_vec wo r s"] persist_inv_flush [OF assms(1) "3.prems"(1)] "3.prems"(2) show ?case by simp
qed simp_all

text \<open>
  C26. A node that restarts finds the flashblocks it had received. When the persistence task has ended
  and its writes succeeded, a cache that is made from the files holds the same sequence as the cache of
  the task did: what was on disk before, with the flashblocks received until the end added in order.
  Assumed is that a sequence can be serialised and read back.
\<close>

theorem persistence_survives_restart:
  assumes "\<And>sq. \<exists>data. to_vec sq = Some data \<and> from_slice data = Some sq" "list_all tick_ok evs"
  shows "payloads_cache_new from_slice (Some True) (pe_files (handle_persistence to_vec from_slice True evs WriteOk True fs)) =
    fold add_flashblock_payload (persisted_fbs evs) (payloads_cache_new from_slice (Some True) fs)"
proof -
  let ?start = "\<lparr>pe_cache = payloads_cache_new from_slice (Some True) fs, pe_dirty = False, pe_files = fs\<rparr>"
  let ?s = "handle_persistence to_vec from_slice True evs WriteOk True fs"
  have "persist_inv from_slice pending_sequence_file ?start"
    by (simp add: persist_inv_def on_disk_def payloads_cache_new_def init_pending_sequence_path_def Let_def)
  note loop = persistence_loop_inv [OF assms(1) this assms(2)]
  have fin: "persist_inv from_slice pending_sequence_file ?s" "on_disk from_slice ?s"
    unfolding handle_persistence_def using persist_inv_flush [OF assms(1) conjunct1 [OF loop]] by blast+
  have c: "pe_cache ?s = fold add_flashblock_payload (persisted_fbs evs) (payloads_cache_new from_slice (Some True) fs)"
    using loop by (simp add: handle_persistence_def)
  have "payloads_cache_new from_slice (Some True) (pe_files ?s) = pe_cache ?s"
    using fin unfolding persist_inv_def on_disk_def
    by (cases "pe_cache ?s") (simp add: payloads_cache_new_def init_pending_sequence_path_def)
  with c show ?thesis by simp
qed

section \<open>The transaction count over flashblocks\<close>

datatype 'i flashblocks_block_id = BlockStandard 'i | BlockFlashblocks

text \<open>The exact string selects the flashblocks; everything else is left to the standard decoder.\<close>

definition decode_flashblocks_block_id :: "('j \<Rightarrow> string option) \<Rightarrow> ('j \<Rightarrow> 'i option) \<Rightarrow> 'j \<Rightarrow> 'i flashblocks_block_id option" where
  "decode_flashblocks_block_id as_string standard v =
     (if as_string v = Some ''flashblocks'' then Some BlockFlashblocks else map_option BlockStandard (standard v))"

record ('i, 'p, 'h) eth_api =
  eth_pending_flashblock :: "string + 'p option"
  eth_parent_hash :: "'p \<Rightarrow> b256"
  eth_history_by_block_hash :: "b256 \<Rightarrow> string + 'h"
  eth_account_nonce :: "'p \<Rightarrow> 'h \<Rightarrow> address \<Rightarrow> string + nat option"
  eth_transaction_count :: "address \<Rightarrow> 'i option \<Rightarrow> string + nat"
  eth_latest :: 'i

definition transaction_count :: "('i, 'p, 'h) eth_api \<Rightarrow> address \<Rightarrow> 'i flashblocks_block_id option \<Rightarrow> string + nat" where
  "transaction_count api a block = (case block of
       Some BlockFlashblocks \<Rightarrow>
         (case eth_pending_flashblock api of
            Inl e \<Rightarrow> Inl e
          | Inr (Some pending) \<Rightarrow>
              (case eth_history_by_block_hash api (eth_parent_hash api pending) of
                 Inl e \<Rightarrow> Inl e
               | Inr latest_historical \<Rightarrow>
                   (case eth_account_nonce api pending latest_historical a of
                      Inl e \<Rightarrow> Inl e
                    | Inr nonce \<Rightarrow> Inr (case nonce of Some n \<Rightarrow> n | None \<Rightarrow> 0)))
          | Inr None \<Rightarrow> eth_transaction_count api a (Some (eth_latest api)))
     | Some (BlockStandard i) \<Rightarrow> eth_transaction_count api a (Some i)
     | None \<Rightarrow> eth_transaction_count api a None)"

text \<open>
  The answer for the flashblocks tag never includes transactions that are only in the pool: it does
  not depend on what the node answers for any block but the latest, while every other parameter is
  passed on unchanged.
\<close>

lemma transaction_count_without_pool:
  assumes "eth_transaction_count api a (Some (eth_latest api)) = other a (Some (eth_latest api))"
  shows "transaction_count (api\<lparr>eth_transaction_count := other\<rparr>) a (Some BlockFlashblocks) = transaction_count api a (Some BlockFlashblocks)"
    and "transaction_count api a (Some (BlockStandard i)) = eth_transaction_count api a (Some i)"
  using assms by (auto simp: transaction_count_def split: sum.split option.split)

section \<open>An instance\<close>

definition sample_fb :: "nat \<Rightarrow> nat flashblock_payload" where
  "sample_fb i = \<lparr>fp_payload_id = 9, fp_index = i, fp_parent_hash = (if i = 0 then Some 77 else None), fp_transactions = [i]\<rparr>"

definition sample_persist_events :: "(nat, nat payloads_sequence) persistence_event list" where
  "sample_persist_events = [PersistReceive (RxFlashblock (sample_fb 0)), PersistTick WriteOk True, PersistReceive (RxFlashblock (sample_fb 1)),
     PersistReceive (RxLagged 3), PersistReceive (RxFlashblock (sample_fb 2))]"

theorem persistence_survives_restart_witness:
  "pc_inner (payloads_cache_new Some (Some True) (pe_files (handle_persistence Some Some True sample_persist_events WriteOk True (\<lambda>_. None)))) =
     Some \<lparr>ps_payload_id = 9, ps_parent_hash = Some 77, ps_payloads = [sample_fb 0, sample_fb 1]\<rparr>"
proof -
  have "\<exists>data. Some sq = Some data \<and> Some data = Some sq" for sq :: "nat payloads_sequence" by simp
  from persistence_survives_restart [where to_vec = Some and from_slice = Some, OF this, of sample_persist_events "\<lambda>_. None"] show ?thesis
    by (simp add: sample_persist_events_def payloads_cache_new_def try_load_from_filepath_def add_flashblock_payload_def sample_fb_def Let_def
        init_pending_sequence_path_def)
qed

text \<open>One client, and one flashblock published and sent to it.\<close>

definition sample_ws :: "nat web_socket_publisher" where
  "sample_ws = \<lparr>wp_sent = 1, wp_subs = 1, wp_term = False, wp_pipe = [5], wp_subscriber_limit = Some 1, wp_connections = [ConnOpen 0 1 [5]]\<rparr>"

lemma sample_ws_reachable: "ws_reachable (Some 1) sample_ws"
proof -
  let ?q = "\<lambda>n pipe cs. (web_socket_publisher_new (Some 1) :: nat web_socket_publisher)\<lparr>wp_connections := cs, wp_pipe := pipe, wp_subs := n\<rparr>"
  have "ws_step (web_socket_publisher_new (Some 1)) (?q 0 [] [ConnAccepted 0])"
    using ws_accept [of "web_socket_publisher_new (Some 1)"] by (simp add: listener_accept_def web_socket_publisher_new_def)
  moreover have "ws_step (?q 0 [] [ConnAccepted 0]) (?q 0 [] [ConnAdmitted 0])"
    using ws_check [of 0 "?q 0 [] [ConnAccepted 0]" 0] by (simp add: check_limit_def set_connection_def web_socket_publisher_new_def)
  moreover have "ws_step (?q 0 [] [ConnAdmitted 0]) (?q 1 [] [ConnOpen 0 0 []])"
    using ws_count [of 0 "?q 0 [] [ConnAdmitted 0]" 0] by (simp add: count_connection_def set_connection_def web_socket_publisher_new_def)
  moreover have "ws_step (?q 1 [] [ConnOpen 0 0 []]) (?q 1 [5] [ConnOpen 0 0 []])"
    using ws_step.ws_publish [of "?q 1 [] [ConnOpen 0 0 []]" "Some 5"] by (simp add: ws_publish_def web_socket_publisher_new_def)
  moreover have "ws_step (?q 1 [5] [ConnOpen 0 0 []]) sample_ws"
    using ws_send [of 0 "?q 1 [5] [ConnOpen 0 0 []]" 0 0 "[]" True]
    by (simp add: broadcast_payload_def set_connection_def web_socket_publisher_new_def sample_ws_def pipe_capacity_def)
  ultimately show ?thesis by (meson rtranclp.rtrancl_into_rtrancl rtranclp.rtrancl_refl)
qed

theorem subscribers_see_published_in_order_witness:
  "ConnOpen 0 1 [5] \<in> set (wp_connections sample_ws) \<and> prefix [5] (drop 0 (wp_pipe sample_ws)) \<and> wp_subs sample_ws = 1"
  using subscribers_see_published_in_order [OF sample_ws_reachable, of "ConnOpen 0 1 [5]" 0 "[5]"] by (simp add: sample_ws_def pipe_capacity_def)

lemma subscriber_limit_can_be_passed_witness:
  "\<exists>p :: nat web_socket_publisher. ws_reachable (Some 3) p \<and> 3 < length (filter counted (wp_connections p))"
  using subscriber_limit_can_be_passed [of 3] by simp

end
