(* ===== verification/Submit_Batch.thy ===== *)
theory Submit_Batch
  imports Filter_Worker
begin

text \<open>
  A whole batch of submissions (\<open>submit_once\<close>, \<open>run_normal_segment\<close>, \<open>execute_group\<close> and \<open>submit_group\<close> of
  \<open>crates/rcs-filter/src/submit.rs\<close>): the segments of the schedule run one after the other, the groups of a
  segment concurrently, and other threads change the filter between any two critical sections.
\<close>

section \<open>State\<close>

record submit_batch_stats =
  bst_current_in_flight :: nat
  bst_max_in_flight :: nat

definition stats_enter :: "submit_batch_stats \<Rightarrow> submit_batch_stats" where
  "stats_enter st = (let current = bst_current_in_flight st + 1 in
     \<lparr>bst_current_in_flight = current, bst_max_in_flight = max (bst_max_in_flight st) current\<rparr>)"

definition stats_leave :: "submit_batch_stats \<Rightarrow> submit_batch_stats" where
  "stats_leave st = st\<lparr>bst_current_in_flight := bst_current_in_flight st - 1\<rparr>"

text \<open>Where a group is: not begun, waiting for the answer to its request, or with a result.\<close>

datatype group_phase = GBegin | GInFlight submit_request "(b256, u64) hmap" | GResult "filter_error + unit"

text \<open>
  A segment that runs, with the phases of the groups that are active. An exclusive group runs alone;
  it is the group with index 0 of its segment.
\<close>

datatype running =
    RunNormal "submit_node list" segment_state "nat \<Rightarrow> group_phase option"
  | RunExclusive submit_group group_phase

text \<open>The last field is the history of the batch: the groups for which \<open>submit_group\<close> was called, in that order.\<close>

record batch =
  ba_done :: "execution_segment list"
  ba_current :: "running option"
  ba_segments :: "execution_segment list"
  ba_errors :: "(nat \<times> filter_error) list"
  ba_stats :: submit_batch_stats
  ba_begun :: "submit_group list"

fun running_segment :: "running \<Rightarrow> execution_segment" where
  "running_segment (RunNormal nodes _ _) = Normal nodes"
| "running_segment (RunExclusive g _) = Exclusive g"

fun running_group :: "running \<Rightarrow> nat \<Rightarrow> submit_group option" where
  "running_group (RunNormal nodes _ _) i = (if i < length nodes then sn_group (nodes ! i) else None)"
| "running_group (RunExclusive g _) i = (if i = 0 then Some g else None)"

fun phase_of :: "running \<Rightarrow> nat \<Rightarrow> group_phase option" where
  "phase_of (RunNormal _ _ ph) i = ph i"
| "phase_of (RunExclusive _ p) i = (if i = 0 then Some p else None)"

fun set_phase :: "nat \<Rightarrow> group_phase \<Rightarrow> running \<Rightarrow> running" where
  "set_phase i p (RunNormal nodes st ph) = RunNormal nodes st (ph(i \<mapsto> p))"
| "set_phase i p (RunExclusive g _) = RunExclusive g p"

text \<open>The groups that are started and have no phase yet are begun.\<close>

definition started_phases :: "segment_state \<Rightarrow> (nat \<Rightarrow> group_phase option) \<Rightarrow> nat \<Rightarrow> group_phase option" where
  "started_phases st ph i = (if i \<in> set (sx_active st) then Some (case ph i of Some p \<Rightarrow> p | None \<Rightarrow> GBegin) else None)"

section \<open>Operations\<close>

fun begin_segment :: "nat \<Rightarrow> execution_segment \<Rightarrow> running option" where
  "begin_segment m (Normal nodes) = map_option (\<lambda>st. RunNormal nodes st (started_phases st (\<lambda>_. None))) (segment_start m nodes)"
| "begin_segment m (Exclusive g) = Some (RunExclusive g GBegin)"

text \<open>\<open>submit_group\<close> up to its request, and from the answer on.\<close>

definition group_begin :: "nat \<Rightarrow> nat \<Rightarrow> submit_group \<Rightarrow> running \<Rightarrow> submit_batch_stats \<Rightarrow> shared \<Rightarrow> running \<times> submit_batch_stats \<times> shared" where
  "group_begin now i g r stats sh = (case submit_group_begin now g sh of
       (None, sh') \<Rightarrow> (set_phase i (GResult (Inr ())) r, stats, sh')
     | (Some (req, expected), sh') \<Rightarrow> (set_phase i (GInFlight req expected) r, stats_enter stats, sh'))"

definition group_answer :: "ext \<Rightarrow> nat \<Rightarrow> nat \<Rightarrow> (b256, u64) hmap \<Rightarrow> filter_error + submit_response \<Rightarrow> running \<Rightarrow> submit_batch_stats \<Rightarrow> shared
    \<Rightarrow> running \<times> submit_batch_stats \<times> shared" where
  "group_answer E now i expected answer r stats sh = (case submit_group_finish E now expected answer sh of
       (result, sh') \<Rightarrow> (set_phase i (GResult result) r, stats_leave stats, sh'))"

definition batch_new :: "execution_segment list \<Rightarrow> batch" where
  "batch_new schedule = \<lparr>ba_done = [], ba_current = None, ba_segments = schedule, ba_errors = [],
     ba_stats = \<lparr>bst_current_in_flight = 0, bst_max_in_flight = 0\<rparr>, ba_begun = []\<rparr>"

definition batch_start :: "ext \<Rightarrow> nat \<Rightarrow> shared \<Rightarrow> batch \<times> shared" where
  "batch_start E now sh = (case submit_collect E now sh of (schedule, sh') \<Rightarrow> (batch_new schedule, sh'))"

definition batch_finished :: "batch \<Rightarrow> bool" where
  "batch_finished b \<longleftrightarrow> ba_current b = None \<and> ba_segments b = []"

definition end_segment :: "(nat \<times> filter_error) list \<Rightarrow> batch \<Rightarrow> batch" where
  "end_segment errors b = b\<lparr>ba_done := ba_done b @ (case ba_current b of Some r \<Rightarrow> [running_segment r] | None \<Rightarrow> []),
     ba_current := None, ba_errors := ba_errors b @ errors\<rparr>"

text \<open>One step of the task that submits; answers and times are arbitrary.\<close>

inductive batch_work :: "ext \<Rightarrow> nat \<Rightarrow> batch \<times> shared \<Rightarrow> batch \<times> shared \<Rightarrow> bool" for E m where
  bw_segment: "ba_current b = None \<Longrightarrow> ba_segments b = seg # segs \<Longrightarrow> begin_segment m seg = Some r \<Longrightarrow>
    batch_work E m (b, s) (b\<lparr>ba_current := Some r, ba_segments := segs\<rparr>, s)"
| bw_begin: "ba_current b = Some r \<Longrightarrow> running_group r i = Some g \<Longrightarrow> phase_of r i = Some GBegin \<Longrightarrow>
    group_begin now i g r (ba_stats b) s = (r', stats, s') \<Longrightarrow>
    batch_work E m (b, s) (b\<lparr>ba_current := Some r', ba_stats := stats, ba_begun := ba_begun b @ [g]\<rparr>, s')"
| bw_answer: "ba_current b = Some r \<Longrightarrow> phase_of r i = Some (GInFlight req expected) \<Longrightarrow>
    group_answer E now i expected answer r (ba_stats b) s = (r', stats, s') \<Longrightarrow>
    batch_work E m (b, s) (b\<lparr>ba_current := Some r', ba_stats := stats\<rparr>, s')"
| bw_complete: "ba_current b = Some (RunNormal nodes st ph) \<Longrightarrow> i \<in> set (sx_active st) \<Longrightarrow> ph i = Some (GResult result) \<Longrightarrow>
    segment_complete m i (sg_block_height (the (sn_group (nodes ! i)))) result st = Some st' \<Longrightarrow>
    batch_work E m (b, s) (b\<lparr>ba_current := Some (RunNormal nodes st' (started_phases st' (ph(i := None))))\<rparr>, s)"
| bw_segment_end: "ba_current b = Some (RunNormal nodes st ph) \<Longrightarrow> sx_active st = [] \<Longrightarrow>
    batch_work E m (b, s) (end_segment (sx_errors st) b, s)"
| bw_exclusive_end: "ba_current b = Some (RunExclusive g (GResult result)) \<Longrightarrow>
    batch_work E m (b, s) (end_segment (case result of Inl e \<Rightarrow> [(sg_block_height g, e)] | Inr _ \<Rightarrow> []) b, s)"

text \<open>Between them, the filter changes by its other operations.\<close>

inductive batch_step :: "ext \<Rightarrow> nat \<Rightarrow> batch \<times> shared \<Rightarrow> batch \<times> shared \<Rightarrow> bool" for E m where
  bs_work: "batch_work E m x y \<Longrightarrow> batch_step E m x y"
| bs_env: "filter_step E s s' \<Longrightarrow> batch_step E m (b, s) (b, s')"

definition batch_reach :: "ext \<Rightarrow> nat \<Rightarrow> submit_group list \<Rightarrow> batch \<times> shared \<Rightarrow> bool" where
  "batch_reach E m groups x \<longleftrightarrow> (\<exists>s. (batch_step E m)\<^sup>*\<^sup>* (batch_new (build_submit_schedule groups), s) x)"

text \<open>What the batch reports when it is finished.\<close>

definition submit_once_result :: "batch \<Rightarrow> filter_error + unit" where
  "submit_once_result b = submit_outcome (ba_errors b)"

section \<open>Invariant\<close>

definition flights :: "running \<Rightarrow> nat set" where
  "flights r = {i. \<exists>req expected. phase_of r i = Some (GInFlight req expected)}"

text \<open>
  A segment that runs is in a state its schedule reaches; exactly its active groups have a phase, at most
  as many as may run at once; the counter counts the requests that wait for their answers.
\<close>

definition running_inv :: "nat \<Rightarrow> running \<Rightarrow> nat \<Rightarrow> bool" where
  "running_inv m r current \<longleftrightarrow> finite (dom (phase_of r)) \<and> card (dom (phase_of r)) \<le> m \<and> current = card (flights r) \<and>
     (\<forall>i req expected. phase_of r i = Some (GInFlight req expected) \<longrightarrow> distinct (map fst expected)) \<and>
     (case r of
        RunNormal nodes st ph \<Rightarrow> segment_separated (Normal nodes) \<and> segment_reach m nodes st \<and> dom ph = set (sx_active st)
      | RunExclusive g p \<Rightarrow> cp_exclusive (sg_profile g))"

definition submit_batch_inv :: "nat \<Rightarrow> execution_segment list \<Rightarrow> batch \<Rightarrow> bool" where
  "submit_batch_inv m schedule b \<longleftrightarrow>
     ba_done b @ (case ba_current b of Some r \<Rightarrow> [running_segment r] | None \<Rightarrow> []) @ ba_segments b = schedule \<and>
     (case ba_current b of
        None \<Rightarrow> bst_current_in_flight (ba_stats b) = 0
      | Some r \<Rightarrow> running_inv m r (bst_current_in_flight (ba_stats b))) \<and>
     bst_max_in_flight (ba_stats b) \<le> m"

lemma phase_set_phase: "phase_of r i \<noteq> None \<Longrightarrow> phase_of (set_phase i p r) = (phase_of r)(i \<mapsto> p)"
  by (cases r) (auto split: if_splits)

lemma running_segment_set_phase [simp]: "running_segment (set_phase i p r) = running_segment r"
  by (cases r) auto

lemma flights_set_phase:
  "phase_of r i \<noteq> None \<Longrightarrow> flights (set_phase i p r) = (case p of GInFlight _ _ \<Rightarrow> insert i (flights r) | _ \<Rightarrow> flights r - {i})"
  by (auto simp: flights_def phase_set_phase split: group_phase.split if_splits)

lemma flights_dom: "flights r \<subseteq> dom (phase_of r)"
  by (auto simp: flights_def)

lemma running_inv_flights: "running_inv m r current \<Longrightarrow> finite (flights r) \<and> current \<le> m"
  using flights_dom [of r] by (auto simp: running_inv_def intro: finite_subset) (meson card_mono le_trans)

lemma running_inv_set_phase:
  assumes "running_inv m r current" "phase_of r i \<noteq> None" "current' = card (flights (set_phase i p r))"
    and "\<And>req expected. p = GInFlight req expected \<Longrightarrow> distinct (map fst expected)"
  shows "running_inv m (set_phase i p r) current'"
proof -
  have "dom (phase_of (set_phase i p r)) = dom (phase_of r)" using assms(2) by (auto simp: phase_set_phase)
  moreover have "(case set_phase i p r of
        RunNormal nodes st ph \<Rightarrow> segment_separated (Normal nodes) \<and> segment_reach m nodes st \<and> dom ph = set (sx_active st)
      | RunExclusive g p \<Rightarrow> cp_exclusive (sg_profile g))"
    using assms(1,2) by (cases r) (auto simp: running_inv_def)
  ultimately show ?thesis using assms by (auto simp: running_inv_def phase_set_phase split: if_splits)
qed

lemma submit_group_begin_distinct: "submit_group_begin now g s = (Some (req, expected), s') \<Longrightarrow> distinct (map fst expected)"
proof -
  have "distinct (map fst acc) \<Longrightarrow> distinct (map fst (fold (\<lambda>en m. AList.update (se_hash en) (se_generation en) m) es acc))" for es acc
    by (induction es arbitrary: acc) (simp_all add: distinct_update)
  from this [of "[]"] show "submit_group_begin now g s = (Some (req, expected), s') \<Longrightarrow> distinct (map fst expected)"
    by (auto simp: submit_group_begin_def Let_def split: if_splits)
qed

lemma group_begin_ok:
  assumes "running_inv m r (bst_current_in_flight stats)" "bst_max_in_flight stats \<le> m" "phase_of r i = Some GBegin"
    and "group_begin now i g r stats s = (r', stats', s')"
  shows "running_inv m r' (bst_current_in_flight stats') \<and> bst_max_in_flight stats' \<le> m \<and> running_segment r' = running_segment r"
proof -
  obtain q where q: "submit_group_begin now g s = (q, s')" using assms(4) by (auto simp: group_begin_def split: prod.splits option.splits)
  have i: "i \<notin> flights r" "phase_of r i \<noteq> None" using assms(3) by (auto simp: flights_def)
  show ?thesis
  proof (cases q)
    case None
    with q assms(4) have "r' = set_phase i (GResult (Inr ())) r" "stats' = stats" by (auto simp: group_begin_def)
    with running_inv_set_phase [OF assms(1) i(2), of _ "GResult (Inr ())"] assms(1,2) i show ?thesis
      by (simp add: flights_set_phase running_inv_def)
  next
    case (Some x)
    obtain req expected where x: "x = (req, expected)" by (cases x)
    with Some q assms(4) have r': "r' = set_phase i (GInFlight req expected) r" "stats' = stats_enter stats" by (auto simp: group_begin_def)
    have inv: "running_inv m r' (bst_current_in_flight stats')"
      unfolding r' using submit_group_begin_distinct q Some x assms(1) i
      by (intro running_inv_set_phase [OF assms(1)])
        (auto simp: flights_set_phase stats_enter_def Let_def running_inv_def intro: running_inv_flights [OF assms(1), THEN conjunct1, THEN card_insert_disjoint, symmetric])
    with running_inv_flights [OF inv] assms(2) show ?thesis by (simp add: r' stats_enter_def Let_def)
  qed
qed

lemma group_answer_ok:
  assumes "running_inv m r (bst_current_in_flight stats)" "bst_max_in_flight stats \<le> m" "phase_of r i = Some (GInFlight req expected)"
    and "group_answer E now i expected answer r stats s = (r', stats', s')"
  shows "running_inv m r' (bst_current_in_flight stats') \<and> bst_max_in_flight stats' \<le> m \<and> running_segment r' = running_segment r"
proof -
  obtain result where r': "r' = set_phase i (GResult result) r" "stats' = stats_leave stats"
    using assms(4) by (auto simp: group_answer_def split: prod.splits)
  have "i \<in> flights r" "phase_of r i \<noteq> None" using assms(3) by (auto simp: flights_def)
  with running_inv_flights [OF assms(1)] assms(1) have "running_inv m r' (bst_current_in_flight stats')"
    unfolding r' by (intro running_inv_set_phase [OF assms(1)]) (auto simp: flights_set_phase stats_leave_def running_inv_def)
  with assms(2) show ?thesis by (simp add: r' stats_leave_def)
qed

text \<open>Completing a group takes it out of the active ones and only adds others.\<close>

lemma fill_active_extends: "fill_active m st = Some st' \<Longrightarrow> \<exists>xs. sx_active st' = sx_active st @ xs"
proof (induction m st rule: fill_active.induct)
  case (1 m st)
  show ?case
  proof (cases "length (sx_active st) < m \<and> pop_ready (sx_ready st) \<noteq> None")
    case True
    then obtain h i rest where pop: "pop_ready (sx_ready st) = Some ((h, i), rest)" by auto
    with True 1(2) obtain st1 where st1: "start_node i (st\<lparr>sx_ready := rest\<rparr>) = Some st1" "fill_active m st1 = Some st'"
      by (subst (asm) fill_active.simps) (auto split: option.splits)
    then have "sx_active st1 = sx_active st @ [i]" by (auto simp: start_node_def split: option.splits)
    with 1(1) [OF _ pop refl refl st1(1) st1(2)] True show ?thesis by auto
  next
    case False
    with 1(2) show ?thesis by (subst (asm) fill_active.simps) (auto split: if_splits option.splits)
  qed
qed

lemma release_successors_active: "release_successors js st = Some st' \<Longrightarrow> sx_active st' = sx_active st"
  by (induction js st rule: release_successors.induct) (auto simp: Let_def split: if_splits option.splits)

lemma segment_complete_active:
  "segment_complete m i h result st = Some st' \<Longrightarrow> \<exists>xs. sx_active st' = remove1 i (sx_active st) @ xs"
  by (auto simp: segment_complete_def Let_def split: option.splits dest!: fill_active_extends release_successors_active)

lemma segment_reach_complete:
  "segment_reach m nodes st \<Longrightarrow> i \<in> set (sx_active st) \<Longrightarrow> segment_complete m i h result st = Some st' \<Longrightarrow> segment_reach m nodes st'"
  unfolding segment_reach_def by (metis (mono_tags, lifting) rtranclp.rtrancl_into_rtrancl segment_step.complete)

lemma separated_normal:
  assumes "segment_separated (Normal nodes)"
  obtains groups where "nodes = build_normal_nodes groups" "groups \<noteq> []" "List.map_filter sn_group nodes = groups"
  using assms that by (auto simp: Let_def)

lemma segment_reach_active:
  assumes "segment_separated (Normal nodes)" "segment_reach m nodes st"
  shows "distinct (sx_active st)" "length (sx_active st) \<le> m" "set (sx_active st) \<subseteq> {..<length nodes}"
proof -
  obtain groups where n: "nodes = build_normal_nodes groups" using assms(1) by (rule separated_normal)
  obtain D where "exec_inv nodes D st" "length (sx_active st) \<le> m"
    using segment_reach_inv [OF build_normal_nodes_ok] assms(2) n by metis
  then show "distinct (sx_active st)" "length (sx_active st) \<le> m" "set (sx_active st) \<subseteq> {..<length nodes}"
    by (auto simp: exec_inv_def)
qed

lemma dom_started_phases: "dom (started_phases st ph) = set (sx_active st)"
  by (auto simp: started_phases_def split: if_splits)

lemma running_inv_normal:
  assumes "segment_separated (Normal nodes)" "segment_reach m nodes st" "dom ph = set (sx_active st)"
    and "current = card (flights (RunNormal nodes st ph))"
    and "\<And>i req expected. ph i = Some (GInFlight req expected) \<Longrightarrow> distinct (map fst expected)"
  shows "running_inv m (RunNormal nodes st ph) current"
proof -
  have *: "phase_of (RunNormal nodes st ph) = ph" by (rule ext) simp
  have "card (dom ph) \<le> m" using segment_reach_active [OF assms(1,2)] assms(3) by (simp add: distinct_card)
  then show ?thesis unfolding running_inv_def * using assms by simp
qed

lemma begin_segment_ok:
  assumes "segment_separated seg" "1 \<le> m"
  shows "\<exists>r. begin_segment m seg = Some r \<and> running_segment r = seg \<and> running_inv m r 0"
proof (cases seg)
  case (Normal nodes)
  then obtain groups where n: "nodes = build_normal_nodes groups" using assms(1) separated_normal by metis
  obtain st where st: "segment_start m nodes = Some st" using segment_start_ok [OF build_normal_nodes_ok] n by metis
  then have "segment_reach m nodes st" by (auto simp: segment_reach_def)
  moreover have "flights (RunNormal nodes st (started_phases st (\<lambda>_. None))) = {}"
    by (auto simp: flights_def started_phases_def split: if_splits)
  ultimately have "running_inv m (RunNormal nodes st (started_phases st (\<lambda>_. None))) 0"
    using assms(1) Normal by (intro running_inv_normal) (auto simp: dom_started_phases started_phases_def split: if_splits)
  with st Normal show ?thesis by simp
next
  case (Exclusive g)
  have "dom (phase_of (RunExclusive g GBegin)) = {0}" "flights (RunExclusive g GBegin) = {}" by (auto simp: flights_def split: if_splits)
  with Exclusive assms show ?thesis by (auto simp: running_inv_def split: if_splits)
qed

lemma complete_ok:
  assumes "running_inv m (RunNormal nodes st ph) current" "i \<in> set (sx_active st)" "ph i = Some (GResult result)"
    and "segment_complete m i h result st = Some st'"
  shows "running_inv m (RunNormal nodes st' (started_phases st' (ph(i := None)))) current"
proof -
  have inv: "segment_separated (Normal nodes)" "segment_reach m nodes st" "dom ph = set (sx_active st)"
    "current = card (flights (RunNormal nodes st ph))" and e: "\<And>i req expected. ph i = Some (GInFlight req expected) \<Longrightarrow> distinct (map fst expected)"
    using assms(1) by (auto simp: running_inv_def)
  obtain xs where xs: "sx_active st' = remove1 i (sx_active st) @ xs" using segment_complete_active [OF assms(4)] by blast
  have "set (remove1 i (sx_active st)) = set (sx_active st) - {i}" using segment_reach_active(1) [OF inv(1,2)] by (simp add: set_remove1_eq)
  then have "flights (RunNormal nodes st' (started_phases st' (ph(i := None)))) = flights (RunNormal nodes st ph)"
    using inv(3) assms(3) xs by (auto simp: flights_def started_phases_def split: if_splits option.splits)
  then show ?thesis
    using inv e segment_reach_complete [OF inv(2) assms(2,4)]
    by (intro running_inv_normal) (auto simp: dom_started_phases started_phases_def split: if_splits option.splits)
qed

lemma batch_work_inv:
  assumes "batch_work E m x y" "1 \<le> m" "list_all segment_separated schedule" "submit_batch_inv m schedule (fst x)"
  shows "submit_batch_inv m schedule (fst y)"
  using assms(1,4)
proof cases
  case (bw_segment b seg segs r s)
  have "segment_separated seg" using assms(3,4) bw_segment by (auto simp: submit_batch_inv_def)
  from begin_segment_ok [OF this assms(2)] assms(4) bw_segment show ?thesis by (auto simp: submit_batch_inv_def)
next
  case (bw_begin b r i g now s r' stats s')
  with group_begin_ok [of m r "ba_stats b" i] assms(4) show ?thesis by (auto simp: submit_batch_inv_def)
next
  case (bw_answer b r i req expected now answer s r' stats s')
  with group_answer_ok [of m r "ba_stats b" i] assms(4) show ?thesis by (auto simp: submit_batch_inv_def)
next
  case (bw_complete b nodes st ph i result st' s)
  with complete_ok [of m nodes st ph] assms(4) show ?thesis by (auto simp: submit_batch_inv_def)
next
  case (bw_segment_end b nodes st ph s)
  with assms(4) have "running_inv m (RunNormal nodes st ph) (bst_current_in_flight (ba_stats b))" by (simp add: submit_batch_inv_def)
  moreover from this have "flights (RunNormal nodes st ph) = {}"
    using flights_dom [of "RunNormal nodes st ph"] bw_segment_end by (auto simp: running_inv_def flights_def)
  ultimately show ?thesis using assms(4) bw_segment_end by (simp add: submit_batch_inv_def end_segment_def running_inv_def)
next
  case (bw_exclusive_end b g result s)
  then have "flights (RunExclusive g (GResult result)) = {}" by (auto simp: flights_def split: if_splits)
  with assms(4) bw_exclusive_end show ?thesis by (simp add: submit_batch_inv_def end_segment_def running_inv_def)
qed

interpretation batch: step_invariant "batch_step E m" "\<lambda>x. 1 \<le> m \<and> list_all segment_separated schedule \<and> submit_batch_inv m schedule (fst x)"
  for E m schedule
proof
  fix x y
  assume "batch_step E m x y" and inv: "1 \<le> m \<and> list_all segment_separated schedule \<and> submit_batch_inv m schedule (fst x)"
  then show "1 \<le> m \<and> list_all segment_separated schedule \<and> submit_batch_inv m schedule (fst y)"
    by cases (use inv batch_work_inv in auto)
qed

lemma batch_new_inv:
  "1 \<le> m \<Longrightarrow> 1 \<le> m \<and> list_all segment_separated (build_submit_schedule groups) \<and> submit_batch_inv m (build_submit_schedule groups) (fst (batch_new (build_submit_schedule groups), s))"
  using schedule_partitions_groups [of groups] by (simp add: submit_batch_inv_def batch_new_def)

lemma batch_reach_inv: "1 \<le> m \<Longrightarrow> batch_reach E m groups x \<Longrightarrow> submit_batch_inv m (build_submit_schedule groups) (fst x)"
  unfolding batch_reach_def using batch.inv_steps [OF _ batch_new_inv, of E m groups _ x] by blast

section \<open>Order and bounds\<close>

text \<open>A group that was handed to a request or is on its way to one, and a group whose submission is over.\<close>

fun has_started :: "running \<Rightarrow> nat \<Rightarrow> bool" where
  "has_started (RunNormal _ st _) i \<longleftrightarrow> sn_group (sx_nodes st ! i) = None"
| "has_started (RunExclusive _ _) i \<longleftrightarrow> True"

fun is_over :: "running \<Rightarrow> nat \<Rightarrow> bool" where
  "is_over (RunNormal _ st _) i \<longleftrightarrow> sn_group (sx_nodes st ! i) = None \<and> i \<notin> set (sx_active st)"
| "is_over (RunExclusive _ _) i \<longleftrightarrow> False"

lemma running_order:
  assumes "running_inv m r current" "i < j" "running_group r i = Some gi" "running_group r j = Some gj" "shares_key gi gj" "has_started r j"
  shows "is_over r i"
proof (cases r)
  case (RunNormal nodes st ph)
  have sep: "segment_separated (Normal nodes)" "segment_reach m nodes st" using assms(1) RunNormal by (auto simp: running_inv_def)
  obtain groups where n: "nodes = build_normal_nodes groups" using sep(1) by (rule separated_normal)
  have "length nodes = length groups" "\<And>i. i < length groups \<Longrightarrow> sn_group (nodes ! i) = Some (groups ! i)"
    using graph_okD(1,2) [OF build_normal_nodes_ok [of groups]] n by auto
  with assms(2-6) sep(2) RunNormal n conflicting_groups_in_order [of m groups st i j] show ?thesis by (auto split: if_splits)
qed (use assms in \<open>auto split: if_splits\<close>)

text \<open>
  C13. A batch of submissions keeps the order of conflicting groups and its bound on concurrency, however
  requests are answered and whatever happens to the filter meanwhile. At any time the groups, by height,
  are those of the segments that are over, those of the segment that runs, and those not begun; in the
  segment that runs, a group that has started finds every earlier group with which it shares a nonce or
  a quota reservation over; a group whose effects are not fully known runs alone; and never have more
  requests been in flight at once than configured.
\<close>

theorem batch_in_order_and_bounded:
  assumes "1 \<le> m" "batch_reach E m groups (b, s)"
  shows "groups = concat (map segment_groups (ba_done b)) @ (case ba_current b of Some r \<Rightarrow> segment_groups (running_segment r) | None \<Rightarrow> []) @
      concat (map segment_groups (ba_segments b)) \<and>
    (\<forall>r. ba_current b = Some r \<longrightarrow>
      (\<forall>i j gi gj. i < j \<and> running_group r i = Some gi \<and> running_group r j = Some gj \<and> shares_key gi gj \<and> has_started r j \<longrightarrow> is_over r i) \<and>
      (\<forall>g \<in> set (segment_groups (running_segment r)). cp_exclusive (sg_profile g) \<longrightarrow> segment_groups (running_segment r) = [g])) \<and>
    bst_current_in_flight (ba_stats b) \<le> m \<and> bst_max_in_flight (ba_stats b) \<le> m"
proof -
  have inv: "submit_batch_inv m (build_submit_schedule groups) b" using batch_reach_inv [OF assms] by simp
  have "groups = concat (map segment_groups (ba_done b @ (case ba_current b of Some r \<Rightarrow> [running_segment r] | None \<Rightarrow> []) @ ba_segments b))"
    using inv schedule_partitions_groups [of groups] by (simp add: submit_batch_inv_def)
  then have "groups = concat (map segment_groups (ba_done b)) @ (case ba_current b of Some r \<Rightarrow> segment_groups (running_segment r) | None \<Rightarrow> []) @
      concat (map segment_groups (ba_segments b))" by (simp split: option.splits)
  moreover have "(\<forall>i j gi gj. i < j \<and> running_group r i = Some gi \<and> running_group r j = Some gj \<and> shares_key gi gj \<and> has_started r j \<longrightarrow> is_over r i) \<and>
      (\<forall>g \<in> set (segment_groups (running_segment r)). cp_exclusive (sg_profile g) \<longrightarrow> segment_groups (running_segment r) = [g])"
    if "ba_current b = Some r" for r
  proof -
    have r: "running_inv m r (bst_current_in_flight (ba_stats b))" using inv that by (simp add: submit_batch_inv_def)
    have "segment_separated (running_segment r)" using r by (cases r) (auto simp: running_inv_def)
    then have "\<forall>g \<in> set (segment_groups (running_segment r)). cp_exclusive (sg_profile g) \<longrightarrow> segment_groups (running_segment r) = [g]"
      by (cases "running_segment r") (auto simp: Let_def list_all_iff)
    with running_order [OF r] show ?thesis by blast
  qed
  moreover have "bst_current_in_flight (ba_stats b) \<le> m"
    using inv running_inv_flights by (auto simp: submit_batch_inv_def split: option.splits)
  ultimately show ?thesis using inv by (simp add: submit_batch_inv_def)
qed

section \<open>History\<close>

text \<open>The groups of the running segment for which \<open>submit_group\<close> was called.\<close>

fun begun_groups :: "running \<Rightarrow> submit_group multiset" where
  "begun_groups (RunNormal nodes st ph) =
     image_mset (\<lambda>i. the (sn_group (nodes ! i))) (mset_set {i. i < length nodes \<and> sn_group (sx_nodes st ! i) = None \<and> ph i \<noteq> Some GBegin})"
| "begun_groups (RunExclusive g p) = (if p = GBegin then {#} else {#g#})"

definition history_inv :: "batch \<Rightarrow> bool" where
  "history_inv b \<longleftrightarrow> mset (ba_begun b) = mset (concat (map segment_groups (ba_done b))) + (case ba_current b of Some r \<Rightarrow> begun_groups r | None \<Rightarrow> {#})"

lemma started_nodes:
  assumes "exec_inv nodes D st" "\<And>i. i < length nodes \<Longrightarrow> sn_group (nodes ! i) \<noteq> None"
  shows "{i. i < length nodes \<and> sn_group (sx_nodes st ! i) = None} = set (sx_active st) \<union> D"
proof -
  have "sn_group (sx_nodes st ! i) = (if i \<in> set (sx_active st) \<union> D then None else sn_group (nodes ! i))" if "i < length nodes" for i
    using assms(1) that by (simp add: exec_inv_def)
  moreover have "set (sx_active st) \<union> D \<subseteq> {..<length nodes}" using assms(1) by (simp add: exec_inv_def)
  moreover have "\<forall>i < length nodes. sn_group (nodes ! i) \<noteq> None" using assms(2) by blast
  ultimately show ?thesis by (intro set_eqI) (auto split: if_splits)
qed

lemma begun_groups_start:
  assumes "segment_separated seg" "begin_segment m seg = Some r"
  shows "begun_groups r = {#}"
proof (cases seg)
  case (Normal nodes)
  obtain groups where n: "nodes = build_normal_nodes groups" using assms(1) Normal separated_normal by metis
  obtain st where st: "segment_start m nodes = Some st" "exec_inv nodes {} st" using segment_start_ok [OF build_normal_nodes_ok] n by metis
  then have "set (sx_active st) = {i. i < length nodes \<and> sn_group (sx_nodes st ! i) = None}"
    using started_nodes [OF st(2)] graph_okD(1,2) [OF build_normal_nodes_ok [of groups]] n by auto
  then have "{i. i < length nodes \<and> sn_group (sx_nodes st ! i) = None \<and> started_phases st (\<lambda>_. None) i \<noteq> Some GBegin} = {}"
    by (auto simp: started_phases_def)
  then show ?thesis using assms(2) Normal st(1) by (auto simp: mset_set_empty_iff)
qed (use assms in auto)

lemma begun_groups_begin:
  assumes "running_inv m r current" "phase_of r i = Some GBegin" "running_group r i = Some g" "p \<noteq> GBegin"
  shows "begun_groups (set_phase i p r) = add_mset g (begun_groups r)"
proof (cases r)
  case (RunNormal nodes st ph)
  then have inv: "segment_separated (Normal nodes)" "segment_reach m nodes st" "dom ph = set (sx_active st)" using assms(1) by (auto simp: running_inv_def)
  obtain groups where n: "nodes = build_normal_nodes groups" using inv(1) by (rule separated_normal)
  obtain D where D: "exec_inv nodes D st" using segment_reach_inv [OF build_normal_nodes_ok] inv(2) n by metis
  have i: "ph i = Some GBegin" "i < length nodes" "sn_group (nodes ! i) = Some g" using assms(2,3) RunNormal by (auto split: if_splits)
  then have "sn_group (sx_nodes st ! i) = None" using inv(3) D by (auto simp: exec_inv_def)
  with i assms(4) have "{j. j < length nodes \<and> sn_group (sx_nodes st ! j) = None \<and> (ph(i \<mapsto> p)) j \<noteq> Some GBegin} =
      insert i {j. j < length nodes \<and> sn_group (sx_nodes st ! j) = None \<and> ph j \<noteq> Some GBegin}" by auto
  with i RunNormal show ?thesis by simp
qed (use assms in \<open>auto split: if_splits\<close>)

lemma begun_groups_answer:
  assumes "phase_of r i \<noteq> None" "phase_of r i \<noteq> Some GBegin" "p \<noteq> GBegin"
  shows "begun_groups (set_phase i p r) = begun_groups r"
proof (cases r)
  case (RunNormal nodes st ph)
  with assms have "(ph(i \<mapsto> p)) j \<noteq> Some GBegin \<longleftrightarrow> ph j \<noteq> Some GBegin" for j by auto
  then show ?thesis using RunNormal by simp
qed (use assms in \<open>auto split: if_splits\<close>)

lemma begun_groups_complete:
  assumes "running_inv m (RunNormal nodes st ph) current" "i \<in> set (sx_active st)" "ph i = Some (GResult result)"
    and "segment_complete m i h result st = Some st'"
  shows "begun_groups (RunNormal nodes st' (started_phases st' (ph(i := None)))) = begun_groups (RunNormal nodes st ph)"
proof -
  have inv: "segment_separated (Normal nodes)" "segment_reach m nodes st" "dom ph = set (sx_active st)" using assms(1) by (auto simp: running_inv_def)
  obtain groups where n: "nodes = build_normal_nodes groups" using inv(1) by (rule separated_normal)
  have some: "sn_group (nodes ! j) \<noteq> None" if "j < length nodes" for j
    using graph_okD(1,2) [OF build_normal_nodes_ok [of groups]] n that by simp
  obtain D where D: "exec_inv nodes D st" "length (sx_active st) \<le> m" using segment_reach_inv [OF build_normal_nodes_ok] inv(2) n by metis
  have D': "exec_inv nodes (insert i D) st'" using segment_complete_ok [OF D(1) assms(2) _ D(2)] build_normal_nodes_ok [of groups] n assms(4) by (metis option.sel)
  obtain xs where xs: "sx_active st' = remove1 i (sx_active st) @ xs" using segment_complete_active [OF assms(4)] by blast
  have rm: "set (remove1 i (sx_active st)) = set (sx_active st) - {i}" using segment_reach_active(1) [OF inv(1,2)] by (simp add: set_remove1_eq)
  have new: "set xs \<inter> (set (sx_active st) \<union> D) = {}" using D' xs rm by (auto simp: exec_inv_def)
  have "started_phases st' (ph(i := None)) j \<noteq> Some GBegin \<longleftrightarrow> ph j \<noteq> Some GBegin" if "j \<in> set (sx_active st) \<union> D" for j
    using that xs rm new inv(3) assms(3) D(1) by (auto simp: started_phases_def exec_inv_def split: option.splits)
  moreover have "started_phases st' (ph(i := None)) j = Some GBegin" if "j \<in> set xs" for j
    using that xs new inv(3) by (auto simp: started_phases_def domIff split: option.splits)
  moreover have "set (sx_active st') \<union> insert i D = set (sx_active st) \<union> D \<union> set xs" using xs rm assms(2) by auto
  ultimately have "{j. (j < length nodes \<and> sn_group (sx_nodes st' ! j) = None) \<and> started_phases st' (ph(i := None)) j \<noteq> Some GBegin} =
      {j. (j < length nodes \<and> sn_group (sx_nodes st ! j) = None) \<and> ph j \<noteq> Some GBegin}"
    using started_nodes [OF D(1) some] started_nodes [OF D' some] by (auto simp: set_eq_iff)
  then show ?thesis by (simp only: begun_groups.simps conj_assoc)
qed

lemma begun_groups_all:
  assumes "1 \<le> m" "running_inv m (RunNormal nodes st ph) current" "sx_active st = []"
  shows "begun_groups (RunNormal nodes st ph) = mset (segment_groups (Normal nodes))"
proof -
  have inv: "segment_separated (Normal nodes)" "segment_reach m nodes st" "dom ph = set (sx_active st)" using assms(2) by (auto simp: running_inv_def)
  obtain groups where n: "nodes = build_normal_nodes groups" "List.map_filter sn_group nodes = groups" using inv(1) by (rule separated_normal)
  have g: "length nodes = length groups" "\<And>j. j < length groups \<Longrightarrow> sn_group (nodes ! j) = Some (groups ! j)"
    using graph_okD(1,2) [OF build_normal_nodes_ok [of groups]] n by auto
  obtain D where D: "exec_inv nodes D st" using segment_reach_inv [OF build_normal_nodes_ok] inv(2) n by metis
  have "card D = length nodes" using segment_runs_to_completion [OF assms(1), of groups st] inv(2) n(1) assms(3) D g(1) by (simp add: exec_inv_def)
  then have "D = {..<length nodes}" using D by (intro card_subset_eq) (auto simp: exec_inv_def)
  with started_nodes [OF D] g have "{i. i < length nodes \<and> sn_group (sx_nodes st ! i) = None} = {..<length nodes}" by auto
  moreover have "ph = Map.empty" using inv(3) assms(3) by simp
  ultimately have "begun_groups (RunNormal nodes st ph) = image_mset (\<lambda>i. the (sn_group (nodes ! i))) (mset_set {0..<length groups})"
    using g(1) by (simp add: lessThan_atLeast0)
  also have "\<dots> = image_mset (\<lambda>i. groups ! i) (mset_set {0..<length groups})" using g(2) by (intro image_mset_cong) auto
  also have "\<dots> = mset (map (\<lambda>i. groups ! i) [0..<length groups])" by (simp only: mset_map mset_upt)
  finally show ?thesis using n(2) by (simp add: map_nth)
qed

lemma batch_work_history:
  assumes "batch_work E m x y" "1 \<le> m" "list_all segment_separated schedule" "submit_batch_inv m schedule (fst x)" "history_inv (fst x)"
  shows "history_inv (fst y)"
  using assms(1)
proof cases
  case (bw_segment b seg segs r s)
  have "segment_separated seg" using assms(3,4) bw_segment by (auto simp: submit_batch_inv_def)
  from begun_groups_start [OF this] assms(5) bw_segment show ?thesis by (auto simp: history_inv_def)
next
  case (bw_begin b r i g now s r' stats s')
  then obtain p where p: "r' = set_phase i p r" "p \<noteq> GBegin" by (auto simp: group_begin_def split: prod.splits option.splits)
  have "running_inv m r (bst_current_in_flight (ba_stats b))" using assms(4) bw_begin by (simp add: submit_batch_inv_def)
  from begun_groups_begin [OF this] assms(5) bw_begin p show ?thesis by (simp add: history_inv_def)
next
  case (bw_answer b r i req expected now answer s r' stats s')
  then obtain result where "r' = set_phase i (GResult result) r" by (auto simp: group_answer_def split: prod.splits)
  with begun_groups_answer [of r i "GResult result"] assms(5) bw_answer show ?thesis by (simp add: history_inv_def)
next
  case (bw_complete b nodes st ph i result st' s)
  then have "running_inv m (RunNormal nodes st ph) (bst_current_in_flight (ba_stats b))" using assms(4) by (simp add: submit_batch_inv_def)
  from begun_groups_complete [OF this] assms(5) bw_complete show ?thesis by (simp add: history_inv_def del: begun_groups.simps)
next
  case (bw_segment_end b nodes st ph s)
  then have "running_inv m (RunNormal nodes st ph) (bst_current_in_flight (ba_stats b))" using assms(4) by (simp add: submit_batch_inv_def)
  from begun_groups_all [OF assms(2) this] assms(5) bw_segment_end show ?thesis by (simp add: history_inv_def end_segment_def del: begun_groups.simps)
next
  case (bw_exclusive_end b g result s)
  with assms(5) show ?thesis by (simp add: history_inv_def end_segment_def)
qed

interpretation batch_history: step_invariant "batch_step E m"
  "\<lambda>x. (1 \<le> m \<and> list_all segment_separated schedule \<and> submit_batch_inv m schedule (fst x)) \<and> history_inv (fst x)" for E m schedule
proof
  fix x y
  assume step: "batch_step E m x y"
    and inv: "(1 \<le> m \<and> list_all segment_separated schedule \<and> submit_batch_inv m schedule (fst x)) \<and> history_inv (fst x)"
  have "history_inv (fst y)" using step by cases (use inv batch_work_history [of E m x y schedule] in auto)
  with batch.inv_step [OF step conjunct1 [OF inv]] show "(1 \<le> m \<and> list_all segment_separated schedule \<and> submit_batch_inv m schedule (fst y)) \<and> history_inv (fst y)" ..
qed

lemma batch_reach_history: "1 \<le> m \<Longrightarrow> batch_reach E m groups x \<Longrightarrow> history_inv (fst x)"
  unfolding batch_reach_def
  using batch_history.inv_steps [OF _ conjI [OF batch_new_inv], of E m groups _ x] by (fastforce simp: history_inv_def batch_new_def)

section \<open>Completion\<close>

fun unfinished :: "running \<Rightarrow> nat" where
  "unfinished (RunNormal nodes st _) = length nodes - sx_completed st"
| "unfinished (RunExclusive _ _) = 0"

text \<open>Segments to go, groups of the current one to go, groups to begin, answers to wait for.\<close>

definition batch_rank :: "(batch \<times> batch) set" where
  "batch_rank = measures [\<lambda>b. 2 * length (ba_segments b) + (if ba_current b = None then 0 else 1),
     \<lambda>b. case ba_current b of Some r \<Rightarrow> unfinished r | None \<Rightarrow> 0,
     \<lambda>b. case ba_current b of Some r \<Rightarrow> card {i. phase_of r i = Some GBegin} | None \<Rightarrow> 0,
     \<lambda>b. case ba_current b of Some r \<Rightarrow> card (flights r) | None \<Rightarrow> 0]"

lemma wf_batch_rank: "wf batch_rank"
  by (simp add: batch_rank_def)

lemma unfinished_set_phase [simp]: "unfinished (set_phase i p r) = unfinished r"
  by (cases r) auto

lemma begun_less:
  assumes "running_inv m r current" "phase_of r i = Some GBegin" "p \<noteq> GBegin"
  shows "card {j. phase_of (set_phase i p r) j = Some GBegin} < card {j. phase_of r j = Some GBegin}"
proof (rule psubset_card_mono)
  show "finite {j. phase_of r j = Some GBegin}"
    using assms(1) by (auto simp: running_inv_def intro: finite_subset [of _ "dom (phase_of r)"])
  show "{j. phase_of (set_phase i p r) j = Some GBegin} \<subset> {j. phase_of r j = Some GBegin}"
    using assms(2,3) by (auto simp: phase_set_phase split: if_splits)
qed

lemma segment_complete_counts:
  assumes "1 \<le> m" "running_inv m (RunNormal nodes st ph) current" "i \<in> set (sx_active st)" "segment_complete m i h result st = Some st'"
  shows "length nodes - sx_completed st' < length nodes - sx_completed st"
proof -
  have sep: "segment_separated (Normal nodes)" "segment_reach m nodes st" using assms(2) by (auto simp: running_inv_def)
  obtain groups where n: "nodes = build_normal_nodes groups" using sep(1) by (rule separated_normal)
  have len: "length nodes = length groups" using graph_okD(1) [OF build_normal_nodes_ok [of groups]] n by simp
  have "segment_step m st (Some st')" using segment_step.complete [OF assms(3)] assms(4) by metis
  with segment_runs_to_completion [OF assms(1), of groups st] sep(2) n have "sx_completed st' = Suc (sx_completed st)"
    "sx_completed st + length (sx_active st) \<le> length groups" by auto
  with assms(3) len show ?thesis by (cases "sx_active st") auto
qed

lemma batch_work_rank:
  assumes "batch_work E m (b, s) (b', s')" "1 \<le> m" "submit_batch_inv m schedule b"
  shows "(b', b) \<in> batch_rank"
  using assms(1)
proof cases
  case (bw_begin r i g now r' stats)
  then have r: "running_inv m r (bst_current_in_flight (ba_stats b))" using assms(3) by (simp add: submit_batch_inv_def)
  from bw_begin obtain p where "r' = set_phase i p r" "p \<noteq> GBegin" by (auto simp: group_begin_def split: prod.splits option.splits)
  with bw_begin begun_less [OF r] show ?thesis by (simp add: batch_rank_def)
next
  case (bw_answer r i req expected now answer r' stats)
  then have r: "running_inv m r (bst_current_in_flight (ba_stats b))" using assms(3) by (simp add: submit_batch_inv_def)
  from bw_answer obtain result where r': "r' = set_phase i (GResult result) r" by (auto simp: group_answer_def split: prod.splits)
  have i: "i \<in> flights r" "phase_of r i \<noteq> None" using bw_answer by (auto simp: flights_def)
  have "{j. phase_of r' j = Some GBegin} = {j. phase_of r j = Some GBegin}" using bw_answer i by (auto simp: r' phase_set_phase)
  moreover have "card (flights r - {i}) < card (flights r)" using running_inv_flights [OF r] i by (intro card_Diff1_less) auto
  then have "card (flights r') < card (flights r)" unfolding r' flights_set_phase [OF i(2)] group_phase.case .
  ultimately show ?thesis using bw_answer r' by (simp add: batch_rank_def)
next
  case (bw_complete nodes st ph i result st')
  then have r: "running_inv m (RunNormal nodes st ph) (bst_current_in_flight (ba_stats b))" using assms(3) by (simp add: submit_batch_inv_def)
  from segment_complete_counts [OF assms(2) r] bw_complete show ?thesis by (simp add: batch_rank_def)
qed (auto simp: batch_rank_def end_segment_def)

lemma running_progress:
  assumes "ba_current b = Some r" "running_inv m r current"
  shows "\<exists>y. batch_work E m (b, s) y"
proof -
  have begun: ?thesis if "phase_of r i = Some GBegin" "running_group r i = Some g" for i g
  proof -
    obtain r' stats s' where "group_begin 0 i g r (ba_stats b) s = (r', stats, s')" by (metis prod_cases3)
    from bw_begin [OF assms(1) that(2,1) this] show ?thesis by blast
  qed
  have answer: ?thesis if "phase_of r i = Some (GInFlight req expected)" for i req expected
  proof -
    obtain r' stats s' where "group_answer E 0 i expected (Inl (Decode [])) r (ba_stats b) s = (r', stats, s')" by (metis prod_cases3)
    from bw_answer [OF assms(1) that this] show ?thesis by blast
  qed
  show ?thesis
  proof (cases r)
    case (RunNormal nodes st ph)
    have inv: "segment_separated (Normal nodes)" "segment_reach m nodes st" "dom ph = set (sx_active st)"
      using assms(2) RunNormal by (auto simp: running_inv_def)
    obtain groups where n: "nodes = build_normal_nodes groups" using inv(1) by (rule separated_normal)
    show ?thesis
    proof (cases "sx_active st")
      case Nil
      with bw_segment_end assms(1) RunNormal show ?thesis by blast
    next
      case (Cons i rest)
      then have i: "i \<in> set (sx_active st)" by simp
      obtain p where p: "ph i = Some p" using inv(3) i by blast
      have "i < length nodes" using segment_reach_active(3) [OF inv(1,2)] i by auto
      then have g: "running_group r i = Some (groups ! i)"
        using graph_okD(1,2) [OF build_normal_nodes_ok [of groups]] n RunNormal by simp
      obtain D where D: "exec_inv nodes D st" "length (sx_active st) \<le> m"
        using segment_reach_inv [OF build_normal_nodes_ok] inv(2) n by metis
      show ?thesis
      proof (cases p)
        case (GResult result)
        obtain st' where "segment_complete m i (sg_block_height (the (sn_group (nodes ! i)))) result st = Some st'"
          using segment_complete_ok [OF D(1) i _ D(2)] build_normal_nodes_ok [of groups] n by metis
        with bw_complete [OF _ i] assms(1) p RunNormal GResult show ?thesis by blast
      qed (use p g begun answer RunNormal in auto)
    qed
  next
    case (RunExclusive g p)
    show ?thesis
    proof (cases p)
      case (GResult result)
      with bw_exclusive_end assms(1) RunExclusive show ?thesis by blast
    qed (use RunExclusive begun [of 0 g] answer [of 0] in auto)
  qed
qed

text \<open>
  C14. A batch ends with everything submitted. Whatever the answers are, a batch that is not finished can go
  on, and each of its steps gets it closer to the end in a well-founded order, so that no run works for
  ever; when it is finished, \<open>submit_group\<close> was called for every group, exactly once, and no request is in flight.
\<close>

theorem batch_completes:
  assumes "1 \<le> m" "batch_reach E m groups (b, s)"
  shows "(if batch_finished b then mset (ba_begun b) = mset groups \<and> concat (map segment_groups (ba_done b)) = groups \<and> bst_current_in_flight (ba_stats b) = 0
      else \<exists>y. batch_work E m (b, s) y) \<and>
    wf batch_rank \<and> (\<forall>b' s'. batch_work E m (b, s) (b', s') \<longrightarrow> (b', b) \<in> batch_rank)"
proof -
  let ?schedule = "build_submit_schedule groups"
  have inv: "submit_batch_inv m ?schedule b" using batch_reach_inv [OF assms] by simp
  have sep: "list_all segment_separated ?schedule" "concat (map segment_groups ?schedule) = groups" using schedule_partitions_groups [of groups] by auto
  have "\<exists>y. batch_work E m (b, s) y" if "\<not> batch_finished b"
  proof (cases "ba_current b")
    case None
    with that obtain seg segs where segs: "ba_segments b = seg # segs" by (cases "ba_segments b") (auto simp: batch_finished_def)
    with inv None have "?schedule = ba_done b @ seg # segs" by (simp add: submit_batch_inv_def)
    with sep(1) have "segment_separated seg" by simp
    with begin_segment_ok [OF _ assms(1)] bw_segment [OF None segs] show ?thesis by blast
  next
    case (Some r)
    with inv running_progress [OF Some] show ?thesis by (auto simp: submit_batch_inv_def)
  qed
  moreover have "mset (ba_begun b) = mset groups \<and> concat (map segment_groups (ba_done b)) = groups \<and> bst_current_in_flight (ba_stats b) = 0"
    if "batch_finished b"
    using inv sep(2) that batch_reach_history [OF assms] by (simp add: submit_batch_inv_def batch_finished_def history_inv_def)
  moreover have "(b', b) \<in> batch_rank" if "batch_work E m (b, s) (b', s')" for b' s'
    by (rule batch_work_rank [OF that assms(1) inv])
  ultimately show ?thesis using wf_batch_rank by simp
qed

text \<open>
  To the rest of the filter a batch is the critical sections it consists of: everything shown about the
  filter's steps holds while a batch runs.
\<close>

lemma batch_step_filter_steps:
  assumes "batch_step E m x y" "submit_batch_inv m schedule (fst x)"
  shows "(filter_step E)\<^sup>*\<^sup>* (snd x) (snd y)"
  using assms(1)
proof cases
  case bs_work
  then show ?thesis
  proof cases
    case (bw_begin b r i g now s r' stats s')
    then have "s' = snd (submit_group_begin now g s)" by (auto simp: group_begin_def split: prod.splits option.splits)
    with bw_begin fs_begin [of E s now g] show ?thesis by auto
  next
    case (bw_answer b r i req expected now answer s r' stats s')
    then have "s' = snd (submit_group_finish E now expected answer s)" by (auto simp: group_answer_def split: prod.splits)
    moreover have "distinct (map fst expected)" using assms(2) bw_answer by (auto simp: submit_batch_inv_def running_inv_def)
    ultimately show ?thesis using bw_answer fs_finish [of expected E s now answer] by auto
  qed auto
next
  case bs_env
  then show ?thesis by auto
qed

lemma batch_is_filter_steps:
  assumes "1 \<le> m" "(batch_step E m)\<^sup>*\<^sup>* (batch_new (build_submit_schedule groups), s) x"
  shows "(filter_step E)\<^sup>*\<^sup>* s (snd x)"
  using assms(2)
proof (induction rule: rtranclp_induct)
  case (step y z)
  from batch.inv_steps [OF step.hyps(1) batch_new_inv [OF assms(1)]] have "submit_batch_inv m (build_submit_schedule groups) (fst y)" by simp
  from rtranclp_trans [OF step.IH batch_step_filter_steps [OF step.hyps(2) this]] show ?case .
qed simp

section \<open>An instance\<close>

text \<open>The batch of the three groups of the schedule's example, begun with two of them at once.\<close>

definition sample_submission :: batch where
  "sample_submission = (let seg = Normal (build_normal_nodes sample_groups) in
     (batch_new [seg])\<lparr>ba_current := begin_segment 2 seg, ba_segments := []\<rparr>)"

lemma sample_schedule: "build_submit_schedule sample_groups = [Normal (build_normal_nodes sample_groups)]"
  by (simp add: build_submit_schedule_def sample_groups_def sample_group_def)

lemma sample_batch_reach: "batch_reach E 2 sample_groups (sample_submission, s)"
proof -
  let ?seg = "Normal (build_normal_nodes sample_groups)"
  have "segment_separated ?seg" using schedule_partitions_groups [of sample_groups] by (simp add: sample_schedule del: segment_separated.simps)
  then obtain r where r: "begin_segment 2 ?seg = Some r" using begin_segment_ok [of ?seg 2] by auto
  have "batch_work E 2 (batch_new [?seg], s) ((batch_new [?seg])\<lparr>ba_current := Some r, ba_segments := []\<rparr>, s)"
    by (rule bw_segment [OF _ _ r]) (simp_all add: batch_new_def)
  then have "batch_step E 2 (batch_new [?seg], s) (sample_submission, s)"
    using bs_work by (simp add: sample_submission_def r del: begin_segment.simps)
  then show ?thesis unfolding batch_reach_def sample_schedule by blast
qed

lemma sample_batch_running: "\<exists>r. ba_current sample_submission = Some r \<and> running_segment r = Normal (build_normal_nodes sample_groups)"
  using begin_segment_ok [of "Normal (build_normal_nodes sample_groups)" 2] schedule_partitions_groups [of sample_groups]
  by (auto simp: sample_submission_def sample_schedule simp del: begin_segment.simps segment_separated.simps)

theorem batch_in_order_and_bounded_witness:
  "\<exists>E s. batch_reach E 2 sample_groups (sample_submission, s) \<and> bst_max_in_flight (ba_stats sample_submission) \<le> 2"
  using batch_in_order_and_bounded [OF _ sample_batch_reach] sample_batch_reach by auto

theorem batch_completes_witness: "\<exists>E s y. batch_reach E 2 sample_groups (sample_submission, s) \<and> batch_work E 2 (sample_submission, s) y"
proof -
  have "\<not> batch_finished sample_submission" using sample_batch_running by (auto simp: batch_finished_def)
  with batch_completes [OF _ sample_batch_reach] sample_batch_reach show ?thesis by (metis one_le_numeral)
qed

end
