(* ===== verification/Rcs_Client.thy ===== *)
theory Rcs_Client
  imports Filter_Types
begin

text \<open>
  The client of the risk-control service (\<open>crates/rcs-filter/src/client.rs\<close>): which request each of its four
  methods sends, and what it makes of the answer. Sending is the HTTP library's: a function from the
  request to an answer or an error.
\<close>

section \<open>Requests\<close>

datatype http_method = Get | Post

record 'b client_request =
  cq_method :: http_method
  cq_url :: string
  cq_query :: "(string \<times> string) list"
  cq_body :: "'b option"

text \<open>The base address without the slashes at its end; the library can fail to make a client.\<close>

definition client_with_timeouts :: "(nat \<Rightarrow> nat \<Rightarrow> string option) \<Rightarrow> string \<Rightarrow> nat \<Rightarrow> nat \<Rightarrow> filter_error + string" where
  "client_with_timeouts build url connect_timeout request_timeout = (case build connect_timeout request_timeout of
       Some e \<Rightarrow> Inl (Transport e)
     | None \<Rightarrow> Inr (base_url url))"

type_synonym 'b http = "'b client_request \<Rightarrow> reqwest_error + http_response"

definition send :: "'b http \<Rightarrow> 'b client_request \<Rightarrow> nat \<Rightarrow> (byte list \<Rightarrow> string + 'a) \<Rightarrow> filter_error + 'a" where
  "send http req expected from_slice =
     and_then (map_sum transport_error id (http req)) (\<lambda>resp. decode_json from_slice resp expected)"

definition get_rules :: "'b http \<Rightarrow> (byte list \<Rightarrow> string + rules_response) \<Rightarrow> string \<Rightarrow> filter_error + rules_response" where
  "get_rules http from_slice base =
     send http \<lparr>cq_method = Get, cq_url = client_url base ''/rules'', cq_query = [], cq_body = None\<rparr> 200 from_slice"

definition get_rules_version :: "'b http \<Rightarrow> (byte list \<Rightarrow> string + version_response) \<Rightarrow> string \<Rightarrow> filter_error + version_response" where
  "get_rules_version http from_slice base =
     send http \<lparr>cq_method = Get, cq_url = client_url base ''/rules/version'', cq_query = [], cq_body = None\<rparr> 200 from_slice"

definition client_submit :: "submit_request http \<Rightarrow> (byte list \<Rightarrow> string + submit_response) \<Rightarrow> string \<Rightarrow> submit_request \<Rightarrow> filter_error + submit_response" where
  "client_submit http from_slice base req =
     send http \<lparr>cq_method = Post, cq_url = client_url base ''/permission-requests/submit'', cq_query = [], cq_body = Some req\<rparr> 202 from_slice"

definition query_pair :: "query_params \<Rightarrow> string \<times> string" where
  "query_pair q = (case q of QStatus s \<Rightarrow> (''status'', s) | QTxHashes hashes \<Rightarrow> (''tx_hashes'', join '','' hashes))"

definition client_query :: "'b http \<Rightarrow> (byte list \<Rightarrow> string + query_response) \<Rightarrow> string \<Rightarrow> query_params \<Rightarrow> filter_error + query_response" where
  "client_query http from_slice base q =
     send http \<lparr>cq_method = Get, cq_url = client_url base ''/permission-requests/query'', cq_query = [query_pair q], cq_body = None\<rparr> 200 from_slice"

section \<open>Answers\<close>

lemma send_Inr: "send http req expected from_slice = Inr v \<longleftrightarrow> (\<exists>resp. http req = Inr resp \<and> decode_json from_slice resp expected = Inr v)"
  by (auto simp: send_def and_then_Inr map_sum_Inr_iff)

text \<open>
  A submission counts as accepted only with the status that says so, however well another answer
  decodes; a plain success of the service is an error.
\<close>

lemma submit_needs_accepted:
  assumes "client_submit http from_slice base req = Inr v"
  shows "\<exists>resp. http \<lparr>cq_method = Post, cq_url = client_url base ''/permission-requests/submit'', cq_query = [], cq_body = Some req\<rparr> = Inr resp \<and>
    hr_status resp = 202 \<and> (\<exists>bs. hr_chunks resp = map Inr bs \<and> from_slice (concat bs) = Inr v)"
proof -
  from assms obtain resp where "http \<lparr>cq_method = Post, cq_url = client_url base ''/permission-requests/submit'', cq_query = [], cq_body = Some req\<rparr> = Inr resp"
    "decode_json from_slice resp 202 = Inr v" unfolding client_submit_def send_Inr by blast
  then show ?thesis unfolding decode_json_exact by blast
qed

text \<open>The address of a request does not depend on slashes at the end of the configured one.\<close>

lemma client_url_slashes: "client_url (base @ replicate n (CHR ''/'')) path = client_url base path"
  by (simp add: client_url_def base_url_def) (induction n; simp)

lemma base_url_idem: "base_url (base_url s) = base_url s"
  by (simp add: base_url_def)

text \<open>The service can read the transactions of a query back: their hashes have no comma.\<close>

lemma query_hashes_roundtrip:
  assumes "hashes \<noteq> []" "\<forall>h \<in> set hashes. CHR '','' \<notin> set h"
  shows "split_at (CHR '','') (snd (query_pair (QTxHashes hashes))) = hashes"
  using split_at_join [OF assms] by (simp add: query_pair_def)

end
