(* ===== verification/Tx_Signer.thy ===== *)
theory Tx_Signer
  imports Builder_Tx
begin

text \<open>
  The signer of the builder's transactions (\<open>builder/src/signer.rs\<close>). The curve is a library and a
  parameter; what is modelled is how a secret becomes a signer, which bytes of the hash of the public key
  are its address, how a recoverable signature is taken apart, and what is signed. Shown: signing never
  fails, a signed transaction recovers to the address of its signer, and the builder's own transactions
  are from the address that is configured.
\<close>

section \<open>The curve\<close>

text \<open>
  The parsing of secrets and digests, public keys and their 65 bytes, recoverable signatures (an id and
  64 bytes) and the recovery of the public key from one.
\<close>

record ('k, 'p) secp =
  sp_secret :: "byte list \<Rightarrow> string + 'k"
  sp_public :: "'k \<Rightarrow> 'p"
  sp_uncompressed :: "'p \<Rightarrow> byte list"
  sp_message :: "byte list \<Rightarrow> string + byte list"
  sp_sign :: "byte list \<Rightarrow> 'k \<Rightarrow> nat \<times> byte list"
  sp_recover :: "byte list \<Rightarrow> nat \<Rightarrow> byte list \<Rightarrow> 'p option"

definition secp_laws :: "('k, 'p) secp \<Rightarrow> bool" where
  "secp_laws sp \<longleftrightarrow>
     (\<forall>m. length m = 32 \<longrightarrow> sp_message sp m = Inr m) \<and>
     (\<forall>m k. length (snd (sp_sign sp m k)) = 64 \<and> sp_recover sp m (fst (sp_sign sp m k)) (snd (sp_sign sp m k)) = Some (sp_public sp k))"

section \<open>The signer\<close>

record ('k, 'p) signer =
  sg_address :: address
  sg_pubkey :: 'p
  sg_secret :: 'k

record signature =
  sig_r :: u256
  sig_s :: u256
  sig_y_parity :: bool

text \<open>A transaction before it is signed; system transactions are not signed by a user.\<close>

datatype 't op_typed_transaction = OtLegacy 't | OtEip2930 't | OtEip1559 't | OtEip7702 't | OtDeposit 't | OtPostExec 't

record 't recovered =
  rv_tx :: "'t op_typed_transaction"
  rv_signature :: signature
  rv_signer :: address

text \<open>The first byte of an uncompressed key is skipped, and the last 20 bytes of the hash are the address.\<close>

definition public_key_to_address :: "ext \<Rightarrow> ('k, 'p) secp \<Rightarrow> 'p \<Rightarrow> address" where
  "public_key_to_address E sp public_key =
     (let hash = be_bytes 32 (unat (keccak256 E (slice_of 1 65 (sp_uncompressed sp public_key))))
      in word_of_be (slice_of 12 32 hash))"

definition try_from_secret :: "ext \<Rightarrow> ('k, 'p) secp \<Rightarrow> b256 \<Rightarrow> string + ('k, 'p) signer" where
  "try_from_secret E sp secret = map_sum id (\<lambda>k. let pubkey = sp_public sp k in
     \<lparr>sg_address = public_key_to_address E sp pubkey, sg_pubkey = pubkey, sg_secret = k\<rparr>) (sp_secret sp (be_bytes 32 (unat secret)))"

definition signer_from_str :: "ext \<Rightarrow> ('k, 'p) secp \<Rightarrow> (string \<Rightarrow> string + b256) \<Rightarrow> string \<Rightarrow> string + ('k, 'p) signer" where
  "signer_from_str E sp parse s = and_then (parse s) (\<lambda>secret.
     map_sum (\<lambda>e. ''invalid secret key '' @ [CHR 0x22] @ e @ [CHR 0x22]) id (try_from_secret E sp secret))"

definition sign_message :: "('k, 'p) secp \<Rightarrow> ('k, 'p) signer \<Rightarrow> b256 \<Rightarrow> string + signature" where
  "sign_message sp sg message = map_sum id (\<lambda>m. case sp_sign sp m (sg_secret sg) of (rec_id, data) \<Rightarrow>
     \<lparr>sig_r = word_of_be (slice_of 0 32 data), sig_s = word_of_be (slice_of 32 64 data), sig_y_parity = (rec_id \<noteq> 0)\<rparr>)
     (sp_message sp (be_bytes 32 (unat message)))"

text \<open>The hash of each kind of user transaction is the library's.\<close>

definition tx_signature_hash :: "('t op_typed_transaction \<Rightarrow> b256) \<Rightarrow> 't op_typed_transaction \<Rightarrow> b256" where
  "tx_signature_hash signature_hash tx = (case tx of
       OtLegacy _ \<Rightarrow> signature_hash tx
     | OtEip2930 _ \<Rightarrow> signature_hash tx
     | OtEip1559 _ \<Rightarrow> signature_hash tx
     | OtEip7702 _ \<Rightarrow> signature_hash tx
     | OtDeposit _ \<Rightarrow> 0
     | OtPostExec _ \<Rightarrow> 0)"

definition signer_sign_tx :: "('k, 'p) secp \<Rightarrow> ('t op_typed_transaction \<Rightarrow> b256) \<Rightarrow> ('k, 'p) signer \<Rightarrow> 't op_typed_transaction \<Rightarrow> string + 't recovered" where
  "signer_sign_tx sp signature_hash sg tx = and_then (sign_message sp sg (tx_signature_hash signature_hash tx)) (\<lambda>signature.
     Inr \<lparr>rv_tx = tx, rv_signature = signature, rv_signer = sg_address sg\<rparr>)"

section \<open>Recovery\<close>

text \<open>How the chain finds the sender of a signed transaction: only the parity of the id is part of a signature.\<close>

definition recover_address :: "ext \<Rightarrow> ('k, 'p) secp \<Rightarrow> b256 \<Rightarrow> signature \<Rightarrow> address option" where
  "recover_address E sp hash s = map_option (public_key_to_address E sp)
     (sp_recover sp (be_bytes 32 (unat hash)) (if sig_y_parity s then 1 else 0) (be_bytes 32 (unat (sig_r s)) @ be_bytes 32 (unat (sig_s s))))"

lemma be_bytes_word_of_be: "length bs = 32 \<Longrightarrow> be_bytes 32 (unat (word_of_be bs :: u256)) = bs"
proof -
  assume l: "length bs = 32"
  have "be_value bs < 2 ^ 256" using be_value_less [of bs] l by simp
  then have "unat (word_of_be bs :: u256) = be_value bs" by (simp add: word_of_be_def unat_of_nat)
  with be_bytes_be_value [of bs] l show ?thesis by simp
qed

text \<open>An address is the last 160 bits of the hash of the key.\<close>

lemma public_key_address: "public_key_to_address E sp p = ucast (keccak256 E (slice_of 1 65 (sp_uncompressed sp p)))"
proof -
  have "word_of_be (slice_of 12 32 (be_bytes 32 (unat h))) = (ucast h :: address)" for h :: b256
  proof -
    have "slice_of 12 32 (be_bytes 32 (unat h)) = be_bytes 20 (unat h)"
      using be_bytes_split [of 12 20 "unat h"] by (simp add: slice_of_def)
    then have "word_of_be (slice_of 12 32 (be_bytes 32 (unat h))) = (of_nat (unat h mod 256 ^ 20) :: address)"
      by (simp add: word_of_be_def be_value_be_bytes)
    also have "\<dots> = (of_nat (unat h) :: address)"
      by (subst word_of_nat_eq_iff) (simp only: take_bit_eq_mod, simp)
    also have "\<dots> = ucast h" by (simp add: of_nat_unat)
    finally show ?thesis .
  qed
  then show ?thesis by (simp add: public_key_to_address_def Let_def)
qed

text \<open>
  A digest has the length that the curve asks for, so signing does not fail, and the two halves of the
  signature are the 64 bytes of the curve.
\<close>

lemma sign_message_ok:
  assumes "secp_laws sp"
  defines "m h \<equiv> be_bytes 32 (unat (h :: b256))"
  shows "\<exists>s. sign_message sp sg h = Inr s \<and> be_bytes 32 (unat (sig_r s)) @ be_bytes 32 (unat (sig_s s)) = snd (sp_sign sp (m h) (sg_secret sg)) \<and>
    sig_y_parity s = (fst (sp_sign sp (m h) (sg_secret sg)) \<noteq> 0)"
proof -
  obtain rec_id data where d: "sp_sign sp (m h) (sg_secret sg) = (rec_id, data)" by (cases "sp_sign sp (m h) (sg_secret sg)")
  have l: "length data = 64" using assms(1) d unfolding secp_laws_def by (metis snd_conv)
  have e: "sp_message sp (m h) = Inr (m h)" using assms(1) by (simp add: secp_laws_def m_def)
  have "length (slice_of 0 32 data) = 32" "length (slice_of 32 64 data) = 32" "slice_of 0 32 data @ slice_of 32 64 data = data"
    using l by (simp_all add: slice_of_def)
  with e d show ?thesis unfolding m_def sign_message_def by (simp add: be_bytes_word_of_be)
qed

text \<open>
  Signing a transaction succeeds and keeps it, and with a signature whose id is a parity (an id of 2 or 3,
  for a curve point beyond the group order, has no form on the chain) the chain recovers the address of
  the signer, which is the address of its secret.
\<close>

lemma signed_tx_recovers:
  assumes "secp_laws sp" "try_from_secret E sp secret = Inr sg"
    and "fst (sp_sign sp (be_bytes 32 (unat (tx_signature_hash sh tx))) (sg_secret sg)) \<le> 1"
  shows "\<exists>rv. signer_sign_tx sp sh sg tx = Inr rv \<and> rv_tx rv = tx \<and> rv_signer rv = sg_address sg \<and>
    recover_address E sp (tx_signature_hash sh tx) (rv_signature rv) = Some (sg_address sg)"
proof -
  let ?h = "tx_signature_hash sh tx"
  let ?sign = "sp_sign sp (be_bytes 32 (unat ?h)) (sg_secret sg)"
  obtain s where s: "sign_message sp sg ?h = Inr s" "be_bytes 32 (unat (sig_r s)) @ be_bytes 32 (unat (sig_s s)) = snd ?sign"
    "sig_y_parity s = (fst ?sign \<noteq> 0)" using sign_message_ok [OF assms(1)] by blast
  have "(if sig_y_parity s then 1 else 0) = fst ?sign" using s(3) assms(3) by auto
  moreover have "sp_recover sp (be_bytes 32 (unat ?h)) (fst ?sign) (snd ?sign) = Some (sp_public sp (sg_secret sg))"
    using assms(1) by (simp add: secp_laws_def)
  moreover have "public_key_to_address E sp (sp_public sp (sg_secret sg)) = sg_address sg"
    using assms(2) by (cases "sp_secret sp (be_bytes 32 (unat secret))") (auto simp: try_from_secret_def Let_def)
  ultimately have "recover_address E sp ?h s = Some (sg_address sg)" using s(2) by (simp add: recover_address_def)
  with s(1) show ?thesis by (simp add: signer_sign_tx_def and_then_def)
qed

section \<open>The builder's own transactions\<close>

text \<open>The signing of the builder over a signer; \<open>view\<close> gives the rest of what the pool knows of a transaction.\<close>

definition signer_lib :: "('k, 'p) secp \<Rightarrow> (tx_eip1559 op_typed_transaction \<Rightarrow> b256) \<Rightarrow> (tx_eip1559 recovered \<Rightarrow> pool_tx) \<Rightarrow> ('k, 'p) signer
    \<Rightarrow> 'd builder_lib \<Rightarrow> 'd builder_lib" where
  "signer_lib sp sh view sg L = L\<lparr>lb_sign_tx := \<lambda>_ tx. map_sum id (\<lambda>rv. (view rv)\<lparr>px_signer := rv_signer rv\<rparr>) (signer_sign_tx sp sh sg (OtEip1559 tx))\<rparr>"

lemma builder_tx_from_signer:
  assumes "secp_laws sp" "get_nonce w db (sg_address sg) = Inr nonce"
  shows "\<exists>tx. signed_builder_tx cx w (signer_lib sp sh view sg L) db (sg_address sg) gas_used message = Inr tx \<and> px_signer tx = sg_address sg"
proof -
  have "\<exists>rv. signer_sign_tx sp sh sg t = Inr rv \<and> rv_signer rv = sg_address sg" for t
    using sign_message_ok [OF assms(1), of sg "tx_signature_hash sh t"] by (auto simp: signer_sign_tx_def and_then_def)
  then obtain f where "\<And>t. signer_sign_tx sp sh sg t = Inr (f t) \<and> rv_signer (f t) = sg_address sg" by metis
  with assms(2) show ?thesis by (simp add: signed_builder_tx_def signer_lib_def)
qed

section \<open>A curve\<close>

definition sample_secp :: "(u256, u256) secp" where
  "sample_secp = \<lparr>sp_secret = \<lambda>bs. if be_value bs = 0 then Inl ''malformed or out-of-range secret key'' else Inr (word_of_be bs),
     sp_public = \<lambda>k. k, sp_uncompressed = \<lambda>p. 4 # be_bytes 64 (unat p),
     sp_message = \<lambda>m. if length m = 32 then Inr m else Inl ''malformed message'',
     sp_sign = \<lambda>m k. (be_value m mod 2, be_bytes 64 (unat k)), sp_recover = \<lambda>m i data. Some (word_of_be data)\<rparr>"

lemma sample_secp_laws: "secp_laws sample_secp"
proof -
  have "unat k mod 256 ^ 64 = unat k" for k :: u256
  proof -
    have "unat k < 2 ^ 256" using unsigned_less [where w = k] by simp
    then show ?thesis by (intro mod_less) simp
  qed
  then have "word_of_be (be_bytes 64 (unat k)) = k" for k :: u256 by (simp add: word_of_be_def be_value_be_bytes)
  then show ?thesis by (simp add: secp_laws_def sample_secp_def)
qed

text \<open>A signer over it signs a transaction that recovers to it, and the zero secret is refused.\<close>

lemma sample_signer_recovers:
  "\<exists>sg rv. try_from_secret sample_ext sample_secp 7 = Inr sg \<and> signer_sign_tx sample_secp (\<lambda>_. 9) sg (OtLegacy ()) = Inr rv \<and>
     recover_address sample_ext sample_secp 9 (rv_signature rv) = Some (sg_address sg)"
proof -
  have b: "be_value (be_bytes 32 7) = 7" "be_value (be_bytes 32 9) = 9" by (simp_all add: be_value_be_bytes)
  then obtain sg where sg: "try_from_secret sample_ext sample_secp 7 = Inr sg"
    by (simp add: try_from_secret_def sample_secp_def Let_def)
  have "fst (sp_sign sample_secp (be_bytes 32 (unat (tx_signature_hash (\<lambda>_. 9) (OtLegacy ())))) (sg_secret sg)) \<le> 1"
    using b by (simp add: sample_secp_def tx_signature_hash_def)
  from signed_tx_recovers [OF sample_secp_laws sg this] sg show ?thesis by (auto simp: tx_signature_hash_def)
qed

lemma zero_secret_refused: "signer_from_str E sample_secp (\<lambda>_. Inr 0) s = Inl (''invalid secret key '' @ [CHR 0x22] @ ''malformed or out-of-range secret key'' @ [CHR 0x22])"
  by (simp add: signer_from_str_def try_from_secret_def sample_secp_def and_then_def be_value_be_bytes)

end
