(* ===== verification/Node_Config.thy ===== *)
theory Node_Config
  imports Payload_Handler
begin

text \<open>
  From command-line arguments to the configuration of the parts (\<open>crates/builder/src/flashblocks/mod.rs\<close>,
  \<open>crates/builder/src/args/op.rs\<close>, \<open>bin/node/src/args.rs\<close>). Parsing the command line, of addresses and of
  URLs is done by libraries and a parameter.
\<close>

section \<open>The filter\<close>

record rcs_filter_args =
  ra_enabled :: bool
  ra_rcs_base_url :: "string option"
  ra_connect_timeout_ms :: nat
  ra_request_timeout_ms :: nat
  ra_retry_initial_backoff_ms :: nat
  ra_retry_max_backoff_ms :: nat
  ra_batch_window_ms :: nat
  ra_submit_max_concurrency :: nat
  ra_submitted_confirmation_timeout_seconds :: nat
  ra_risk_module_unresponsive_timeout_seconds :: nat
  ra_total_retry_timeout_seconds :: nat
  ra_rules_version_poll_interval_ms :: nat
  ra_terminal_entry_retention_seconds :: nat
  ra_max_native_transfers_per_tx :: nat
  ra_max_event_bindings_per_tx :: nat

definition filter_config_of :: "rcs_filter_args \<Rightarrow> string \<Rightarrow> filter_config" where
  "filter_config_of args rcs_base_url =
     \<lparr>fc_enabled = True, fc_rcs_base_url = rcs_base_url, fc_connect_timeout = from_millis (ra_connect_timeout_ms args),
      fc_request_timeout = from_millis (ra_request_timeout_ms args), fc_retry_initial_backoff = from_millis (ra_retry_initial_backoff_ms args),
      fc_retry_max_backoff = from_millis (ra_retry_max_backoff_ms args), fc_batch_window = from_millis (ra_batch_window_ms args),
      fc_submit_max_concurrency = ra_submit_max_concurrency args,
      fc_submitted_confirmation_timeout = from_secs (ra_submitted_confirmation_timeout_seconds args),
      fc_risk_module_unresponsive_timeout = from_secs (ra_risk_module_unresponsive_timeout_seconds args),
      fc_total_retry_timeout = from_secs (ra_total_retry_timeout_seconds args),
      fc_rules_version_poll_interval = from_millis (ra_rules_version_poll_interval_ms args),
      fc_terminal_entry_retention = from_secs (ra_terminal_entry_retention_seconds args),
      fc_max_native_transfers_per_tx = ra_max_native_transfers_per_tx args, fc_max_event_bindings_per_tx = ra_max_event_bindings_per_tx args\<rparr>"

datatype config_error = CeMessage string | CeFilter filter_error | CeAddress string

definition build_rcs_filter_config :: "rcs_filter_args \<Rightarrow> config_error + filter_config option" where
  "build_rcs_filter_config args =
     (if ra_max_native_transfers_per_tx args = 0
      then Inl (CeMessage ''rcs-filter --rcs-filter.max-native-transfers-per-tx must be >= 1'')
      else if ra_max_event_bindings_per_tx args = 0
      then Inl (CeMessage ''rcs-filter --rcs-filter.max-event-bindings-per-tx must be >= 1'')
      else if \<not> ra_enabled args then Inr None
      else (case ra_rcs_base_url args of
              None \<Rightarrow> Inl (CeMessage ''rcs-filter enabled but --rcs-filter.rcs-base-url is missing'')
            | Some rcs_base_url \<Rightarrow>
                let config = filter_config_of args rcs_base_url in
                and_then (map_sum CeFilter id (validate_config config)) (\<lambda>_. Inr (Some config))))"

text \<open>The client of the service can fail to be made; a handle is its configuration here.\<close>

definition build_rcs_filter_handle :: "(filter_config \<Rightarrow> bool) \<Rightarrow> rcs_filter_args \<Rightarrow> config_error + filter_config option" where
  "build_rcs_filter_handle client_ok args = and_then (build_rcs_filter_config args) (\<lambda>c. case c of
       None \<Rightarrow> Inr None
     | Some config \<Rightarrow> if client_ok config then Inr (Some config) else Inl (CeMessage ''client''))"

text \<open>
  Screening is never switched off by mistake. A filter that is enabled on the command line is either
  refused at the start of the node or comes up with a configuration that is enabled and valid: a service
  address, every duration positive, connecting not slower than a request, a retention longer than the
  total time-out, and positive budgets; only a filter that is not enabled is left out.
\<close>

lemma enabled_filter_is_configured:
  assumes "build_rcs_filter_handle client_ok args = Inr c"
  shows "(c = None \<longleftrightarrow> \<not> ra_enabled args) \<and> (\<forall>config. c = Some config \<longrightarrow>
    fc_enabled config \<and> validate_config config = Inr () \<and> trim (fc_rcs_base_url config) \<noteq> [] \<and>
    0 < fc_batch_window config \<and> 0 < fc_connect_timeout config \<and> fc_connect_timeout config \<le> fc_request_timeout config \<and>
    fc_request_timeout config < fc_total_retry_timeout config \<and> fc_total_retry_timeout config < fc_terminal_entry_retention config \<and>
    0 < fc_max_native_transfers_per_tx config \<and> 0 < fc_max_event_bindings_per_tx config)"
proof -
  have valid: "trim (fc_rcs_base_url k) \<noteq> [] \<and> 0 < fc_batch_window k \<and> 0 < fc_connect_timeout k \<and> fc_connect_timeout k \<le> fc_request_timeout k \<and>
      fc_request_timeout k < fc_total_retry_timeout k \<and> fc_total_retry_timeout k < fc_terminal_entry_retention k \<and>
      0 < fc_max_native_transfers_per_tx k \<and> 0 < fc_max_event_bindings_per_tx k" if "validate_config k = Inr ()" "fc_enabled k" for k
    using that by (simp add: validate_config_def not_le not_less split: if_splits)
  obtain a where a: "build_rcs_filter_config args = Inr a"
    and b: "(case a of None \<Rightarrow> Inr None | Some config \<Rightarrow> if client_ok config then Inr (Some config) else Inl (CeMessage ''client'')) = Inr c"
    using assms by (auto simp: build_rcs_filter_handle_def and_then_Inr)
  from b have "a = c" by (cases a) (auto split: if_splits)
  with a have c: "build_rcs_filter_config args = Inr c" by simp
  show ?thesis
  proof (cases c)
    case None
    with c show ?thesis by (auto simp: build_rcs_filter_config_def and_then_Inr Let_def split: if_splits option.splits)
  next
    case (Some config)
    with c have "ra_enabled args" "\<exists>url. config = filter_config_of args url" "validate_config config = Inr ()"
      by (auto simp: build_rcs_filter_config_def and_then_Inr map_sum_Inr_iff Let_def split: if_splits option.splits)
    moreover from this(2) have "fc_enabled config" by (auto simp: filter_config_of_def)
    ultimately show ?thesis using valid Some by simp
  qed
qed

section \<open>The builder\<close>

record flashblocks_p2p_args =
  pa_p2p_enabled :: bool
  pa_p2p_port :: nat
  pa_p2p_private_key_file :: "string option"
  pa_p2p_known_peers :: "string option"
  pa_p2p_max_peer_count :: nat
  pa_p2p_send_full_payload :: bool
  pa_p2p_process_full_payload :: bool

text \<open>
  The options of the builder that reach its configuration; the switch of the flashblocks, the playground
  and the log of the pool are read elsewhere. The secret key of the signer is a number.
\<close>

record builder_args =
  ba_builder_signer :: "nat option"
  ba_chain_block_time :: nat
  ba_max_gas_per_txn :: "nat option"
  ba_extra_block_deadline_secs :: nat
  ba_gasless_block_gas_limit_raw :: "nat option"
  ba_flashblocks_addr :: string
  ba_flashblocks_port :: nat
  ba_flashblocks_block_time :: nat
  ba_flashblocks_disable_state_root :: bool
  ba_flashblocks_disable_async_calculate_state_root :: bool
  ba_flashblocks_number_contract_address :: "address option"
  ba_flashblocks_send_offset_ms :: int
  ba_flashblocks_end_buffer_ms :: nat
  ba_p2p :: flashblocks_p2p_args
  ba_ws_subscriber_limit :: "nat option"
  ba_replay_from_persistence_file :: bool
  ba_rcs_filter :: rcs_filter_args

text \<open>
  The configuration: what a build reads of it is \<open>bc_build\<close>. The limits of the data availability and
  of the gas start at their defaults, which are no limits, and are shared with the node that sets them.
\<close>

record builder_config =
  bc_builder_signer :: "nat option"
  bc_build :: build_config
  bc_ws_addr :: "string \<times> nat"
  bc_number_contract_address :: "address option"
  bc_block_time_leeway :: nat
  bc_max_gas_per_txn :: "nat option"
  bc_gasless_block_gas_limit :: "nat option"
  bc_p2p :: flashblocks_p2p_args
  bc_ws_subscriber_limit :: "nat option"
  bc_replay_from_persistence_file :: bool
  bc_rcs_filter :: "filter_config option"

definition gasless_block_gas_limit :: "builder_args \<Rightarrow> nat option" where
  "gasless_block_gas_limit args = (case ba_gasless_block_gas_limit_raw args of Some v \<Rightarrow> if v > 0 then Some v else None | None \<Rightarrow> None)"

definition builder_config_try_from :: "(string \<Rightarrow> bool) \<Rightarrow> (filter_config \<Rightarrow> bool) \<Rightarrow> builder_args \<Rightarrow> config_error + builder_config" where
  "builder_config_try_from addr_parses client_ok args =
     (if \<not> addr_parses (ba_flashblocks_addr args) then Inl (CeAddress (ba_flashblocks_addr args))
      else map_sum id (\<lambda>rcs_filter.
        \<lparr>bc_builder_signer = ba_builder_signer args,
         bc_build = \<lparr>bg_flashblocks = \<lparr>fbc_interval = from_millis (ba_flashblocks_block_time args), fbc_send_offset_ms = ba_flashblocks_send_offset_ms args,
             fbc_end_buffer_ms = ba_flashblocks_end_buffer_ms args\<rparr>, bg_block_time = from_millis (ba_chain_block_time args),
           bg_disable_state_root = ba_flashblocks_disable_state_root args,
           bg_disable_async_calculate_state_root = ba_flashblocks_disable_async_calculate_state_root args\<rparr>,
         bc_ws_addr = (ba_flashblocks_addr args, ba_flashblocks_port args),
         bc_number_contract_address = ba_flashblocks_number_contract_address args,
         bc_block_time_leeway = from_secs (ba_extra_block_deadline_secs args), bc_max_gas_per_txn = ba_max_gas_per_txn args,
         bc_gasless_block_gas_limit = gasless_block_gas_limit args, bc_p2p = ba_p2p args,
         bc_ws_subscriber_limit = ba_ws_subscriber_limit args, bc_replay_from_persistence_file = ba_replay_from_persistence_file args, bc_rcs_filter = rcs_filter\<rparr>)
       (build_rcs_filter_handle client_ok (ba_rcs_filter args)))"

lemma gasless_limit_positive: "gasless_block_gas_limit args = Some v \<Longrightarrow> 0 < v"
  by (auto simp: gasless_block_gas_limit_def split: option.splits if_splits)

text \<open>With an enabled filter, the handler never executes payloads of others, whatever the peer-to-peer flags say.\<close>

lemma filtered_node_never_processes:
  assumes "builder_config_try_from addr_parses client_ok args = Inr config" "ra_enabled (ba_rcs_filter args)"
    and "st_rcs_filter st = (bc_rcs_filter config \<noteq> None)"
  shows "\<not> hf_process_full_payload (service_flags (pa_p2p_send_full_payload (bc_p2p config)) (pa_p2p_process_full_payload (bc_p2p config)) st)"
proof -
  obtain c where c: "build_rcs_filter_handle client_ok (ba_rcs_filter args) = Inr c" "bc_rcs_filter config = c"
    using assms(1) by (auto simp: builder_config_try_from_def map_sum_Inr_iff split: if_splits)
  have "c \<noteq> None" using c(1) assms(2) by (auto simp: build_rcs_filter_handle_def build_rcs_filter_config_def and_then_Inr Let_def split: if_splits option.splits)
  with assms(3) c(2) show ?thesis by (simp add: service_flags_def)
qed

section \<open>Defaults\<close>

text \<open>The options without arguments and without variables of the environment.\<close>

definition rcs_filter_args_default :: rcs_filter_args where
  "rcs_filter_args_default = \<lparr>ra_enabled = False, ra_rcs_base_url = None, ra_connect_timeout_ms = 1000, ra_request_timeout_ms = 3000,
     ra_retry_initial_backoff_ms = 200, ra_retry_max_backoff_ms = 5000, ra_batch_window_ms = 200, ra_submit_max_concurrency = 1,
     ra_submitted_confirmation_timeout_seconds = 8, ra_risk_module_unresponsive_timeout_seconds = 20, ra_total_retry_timeout_seconds = 90,
     ra_rules_version_poll_interval_ms = 2000, ra_terminal_entry_retention_seconds = 300, ra_max_native_transfers_per_tx = 10000,
     ra_max_event_bindings_per_tx = 10000\<rparr>"

definition flashblocks_p2p_args_default :: flashblocks_p2p_args where
  "flashblocks_p2p_args_default = \<lparr>pa_p2p_enabled = False, pa_p2p_port = 9009, pa_p2p_private_key_file = None, pa_p2p_known_peers = None,
     pa_p2p_max_peer_count = 50, pa_p2p_send_full_payload = False, pa_p2p_process_full_payload = False\<rparr>"

definition builder_args_default :: builder_args where
  "builder_args_default = \<lparr>ba_builder_signer = None, ba_chain_block_time = 1000, ba_max_gas_per_txn = None, ba_extra_block_deadline_secs = 20,
     ba_gasless_block_gas_limit_raw = Some 60000000, ba_flashblocks_addr = ''127.0.0.1'', ba_flashblocks_port = 1111,
     ba_flashblocks_block_time = 250, ba_flashblocks_disable_state_root = False, ba_flashblocks_disable_async_calculate_state_root = False,
     ba_flashblocks_number_contract_address = None, ba_flashblocks_send_offset_ms = 0, ba_flashblocks_end_buffer_ms = 0,
     ba_p2p = flashblocks_p2p_args_default, ba_ws_subscriber_limit = Some 256, ba_replay_from_persistence_file = False,
     ba_rcs_filter = rcs_filter_args_default\<rparr>"

text \<open>
  The defaults fit together: the filter starts with nothing but its switch and an address given, and a
  builder starts without any option.
\<close>

lemma default_filter_starts:
  assumes "trim url \<noteq> []" "client_ok (filter_config_of rcs_filter_args_default url)"
  shows "build_rcs_filter_handle client_ok (rcs_filter_args_default\<lparr>ra_enabled := True, ra_rcs_base_url := Some url\<rparr>) =
    Inr (Some (filter_config_of rcs_filter_args_default url))"
proof -
  let ?args = "rcs_filter_args_default\<lparr>ra_enabled := True, ra_rcs_base_url := Some url\<rparr>"
  have c: "filter_config_of ?args url = filter_config_of rcs_filter_args_default url" by (simp add: filter_config_of_def)
  have "validate_config (filter_config_of rcs_filter_args_default url) = Inr ()"
    using assms(1) by (simp add: validate_config_def filter_config_of_def rcs_filter_args_default_def from_millis_def from_secs_def max_submit_concurrency_def)
  with assms(2) show ?thesis
    by (simp add: build_rcs_filter_handle_def build_rcs_filter_config_def c Let_def and_then_def) (simp add: rcs_filter_args_default_def)
qed

lemma default_builder_starts:
  "addr_parses ''127.0.0.1'' \<Longrightarrow> \<exists>config. builder_config_try_from addr_parses client_ok builder_args_default = Inr config \<and>
     bc_rcs_filter config = None \<and> bc_gasless_block_gas_limit config = Some 60000000"
  by (simp add: builder_config_try_from_def builder_args_default_def build_rcs_filter_handle_def build_rcs_filter_config_def
      rcs_filter_args_default_def and_then_def gasless_block_gas_limit_def)

section \<open>Interception\<close>

record x_layer_intercept_args =
  xi_enabled :: bool
  xi_bridge_contract :: "string option"
  xi_target_token :: "string option"

definition validate_intercept_args :: "(string \<Rightarrow> address option) \<Rightarrow> x_layer_intercept_args \<Rightarrow> string + unit" where
  "validate_intercept_args parse args =
     (if \<not> xi_enabled args then Inr ()
      else (case xi_bridge_contract args of
        None \<Rightarrow> Inl ''--xlayer.intercept.bridge-contract is required when interception is enabled''
      | Some addr \<Rightarrow>
          if parse addr = None then Inl (''Invalid bridge contract address: '' @ addr)
          else (case xi_target_token args of
                  Some token \<Rightarrow>
                    if token \<noteq> [] \<and> token \<noteq> ''*'' \<and> parse token = None then Inl (''Invalid target token address: '' @ token) else Inr ()
                | None \<Rightarrow> Inr ())))"

text \<open>\<open>None\<close> is a panic of one of the unchecked parses.\<close>

definition to_bridge_intercept_config :: "(string \<Rightarrow> address option) \<Rightarrow> x_layer_intercept_args \<Rightarrow> (string + bridge_intercept_config) option" where
  "to_bridge_intercept_config parse args = (case validate_intercept_args parse args of
       Inl e \<Rightarrow> Some (Inl e)
     | Inr _ \<Rightarrow>
         if \<not> xi_enabled args
         then Some (Inr \<lparr>bi_enabled = False, bi_bridge_contract_address = 0, bi_target_token_address = 0, bi_wildcard = False\<rparr>)
         else
           (case (case xi_bridge_contract args of Some a \<Rightarrow> parse a | None \<Rightarrow> Some 0) of
              None \<Rightarrow> None
            | Some bridge \<Rightarrow>
                (case xi_target_token args of
                   Some token \<Rightarrow>
                     if token = [] \<or> token = ''*''
                     then Some (Inr \<lparr>bi_enabled = True, bi_bridge_contract_address = bridge, bi_target_token_address = 0, bi_wildcard = True\<rparr>)
                     else map_option (\<lambda>t. Inr \<lparr>bi_enabled = True, bi_bridge_contract_address = bridge, bi_target_token_address = t, bi_wildcard = False\<rparr>)
                       (parse token)
                 | None \<Rightarrow> Some (Inr \<lparr>bi_enabled = True, bi_bridge_contract_address = bridge, bi_target_token_address = 0, bi_wildcard = True\<rparr>))))"

text \<open>
  The interception that the command line asks for is the one that is configured. The conversion
  never panics; when it succeeds with interception enabled, the contract is the parsed address, and the
  configuration blocks either everything, exactly when no token, an empty one or a star was given, or
  the parsed token; without interception nothing is blocked.
\<close>

lemma intercept_config_as_asked:
  "\<exists>r. to_bridge_intercept_config parse args = Some r \<and>
     (case r of
        Inl e \<Rightarrow> xi_enabled args \<and> validate_intercept_args parse args = Inl e
      | Inr cfg \<Rightarrow> bi_enabled cfg = xi_enabled args \<and>
          (if xi_enabled args then Option.bind (xi_bridge_contract args) parse = Some (bi_bridge_contract_address cfg) \<and>
             (if xi_target_token args \<in> {None, Some [], Some ''*''} then bi_wildcard cfg
              else \<not> bi_wildcard cfg \<and> Option.bind (xi_target_token args) parse = Some (bi_target_token_address cfg))
           else \<not> bi_wildcard cfg))"
  by (cases "xi_enabled args"; cases "xi_bridge_contract args"; cases "xi_target_token args")
    (auto simp: to_bridge_intercept_config_def validate_intercept_args_def split: option.splits)

section \<open>The node\<close>

record legacy_rpc_args =
  la_legacy_rpc_url :: "string option"
  la_legacy_rpc_timeout :: nat

definition validate_legacy_args :: "(string \<Rightarrow> string + unit) \<Rightarrow> legacy_rpc_args \<Rightarrow> string + unit" where
  "validate_legacy_args parse_url args = (case la_legacy_rpc_url args of
       None \<Rightarrow> Inr ()
     | Some url \<Rightarrow>
         and_then (map_sum (\<lambda>e. ''Invalid legacy RPC URL '' @ quote_str url @ '': '' @ e) id (parse_url url)) (\<lambda>_.
           if la_legacy_rpc_timeout args = 0 then Inl ''Legacy RPC timeout must be greater than zero'' else Inr ()))"

definition validate_xlayer_args :: "(string \<Rightarrow> string + unit) \<Rightarrow> (string \<Rightarrow> address option) \<Rightarrow> legacy_rpc_args \<Rightarrow> x_layer_intercept_args \<Rightarrow> string + unit" where
  "validate_xlayer_args parse_url parse legacy intercept =
     and_then (validate_legacy_args parse_url legacy) (\<lambda>_. validate_intercept_args parse intercept)"

text \<open>The value of the first chain option.\<close>

fun chain_option :: "string list \<Rightarrow> string option" where
  "chain_option [] = None"
| "chain_option (arg # rest) =
     (if arg = ''--chain'' \<and> rest \<noteq> [] then Some (hd rest)
      else (case strip_prefix ''--chain='' arg of Some v \<Rightarrow> Some v | None \<Rightarrow> chain_option rest))"

text \<open>Whether the node goes on.\<close>

definition validate_init_command :: "string list \<Rightarrow> bool" where
  "validate_init_command args \<longleftrightarrow> length args < 2 \<or> args ! 1 \<noteq> ''init'' \<or> chain_option args \<notin> {Some ''xlayer-mainnet'', Some ''xlayer-testnet''}"

section \<open>An instance\<close>

definition sample_rcs_args :: rcs_filter_args where
  "sample_rcs_args = \<lparr>ra_enabled = True, ra_rcs_base_url = Some ''http://rcs'', ra_connect_timeout_ms = 1000, ra_request_timeout_ms = 3000,
     ra_retry_initial_backoff_ms = 200, ra_retry_max_backoff_ms = 5000, ra_batch_window_ms = 200, ra_submit_max_concurrency = 1,
     ra_submitted_confirmation_timeout_seconds = 8, ra_risk_module_unresponsive_timeout_seconds = 20, ra_total_retry_timeout_seconds = 90,
     ra_rules_version_poll_interval_ms = 2000, ra_terminal_entry_retention_seconds = 300, ra_max_native_transfers_per_tx = 10000,
     ra_max_event_bindings_per_tx = 10000\<rparr>"

lemma sample_rcs_handle: "build_rcs_filter_handle (\<lambda>_. True) sample_rcs_args = Inr (Some (filter_config_of sample_rcs_args ''http://rcs''))"
  by code_simp

lemma enabled_filter_is_configured_witness:
  "\<exists>config. build_rcs_filter_handle (\<lambda>_. True) sample_rcs_args = Inr (Some config) \<and> validate_config config = Inr () \<and> 0 < fc_batch_window config"
  using enabled_filter_is_configured [OF sample_rcs_handle] sample_rcs_handle by auto

end
