(* ===== verification/P2p_Node.thy ===== *)
theory P2p_Node
  imports Prelude
begin

text \<open>
  The node that connects builders (\<open>crates/builder/src/p2p\<close>: \<open>mod.rs\<close>, \<open>outgoing.rs\<close>, and the handling of
  discovered peers of \<open>behaviour.rs\<close>): which streams it keeps, what it writes to them, and what the
  receiving side decodes. The swarm, its connections and the outcome of opening and writing are
  events; a stream is the list of the lines written to it, and lines are delivered as they are.
\<close>

section \<open>Outgoing streams\<close>

type_synonym peer = nat

type_synonym stream = "string list"

record streams_handler =
  peers_to_stream :: "(peer, (string, stream) hmap) hmap"

definition streams_handler_new :: streams_handler where
  "streams_handler_new = \<lparr>peers_to_stream = []\<rparr>"

definition has_peer :: "streams_handler \<Rightarrow> peer \<Rightarrow> bool" where
  "has_peer h p \<longleftrightarrow> map_of (peers_to_stream h) p \<noteq> None"

definition insert_peer_and_stream :: "peer \<Rightarrow> string \<Rightarrow> stream \<Rightarrow> streams_handler \<Rightarrow> streams_handler" where
  "insert_peer_and_stream p protocol s h = h\<lparr>peers_to_stream :=
     AList.update p (AList.update protocol s (case map_of (peers_to_stream h) p of Some m \<Rightarrow> m | None \<Rightarrow> [])) (peers_to_stream h)\<rparr>"

definition remove_peer :: "peer \<Rightarrow> streams_handler \<Rightarrow> streams_handler" where
  "remove_peer p h = h\<lparr>peers_to_stream := AList.delete p (peers_to_stream h)\<rparr>"

text \<open>A message: its protocol and its text; what cannot be serialised is not sent.\<close>

record 'm message_codec =
  mc_protocol :: "'m \<Rightarrow> string"
  mc_to_string :: "'m \<Rightarrow> string option"
  mc_from_str :: "string \<Rightarrow> 'm option"

text \<open>The stream of a peer is taken out while it is written to, and put back when that succeeded.\<close>

definition send_to_peer :: "string \<Rightarrow> string \<Rightarrow> bool \<Rightarrow> (string, stream) hmap \<Rightarrow> (string, stream) hmap" where
  "send_to_peer protocol payload ok m = (case map_of m protocol of
       None \<Rightarrow> m
     | Some s \<Rightarrow> (let m1 = AList.delete protocol m in if ok then AList.update protocol (s @ [payload]) m1 else m1))"

definition broadcast_message :: "'m message_codec \<Rightarrow> 'm \<Rightarrow> (peer \<Rightarrow> bool) \<Rightarrow> streams_handler \<Rightarrow> bool \<times> streams_handler" where
  "broadcast_message mc message sends h = (case mc_to_string mc message of
       None \<Rightarrow> (False, h)
     | Some payload \<Rightarrow>
         (True, h\<lparr>peers_to_stream := map (\<lambda>(p, m). (p, send_to_peer (mc_protocol mc message) payload (sends p) m)) (peers_to_stream h)\<rparr>))"

section \<open>The node\<close>

text \<open>
  The node with the connections of its swarm, one entry for each; \<open>pn_dialed\<close> are the addresses it
  has dialled.
\<close>

record 'a p2p_node =
  pn_handler :: streams_handler
  pn_connections :: "peer list"
  pn_protocols :: "string list"
  pn_known_peers_info :: "(peer \<times> 'a) list"
  pn_dialed :: "(peer \<times> 'a) list"

text \<open>Known peers: an address without a peer ends the node at its start.\<close>

fun known_peers_info :: "('a \<Rightarrow> (peer \<times> 'a) option) \<Rightarrow> ('a \<Rightarrow> bool) \<Rightarrow> 'a list \<Rightarrow> string + (peer \<times> 'a) list" where
  "known_peers_info pop_peer dial [] = Inr []"
| "known_peers_info pop_peer dial (address # rest) = (case pop_peer address of
       None \<Rightarrow> Inl ''no peer ID for known peer''
     | Some (p, a) \<Rightarrow> if dial a then map_sum id (Cons (p, a)) (known_peers_info pop_peer dial rest) else Inl ''swarm failed to dial known peer'')"

definition node_start :: "('a \<Rightarrow> (peer \<times> 'a) option) \<Rightarrow> ('a \<Rightarrow> bool) \<Rightarrow> string list \<Rightarrow> 'a list \<Rightarrow> string + 'a p2p_node" where
  "node_start pop_peer dial protocols known_peers = map_sum id
     (\<lambda>info. \<lparr>pn_handler = streams_handler_new, pn_connections = [], pn_protocols = protocols, pn_known_peers_info = info, pn_dialed = info\<rparr>)
     (known_peers_info pop_peer dial known_peers)"

datatype 'a behaviour_event =
    BeAutonat
  | BeIdentify
  | BeMdnsDiscovered "(peer \<times> 'a) list"
  | BeMdnsExpired "(peer \<times> 'a) list"
  | BePing

datatype ('m, 'a) p2p_event =
    EvRetryTick
  | EvOutgoing 'm "peer \<Rightarrow> bool"
  | EvConnectionEstablished peer "string \<Rightarrow> bool"
  | EvConnectionClosed peer
  | EvBehaviour "'a behaviour_event"
  | EvOther

definition dial_disconnected :: "(peer \<times> 'a) list \<Rightarrow> 'a p2p_node \<Rightarrow> 'a p2p_node" where
  "dial_disconnected peers n = n\<lparr>pn_dialed := pn_dialed n @ filter (\<lambda>(p, _). p \<notin> set (pn_connections n)) peers\<rparr>"

definition behaviour_handle :: "'a behaviour_event \<Rightarrow> 'a p2p_node \<Rightarrow> 'a p2p_node" where
  "behaviour_handle ev n = (case ev of BeMdnsDiscovered peers \<Rightarrow> dial_disconnected peers n | _ \<Rightarrow> n)"

definition open_streams :: "peer \<Rightarrow> (string \<Rightarrow> bool) \<Rightarrow> string list \<Rightarrow> streams_handler \<Rightarrow> streams_handler" where
  "open_streams p opens protocols h = fold (\<lambda>protocol h. if opens protocol then insert_peer_and_stream p protocol [] h else h) protocols h"

fun node_event :: "'m message_codec \<Rightarrow> ('m, 'a) p2p_event \<Rightarrow> 'a p2p_node \<Rightarrow> 'a p2p_node" where
  "node_event mc EvRetryTick n = dial_disconnected (pn_known_peers_info n) n"
| "node_event mc (EvOutgoing message sends) n = n\<lparr>pn_handler := snd (broadcast_message mc message sends (pn_handler n))\<rparr>"
| "node_event mc (EvConnectionEstablished p opens) n =
     (let n1 = n\<lparr>pn_connections := p # pn_connections n\<rparr> in
      if has_peer (pn_handler n) p then n1 else n1\<lparr>pn_handler := open_streams p opens (pn_protocols n) (pn_handler n)\<rparr>)"
| "node_event mc (EvConnectionClosed p) n =
     n\<lparr>pn_connections := remove1 p (pn_connections n), pn_handler := remove_peer p (pn_handler n)\<rparr>"
| "node_event mc (EvBehaviour ev) n = behaviour_handle ev n"
| "node_event mc EvOther n = n"

section \<open>Incoming streams\<close>

text \<open>The messages passed on, and whether the stream ended without an error; the first line that cannot be decoded ends it.\<close>

fun handle_incoming_stream :: "'m message_codec \<Rightarrow> stream \<Rightarrow> 'm list \<times> bool" where
  "handle_incoming_stream mc [] = ([], True)"
| "handle_incoming_stream mc (line # ls) = (case mc_from_str mc line of
       None \<Rightarrow> ([], False)
     | Some m \<Rightarrow> apfst (Cons m) (handle_incoming_stream mc ls))"

section \<open>Delivery\<close>

definition stream_to :: "peer \<Rightarrow> string \<Rightarrow> 'a p2p_node \<Rightarrow> stream option" where
  "stream_to p protocol n = Option.bind (map_of (peers_to_stream (pn_handler n)) p) (\<lambda>m. map_of m protocol)"

lemma map_of_map_snd: "map_of (map (\<lambda>(k, v). (k, f k v)) xs) k = map_option (f k) (map_of xs k)"
  by (induction xs) auto

lemma map_of_send_to_peer:
  "map_of (send_to_peer protocol payload ok m) q =
     (if q = protocol then (case map_of m q of None \<Rightarrow> None | Some s \<Rightarrow> if ok then Some (s @ [payload]) else None) else map_of m q)"
  by (auto simp: send_to_peer_def Let_def update_conv' delete_conv' split: option.split)

lemma stream_to_outgoing:
  "stream_to p q (node_event mc (EvOutgoing message sends) n) = (case (mc_to_string mc message, stream_to p q n) of
       (Some payload, Some s) \<Rightarrow> if q = mc_protocol mc message then (if sends p then Some (s @ [payload]) else None) else Some s
     | (_, s) \<Rightarrow> s)"
  by (auto simp: stream_to_def broadcast_message_def map_of_map_snd map_of_send_to_peer split: option.split bind_splits)

lemma has_peer_outgoing [simp]: "has_peer (snd (broadcast_message mc message sends h)) p = has_peer h p"
  by (auto simp: has_peer_def broadcast_message_def map_of_map_snd split: option.split)

definition stream_in :: "peer \<Rightarrow> string \<Rightarrow> streams_handler \<Rightarrow> stream option" where
  "stream_in p protocol h = Option.bind (map_of (peers_to_stream h) p) (\<lambda>m. map_of m protocol)"

lemma stream_to_in: "stream_to p q n = stream_in p q (pn_handler n)"
  by (simp add: stream_to_def stream_in_def)

lemma stream_in_insert: "stream_in q x (insert_peer_and_stream p y s h) = (if q = p \<and> x = y then Some s else stream_in q x h)"
  by (auto simp: stream_in_def insert_peer_and_stream_def update_conv' split: option.split)

lemma has_peer_insert: "has_peer (insert_peer_and_stream p y s h) q \<longleftrightarrow> q = p \<or> has_peer h q"
  by (auto simp: has_peer_def insert_peer_and_stream_def update_conv')

lemma open_streams_Cons: "open_streams p opens (x # xs) h = open_streams p opens xs (if opens x then insert_peer_and_stream p x [] h else h)"
  by (simp add: open_streams_def)

lemma stream_in_open: "stream_in q x (open_streams p opens xs h) = (if q = p \<and> x \<in> set xs \<and> opens x then Some [] else stream_in q x h)"
proof (induction xs arbitrary: h)
  case (Cons y xs)
  show ?case by (auto simp: open_streams_Cons Cons.IH stream_in_insert)
qed (simp add: open_streams_def)

lemma has_peer_open: "has_peer h q \<Longrightarrow> has_peer (open_streams p opens xs h) q"
proof (induction xs arbitrary: h)
  case (Cons y xs)
  show ?case by (auto simp: open_streams_Cons has_peer_insert Cons.prems intro!: Cons.IH)
qed (simp add: open_streams_def)

lemma stream_to_established:
  "stream_to p q (node_event mc (EvConnectionEstablished p' opens) n) =
     (if p' = p \<and> \<not> has_peer (pn_handler n) p then if q \<in> set (pn_protocols n) \<and> opens q then Some [] else None else stream_to p q n)"
proof (cases "has_peer (pn_handler n) p'")
  case False
  then have "stream_in p' q (pn_handler n) = None" by (simp add: has_peer_def stream_in_def)
  with False show ?thesis by (auto simp: stream_to_in Let_def stream_in_open)
qed (auto simp: stream_to_in Let_def)

lemma stream_to_closed: "stream_to p q (node_event mc (EvConnectionClosed p') n) = (if p' = p then None else stream_to p q n)"
  by (simp add: stream_to_def remove_peer_def delete_conv')

lemma dial_disconnected_keeps [simp]:
  "stream_to p q (dial_disconnected ps n) = stream_to p q n" "pn_connections (dial_disconnected ps n) = pn_connections n"
  "pn_handler (dial_disconnected ps n) = pn_handler n"
  by (simp_all add: stream_to_def dial_disconnected_def)

lemma behaviour_handle_keeps [simp]:
  "stream_to p q (behaviour_handle ev n) = stream_to p q n" "pn_connections (behaviour_handle ev n) = pn_connections n"
  "pn_handler (behaviour_handle ev n) = pn_handler n"
  by (cases ev; simp add: behaviour_handle_def)+

lemma stream_has_peer: "stream_to p q n = Some s \<Longrightarrow> has_peer (pn_handler n) p"
  by (cases "map_of (peers_to_stream (pn_handler n)) p") (simp_all add: stream_to_def has_peer_def)

text \<open>Events other than that a connection to a peer is closed (even if it has another one) and that a write to it fails.\<close>

fun undisturbed :: "peer \<Rightarrow> ('m, 'a) p2p_event \<Rightarrow> bool" where
  "undisturbed p (EvConnectionClosed p') \<longleftrightarrow> p' \<noteq> p"
| "undisturbed p (EvOutgoing _ sends) \<longleftrightarrow> sends p"
| "undisturbed p _ = True"

fun outgoing :: "('m, 'a) p2p_event \<Rightarrow> 'm list" where
  "outgoing (EvOutgoing m _) = [m]"
| "outgoing _ = []"

lemma handle_incoming_append:
  assumes "handle_incoming_stream mc s = (ms, True)" "mc_from_str mc line = Some m"
  shows "handle_incoming_stream mc (s @ [line]) = (ms @ [m], True)"
  using assms
proof (induction s arbitrary: ms)
  case (Cons x s)
  then show ?case by (auto split: option.splits simp: apfst_def map_prod_def split: prod.splits)
qed simp

lemma undisturbed_delivery:
  assumes codec: "\<And>m. mc_protocol mc m = protocol" "\<And>m. \<exists>t. mc_to_string mc m = Some t \<and> mc_from_str mc t = Some m"
    and "list_all (undisturbed p) evs" "stream_to p protocol n = Some s" "handle_incoming_stream mc s = (ms, True)"
  shows "\<exists>s'. stream_to p protocol (fold (node_event mc) evs n) = Some s' \<and> handle_incoming_stream mc s' = (ms @ concat (map outgoing evs), True)"
  using assms(3-5)
proof (induction evs arbitrary: n s ms)
  case (Cons ev evs)
  show ?case
  proof (cases ev)
    case (EvOutgoing m sends)
    obtain t where t: "mc_to_string mc m = Some t" "mc_from_str mc t = Some m" using codec(2) by blast
    have "stream_to p protocol (node_event mc ev n) = Some (s @ [t])"
      unfolding EvOutgoing stream_to_outgoing using EvOutgoing Cons.prems(1,2) t codec(1) by simp
    from Cons.IH [OF _ this handle_incoming_append [OF Cons.prems(3) t(2)]] Cons.prems(1) EvOutgoing show ?thesis by simp
  next
    case (EvConnectionEstablished p' opens)
    have "stream_to p protocol (node_event mc ev n) = Some s"
      unfolding EvConnectionEstablished stream_to_established using Cons.prems(2) stream_has_peer by auto
    from Cons.IH [OF _ this Cons.prems(3)] Cons.prems(1) EvConnectionEstablished show ?thesis by simp
  next
    case (EvConnectionClosed p')
    have "stream_to p protocol (node_event mc ev n) = Some s"
      unfolding EvConnectionClosed stream_to_closed using EvConnectionClosed Cons.prems(1,2) by simp
    from Cons.IH [OF _ this Cons.prems(3)] Cons.prems(1) EvConnectionClosed show ?thesis by simp
  qed (use Cons.IH [OF _ _ Cons.prems(3), of "node_event mc ev n"] Cons.prems(1,2) in simp_all)
qed simp

text \<open>
  C27. A connected builder receives every message that is broadcast, in order. From the moment a
  connection to a peer without streams is established and its stream could be opened, and as long as no
  connection to that peer is closed (not even one of several) and no write to it fails, whatever happens
  with other peers, what the peer decodes from its stream is exactly the list of messages broadcast since
  (messages are of the protocol of that stream, and can be encoded and decoded).
\<close>

theorem peer_receives_broadcasts_in_order:
  assumes "\<And>m. mc_protocol mc m = protocol" "\<And>m. \<exists>t. mc_to_string mc m = Some t \<and> mc_from_str mc t = Some m"
    and "\<not> has_peer (pn_handler n) p" "protocol \<in> set (pn_protocols n)" "opens protocol" "list_all (undisturbed p) evs"
  shows "\<exists>s. stream_to p protocol (fold (node_event mc) evs (node_event mc (EvConnectionEstablished p opens) n)) = Some s \<and>
    handle_incoming_stream mc s = (concat (map outgoing evs), True)"
proof -
  have "stream_to p protocol (node_event mc (EvConnectionEstablished p opens) n) = Some []"
    unfolding stream_to_established using assms(3-5) by simp
  from undisturbed_delivery [OF assms(1,2,6) this, of "[]"] show ?thesis by simp
qed

section \<open>Peers that are no longer served\<close>

fun connects :: "peer \<Rightarrow> ('m, 'a) p2p_event \<Rightarrow> bool" where
  "connects p (EvConnectionEstablished p' _) \<longleftrightarrow> p' = p"
| "connects p (EvConnectionClosed p') \<longleftrightarrow> p' = p"
| "connects p _ = False"

lemma silent_stays:
  assumes "stream_to p protocol n = None" "p \<in> set (pn_connections n)" "\<not> list_ex (connects p) evs"
  shows "stream_to p protocol (fold (node_event mc) evs n) = None \<and> p \<in> set (pn_connections (fold (node_event mc) evs n))"
  using assms
proof (induction evs arbitrary: n)
  case (Cons ev evs)
  have "stream_to p protocol (node_event mc ev n) = None \<and> p \<in> set (pn_connections (node_event mc ev n))"
    using Cons.prems
  proof (cases ev)
    case (EvOutgoing m sends)
    then show ?thesis unfolding EvOutgoing stream_to_outgoing using Cons.prems by (simp split: option.split)
  next
    case (EvConnectionEstablished p' opens)
    then show ?thesis unfolding EvConnectionEstablished stream_to_established using Cons.prems EvConnectionEstablished by (simp add: Let_def)
  next
    case (EvConnectionClosed p')
    then show ?thesis unfolding EvConnectionClosed stream_to_closed using Cons.prems EvConnectionClosed by (simp add: in_set_remove1)
  qed simp_all
  with Cons show ?case by simp
qed simp

text \<open>
  Closing one of two connections to a peer silences it. When both sides have dialled, there are two
  connections; the end of one drops all streams of the peer, although the other stays. From then on the
  peer is connected, so it is not dialled again, and it has no stream, so no message reaches it, until a
  new connection is established or the remaining one closes.
\<close>

lemma second_connection_closed_silences_peer:
  assumes "\<not> list_ex (connects p) evs"
    and "n' = fold (node_event mc) ([EvConnectionEstablished p opens, EvConnectionEstablished p opens', EvConnectionClosed p] @ evs) n"
  shows "p \<in> set (pn_connections n') \<and> stream_to p protocol n' = None"
proof -
  let ?n3 = "fold (node_event mc) [EvConnectionEstablished p opens, EvConnectionEstablished p opens', EvConnectionClosed p] n"
  have "stream_to p protocol ?n3 = None" by (simp only: fold.simps id_apply o_apply stream_to_closed) simp
  moreover have "p \<in> set (pn_connections ?n3)" by (simp add: Let_def)
  ultimately show ?thesis using silent_stays [OF _ _ assms(1), of protocol ?n3 mc] unfolding assms(2) fold_append o_apply by blast
qed

text \<open>
  After a write to a peer that failed, no message of that protocol reaches it while the node knows the
  peer, even when further connections to it are established.
\<close>

lemma failed_send_silences_peer:
  assumes "has_peer (pn_handler n) p" "\<not> sends p" "mc_to_string mc m \<noteq> None" "EvConnectionClosed p \<notin> set evs"
  shows "stream_to p (mc_protocol mc m) (fold (node_event mc) (EvOutgoing m sends # evs) n) = None"
proof -
  let ?q = "mc_protocol mc m" and ?n1 = "node_event mc (EvOutgoing m sends) n"
  have start: "stream_to p ?q ?n1 = None" "has_peer (pn_handler ?n1) p"
    unfolding stream_to_outgoing using assms(1-3) by (auto split: option.split)
  have "stream_to p ?q (fold (node_event mc) evs n1) = None" if "stream_to p ?q n1 = None" "has_peer (pn_handler n1) p" for n1
    using that assms(4)
  proof (induction evs arbitrary: n1)
    case (Cons ev evs)
    have "stream_to p ?q (node_event mc ev n1) = None \<and> has_peer (pn_handler (node_event mc ev n1)) p"
    proof (cases ev)
      case (EvOutgoing m' sends')
      show ?thesis unfolding EvOutgoing stream_to_outgoing using Cons.prems by (simp split: option.split)
    next
      case (EvConnectionEstablished p' opens)
      show ?thesis unfolding EvConnectionEstablished stream_to_established using Cons.prems
        by (auto simp: Let_def intro: has_peer_open)
    next
      case (EvConnectionClosed p')
      then show ?thesis unfolding EvConnectionClosed stream_to_closed using Cons.prems EvConnectionClosed
        by (auto simp: has_peer_def remove_peer_def delete_conv')
    qed (use Cons.prems in simp_all)
    with Cons show ?case by simp
  qed simp
  from this [OF start] show ?thesis by simp
qed

section \<open>An instance\<close>

definition sample_codec :: "nat message_codec" where
  "sample_codec = \<lparr>mc_protocol = (\<lambda>_. ''/flashblocks/1.0.0''), mc_to_string = (\<lambda>m. Some (replicate m CHR ''x'')), mc_from_str = (\<lambda>s. Some (length s))\<rparr>"

definition sample_p2p_node :: "unit p2p_node" where
  "sample_p2p_node = \<lparr>pn_handler = streams_handler_new, pn_connections = [], pn_protocols = [''/flashblocks/1.0.0''], pn_known_peers_info = [(4, ())], pn_dialed = []\<rparr>"

theorem peer_receives_broadcasts_in_order_witness:
  "\<exists>s. stream_to 4 ''/flashblocks/1.0.0'' (fold (node_event sample_codec)
     [EvOutgoing 2 (\<lambda>_. True), EvConnectionEstablished 5 (\<lambda>_. True), EvOutgoing 3 (\<lambda>p. p = 4), EvRetryTick]
     (node_event sample_codec (EvConnectionEstablished 4 (\<lambda>_. True)) sample_p2p_node)) = Some s \<and> handle_incoming_stream sample_codec s = ([2, 3], True)"
proof -
  have c: "\<And>m. mc_protocol sample_codec m = ''/flashblocks/1.0.0''" "\<And>m. \<exists>t. mc_to_string sample_codec m = Some t \<and> mc_from_str sample_codec t = Some m"
    by (simp_all add: sample_codec_def)
  have n: "\<not> has_peer (pn_handler sample_p2p_node) 4" "''/flashblocks/1.0.0'' \<in> set (pn_protocols sample_p2p_node)"
    by (simp_all add: sample_p2p_node_def streams_handler_new_def has_peer_def)
  from peer_receives_broadcasts_in_order [OF c n, of "\<lambda>_. True"
      "[EvOutgoing 2 (\<lambda>_. True), EvConnectionEstablished 5 (\<lambda>_. True), EvOutgoing 3 (\<lambda>p. p = 4), EvRetryTick]"]
  show ?thesis by (simp del: fold.simps node_event.simps)
qed

lemma second_connection_closed_silences_peer_witness:
  "stream_to 4 ''/flashblocks/1.0.0'' (fold (node_event sample_codec) ([EvConnectionEstablished 4 (\<lambda>_. True), EvConnectionEstablished 4 (\<lambda>_. True),
     EvConnectionClosed 4] @ [EvRetryTick, EvOutgoing 2 (\<lambda>_. True)]) sample_p2p_node) = None"
proof -
  have "\<not> list_ex (connects 4) [EvRetryTick, EvOutgoing (2 :: nat) (\<lambda>_. True)]" by simp
  from second_connection_closed_silences_peer [OF this refl] show ?thesis by blast
qed

end
