(* ===== verification/Service_Startup.thy ===== *)
theory Service_Startup
  imports Node_Config P2p_Node
begin

text \<open>
  Starting the services of a builder: the construction of the peer-to-peer node
  (\<open>crates/builder/src/p2p/mod.rs\<close>, \<open>NodeBuilder\<close>) and the payload builder service with its tasks
  (\<open>crates/builder/src/flashblocks/service.rs\<close>). Keys, addresses, transports and sockets are libraries
  and a parameter; a service that is started is the record of what its parts were given.
\<close>

section \<open>The peer-to-peer node\<close>

text \<open>An address is the sequence of its protocols.\<close>

datatype protocol = P2pId peer | OtherProtocol string

type_synonym multiaddr = "protocol list"

text \<open>The library. \<open>pl_accept\<close> is told which protocols were registered before.\<close>

record 'k p2p_lib =
  pl_hex_decode :: "string \<Rightarrow> string + byte list"
  pl_keypair :: "byte list \<Rightarrow> string + 'k"
  pl_generate :: 'k
  pl_peer_id :: "'k \<Rightarrow> peer"
  pl_transport :: "'k \<Rightarrow> string + unit"
  pl_behaviour :: "'k \<Rightarrow> string \<Rightarrow> nat \<Rightarrow> string + unit"
  pl_accept :: "string list \<Rightarrow> string \<Rightarrow> string + unit"
  pl_parse_addr :: "string \<Rightarrow> multiaddr option"
  pl_with_p2p :: "multiaddr \<Rightarrow> peer \<Rightarrow> multiaddr option"

record node_builder =
  nb_port :: "nat option"
  nb_listen_addrs :: "multiaddr list"
  nb_keypair_hex :: "string option"
  nb_known_peers :: "multiaddr list"
  nb_agent_version :: "string option"
  nb_protocols :: "string list"
  nb_max_peer_count :: "nat option"

definition node_builder_new :: node_builder where
  "node_builder_new = \<lparr>nb_port = None, nb_listen_addrs = [], nb_keypair_hex = None, nb_known_peers = [], nb_agent_version = None,
     nb_protocols = [], nb_max_peer_count = None\<rparr>"

definition with_port :: "nat \<Rightarrow> node_builder \<Rightarrow> node_builder" where
  "with_port port b = b\<lparr>nb_port := Some port\<rparr>"

definition with_listen_addr :: "multiaddr \<Rightarrow> node_builder \<Rightarrow> node_builder" where
  "with_listen_addr addr b = b\<lparr>nb_listen_addrs := nb_listen_addrs b @ [addr]\<rparr>"

definition with_keypair_hex_string :: "string \<Rightarrow> node_builder \<Rightarrow> node_builder" where
  "with_keypair_hex_string keypair_hex b = b\<lparr>nb_keypair_hex := Some keypair_hex\<rparr>"

definition with_agent_version :: "string \<Rightarrow> node_builder \<Rightarrow> node_builder" where
  "with_agent_version agent_version b = b\<lparr>nb_agent_version := Some agent_version\<rparr>"

definition with_protocol :: "string \<Rightarrow> node_builder \<Rightarrow> node_builder" where
  "with_protocol p b = b\<lparr>nb_protocols := nb_protocols b @ [p]\<rparr>"

definition with_max_peer_count :: "nat \<Rightarrow> node_builder \<Rightarrow> node_builder" where
  "with_max_peer_count max_peer_count b = b\<lparr>nb_max_peer_count := Some max_peer_count\<rparr>"

definition with_known_peers :: "multiaddr list \<Rightarrow> node_builder \<Rightarrow> node_builder" where
  "with_known_peers addresses b = b\<lparr>nb_known_peers := nb_known_peers b @ addresses\<rparr>"

definition default_max_peer_count :: nat where "default_max_peer_count = 50"

text \<open>A node that was built, with the protocols whose messages can be received.\<close>

record built_node =
  bn_peer_id :: peer
  bn_listen_addrs :: "multiaddr list"
  bn_known_peers :: "multiaddr list"
  bn_protocols :: "string list"
  bn_agent_version :: string
  bn_max_peer_count :: nat
  bn_incoming :: "string list"

fun accept_all :: "'k p2p_lib \<Rightarrow> string list \<Rightarrow> string list \<Rightarrow> string + string list" where
  "accept_all pl registered [] = Inr registered"
| "accept_all pl registered (p # ps) = and_then
     (map_sum (\<lambda>e. ''failed to subscribe to incoming streams for flashblocks protocol: '' @ e) id (pl_accept pl registered p))
     (\<lambda>_. accept_all pl (registered @ [p]) ps)"

definition build_keypair :: "'k p2p_lib \<Rightarrow> string option \<Rightarrow> string + 'k" where
  "build_keypair pl keypair_hex = (case keypair_hex of
       None \<Rightarrow> Inr (pl_generate pl)
     | Some hex \<Rightarrow>
         and_then (map_sum (\<lambda>e. ''failed to decode hex string: '' @ e) id (pl_hex_decode pl hex))
           (\<lambda>bytes. map_sum (\<lambda>e. ''failed to create keypair from bytes: '' @ e) id (pl_keypair pl bytes)))"

definition default_listen_addr :: "nat \<Rightarrow> multiaddr" where
  "default_listen_addr port = [OtherProtocol ''ip4/0.0.0.0'', OtherProtocol (''tcp/'' @ show_radix 10 port)]"

definition try_build_node :: "'k p2p_lib \<Rightarrow> node_builder \<Rightarrow> string + built_node" where
  "try_build_node pl b = (case nb_agent_version b of
       None \<Rightarrow> Inl ''agent version must be set''
     | Some agent_version \<Rightarrow>
         and_then (build_keypair pl (nb_keypair_hex b)) (\<lambda>keypair.
         let peer_id = pl_peer_id pl keypair; max_peer_count = (case nb_max_peer_count b of Some n \<Rightarrow> n | None \<Rightarrow> default_max_peer_count) in
         and_then (map_sum (\<lambda>e. ''failed to create transport: '' @ e) id (pl_transport pl keypair)) (\<lambda>_.
         and_then (map_sum (\<lambda>e. ''failed to create behaviour: '' @ e) id (pl_behaviour pl keypair agent_version max_peer_count)) (\<lambda>_.
         and_then (accept_all pl [] (nb_protocols b)) (\<lambda>incoming.
         let listen_addrs = filter (\<lambda>addr. P2pId peer_id \<notin> set addr) (nb_listen_addrs b);
             listen_addrs = (if listen_addrs = [] then [default_listen_addr (case nb_port b of Some p \<Rightarrow> p | None \<Rightarrow> 0)] else listen_addrs) in
         Inr \<lparr>bn_peer_id = peer_id, bn_listen_addrs = listen_addrs, bn_known_peers = nb_known_peers b, bn_protocols = nb_protocols b,
           bn_agent_version = agent_version, bn_max_peer_count = max_peer_count, bn_incoming = incoming\<rparr>)))))"

text \<open>The addresses that are logged; \<open>None\<close> is a panic.\<close>

definition multiaddrs :: "'k p2p_lib \<Rightarrow> built_node \<Rightarrow> multiaddr list option" where
  "multiaddrs pl n = those (map (\<lambda>addr. pl_with_p2p pl addr (bn_peer_id n)) (bn_listen_addrs n))"

text \<open>The peer at the end of an address and the address without it.\<close>

definition pop_peer :: "multiaddr \<Rightarrow> (peer \<times> multiaddr) option" where
  "pop_peer addr = (case rev addr of P2pId p # rest \<Rightarrow> Some (p, rev rest) | _ \<Rightarrow> None)"

text \<open>A run of the node: an error at its start ends it.\<close>

definition node_run :: "(multiaddr \<Rightarrow> bool) \<Rightarrow> (multiaddr \<Rightarrow> bool) \<Rightarrow> 'm message_codec \<Rightarrow> built_node \<Rightarrow> ('m, multiaddr) p2p_event list
    \<Rightarrow> string + multiaddr p2p_node" where
  "node_run listens dial mc n evs =
     (if \<not> list_all listens (bn_listen_addrs n) then Inl ''swarm failed to listen on multiaddr''
      else map_sum id (fold (node_event mc) evs) (node_start pop_peer dial (bn_protocols n) (bn_known_peers n)))"

section \<open>The payload builder service\<close>

definition known_peers_of :: "'k p2p_lib \<Rightarrow> string option \<Rightarrow> multiaddr list" where
  "known_peers_of pl p2p_known_peers = (case p2p_known_peers of
       Some s \<Rightarrow> List.map_filter (pl_parse_addr pl) (split_at (CHR '','') s)
     | None \<Rightarrow> [])"

definition flashblocks_agent_version :: string where "flashblocks_agent_version = ''flashblock-builder/1.0.0''"
definition flashblocks_stream_protocol :: string where "flashblocks_stream_protocol = ''/flashblocks/1.0.0''"

text \<open>The node of the service; a path of a key that is given and not empty is read.\<close>

definition service_node :: "'k p2p_lib \<Rightarrow> (string \<Rightarrow> string + string) \<Rightarrow> flashblocks_p2p_args \<Rightarrow> string + built_node option" where
  "service_node pl read_file p2p =
     (if \<not> pa_p2p_enabled p2p then Inr None
      else
        and_then (case pa_p2p_private_key_file p2p of
            Some private_key_file \<Rightarrow>
              if private_key_file \<noteq> []
              then map_sum (\<lambda>e. ''failed to read p2p private key file: '' @ private_key_file @ '': '' @ e)
                (\<lambda>contents. with_keypair_hex_string (trim contents) node_builder_new) (read_file private_key_file)
              else Inr node_builder_new
          | None \<Rightarrow> Inr node_builder_new)
        (\<lambda>b. map_sum (\<lambda>e. ''failed to build flashblocks p2p node: '' @ e) Some (try_build_node pl
           (with_max_peer_count (pa_p2p_max_peer_count p2p) (with_port (pa_p2p_port p2p)
             (with_known_peers (known_peers_of pl (pa_p2p_known_peers p2p)) (with_protocol flashblocks_stream_protocol
               (with_agent_version flashblocks_agent_version b))))))))"

text \<open>The builder's transactions: with a signer and a contract, the flashblock number is written.\<close>

definition service_builder_tx :: "(nat \<Rightarrow> address) \<Rightarrow> builder_config \<Rightarrow> flashblocks_builder_tx" where
  "service_builder_tx signer_address config = (case (bc_builder_signer config, bc_number_contract_address config) of
       (Some signer, Some contract) \<Rightarrow> NumberContract (signer_address signer) contract
     | (signer, _) \<Rightarrow> BaseTx (map_option signer_address signer))"

text \<open>What a build reads of the configuration; the limits are those at the start, none.\<close>

definition builder_settings_of :: "bool \<Rightarrow> builder_config \<Rightarrow> bridge_intercept_config \<Rightarrow> builder_settings" where
  "builder_settings_of interop config bridge =
     \<lparr>st_tx_da_limit = None, st_block_da_limit = None, st_gas_limit_config = None, st_max_gas_per_txn = bc_max_gas_per_txn config,
      st_bridge_intercept = bridge, st_gasless_block_gas_limit = bc_gasless_block_gas_limit config,
      st_rcs_filter = (bc_rcs_filter config \<noteq> None), st_interop_feature = interop\<rparr>"

datatype service_task = TaskP2pNode | TaskCanonicalCleanup | TaskTerminalDiscard | TaskPayloadBuilderService | TaskPayloadHandler | TaskMetricsCollector

record payload_service =
  sv_node :: "built_node option"
  sv_cache :: "pool_tx payloads_cache"
  sv_ws_addr :: "string \<times> nat"
  sv_ws_subscriber_limit :: "nat option"
  sv_settings :: builder_settings
  sv_builder_tx :: flashblocks_builder_tx
  sv_block_time_leeway :: nat
  sv_handler_flags :: handler_flags
  sv_tasks :: "service_task list"

text \<open>The environment of the service: \<open>se_datadir\<close> is whether the directory of the flashblocks can be made.\<close>

record ('k, 'b) service_env =
  se_p2p :: "'k p2p_lib"
  se_read_file :: "string \<Rightarrow> string + string"
  se_signer_address :: "nat \<Rightarrow> address"
  se_bind :: "string \<times> nat \<Rightarrow> string + unit"
  se_from_slice :: "'b \<Rightarrow> pool_tx payloads_sequence option"
  se_datadir :: bool
  se_files :: "'b files"
  se_interop :: bool

text \<open>The context of the handler is made of the configuration alone (\<open>FlashblockHandlerContext::new\<close> makes no call that can fail).\<close>

definition spawn_payload_builder_service :: "('k, 'b) service_env \<Rightarrow> builder_config \<Rightarrow> bridge_intercept_config \<Rightarrow> string + payload_service" where
  "spawn_payload_builder_service se config bridge =
     (let settings = builder_settings_of (se_interop se) config bridge in
      and_then (service_node (se_p2p se) (se_read_file se) (bc_p2p config)) (\<lambda>node.
      and_then (map_sum (\<lambda>e. ''failed to create ws publisher: '' @ e) id (se_bind se (bc_ws_addr config))) (\<lambda>_.
      Inr \<lparr>sv_node = node,
        sv_cache = payloads_cache_new (se_from_slice se) (if bc_replay_from_persistence_file config then Some (se_datadir se) else None) (se_files se),
        sv_ws_addr = bc_ws_addr config, sv_ws_subscriber_limit = bc_ws_subscriber_limit config, sv_settings = settings,
        sv_builder_tx = service_builder_tx (se_signer_address se) config, sv_block_time_leeway = bc_block_time_leeway config,
        sv_handler_flags = service_flags (pa_p2p_send_full_payload (bc_p2p config)) (pa_p2p_process_full_payload (bc_p2p config)) settings,
        sv_tasks = (if node \<noteq> None then [TaskP2pNode] else []) @
          (if bc_rcs_filter config \<noteq> None then [TaskCanonicalCleanup, TaskTerminalDiscard] else []) @
          [TaskPayloadBuilderService, TaskPayloadHandler, TaskMetricsCollector]\<rparr>)))"

section \<open>A node that is built can be reached\<close>

lemma try_build_node_Inr:
  assumes "try_build_node pl b = Inr n"
  obtains keypair where "build_keypair pl (nb_keypair_hex b) = Inr keypair" "bn_peer_id n = pl_peer_id pl keypair"
    "bn_listen_addrs n = (let addrs = filter (\<lambda>addr. P2pId (bn_peer_id n) \<notin> set addr) (nb_listen_addrs b) in
       if addrs = [] then [default_listen_addr (case nb_port b of Some p \<Rightarrow> p | None \<Rightarrow> 0)] else addrs)"
    "bn_known_peers n = nb_known_peers b" "bn_protocols n = nb_protocols b" "accept_all pl [] (nb_protocols b) = Inr (bn_incoming n)"
    "bn_max_peer_count n = (case nb_max_peer_count b of Some k \<Rightarrow> k | None \<Rightarrow> default_max_peer_count)"
proof -
  obtain agent where agent: "nb_agent_version b = Some agent" using assms by (cases "nb_agent_version b") (auto simp: try_build_node_def)
  with assms obtain keypair where "build_keypair pl (nb_keypair_hex b) = Inr keypair" by (auto simp: try_build_node_def and_then_Inr)
  with assms agent that show thesis by (auto simp: try_build_node_def and_then_Inr Let_def)
qed

lemma accept_all_Inr: "accept_all pl registered ps = Inr incoming \<Longrightarrow> incoming = registered @ ps"
proof (induction ps arbitrary: registered)
  case (Cons p ps)
  from Cons.prems Cons.IH [of "registered @ [p]"] show ?case by (auto simp: and_then_Inr)
qed simp

lemma built_node_listens:
  assumes "try_build_node pl b = Inr n"
  shows "bn_listen_addrs n \<noteq> []" "\<forall>addr \<in> set (bn_listen_addrs n). P2pId (bn_peer_id n) \<notin> set addr" "bn_incoming n = bn_protocols n"
  using assms by (auto elim!: try_build_node_Inr dest: accept_all_Inr simp: Let_def default_listen_addr_def split: if_splits)

text \<open>
  The node of the service listens on one address at the configured port, names its peer in it, knows
  the peers of the option that parse and admits as many as were asked for; the receiver of its protocol,
  which the service takes out, is there. The law of the library is that a peer can be added to an address
  that has none.
\<close>

lemma service_node_reachable:
  assumes "service_node pl read_file p2p = Inr (Some n)"
    and law: "\<And>addr p. (\<And>q. P2pId q \<notin> set addr) \<Longrightarrow> pl_with_p2p pl addr p = Some (addr @ [P2pId p])"
  shows "bn_listen_addrs n = [default_listen_addr (pa_p2p_port p2p)]"
    and "multiaddrs pl n = Some [default_listen_addr (pa_p2p_port p2p) @ [P2pId (bn_peer_id n)]]"
    and "bn_known_peers n = known_peers_of pl (pa_p2p_known_peers p2p)" "bn_max_peer_count n = pa_p2p_max_peer_count p2p"
    and "flashblocks_stream_protocol \<in> set (bn_incoming n)"
proof -
  define b0 where "b0 b = with_max_peer_count (pa_p2p_max_peer_count p2p) (with_port (pa_p2p_port p2p)
    (with_known_peers (known_peers_of pl (pa_p2p_known_peers p2p)) (with_protocol flashblocks_stream_protocol
      (with_agent_version flashblocks_agent_version b))))" for b
  note defs = b0_def with_max_peer_count_def with_port_def with_known_peers_def with_protocol_def with_agent_version_def
    with_keypair_hex_string_def node_builder_new_def
  from assms(1) obtain b where b: "try_build_node pl (b0 b) = Inr n" "nb_listen_addrs b = []" "nb_known_peers b = []" "nb_protocols b = []"
    by (auto simp: service_node_def b0_def and_then_Inr map_sum_Inr_iff with_keypair_hex_string_def node_builder_new_def split: if_splits option.splits)
  show l: "bn_listen_addrs n = [default_listen_addr (pa_p2p_port p2p)]"
    using b by (auto elim!: try_build_node_Inr simp: defs)
  show "multiaddrs pl n = Some [default_listen_addr (pa_p2p_port p2p) @ [P2pId (bn_peer_id n)]]"
    using law [of "default_listen_addr (pa_p2p_port p2p)"] by (simp add: multiaddrs_def l default_listen_addr_def)
  show "bn_known_peers n = known_peers_of pl (pa_p2p_known_peers p2p)" "bn_max_peer_count n = pa_p2p_max_peer_count p2p"
    using b by (auto elim!: try_build_node_Inr simp: defs)
  show "flashblocks_stream_protocol \<in> set (bn_incoming n)"
    using built_node_listens(3) [OF b(1)] b by (auto elim!: try_build_node_Inr simp: defs)
qed

text \<open>
  An address to listen on that ends in the peer of another node passes the filter, and then the node's
  own addresses cannot be formed, with a library that refuses a second peer.
\<close>

lemma foreign_listen_address_panics:
  assumes "try_build_node pl b = Inr n" "addr @ [P2pId q] \<in> set (nb_listen_addrs b)" "q \<noteq> bn_peer_id n" "P2pId (bn_peer_id n) \<notin> set addr"
    and "\<And>a p p'. p \<noteq> p' \<Longrightarrow> pl_with_p2p pl (a @ [P2pId p]) p' = None"
  shows "multiaddrs pl n = None"
proof -
  have none: "None \<in> set xs \<Longrightarrow> those xs = None" for xs :: "multiaddr option list"
    by (induction xs) (auto split: option.split)
  have "addr @ [P2pId q] \<in> set (bn_listen_addrs n)"
    using assms(1-4) by (elim try_build_node_Inr) (auto simp: Let_def filter_empty_conv)
  moreover have "pl_with_p2p pl (addr @ [P2pId q]) (bn_peer_id n) = None" using assms(3,5) by blast
  ultimately have "None \<in> set (map (\<lambda>addr. pl_with_p2p pl addr (bn_peer_id n)) (bn_listen_addrs n))"
    by (metis (mono_tags, lifting) image_eqI list.set_map)
  then show ?thesis by (simp only: multiaddrs_def none)
qed

text \<open>
  One known peer whose address parses but names no peer ends the node at its start, whatever the
  other peers are; addresses that do not parse are left out without a word.
\<close>

lemma known_peers_info_Inr: "known_peers_info pop dial addrs = Inr info \<Longrightarrow> map pop addrs = map Some info"
  by (induction addrs arbitrary: info) (auto simp: map_sum_Inr_iff split: option.splits if_splits)

lemma anonymous_known_peer_ends_node:
  assumes "service_node pl read_file p2p = Inr (Some n)" "pa_p2p_known_peers p2p = Some peers" "s \<in> set (split_at (CHR '','') peers)"
    and "pl_parse_addr pl s = Some addr" "pop_peer addr = None" "bn_known_peers n = known_peers_of pl (pa_p2p_known_peers p2p)"
  shows "\<exists>e. node_run listens dial mc n evs = Inl e"
proof -
  have "addr \<in> set (bn_known_peers n)" using assms(2-4,6) by (auto simp: known_peers_of_def map_filter_def intro!: image_eqI [of _ _ s])
  moreover have "None \<notin> set (map pop_peer (bn_known_peers n))" if "known_peers_info pop_peer dial (bn_known_peers n) = Inr info" for info
    using known_peers_info_Inr [OF that] by auto
  ultimately have "known_peers_info pop_peer dial (bn_known_peers n) \<noteq> Inr info" for info using assms(5) by force
  then show ?thesis by (cases "known_peers_info pop_peer dial (bn_known_peers n)") (auto simp: node_run_def node_start_def)
qed

text \<open>A file of a key that is named and cannot be read, or does not exist, stops the service; no key is generated for it.\<close>

lemma missing_key_file_stops_service:
  assumes "pa_p2p_enabled p2p" "pa_p2p_private_key_file p2p = Some path" "path \<noteq> []" "read_file path = Inl e"
  shows "\<exists>msg. service_node pl read_file p2p = Inl msg"
  using assms by (simp add: service_node_def and_then_def)

section \<open>A service that starts does what its configuration says\<close>

lemma spawn_service_Inr:
  assumes "spawn_payload_builder_service se config bridge = Inr sv"
  obtains node where "service_node (se_p2p se) (se_read_file se) (bc_p2p config) = Inr node" "sv_node sv = node"
    "sv_settings sv = builder_settings_of (se_interop se) config bridge"
    "sv_handler_flags sv = service_flags (pa_p2p_send_full_payload (bc_p2p config)) (pa_p2p_process_full_payload (bc_p2p config)) (sv_settings sv)"
    "sv_tasks sv = (if node \<noteq> None then [TaskP2pNode] else []) @
       (if bc_rcs_filter config \<noteq> None then [TaskCanonicalCleanup, TaskTerminalDiscard] else []) @
       [TaskPayloadBuilderService, TaskPayloadHandler, TaskMetricsCollector]"
  using assms by (auto simp: spawn_payload_builder_service_def and_then_Inr Let_def)

text \<open>
  Screening comes as a whole. A service that was configured from the options either has all of it,
  exactly when the filter is enabled: the builder screens, the clean-up after canonical blocks and the
  discarding of dropped transactions run, and payloads of other builders are not executed; or none of it.
  Interception is configured as asked, and a node runs exactly when the peer-to-peer option is set.
\<close>

lemma service_screens_as_a_whole:
  assumes "builder_config_try_from addr_parses client_ok args = Inr config"
    and "spawn_payload_builder_service se config bridge = Inr sv"
  shows "st_rcs_filter (sv_settings sv) = ra_enabled (ba_rcs_filter args)"
    and "TaskCanonicalCleanup \<in> set (sv_tasks sv) \<longleftrightarrow> ra_enabled (ba_rcs_filter args)"
    and "TaskTerminalDiscard \<in> set (sv_tasks sv) \<longleftrightarrow> ra_enabled (ba_rcs_filter args)"
    and "ra_enabled (ba_rcs_filter args) \<Longrightarrow> \<not> hf_process_full_payload (sv_handler_flags sv)"
    and "st_bridge_intercept (sv_settings sv) = bridge"
    and "TaskP2pNode \<in> set (sv_tasks sv) \<longleftrightarrow> pa_p2p_enabled (ba_p2p args)"
proof -
  obtain c where c: "build_rcs_filter_handle client_ok (ba_rcs_filter args) = Inr c" "bc_rcs_filter config = c" and p2p: "bc_p2p config = ba_p2p args"
    using assms(1) by (auto simp: builder_config_try_from_def map_sum_Inr_iff split: if_splits)
  have f: "bc_rcs_filter config \<noteq> None \<longleftrightarrow> ra_enabled (ba_rcs_filter args)"
    using conjunct1 [OF enabled_filter_is_configured [OF c(1)]] c(2) by simp
  obtain node where sv: "service_node (se_p2p se) (se_read_file se) (bc_p2p config) = Inr node"
    "sv_settings sv = builder_settings_of (se_interop se) config bridge"
    "sv_handler_flags sv = service_flags (pa_p2p_send_full_payload (bc_p2p config)) (pa_p2p_process_full_payload (bc_p2p config)) (sv_settings sv)"
    "sv_tasks sv = (if node \<noteq> None then [TaskP2pNode] else []) @
       (if bc_rcs_filter config \<noteq> None then [TaskCanonicalCleanup, TaskTerminalDiscard] else []) @
       [TaskPayloadBuilderService, TaskPayloadHandler, TaskMetricsCollector]"
    using assms(2) by (elim spawn_service_Inr) blast
  have node: "node \<noteq> None \<longleftrightarrow> pa_p2p_enabled (ba_p2p args)"
    using sv(1) by (auto simp: p2p service_node_def and_then_Inr map_sum_Inr_iff split: if_splits)
  show "st_rcs_filter (sv_settings sv) = ra_enabled (ba_rcs_filter args)" "st_bridge_intercept (sv_settings sv) = bridge"
    using f by (simp_all add: sv(2) builder_settings_of_def)
  show "TaskCanonicalCleanup \<in> set (sv_tasks sv) \<longleftrightarrow> ra_enabled (ba_rcs_filter args)"
    "TaskTerminalDiscard \<in> set (sv_tasks sv) \<longleftrightarrow> ra_enabled (ba_rcs_filter args)"
    "TaskP2pNode \<in> set (sv_tasks sv) \<longleftrightarrow> pa_p2p_enabled (ba_p2p args)"
    using f node by (simp_all add: sv(4))
  show "ra_enabled (ba_rcs_filter args) \<Longrightarrow> \<not> hf_process_full_payload (sv_handler_flags sv)"
    using f by (simp add: sv(2,3) builder_settings_of_def service_flags_def)
qed

end
