(* ===== verification/Node_Secrets.thy ===== *)
theory Node_Secrets
  imports Prelude
begin

text \<open>
  Secrets on the command line (\<open>bin/node/src/main.rs\<close>): before the arguments are parsed, references to
  the key service in three flags and two environment variables are replaced by what they stand for. The
  key service, the file system, the system calls and the parser of keys are not part of the repository's
  code and a parameter; what the process keeps, its environment and its open anonymous files, is a state.
\<close>

section \<open>The process and what it calls\<close>

text \<open>
  \<open>ss_read_file\<close> is \<open>None\<close> for a path that does not exist and \<open>Inl\<close> for a file that cannot be read.
\<close>

record secret_services =
  ss_is_kms_ref :: "string \<Rightarrow> bool"
  ss_maybe_resolve :: "string \<Rightarrow> string + string"
  ss_read_file :: "string \<Rightarrow> (string + string) option"
  ss_parse_b256 :: "string \<Rightarrow> string + unit"
  ss_memfd_create :: "nat list \<Rightarrow> string + nat"
  ss_write_all :: "nat \<Rightarrow> string \<Rightarrow> string + unit"
  ss_linux :: bool

record process =
  pr_env :: "(string \<times> string) list"
  pr_memfds :: "(nat \<times> string) list"

text \<open>The path of an open file of the process; it names the file's contents from the start.\<close>

definition fd_path :: "nat \<Rightarrow> string" where
  "fd_path raw = ''/proc/self/fd/'' @ show_radix 10 raw"

definition memfd_at :: "process \<Rightarrow> string \<Rightarrow> string option" where
  "memfd_at w path = map_of (map (\<lambda>(raw, contents). (fd_path raw, contents)) (pr_memfds w)) path"

definition read_path :: "secret_services \<Rightarrow> process \<Rightarrow> string \<Rightarrow> (string + string) option" where
  "read_path ss w path = (case memfd_at w path of Some contents \<Rightarrow> Some (Inr contents) | None \<Rightarrow> ss_read_file ss path)"

section \<open>One value\<close>

text \<open>A rewrite can fail, ask for a replacement, or leave the argument as it is.\<close>

type_synonym 'w value_rewrite = "string \<Rightarrow> 'w \<Rightarrow> string + string option \<times> 'w"

definition stage_in_memfd :: "secret_services \<Rightarrow> string \<Rightarrow> process \<Rightarrow> string + string \<times> process" where
  "stage_in_memfd ss contents w =
     (if \<not> ss_linux ss
      then Inl ''a kms:<name> reference for --flashblocks.p2p_private_key_file is only supported on Linux''
      else (case ss_memfd_create ss (map fst (pr_memfds w)) of
        Inl e \<Rightarrow> Inl (''memfd_create failed: '' @ e)
      | Inr raw \<Rightarrow>
          (case ss_write_all ss raw contents of
             Inl e \<Rightarrow> Inl (''failed to write key to memfd: '' @ e)
           | Inr _ \<Rightarrow> Inr (fd_path raw, w\<lparr>pr_memfds := (raw, contents) # pr_memfds w\<rparr>))))"

definition kms_ref_in_value_or_file :: "secret_services \<Rightarrow> process \<Rightarrow> string \<Rightarrow> string + string option" where
  "kms_ref_in_value_or_file ss w val =
     (if ss_is_kms_ref ss val then Inr (Some val)
      else (case read_path ss w val of
        None \<Rightarrow> Inr None
      | Some (Inl e) \<Rightarrow> Inl (''failed to read secret key file '' @ val @ '': '' @ e)
      | Some (Inr contents) \<Rightarrow> Inr (if ss_is_kms_ref ss contents then Some (trim contents) else None)))"

definition builder_key :: "secret_services \<Rightarrow> process value_rewrite" where
  "builder_key ss val w =
     (if \<not> ss_is_kms_ref ss val then Inr (None, w)
      else map_sum (\<lambda>e. ''builder secret key: '' @ e) (\<lambda>plain. (Some (trim plain), w)) (ss_maybe_resolve ss val))"

definition node_p2p_key :: "secret_services \<Rightarrow> process value_rewrite" where
  "node_p2p_key ss val w = and_then (kms_ref_in_value_or_file ss w val) (\<lambda>r. case r of
       None \<Rightarrow> Inr (None, w)
     | Some reference \<Rightarrow>
         and_then (map_sum (\<lambda>e. ''p2p secret key: '' @ e) trim (ss_maybe_resolve ss reference)) (\<lambda>hex.
           map_sum (\<lambda>e. ''p2p secret key from KMS is not 32 hex-encoded bytes: '' @ e) (\<lambda>_. (Some hex, w)) (ss_parse_b256 ss hex)))"

definition flashblocks_key :: "secret_services \<Rightarrow> process value_rewrite" where
  "flashblocks_key ss val w = and_then (kms_ref_in_value_or_file ss w val) (\<lambda>r. case r of
       None \<Rightarrow> Inr (None, w)
     | Some reference \<Rightarrow>
         and_then (map_sum (\<lambda>e. ''flashblocks p2p private key: '' @ e) trim (ss_maybe_resolve ss reference)) (\<lambda>plain.
           map_sum id (\<lambda>(path, w'). (Some path, w')) (stage_in_memfd ss plain w)))"

section \<open>All occurrences of a flag\<close>

definition inline_value :: "string \<Rightarrow> string \<Rightarrow> string option" where
  "inline_value flag arg = Option.bind (strip_prefix flag arg) (strip_prefix ''='')"

fun rewrite_flag :: "string \<Rightarrow> string option \<Rightarrow> 'w value_rewrite \<Rightarrow> string list \<Rightarrow> 'w \<Rightarrow> string + string list \<times> 'w" where
  "rewrite_flag flag rename resolve [] w = Inr ([], w)"
| "rewrite_flag flag rename resolve (arg # rest) w =
     (let new_flag = (case rename of Some f \<Rightarrow> f | None \<Rightarrow> flag) in
      if arg = ''--'' then Inr (arg # rest, w)
      else if arg = flag
      then (case rest of
              [] \<Rightarrow> Inr ([arg], w)
            | val # rest' \<Rightarrow>
                and_then (resolve val w) (\<lambda>(r, w').
                  map_sum id (\<lambda>(out, w''). ((case r of Some new_val \<Rightarrow> [new_flag, new_val] | None \<Rightarrow> [arg, val]) @ out, w''))
                    (rewrite_flag flag rename resolve rest' w')))
      else (case inline_value flag arg of
              None \<Rightarrow> map_sum id (\<lambda>(out, w'). (arg # out, w')) (rewrite_flag flag rename resolve rest w)
            | Some val \<Rightarrow>
                and_then (resolve val w) (\<lambda>(r, w').
                  map_sum id (\<lambda>(out, w''). ((case r of Some new_val \<Rightarrow> [new_flag @ ''='' @ new_val] | None \<Rightarrow> [arg]) @ out, w''))
                    (rewrite_flag flag rename resolve rest w'))))"

definition rewrite_env :: "string \<Rightarrow> process value_rewrite \<Rightarrow> process \<Rightarrow> string + process" where
  "rewrite_env var resolve w = (case map_of (pr_env w) var of
       None \<Rightarrow> Inr w
     | Some val \<Rightarrow> map_sum id (\<lambda>(r, w'). case r of
           None \<Rightarrow> w'
         | Some new_val \<Rightarrow> w'\<lparr>pr_env := AList.update var new_val (pr_env w')\<rparr>) (resolve val w))"

definition resolve_kms_secret_flags :: "secret_services \<Rightarrow> string list \<Rightarrow> process \<Rightarrow> string + string list \<times> process" where
  "resolve_kms_secret_flags ss argv w =
     and_then (rewrite_flag ''--rollup.builder-secret-key'' None (builder_key ss) argv w) (\<lambda>(argv, w).
     and_then (rewrite_flag ''--p2p-secret-key'' (Some ''--p2p-secret-key-hex'') (node_p2p_key ss) argv w) (\<lambda>(argv, w).
     and_then (rewrite_flag ''--flashblocks.p2p_private_key_file'' None (flashblocks_key ss) argv w) (\<lambda>(argv, w).
     and_then (rewrite_env ''BUILDER_SECRET_KEY'' (builder_key ss) w) (\<lambda>w.
     and_then (rewrite_env ''FLASHBLOCK_P2P_PRIVATE_KEY_FILE'' (flashblocks_key ss) w) (\<lambda>w. Inr (argv, w))))))"

section \<open>What a scan reads\<close>

text \<open>
  The specification of the scan: it cuts the arguments into tokens, of which those that carry a value of
  the flag are rewritten and the others kept.
\<close>

datatype token = TPair string | TInline string | TOther string | TMissing | TRest "string list"

fun scan :: "string \<Rightarrow> string list \<Rightarrow> token list" where
  "scan flag [] = []"
| "scan flag (arg # rest) =
     (if arg = ''--'' then [TRest (arg # rest)]
      else if arg = flag then (case rest of [] \<Rightarrow> [TMissing] | val # rest' \<Rightarrow> TPair val # scan flag rest')
      else (case inline_value flag arg of Some val \<Rightarrow> TInline val # scan flag rest | None \<Rightarrow> TOther arg # scan flag rest))"

fun show_token :: "string \<Rightarrow> token \<Rightarrow> string list" where
  "show_token flag (TPair val) = [flag, val]"
| "show_token flag (TInline val) = [flag @ ''='' @ val]"
| "show_token flag (TOther arg) = [arg]"
| "show_token flag TMissing = [flag]"
| "show_token flag (TRest args) = args"

fun token_value :: "token \<Rightarrow> string option" where
  "token_value (TPair val) = Some val"
| "token_value (TInline val) = Some val"
| "token_value _ = None"

definition flag_values :: "string \<Rightarrow> string list \<Rightarrow> string list" where
  "flag_values flag argv = List.map_filter token_value (scan flag argv)"

fun replace_value :: "string \<Rightarrow> token \<Rightarrow> token" where
  "replace_value new_val (TPair _) = TPair new_val"
| "replace_value new_val (TInline _) = TInline new_val"
| "replace_value _ t = t"

fun rewrite_tokens :: "string \<Rightarrow> string \<Rightarrow> 'w value_rewrite \<Rightarrow> token list \<Rightarrow> 'w \<Rightarrow> string + string list \<times> 'w" where
  "rewrite_tokens flag new_flag resolve [] w = Inr ([], w)"
| "rewrite_tokens flag new_flag resolve (t # ts) w =
     (case token_value t of
        None \<Rightarrow> map_sum id (\<lambda>(out, w'). (show_token flag t @ out, w')) (rewrite_tokens flag new_flag resolve ts w)
      | Some val \<Rightarrow> and_then (resolve val w) (\<lambda>(r, w').
          map_sum id (\<lambda>(out, w''). ((case r of Some new_val \<Rightarrow> show_token new_flag (replace_value new_val t) | None \<Rightarrow> show_token flag t) @ out, w''))
            (rewrite_tokens flag new_flag resolve ts w')))"


lemma strip_prefix_Some_iff: "strip_prefix p s = Some t \<longleftrightarrow> s = p @ t"
  by (auto simp: strip_prefix_def prefix_def)

lemma inline_value_Some_iff: "inline_value flag arg = Some val \<longleftrightarrow> arg = flag @ ''='' @ val"
  unfolding inline_value_def bind_eq_Some_conv strip_prefix_Some_iff by simp

lemma inline_value_same [simp]: "inline_value flag (flag @ CHR ''='' # val) = Some val"
  by (simp add: inline_value_Some_iff)

lemma scan_show: "concat (map (show_token flag) (scan flag argv)) = argv"
proof (induction flag argv rule: scan.induct)
  case (2 flag arg rest)
  consider "arg = ''--''" | "arg \<noteq> ''--''" "arg = flag" | val where "arg \<noteq> ''--''" "arg \<noteq> flag" "inline_value flag arg = Some val"
    | "arg \<noteq> ''--''" "arg \<noteq> flag" "inline_value flag arg = None" by (cases "inline_value flag arg") auto
  then show ?case
  proof cases
    case 2
    with 2(1) \<open>arg = flag\<close> show ?thesis using "2.IH"(1) by (simp split: list.split)
  next
    case (3 val)
    then show ?thesis using "2.IH"(3) [OF 3] by (simp add: inline_value_Some_iff)
  qed (simp_all add: "2.IH"(2))
qed simp

text \<open>The loop over the arguments is the rewriting of the tokens of the scan.\<close>

lemma rewrite_flag_tokens:
  "rewrite_flag flag rename resolve argv w =
   rewrite_tokens flag (case rename of Some f \<Rightarrow> f | None \<Rightarrow> flag) resolve (scan flag argv) w"
proof (induction flag rename resolve argv w rule: rewrite_flag.induct)
  case (2 flag rename resolve arg rest w)
  consider "arg = ''--''" | "arg \<noteq> ''--''" "arg = flag" | val where "arg \<noteq> ''--''" "arg \<noteq> flag" "inline_value flag arg = Some val"
    | "arg \<noteq> ''--''" "arg \<noteq> flag" "inline_value flag arg = None" by (cases "inline_value flag arg") auto
  then show ?case
  proof cases
    case 1
    then show ?thesis by simp
  next
    case 2
    then show ?thesis using "2.IH"(1) [OF refl 2]
      by (auto simp: Let_def split: list.split cong: option.case_cong)
  next
    case (3 val)
    then show ?thesis using "2.IH"(3) [OF refl 3] by (auto simp: inline_value_Some_iff Let_def cong: option.case_cong)
  next
    case 4
    then show ?thesis using "2.IH"(2) [OF refl 4] by simp
  qed
qed simp

text \<open>Values that are to be left alone leave the arguments and the process as they are.\<close>

lemma rewrite_tokens_untouched:
  "(\<And>val. val \<in> set (List.map_filter token_value ts) \<Longrightarrow> resolve val w = Inr (None, w)) \<Longrightarrow>
   rewrite_tokens flag new_flag resolve ts w = Inr (concat (map (show_token flag) ts), w)"
  by (induction ts) (auto simp: map_filter_simps and_then_def split: option.splits)

lemma rewrite_flag_untouched:
  assumes "\<And>val. val \<in> set (flag_values flag argv) \<Longrightarrow> resolve val w = Inr (None, w)"
  shows "rewrite_flag flag rename resolve argv w = Inr (argv, w)"
  using assms by (simp add: rewrite_flag_tokens flag_values_def rewrite_tokens_untouched scan_show)

lemma length_show_replace [simp]: "length (show_token flag' (replace_value v t)) = length (show_token flag t)"
  if "token_value t \<noteq> None"
  using that by (cases t) auto

lemma rewrite_tokens_length:
  "rewrite_tokens flag new_flag resolve ts w = Inr (out, w') \<Longrightarrow> length out = length (concat (map (show_token flag) ts))"
proof (induction ts arbitrary: w out)
  case (Cons t ts)
  then show ?case by (fastforce simp: and_then_Inr map_sum_Inr_iff split: option.splits)
qed simp

lemma rewrite_flag_length: "rewrite_flag flag rename resolve argv w = Inr (out, w') \<Longrightarrow> length out = length argv"
  using rewrite_tokens_length [of flag _ resolve "scan flag argv" w out w'] by (simp add: rewrite_flag_tokens scan_show)

text \<open>Without a new name for the flag, a second scan finds the replaced values where the first found the old ones.\<close>

lemma inline_not_separator [simp]: "flag @ CHR ''='' # val \<noteq> ''--''"
proof
  assume "flag @ CHR ''='' # val = ''--''"
  then have "CHR ''='' \<in> set ''--''" by (metis in_set_conv_decomp)
  then show False by simp
qed

lemma scan_show_token:
  "flag \<noteq> ''--'' \<Longrightarrow> token_value t \<noteq> None \<Longrightarrow> scan flag (show_token flag t @ argv) = t # scan flag argv"
  by (cases t) auto

lemma token_value_replace [simp]: "token_value (replace_value v t) = (if token_value t = None then None else Some v)"
  by (cases t) auto

fun wf_tokens :: "string \<Rightarrow> token list \<Rightarrow> bool" where
  "wf_tokens flag [] \<longleftrightarrow> True"
| "wf_tokens flag (TOther arg # ts) \<longleftrightarrow> arg \<noteq> ''--'' \<and> arg \<noteq> flag \<and> inline_value flag arg = None \<and> wf_tokens flag ts"
| "wf_tokens flag (TMissing # ts) \<longleftrightarrow> ts = []"
| "wf_tokens flag (TRest args # ts) \<longleftrightarrow> ts = [] \<and> take 1 args = [''--'']"
| "wf_tokens flag (t # ts) \<longleftrightarrow> wf_tokens flag ts"

lemma wf_tokens_scan: "wf_tokens flag (scan flag argv)"
  by (induction flag argv rule: scan.induct) (auto split: list.split option.split)

lemma wf_tokens_Cons: "wf_tokens flag (t # ts) \<Longrightarrow> wf_tokens flag ts"
  by (cases t) auto

lemma scan_wf_tokens:
  "flag \<noteq> ''--'' \<Longrightarrow> token_value t = None \<Longrightarrow> wf_tokens flag (t # ts) \<Longrightarrow> ts = [] \<longrightarrow> argv = [] \<Longrightarrow>
   scan flag (show_token flag t @ argv) = t # scan flag argv"
  by (cases t; cases "show_token flag t") auto

text \<open>
  Arguments that a scan for a flag passes over. A change of such an argument into another one can only
  add its new text as a value.
\<close>

definition neutral :: "string \<Rightarrow> string \<Rightarrow> bool" where
  "neutral flag arg \<longleftrightarrow> arg \<noteq> ''--'' \<and> arg \<noteq> flag \<and> inline_value flag arg = None"

definition edited :: "string \<Rightarrow> (string \<Rightarrow> bool) \<Rightarrow> string \<Rightarrow> string \<Rightarrow> bool" where
  "edited flag Q old new \<longleftrightarrow> old = new \<or> neutral flag old \<and> neutral flag new \<and> Q new"

lemma flag_values_edited:
  "list_all2 (edited flag Q) argv argv' \<Longrightarrow> \<forall>val \<in> set (flag_values flag argv). Q val \<Longrightarrow> \<forall>val \<in> set (flag_values flag argv'). Q val"
proof (induction flag argv arbitrary: argv' rule: scan.induct)
  case (2 flag arg rest)
  obtain arg' rest' where a: "argv' = arg' # rest'" "edited flag Q arg arg'" "list_all2 (edited flag Q) rest rest'"
    using "2.prems"(1) by (auto simp: list_all2_Cons1)
  consider "arg = ''--''" | "arg \<noteq> ''--''" "arg = flag" | val where "arg \<noteq> ''--''" "arg \<noteq> flag" "inline_value flag arg = Some val"
    | "neutral flag arg" by (cases "inline_value flag arg") (auto simp: neutral_def)
  then show ?case
  proof cases
    case 1
    with a show ?thesis by (simp add: edited_def neutral_def flag_values_def map_filter_simps)
  next
    case 2
    with a have "arg' = flag" by (simp add: edited_def neutral_def)
    show ?thesis
    proof (cases rest)
      case Nil
      with 2 a \<open>arg' = flag\<close> show ?thesis by (simp add: flag_values_def map_filter_simps)
    next
      case (Cons val rest1)
      then obtain val' rest1' where v: "rest' = val' # rest1'" "edited flag Q val val'" "list_all2 (edited flag Q) rest1 rest1'"
        using a(3) by (auto simp: list_all2_Cons1)
      have q: "Q val" "\<forall>val \<in> set (flag_values flag rest1). Q val"
        using "2.prems"(2) 2 Cons by (simp_all add: flag_values_def map_filter_simps)
      with v(2) have "Q val'" by (auto simp: edited_def)
      with "2.IH"(1) [OF 2 Cons v(3) q(2)] 2 a(1) v(1) \<open>arg' = flag\<close> show ?thesis by (simp add: flag_values_def map_filter_simps)
    qed
  next
    case (3 val)
    with a have "arg' = arg" by (simp add: edited_def neutral_def)
    with 3 a "2.IH"(3) "2.prems"(2) show ?thesis by (simp add: flag_values_def map_filter_simps)
  next
    case 4
    with a have "neutral flag arg'" by (auto simp: edited_def)
    with 4 a "2.IH"(2) "2.prems"(2) show ?thesis by (simp add: flag_values_def map_filter_simps neutral_def)
  qed
qed (simp add: flag_values_def)

text \<open>The name of an option; two of them are neutral to each other, and so is every text without the dashes.\<close>

definition option_name :: "string \<Rightarrow> bool" where
  "option_name flag \<longleftrightarrow> prefix ''--'' flag \<and> CHR ''='' \<notin> set flag \<and> flag \<noteq> ''--''"

lemma neutral_dashless: "option_name flag \<Longrightarrow> \<not> prefix ''--'' arg \<Longrightarrow> neutral flag arg"
  by (auto simp: neutral_def option_name_def inline_value_Some_iff prefix_def split: option.split
      simp flip: not_Some_eq)

lemma neutral_name: "option_name flag \<Longrightarrow> option_name other \<Longrightarrow> flag \<noteq> other \<Longrightarrow> neutral flag other"
  by (auto simp: neutral_def option_name_def inline_value_Some_iff simp flip: not_Some_eq)

lemma neutral_inline: "option_name flag \<Longrightarrow> option_name other \<Longrightarrow> flag \<noteq> other \<Longrightarrow> neutral flag (other @ CHR ''='' # val)"
proof -
  assume o: "option_name flag" "option_name other" "flag \<noteq> other"
  have "takeWhile (\<lambda>c. c \<noteq> CHR ''='') (f @ CHR ''='' # v) = f" if "option_name f" for f v
    using that by (auto simp: option_name_def takeWhile_append intro: takeWhile_eq_all_conv [THEN iffD2])
  then have "other @ CHR ''='' # val \<noteq> flag @ CHR ''='' # v" for v using o by metis
  moreover have "other @ CHR ''='' # val \<noteq> flag" using o(1) by (auto simp: option_name_def)
  ultimately show ?thesis by (auto simp: neutral_def inline_value_Some_iff simp flip: not_Some_eq)
qed

locale value_rewriting =
  fixes resolve :: "'w value_rewrite" and inv :: "'w \<Rightarrow> bool" and settled fresh :: "string \<Rightarrow> 'w \<Rightarrow> bool"
  assumes kept_settled: "inv w \<Longrightarrow> resolve val w = Inr (None, w') \<Longrightarrow> inv w' \<and> settled val w'"
    and new_fresh: "inv w \<Longrightarrow> resolve val w = Inr (Some new_val, w') \<Longrightarrow> inv w' \<and> fresh new_val w'"
    and settled_stable: "inv w \<Longrightarrow> settled val w \<Longrightarrow> resolve val' w = Inr (r, w') \<Longrightarrow> settled val w'"
    and fresh_stable: "inv w \<Longrightarrow> fresh val w \<Longrightarrow> resolve val' w = Inr (r, w') \<Longrightarrow> fresh val w'"
begin

lemma resolve_inv: "inv w \<Longrightarrow> resolve val w = Inr (r, w') \<Longrightarrow> inv w'"
  using kept_settled new_fresh by (cases r) blast+

lemma rewrite_tokens_inv:
  "rewrite_tokens flag new_flag resolve ts w = Inr (out, w') \<Longrightarrow> inv w \<Longrightarrow>
   inv w' \<and> (settled val w \<longrightarrow> settled val w') \<and> (fresh val w \<longrightarrow> fresh val w')"
proof (induction ts arbitrary: w out)
  case (Cons t ts)
  show ?case
  proof (cases "token_value t")
    case None
    with Cons.prems Cons.IH [of w] show ?thesis by (auto simp: map_sum_Inr_iff)
  next
    case (Some v)
    with Cons.prems obtain r w1 out1 where r: "resolve v w = Inr (r, w1)" "rewrite_tokens flag new_flag resolve ts w1 = Inr (out1, w')"
      by (auto simp: and_then_Inr map_sum_Inr_iff)
    with resolve_inv [OF Cons.prems(2) r(1)] settled_stable [OF Cons.prems(2) _ r(1)] fresh_stable [OF Cons.prems(2) _ r(1)] Cons.IH [OF r(2)]
    show ?thesis by blast
  qed
qed simp

lemma rewrite_flag_inv:
  "rewrite_flag flag rename resolve argv w = Inr (out, w') \<Longrightarrow> inv w \<Longrightarrow>
   inv w' \<and> (settled val w \<longrightarrow> settled val w') \<and> (fresh val w \<longrightarrow> fresh val w')"
  using rewrite_tokens_inv by (simp add: rewrite_flag_tokens)

end

text \<open>Where the replaced values are as settled as the others, the flag can keep its name.\<close>

locale in_place_rewriting = value_rewriting +
  assumes fresh_settled: "fresh val w \<Longrightarrow> settled val w"
begin

lemma resolve_settles: "inv w \<Longrightarrow> resolve val w = Inr (r, w') \<Longrightarrow> inv w' \<and> settled (case r of Some new_val \<Rightarrow> new_val | None \<Rightarrow> val) w'"
proof (cases r)
  case None
  assume "inv w" "resolve val w = Inr (r, w')"
  from kept_settled [OF this [unfolded None]] show ?thesis unfolding None by simp
next
  case (Some new_val)
  assume "inv w" "resolve val w = Inr (r, w')"
  note new = new_fresh [OF this [unfolded Some]]
  from new fresh_settled [OF new [THEN conjunct2]] show ?thesis unfolding Some by simp
qed

lemma rewrite_tokens_settled:
  "rewrite_tokens flag flag resolve ts w = Inr (out, w') \<Longrightarrow> inv w \<Longrightarrow> flag \<noteq> ''--'' \<Longrightarrow> wf_tokens flag ts \<Longrightarrow>
   (ts = [] \<longrightarrow> out = []) \<and> (\<forall>val \<in> set (flag_values flag out). settled val w')"
proof (induction ts arbitrary: w out)
  case (Cons t ts)
  note wf = wf_tokens_Cons [OF Cons.prems(4)]
  show ?case
  proof (cases "token_value t")
    case None
    with Cons.prems obtain out1 where o: "out = show_token flag t @ out1" "rewrite_tokens flag flag resolve ts w = Inr (out1, w')"
      by (auto simp: map_sum_Inr_iff)
    with Cons.IH [OF o(2) Cons.prems(2,3) wf] scan_wf_tokens [OF Cons.prems(3) None Cons.prems(4)] None show ?thesis
      by (simp add: flag_values_def map_filter_simps)
  next
    case (Some v)
    with Cons.prems obtain r w1 out1 where r: "resolve v w = Inr (r, w1)" "rewrite_tokens flag flag resolve ts w1 = Inr (out1, w')"
      "out = (case r of Some new_val \<Rightarrow> show_token flag (replace_value new_val t) | None \<Rightarrow> show_token flag t) @ out1"
      by (auto simp: and_then_Inr map_sum_Inr_iff)
    note step = resolve_settles [OF Cons.prems(2) r(1)]
    with Cons.IH [OF r(2) _ Cons.prems(3) wf] rewrite_tokens_inv [OF r(2)] Some r(3) show ?thesis
      by (cases r) (simp_all add: flag_values_def scan_show_token [OF Cons.prems(3)] map_filter_simps)
  qed
qed (simp add: flag_values_def)

lemma rewrite_flag_settled:
  "rewrite_flag flag None resolve argv w = Inr (out, w') \<Longrightarrow> inv w \<Longrightarrow> flag \<noteq> ''--'' \<Longrightarrow>
   \<forall>val \<in> set (flag_values flag out). settled val w'"
  using rewrite_tokens_settled wf_tokens_scan by (simp add: rewrite_flag_tokens)

end

text \<open>
  Where neither the values that are replaced nor the new ones look like options, the scan for another
  flag is not misled; and the flag may get a new name, under which it is not found again.
\<close>

locale key_rewriting = value_rewriting +
  assumes dashless: "inv w \<Longrightarrow> resolve val w = Inr (Some new_val, w') \<Longrightarrow> \<not> prefix ''--'' val \<and> \<not> prefix ''--'' new_val"
begin

lemma rewrite_tokens_edited:
  assumes "option_name other" "option_name flag" "option_name new_flag" "other \<noteq> flag" "other \<noteq> new_flag"
  shows "rewrite_tokens flag new_flag resolve ts w = Inr (out, w') \<Longrightarrow> inv w \<Longrightarrow>
    list_all2 (edited other (\<lambda>val. prefix ''--'' val \<or> fresh val w')) (concat (map (show_token flag) ts)) out"
proof (induction ts arbitrary: w out)
  case (Cons t ts)
  let ?e = "edited other (\<lambda>val. prefix ''--'' val \<or> fresh val w')"
  have refl: "list_all2 ?e xs xs" for xs by (simp add: list_all2_refl edited_def)
  show ?case
  proof (cases "token_value t")
    case None
    with Cons.prems Cons.IH [of w] refl show ?thesis by (auto simp: map_sum_Inr_iff intro!: list_all2_appendI)
  next
    case (Some v)
    with Cons.prems obtain r w1 out1 where r: "resolve v w = Inr (r, w1)" "rewrite_tokens flag new_flag resolve ts w1 = Inr (out1, w')"
      "out = (case r of Some new_val \<Rightarrow> show_token new_flag (replace_value new_val t) | None \<Rightarrow> show_token flag t) @ out1"
      by (auto simp: and_then_Inr map_sum_Inr_iff)
    note inv1 = resolve_inv [OF Cons.prems(2) r(1)]
    have "list_all2 ?e (show_token flag t) (show_token new_flag (replace_value n t))" if "r = Some n" for n
    proof -
      have n: "fresh n w'" using new_fresh [OF Cons.prems(2)] r(1) that rewrite_tokens_inv [OF r(2) inv1] by blast
      have "neutral other v" "neutral other n" using dashless [OF Cons.prems(2)] r(1) that neutral_dashless [OF assms(1)] by blast+
      moreover have "prefix ''--'' new_flag" using assms(3) by (simp add: option_name_def)
      ultimately show ?thesis using Some n assms
        by (cases t) (auto simp: edited_def neutral_name neutral_inline prefix_def)
    qed
    with r(3) refl Cons.IH [OF r(2) inv1] show ?thesis by (cases r) (auto intro!: list_all2_appendI)
  qed
qed simp

lemma rewrite_flag_edited:
  assumes "option_name other" "option_name flag" "option_name (case rename of Some f \<Rightarrow> f | None \<Rightarrow> flag)" "other \<noteq> flag"
    "other \<noteq> (case rename of Some f \<Rightarrow> f | None \<Rightarrow> flag)" "rewrite_flag flag rename resolve argv w = Inr (out, w')" "inv w"
    and "\<And>val. prefix ''--'' val \<Longrightarrow> Q val" "\<And>val. fresh val w' \<Longrightarrow> Q val" "\<forall>val \<in> set (flag_values other argv). Q val"
  shows "\<forall>val \<in> set (flag_values other out). Q val"
proof (rule flag_values_edited [OF _ assms(10)])
  have "list_all2 (edited other (\<lambda>val. prefix ''--'' val \<or> fresh val w')) argv out"
    using rewrite_tokens_edited [OF assms(1-5), of "scan flag argv"] assms(6,7) by (simp add: rewrite_flag_tokens scan_show)
  then show "list_all2 (edited other Q) argv out"
    by (rule list_all2_mono) (use assms(8,9) in \<open>auto simp: edited_def\<close>)
qed

lemma rewrite_tokens_renamed:
  assumes "option_name flag" "option_name new_flag" "flag \<noteq> new_flag"
  shows "rewrite_tokens flag new_flag resolve ts w = Inr (out, w') \<Longrightarrow> inv w \<Longrightarrow> wf_tokens flag ts \<Longrightarrow>
    (ts = [] \<longrightarrow> out = []) \<and> (\<forall>val \<in> set (flag_values flag out). settled val w')"
proof (induction ts arbitrary: w out)
  case (Cons t ts)
  note wf = wf_tokens_Cons [OF Cons.prems(3)]
  have flag: "flag \<noteq> ''--''" using assms(1) by (simp add: option_name_def)
  show ?case
  proof (cases "token_value t")
    case None
    with Cons.prems obtain out1 where o: "out = show_token flag t @ out1" "rewrite_tokens flag new_flag resolve ts w = Inr (out1, w')"
      by (auto simp: map_sum_Inr_iff)
    with Cons.IH [OF o(2) Cons.prems(2) wf] scan_wf_tokens [OF flag None Cons.prems(3)] None show ?thesis
      by (simp add: flag_values_def map_filter_simps)
  next
    case (Some v)
    with Cons.prems obtain r w1 out1 where r: "resolve v w = Inr (r, w1)" "rewrite_tokens flag new_flag resolve ts w1 = Inr (out1, w')"
      "out = (case r of Some new_val \<Rightarrow> show_token new_flag (replace_value new_val t) | None \<Rightarrow> show_token flag t) @ out1"
      by (auto simp: and_then_Inr map_sum_Inr_iff)
    note inv1 = resolve_inv [OF Cons.prems(2) r(1)]
    note ih = Cons.IH [OF r(2) inv1 wf]
    show ?thesis
    proof (cases r)
      case None
      then have "settled v w'" using kept_settled [OF Cons.prems(2)] r(1) rewrite_tokens_inv [OF r(2) inv1] by blast
      with None ih Some r(3) show ?thesis by (simp add: flag_values_def scan_show_token [OF flag] map_filter_simps)
    next
      case [simp]: (Some n)
      have "neutral flag n" using dashless [OF Cons.prems(2)] r(1) neutral_dashless [OF assms(1)] by simp
      moreover have "neutral flag new_flag" "neutral flag (new_flag @ CHR ''='' # n)" using assms by (simp_all add: neutral_name neutral_inline)
      ultimately show ?thesis using ih r(3) \<open>token_value t = Some v\<close>
        by (cases t) (simp_all add: flag_values_def map_filter_simps neutral_def)
    qed
  qed
qed (simp add: flag_values_def)

lemma rewrite_flag_renamed:
  "rewrite_flag flag (Some new_flag) resolve argv w = Inr (out, w') \<Longrightarrow> inv w \<Longrightarrow> option_name flag \<Longrightarrow> option_name new_flag \<Longrightarrow>
   flag \<noteq> new_flag \<Longrightarrow> \<forall>val \<in> set (flag_values flag out). settled val w'"
  using rewrite_tokens_renamed wf_tokens_scan by (simp add: rewrite_flag_tokens)

end

section \<open>References are resolved\<close>

text \<open>
  What the services have to satisfy: no secret and no path of an open file is a reference; an argument that
  begins with two dashes is neither a reference nor the name of a file; and hexadecimal keys do not begin so.
\<close>

definition services_ok :: "secret_services \<Rightarrow> bool" where
  "services_ok ss \<longleftrightarrow> (\<forall>reference plain. ss_maybe_resolve ss reference = Inr plain \<longrightarrow> \<not> ss_is_kms_ref ss (trim plain)) \<and>
     (\<forall>raw. \<not> ss_is_kms_ref ss (fd_path raw)) \<and>
     (\<forall>arg. prefix ''--'' arg \<longrightarrow> \<not> ss_is_kms_ref ss arg \<and> ss_read_file ss arg = None) \<and>
     (\<forall>hex. ss_parse_b256 ss hex = Inr () \<longrightarrow> \<not> prefix ''--'' hex)"

definition secrets_inv :: "secret_services \<Rightarrow> process \<Rightarrow> bool" where
  "secrets_inv ss w \<longleftrightarrow> services_ok ss \<and> (\<forall>f \<in> set (pr_memfds w). \<not> ss_is_kms_ref ss (snd f))"

text \<open>A value that is no reference, and that does not name a file that holds one or cannot be read.\<close>

definition no_reference :: "secret_services \<Rightarrow> string \<Rightarrow> process \<Rightarrow> bool" where
  "no_reference ss val w \<longleftrightarrow> \<not> ss_is_kms_ref ss val \<and>
     (case read_path ss w val of None \<Rightarrow> True | Some (Inl _) \<Rightarrow> False | Some (Inr contents) \<Rightarrow> \<not> ss_is_kms_ref ss contents)"

lemma no_reference_code: "no_reference ss val w \<longleftrightarrow> kms_ref_in_value_or_file ss w val = Inr None"
  by (auto simp: no_reference_def kms_ref_in_value_or_file_def split: option.splits sum.splits)

lemma fd_path_no_option: "\<not> prefix ''--'' (fd_path raw)"
  by (simp add: fd_path_def)

lemma option_no_reference: "secrets_inv ss w \<Longrightarrow> prefix ''--'' val \<Longrightarrow> no_reference ss val w"
proof -
  assume inv: "secrets_inv ss w" and "prefix ''--'' val"
  then have "\<forall>raw. val \<noteq> fd_path raw" using fd_path_no_option by metis
  then have "memfd_at w val = None" by (auto simp: memfd_at_def map_of_eq_None_iff)
  with inv \<open>prefix ''--'' val\<close> show ?thesis by (simp add: no_reference_def read_path_def secrets_inv_def services_ok_def)
qed

interpretation builder_key: in_place_rewriting "builder_key ss" "secrets_inv ss" "\<lambda>val w. \<not> ss_is_kms_ref ss val" "\<lambda>val w. \<not> ss_is_kms_ref ss val" for ss
  by unfold_locales (auto simp: builder_key_def secrets_inv_def services_ok_def map_sum_Inr_iff split: if_splits)

lemma stage_in_memfd_Inr:
  "stage_in_memfd ss contents w = Inr (path, w') \<longleftrightarrow> (\<exists>raw. ss_linux ss \<and> ss_memfd_create ss (map fst (pr_memfds w)) = Inr raw \<and>
     ss_write_all ss raw contents = Inr () \<and> path = fd_path raw \<and> w' = w\<lparr>pr_memfds := (raw, contents) # pr_memfds w\<rparr>)"
  by (cases "ss_memfd_create ss (map fst (pr_memfds w))") (auto simp: stage_in_memfd_def split: sum.splits)

lemma flashblocks_key_cases:
  assumes "flashblocks_key ss val w = Inr (r, w')"
  obtains "r = None" "w' = w" "no_reference ss val w"
  | reference plain raw where "kms_ref_in_value_or_file ss w val = Inr (Some reference)" "ss_maybe_resolve ss reference = Inr plain"
      "ss_memfd_create ss (map fst (pr_memfds w)) = Inr raw" "r = Some (fd_path raw)" "w' = w\<lparr>pr_memfds := (raw, trim plain) # pr_memfds w\<rparr>"
proof -
  obtain q where q: "kms_ref_in_value_or_file ss w val = Inr q"
    using assms by (auto simp: flashblocks_key_def and_then_Inr)
  show thesis
  proof (cases q)
    case None
    with q assms that(1) show thesis by (simp add: flashblocks_key_def no_reference_code and_then_def)
  next
    case (Some reference)
    with q assms that(2) show thesis by (auto simp: flashblocks_key_def and_then_Inr map_sum_Inr_iff stage_in_memfd_Inr)
  qed
qed

lemma read_path_staged:
  "read_path ss (w\<lparr>pr_memfds := (raw, contents) # fs\<rparr>) path =
     (if path = fd_path raw then Some (Inr contents) else read_path ss (w\<lparr>pr_memfds := fs\<rparr>) path)"
  by (simp add: read_path_def memfd_at_def)

lemma flashblocks_key_settles:
  assumes "secrets_inv ss w" "flashblocks_key ss val w = Inr (r, w')"
  shows "secrets_inv ss w' \<and> no_reference ss (case r of Some new_val \<Rightarrow> new_val | None \<Rightarrow> val) w'"
    and "no_reference ss other w \<Longrightarrow> no_reference ss other w'"
proof -
  show "secrets_inv ss w' \<and> no_reference ss (case r of Some new_val \<Rightarrow> new_val | None \<Rightarrow> val) w'"
    using assms(2) by (cases rule: flashblocks_key_cases)
      (use assms(1) in \<open>auto simp: no_reference_def read_path_staged secrets_inv_def services_ok_def\<close>)
  assume "no_reference ss other w"
  with assms(2) show "no_reference ss other w'"
    by (cases rule: flashblocks_key_cases) (use assms(1) in \<open>auto simp: no_reference_def read_path_staged secrets_inv_def services_ok_def\<close>)
qed

interpretation flashblocks_key: in_place_rewriting "flashblocks_key ss" "secrets_inv ss" "no_reference ss" "no_reference ss" for ss
  by unfold_locales (use flashblocks_key_settles in fastforce)+

interpretation flashblocks_path: key_rewriting "flashblocks_key ss" "secrets_inv ss" "no_reference ss" "no_reference ss" for ss
proof
  fix w val new_val w'
  assume inv: "secrets_inv ss w" and "flashblocks_key ss val w = Inr (Some new_val, w')"
  from this(2) show "\<not> prefix ''--'' val \<and> \<not> prefix ''--'' new_val"
    by (cases rule: flashblocks_key_cases) (use option_no_reference [OF inv, of val] fd_path_no_option in \<open>auto simp: no_reference_code\<close>)
qed

lemma node_p2p_key_cases:
  assumes "node_p2p_key ss val w = Inr (r, w')"
  obtains "r = None" "w' = w" "no_reference ss val w"
  | reference plain where "kms_ref_in_value_or_file ss w val = Inr (Some reference)" "ss_maybe_resolve ss reference = Inr plain"
      "r = Some (trim plain)" "ss_parse_b256 ss (trim plain) = Inr ()" "w' = w"
  using assms that by (auto simp: node_p2p_key_def and_then_Inr map_sum_Inr_iff no_reference_code split: option.splits)

interpretation node_p2p_key: key_rewriting "node_p2p_key ss" "secrets_inv ss" "no_reference ss" "\<lambda>val w. \<not> ss_is_kms_ref ss val" for ss
proof
  fix w val new_val w'
  assume inv: "secrets_inv ss w"
  { assume "node_p2p_key ss val w = Inr (None, w')"
    then show "secrets_inv ss w' \<and> no_reference ss val w'" using inv by (auto elim!: node_p2p_key_cases) }
  assume s: "node_p2p_key ss val w = Inr (Some new_val, w')"
  then show "secrets_inv ss w' \<and> \<not> ss_is_kms_ref ss new_val"
    using inv by (auto elim!: node_p2p_key_cases simp: secrets_inv_def services_ok_def)
  show "\<not> prefix ''--'' val \<and> \<not> prefix ''--'' new_val"
    using s inv option_no_reference [OF inv, of val]
    by (auto elim!: node_p2p_key_cases simp: secrets_inv_def services_ok_def no_reference_code)
qed (auto elim!: node_p2p_key_cases)

lemma node_p2p_key_valid: "node_p2p_key ss val w = Inr (Some hex, w') \<Longrightarrow> ss_parse_b256 ss hex = Inr () \<and> w' = w"
  by (auto simp: node_p2p_key_def and_then_Inr map_sum_Inr_iff split: option.splits)

lemma rewrite_env_cases:
  assumes "rewrite_env var resolve w = Inr w'"
  obtains "map_of (pr_env w) var = None" "w' = w"
  | val w1 where "map_of (pr_env w) var = Some val" "resolve val w = Inr (None, w1)" "w' = w1"
  | val new_val w1 where "map_of (pr_env w) var = Some val" "resolve val w = Inr (Some new_val, w1)"
      "w' = w1\<lparr>pr_env := AList.update var new_val (pr_env w1)\<rparr>"
proof (cases "map_of (pr_env w) var")
  case None
  moreover from this assms have "w' = w" by (simp add: rewrite_env_def)
  ultimately show thesis by (rule that(1))
next
  case (Some val)
  with assms obtain r w1 where "resolve val w = Inr (r, w1)"
    "w' = (case r of None \<Rightarrow> w1 | Some new_val \<Rightarrow> w1\<lparr>pr_env := AList.update var new_val (pr_env w1)\<rparr>)"
    by (auto simp: rewrite_env_def map_sum_Inr_iff)
  with Some that(2,3) show thesis by (cases r) auto
qed

lemma builder_key_keeps: "builder_key ss val w = Inr (r, w') \<Longrightarrow> w' = w"
  by (auto simp: builder_key_def map_sum_Inr_iff split: if_splits)

lemma flashblocks_key_env: "flashblocks_key ss val w = Inr (r, w') \<Longrightarrow> pr_env w' = pr_env w"
  by (erule flashblocks_key_cases) auto

lemma set_env_neutral [simp]:
  "secrets_inv ss (w\<lparr>pr_env := e\<rparr>) = secrets_inv ss w"
  "no_reference ss val (w\<lparr>pr_env := e\<rparr>) = no_reference ss val w"
  by (simp_all add: secrets_inv_def no_reference_def read_path_def memfd_at_def)

lemma rewrite_env_builder:
  assumes "rewrite_env ''BUILDER_SECRET_KEY'' (builder_key ss) w = Inr w'" "secrets_inv ss w"
  shows "secrets_inv ss w'" "no_reference ss v w \<Longrightarrow> no_reference ss v w'"
    "\<And>val. map_of (pr_env w') ''BUILDER_SECRET_KEY'' = Some val \<Longrightarrow> \<not> ss_is_kms_ref ss val"
  using assms(1)
  by (cases rule: rewrite_env_cases;
      use assms(2) builder_key.resolve_settles [OF assms(2)] in \<open>fastforce dest: builder_key_keeps simp: alist_simps\<close>)+

lemma rewrite_env_flashblocks:
  assumes "rewrite_env ''FLASHBLOCK_P2P_PRIVATE_KEY_FILE'' (flashblocks_key ss) w = Inr w'" "secrets_inv ss w"
  shows "no_reference ss v w \<Longrightarrow> no_reference ss v w'"
    "\<And>val. map_of (pr_env w') ''FLASHBLOCK_P2P_PRIVATE_KEY_FILE'' = Some val \<Longrightarrow> no_reference ss val w'"
    "map_of (pr_env w') ''BUILDER_SECRET_KEY'' = map_of (pr_env w) ''BUILDER_SECRET_KEY''"
  using assms(1)
  by (cases rule: rewrite_env_cases;
      use flashblocks_key.resolve_settles [OF assms(2)] flashblocks_key.settled_stable [OF assms(2)]
      in \<open>fastforce dest: flashblocks_key_env simp: alist_simps\<close>)+

text \<open>The three scans do not undo each other.\<close>

lemma key_options:
  "option_name ''--rollup.builder-secret-key''" "option_name ''--p2p-secret-key''" "option_name ''--p2p-secret-key-hex''"
  "option_name ''--flashblocks.p2p_private_key_file''"
  by (simp_all add: option_name_def)

lemma builder_flag_resolved:
  assumes "rewrite_flag ''--rollup.builder-secret-key'' None (builder_key ss) argv w = Inr (a1, w1)"
    and s2: "rewrite_flag ''--p2p-secret-key'' (Some ''--p2p-secret-key-hex'') (node_p2p_key ss) a1 w1 = Inr (a2, w2)"
    and s3: "rewrite_flag ''--flashblocks.p2p_private_key_file'' None (flashblocks_key ss) a2 w2 = Inr (argv', w3)"
    and "secrets_inv ss w" and i1: "secrets_inv ss w1" and i2: "secrets_inv ss w2"
  shows "\<forall>val \<in> set (flag_values ''--rollup.builder-secret-key'' argv'). \<not> ss_is_kms_ref ss val"
proof -
  have opt: "\<not> ss_is_kms_ref ss val" if "prefix ''--'' val" for val
    using option_no_reference [OF i1 that] by (simp add: no_reference_def)
  have "\<forall>val \<in> set (flag_values ''--rollup.builder-secret-key'' a1). \<not> ss_is_kms_ref ss val"
    using builder_key.rewrite_flag_settled [OF assms(1,4)] by simp
  then have "\<forall>val \<in> set (flag_values ''--rollup.builder-secret-key'' a2). \<not> ss_is_kms_ref ss val"
    by (intro node_p2p_key.rewrite_flag_edited [OF _ _ _ _ _ s2 i1]) (simp_all add: key_options opt)
  then show ?thesis
    by (intro flashblocks_path.rewrite_flag_edited [OF _ _ _ _ _ s3 i2]) (simp_all add: key_options opt no_reference_def)
qed

lemma p2p_flag_resolved:
  assumes s2: "rewrite_flag ''--p2p-secret-key'' (Some ''--p2p-secret-key-hex'') (node_p2p_key ss) a1 w1 = Inr (a2, w2)"
    and s3: "rewrite_flag ''--flashblocks.p2p_private_key_file'' None (flashblocks_key ss) a2 w2 = Inr (argv', w3)"
    and i1: "secrets_inv ss w1" and i2: "secrets_inv ss w2"
  shows "\<forall>val \<in> set (flag_values ''--p2p-secret-key'' argv'). no_reference ss val w3"
proof (rule flashblocks_path.rewrite_flag_edited [OF _ _ _ _ _ s3 i2])
  show "\<forall>val \<in> set (flag_values ''--p2p-secret-key'' a2). no_reference ss val w3"
    using node_p2p_key.rewrite_flag_renamed [OF s2 i1 key_options(2,3)] flashblocks_key.rewrite_flag_inv [OF s3 i2] by simp
  show "no_reference ss val w3" if "prefix ''--'' val" for val
    using flashblocks_key.rewrite_flag_inv [OF s3 i2] that by (simp add: option_no_reference)
qed (simp_all add: key_options)

text \<open>
  Deployments without the key service are not touched. If no value of the three flags and of the two
  variables is a reference, nor names a file that holds one or cannot be read, the arguments and the
  environment are handed on exactly as they came.
\<close>

lemma non_kms_untouched:
  assumes "\<And>val. val \<in> set (flag_values ''--rollup.builder-secret-key'' argv) \<Longrightarrow> \<not> ss_is_kms_ref ss val"
    and "\<And>val. val \<in> set (flag_values ''--p2p-secret-key'' argv) \<Longrightarrow> no_reference ss val w"
    and "\<And>val. val \<in> set (flag_values ''--flashblocks.p2p_private_key_file'' argv) \<Longrightarrow> no_reference ss val w"
    and "\<And>val. map_of (pr_env w) ''BUILDER_SECRET_KEY'' = Some val \<Longrightarrow> \<not> ss_is_kms_ref ss val"
    and "\<And>val. map_of (pr_env w) ''FLASHBLOCK_P2P_PRIVATE_KEY_FILE'' = Some val \<Longrightarrow> no_reference ss val w"
  shows "resolve_kms_secret_flags ss argv w = Inr (argv, w)"
proof -
  have *: "node_p2p_key ss val w = Inr (None, w)" "flashblocks_key ss val w = Inr (None, w)" if "no_reference ss val w" for val
    using that by (simp_all add: node_p2p_key_def flashblocks_key_def no_reference_code and_then_def)
  have **: "builder_key ss val w = Inr (None, w)" if "\<not> ss_is_kms_ref ss val" for val
    using that by (simp add: builder_key_def)
  show ?thesis
    unfolding resolve_kms_secret_flags_def rewrite_env_def
    using assms by (simp add: rewrite_flag_untouched * ** and_then_def split: option.split)
qed

text \<open>
  C16. Once the references are resolved, none is left for a consumer. With a key service whose secrets are
  not references themselves (nor are the paths of open files), no file named like an option and no key staged
  before, the parser is given the same number of
  arguments, and no value of any of the three flags and of the two variables is a reference; nor does a
  value that is the path of a key name a file that holds one or that cannot be read.
\<close>

theorem secrets_resolved:
  assumes "services_ok ss" "pr_memfds w = []" and res: "resolve_kms_secret_flags ss argv w = Inr (argv', w')"
  shows "length argv' = length argv \<and>
    (\<forall>val \<in> set (flag_values ''--rollup.builder-secret-key'' argv'). \<not> ss_is_kms_ref ss val) \<and>
    (\<forall>val \<in> set (flag_values ''--p2p-secret-key'' argv'). no_reference ss val w') \<and>
    (\<forall>val \<in> set (flag_values ''--flashblocks.p2p_private_key_file'' argv'). no_reference ss val w') \<and>
    (\<forall>val. map_of (pr_env w') ''BUILDER_SECRET_KEY'' = Some val \<longrightarrow> \<not> ss_is_kms_ref ss val) \<and>
    (\<forall>val. map_of (pr_env w') ''FLASHBLOCK_P2P_PRIVATE_KEY_FILE'' = Some val \<longrightarrow> no_reference ss val w')"
proof -
  have i0: "secrets_inv ss w" using assms(1,2) by (simp add: secrets_inv_def)
  obtain a1 w1 a2 w2 w3 w4 where
    s1: "rewrite_flag ''--rollup.builder-secret-key'' None (builder_key ss) argv w = Inr (a1, w1)"
    and s2: "rewrite_flag ''--p2p-secret-key'' (Some ''--p2p-secret-key-hex'') (node_p2p_key ss) a1 w1 = Inr (a2, w2)"
    and s3: "rewrite_flag ''--flashblocks.p2p_private_key_file'' None (flashblocks_key ss) a2 w2 = Inr (argv', w3)"
    and s4: "rewrite_env ''BUILDER_SECRET_KEY'' (builder_key ss) w3 = Inr w4"
    and s5: "rewrite_env ''FLASHBLOCK_P2P_PRIVATE_KEY_FILE'' (flashblocks_key ss) w4 = Inr w'"
    using res unfolding resolve_kms_secret_flags_def by (elim and_then_InrE) (auto elim!: and_then_InrE)
  have i1: "secrets_inv ss w1" using builder_key.rewrite_flag_inv [OF s1 i0] by simp
  have i2: "secrets_inv ss w2" using node_p2p_key.rewrite_flag_inv [OF s2 i1] by simp
  have i3: "secrets_inv ss w3" using flashblocks_key.rewrite_flag_inv [OF s3 i2] by simp
  note e4 = rewrite_env_builder [OF s4 i3]
  note e5 = rewrite_env_flashblocks [OF s5 e4(1)]
  have "length argv' = length argv" using rewrite_flag_length [OF s1] rewrite_flag_length [OF s2] rewrite_flag_length [OF s3] by simp
  moreover have "\<forall>val \<in> set (flag_values ''--rollup.builder-secret-key'' argv'). \<not> ss_is_kms_ref ss val"
    using builder_flag_resolved [OF s1 s2 s3 i0 i1 i2] .
  moreover have "\<forall>val \<in> set (flag_values ''--p2p-secret-key'' argv'). no_reference ss val w'"
    using p2p_flag_resolved [OF s2 s3 i1 i2] e4(2) e5(1) by blast
  moreover have "\<forall>val \<in> set (flag_values ''--flashblocks.p2p_private_key_file'' argv'). no_reference ss val w'"
    using flashblocks_key.rewrite_flag_settled [OF s3 i2] e4(2) e5(1) by simp
  ultimately show ?thesis using e4(3) e5(2,3) by simp
qed

text \<open>
  The consumer reads the key that was resolved: the path that replaces a reference holds the trimmed
  secret, and later stagings in files of their own leave it.
\<close>

lemma fd_path_inj: "fd_path m = fd_path n \<longleftrightarrow> m = n"
proof
  assume "fd_path m = fd_path n"
  then have "from_str_radix (Suc (max m n)) 10 (show_radix 10 m) = from_str_radix (Suc (max m n)) 10 (show_radix 10 n)" by (simp add: fd_path_def)
  then show "m = n" by (simp add: from_str_radix_show_radix less_Suc_eq_le)
qed simp

lemma staged_key_is_read:
  assumes "flashblocks_key ss val w = Inr (Some path, w')"
  shows "\<exists>reference plain. kms_ref_in_value_or_file ss w val = Inr (Some reference) \<and> ss_maybe_resolve ss reference = Inr plain \<and>
    memfd_at w' path = Some (trim plain) \<and> read_path ss w' path = Some (Inr (trim plain))"
  using assms by (cases rule: flashblocks_key_cases) (auto simp: memfd_at_def read_path_def)

lemma staged_key_stays:
  assumes "\<And>fds raw. ss_memfd_create ss fds = Inr raw \<Longrightarrow> raw \<notin> set fds"
    and "memfd_at w path = Some contents" "flashblocks_key ss val w = Inr (r, w')"
  shows "memfd_at w' path = Some contents"
  using assms(3)
proof (cases rule: flashblocks_key_cases)
  case (2 reference plain raw)
  obtain raw' where "raw' \<in> fst ` set (pr_memfds w)" "path = fd_path raw'"
    using map_of_SomeD [OF assms(2) [unfolded memfd_at_def]] by force
  moreover have "raw \<notin> fst ` set (pr_memfds w)" using assms(1) [OF 2(3)] by simp
  ultimately have "path \<noteq> fd_path raw" by (auto simp: fd_path_inj)
  with 2(5) assms(2) show ?thesis by (simp add: memfd_at_def)
qed (use assms(2) in simp)

section \<open>An instance\<close>

definition sample_services :: secret_services where
  "sample_services = \<lparr>ss_is_kms_ref = prefix ''kms:'', ss_maybe_resolve = (\<lambda>r. if r = ''kms:key'' then Inr '' beef '' else Inl ''unknown''),
     ss_read_file = (\<lambda>path. if path = ''/key'' then Some (Inr ''kms:key'') else None), ss_parse_b256 = (\<lambda>hex. if prefix ''--'' hex then Inl ''odd'' else Inr ()),
     ss_memfd_create = (\<lambda>fds. Inr (Suc (fold max fds 2))), ss_write_all = (\<lambda>_ _. Inr ()), ss_linux = True\<rparr>"

definition sample_process :: process where
  "sample_process = \<lparr>pr_env = [(''BUILDER_SECRET_KEY'', ''kms:key'')], pr_memfds = []\<rparr>"

definition sample_argv :: "string list" where
  "sample_argv = [''node'', ''--flashblocks.p2p_private_key_file'', ''/key'', ''--p2p-secret-key=kms:key'', ''--'', ''--p2p-secret-key'']"

lemma sample_resolution: "resolve_kms_secret_flags sample_services sample_argv sample_process =
    Inr ([''node'', ''--flashblocks.p2p_private_key_file'', ''/proc/self/fd/3'', ''--p2p-secret-key-hex=beef'', ''--'', ''--p2p-secret-key''],
      \<lparr>pr_env = [(''BUILDER_SECRET_KEY'', ''beef'')], pr_memfds = [(3, ''beef'')]\<rparr>)"
  by code_simp

lemma sample_services_ok: "services_ok sample_services"
proof -
  have "trim '' beef '' = ''beef''" by code_simp
  moreover have "\<not> prefix ''kms:'' arg" if "prefix ''--'' arg" for arg using that by (cases arg) auto
  ultimately show ?thesis by (auto simp: services_ok_def sample_services_def fd_path_def split: if_splits)
qed

theorem secrets_resolved_witness:
  "\<exists>argv' w'. resolve_kms_secret_flags sample_services sample_argv sample_process = Inr (argv', w') \<and> length argv' = length sample_argv \<and>
     (\<forall>val \<in> set (flag_values ''--flashblocks.p2p_private_key_file'' argv'). no_reference sample_services val w')"
  using secrets_resolved [OF sample_services_ok _ sample_resolution] sample_resolution by (auto simp: sample_process_def)

end
