(* ===== verification/Node_Monitor.thy ===== *)
theory Node_Monitor
  imports Externals
begin

text \<open>
  The monitor of the whole path of a transaction (\<open>crates/monitor\<close>): hooks on the events of the engine,
  of the payload builder and of the pool that write records to a tracer. The tracer and the sources of the
  events are libraries: a run is given the events in the order in which they are taken and yields the
  records that are logged.
\<close>

section \<open>Hooks\<close>

record full_link_monitor_args =
  fm_enable :: bool
  fm_output_path :: string

record x_layer_monitor =
  xm_args :: full_link_monitor_args
  xm_flashblocks_enabled :: bool
  xm_is_sequencer_mode :: bool

datatype transaction_process_id =
    SeqReceiveTxEnd | SeqBlockBuildStart | SeqTxExecutionEnd | SeqBlockBuildEnd | SeqBlockSendStart
  | P2pReceivedTx | RpcBlockReceiveEnd | RpcBlockInsertEnd

datatype 'h trace_record = LogBlock 'h "64 word" transaction_process_id | LogTransaction 'h transaction_process_id "64 word option"

type_synonym 'h num_hash = "64 word \<times> 'h"

text \<open>The first argument says whether a global tracer was set up, the second of a block-level hook is the zero hash where none is known.\<close>

definition on_block_build_start :: "bool \<Rightarrow> 'h \<Rightarrow> x_layer_monitor \<Rightarrow> 64 word \<Rightarrow> 'h trace_record list" where
  "on_block_build_start tracer zero m block_number =
     (if tracer \<and> xm_is_sequencer_mode m then [LogBlock zero block_number SeqBlockBuildStart] else [])"

definition on_block_send_start :: "bool \<Rightarrow> x_layer_monitor \<Rightarrow> 'h num_hash \<Rightarrow> 'h trace_record list" where
  "on_block_send_start tracer m num_hash =
     (if tracer \<and> xm_is_sequencer_mode m then [LogBlock (snd num_hash) (fst num_hash) SeqBlockSendStart] else [])"

definition on_block_received :: "bool \<Rightarrow> x_layer_monitor \<Rightarrow> 'h num_hash \<Rightarrow> 'h trace_record list" where
  "on_block_received tracer m num_hash =
     (if tracer \<and> \<not> xm_is_sequencer_mode m then [LogBlock (snd num_hash) (fst num_hash) RpcBlockReceiveEnd] else [])"

definition on_tx_commit :: "bool \<Rightarrow> x_layer_monitor \<Rightarrow> 'h num_hash \<Rightarrow> 'h \<Rightarrow> 'h trace_record list" where
  "on_tx_commit tracer m num_hash tx_hash =
     (if \<not> xm_flashblocks_enabled m \<and> tracer \<and> xm_is_sequencer_mode m
      then [LogTransaction tx_hash SeqTxExecutionEnd (Some (fst num_hash))] else [])"

definition on_block_commit :: "bool \<Rightarrow> x_layer_monitor \<Rightarrow> 'h num_hash \<Rightarrow> 'h trace_record list" where
  "on_block_commit tracer m num_hash =
     (if tracer
      then (if xm_is_sequencer_mode m then [LogBlock (snd num_hash) (fst num_hash) SeqBlockBuildEnd]
            else [LogBlock (snd num_hash) (fst num_hash) RpcBlockInsertEnd])
      else [])"

definition pool_admission_process_id :: "x_layer_monitor \<Rightarrow> transaction_process_id" where
  "pool_admission_process_id m = (if xm_is_sequencer_mode m then SeqReceiveTxEnd else P2pReceivedTx)"

definition on_pool_admitted :: "bool \<Rightarrow> x_layer_monitor \<Rightarrow> 'h \<Rightarrow> 'h trace_record list" where
  "on_pool_admitted tracer m tx_hash = (if tracer then [LogTransaction tx_hash (pool_admission_process_id m) None] else [])"

text \<open>With flashblocks the builder itself records the transactions of a flashblock that it has published.\<close>

definition monitor_transactions :: "bool \<Rightarrow> 64 word \<Rightarrow> 'h list \<Rightarrow> 'h trace_record list" where
  "monitor_transactions tracer block_number tx_hashes =
     (if tracer then map (\<lambda>tx_hash. LogTransaction tx_hash SeqTxExecutionEnd (Some block_number)) tx_hashes else [])"

section \<open>The tasks\<close>

datatype 'h engine_event = BlockReceived "'h num_hash" | CanonicalBlockAdded "'h num_hash" "'h list" | OtherEngineEvent

datatype 'h payload_event = Attributes | BuiltPayload "'h num_hash" | OtherPayloadEvent

text \<open>
  What a turn of the loop takes: the next item of one of the two streams, where \<open>None\<close> is its close; with an
  event of attributes comes the number of the latest block, if the provider can say it.
\<close>

datatype 'h monitor_input = EngineItem "'h engine_event option" | PayloadItem "'h payload_event option" "64 word option"

fun handle_engine_event :: "bool \<Rightarrow> x_layer_monitor \<Rightarrow> 'h engine_event \<Rightarrow> 'h trace_record list" where
  "handle_engine_event tracer m (BlockReceived num_hash) = on_block_received tracer m num_hash"
| "handle_engine_event tracer m (CanonicalBlockAdded num_hash txs) =
     concat (map (on_tx_commit tracer m num_hash) txs) @ on_block_commit tracer m num_hash"
| "handle_engine_event tracer m OtherEngineEvent = []"

fun handle_payload_event :: "bool \<Rightarrow> 'h \<Rightarrow> x_layer_monitor \<Rightarrow> 64 word option \<Rightarrow> 'h payload_event \<Rightarrow> 'h trace_record list" where
  "handle_payload_event tracer zero m last_block Attributes =
     (case last_block of Some latest \<Rightarrow> on_block_build_start tracer zero m (latest + 1) | None \<Rightarrow> [])"
| "handle_payload_event tracer zero m last_block (BuiltPayload num_hash) = on_block_send_start tracer m num_hash"
| "handle_payload_event tracer zero m last_block OtherPayloadEvent = []"

fun monitor_loop :: "bool \<Rightarrow> 'h \<Rightarrow> x_layer_monitor \<Rightarrow> 'h monitor_input list \<Rightarrow> 'h trace_record list" where
  "monitor_loop tracer zero m [] = []"
| "monitor_loop tracer zero m (EngineItem None # inputs) = []"
| "monitor_loop tracer zero m (EngineItem (Some ev) # inputs) = handle_engine_event tracer m ev @ monitor_loop tracer zero m inputs"
| "monitor_loop tracer zero m (PayloadItem None _ # inputs) = []"
| "monitor_loop tracer zero m (PayloadItem (Some ev) last_block # inputs) =
     handle_payload_event tracer zero m last_block ev @ monitor_loop tracer zero m inputs"

definition start_monitor_handle :: "bool \<Rightarrow> 'h \<Rightarrow> x_layer_monitor \<Rightarrow> bool \<Rightarrow> 'h monitor_input list \<Rightarrow> 'h trace_record list" where
  "start_monitor_handle tracer zero m subscribed inputs =
     (if \<not> fm_enable (xm_args m) then [] else if \<not> subscribed then [] else monitor_loop tracer zero m inputs)"

definition start_pool_admission_trace_handle :: "bool \<Rightarrow> x_layer_monitor \<Rightarrow> 'h list \<Rightarrow> 'h trace_record list" where
  "start_pool_admission_trace_handle tracer m admitted =
     (if \<not> fm_enable (xm_args m) then [] else concat (map (on_pool_admitted tracer m) admitted))"

section \<open>What the records show\<close>

lemmas monitor_hook_defs = on_block_build_start_def on_block_send_start_def on_block_received_def on_tx_commit_def
  on_block_commit_def on_pool_admitted_def pool_admission_process_id_def

fun process_id :: "'h trace_record \<Rightarrow> transaction_process_id" where
  "process_id (LogBlock _ _ pid) = pid"
| "process_id (LogTransaction _ pid _) = pid"

text \<open>The identifiers a node writes in each mode.\<close>

definition mode_ids :: "bool \<Rightarrow> transaction_process_id set" where
  "mode_ids sequencer = (if sequencer then {SeqReceiveTxEnd, SeqBlockBuildStart, SeqTxExecutionEnd, SeqBlockBuildEnd, SeqBlockSendStart}
     else {P2pReceivedTx, RpcBlockReceiveEnd, RpcBlockInsertEnd})"

lemma mode_ids_disjoint: "mode_ids True \<inter> mode_ids False = {}"
  by (auto simp: mode_ids_def)

lemma monitor_loop_ids: "r \<in> set (monitor_loop tracer zero m inputs) \<Longrightarrow> process_id r \<in> mode_ids (xm_is_sequencer_mode m)"
proof (induction tracer zero m inputs rule: monitor_loop.induct)
  case (3 tracer zero m ev inputs)
  then show ?case by (cases ev) (auto simp: monitor_hook_defs mode_ids_def split: if_splits)
next
  case (5 tracer zero m ev last_block inputs)
  then show ?case by (cases ev) (auto simp: monitor_hook_defs mode_ids_def split: if_splits option.splits)
qed auto

text \<open>
  The mode of a node can be told from any record that it writes: a record of one node is never one
  of a node of the other mode, whatever the two nodes see.
\<close>

lemma records_tell_the_mode:
  assumes "r \<in> set (start_monitor_handle tracer zero m sub inputs) \<union> set (start_pool_admission_trace_handle tracer m admitted)"
    and "r \<in> set (start_monitor_handle tracer' zero' m' sub' inputs') \<union> set (start_pool_admission_trace_handle tracer' m' admitted')"
  shows "xm_is_sequencer_mode m = xm_is_sequencer_mode m'"
proof -
  have mode: "process_id r \<in> mode_ids (xm_is_sequencer_mode k)"
    if "r \<in> set (start_monitor_handle tr z k sb ins) \<union> set (start_pool_admission_trace_handle tr k ad)" for tr z k sb ins ad
    using that by (auto simp: start_monitor_handle_def start_pool_admission_trace_handle_def monitor_hook_defs mode_ids_def
        split: if_splits dest: monitor_loop_ids)
  from mode [OF assms(1)] mode [OF assms(2)] mode_ids_disjoint show ?thesis by (cases "xm_is_sequencer_mode m"; cases "xm_is_sequencer_mode m'") auto
qed

text \<open>A stream that closes ends the loop; up to there it handles every event in its order.\<close>

fun closes :: "'h monitor_input \<Rightarrow> bool" where
  "closes (EngineItem ev) = (ev = None)"
| "closes (PayloadItem ev _) = (ev = None)"

lemma monitor_loop_append:
  "monitor_loop tracer zero m (xs @ ys) = monitor_loop tracer zero m xs @ (if \<exists>x \<in> set xs. closes x then [] else monitor_loop tracer zero m ys)"
  by (induction tracer zero m xs rule: monitor_loop.induct) auto

lemma commits_recorded:
  "concat (map (on_tx_commit tracer m num_hash) txs) =
     (if xm_is_sequencer_mode m \<and> \<not> xm_flashblocks_enabled m then monitor_transactions tracer (fst num_hash) txs else [])"
  by (induction txs) (auto simp: on_tx_commit_def monitor_transactions_def)

text \<open>
  A sequencer records the end of the execution of each transaction once, in the order of the block: from
  the flashblocks that are published, or when the block becomes canonical, never both.
\<close>

lemma execution_recorded_once:
  assumes "xm_is_sequencer_mode m" "concat flashblocks = txs"
  shows "[r \<leftarrow> (if xm_flashblocks_enabled m then concat (map (monitor_transactions tracer n) flashblocks) else []) @
      handle_engine_event tracer m (CanonicalBlockAdded (n, h) txs). process_id r = SeqTxExecutionEnd] = monitor_transactions tracer n txs"
proof -
  have "concat (map (monitor_transactions tracer n) flashblocks) = monitor_transactions tracer n txs"
    unfolding assms(2) [symmetric] by (induction flashblocks) (auto simp: monitor_transactions_def)
  with assms(1) show ?thesis
    by (cases tracer) (simp_all add: commits_recorded on_block_commit_def monitor_transactions_def filter_map comp_def)
qed

text \<open>
  Every block that becomes canonical while both streams are open is recorded once, after its
  transactions, which a sequencer without flashblocks records one by one.
\<close>

lemma canonical_block_recorded:
  assumes "\<not> (\<exists>x \<in> set xs. closes x)" "fm_enable (xm_args m)" "inputs = xs @ EngineItem (Some (CanonicalBlockAdded num_hash txs)) # ys"
  shows "start_monitor_handle True zero m True inputs = monitor_loop True zero m xs @
    (if xm_is_sequencer_mode m \<and> \<not> xm_flashblocks_enabled m then map (\<lambda>tx. LogTransaction tx SeqTxExecutionEnd (Some (fst num_hash))) txs else []) @
    LogBlock (snd num_hash) (fst num_hash) (if xm_is_sequencer_mode m then SeqBlockBuildEnd else RpcBlockInsertEnd) # monitor_loop True zero m ys"
  using assms by (simp add: start_monitor_handle_def monitor_loop_append on_block_commit_def commits_recorded monitor_transactions_def)

text \<open>Nothing is recorded with monitoring switched off or without a tracer.\<close>

lemma monitor_off: "\<not> fm_enable (xm_args m) \<Longrightarrow> start_monitor_handle tracer zero m sub inputs = [] \<and> start_pool_admission_trace_handle tracer m admitted = []"
  by (simp add: start_monitor_handle_def start_pool_admission_trace_handle_def)

lemma monitor_loop_no_tracer: "monitor_loop False zero m inputs = []"
proof (induction False zero m inputs rule: monitor_loop.induct)
  case (3 zero m ev inputs)
  then show ?case by (cases ev) (auto simp: monitor_hook_defs)
next
  case (5 zero m ev last_block inputs)
  then show ?case by (cases ev) (auto simp: monitor_hook_defs split: option.split)
qed auto

end
