(* ===== verification/Storage_Migration.thy ===== *)
theory Storage_Migration
  imports Prelude
begin

text \<open>
  The migration of the storage layout (\<open>src/bin/tools/migrate_v2/mod.rs\<close>). The change sets and receipts
  move from the key-value database to static files, the index tables to another database; then the
  layout is flipped, the tables that are no longer needed are cleared, and the database is compacted.
  The static files, the databases and the file system are the node library's and the system's: their
  operations are parameters, and every call that can fail has its outcome among them.
\<close>

section \<open>Static files\<close>

text \<open>The operations on a segment \<open>'w\<close> with entries \<open>'e\<close>.\<close>

record ('w, 'e) segment_ops =
  so_highest_block :: "'w \<Rightarrow> nat option"
  so_current_block_number :: "'w \<Rightarrow> nat option"
  so_increment_block :: "nat \<Rightarrow> 'w \<Rightarrow> string + 'w"
  so_ensure_at_block :: "nat \<Rightarrow> 'w \<Rightarrow> string + 'w"
  so_append :: "'e list \<Rightarrow> nat \<Rightarrow> 'w \<Rightarrow> string + 'w"
  so_commit :: "'w \<Rightarrow> string + 'w"

text \<open>The entries of one block, from a cursor whose next row is looked at first; a row that cannot be read ends them.\<close>

fun take_block :: "nat \<Rightarrow> (string + nat \<times> 'e) list \<Rightarrow> 'e list \<times> (string + nat \<times> 'e) list" where
  "take_block block (Inr (n, e) # walker) = (if n \<noteq> block then ([], Inr (n, e) # walker) else apfst (Cons e) (take_block block walker))"
| "take_block block walker = ([], walker)"

fun append_blocks :: "('w, 'e) segment_ops \<Rightarrow> nat list \<Rightarrow> (string + nat \<times> 'e) list \<Rightarrow> 'w \<Rightarrow> string + 'w" where
  "append_blocks so [] walker w = Inr w"
| "append_blocks so (block # blocks) walker w =
     (case take_block block walker of (entries, rest) \<Rightarrow> and_then (so_append so entries block w) (append_blocks so blocks rest))"

definition after_pruned :: "nat option \<Rightarrow> nat" where
  "after_pruned checkpoint = (case checkpoint of None \<Rightarrow> 0 | Some b \<Rightarrow> b + 1)"

text \<open>The gap between the genesis block and the first one is filled with empty entries.\<close>

definition bridge_gap :: "('w, 'e) segment_ops \<Rightarrow> nat \<Rightarrow> nat \<Rightarrow> 'w \<Rightarrow> string + 'w" where
  "bridge_gap so genesis_block first_block w =
     (if first_block > genesis_block
      then and_then (if genesis_block > 0 \<and> so_current_block_number so w = None then so_increment_block so genesis_block w else Inr w)
             (so_ensure_at_block so (first_block - 1))
      else Inr w)"

text \<open>
  The inputs of a migration of change sets: opening the provider, the cursor and the writer, the prune
  checkpoint, and how a cursor reads the rows of the table, as it is then, from a block on.
\<close>

record ('k, 'v, 'e) changeset_source =
  cs_opened :: "string + unit"
  cs_prune_checkpoint :: "string + nat option"
  cs_walk :: "('k \<times> 'v) list \<Rightarrow> nat \<Rightarrow> string + (string + nat \<times> 'e) list"

definition migrate_account_changesets :: "('w, 'e) segment_ops \<Rightarrow> ('k, 'v, 'e) changeset_source \<Rightarrow> ('k \<times> 'v) list \<Rightarrow> nat \<Rightarrow> nat \<Rightarrow> 'w \<Rightarrow> string + 'w" where
  "migrate_account_changesets so src rows tip genesis_block w =
     and_then (cs_opened src) (\<lambda>_.
     and_then (cs_prune_checkpoint src) (\<lambda>checkpoint.
       let first_block = max (after_pruned checkpoint) genesis_block in
       and_then (bridge_gap so genesis_block first_block w) (\<lambda>writer.
       and_then (cs_walk src rows first_block) (\<lambda>walker.
       and_then (append_blocks so [first_block..<Suc tip] walker writer) (so_commit so)))))"

text \<open>The rows of the storage change sets carry the address in their key, which becomes part of the entry.\<close>

record storage_before_tx =
  sbt_address :: address
  sbt_key :: b256
  sbt_value :: u256

type_synonym storage_row = "(nat \<times> address) \<times> (b256 \<times> u256)"

definition storage_entry :: "storage_row \<Rightarrow> nat \<times> storage_before_tx" where
  "storage_entry row = (case row of ((block, a), (k, v)) \<Rightarrow> (block, \<lparr>sbt_address = a, sbt_key = k, sbt_value = v\<rparr>))"

record ('k, 'v) storage_source =
  ss_opened :: "string + unit"
  ss_prune_checkpoint :: "string + nat option"
  ss_walk :: "('k \<times> 'v) list \<Rightarrow> nat \<Rightarrow> string + (string + storage_row) list"

definition migrate_storage_changesets :: "('w, storage_before_tx) segment_ops \<Rightarrow> ('k, 'v) storage_source \<Rightarrow> ('k \<times> 'v) list \<Rightarrow> nat \<Rightarrow> nat \<Rightarrow> 'w \<Rightarrow> string + 'w" where
  "migrate_storage_changesets so src rows tip genesis_block w =
     and_then (ss_opened src) (\<lambda>_.
     and_then (ss_prune_checkpoint src) (\<lambda>checkpoint.
       let first_block = max (after_pruned checkpoint) genesis_block in
       and_then (bridge_gap so genesis_block first_block w) (\<lambda>writer.
       and_then (ss_walk src rows first_block) (\<lambda>walker.
       and_then (append_blocks so [first_block..<Suc tip] (map (map_sum id storage_entry) walker) writer) (so_commit so)))))"

text \<open>
  Receipts: skipped while a log filter prunes them or when the static files reach the tip; otherwise
  the gap is bridged and committed, and the library copies the rest. The segment is returned with the
  result, since the bridge stays when the copy fails.
\<close>

record 'w receipts_source =
  rs_log_filter_empty :: "string + bool"
  rs_opened :: "string + unit"
  rs_prune_checkpoint :: "string + nat option"
  rs_copy_to_static_files :: "nat \<Rightarrow> nat \<Rightarrow> 'w \<Rightarrow> string + 'w"

definition migrate_receipts :: "('w, 'e) segment_ops \<Rightarrow> 'w receipts_source \<Rightarrow> nat \<Rightarrow> nat \<Rightarrow> 'w \<Rightarrow> (string + unit) \<times> 'w" where
  "migrate_receipts so src tip genesis_block w =
     (case rs_log_filter_empty src of
        Inl e \<Rightarrow> (Inl e, w)
      | Inr no_filter \<Rightarrow>
          if \<not> no_filter then (Inr (), w)
          else let existing = so_highest_block so w in
            if (case existing of Some b \<Rightarrow> tip \<le> b | None \<Rightarrow> False) then (Inr (), w)
            else (case and_then (rs_opened src) (\<lambda>_. rs_prune_checkpoint src) of
                Inl e \<Rightarrow> (Inl e, w)
              | Inr checkpoint \<Rightarrow>
                  let first_block = max (max (after_pruned checkpoint) (after_pruned existing)) genesis_block in
                  (case if first_block > genesis_block then and_then (bridge_gap so genesis_block first_block w) (so_commit so) else Inr w of
                     Inl e \<Rightarrow> (Inl e, w)
                   | Inr w1 \<Rightarrow>
                       (case and_then (rs_copy_to_static_files src first_block tip w1) (so_commit so) of
                          Inl e \<Rightarrow> (Inl e, w1)
                        | Inr w2 \<Rightarrow> (Inr (), w2)))))"

section \<open>Index tables\<close>

text \<open>
  The rows until the first one that cannot be read or put. A batch commits on its own from time to
  time: \<open>ic_committed\<close> is how many rows were when the copy ends early. The cursor reads the table as it is
  when the copy runs.
\<close>

fun rows_until_error :: "(string + 'a) list \<Rightarrow> 'a list \<times> string option" where
  "rows_until_error [] = ([], None)"
| "rows_until_error (Inl e # _) = ([], Some e)"
| "rows_until_error (Inr r # rows) = apfst (Cons r) (rows_until_error rows)"

record ('k, 'v) index_copy =
  ic_clear :: "string + unit"
  ic_walk :: "('k \<times> 'v) list \<Rightarrow> string + (string + 'k \<times> 'v) list"
  ic_committed :: nat
  ic_commit :: "string + unit"
  ic_flush :: "string + unit"

definition put_rows :: "('k \<times> 'v) list \<Rightarrow> ('k, 'v) hmap" where
  "put_rows rows = fold (\<lambda>(k, v). AList.update k v) rows []"

definition copy_table_to_rocksdb :: "('k, 'v) index_copy \<Rightarrow> ('k \<times> 'v) list \<Rightarrow> ('k, 'v) hmap \<Rightarrow> (string + unit) \<times> ('k, 'v) hmap" where
  "copy_table_to_rocksdb ic table rocksdb =
     (case ic_clear ic of
        Inl e \<Rightarrow> (Inl e, rocksdb)
      | Inr _ \<Rightarrow>
          (case ic_walk ic table of
             Inl e \<Rightarrow> (Inl e, [])
           | Inr entries \<Rightarrow>
               (case rows_until_error entries of
                  (rows, Some e) \<Rightarrow> (Inl e, put_rows (take (ic_committed ic) rows))
                | (rows, None) \<Rightarrow>
                    (case ic_commit ic of
                       Inl e \<Rightarrow> (Inl e, put_rows (take (ic_committed ic) rows))
                     | Inr _ \<Rightarrow> (case ic_flush ic of Inl e \<Rightarrow> (Inl e, put_rows rows) | Inr _ \<Rightarrow> (Inr (), put_rows rows))))))"

section \<open>The store\<close>

datatype mdbx_table = AccountChangeSets | StorageChangeSets | TransactionSenders | TransactionHashNumbers | AccountsHistory
  | StoragesHistory | PlainAccountState | PlainStorageState | AccountsTrie | StoragesTrie

datatype stage = StageExecution | StageSenderRecovery | StageMerkleExecute | StageMerkleUnwind | StageTransactionLookup
  | StageIndexAccountHistory | StageIndexStorageHistory

datatype db_dir = DbPath | DbCompact | DbPreCompact

text \<open>
  The tables hold rows of keys and values; the change sets are read from them by the sources above.
  The static file segments are values \<open>'w\<close> of the library. A directory holds the files of the database that
  is open, or a copy of what it held at some time, or nothing.
\<close>

record ('k, 'v) mdbx =
  md_is_v2 :: bool
  md_checkpoints :: "stage \<Rightarrow> nat option"
  md_merkle_progress :: "byte list"
  md_tables :: "mdbx_table \<Rightarrow> ('k \<times> 'v) list"

datatype ('k, 'v) db_files = LiveFiles | CopiedFiles "('k, 'v) mdbx"

record ('w, 'k, 'v) store =
  st_is_v2 :: bool
  st_checkpoints :: "stage \<Rightarrow> nat option"
  st_merkle_progress :: "byte list"
  st_tables :: "mdbx_table \<Rightarrow> ('k \<times> 'v) list"
  st_sf_account_changesets :: 'w
  st_sf_storage_changesets :: 'w
  st_sf_receipts :: 'w
  st_sf_senders :: 'w
  st_rocksdb :: "mdbx_table \<Rightarrow> ('k, 'v) hmap"
  st_dirs :: "db_dir \<Rightarrow> ('k, 'v) db_files option"

definition mdbx_of :: "('w, 'k, 'v) store \<Rightarrow> ('k, 'v) mdbx" where
  "mdbx_of s = \<lparr>md_is_v2 = st_is_v2 s, md_checkpoints = st_checkpoints s, md_merkle_progress = st_merkle_progress s, md_tables = st_tables s\<rparr>"

record ('w, 'e, 'p, 't) migration_lib =
  ml_account_changesets :: "('w, 'e) segment_ops"
  ml_storage_changesets :: "('w, storage_before_tx) segment_ops"
  ml_receipts :: "('w, 'p) segment_ops"
  ml_senders :: "('w, 't) segment_ops"

text \<open>How the calls of one run go.\<close>

record ('w, 'e, 'k, 'v) migration_io =
  io_preflight :: "string + unit"
  io_accounts :: "('k, 'v, 'e) changeset_source"
  io_storages :: "('k, 'v) storage_source"
  io_receipts :: "'w receipts_source"
  io_index :: "mdbx_table \<Rightarrow> ('k, 'v) index_copy"
  io_write_settings :: "string + unit"
  io_clear :: "mdbx_table \<Rightarrow> string + unit"
  io_save_checkpoints :: "string + unit"
  io_open_senders :: "string + unit"
  io_compact :: "string + unit"
  io_rename_to_backup :: "string + unit"
  io_rename_to_db :: "string + unit"
  io_rename_back :: "string + unit"
  io_remove_backup :: "string + unit"

text \<open>One phase after another, until one fails.\<close>

definition and_also :: "('s \<Rightarrow> ('e + unit) \<times> 's) \<Rightarrow> ('s \<Rightarrow> ('e + unit) \<times> 's) \<Rightarrow> 's \<Rightarrow> ('e + unit) \<times> 's" where
  "and_also f g s = (case f s of (Inl e, s1) \<Rightarrow> (Inl e, s1) | (Inr _, s1) \<Rightarrow> g s1)"

fun migrate_indices :: "('w, 'e, 'k, 'v) migration_io \<Rightarrow> mdbx_table list \<Rightarrow> ('w, 'k, 'v) store \<Rightarrow> (string + unit) \<times> ('w, 'k, 'v) store" where
  "migrate_indices io [] s = (Inr (), s)"
| "migrate_indices io (t # ts) s = (case copy_table_to_rocksdb (io_index io t) (st_tables s t) (st_rocksdb s t) of
       (Inl e, rows) \<Rightarrow> (Inl e, s\<lparr>st_rocksdb := (st_rocksdb s)(t := rows)\<rparr>)
     | (Inr _, rows) \<Rightarrow> migrate_indices io ts (s\<lparr>st_rocksdb := (st_rocksdb s)(t := rows)\<rparr>))"

definition index_tables :: "mdbx_table list" where
  "index_tables = [TransactionHashNumbers, AccountsHistory, StoragesHistory]"

fun clear_tables :: "(mdbx_table \<Rightarrow> string + unit) \<Rightarrow> mdbx_table list \<Rightarrow> ('w, 'k, 'v) store \<Rightarrow> (string + unit) \<times> ('w, 'k, 'v) store" where
  "clear_tables clear [] s = (Inr (), s)"
| "clear_tables clear (t # ts) s = (case clear t of
       Inl e \<Rightarrow> (Inl e, s)
     | Inr _ \<Rightarrow> clear_tables clear ts (s\<lparr>st_tables := (st_tables s)(t := [])\<rparr>))"

definition recomputable_tables :: "mdbx_table list" where
  "recomputable_tables = [AccountChangeSets, StorageChangeSets, TransactionSenders, TransactionHashNumbers, AccountsHistory, StoragesHistory,
     PlainAccountState, PlainStorageState, AccountsTrie, StoragesTrie]"

definition reset_stages :: "stage list" where
  "reset_stages = [StageSenderRecovery, StageMerkleExecute, StageMerkleUnwind]"

definition reset_checkpoints :: "(string + unit) \<Rightarrow> nat \<Rightarrow> ('w, 'k, 'v) store \<Rightarrow> (string + unit) \<times> ('w, 'k, 'v) store" where
  "reset_checkpoints saved genesis_block s = (case saved of
       Inl e \<Rightarrow> (Inl e, s)
     | Inr _ \<Rightarrow> (Inr (), s\<lparr>st_checkpoints := (\<lambda>stage. if stage \<in> set reset_stages then Some (genesis_block - 1) else st_checkpoints s stage),
         st_merkle_progress := []\<rparr>))"

definition bridge_senders :: "('w, 't) segment_ops \<Rightarrow> (string + unit) \<Rightarrow> nat \<Rightarrow> ('w, 'k, 'v) store \<Rightarrow> (string + unit) \<times> ('w, 'k, 'v) store" where
  "bridge_senders so opened genesis_block s =
     (if genesis_block > 0
      then (case opened of
          Inl e \<Rightarrow> (Inl e, s)
        | Inr _ \<Rightarrow>
            if so_current_block_number so (st_sf_senders s) = None
            then (case and_then (so_increment_block so genesis_block (st_sf_senders s)) (so_commit so) of
                Inl e \<Rightarrow> (Inl e, s)
              | Inr w \<Rightarrow> (Inr (), s\<lparr>st_sf_senders := w\<rparr>))
            else (Inr (), s))
      else (Inr (), s))"

definition clear_recomputable_tables :: "('w, 'e, 'p, 't) migration_lib \<Rightarrow> ('w, 'e, 'k, 'v) migration_io \<Rightarrow> nat \<Rightarrow>
    ('w, 'k, 'v) store \<Rightarrow> (string + unit) \<times> ('w, 'k, 'v) store" where
  "clear_recomputable_tables L io genesis_block =
     and_also (clear_tables (io_clear io) recomputable_tables)
     (and_also (reset_checkpoints (io_save_checkpoints io) genesis_block)
       (bridge_senders (ml_senders L) (io_open_senders io) genesis_block))"

text \<open>The compacted copy is written beside the database.\<close>

definition compact_mdbx :: "(string + unit) \<Rightarrow> ('w, 'k, 'v) store \<Rightarrow> (string + unit) \<times> ('w, 'k, 'v) store" where
  "compact_mdbx copied s = (case copied of
       Inl e \<Rightarrow> (Inl e, s)
     | Inr _ \<Rightarrow> (Inr (), s\<lparr>st_dirs := (st_dirs s)(DbCompact := Some (CopiedFiles (mdbx_of s)))\<rparr>))"

definition rename_dir :: "db_dir \<Rightarrow> db_dir \<Rightarrow> (db_dir \<Rightarrow> 'd option) \<Rightarrow> db_dir \<Rightarrow> 'd option" where
  "rename_dir from_path to_path dirs = dirs(to_path := dirs from_path, from_path := None)"

definition swap_compacted_db :: "(string + unit) \<Rightarrow> (string + unit) \<Rightarrow> (string + unit) \<Rightarrow> (string + unit) \<Rightarrow> (db_dir \<Rightarrow> 'd option) \<Rightarrow>
    (string + unit) \<times> (db_dir \<Rightarrow> 'd option)" where
  "swap_compacted_db to_backup to_db back removed dirs = (case to_backup of
       Inl e \<Rightarrow> (Inl e, dirs)
     | Inr _ \<Rightarrow>
         let dirs1 = rename_dir DbPath DbPreCompact dirs in
         (case to_db of
            Inl e \<Rightarrow> (Inl e, case back of Inl _ \<Rightarrow> dirs1 | Inr _ \<Rightarrow> rename_dir DbPreCompact DbPath dirs1)
          | Inr _ \<Rightarrow>
              let dirs2 = rename_dir DbCompact DbPath dirs1 in
              (case removed of Inl e \<Rightarrow> (Inl e, dirs2) | Inr _ \<Rightarrow> (Inr (), dirs2(DbPreCompact := None)))))"

section \<open>The migration\<close>

definition on_accounts :: "(string + 'w) \<Rightarrow> ('w, 'k, 'v) store \<Rightarrow> (string + unit) \<times> ('w, 'k, 'v) store" where
  "on_accounts r s = (case r of Inl e \<Rightarrow> (Inl e, s) | Inr w \<Rightarrow> (Inr (), s\<lparr>st_sf_account_changesets := w\<rparr>))"

definition on_storages :: "(string + 'w) \<Rightarrow> ('w, 'k, 'v) store \<Rightarrow> (string + unit) \<times> ('w, 'k, 'v) store" where
  "on_storages r s = (case r of Inl e \<Rightarrow> (Inl e, s) | Inr w \<Rightarrow> (Inr (), s\<lparr>st_sf_storage_changesets := w\<rparr>))"

definition flip_settings :: "(string + unit) \<Rightarrow> ('w, 'k, 'v) store \<Rightarrow> (string + unit) \<times> ('w, 'k, 'v) store" where
  "flip_settings written s = (case written of Inl e \<Rightarrow> (Inl e, s) | Inr _ \<Rightarrow> (Inr (), s\<lparr>st_is_v2 := True\<rparr>))"

definition migration_phases :: "('w, 'e, 'p, 't) migration_lib \<Rightarrow> ('w, 'e, 'k, 'v) migration_io \<Rightarrow> nat \<Rightarrow> nat \<Rightarrow>
    ('w, 'k, 'v) store \<Rightarrow> (string + unit) \<times> ('w, 'k, 'v) store" where
  "migration_phases L io tip genesis_block =
     and_also (\<lambda>s. on_accounts (migrate_account_changesets (ml_account_changesets L) (io_accounts io) (st_tables s AccountChangeSets) tip genesis_block (st_sf_account_changesets s)) s)
     (and_also (\<lambda>s. on_storages (migrate_storage_changesets (ml_storage_changesets L) (io_storages io) (st_tables s StorageChangeSets) tip genesis_block (st_sf_storage_changesets s)) s)
     (and_also (\<lambda>s. apsnd (\<lambda>w. s\<lparr>st_sf_receipts := w\<rparr>) (migrate_receipts (ml_receipts L) (io_receipts io) tip genesis_block (st_sf_receipts s)))
     (and_also (migrate_indices io index_tables)
     (and_also (flip_settings (io_write_settings io))
     (and_also (clear_recomputable_tables L io genesis_block)
     (and_also (compact_mdbx (io_compact io))
       (\<lambda>s. apsnd (\<lambda>dirs. s\<lparr>st_dirs := dirs\<rparr>)
         (swap_compacted_db (io_rename_to_backup io) (io_rename_to_db io) (io_rename_back io) (io_remove_backup io) (st_dirs s)))))))))"

definition migrate_v2 :: "('w, 'e, 'p, 't) migration_lib \<Rightarrow> ('w, 'e, 'k, 'v) migration_io \<Rightarrow> nat \<Rightarrow>
    ('w, 'k, 'v) store \<Rightarrow> (string + unit) \<times> ('w, 'k, 'v) store" where
  "migrate_v2 L io genesis_block s = (case io_preflight io of
       Inl e \<Rightarrow> (Inl e, s)
     | Inr _ \<Rightarrow>
         if st_is_v2 s then (Inr (), s)
         else let tip = (case st_checkpoints s StageExecution of Some b \<Rightarrow> b | None \<Rightarrow> 0) in
           if tip < genesis_block then (Inl ''Invalid chain state: execution checkpoint is before genesis block'', s)
           else if so_highest_block (ml_account_changesets L) (st_sf_account_changesets s) \<noteq> None \<or>
                   so_highest_block (ml_storage_changesets L) (st_sf_storage_changesets s) \<noteq> None
           then (Inl ''Static file segment already contains data. Cannot migrate, target must be empty.'', s)
           else migration_phases L io tip genesis_block s)"

section \<open>What is copied\<close>

text \<open>
  What is assumed of a segment: it maps blocks to entries; appending a block sets its entries, moving
  forward to a block leaves something, a commit changes nothing of it, and the highest block is known
  exactly when there is something.
\<close>

definition segment_laws :: "('w, 'e) segment_ops \<Rightarrow> ('w \<Rightarrow> nat \<rightharpoonup> 'e list) \<Rightarrow> bool" where
  "segment_laws so content \<longleftrightarrow>
     (\<forall>es b w w'. so_append so es b w = Inr w' \<longrightarrow> content w' = (content w)(b \<mapsto> es)) \<and>
     (\<forall>b w w'. so_ensure_at_block so b w = Inr w' \<longrightarrow> content w' \<noteq> Map.empty) \<and>
     (\<forall>w w'. so_commit so w = Inr w' \<longrightarrow> content w' = content w) \<and>
     (\<forall>w. so_highest_block so w = None \<longleftrightarrow> content w = Map.empty)"

definition of_block :: "nat \<Rightarrow> (nat \<times> 'e) list \<Rightarrow> 'e list" where
  "of_block b rows = map snd (filter (\<lambda>r. fst r = b) rows)"

lemma of_block_later: "\<forall>r\<in>set rows. b < fst r \<Longrightarrow> of_block b rows = []"
  by (auto simp: of_block_def filter_empty_conv)

lemma take_block_sorted:
  assumes "sorted (map fst rows)" "\<forall>r\<in>set rows. b \<le> fst r"
  shows "take_block b (map Inr rows) = (of_block b rows, map Inr (filter (\<lambda>r. b < fst r) rows))"
  using assms
proof (induction rows)
  case (Cons r rows)
  obtain n e where r: "r = (n, e)" by (cases r)
  show ?case
  proof (cases "n = b")
    case True
    with Cons r show ?thesis by (simp add: of_block_def)
  next
    case False
    with Cons.prems r have "\<forall>r\<in>set (r # rows). b < fst r" by fastforce
    then have "of_block b (r # rows) = []" "filter (\<lambda>r. b < fst r) (r # rows) = r # rows" by (simp_all only: of_block_later filter_id_conv simp_thms)
    with False r show ?thesis by simp
  qed
qed (simp add: of_block_def)

lemma append_blocks_content:
  assumes "segment_laws so content" "sorted (map fst rows)" "\<forall>r\<in>set rows. b \<le> fst r" "append_blocks so [b..<b + k] (map Inr rows) w = Inr w'"
  shows "content w' = (\<lambda>n. if b \<le> n \<and> n < b + k then Some (of_block n rows) else content w n)"
  using assms(2-)
proof (induction k arbitrary: b rows w)
  case (Suc k)
  let ?rest = "filter (\<lambda>r. b < fst r) rows"
  have u: "[b..<b + Suc k] = b # [Suc b..<Suc b + k]" by (simp add: upt_conv_Cons)
  obtain w1 where w1: "so_append so (of_block b rows) b w = Inr w1" "append_blocks so [Suc b..<Suc b + k] (map Inr ?rest) w1 = Inr w'"
    using Suc.prems(3) take_block_sorted [OF Suc.prems(1,2)] unfolding u by (auto simp: and_then_Inr)
  have "sorted (map fst ?rest)" using Suc.prems(1) by (rule sorted_filter)
  from Suc.IH [OF this _ w1(2)] have "content w' = (\<lambda>n. if Suc b \<le> n \<and> n < Suc b + k then Some (of_block n ?rest) else content w1 n)" by auto
  moreover have "content w1 = (content w)(b \<mapsto> of_block b rows)" using assms(1) w1(1) by (simp add: segment_laws_def)
  moreover have "of_block n ?rest = of_block n rows" if "b < n" for n
    using that by (auto simp: of_block_def intro!: arg_cong [where f = "map snd"] filter_cong)
  ultimately show ?case by (auto simp: fun_eq_iff)
qed (auto simp: fun_eq_iff)

lemma append_blocks_dom:
  assumes "segment_laws so content"
  shows "append_blocks so blocks walker w = Inr w' \<Longrightarrow> dom (content w') = dom (content w) \<union> set blocks"
proof (induction blocks arbitrary: walker w)
  case (Cons b blocks)
  obtain entries rest where t: "take_block b walker = (entries, rest)" by fastforce
  with Cons.prems obtain w1 where w1: "so_append so entries b w = Inr w1" "append_blocks so blocks rest w1 = Inr w'" by (auto simp: and_then_Inr)
  have "content w1 = (content w)(b \<mapsto> entries)" using assms w1(1) by (simp add: segment_laws_def)
  with Cons.IH [OF w1(2)] show ?case by auto
qed simp

text \<open>Rows that follow one that cannot be read are not there for the loop.\<close>

lemma take_block_error:
  "\<exists>es ys. take_block b (map Inr rows @ Inl e # rest) = (es, map Inr ys @ Inl e # rest) \<and> take_block b (map Inr rows) = (es, map Inr ys)"
proof (induction rows)
  case (Cons r rows)
  then obtain es ys where IH: "take_block b (map Inr rows @ Inl e # rest) = (es, map Inr ys @ Inl e # rest)" "take_block b (map Inr rows) = (es, map Inr ys)"
    by blast
  show ?case
  proof (cases "fst r = b")
    case True
    with IH show ?thesis by (cases r) (auto intro: exI [of _ ys])
  next
    case False
    then show ?thesis by (cases r) (auto intro: exI [of _ "r # rows"])
  qed
qed (auto intro: exI [of _ "[]"])

lemma append_blocks_error: "append_blocks so blocks (map Inr rows @ Inl e # rest) w = append_blocks so blocks (map Inr rows) w"
proof (induction blocks arbitrary: rows w)
  case (Cons b blocks)
  obtain es ys where "take_block b (map Inr rows @ Inl e # rest) = (es, map Inr ys @ Inl e # rest)" "take_block b (map Inr rows) = (es, map Inr ys)"
    using take_block_error by blast
  with Cons show ?case by (simp add: and_then_def split: sum.split)
qed simp

lemma and_also_Inr: "and_also f g s = (Inr (), s') \<longleftrightarrow> (\<exists>s1. f s = (Inr (), s1) \<and> g s1 = (Inr (), s'))"
  by (auto simp: and_also_def split: prod.splits sum.splits)

lemma map_of_put_rows: "distinct (map fst rows) \<Longrightarrow> map_of (put_rows rows) = map_of rows"
proof -
  have "map_of (fold (\<lambda>(k, v). AList.update k v) rows m) = map_of m ++ map_of rows" if "distinct (map fst rows)" for m
    using that
  proof (induction rows arbitrary: m)
    case (Cons r rows)
    then have "map_of rows (fst r) = None" by (auto simp: map_of_eq_None_iff)
    with Cons show ?case by (cases r) (auto simp: update_conv' fun_eq_iff map_add_def split: option.split)
  qed simp
  then show "distinct (map fst rows) \<Longrightarrow> ?thesis" by (simp add: put_rows_def)
qed

lemma rows_until_error_Inr [simp]: "rows_until_error (map Inr rows) = (rows, None)"
  by (induction rows) simp_all

lemma copy_table_Inr:
  assumes "copy_table_to_rocksdb ic rows rocksdb = (Inr (), rows')" "ic_walk ic rows = Inr (map Inr rows)"
  shows "rows' = put_rows rows"
  using assms by (auto simp: copy_table_to_rocksdb_def split: sum.splits)

lemma migrate_indices_Inr:
  assumes "migrate_indices io ts s = (Inr (), s')" "\<forall>t\<in>set ts. ic_walk (io_index io t) (st_tables s t) = Inr (map Inr (st_tables s t))" "distinct ts"
  shows "s' = s\<lparr>st_rocksdb := (\<lambda>t. if t \<in> set ts then put_rows (st_tables s t) else st_rocksdb s t)\<rparr>"
  using assms
proof (induction ts arbitrary: s)
  case (Cons t ts)
  obtain rows' where c: "copy_table_to_rocksdb (io_index io t) (st_tables s t) (st_rocksdb s t) = (Inr (), rows')"
    "migrate_indices io ts (s\<lparr>st_rocksdb := (st_rocksdb s)(t := rows')\<rparr>) = (Inr (), s')"
    using Cons.prems(1) by (auto split: prod.splits sum.splits)
  have "rows' = put_rows (st_tables s t)" using copy_table_Inr [OF c(1)] Cons.prems(2) by simp
  with Cons.IH [OF c(2)] Cons.prems(2,3) show ?case by (auto simp: fun_eq_iff intro!: store.equality)
qed simp

lemma clear_tables_Inr:
  "clear_tables clear ts s = (Inr (), s') \<Longrightarrow> s' = s\<lparr>st_tables := (\<lambda>t. if t \<in> set ts then [] else st_tables s t)\<rparr>"
proof (induction ts arbitrary: s)
  case (Cons t ts)
  then have "clear_tables clear ts (s\<lparr>st_tables := (st_tables s)(t := [])\<rparr>) = (Inr (), s')" by (auto split: sum.splits)
  from Cons.IH [OF this] show ?case by (auto simp: fun_eq_iff intro!: store.equality)
qed simp

lemma all_recomputable: "t \<in> set recomputable_tables"
  by (cases t) (simp_all add: recomputable_tables_def)

text \<open>The blocks that are still there when those up to a checkpoint are pruned.\<close>

definition not_pruned :: "(string + nat option) \<Rightarrow> nat \<Rightarrow> bool" where
  "not_pruned checkpoint b \<longleftrightarrow> (case checkpoint of Inr (Some c) \<Rightarrow> c < b | _ \<Rightarrow> True)"

lemma not_pruned_after: "not_pruned (Inr c) b \<longleftrightarrow> after_pruned c \<le> b"
  by (auto simp: not_pruned_def after_pruned_def split: option.split)

text \<open>
  A cursor that reads cleanly: from a block on it gives the rows of the table from there, each decoded;
  the rows of the table are in the order of their blocks.
\<close>

definition walks :: "(('k \<times> 'v) list \<Rightarrow> nat \<Rightarrow> string + (string + 'a) list) \<Rightarrow> ('k \<times> 'v \<Rightarrow> 'a) \<Rightarrow> ('a \<Rightarrow> nat) \<Rightarrow> bool" where
  "walks walk decode block \<longleftrightarrow> (\<forall>rows first. walk rows first = Inr (map Inr (filter (\<lambda>r. first \<le> block r) (map decode rows))))"

text \<open>The storage changes of a block, from the rows of the table.\<close>

definition storage_changes :: "nat \<Rightarrow> storage_row list \<Rightarrow> storage_before_tx list" where
  "storage_changes b rows = map (\<lambda>((_, a), k, v). \<lparr>sbt_address = a, sbt_key = k, sbt_value = v\<rparr>) (filter (\<lambda>((n, _), _). n = b) rows)"

lemma storage_changes_of_block: "of_block b (map storage_entry rows) = storage_changes b rows"
  by (simp add: of_block_def storage_changes_def storage_entry_def filter_map comp_def split_def)

lemma segment_copied:
  assumes "segment_laws so content" "append_blocks so [first..<Suc tip] (map Inr (filter (\<lambda>r. first \<le> fst r) rows)) w = Inr w'" "so_commit so w' = Inr w''"
    and "sorted (map fst rows)" "first \<le> b" "b \<le> tip"
  shows "content w'' b = Some (of_block b rows)"
proof -
  have u: "[first..<Suc tip] = [first..<first + (Suc tip - first)]" using assms(5,6) by simp
  have "sorted (map fst (filter (\<lambda>r. first \<le> fst r) rows))" using assms(4) by (rule sorted_filter)
  from append_blocks_content [OF assms(1) this _ assms(2) [unfolded u]] assms(5,6)
  have "content w' b = Some (of_block b (filter (\<lambda>r. first \<le> fst r) rows))" by auto
  moreover have "of_block b (filter (\<lambda>r. first \<le> fst r) rows) = of_block b rows"
    using assms(5) by (auto simp: of_block_def intro!: arg_cong [where f = "map snd"] filter_cong)
  moreover have "content w'' = content w'" using assms(1,3) by (simp add: segment_laws_def)
  ultimately show ?thesis by simp
qed

lemma accounts_copied:
  assumes "migrate_account_changesets so src rows tip genesis_block w = Inr w'" "segment_laws so content" "walks (cs_walk src) decode fst"
    and "sorted (map fst (map decode rows))" "not_pruned (cs_prune_checkpoint src) b" "genesis_block \<le> b" "b \<le> tip"
  shows "content w' b = Some (of_block b (map decode rows))"
proof -
  obtain c w1 w2 where c: "cs_prune_checkpoint src = Inr c"
    "append_blocks so [max (after_pruned c) genesis_block..<Suc tip] (map Inr (filter (\<lambda>r. max (after_pruned c) genesis_block \<le> fst r) (map decode rows))) w1 = Inr w2"
    "so_commit so w2 = Inr w'"
    using assms(1,3) unfolding migrate_account_changesets_def walks_def Let_def by (auto simp only: and_then_Inr sum.inject)
  show ?thesis by (rule segment_copied [OF assms(2) c(2,3)]) (use assms(4-7) c(1) in \<open>simp_all add: not_pruned_after\<close>)
qed

lemma storages_copied:
  assumes "migrate_storage_changesets so src rows tip genesis_block w = Inr w'" "segment_laws so content" "walks (ss_walk src) decode (\<lambda>r. fst (fst r))"
    and "sorted (map (\<lambda>r. fst (fst r)) (map decode rows))" "not_pruned (ss_prune_checkpoint src) b" "genesis_block \<le> b" "b \<le> tip"
  shows "content w' b = Some (storage_changes b (map decode rows))"
proof -
  let ?rows = "map decode rows"
  have fst_entry: "fst (storage_entry r) = fst (fst r)" for r by (simp add: storage_entry_def split: prod.split)
  have m: "map (map_sum id storage_entry) (map Inr (filter (\<lambda>r. first \<le> fst (fst r)) rows)) =
      map Inr (filter (\<lambda>r. first \<le> fst r) (map storage_entry rows))" for first rows
    by (induction rows) (simp_all add: fst_entry)
  obtain c w1 w2 where c: "ss_prune_checkpoint src = Inr c"
    "append_blocks so [max (after_pruned c) genesis_block..<Suc tip]
       (map Inr (filter (\<lambda>r. max (after_pruned c) genesis_block \<le> fst r) (map storage_entry ?rows))) w1 = Inr w2"
    "so_commit so w2 = Inr w'"
    using assms(1,3) unfolding migrate_storage_changesets_def walks_def Let_def by (auto simp only: and_then_Inr sum.inject m)
  have "sorted (map fst (map storage_entry ?rows))" using assms(4) by (simp add: fst_entry comp_def)
  from segment_copied [OF assms(2) c(2,3) this] assms(5-7) c(1) show ?thesis
    by (simp add: not_pruned_after storage_changes_of_block del: map_map)
qed

section \<open>What the phases keep\<close>

definition keeps :: "('s \<Rightarrow> 'a) \<Rightarrow> ('s \<Rightarrow> (string + unit) \<times> 's) \<Rightarrow> bool" where
  "keeps part f \<longleftrightarrow> (\<forall>s. part (snd (f s)) = part s)"

lemma keeps_and_also: "keeps part f \<Longrightarrow> keeps part g \<Longrightarrow> keeps part (and_also f g)"
  unfolding keeps_def and_also_def by (metis (mono_tags, lifting) old.prod.case old.sum.exhaust snd_conv split_pairs sum.case)

lemma keepsD: "keeps part f \<Longrightarrow> f s = (r, s') \<Longrightarrow> part s' = part s"
  by (metis keeps_def snd_conv)

lemma migrate_indices_keeps: "keeps (\<lambda>s. (st_is_v2 s, st_tables s, st_sf_account_changesets s, st_sf_storage_changesets s)) (migrate_indices io ts)"
  unfolding keeps_def
proof
  fix s
  show "(\<lambda>s. (st_is_v2 s, st_tables s, st_sf_account_changesets s, st_sf_storage_changesets s)) (snd (migrate_indices io ts s)) =
      (st_is_v2 s, st_tables s, st_sf_account_changesets s, st_sf_storage_changesets s)"
    by (induction ts arbitrary: s) (simp_all split: prod.split sum.split)
qed

lemma clear_tables_keeps: "keeps (\<lambda>s. (st_sf_account_changesets s, st_sf_storage_changesets s, st_rocksdb s)) (clear_tables clear ts)"
  unfolding keeps_def
proof
  fix s
  show "(\<lambda>s. (st_sf_account_changesets s, st_sf_storage_changesets s, st_rocksdb s)) (snd (clear_tables clear ts s)) =
      (st_sf_account_changesets s, st_sf_storage_changesets s, st_rocksdb s)"
    by (induction ts arbitrary: s) (simp_all split: sum.split)
qed

text \<open>The phases up to the copy of the indices change neither the settings nor a table; those after it change nothing that was moved.\<close>

abbreviation old_layout :: "('w, 'k, 'v) store \<Rightarrow> bool \<times> (mdbx_table \<Rightarrow> ('k \<times> 'v) list)" where
  "old_layout s \<equiv> (st_is_v2 s, st_tables s)"

abbreviation new_layout :: "('w, 'k, 'v) store \<Rightarrow> 'w \<times> 'w \<times> (mdbx_table \<Rightarrow> ('k, 'v) hmap)" where
  "new_layout s \<equiv> (st_sf_account_changesets s, st_sf_storage_changesets s, st_rocksdb s)"

lemma early_phases_keep:
  "keeps old_layout (\<lambda>s. on_accounts (f s) s)" "keeps old_layout (\<lambda>s. on_storages (f s) s)"
  "keeps old_layout (\<lambda>s. apsnd (\<lambda>w. s\<lparr>st_sf_receipts := w\<rparr>) (h s))" "keeps old_layout (migrate_indices io ts)"
  using migrate_indices_keeps [of io ts] by (auto simp: keeps_def on_accounts_def on_storages_def split: sum.split)

lemma late_phases_keep:
  "keeps new_layout (flip_settings u)" "keeps new_layout (clear_recomputable_tables L io g)" "keeps new_layout (compact_mdbx c)"
  "keeps new_layout (\<lambda>s. apsnd (\<lambda>dirs. s\<lparr>st_dirs := dirs\<rparr>) (k s))"
proof -
  show "keeps new_layout (clear_recomputable_tables L io g)"
    unfolding clear_recomputable_tables_def using clear_tables_keeps
    by (intro keeps_and_also; unfold keeps_def) (simp_all add: reset_checkpoints_def bridge_senders_def split: sum.split)
qed (simp_all add: keeps_def flip_settings_def compact_mdbx_def split: sum.split)

text \<open>The phases after the first one keep what it wrote.\<close>

lemma later_phases_keep:
  "keeps st_sf_account_changesets (\<lambda>s. on_storages (f s) s)" "keeps st_sf_account_changesets (\<lambda>s. apsnd (\<lambda>w. s\<lparr>st_sf_receipts := w\<rparr>) (h s))"
  "keeps st_sf_account_changesets (migrate_indices io ts)" "keeps st_sf_account_changesets (flip_settings u)"
  "keeps st_sf_account_changesets (clear_recomputable_tables L io g)" "keeps st_sf_account_changesets (compact_mdbx c)"
  "keeps st_sf_account_changesets (\<lambda>s. apsnd (\<lambda>dirs. s\<lparr>st_dirs := dirs\<rparr>) (k s))"
  using migrate_indices_keeps [of io ts] late_phases_keep(2) [of L io g]
  by (auto simp: keeps_def on_storages_def flip_settings_def compact_mdbx_def split: sum.split)

section \<open>A migration that succeeds\<close>

lemma phase_Inr:
  "on_accounts r s = (Inr (), s1) \<longleftrightarrow> (\<exists>w. r = Inr w \<and> s1 = s\<lparr>st_sf_account_changesets := w\<rparr>)"
  "on_storages r s = (Inr (), s1) \<longleftrightarrow> (\<exists>w. r = Inr w \<and> s1 = s\<lparr>st_sf_storage_changesets := w\<rparr>)"
  "flip_settings u s = (Inr (), s1) \<longleftrightarrow> u = Inr () \<and> s1 = s\<lparr>st_is_v2 := True\<rparr>"
  "compact_mdbx u s = (Inr (), s1) \<longleftrightarrow> u = Inr () \<and> s1 = s\<lparr>st_dirs := (st_dirs s)(DbCompact := Some (CopiedFiles (mdbx_of s)))\<rparr>"
  by (cases r; cases u; auto simp: on_accounts_def on_storages_def flip_settings_def compact_mdbx_def)+

lemma apsnd_eq_iff: "apsnd f p = (a, b) \<longleftrightarrow> (\<exists>c. p = (a, c) \<and> b = f c)"
  by (cases p) auto

lemma clear_recomputable_Inr:
  assumes "clear_recomputable_tables L io genesis_block s = (Inr (), s')"
  shows "st_is_v2 s' = st_is_v2 s" "st_tables s' = (\<lambda>_. [])" "st_merkle_progress s' = []"
    "st_checkpoints s' = (\<lambda>stage. if stage \<in> set reset_stages then Some (genesis_block - 1) else st_checkpoints s stage)"
proof -
  obtain s1 s2 where "clear_tables (io_clear io) recomputable_tables s = (Inr (), s1)"
    "reset_checkpoints (io_save_checkpoints io) genesis_block s1 = (Inr (), s2)"
    "bridge_senders (ml_senders L) (io_open_senders io) genesis_block s2 = (Inr (), s')"
    using assms unfolding clear_recomputable_tables_def and_also_Inr by blast
  then have "s1 = s\<lparr>st_tables := (\<lambda>_. [])\<rparr>"
    "s2 = s1\<lparr>st_checkpoints := (\<lambda>stage. if stage \<in> set reset_stages then Some (genesis_block - 1) else st_checkpoints s1 stage), st_merkle_progress := []\<rparr>"
    "\<exists>w. s' = s2\<lparr>st_sf_senders := w\<rparr>"
    using clear_tables_Inr [of "io_clear io" recomputable_tables s s1] all_recomputable
    by (auto simp: reset_checkpoints_def bridge_senders_def split: sum.splits if_splits intro: exI [of _ "st_sf_senders s2"])
  then show "st_is_v2 s' = st_is_v2 s" "st_tables s' = (\<lambda>_. [])" "st_merkle_progress s' = []"
    "st_checkpoints s' = (\<lambda>stage. if stage \<in> set reset_stages then Some (genesis_block - 1) else st_checkpoints s stage)"
    by auto
qed

definition execution_tip :: "('w, 'k, 'v) store \<Rightarrow> nat" where
  "execution_tip s = (case st_checkpoints s StageExecution of Some b \<Rightarrow> b | None \<Rightarrow> 0)"

lemma migrate_v2_phases:
  assumes "migrate_v2 L io genesis_block s = (r, s')" "\<not> st_is_v2 s"
  shows "s' = s \<and> r \<noteq> Inr () \<or> migration_phases L io (execution_tip s) genesis_block s = (r, s')"
  using assms by (auto simp: migrate_v2_def execution_tip_def Let_def split: sum.splits if_splits)

text \<open>Whatever happens, a run that has changed the settings or a table has first copied everything.\<close>

lemma and_also_past:
  assumes "and_also f g s = (r, s')" "keeps part f" "part s' \<noteq> part s \<or> r = Inr ()"
  obtains s1 where "f s = (Inr (), s1)" "g s1 = (r, s')" "part s1 = part s"
  using assms by (cases "f s"; cases "fst (f s)") (auto simp: and_also_def dest: keepsD)

lemma flip_settings_past:
  assumes "and_also (flip_settings u) g s = (r, s')" "old_layout s' \<noteq> old_layout s \<or> r = Inr ()"
  shows "g (s\<lparr>st_is_v2 := True\<rparr>) = (r, s')"
  using assms by (auto simp: and_also_def flip_settings_def split: sum.splits)

lemma last_phases_Inr:
  assumes "and_also (clear_recomputable_tables L io g) (and_also (compact_mdbx c) (\<lambda>s. apsnd (\<lambda>dirs. s\<lparr>st_dirs := dirs\<rparr>)
      (swap_compacted_db to_backup to_db back removed (st_dirs s)))) s = (Inr (), s')"
  obtains s2 where "clear_recomputable_tables L io g s = (Inr (), s2)"
    "s' = s2\<lparr>st_dirs := (st_dirs s2)(DbPath := Some (CopiedFiles (mdbx_of s2)), DbCompact := None, DbPreCompact := None)\<rparr>"
  using assms that unfolding and_also_Inr phase_Inr apsnd_eq_iff
  by (cases to_backup; cases to_db; cases removed) (auto simp: swap_compacted_db_def rename_dir_def Let_def fun_upd_twist split: sum.splits)

lemma migration_phases_moved:
  assumes "migration_phases L io tip genesis_block s = (r, s')" "old_layout s' \<noteq> old_layout s \<or> r = Inr ()"
  obtains wa ws wr s1 where
    "migrate_account_changesets (ml_account_changesets L) (io_accounts io) (st_tables s AccountChangeSets) tip genesis_block (st_sf_account_changesets s) = Inr wa"
    "migrate_storage_changesets (ml_storage_changesets L) (io_storages io) (st_tables s StorageChangeSets) tip genesis_block (st_sf_storage_changesets s) = Inr ws"
    "migrate_indices io index_tables (s\<lparr>st_sf_account_changesets := wa, st_sf_storage_changesets := ws, st_sf_receipts := wr\<rparr>) = (Inr (), s1)"
    "new_layout s' = new_layout s1"
    "r = Inr () \<Longrightarrow> \<exists>s2. clear_recomputable_tables L io genesis_block (s1\<lparr>st_is_v2 := True\<rparr>) = (Inr (), s2) \<and>
       s' = s2\<lparr>st_dirs := (st_dirs s2)(DbPath := Some (CopiedFiles (mdbx_of s2)), DbCompact := None, DbPreCompact := None)\<rparr>"
proof -
  let ?last = "and_also (clear_recomputable_tables L io genesis_block) (and_also (compact_mdbx (io_compact io)) (\<lambda>s. apsnd (\<lambda>dirs. s\<lparr>st_dirs := dirs\<rparr>)
      (swap_compacted_db (io_rename_to_backup io) (io_rename_to_db io) (io_rename_back io) (io_remove_backup io) (st_dirs s))))"
  let ?A = "\<lambda>s. on_accounts (migrate_account_changesets (ml_account_changesets L) (io_accounts io) (st_tables s AccountChangeSets) tip genesis_block (st_sf_account_changesets s)) s"
  let ?B = "\<lambda>s. on_storages (migrate_storage_changesets (ml_storage_changesets L) (io_storages io) (st_tables s StorageChangeSets) tip genesis_block (st_sf_storage_changesets s)) s"
  let ?C = "\<lambda>s. apsnd (\<lambda>w. s\<lparr>st_sf_receipts := w\<rparr>) (migrate_receipts (ml_receipts L) (io_receipts io) tip genesis_block (st_sf_receipts s))"
  let ?I = "migrate_indices io index_tables" and ?F = "flip_settings (io_write_settings io)"
  have 0: "and_also ?A (and_also ?B (and_also ?C (and_also ?I (and_also ?F ?last)))) s = (r, s')" using assms(1) by (simp only: migration_phases_def)
  obtain sa where sa: "?A s = (Inr (), sa)" "and_also ?B (and_also ?C (and_also ?I (and_also ?F ?last))) sa = (r, s')" "old_layout sa = old_layout s"
    by (rule and_also_past [OF 0 early_phases_keep(1) assms(2)])
  obtain sb where sb: "?B sa = (Inr (), sb)" "and_also ?C (and_also ?I (and_also ?F ?last)) sb = (r, s')" "old_layout sb = old_layout sa"
    by (rule and_also_past [OF sa(2) early_phases_keep(2)]) (use assms(2) sa(3) in auto)
  obtain sc where sc: "?C sb = (Inr (), sc)" "and_also ?I (and_also ?F ?last) sc = (r, s')" "old_layout sc = old_layout sb"
    by (rule and_also_past [OF sb(2) early_phases_keep(3)]) (use assms(2) sa(3) sb(3) in auto)
  obtain s1 where s1: "?I sc = (Inr (), s1)" "and_also ?F ?last s1 = (r, s')" "old_layout s1 = old_layout sc"
    by (rule and_also_past [OF sc(2) early_phases_keep(4)]) (use assms(2) sa(3) sb(3) sc(3) in auto)
  have l: "?last (s1\<lparr>st_is_v2 := True\<rparr>) = (r, s')"
    by (rule flip_settings_past [OF s1(2)]) (use assms(2) sa(3) sb(3) sc(3) s1(3) in auto)
  have n: "new_layout s' = new_layout s1"
    using keepsD [where part = new_layout, OF keeps_and_also [OF late_phases_keep(2) keeps_and_also [OF late_phases_keep(3,4)]] l] by simp
  obtain wa ws wr where w: "migrate_account_changesets (ml_account_changesets L) (io_accounts io) (st_tables s AccountChangeSets) tip genesis_block (st_sf_account_changesets s) = Inr wa"
    "sa = s\<lparr>st_sf_account_changesets := wa\<rparr>"
    "migrate_storage_changesets (ml_storage_changesets L) (io_storages io) (st_tables s StorageChangeSets) tip genesis_block (st_sf_storage_changesets s) = Inr ws"
    "sb = sa\<lparr>st_sf_storage_changesets := ws\<rparr>" "sc = sb\<lparr>st_sf_receipts := wr\<rparr>"
    using sa(1) sb(1) sc(1) unfolding phase_Inr apsnd_eq_iff by auto
  show thesis
    by (rule that [OF w(1,3) _ n]) (use s1(1) w(2,4,5) l last_phases_Inr [of L io genesis_block] in \<open>auto elim!: last_phases_Inr\<close>)
qed

text \<open>
  C28. A migration moves everything before it gives anything up. When the tables can be read (their rows
  are in the order of the blocks and their keys distinct) and the segments store what is appended, then
  whatever fails later, a run that has flipped the settings or changed a table, and every run that
  succeeds, has left in the static files, for every block from the genesis to the tip that was not pruned,
  exactly the account and the storage change sets of that block in their order, and in the other database exactly
  the transaction hash numbers and the two history indices. After a run that succeeds all tables of the
  old layout are empty, the settings are those of the new layout, the stages to be rebuilt (senders and both Merkle
  stages) start right before the genesis block while every other stage keeps its checkpoint, and in the
  place of the database is its compacted copy, with that content. (The receipts are copied by the library.)
\<close>

theorem migration_moves_everything:
  assumes "migrate_v2 L io genesis_block s = (r, s')" "\<not> st_is_v2 s"
    and "segment_laws (ml_account_changesets L) accounts_of" "segment_laws (ml_storage_changesets L) storages_of"
    and "walks (cs_walk (io_accounts io)) account_row fst" "sorted (map fst (map account_row (st_tables s AccountChangeSets)))"
    and "walks (ss_walk (io_storages io)) storage_row (\<lambda>r. fst (fst r))" "sorted (map (\<lambda>r. fst (fst r)) (map storage_row (st_tables s StorageChangeSets)))"
    and "\<And>t rows. ic_walk (io_index io t) rows = Inr (map Inr rows)" "\<And>t. distinct (map fst (st_tables s t))"
  shows "(st_is_v2 s' \<or> st_tables s' \<noteq> st_tables s \<or> r = Inr () \<longrightarrow>
      (\<forall>b. not_pruned (cs_prune_checkpoint (io_accounts io)) b \<and> genesis_block \<le> b \<and> b \<le> execution_tip s \<longrightarrow>
        accounts_of (st_sf_account_changesets s') b = Some (of_block b (map account_row (st_tables s AccountChangeSets)))) \<and>
      (\<forall>b. not_pruned (ss_prune_checkpoint (io_storages io)) b \<and> genesis_block \<le> b \<and> b \<le> execution_tip s \<longrightarrow>
        storages_of (st_sf_storage_changesets s') b = Some (storage_changes b (map storage_row (st_tables s StorageChangeSets)))) \<and>
      map_of (st_rocksdb s' TransactionHashNumbers) = map_of (st_tables s TransactionHashNumbers) \<and>
      map_of (st_rocksdb s' AccountsHistory) = map_of (st_tables s AccountsHistory) \<and>
      map_of (st_rocksdb s' StoragesHistory) = map_of (st_tables s StoragesHistory)) \<and>
    (r = Inr () \<longrightarrow>
      st_is_v2 s' \<and> (\<forall>t. st_tables s' t = []) \<and>
      st_checkpoints s' = (st_checkpoints s)(StageSenderRecovery \<mapsto> genesis_block - 1, StageMerkleExecute \<mapsto> genesis_block - 1,
        StageMerkleUnwind \<mapsto> genesis_block - 1) \<and> st_merkle_progress s' = [] \<and>
      st_dirs s' DbPath = Some (CopiedFiles \<lparr>md_is_v2 = st_is_v2 s', md_checkpoints = st_checkpoints s', md_merkle_progress = st_merkle_progress s',
        md_tables = st_tables s'\<rparr>))"
proof (cases "st_is_v2 s' \<or> st_tables s' \<noteq> st_tables s \<or> r = Inr ()")
  case True
  with migrate_v2_phases [OF assms(1,2)] assms(2) have ph: "migration_phases L io (execution_tip s) genesis_block s = (r, s')" by auto
  obtain wa ws wr s1 where
    a: "migrate_account_changesets (ml_account_changesets L) (io_accounts io) (st_tables s AccountChangeSets) (execution_tip s) genesis_block (st_sf_account_changesets s) = Inr wa"
    and st: "migrate_storage_changesets (ml_storage_changesets L) (io_storages io) (st_tables s StorageChangeSets) (execution_tip s) genesis_block (st_sf_storage_changesets s) = Inr ws"
    and ix: "migrate_indices io index_tables (s\<lparr>st_sf_account_changesets := wa, st_sf_storage_changesets := ws, st_sf_receipts := wr\<rparr>) = (Inr (), s1)"
    and new: "new_layout s' = new_layout s1"
    and fin: "r = Inr () \<Longrightarrow> \<exists>s2. clear_recomputable_tables L io genesis_block (s1\<lparr>st_is_v2 := True\<rparr>) = (Inr (), s2) \<and>
       s' = s2\<lparr>st_dirs := (st_dirs s2)(DbPath := Some (CopiedFiles (mdbx_of s2)), DbCompact := None, DbPreCompact := None)\<rparr>"
    by (rule migration_phases_moved [OF ph]) (use True assms(2) in auto)
  have "distinct index_tables" by (simp add: index_tables_def)
  from migrate_indices_Inr [OF ix _ this] assms(9)
  have s1: "s1 = s\<lparr>st_sf_account_changesets := wa, st_sf_storage_changesets := ws, st_sf_receipts := wr,
      st_rocksdb := (\<lambda>t. if t \<in> set index_tables then put_rows (st_tables s t) else st_rocksdb s t)\<rparr>" by (simp cong: if_cong)
  have "map_of (st_rocksdb s' t) = map_of (st_tables s t)" if "t \<in> set index_tables" for t
    using that new map_of_put_rows [OF assms(10)] by (simp add: s1)
  then have i: "map_of (st_rocksdb s' TransactionHashNumbers) = map_of (st_tables s TransactionHashNumbers)"
      "map_of (st_rocksdb s' AccountsHistory) = map_of (st_tables s AccountsHistory)" "map_of (st_rocksdb s' StoragesHistory) = map_of (st_tables s StoragesHistory)"
    by (simp_all add: index_tables_def)
  have w: "st_sf_account_changesets s' = wa" "st_sf_storage_changesets s' = ws" using new by (simp_all add: s1)
  have f: "st_is_v2 s' \<and> (\<forall>t. st_tables s' t = []) \<and>
      st_checkpoints s' = (st_checkpoints s)(StageSenderRecovery \<mapsto> genesis_block - 1, StageMerkleExecute \<mapsto> genesis_block - 1,
        StageMerkleUnwind \<mapsto> genesis_block - 1) \<and> st_merkle_progress s' = [] \<and>
      st_dirs s' DbPath = Some (CopiedFiles \<lparr>md_is_v2 = st_is_v2 s', md_checkpoints = st_checkpoints s', md_merkle_progress = st_merkle_progress s',
        md_tables = st_tables s'\<rparr>)" if succeeded: "r = Inr ()"
  proof -
    obtain s2 where "clear_recomputable_tables L io genesis_block (s1\<lparr>st_is_v2 := True\<rparr>) = (Inr (), s2)"
      "s' = s2\<lparr>st_dirs := (st_dirs s2)(DbPath := Some (CopiedFiles (mdbx_of s2)), DbCompact := None, DbPreCompact := None)\<rparr>"
      using fin [OF succeeded] by blast
    with clear_recomputable_Inr [OF this(1)] show ?thesis by (auto simp: s1 mdbx_of_def reset_stages_def fun_eq_iff)
  qed
  show ?thesis
    using accounts_copied [OF a assms(3,5,6)] storages_copied [OF st assms(4,7,8)] i f by (simp add: w)
qed simp

lemma migration_clears_tables:
  assumes "migrate_v2 L io genesis_block s = (Inr (), s')" "\<not> st_is_v2 s"
  shows "st_tables s' t = []"
proof -
  have "migration_phases L io (execution_tip s) genesis_block s = (Inr (), s')" using migrate_v2_phases [OF assms] by simp
  then obtain s1 s2 where "clear_recomputable_tables L io genesis_block (s1\<lparr>st_is_v2 := True\<rparr>) = (Inr (), s2)"
    "s' = s2\<lparr>st_dirs := (st_dirs s2)(DbPath := Some (CopiedFiles (mdbx_of s2)), DbCompact := None, DbPreCompact := None)\<rparr>"
    using migration_phases_moved [of L io "execution_tip s" genesis_block s "Inr ()" s'] by blast
  with clear_recomputable_Inr(2) [OF this(1)] show ?thesis by simp
qed

section \<open>Migrations that do not\<close>

text \<open>
  A row that cannot be read ends the change sets silently. The loop over the blocks stops at it
  without looking at the error, in this and in every later block: the migration goes on exactly as if
  the table ended there, appends empty entries for the other blocks, and clears the table.
\<close>

lemma unreadable_row_is_ignored:
  "migrate_v2 L (io\<lparr>io_accounts := (io_accounts io)\<lparr>cs_walk := \<lambda>_ _. Inr (map Inr rows @ Inl e # rest)\<rparr>\<rparr>) genesis_block s =
   migrate_v2 L (io\<lparr>io_accounts := (io_accounts io)\<lparr>cs_walk := \<lambda>_ _. Inr (map Inr rows)\<rparr>\<rparr>) genesis_block s"
proof -
  have a: "migrate_account_changesets so (src\<lparr>cs_walk := \<lambda>_ _. Inr (map Inr rows @ Inl e # rest)\<rparr>) table tip g w =
      migrate_account_changesets so (src\<lparr>cs_walk := \<lambda>_ _. Inr (map Inr rows)\<rparr>) table tip g w" for so src table tip g w
    by (simp add: migrate_account_changesets_def append_blocks_error and_then_def cong: sum.case_cong)
  have i: "migrate_indices (io\<lparr>io_accounts := src\<rparr>) ts = migrate_indices io ts" for src ts
  proof
    fix t
    show "migrate_indices (io\<lparr>io_accounts := src\<rparr>) ts t = migrate_indices io ts t"
      by (induction ts arbitrary: t) (simp_all split: prod.split sum.split)
  qed
  have p: "migration_phases L (io\<lparr>io_accounts := (io_accounts io)\<lparr>cs_walk := \<lambda>_ _. Inr (map Inr rows @ Inl e # rest)\<rparr>\<rparr>) tip g =
      migration_phases L (io\<lparr>io_accounts := (io_accounts io)\<lparr>cs_walk := \<lambda>_ _. Inr (map Inr rows)\<rparr>\<rparr>) tip g" for tip g
    by (simp add: migration_phases_def clear_recomputable_tables_def a i)
  show ?thesis unfolding migrate_v2_def p by simp
qed

lemma accounts_written:
  assumes "migrate_account_changesets so src rows tip genesis_block w = Inr w'" "segment_laws so content" "genesis_block \<le> tip"
  shows "so_highest_block so w' \<noteq> None"
proof -
  obtain c w1 walker w2 where c: "bridge_gap so genesis_block (max (after_pruned c) genesis_block) w = Inr w1"
    "append_blocks so [max (after_pruned c) genesis_block..<Suc tip] walker w1 = Inr w2" "so_commit so w2 = Inr w'"
    using assms(1) unfolding migrate_account_changesets_def Let_def by (auto simp only: and_then_Inr)
  have dom: "dom (content w2) = dom (content w1) \<union> {max (after_pruned c) genesis_block..<Suc tip}" using append_blocks_dom [OF assms(2) c(2)] unfolding set_upt .
  have "content w2 \<noteq> Map.empty"
  proof (cases "max (after_pruned c) genesis_block \<le> tip")
    case True
    with dom have "tip \<in> dom (content w2)" by simp
    then show ?thesis by auto
  next
    case False
    with assms(3) c(1) have "content w1 \<noteq> Map.empty" using assms(2) by (auto simp: bridge_gap_def and_then_Inr segment_laws_def)
    with dom show ?thesis by (metis Un_empty dom_eq_empty_conv)
  qed
  moreover have "content w' = content w2" using assms(2) c(3) by (simp add: segment_laws_def)
  ultimately show ?thesis using assms(2) by (simp add: segment_laws_def)
qed

text \<open>
  C29. A migration that fails after its first phase cannot be taken up again. It has either changed
  nothing, or no later run changes anything: before the layout is flipped every run is refused, because
  the segments already hold data; after it every run reports success without doing the rest.
\<close>

theorem failed_migration_cannot_resume:
  assumes "migrate_v2 L io genesis_block s = (Inl e, s')" "segment_laws (ml_account_changesets L) content"
  shows "s' = s \<or> (\<forall>io'. io_preflight io' = Inr () \<longrightarrow>
    snd (migrate_v2 L io' genesis_block s') = s' \<and> (fst (migrate_v2 L io' genesis_block s') = Inr () \<longleftrightarrow> st_is_v2 s'))"
proof (cases "s' = s")
  case False
  let ?tip = "execution_tip s"
  let ?a = "\<lambda>s. on_accounts (migrate_account_changesets (ml_account_changesets L) (io_accounts io) (st_tables s AccountChangeSets) ?tip genesis_block (st_sf_account_changesets s)) s"
  have g: "genesis_block \<le> ?tip" and ph: "migration_phases L io ?tip genesis_block s = (Inl e, s')"
    using assms(1) False by (auto simp: migrate_v2_def execution_tip_def Let_def split: sum.splits if_splits)
  obtain rest where rest: "migration_phases L io ?tip genesis_block = and_also ?a rest" "keeps st_sf_account_changesets rest"
    by (rule that, unfold migration_phases_def, rule refl, intro keeps_and_also later_phases_keep)
  obtain wa where wa: "migrate_account_changesets (ml_account_changesets L) (io_accounts io) (st_tables s AccountChangeSets) ?tip genesis_block (st_sf_account_changesets s) = Inr wa"
    "rest (s\<lparr>st_sf_account_changesets := wa\<rparr>) = (Inl e, s')"
    using ph False unfolding rest(1) and_also_def on_accounts_def by (auto split: sum.splits)
  have "st_sf_account_changesets s' = wa" using keepsD [OF rest(2) wa(2)] by simp
  with accounts_written [OF wa(1) assms(2) g] have "so_highest_block (ml_account_changesets L) (st_sf_account_changesets s') \<noteq> None" by simp
  then show ?thesis by (auto simp: migrate_v2_def Let_def)
qed simp

text \<open>
  Swapping in the compacted copy never loses the database: on success it is the copy, and after every
  failure the old database or the copy is in its place, or the old one is in the backup.
\<close>

lemma swap_keeps_database:
  assumes "dirs DbPath = Some d" "dirs DbCompact = Some c" "swap_compacted_db to_backup to_db back removed dirs = (r, dirs')"
  shows "(r = Inr () \<longrightarrow> dirs' DbPath = Some c \<and> dirs' DbPreCompact = None) \<and>
    (dirs' DbPath = Some d \<or> dirs' DbPath = Some c \<or> dirs' DbPath = None \<and> dirs' DbPreCompact = Some d \<and> dirs' DbCompact = Some c)"
  using assms by (auto simp: swap_compacted_db_def rename_dir_def Let_def split: sum.splits)

section \<open>An instance\<close>

text \<open>A segment as the list of its blocks, the last one first; a chain from block 3 to block 4.\<close>

definition sample_segment_ops :: "((nat \<times> storage_before_tx list) list, storage_before_tx) segment_ops" where
  "sample_segment_ops = \<lparr>so_highest_block = (\<lambda>w. case w of [] \<Rightarrow> None | (b, _) # _ \<Rightarrow> Some b),
     so_current_block_number = (\<lambda>w. case w of [] \<Rightarrow> None | (b, _) # _ \<Rightarrow> Some b), so_increment_block = (\<lambda>b w. Inr ((b, []) # w)),
     so_ensure_at_block = (\<lambda>b w. Inr ((b, []) # w)), so_append = (\<lambda>es b w. Inr ((b, es) # w)), so_commit = Inr\<rparr>"

definition sample_migration_lib where
  "sample_migration_lib = \<lparr>ml_account_changesets = sample_segment_ops, ml_storage_changesets = sample_segment_ops, ml_receipts = sample_segment_ops,
     ml_senders = sample_segment_ops\<rparr>"

definition sample_entry_at :: "nat \<Rightarrow> storage_before_tx" where
  "sample_entry_at n = \<lparr>sbt_address = of_nat n, sbt_key = 0, sbt_value = 1\<rparr>"

text \<open>A row has a number as its key and one as its value: the block and the account, or the block and the slot's value.\<close>

definition sample_account_row :: "nat \<times> nat \<Rightarrow> nat \<times> storage_before_tx" where
  "sample_account_row = (\<lambda>(k, v). (k div 10, sample_entry_at v))"

definition sample_storage_row :: "nat \<times> nat \<Rightarrow> storage_row" where
  "sample_storage_row = (\<lambda>(k, v). ((k div 10, 9), (0, of_nat v)))"

definition sample_index_copy :: "(string + unit) \<Rightarrow> (nat, nat) index_copy" where
  "sample_index_copy cleared = \<lparr>ic_clear = cleared, ic_walk = (\<lambda>rows. Inr (map Inr rows)), ic_committed = 0, ic_commit = Inr (), ic_flush = Inr ()\<rparr>"

definition sample_migration_io :: "(string + unit) \<Rightarrow> ((nat \<times> storage_before_tx list) list, storage_before_tx, nat, nat) migration_io" where
  "sample_migration_io cleared = \<lparr>io_preflight = Inr (),
     io_accounts = \<lparr>cs_opened = Inr (), cs_prune_checkpoint = Inr None,
       cs_walk = (\<lambda>rows first. Inr (map Inr (filter (\<lambda>r. first \<le> fst r) (map sample_account_row rows))))\<rparr>,
     io_storages = \<lparr>ss_opened = Inr (), ss_prune_checkpoint = Inr None,
       ss_walk = (\<lambda>rows first. Inr (map Inr (filter (\<lambda>r. first \<le> fst (fst r)) (map sample_storage_row rows))))\<rparr>,
     io_receipts = \<lparr>rs_log_filter_empty = Inr True, rs_opened = Inr (), rs_prune_checkpoint = Inr None, rs_copy_to_static_files = (\<lambda>_ _. Inr)\<rparr>,
     io_index = (\<lambda>_. sample_index_copy cleared), io_write_settings = Inr (), io_clear = (\<lambda>_. Inr ()), io_save_checkpoints = Inr (), io_open_senders = Inr (),
     io_compact = Inr (), io_rename_to_backup = Inr (), io_rename_to_db = Inr (), io_rename_back = Inr (), io_remove_backup = Inr ()\<rparr>"

definition sample_store :: "((nat \<times> storage_before_tx list) list, nat, nat) store" where
  "sample_store = \<lparr>st_is_v2 = False, st_checkpoints = (\<lambda>_. Some 4), st_merkle_progress = [], st_tables = (\<lambda>_. [(30, 1), (40, 2), (41, 3)]),
     st_sf_account_changesets = [], st_sf_storage_changesets = [], st_sf_receipts = [], st_sf_senders = [], st_rocksdb = (\<lambda>_. []),
     st_dirs = (\<lambda>d. if d = DbPath then Some LiveFiles else None)\<rparr>"

lemma sample_segment_laws: "segment_laws sample_segment_ops map_of"
  by (auto simp: segment_laws_def sample_segment_ops_def split: list.split)

theorem migration_moves_everything_witness:
  "\<exists>s'. migrate_v2 sample_migration_lib (sample_migration_io (Inr ())) 3 sample_store = (Inr (), s') \<and> st_is_v2 s' \<and> st_tables s' AccountChangeSets = [] \<and>
     map_of (st_sf_account_changesets s') 4 = Some [sample_entry_at 2, sample_entry_at 3] \<and> map_of (st_rocksdb s' StoragesHistory) 40 = Some 2"
proof -
  have "fst (migrate_v2 sample_migration_lib (sample_migration_io (Inr ())) 3 sample_store) = Inr ()" by code_simp
  then obtain s' where s': "migrate_v2 sample_migration_lib (sample_migration_io (Inr ())) 3 sample_store = (Inr (), s')" by (metis prod.collapse)
  have w: "walks (cs_walk (io_accounts (sample_migration_io (Inr ())))) sample_account_row fst"
    "walks (ss_walk (io_storages (sample_migration_io (Inr ())))) sample_storage_row (\<lambda>r. fst (fst r))"
    by (simp_all add: walks_def sample_migration_io_def)
  have t: "st_tables sample_store t = [(30, 1), (40, 2), (41, 3)]" for t by (simp add: sample_store_def)
  have o: "of_block 4 (map sample_account_row [(30, 1), (40, 2), (41, 3)]) = [sample_entry_at 2, sample_entry_at 3]"
    by (simp add: of_block_def sample_account_row_def)
  note m = migration_moves_everything [OF s' _ _ _ w(1) _ w(2), of map_of map_of, unfolded t]
  have l: "segment_laws (ml_account_changesets sample_migration_lib) map_of" "segment_laws (ml_storage_changesets sample_migration_lib) map_of"
    "\<not> st_is_v2 sample_store" "execution_tip sample_store = 4" "cs_prune_checkpoint (io_accounts (sample_migration_io (Inr ()))) = Inr None"
    "\<And>t rows. ic_walk (io_index (sample_migration_io (Inr ())) t) rows = Inr (map Inr rows)"
    using sample_segment_laws by (simp_all add: sample_migration_lib_def sample_store_def execution_tip_def sample_migration_io_def sample_index_copy_def)
  show ?thesis
    using m [OF l(3,1,2) _ _ l(6)] s' o by (auto simp: l(4,5) not_pruned_def sample_account_row_def sample_storage_row_def)
qed

theorem failed_migration_cannot_resume_witness:
  "\<exists>e s'. migrate_v2 sample_migration_lib (sample_migration_io (Inl ''no space'')) 3 sample_store = (Inl e, s') \<and> \<not> st_is_v2 s' \<and>
     snd (migrate_v2 sample_migration_lib (sample_migration_io (Inr ())) 3 s') = s' \<and>
     fst (migrate_v2 sample_migration_lib (sample_migration_io (Inr ())) 3 s') \<noteq> Inr ()"
proof -
  let ?r = "migrate_v2 sample_migration_lib (sample_migration_io (Inl ''no space'')) 3 sample_store"
  have r: "fst ?r = Inl ''no space'' \<and> \<not> st_is_v2 (snd ?r) \<and> st_sf_account_changesets (snd ?r) \<noteq> []" by code_simp
  then obtain s' where s': "?r = (Inl ''no space'', s')" "\<not> st_is_v2 s'" "st_sf_account_changesets s' \<noteq> []" by (metis prod.collapse)
  moreover have "s' \<noteq> sample_store" using s'(3) by (auto simp: sample_store_def)
  moreover have "io_preflight (sample_migration_io (Inr ())) = Inr ()" by (simp add: sample_migration_io_def)
  ultimately show ?thesis
    using failed_migration_cannot_resume [OF s'(1), of map_of] sample_segment_laws by (simp add: sample_migration_lib_def)
qed

end
