(* ===== verification/Chain_Tools.thy ===== *)
theory Chain_Tools
  imports Storage_Migration Externals
begin

text \<open>
  The other offline tools: exporting blocks (\<open>src/bin/tools/export.rs\<close>), generating a genesis file
  from a database (\<open>src/bin/tools/gen_genesis.rs\<close>), and the parser that reads such a file
  (\<open>src/crates/chainspec/src/parser.rs\<close>). The database, the block encoding and the file system are
  parameters; an interrupt is a flag that is looked at where the code does.
\<close>

section \<open>Exporting blocks\<close>

text \<open>Arithmetic on 64-bit block numbers, which wraps around.\<close>

definition u64_add :: "nat \<Rightarrow> nat \<Rightarrow> nat" where
  "u64_add a b = (a + b) mod 2 ^ 64"

definition u64_sub :: "nat \<Rightarrow> nat \<Rightarrow> nat" where
  "u64_sub a b = (a + 2 ^ 64 - b) mod 2 ^ 64"

record export_command =
  xc_output_path :: string
  xc_start_block :: nat
  xc_end_block :: "nat option"
  xc_batch_size :: nat

text \<open>\<open>Path::extension\<close>: of the last component, what follows its last dot, unless that dot is its first character.\<close>

definition path_file_name :: "string \<Rightarrow> string option" where
  "path_file_name path = (case rev (filter (\<lambda>c. c \<noteq> [] \<and> c \<noteq> ''.'') (split_at CHR ''/'' path)) of
       [] \<Rightarrow> None
     | c # _ \<Rightarrow> if c = ''..'' then None else Some c)"

definition path_extension :: "string \<Rightarrow> string option" where
  "path_extension path = Option.bind (path_file_name path) (\<lambda>name.
     (case rev (split_at CHR ''.'' name) of
        extension # before # rest \<Rightarrow> if rest = [] \<and> before = [] then None else Some extension
      | _ \<Rightarrow> None))"

text \<open>
  The surroundings of an export. Reads and writes are numbered by the turns of the loop; a write that
  fails has written the first \<open>xe_written\<close> bytes. \<open>xe_shutdown\<close> is the flag at the start of each turn,
  \<open>xe_interrupted\<close> after the loop. The compressing writer makes of the chunks written to it the bytes
  \<open>xe_gzip\<close>, of which the last are written when it is dropped: \<open>xe_finish\<close> is how that goes, which the code
  does not look at, and \<open>xe_gzip_unfinished\<close> is what there is without them.
\<close>

record 'b export_env =
  xe_last_block_number :: "string + nat"
  xe_genesis_block_number :: nat
  xe_set_handler :: "string + unit"
  xe_create :: "string + unit"
  xe_block_range :: "nat \<Rightarrow> nat \<Rightarrow> string + 'b list"
  xe_encode :: "'b \<Rightarrow> byte list"
  xe_write_all :: "nat \<Rightarrow> string + unit"
  xe_written :: "nat \<Rightarrow> nat"
  xe_shutdown :: "nat \<Rightarrow> bool"
  xe_flush :: "string + unit"
  xe_interrupted :: bool
  xe_gzip :: "byte list list \<Rightarrow> byte list"
  xe_gzip_unfinished :: "byte list list \<Rightarrow> byte list"
  xe_finish :: "string + unit"
  xe_remove_file :: "string + unit"

text \<open>The loop, with the chunks that were written so far.\<close>

partial_function (option) export_loop :: "'b export_env \<Rightarrow> nat \<Rightarrow> nat \<Rightarrow> nat \<Rightarrow> nat \<Rightarrow> byte list list \<Rightarrow> ((string + unit) \<times> byte list list) option" where
  "export_loop ev batch_size end_block i current_block out =
     (if current_block \<le> end_block \<and> \<not> xe_shutdown ev i
      then let batch_end = min (u64_sub (u64_add current_block batch_size) 1) end_block in
        (case xe_block_range ev current_block batch_end of
           Inl e \<Rightarrow> Some (Inl e, out)
         | Inr blocks \<Rightarrow>
             let blocks_rlp_concat = concat (map (xe_encode ev) blocks) in
             (case xe_write_all ev i of
                Inl e \<Rightarrow> Some (Inl e, out @ [take (xe_written ev i) blocks_rlp_concat])
              | Inr _ \<Rightarrow> export_loop ev batch_size end_block (Suc i) (u64_add batch_end 1) (out @ [blocks_rlp_concat])))
      else Some (Inr (), out))"

text \<open>The file once the writer is dropped, and the end of an export.\<close>

definition written_file :: "'b export_env \<Rightarrow> bool \<Rightarrow> byte list list \<Rightarrow> byte list" where
  "written_file ev use_compression out =
     (if use_compression then (case xe_finish ev of Inr _ \<Rightarrow> xe_gzip ev out | Inl _ \<Rightarrow> xe_gzip_unfinished ev out) else concat out)"

definition export_result :: "'b export_env \<Rightarrow> bool \<Rightarrow> (string + unit) \<times> byte list list \<Rightarrow> (string + unit) \<times> byte list option" where
  "export_result ev use_compression looped =
     (case and_then (fst looped) (\<lambda>_. and_then (xe_flush ev) (\<lambda>_. if xe_interrupted ev then Inl ''Export was interrupted'' else Inr ())) of
        Inl e \<Rightarrow> (Inl e, case xe_remove_file ev of Inl _ \<Rightarrow> Some (written_file ev use_compression (snd looped)) | Inr _ \<Rightarrow> None)
      | Inr _ \<Rightarrow> (Inr (), Some (written_file ev use_compression (snd looped))))"

definition export_end :: "export_command \<Rightarrow> nat \<Rightarrow> nat" where
  "export_end cmd latest_block = (case xc_end_block cmd of Some b \<Rightarrow> b | None \<Rightarrow> latest_block)"

text \<open>The file at the output path is passed through; \<open>None\<close> as a whole is an export that does not return.\<close>

definition export_execute :: "export_command \<Rightarrow> 'b export_env \<Rightarrow> byte list option \<Rightarrow> ((string + unit) \<times> byte list option) option" where
  "export_execute cmd ev file = (case xe_last_block_number ev of
       Inl e \<Rightarrow> Some (Inl e, file)
     | Inr latest_block \<Rightarrow>
         let end_block = export_end cmd latest_block in
         if end_block > latest_block then Some (Inl ''End block is greater than latest block'', file)
         else if xc_start_block cmd < xe_genesis_block_number ev then Some (Inl ''Start block is less than genesis block'', file)
         else if xc_start_block cmd > end_block then Some (Inl ''Start block is greater than end block'', file)
         else (case xe_set_handler ev of
             Inl e \<Rightarrow> Some (Inl e, file)
           | Inr _ \<Rightarrow>
               (case xe_create ev of
                  Inl e \<Rightarrow> Some (Inl e, file)
                | Inr _ \<Rightarrow>
                    let use_compression = path_extension (xc_output_path cmd) = Some ''gz'' in
                    map_option (export_result ev use_compression) (export_loop ev (xc_batch_size cmd) end_block 0 (xc_start_block cmd) []))))"

text \<open>
  What the code relies on. A range query, if it returns, returns the blocks of the range that are
  available, in order; \<open>gunzip\<close> undoes a finished compression.
\<close>

definition serves_blocks :: "'b export_env \<Rightarrow> (nat \<Rightarrow> 'b option) \<Rightarrow> bool" where
  "serves_blocks ev block \<longleftrightarrow> (\<forall>a b blocks. a \<le> b \<longrightarrow> xe_block_range ev a b = Inr blocks \<longrightarrow> blocks = List.map_filter block [a..<Suc b])"

definition gunzips :: "'b export_env \<Rightarrow> (byte list \<Rightarrow> byte list option) \<Rightarrow> bool" where
  "gunzips ev gunzip \<longleftrightarrow> (\<forall>chunks. gunzip (xe_gzip ev chunks) = Some (concat chunks))"

text \<open>The encoding of the available blocks from a number on and before another.\<close>

definition encoded :: "'b export_env \<Rightarrow> (nat \<Rightarrow> 'b option) \<Rightarrow> nat \<Rightarrow> nat \<Rightarrow> byte list" where
  "encoded ev block a b = concat (map (xe_encode ev) (List.map_filter block [a..<b]))"

lemma encoded_append: "a \<le> b \<Longrightarrow> b \<le> c \<Longrightarrow> encoded ev block a b @ encoded ev block b c = encoded ev block a c"
  unfolding encoded_def map_filter_def by (metis concat_append map_append filter_append upt_add_eq_append le_add_diff_inverse)

lemma batch_end:
  assumes "0 < batch_size" "current \<le> end_block" "end_block + batch_size < 2 ^ 64"
  shows "u64_sub (u64_add current batch_size) 1 = current + batch_size - 1"
proof -
  have "current + batch_size < 2 ^ 64" using assms(2,3) by linarith
  then have "u64_add current batch_size = current + batch_size" by (simp add: u64_add_def)
  moreover have "current + batch_size + 2 ^ 64 - 1 = (current + batch_size - 1) + 2 ^ 64" using assms(1) by linarith
  moreover have "current + batch_size - 1 < 2 ^ 64" using \<open>current + batch_size < 2 ^ 64\<close> by linarith
  ultimately show ?thesis unfolding u64_sub_def by (simp only: mod_add_self2 mod_less)
qed

lemma export_loop_runs:
  assumes "serves_blocks ev block" "0 < batch_size" "end_block + batch_size < 2 ^ 64"
  shows "current \<le> Suc end_block \<Longrightarrow> \<exists>r out'. export_loop ev batch_size end_block i current out = Some (r, out') \<and>
    (r = Inr () \<longrightarrow> concat out' = concat out @ encoded ev block current (Suc end_block) \<or> (\<exists>j. xe_shutdown ev j)) \<and>
    ((\<forall>a b. \<exists>blocks. xe_block_range ev a b = Inr blocks) \<and> (\<forall>j. xe_write_all ev j = Inr ()) \<longrightarrow> r = Inr ())"
proof (induction "Suc end_block - current" arbitrary: i current out rule: less_induct)
  case less
  show ?case
  proof (cases "current \<le> end_block \<and> \<not> xe_shutdown ev i")
    case True
    let ?be = "min (current + batch_size - 1) end_block"
    have be: "min (u64_sub (u64_add current batch_size) 1) end_block = ?be" using batch_end [OF assms(2) _ assms(3)] True by simp
    have range: "current \<le> ?be" "?be \<le> end_block" "u64_add ?be 1 = Suc ?be" using True assms(2,3) by (auto simp: u64_add_def)
    note loop = export_loop.simps [of ev batch_size end_block i current out]
    show ?thesis
    proof (cases "xe_block_range ev current ?be")
      case (Inr blocks)
      show ?thesis
      proof (cases "xe_write_all ev i")
        case (Inr u)
        have b: "blocks = List.map_filter block [current..<Suc ?be]"
          using assms(1) range(1) \<open>xe_block_range ev current ?be = Inr blocks\<close> unfolding serves_blocks_def by blast
        have step: "export_loop ev batch_size end_block i current out =
            export_loop ev batch_size end_block (Suc i) (Suc ?be) (out @ [encoded ev block current (Suc ?be)])"
          unfolding loop Let_def be \<open>xe_block_range ev current ?be = Inr blocks\<close> Inr sum.case b encoded_def range(3) using True by simp
        have "Suc end_block - Suc ?be < Suc end_block - current" "Suc ?be \<le> Suc end_block" using range by linarith+
        from less.hyps [OF this, of "Suc i" "out @ [encoded ev block current (Suc ?be)]"] show ?thesis
          unfolding step concat_append concat.simps append_Nil2 append_assoc encoded_append [OF le_SucI [OF range(1)] \<open>Suc ?be \<le> Suc end_block\<close>] .
      qed (use True Inr in \<open>force simp: loop be [simplified] Let_def\<close>)
    next
      case (Inl e)
      then have "export_loop ev batch_size end_block i current out = Some (Inl e, out)" using True by (simp add: loop be [simplified] Let_def)
      moreover have "\<not> (\<forall>a b. \<exists>blocks. xe_block_range ev a b = Inr blocks)" using Inl by (metis sum.distinct(1))
      ultimately show ?thesis by auto
    qed
  next
    case False
    with less.prems show ?thesis by (subst export_loop.simps) (auto simp: encoded_def map_filter_def)
  qed
qed

text \<open>The exports that are started, and those whose calls all go well.\<close>

definition export_accepted :: "export_command \<Rightarrow> 'b export_env \<Rightarrow> nat \<Rightarrow> nat \<Rightarrow> bool" where
  "export_accepted cmd ev latest stop \<longleftrightarrow> xe_genesis_block_number ev \<le> xc_start_block cmd \<and> xc_start_block cmd \<le> stop \<and> stop \<le> latest \<and>
     xe_set_handler ev = Inr () \<and> xe_create ev = Inr ()"

definition export_undisturbed :: "'b export_env \<Rightarrow> bool" where
  "export_undisturbed ev \<longleftrightarrow> (\<forall>a b. \<exists>blocks. xe_block_range ev a b = Inr blocks) \<and> (\<forall>j. xe_write_all ev j = Inr ()) \<and>
     xe_flush ev = Inr () \<and> \<not> xe_interrupted ev"

lemma export_execute_cases:
  assumes "xe_last_block_number ev = Inr latest"
  shows "\<not> export_accepted cmd ev latest (export_end cmd latest) \<and> (\<exists>e. export_execute cmd ev file = Some (Inl e, file)) \<or>
    export_accepted cmd ev latest (export_end cmd latest) \<and>
    export_execute cmd ev file = map_option (export_result ev (path_extension (xc_output_path cmd) = Some ''gz''))
      (export_loop ev (xc_batch_size cmd) (export_end cmd latest) 0 (xc_start_block cmd) [])"
  by (cases "xe_set_handler ev"; cases "xe_create ev") (auto simp: export_execute_def export_accepted_def assms Let_def)

text \<open>
  C30. An export ends, and leaves the complete file or none. With a positive batch size and block numbers
  far from the largest one, the loop over the batches ends whatever reads and writes do. An export that
  is refused (the range is not within the chain, or the file cannot be created) leaves the file as it was.
  One that fails later leaves none, unless the removal itself fails. When it reports success, the file is the
  encoding of exactly the blocks available from the first to the last, in order and each once, however they fall
  into batches: of these bytes themselves, or, for a path that ends in \<open>.gz\<close>, a file that decompresses to
  them, provided the end of the compressed stream could be written, which the code does not check. And
  when no read, write or flush fails and there is no interrupt, an accepted export succeeds.
\<close>

theorem export_complete_or_absent:
  assumes "serves_blocks ev block" "gunzips ev gunzip" "0 < xc_batch_size cmd" "xe_last_block_number ev = Inr latest" "latest + xc_batch_size cmd < 2 ^ 64"
    and "\<And>i. xe_shutdown ev i \<Longrightarrow> xe_interrupted ev" "stop = (case xc_end_block cmd of Some b \<Rightarrow> b | None \<Rightarrow> latest)"
  shows "\<exists>r file'. export_execute cmd ev file = Some (r, file') \<and>
    (\<not> export_accepted cmd ev latest stop \<longrightarrow> r \<noteq> Inr () \<and> file' = file) \<and>
    (export_accepted cmd ev latest stop \<and> r \<noteq> Inr () \<longrightarrow> file' = None \<or> xe_remove_file ev \<noteq> Inr ()) \<and>
    (r = Inr () \<longrightarrow>
      (if path_extension (xc_output_path cmd) = Some ''gz''
       then xe_finish ev = Inr () \<longrightarrow> Option.bind file' gunzip = Some (encoded ev block (xc_start_block cmd) (Suc stop))
       else file' = Some (encoded ev block (xc_start_block cmd) (Suc stop)))) \<and>
    (export_accepted cmd ev latest stop \<and> export_undisturbed ev \<longrightarrow> r = Inr ())"
proof -
  let ?gz = "path_extension (xc_output_path cmd) = Some ''gz''"
  have stop: "export_end cmd latest = stop" by (simp add: export_end_def assms(7))
  consider (refused) e where "\<not> export_accepted cmd ev latest stop" "export_execute cmd ev file = Some (Inl e, file)"
    | (loop) "export_accepted cmd ev latest stop"
        "export_execute cmd ev file = map_option (export_result ev ?gz) (export_loop ev (xc_batch_size cmd) stop 0 (xc_start_block cmd) [])"
    using export_execute_cases [OF assms(4), of cmd] unfolding stop by blast
  then show ?thesis
  proof cases
    case loop
    then have "stop + xc_batch_size cmd < 2 ^ 64" "xc_start_block cmd \<le> Suc stop" using assms(5) by (auto simp: export_accepted_def)
    from export_loop_runs [OF assms(1,3) this, of 0 "[]"]
    obtain r out where r: "export_loop ev (xc_batch_size cmd) stop 0 (xc_start_block cmd) [] = Some (r, out)"
      "r = Inr () \<longrightarrow> concat out = encoded ev block (xc_start_block cmd) (Suc stop) \<or> (\<exists>j. xe_shutdown ev j)"
      "(\<forall>a b. \<exists>blocks. xe_block_range ev a b = Inr blocks) \<and> (\<forall>j. xe_write_all ev j = Inr ()) \<longrightarrow> r = Inr ()"
      unfolding concat.simps append_Nil by blast
    obtain r' file' where x: "export_result ev ?gz (r, out) = (r', file')" by fastforce
    have "r' \<noteq> Inr () \<longrightarrow> file' = None \<or> xe_remove_file ev \<noteq> Inr ()" using x unfolding export_result_def by (auto split: sum.splits)
    moreover have "r = Inr () \<and> \<not> xe_interrupted ev \<and> file' = Some (written_file ev ?gz out)" if "r' = Inr ()"
      using x that unfolding export_result_def by (cases r) (auto simp: and_then_Inr split: sum.splits if_splits)
    moreover have "r' = Inr ()" if "export_undisturbed ev"
      using x r(3) that unfolding export_result_def export_undisturbed_def by (simp add: and_then_def)
    ultimately show ?thesis using r(2) assms(2,6) loop(1) unfolding loop(2) r(1) option.map x
      by (intro exI [of _ r'] exI [of _ file']) (auto simp: written_file_def gunzips_def)
  qed auto
qed

text \<open>An export to a compressed file reports success also when the end of its stream could not be written.\<close>

lemma unfinished_export_succeeds:
  assumes "fst looped = Inr ()" "xe_flush ev = Inr ()" "\<not> xe_interrupted ev" "xe_finish ev = Inl e"
  shows "export_result ev True looped = (Inr (), Some (xe_gzip_unfinished ev (snd looped)))"
  using assms by (simp add: export_result_def and_then_def written_file_def)

text \<open>
  With a batch size of zero, which the command line accepts, the export of blocks after block 0 never
  returns: every turn asks for an empty range and stays where it is.
\<close>

lemma export_loop_stuck:
  assumes "xe_block_range ev current (current - 1) = Inr []" "\<And>i. xe_write_all ev i = Inr ()" "\<And>i. \<not> xe_shutdown ev i"
    and "0 < current" "current \<le> end_block" "end_block < 2 ^ 64"
  shows "export_loop ev 0 end_block i current out = None"
proof -
  have c: "min (u64_sub (u64_add current 0) 1) end_block = current - 1" "u64_add (current - 1) 1 = current"
    using assms(4-6) by (auto simp: u64_add_def u64_sub_def mod_if)
  have "ev' = ev \<and> c = current \<and> e = end_block \<and> b = 0 \<longrightarrow> False" if "export_loop ev' b e i c out = Some r" for ev' b e i c out r
    using that
  proof (induction rule: export_loop.raw_induct [rotated, consumes 1, case_names step])
    case (step loop ev' b e i c out r)
    show ?case
    proof (intro impI, elim conjE)
      assume "ev' = ev" "c = current" "e = end_block" "b = 0"
      with step(2) assms have "loop ev 0 end_block (Suc i) current (out @ [[]]) = Some r"
        unfolding Let_def by (simp only: c simp_thms if_True sum.case list.map concat.simps)
      from step(1) [OF this] show False by simp
    qed
  qed
  then show ?thesis by (metis option.exhaust)
qed

section \<open>Generating a genesis file\<close>

record db_account =
  da_nonce :: nat
  da_balance :: u256
  da_bytecode_hash :: "b256 option"

record genesis_account =
  ga_balance :: u256
  ga_nonce :: "nat option"
  ga_code :: "byte list option"
  ga_storage :: "(b256, b256) btmap option"
  ga_private_key :: "b256 option"

text \<open>The fields of a genesis file that the tool looks at; the others, copied from the template, are \<open>'h\<close>.\<close>

record 'h genesis_file =
  gf_header :: 'h
  gf_extra_fields :: "(string, json) btmap"
  gf_alloc :: "(address, genesis_account) btmap"
  gf_number :: "nat option"

definition EMPTY_CODE_HASH :: b256 where
  "EMPTY_CODE_HASH = 0xc5d2460186f7233c927e7db2dcc703c0e500b653ca82273b7bfad8045d85a470"

text \<open>
  What the tool reads. The flag of an interrupt is read before each account (\<open>gs_stop_before\<close>), after
  each slot but the first (\<open>gs_stop_slots\<close>: after how many it is noticed), after the storage of each
  account, and at the end.
\<close>

record 'h genesis_source =
  gs_template :: "string + 'h genesis_file"
  gs_opened :: "string + unit"
  gs_last_block_number :: "string + nat"
  gs_accounts :: "string + (string + address \<times> db_account) list"
  gs_storage :: "address \<Rightarrow> string + (b256 \<times> u256) list"
  gs_bytecodes :: "b256 \<Rightarrow> string + byte list option"
  gs_stop_before :: "nat \<Rightarrow> bool"
  gs_stop_slots :: "nat \<Rightarrow> nat option"
  gs_stop_after :: "nat \<Rightarrow> bool"
  gs_stop_end :: bool

definition read_account_storage :: "(b256 \<times> u256) list \<Rightarrow> nat option \<Rightarrow> (b256, b256) btmap" where
  "read_account_storage slots stop =
     fold (\<lambda>(k, v) storage. if v \<noteq> 0 then bt_insert k v storage else storage) (case stop of None \<Rightarrow> slots | Some n \<Rightarrow> take (Suc n) slots) []"

definition read_account_bytecode :: "(b256 \<Rightarrow> string + byte list option) \<Rightarrow> b256 \<Rightarrow> string + byte list option" where
  "read_account_bytecode bytecodes hash = (if hash = EMPTY_CODE_HASH then Inr None else bytecodes hash)"

definition genesis_account_of :: "db_account \<Rightarrow> byte list option \<Rightarrow> (b256, b256) btmap \<Rightarrow> genesis_account" where
  "genesis_account_of account code storage =
     \<lparr>ga_balance = da_balance account, ga_nonce = (if da_nonce account > 0 then Some (da_nonce account) else None), ga_code = code,
      ga_storage = (if storage = [] then None else Some storage), ga_private_key = None\<rparr>"

fun read_all_accounts :: "'h genesis_source \<Rightarrow> nat \<Rightarrow> (string + address \<times> db_account) list \<Rightarrow> (address, genesis_account) btmap \<Rightarrow>
    string + (address, genesis_account) btmap" where
  "read_all_accounts gs i [] alloc = Inr alloc"
| "read_all_accounts gs i (row # rows) alloc =
     (if gs_stop_before gs i then Inl ''Interrupted''
      else and_then row (\<lambda>(a, account).
        and_then (gs_storage gs a) (\<lambda>slots.
          if gs_stop_after gs i then Inl ''Interrupted''
          else and_then (case da_bytecode_hash account of Some hash \<Rightarrow> read_account_bytecode (gs_bytecodes gs) hash | None \<Rightarrow> Inr None) (\<lambda>code.
            read_all_accounts gs (Suc i) rows
              (bt_insert a (genesis_account_of account code (read_account_storage slots (gs_stop_slots gs i))) alloc)))))"

definition merge_alloc :: "(address, genesis_account) btmap \<Rightarrow> (address, genesis_account) btmap \<Rightarrow> (address, genesis_account) btmap" where
  "merge_alloc template alloc = fold (\<lambda>(a, account). bt_insert a account) template alloc"

definition generate_genesis :: "'h genesis_source \<Rightarrow> string + 'h genesis_file" where
  "generate_genesis gs =
     and_then (gs_template gs) (\<lambda>template.
     and_then (gs_opened gs) (\<lambda>_.
     and_then (gs_last_block_number gs) (\<lambda>latest_block.
     and_then (case checked_add latest_block 1 of Some n \<Rightarrow> Inr n | None \<Rightarrow> Inl ''Block number overflow: latest block is u64::MAX'') (\<lambda>number.
     and_then (and_then (gs_accounts gs) (\<lambda>rows. read_all_accounts gs 0 rows [])) (\<lambda>alloc.
       if gs_stop_end gs then Inl ''Genesis generation was interrupted''
       else Inr \<lparr>gf_header = gf_header template,
         gf_extra_fields = bt_insert ''legacyXLayerBlock'' (JNumber (show_radix 10 number)) (gf_extra_fields template),
         gf_alloc = merge_alloc (gf_alloc template) alloc, gf_number = Some number\<rparr>)))))"

text \<open>
  Writing: the file, then, when asked for, the same without its accounts. After an error whatever is at
  the paths is removed. A file that is not completely written is \<open>Partial\<close>.
\<close>

datatype 'f output_file = Whole 'f | Partial

record genesis_writes =
  gw_create :: "string + unit"
  gw_write :: "string + unit"
  gw_output_chainspec :: bool
  gw_create_chainspec :: "string + unit"
  gw_write_chainspec :: "string + unit"
  gw_remove :: "string + unit"

definition write_file :: "(string + unit) \<Rightarrow> (string + unit) \<Rightarrow> 'f \<Rightarrow> 'f output_file option \<Rightarrow> (string + unit) \<times> 'f output_file option" where
  "write_file created written content old = (case created of
       Inl e \<Rightarrow> (Inl e, old)
     | Inr _ \<Rightarrow> (case written of Inl e \<Rightarrow> (Inl e, Some Partial) | Inr _ \<Rightarrow> (Inr (), Some (Whole content))))"

definition write_outputs :: "genesis_writes \<Rightarrow> 'h genesis_file \<Rightarrow> 'h genesis_file output_file option \<Rightarrow> 'h genesis_file output_file option \<Rightarrow>
    (string + unit) \<times> 'h genesis_file output_file option \<times> 'h genesis_file output_file option" where
  "write_outputs gw genesis out chainspec = (case write_file (gw_create gw) (gw_write gw) genesis out of
       (Inl e, out1) \<Rightarrow> (Inl e, out1, chainspec)
     | (Inr _, out1) \<Rightarrow>
         if gw_output_chainspec gw
         then (case write_file (gw_create_chainspec gw) (gw_write_chainspec gw) (genesis\<lparr>gf_alloc := []\<rparr>) chainspec of
             (r, chainspec1) \<Rightarrow> (r, out1, chainspec1))
         else (Inr (), out1, chainspec))"

definition gen_genesis_execute :: "'h genesis_source \<Rightarrow> genesis_writes \<Rightarrow> 'h genesis_file output_file option \<Rightarrow> 'h genesis_file output_file option \<Rightarrow>
    (string + unit) \<times> 'h genesis_file output_file option \<times> 'h genesis_file output_file option" where
  "gen_genesis_execute gs gw out chainspec = (case generate_genesis gs of
       Inl e \<Rightarrow> (Inl e, out, chainspec)
     | Inr genesis \<Rightarrow>
         (case write_outputs gw genesis out chainspec of
            (Inl e, out1, chainspec1) \<Rightarrow>
              (case gw_remove gw of
                 Inl _ \<Rightarrow> (Inl e, out1, chainspec1)
               | Inr _ \<Rightarrow> (Inl e, None, if gw_output_chainspec gw then None else chainspec1))
          | (Inr _, out1, chainspec1) \<Rightarrow> (Inr (), out1, chainspec1)))"

section \<open>Reading a genesis file\<close>

text \<open>A number is its text; an unsigned one reads as a decimal.\<close>

definition as_u64 :: "json \<Rightarrow> nat option" where
  "as_u64 v = (case v of JNumber n \<Rightarrow> from_str_radix (2 ^ 64) 10 n | _ \<Rightarrow> None)"

definition parse_genesis :: "(string + 'h genesis_file) \<Rightarrow> string + 'h genesis_file" where
  "parse_genesis parsed = and_then parsed (\<lambda>genesis.
     Inr (case Option.bind (map_of (gf_extra_fields genesis) ''legacyXLayerBlock'') as_u64 of
            Some legacy_block \<Rightarrow> genesis\<lparr>gf_number := Some legacy_block\<rparr>
          | None \<Rightarrow> genesis))"

text \<open>
  The chain a name stands for: a chain of X Layer, unless a variable of the environment names a file;
  a chain of the library; or a file.
\<close>

record ('h, 'c) chain_lib_specs =
  cn_env :: "string \<Rightarrow> string option"
  cn_xlayer :: "string \<Rightarrow> 'c"
  cn_generated :: "string \<Rightarrow> 'c option"
  cn_parse_genesis :: "string \<Rightarrow> string + 'h genesis_file"
  cn_from_genesis :: "'h genesis_file \<Rightarrow> 'c"

definition xlayer_genesis_variable :: "string \<rightharpoonup> string" where
  "xlayer_genesis_variable = [''xlayer-mainnet'' \<mapsto> ''XLAYER_MAINNET_GENESIS'', ''xlayer-testnet'' \<mapsto> ''XLAYER_TESTNET_GENESIS'',
     ''xlayer-devnet'' \<mapsto> ''XLAYER_DEVNET_GENESIS'']"

definition xlayer_chain_value_parser :: "('h, 'c) chain_lib_specs \<Rightarrow> string \<Rightarrow> string + 'c" where
  "xlayer_chain_value_parser cn s = (case xlayer_genesis_variable s of
       Some variable \<Rightarrow>
         (case cn_env cn variable of
            Some genesis_path \<Rightarrow> map_sum id (cn_from_genesis cn) (parse_genesis (cn_parse_genesis cn genesis_path))
          | None \<Rightarrow> Inr (cn_xlayer cn s))
     | None \<Rightarrow>
         (case cn_generated cn s of
            Some spec \<Rightarrow> Inr spec
          | None \<Rightarrow> map_sum id (cn_from_genesis cn) (parse_genesis (cn_parse_genesis cn s))))"

section \<open>The genesis is the state\<close>

text \<open>
  An account of the database as it has to be in the file: its balance, its nonce (no nonce means 0), the
  code the database has for the hash of its code, unless that is the hash of no code, and its storage slots but
  those that are zero.
\<close>

definition exported_account :: "'h genesis_source \<Rightarrow> address \<Rightarrow> db_account \<Rightarrow> genesis_account \<Rightarrow> bool" where
  "exported_account gs a account ga \<longleftrightarrow>
     ga_balance ga = da_balance account \<and>
     (case ga_nonce ga of Some n \<Rightarrow> n | None \<Rightarrow> 0) = da_nonce account \<and>
     (case da_bytecode_hash account of
        None \<Rightarrow> ga_code ga = None
      | Some hash \<Rightarrow> if hash = EMPTY_CODE_HASH then ga_code ga = None else gs_bytecodes gs hash = Inr (ga_code ga)) \<and>
     (\<exists>slots. gs_storage gs a = Inr slots \<and>
        (\<forall>k. Option.bind (ga_storage ga) (\<lambda>storage. map_of storage k) =
          (case map_of slots k of Some v \<Rightarrow> if v = 0 then None else Some v | None \<Rightarrow> None))) \<and>
     ga_private_key ga = None"

lemma read_account_storage_lookup:
  assumes "distinct (map fst slots)"
  shows "map_of (read_account_storage slots None) k = (case map_of slots k of Some v \<Rightarrow> if v = 0 then None else Some v | None \<Rightarrow> None)"
proof -
  have "bt_wf m \<Longrightarrow> map_of (fold (\<lambda>(k, v) storage. if v \<noteq> 0 then bt_insert k v storage else storage) slots m) k =
      (case map_of slots k of Some v \<Rightarrow> if v = 0 then map_of m k else Some v | None \<Rightarrow> map_of m k)" for m
    using assms
  proof (induction slots arbitrary: m)
    case (Cons r slots)
    obtain k' v where r: "r = (k', v)" by (cases r)
    have "map_of slots k' = None" using Cons.prems(2) r by (simp add: map_of_eq_None_iff)
    then show ?case
      using Cons.IH [of "bt_insert k' v m"] Cons.IH [of m] Cons.prems r
      by (cases "k = k'"; cases "v = 0") (auto simp: map_of_bt_insert split: option.split)
  qed simp
  from this [OF bt_wf_Nil] show ?thesis by (simp add: read_account_storage_def split: option.split)
qed

lemma exported_account_of:
  assumes "gs_storage gs a = Inr slots" "distinct (map fst slots)"
    and "(case da_bytecode_hash account of Some hash \<Rightarrow> read_account_bytecode (gs_bytecodes gs) hash | None \<Rightarrow> Inr None) = Inr code"
  shows "exported_account gs a account (genesis_account_of account code (read_account_storage slots None))"
proof -
  let ?st = "read_account_storage slots None"
  have "Option.bind (if ?st = [] then None else Some ?st) (\<lambda>storage. map_of storage k) = map_of ?st k" for k by simp
  with read_account_storage_lookup [OF assms(2)] assms(1,3) show ?thesis
    by (auto simp: exported_account_def genesis_account_of_def read_account_bytecode_def split: option.splits if_splits)
qed

lemma read_all_accounts_Inr:
  assumes "read_all_accounts gs i rows alloc = Inr alloc'" "bt_wf alloc" "rows = map Inr accounts" "distinct (map fst accounts)"
    and "\<And>j. gs_stop_slots gs j \<noteq> None \<Longrightarrow> gs_stop_after gs j" "\<And>a slots. gs_storage gs a = Inr slots \<Longrightarrow> distinct (map fst slots)"
  shows "bt_wf alloc' \<and> (\<forall>a. case map_of accounts a of
      None \<Rightarrow> map_of alloc' a = map_of alloc a
    | Some account \<Rightarrow> \<exists>ga. map_of alloc' a = Some ga \<and> exported_account gs a account ga)"
  using assms(1-4)
proof (induction rows arbitrary: i alloc accounts)
  case (Cons row rows)
  obtain a account accounts' where acc: "accounts = (a, account) # accounts'" "row = Inr (a, account)" "rows = map Inr accounts'"
    using Cons.prems(3) by (cases accounts) auto
  obtain slots code where s: "gs_storage gs a = Inr slots" "\<not> gs_stop_after gs i"
    "(case da_bytecode_hash account of Some hash \<Rightarrow> read_account_bytecode (gs_bytecodes gs) hash | None \<Rightarrow> Inr None) = Inr code"
    "read_all_accounts gs (Suc i) rows (bt_insert a (genesis_account_of account code (read_account_storage slots (gs_stop_slots gs i))) alloc) = Inr alloc'"
    using Cons.prems(1) unfolding acc(2) by (auto simp: and_then_Inr split: if_splits)
  have n: "gs_stop_slots gs i = None" using s(2) assms(5) by blast
  let ?ga = "genesis_account_of account code (read_account_storage slots None)"
  have a: "map_of accounts' a = None" using Cons.prems(4) unfolding acc(1) by (simp add: map_of_eq_None_iff)
  have ga: "exported_account gs a account ?ga" by (rule exported_account_of [OF s(1) assms(6) [OF s(1)] s(3)])
  have IH: "bt_wf alloc'" "\<And>a'. case map_of accounts' a' of
      None \<Rightarrow> map_of alloc' a' = map_of (bt_insert a ?ga alloc) a'
    | Some account \<Rightarrow> \<exists>ga. map_of alloc' a' = Some ga \<and> exported_account gs a' account ga"
    using Cons.IH [OF s(4) _ acc(3)] Cons.prems(2,4) unfolding acc(1) n by simp_all
  have "case map_of accounts a' of
      None \<Rightarrow> map_of alloc' a' = map_of alloc a'
    | Some account \<Rightarrow> \<exists>ga. map_of alloc' a' = Some ga \<and> exported_account gs a' account ga" for a'
    using IH(2) [of a'] ga a Cons.prems(2) unfolding acc(1)
    by (cases "a' = a"; cases "map_of accounts' a'") (simp_all add: map_of_bt_insert)
  with IH(1) show ?case by blast
qed simp

lemma merge_alloc_lookup:
  assumes "bt_wf alloc"
  shows "distinct (map fst template) \<Longrightarrow> bt_wf (merge_alloc template alloc) \<and> map_of (merge_alloc template alloc) = map_of alloc ++ map_of template"
  using assms unfolding merge_alloc_def
proof (induction template arbitrary: alloc)
  case (Cons r template)
  obtain a account where r: "r = (a, account)" by (cases r)
  have "map_of template a = None" using Cons.prems(1) r by (simp add: map_of_eq_None_iff)
  with Cons.IH [of "bt_insert a account alloc"] Cons.prems r show ?case
    by (auto simp: map_of_bt_insert fun_eq_iff map_add_def split: option.split)
qed simp

lemma generate_genesis_Inr:
  assumes "generate_genesis gs = Inr genesis"
  obtains template latest rows alloc where "gs_template gs = Inr template" "gs_last_block_number gs = Inr latest" "latest + 1 \<le> usize_max"
    "gs_accounts gs = Inr rows" "read_all_accounts gs 0 rows [] = Inr alloc"
    "genesis = \<lparr>gf_header = gf_header template, gf_extra_fields = bt_insert ''legacyXLayerBlock'' (JNumber (show_radix 10 (latest + 1))) (gf_extra_fields template),
       gf_alloc = merge_alloc (gf_alloc template) alloc, gf_number = Some (latest + 1)\<rparr>"
  using assms unfolding generate_genesis_def
  by (auto simp: and_then_Inr checked_add_Some_iff split: if_splits option.splits)

lemma gen_genesis_Inr:
  assumes "gen_genesis_execute gs gw out chainspec = (Inr (), out', chainspec')"
  obtains genesis where "generate_genesis gs = Inr genesis" "out' = Some (Whole genesis)"
    "gw_output_chainspec gw \<Longrightarrow> chainspec' = Some (Whole (genesis\<lparr>gf_alloc := []\<rparr>))"
  using assms by (auto simp: gen_genesis_execute_def write_outputs_def write_file_def split: sum.splits prod.splits if_splits)

text \<open>
  C31. The generated genesis is the state of the chain, and reads back at the right height. When the
  tool succeeds on a database it can read, every account of the template is in the file unchanged, every
  other account of the database with its balance, nonce, code and the slots that are not zero, and
  nothing else; read by the node, the file starts the chain at the block after the last one. The keys of the database
  are distinct, and an interrupt that cuts the slots of an account short is still seen after them.
\<close>

theorem genesis_is_state:
  assumes "gen_genesis_execute gs gw out chainspec = (Inr (), out', chainspec')" "gs_template gs = Inr template" "bt_wf (gf_alloc template)"
    and "gs_accounts gs = Inr (map Inr accounts)" "distinct (map fst accounts)" "gs_last_block_number gs = Inr latest" "bt_wf (gf_extra_fields template)"
    and "\<And>j. gs_stop_slots gs j \<noteq> None \<Longrightarrow> gs_stop_after gs j" "\<And>a slots. gs_storage gs a = Inr slots \<Longrightarrow> distinct (map fst slots)"
  shows "\<exists>genesis. out' = Some (Whole genesis) \<and> gf_header genesis = gf_header template \<and>
    (\<forall>a. case map_of (gf_alloc template) a of
       Some ga \<Rightarrow> map_of (gf_alloc genesis) a = Some ga
     | None \<Rightarrow> (case map_of accounts a of
         Some account \<Rightarrow> \<exists>ga. map_of (gf_alloc genesis) a = Some ga \<and> exported_account gs a account ga
       | None \<Rightarrow> map_of (gf_alloc genesis) a = None)) \<and>
    map_sum id gf_number (parse_genesis (Inr genesis)) = Inr (Some (latest + 1))"
proof -
  obtain genesis where g: "generate_genesis gs = Inr genesis" "out' = Some (Whole genesis)" using gen_genesis_Inr [OF assms(1)] .
  from g(1) obtain alloc where
    l: "latest + 1 \<le> usize_max" and r: "read_all_accounts gs 0 (map Inr accounts) [] = Inr alloc"
    and ge: "genesis = \<lparr>gf_header = gf_header template, gf_extra_fields = bt_insert ''legacyXLayerBlock'' (JNumber (show_radix 10 (latest + 1))) (gf_extra_fields template),
       gf_alloc = merge_alloc (gf_alloc template) alloc, gf_number = Some (latest + 1)\<rparr>"
    by (rule generate_genesis_Inr) (use assms(2,4,6) in auto)
  have a: "bt_wf alloc \<and> (\<forall>a. case map_of accounts a of
      None \<Rightarrow> map_of alloc a = map_of [] a
    | Some account \<Rightarrow> \<exists>ga. map_of alloc a = Some ga \<and> exported_account gs a account ga)"
    by (rule read_all_accounts_Inr [OF r bt_wf_Nil refl assms(5)]) (fact assms(8,9))+
  have m: "map_of (gf_alloc genesis) = map_of alloc ++ map_of (gf_alloc template)"
    using merge_alloc_lookup [OF conjunct1 [OF a] bt_wf_distinct [OF assms(3)]] unfolding ge by simp
  have "case map_of (gf_alloc template) a of
       Some ga \<Rightarrow> map_of (gf_alloc genesis) a = Some ga
     | None \<Rightarrow> (case map_of accounts a of
         Some account \<Rightarrow> \<exists>ga. map_of (gf_alloc genesis) a = Some ga \<and> exported_account gs a account ga
       | None \<Rightarrow> map_of (gf_alloc genesis) a = None)" for a
    using spec [OF conjunct2 [OF a], of a] unfolding m by (cases "map_of (gf_alloc template) a"; cases "map_of accounts a") (simp_all add: map_add_def)
  moreover have "as_u64 (JNumber (show_radix 10 (latest + 1))) = Some (latest + 1)"
    unfolding as_u64_def json.case by (rule from_str_radix_show_radix) (use l in \<open>simp_all add: usize_max_def\<close>)
  then have "map_sum id gf_number (parse_genesis (Inr genesis)) = Inr (Some (latest + 1))"
    using assms(7) unfolding ge by (simp add: parse_genesis_def and_then_def map_of_bt_insert)
  moreover have "gf_header genesis = gf_header template" unfolding ge by simp
  ultimately show ?thesis using g(2) by blast
qed

text \<open>
  After a migration the genesis tool loses the state silently. It reads the plain account table,
  which a successful migration has cleared: on a migrated database the tool succeeds and writes a
  genesis with the accounts of the template only.
\<close>

lemma genesis_after_migration_is_template:
  assumes "migrate_v2 L io genesis_block s = (Inr (), s')" "\<not> st_is_v2 s"
    and "gs_accounts gs = Inr (map (\<lambda>row. Inr (account_of row)) (st_tables s' PlainAccountState))"
    and "gen_genesis_execute gs gw out chainspec = (Inr (), out', chainspec')" "gs_template gs = Inr template" "bt_wf (gf_alloc template)"
  shows "\<exists>genesis. out' = Some (Whole genesis) \<and> gf_alloc genesis = gf_alloc template"
proof -
  have "st_tables s' PlainAccountState = []" by (rule migration_clears_tables [OF assms(1,2)])
  then have no: "gs_accounts gs = Inr []" using assms(3) by simp
  obtain genesis where g: "generate_genesis gs = Inr genesis" "out' = Some (Whole genesis)" using gen_genesis_Inr [OF assms(4)] .
  from g(1) have "gf_alloc genesis = merge_alloc (gf_alloc template) []" by (rule generate_genesis_Inr) (use no assms(5) in auto)
  moreover have "merge_alloc (gf_alloc template) [] = gf_alloc template"
    using merge_alloc_lookup [OF bt_wf_Nil bt_wf_distinct [OF assms(6)]] assms(6) by (intro bt_eqI) simp_all
  ultimately show ?thesis using g(2) by simp
qed

section \<open>An instance\<close>

definition sample_export_cmd :: export_command where
  "sample_export_cmd = \<lparr>xc_output_path = ''out/blocks.rlp.gz'', xc_start_block = 3, xc_end_block = None, xc_batch_size = 2\<rparr>"

definition sample_export_env :: "nat export_env" where
  "sample_export_env = \<lparr>xe_last_block_number = Inr 5, xe_genesis_block_number = 3, xe_set_handler = Inr (), xe_create = Inr (),
     xe_block_range = (\<lambda>a b. Inr (filter (\<lambda>n. n \<noteq> 4) [a..<Suc b])), xe_encode = (\<lambda>n. [of_nat n]), xe_write_all = (\<lambda>_. Inr ()), xe_written = (\<lambda>_. 0),
     xe_shutdown = (\<lambda>_. False), xe_flush = Inr (), xe_interrupted = False, xe_gzip = (\<lambda>chunks. 31 # concat chunks), xe_gzip_unfinished = (\<lambda>_. []),
     xe_finish = Inr (), xe_remove_file = Inr ()\<rparr>"

declare export_loop.simps [code]

text \<open>Block 4 is not available; compression adds a byte.\<close>

lemma sample_path: "path_extension ''out/blocks.rlp.gz'' = Some ''gz''"
  by code_simp

theorem export_complete_or_absent_witness:
  "\<exists>bytes. export_execute sample_export_cmd sample_export_env None = Some (Inr (), Some bytes) \<and> tl bytes = [3, 5]"
proof -
  let ?block = "\<lambda>n. if n = 4 then None else Some n"
  have f: "List.map_filter ?block xs = filter (\<lambda>n. n \<noteq> 4) xs" for xs :: "nat list" by (induction xs) (simp_all add: map_filter_simps)
  have s: "serves_blocks sample_export_env ?block" by (simp add: serves_blocks_def sample_export_env_def f)
  have g: "gunzips sample_export_env (\<lambda>bytes. Some (tl bytes))" by (simp add: gunzips_def sample_export_env_def)
  have "export_accepted sample_export_cmd sample_export_env 5 5" "export_undisturbed sample_export_env"
    by (simp_all add: export_accepted_def export_undisturbed_def sample_export_cmd_def sample_export_env_def)
  with export_complete_or_absent [OF s g, of sample_export_cmd 5 5 None] obtain file' where
    "export_execute sample_export_cmd sample_export_env None = Some (Inr (), file')"
    "Option.bind file' (\<lambda>bytes. Some (tl bytes)) = Some (encoded sample_export_env ?block 3 6)"
    by (auto simp: sample_export_cmd_def sample_export_env_def sample_path [simplified])
  moreover have "encoded sample_export_env ?block 3 6 = [3, 5]" by (simp add: encoded_def f upt_rec) (simp add: sample_export_env_def)
  ultimately show ?thesis by (cases file') auto
qed

text \<open>One account in the database and one in the template.\<close>

definition sample_template :: "unit genesis_file" where
  "sample_template = \<lparr>gf_header = (), gf_extra_fields = [], gf_alloc = [(1, genesis_account_of \<lparr>da_nonce = 0, da_balance = 9, da_bytecode_hash = None\<rparr> None [])],
     gf_number = None\<rparr>"

definition sample_genesis_source :: "(string + address \<times> db_account) list \<Rightarrow> unit genesis_source" where
  "sample_genesis_source rows = \<lparr>gs_template = Inr sample_template, gs_opened = Inr (), gs_last_block_number = Inr 41, gs_accounts = Inr rows,
     gs_storage = (\<lambda>_. Inr [(1, 0), (2, 7)]), gs_bytecodes = (\<lambda>_. Inr None), gs_stop_before = (\<lambda>_. False), gs_stop_slots = (\<lambda>_. None),
     gs_stop_after = (\<lambda>_. False), gs_stop_end = False\<rparr>"

definition sample_db_accounts :: "(address \<times> db_account) list" where
  "sample_db_accounts = [(2, \<lparr>da_nonce = 3, da_balance = 5, da_bytecode_hash = None\<rparr>)]"

definition sample_genesis_writes :: genesis_writes where
  "sample_genesis_writes = \<lparr>gw_create = Inr (), gw_write = Inr (), gw_output_chainspec = False, gw_create_chainspec = Inr (), gw_write_chainspec = Inr (),
     gw_remove = Inr ()\<rparr>"

lemma sample_gen_genesis:
  "fst (gen_genesis_execute (sample_genesis_source (map Inr sample_db_accounts)) sample_genesis_writes None None) = Inr ()"
  "fst (gen_genesis_execute (sample_genesis_source []) sample_genesis_writes None None) = Inr ()"
  by code_simp+

theorem genesis_is_state_witness:
  "\<exists>out' chainspec' genesis. gen_genesis_execute (sample_genesis_source (map Inr sample_db_accounts)) sample_genesis_writes None None = (Inr (), out', chainspec') \<and>
     out' = Some (Whole genesis) \<and> map_option (\<lambda>ga. (ga_balance ga, Option.bind (ga_storage ga) (\<lambda>storage. map_of storage 2))) (map_of (gf_alloc genesis) 2) = Some (5, Some 7) \<and>
     map_option ga_balance (map_of (gf_alloc genesis) 1) = Some 9 \<and> map_sum id gf_number (parse_genesis (Inr genesis)) = Inr (Some 42)"
proof -
  let ?gs = "sample_genesis_source (map Inr sample_db_accounts)"
  obtain out' chainspec' where r: "gen_genesis_execute ?gs sample_genesis_writes None None = (Inr (), out', chainspec')"
    using sample_gen_genesis(1) by (metis prod.collapse)
  have "gs_template ?gs = Inr sample_template" "bt_wf (gf_alloc sample_template)" "gs_accounts ?gs = Inr (map Inr sample_db_accounts)"
    "distinct (map fst sample_db_accounts)" "gs_last_block_number ?gs = Inr 41" "bt_wf (gf_extra_fields sample_template)"
    by (simp_all add: sample_genesis_source_def sample_template_def sample_db_accounts_def bt_wf_def)
  from genesis_is_state [OF r this] obtain genesis where g: "out' = Some (Whole genesis)"
    "case map_of (gf_alloc sample_template) 1 of
       Some ga \<Rightarrow> map_of (gf_alloc genesis) 1 = Some ga
     | None \<Rightarrow> (case map_of sample_db_accounts 1 of
         Some account \<Rightarrow> \<exists>ga. map_of (gf_alloc genesis) 1 = Some ga \<and> exported_account ?gs 1 account ga
       | None \<Rightarrow> map_of (gf_alloc genesis) 1 = None)"
    "case map_of (gf_alloc sample_template) 2 of
       Some ga \<Rightarrow> map_of (gf_alloc genesis) 2 = Some ga
     | None \<Rightarrow> (case map_of sample_db_accounts 2 of
         Some account \<Rightarrow> \<exists>ga. map_of (gf_alloc genesis) 2 = Some ga \<and> exported_account ?gs 2 account ga
       | None \<Rightarrow> map_of (gf_alloc genesis) 2 = None)"
    "map_sum id gf_number (parse_genesis (Inr genesis)) = Inr (Some 42)"
    by (auto simp: sample_genesis_source_def)
  from g(2,3) have "map_option ga_balance (map_of (gf_alloc genesis) 1) = Some 9"
    "map_option (\<lambda>ga. (ga_balance ga, Option.bind (ga_storage ga) (\<lambda>storage. map_of storage 2))) (map_of (gf_alloc genesis) 2) = Some (5, Some 7)"
    by (auto simp: sample_template_def sample_db_accounts_def exported_account_def sample_genesis_source_def genesis_account_of_def)
  with g(1,4) r show ?thesis by blast
qed

lemma genesis_after_migration_is_template_witness:
  "\<exists>s' out' chainspec' genesis. migrate_v2 sample_migration_lib (sample_migration_io (Inr ())) 3 sample_store = (Inr (), s') \<and>
     gen_genesis_execute (sample_genesis_source (map (\<lambda>(k, v). Inr (of_nat k, \<lparr>da_nonce = v, da_balance = 1, da_bytecode_hash = None\<rparr>)) (st_tables s' PlainAccountState)))
       sample_genesis_writes None None = (Inr (), out', chainspec') \<and>
     out' = Some (Whole genesis) \<and> gf_alloc genesis = gf_alloc sample_template"
proof -
  have "fst (migrate_v2 sample_migration_lib (sample_migration_io (Inr ())) 3 sample_store) = Inr ()" by code_simp
  then obtain s' where s': "migrate_v2 sample_migration_lib (sample_migration_io (Inr ())) 3 sample_store = (Inr (), s')" by (metis prod.collapse)
  have v: "\<not> st_is_v2 sample_store" by (simp add: sample_store_def)
  have e: "st_tables s' PlainAccountState = []" by (rule migration_clears_tables [OF s' v])
  let ?acc = "\<lambda>(k, v). (of_nat k, \<lparr>da_nonce = v, da_balance = 1, da_bytecode_hash = None\<rparr>) :: address \<times> db_account"
  let ?gs = "sample_genesis_source (map (\<lambda>row. Inr (?acc row)) (st_tables s' PlainAccountState))"
  obtain out' chainspec' where r: "gen_genesis_execute ?gs sample_genesis_writes None None = (Inr (), out', chainspec')"
    using sample_gen_genesis(2) unfolding e by (metis list.simps(8) prod.collapse)
  have "gs_accounts ?gs = Inr (map (\<lambda>row. Inr (?acc row)) (st_tables s' PlainAccountState))" "gs_template ?gs = Inr sample_template"
    "bt_wf (gf_alloc sample_template)"
    by (simp_all add: sample_genesis_source_def sample_template_def bt_wf_def)
  from genesis_after_migration_is_template [OF s' v this(1) r this(2,3)] obtain genesis where
    "out' = Some (Whole genesis)" "gf_alloc genesis = gf_alloc sample_template" by blast
  moreover have "map (\<lambda>(k, v). Inr (of_nat k, \<lparr>da_nonce = v, da_balance = 1, da_bytecode_hash = None\<rparr>)) (st_tables s' PlainAccountState) =
      map (\<lambda>row. Inr (?acc row)) (st_tables s' PlainAccountState)" unfolding e by simp
  ultimately show ?thesis using s' r by metis
qed

end
