(* ===== verification/Chain_Specs.thy ===== *)
theory Chain_Specs
  imports Chain_Tools
begin

text \<open>
  The chains of X Layer (\<open>crates/chainspec/src/lib.rs\<close>, \<open>xlayer_mainnet.rs\<close>, \<open>xlayer_testnet.rs\<close>,
  \<open>xlayer_devnet.rs\<close>): their forks, their identifiers and the genesis header that is put together from
  the embedded file and from values that were computed before. The embedded file, the standard header of
  the library and the meaning of a fork's condition are parameters.
\<close>

section \<open>Forks\<close>

datatype hardfork =
    Frontier | Homestead | Tangerine | SpuriousDragon | Byzantium | Constantinople | Petersburg | Istanbul | MuirGlacier
  | Berlin | London | ArrowGlacier | GrayGlacier | Paris | Bedrock | Regolith | Shanghai | Canyon | Cancun | Ecotone |
  Fjord | Granite | Holocene | Prague | Isthmus | Jovian

datatype fork_condition = FcBlock nat | FcTimestamp nat | FcTTD nat "nat option" nat

definition XLAYER_MAINNET_JOVIAN_TIMESTAMP :: nat where "XLAYER_MAINNET_JOVIAN_TIMESTAMP = 1764691201"
definition XLAYER_TESTNET_JOVIAN_TIMESTAMP :: nat where "XLAYER_TESTNET_JOVIAN_TIMESTAMP = 1764327600"
definition XLAYER_DEVNET_JOVIAN_TIMESTAMP :: nat where "XLAYER_DEVNET_JOVIAN_TIMESTAMP = 1764327600"

definition XLAYER_MAINNET_HARDFORKS :: "(hardfork \<times> fork_condition) list" where
  "XLAYER_MAINNET_HARDFORKS =
     [(Frontier, FcBlock 0), (Homestead, FcBlock 0), (Tangerine, FcBlock 0), (SpuriousDragon, FcBlock 0), (Byzantium, FcBlock 0),
      (Constantinople, FcBlock 0), (Petersburg, FcBlock 0), (Istanbul, FcBlock 0), (MuirGlacier, FcBlock 0), (Berlin, FcBlock 0),
      (London, FcBlock 0), (ArrowGlacier, FcBlock 0), (GrayGlacier, FcBlock 0), (Paris, FcTTD 0 (Some 0) 0), (Bedrock, FcBlock 0),
      (Regolith, FcTimestamp 0), (Shanghai, FcTimestamp 0), (Canyon, FcTimestamp 0), (Cancun, FcTimestamp 0),
      (Ecotone, FcTimestamp 0), (Fjord, FcTimestamp 0), (Granite, FcTimestamp 0), (Holocene, FcTimestamp 0),
      (Prague, FcTimestamp 0), (Isthmus, FcTimestamp 0), (Jovian, FcTimestamp XLAYER_MAINNET_JOVIAN_TIMESTAMP)]"

definition XLAYER_TESTNET_HARDFORKS :: "(hardfork \<times> fork_condition) list" where
  "XLAYER_TESTNET_HARDFORKS =
     [(Frontier, FcBlock 0), (Homestead, FcBlock 0), (Tangerine, FcBlock 0), (SpuriousDragon, FcBlock 0), (Byzantium, FcBlock 0),
      (Constantinople, FcBlock 0), (Petersburg, FcBlock 0), (Istanbul, FcBlock 0), (MuirGlacier, FcBlock 0), (Berlin, FcBlock 0),
      (London, FcBlock 0), (ArrowGlacier, FcBlock 0), (GrayGlacier, FcBlock 0), (Paris, FcTTD 0 (Some 0) 0), (Bedrock, FcBlock 0),
      (Regolith, FcTimestamp 0), (Shanghai, FcTimestamp 0), (Canyon, FcTimestamp 0), (Cancun, FcTimestamp 0),
      (Ecotone, FcTimestamp 0), (Fjord, FcTimestamp 0), (Granite, FcTimestamp 0), (Holocene, FcTimestamp 0),
      (Prague, FcTimestamp 0), (Isthmus, FcTimestamp 0), (Jovian, FcTimestamp XLAYER_TESTNET_JOVIAN_TIMESTAMP)]"

definition XLAYER_DEVNET_HARDFORKS :: "(hardfork \<times> fork_condition) list" where
  "XLAYER_DEVNET_HARDFORKS =
     [(Frontier, FcBlock 0), (Homestead, FcBlock 0), (Tangerine, FcBlock 0), (SpuriousDragon, FcBlock 0), (Byzantium, FcBlock 0),
      (Constantinople, FcBlock 0), (Petersburg, FcBlock 0), (Istanbul, FcBlock 0), (MuirGlacier, FcBlock 0), (Berlin, FcBlock 0),
      (London, FcBlock 0), (ArrowGlacier, FcBlock 0), (GrayGlacier, FcBlock 0), (Paris, FcTTD 0 (Some 0) 0), (Bedrock, FcBlock 0),
      (Regolith, FcTimestamp 0), (Shanghai, FcTimestamp 0), (Canyon, FcTimestamp 0), (Cancun, FcTimestamp 0),
      (Ecotone, FcTimestamp 0), (Fjord, FcTimestamp 0), (Granite, FcTimestamp 0), (Holocene, FcTimestamp 0),
      (Prague, FcTimestamp 0), (Isthmus, FcTimestamp 0), (Jovian, FcTimestamp XLAYER_DEVNET_JOVIAN_TIMESTAMP)]"

section \<open>Specifications\<close>

text \<open>The header that is sealed; its other fields are \<open>'r\<close>.\<close>

record 'r genesis_header =
  gh_number :: nat
  gh_parent_hash :: b256
  gh_state_root :: b256
  gh_rest :: 'r

record ('h, 'r) op_chain_spec =
  oc_chain_id :: nat
  oc_genesis_header :: "'r genesis_header"
  oc_genesis_hash :: b256
  oc_genesis :: "'h genesis_file"
  oc_paris_block_and_final_difficulty :: "nat \<times> nat"
  oc_hardforks :: "(hardfork \<times> fork_condition) list"
  oc_base_fee_params :: "(hardfork \<times> nat \<times> nat) list"

record ('h, 'r) genesis_lib =
  gl_make_op_genesis_header :: "'h genesis_file \<Rightarrow> (hardfork \<times> fork_condition) list \<Rightarrow> 'r genesis_header"
  gl_parent_hash :: "'h genesis_file \<Rightarrow> b256 option"

text \<open>The header of a network: the standard one with the state root, and with the number and the parent of the file.\<close>

definition network_header :: "('h, 'r) genesis_lib \<Rightarrow> 'h genesis_file \<Rightarrow> (hardfork \<times> fork_condition) list \<Rightarrow> b256 \<Rightarrow> 'r genesis_header" where
  "network_header gl genesis hardforks state_root =
     (let header = (gl_make_op_genesis_header gl genesis hardforks)\<lparr>gh_state_root := state_root\<rparr>;
          header = (case gf_number genesis of Some number \<Rightarrow> header\<lparr>gh_number := number\<rparr> | None \<Rightarrow> header) in
      case gl_parent_hash gl genesis of Some parent_hash \<Rightarrow> header\<lparr>gh_parent_hash := parent_hash\<rparr> | None \<Rightarrow> header)"

definition XLAYER_MAINNET_CHAIN_ID :: nat where "XLAYER_MAINNET_CHAIN_ID = 196"
definition XLAYER_MAINNET_BASE_FEE_DENOMINATOR :: nat where "XLAYER_MAINNET_BASE_FEE_DENOMINATOR = 100000000"
definition XLAYER_MAINNET_BASE_FEE_ELASTICITY :: nat where "XLAYER_MAINNET_BASE_FEE_ELASTICITY = 1"
definition XLAYER_MAINNET_BASE_FEE_PARAMS :: "nat \<times> nat" where
  "XLAYER_MAINNET_BASE_FEE_PARAMS = (XLAYER_MAINNET_BASE_FEE_DENOMINATOR, XLAYER_MAINNET_BASE_FEE_ELASTICITY)"
definition XLAYER_MAINNET_GENESIS_HASH :: b256 where
  "XLAYER_MAINNET_GENESIS_HASH = 0xdc33d8c0ec9de14fc2c21bd6077309a0a856df22821bd092a2513426e096a789"
definition XLAYER_MAINNET_STATE_ROOT :: b256 where
  "XLAYER_MAINNET_STATE_ROOT = 0x5d335834cb1c1c20a1f44f964b16cd409aa5d10891d5c6cf26f1f2c26726efcf"

definition XLAYER_MAINNET :: "('h, 'r) genesis_lib \<Rightarrow> 'h genesis_file \<Rightarrow> ('h, 'r) op_chain_spec" where
  "XLAYER_MAINNET gl genesis =
     \<lparr>oc_chain_id = XLAYER_MAINNET_CHAIN_ID,
      oc_genesis_header = network_header gl genesis XLAYER_MAINNET_HARDFORKS XLAYER_MAINNET_STATE_ROOT,
      oc_genesis_hash = XLAYER_MAINNET_GENESIS_HASH, oc_genesis = genesis, oc_paris_block_and_final_difficulty = (0, 0),
      oc_hardforks = XLAYER_MAINNET_HARDFORKS,
      oc_base_fee_params = [(London, XLAYER_MAINNET_BASE_FEE_PARAMS), (Canyon, XLAYER_MAINNET_BASE_FEE_PARAMS)]\<rparr>"

definition XLAYER_TESTNET_CHAIN_ID :: nat where "XLAYER_TESTNET_CHAIN_ID = 1952"
definition XLAYER_TESTNET_BASE_FEE_DENOMINATOR :: nat where "XLAYER_TESTNET_BASE_FEE_DENOMINATOR = 100000000"
definition XLAYER_TESTNET_BASE_FEE_ELASTICITY :: nat where "XLAYER_TESTNET_BASE_FEE_ELASTICITY = 1"
definition XLAYER_TESTNET_BASE_FEE_PARAMS :: "nat \<times> nat" where
  "XLAYER_TESTNET_BASE_FEE_PARAMS = (XLAYER_TESTNET_BASE_FEE_DENOMINATOR, XLAYER_TESTNET_BASE_FEE_ELASTICITY)"
definition XLAYER_TESTNET_GENESIS_HASH :: b256 where
  "XLAYER_TESTNET_GENESIS_HASH = 0xccb16eb07b7a718c2ee374df57b0e28c9ac9d8d18ca6d3204cfbba661067855a"
definition XLAYER_TESTNET_STATE_ROOT :: b256 where
  "XLAYER_TESTNET_STATE_ROOT = 0x3de62c8ade3d3adaa88d48a3ffeebd7c8b6c5b81906d706c22f02f0d2dd3b8fa"

definition XLAYER_TESTNET :: "('h, 'r) genesis_lib \<Rightarrow> 'h genesis_file \<Rightarrow> ('h, 'r) op_chain_spec" where
  "XLAYER_TESTNET gl genesis =
     \<lparr>oc_chain_id = XLAYER_TESTNET_CHAIN_ID,
      oc_genesis_header = network_header gl genesis XLAYER_TESTNET_HARDFORKS XLAYER_TESTNET_STATE_ROOT,
      oc_genesis_hash = XLAYER_TESTNET_GENESIS_HASH, oc_genesis = genesis, oc_paris_block_and_final_difficulty = (0, 0),
      oc_hardforks = XLAYER_TESTNET_HARDFORKS,
      oc_base_fee_params = [(London, XLAYER_TESTNET_BASE_FEE_PARAMS), (Canyon, XLAYER_TESTNET_BASE_FEE_PARAMS)]\<rparr>"

text \<open>
  The hash and the state root of the development network are read from files beside the sources, which
  are made with a fixed text when they do not exist. \<open>None\<close> is a panic: the directory or the file cannot
  be written, the file cannot be read, or its text is no hash. \<open>df_files\<close> are the texts of the files that
  can be read, \<open>df_exists\<close> says which exist.
\<close>

record devnet_files =
  df_exists :: "string \<Rightarrow> bool"
  df_files :: "string \<Rightarrow> string option"
  df_creates_dir :: bool
  df_writes :: bool

definition empty_hash :: string where
  "empty_hash = ''0xc5d2460186f7233c927e7db2dcc703c0e500b653ca82273b7bfad8045d85a470''"

definition devnet_value :: "(string \<Rightarrow> b256 option) \<Rightarrow> string \<Rightarrow> devnet_files \<Rightarrow> (b256 \<times> devnet_files) option" where
  "devnet_value parse path df =
     (let made = (if df_exists df path then Some df
                  else if df_creates_dir df \<and> df_writes df
                  then Some (df\<lparr>df_exists := (df_exists df)(path := True), df_files := (df_files df)(path := Some empty_hash)\<rparr>)
                  else None) in
      case made of
        None \<Rightarrow> None
      | Some df' \<Rightarrow> Option.bind (df_files df' path) (\<lambda>text. map_option (\<lambda>h. (h, df')) (parse (trim text))))"

definition XLAYER_DEVNET_GENESIS_HASH :: "(string \<Rightarrow> b256 option) \<Rightarrow> devnet_files \<Rightarrow> (b256 \<times> devnet_files) option" where
  "XLAYER_DEVNET_GENESIS_HASH parse = devnet_value parse ''res/genesis/xlayer-devnet-genesis-hash.txt''"

definition XLAYER_DEVNET_STATE_ROOT :: "(string \<Rightarrow> b256 option) \<Rightarrow> devnet_files \<Rightarrow> (b256 \<times> devnet_files) option" where
  "XLAYER_DEVNET_STATE_ROOT parse = devnet_value parse ''res/genesis/xlayer-devnet-state-root.txt''"

definition XLAYER_DEVNET_CHAIN_ID :: nat where "XLAYER_DEVNET_CHAIN_ID = 195"
definition XLAYER_DEVNET_BASE_FEE_DENOMINATOR :: nat where "XLAYER_DEVNET_BASE_FEE_DENOMINATOR = 100000000"
definition XLAYER_DEVNET_BASE_FEE_ELASTICITY :: nat where "XLAYER_DEVNET_BASE_FEE_ELASTICITY = 1"
definition XLAYER_DEVNET_BASE_FEE_PARAMS :: "nat \<times> nat" where
  "XLAYER_DEVNET_BASE_FEE_PARAMS = (XLAYER_DEVNET_BASE_FEE_DENOMINATOR, XLAYER_DEVNET_BASE_FEE_ELASTICITY)"

definition XLAYER_DEVNET :: "('h, 'r) genesis_lib \<Rightarrow> (string \<Rightarrow> b256 option) \<Rightarrow> 'h genesis_file \<Rightarrow> devnet_files \<Rightarrow>
    (('h, 'r) op_chain_spec \<times> devnet_files) option" where
  "XLAYER_DEVNET gl parse genesis df =
     Option.bind (XLAYER_DEVNET_STATE_ROOT parse df) (\<lambda>(state_root, df).
     Option.bind (XLAYER_DEVNET_GENESIS_HASH parse df) (\<lambda>(genesis_hash, df).
     Some (\<lparr>oc_chain_id = XLAYER_DEVNET_CHAIN_ID,
      oc_genesis_header = network_header gl genesis XLAYER_DEVNET_HARDFORKS state_root,
      oc_genesis_hash = genesis_hash, oc_genesis = genesis, oc_paris_block_and_final_difficulty = (0, 0),
      oc_hardforks = XLAYER_DEVNET_HARDFORKS,
      oc_base_fee_params = [(London, XLAYER_DEVNET_BASE_FEE_PARAMS), (Canyon, XLAYER_DEVNET_BASE_FEE_PARAMS)]\<rparr>, df)))"

section \<open>The networks agree\<close>

lemmas hardfork_tables = XLAYER_MAINNET_HARDFORKS_def XLAYER_TESTNET_HARDFORKS_def XLAYER_DEVNET_HARDFORKS_def

text \<open>
  The three networks have every fork once and the same forks, each under the same condition but for the
  last one. The last fork, against the description of the tables, is not active from the genesis on.
\<close>

lemma networks_have_same_forks:
  assumes "hardforks \<in> {XLAYER_TESTNET_HARDFORKS, XLAYER_DEVNET_HARDFORKS}"
  shows "map fst hardforks = map fst XLAYER_MAINNET_HARDFORKS" "distinct (map fst hardforks)"
    and "f \<noteq> Jovian \<Longrightarrow> map_of hardforks f = map_of XLAYER_MAINNET_HARDFORKS f"
  using assms by (auto simp: hardfork_tables)

lemma every_fork_has_a_condition: "map_of XLAYER_MAINNET_HARDFORKS f \<noteq> None"
  by (cases f) (simp_all add: hardfork_tables)

lemma jovian_not_at_genesis:
  "map_of XLAYER_MAINNET_HARDFORKS Jovian = Some (FcTimestamp 1764691201)"
  "map_of XLAYER_TESTNET_HARDFORKS Jovian = Some (FcTimestamp 1764327600)"
  "map_of XLAYER_DEVNET_HARDFORKS Jovian = Some (FcTimestamp 1764327600)"
  by (simp_all add: hardfork_tables XLAYER_MAINNET_JOVIAN_TIMESTAMP_def XLAYER_TESTNET_JOVIAN_TIMESTAMP_def XLAYER_DEVNET_JOVIAN_TIMESTAMP_def)

text \<open>The first block of a network is the one its file names.\<close>

lemma network_header_number:
  "gh_number (network_header gl genesis hardforks root) =
     (case gf_number genesis of Some n \<Rightarrow> n | None \<Rightarrow> gh_number (gl_make_op_genesis_header gl genesis hardforks))"
  "gh_state_root (network_header gl genesis hardforks root) = root"
  by (auto simp: network_header_def Let_def split: option.split)

text \<open>A value of the development network that was read once is the same at the next start.\<close>

lemma devnet_value_stable:
  assumes "devnet_value parse path df = Some (h, df')"
  shows "devnet_value parse path df' = Some (h, df')"
    and "df_exists df path \<Longrightarrow> df' = df" and "path' \<noteq> path \<Longrightarrow> df_files df' path' = df_files df path'"
  using assms by (auto simp: devnet_value_def Let_def bind_eq_Some_conv split: option.splits if_splits)

text \<open>
  The names the parser knows stand for the chains with these identifiers, unless a variable of the
  environment names a file.
\<close>

definition xlayer_chains :: "('h, 'r) genesis_lib \<Rightarrow> (string \<Rightarrow> 'h genesis_file) \<Rightarrow> ('h, 'r) op_chain_spec \<Rightarrow> string \<Rightarrow> ('h, 'r) op_chain_spec" where
  "xlayer_chains gl embedded devnet s =
     (if s = ''xlayer-mainnet'' then XLAYER_MAINNET gl (embedded s) else if s = ''xlayer-testnet'' then XLAYER_TESTNET gl (embedded s) else devnet)"

lemma xlayer_names_parse:
  assumes "XLAYER_DEVNET gl parse (embedded ''xlayer-devnet'') df = Some (devnet, df')"
    and "cn_xlayer cn = xlayer_chains gl embedded devnet" and "\<And>v. cn_env cn v = None"
    and "(name, chain_id) \<in> {(''xlayer-mainnet'', 196), (''xlayer-testnet'', 1952), (''xlayer-devnet'', 195)}"
  shows "\<exists>spec. xlayer_chain_value_parser cn name = Inr spec \<and> oc_chain_id spec = chain_id \<and> oc_genesis spec = embedded name"
  using assms
  by (auto simp: xlayer_chain_value_parser_def xlayer_genesis_variable_def xlayer_chains_def XLAYER_DEVNET_def XLAYER_MAINNET_def XLAYER_TESTNET_def
      XLAYER_MAINNET_CHAIN_ID_def XLAYER_TESTNET_CHAIN_ID_def XLAYER_DEVNET_CHAIN_ID_def bind_eq_Some_conv)

end
