(* ===== verification/Legacy_Rpc.thy ===== *)
theory Legacy_Rpc
  imports Externals "HOL-Library.Countable"
begin

text \<open>
  The router of \<open>crates/legacy-rpc\<close> (\<open>lib.rs\<close>, \<open>service.rs\<close>, \<open>get_logs.rs\<close>): JSON-RPC requests about
  blocks before a cutoff go to a legacy endpoint, the others to the local node, and log queries
  across the cutoff are split. The JSON codec and the rendering of responses are parameters, and so
  are the two backends: the local node answers a request, the legacy endpoint answers a posted body.
\<close>

section \<open>Requests and responses\<close>

datatype rpc_id = IdNull | IdNumber nat | IdStr string

record request =
  rq_id :: rpc_id
  rq_method :: string
  rq_params :: "string option"

text \<open>A response is its text and whether it is a success.\<close>

record method_response =
  mr_text :: string
  mr_success :: bool

text \<open>
  The JSON library (\<open>from_str\<close> and \<open>to_string\<close> of values, the check of \<open>RawValue::from_string\<close> with its
  error, the top-level fields of a body as raw text, \<open>Number::as_i64\<close>) and the response rendering.
\<close>

record rpc_lib =
  rl_from_str :: "string \<Rightarrow> string + json"
  rl_to_string :: "json \<Rightarrow> string option"
  rl_raw_error :: "string \<Rightarrow> string option"
  rl_fields :: "string \<Rightarrow> string + (string \<times> string) list"
  rl_as_i64 :: "string \<Rightarrow> int option"
  rl_response_raw :: "rpc_id \<Rightarrow> string \<Rightarrow> string"
  rl_response_value :: "rpc_id \<Rightarrow> json \<Rightarrow> string"
  rl_error :: "rpc_id \<Rightarrow> int \<Rightarrow> string \<Rightarrow> string"
  rl_from_batch :: "method_response list \<Rightarrow> method_response"

definition ok :: "'e + 'a \<Rightarrow> 'a option" where
  "ok r = (case r of Inl _ \<Rightarrow> None | Inr v \<Rightarrow> Some v)"

definition response_raw :: "rpc_lib \<Rightarrow> rpc_id \<Rightarrow> string \<Rightarrow> method_response" where
  "response_raw L i raw = \<lparr>mr_text = rl_response_raw L i raw, mr_success = True\<rparr>"

definition response_value :: "rpc_lib \<Rightarrow> rpc_id \<Rightarrow> json \<Rightarrow> method_response" where
  "response_value L i v = \<lparr>mr_text = rl_response_value L i v, mr_success = True\<rparr>"

definition response_error :: "rpc_lib \<Rightarrow> rpc_id \<Rightarrow> int \<Rightarrow> string \<Rightarrow> method_response" where
  "response_error L i code msg = \<lparr>mr_text = rl_error L i code msg, mr_success = False\<rparr>"

definition CALL_EXECUTION_FAILED_CODE :: int where "CALL_EXECUTION_FAILED_CODE = -32000"
definition INVALID_REQUEST_CODE :: int where "INVALID_REQUEST_CODE = -32600"
definition INVALID_PARAMS_CODE :: int where "INVALID_PARAMS_CODE = -32602"
definition INTERNAL_ERROR_CODE :: int where "INTERNAL_ERROR_CODE = -32603"

record legacy_config =
  lc_enabled :: bool
  lc_legacy_endpoint :: string
  lc_cutoff_block :: nat

datatype http_answer = HttpSendError string | HttpBodyError string | HttpBody string

record backends =
  bk_inner :: "request \<Rightarrow> method_response"
  bk_post :: "string \<Rightarrow> json \<Rightarrow> http_answer"

section \<open>Forwarding\<close>

text \<open>The error code is cast from 64 to 32 bits.\<close>

definition as_i32 :: "int \<Rightarrow> int" where
  "as_i32 c = sint (word_of_int c :: 32 word)"

definition build_legacy_response :: "rpc_lib \<Rightarrow> rpc_id \<Rightarrow> string \<Rightarrow> method_response" where
  "build_legacy_response L request_id body = (case rl_fields L body of
       Inr fs \<Rightarrow>
         (case map_of fs ''result'' of
            Some result \<Rightarrow> response_raw L request_id result
          | None \<Rightarrow>
              (case map_of fs ''error'' of
                 Some error_text \<Rightarrow>
                   let e = (case rl_from_str L error_text of Inr v \<Rightarrow> v | Inl _ \<Rightarrow> JNull);
                       code = (case json_get e ''code'' of
                                 Some (JNumber n) \<Rightarrow> (case rl_as_i64 L n of Some c \<Rightarrow> c | None \<Rightarrow> CALL_EXECUTION_FAILED_CODE)
                               | _ \<Rightarrow> CALL_EXECUTION_FAILED_CODE);
                       message = (case Option.bind (json_get e ''message'') as_str of Some m \<Rightarrow> m | None \<Rightarrow> ''Legacy RPC error'')
                   in response_error L request_id (as_i32 code) message
               | None \<Rightarrow> response_error L request_id INTERNAL_ERROR_CODE ''Invalid legacy response''))
     | Inl e \<Rightarrow> response_error L request_id INTERNAL_ERROR_CODE (''Legacy parse error: '' @ e))"

definition legacy_body :: "rpc_lib \<Rightarrow> request \<Rightarrow> json" where
  "legacy_body L req = JObject [(''jsonrpc'', JString ''2.0''), (''method'', JString (rq_method req)),
     (''params'', case Option.bind (rq_params req) (\<lambda>s. ok (rl_from_str L s)) of Some v \<Rightarrow> v | None \<Rightarrow> JNull),
     (''id'', JNumber ''1'')]"

definition forward_to_legacy :: "rpc_lib \<Rightarrow> legacy_config \<Rightarrow> backends \<Rightarrow> request \<Rightarrow> method_response" where
  "forward_to_legacy L cfg bk req = (case bk_post bk (lc_legacy_endpoint cfg) (legacy_body L req) of
       HttpBody bytes \<Rightarrow> build_legacy_response L (rq_id req) bytes
     | HttpBodyError e \<Rightarrow> response_error L (rq_id req) INTERNAL_ERROR_CODE (''Legacy parse error: '' @ e)
     | HttpSendError e \<Rightarrow> response_error L (rq_id req) INTERNAL_ERROR_CODE (''Legacy RPC error: '' @ e))"

section \<open>Resolving hashes with the local node\<close>

definition is_valid_32_bytes_string :: "string \<Rightarrow> bool" where
  "is_valid_32_bytes_string hex =
     (if \<not> prefix ''0x'' hex \<or> length hex \<noteq> 66 then False else list_all is_ascii_hexdigit (drop 2 hex))"

definition is_block_hash :: "string \<Rightarrow> bool" where
  "is_block_hash hex = (if prefix ''0x'' hex then length hex = 66 else False)"

text \<open>\<open>u64::from_str_radix(s.trim_start_matches("0x"), 16).ok()\<close>\<close>

definition hex_u64 :: "string \<Rightarrow> nat option" where
  "hex_u64 s = from_str_radix (2 ^ 64) 16 (trim_start_with [''0x''] s)"

definition own_request :: "string \<Rightarrow> string \<Rightarrow> request" where
  "own_request method params = \<lparr>rq_id = IdNumber 1, rq_method = method, rq_params = Some params\<rparr>"

definition call_eth_get_block_by_hash :: "rpc_lib \<Rightarrow> backends \<Rightarrow> string \<Rightarrow> bool \<Rightarrow> string + nat option" where
  "call_eth_get_block_by_hash L bk block_hash full_transactions =
     (if \<not> is_valid_32_bytes_string block_hash then Inl (''Invalid block hash format: '' @ block_hash)
      else
        let params = ''[\"'' @ block_hash @ ''\", '' @ (if full_transactions then ''true'' else ''false'') @ '']'' in
        (case rl_raw_error L params of
           Some e \<Rightarrow> Inl (''Failed to create JSON params: '' @ e)
         | None \<Rightarrow>
             (case rl_from_str L (mr_text (bk_inner bk (own_request ''eth_getBlockByHash'' params))) of
                Inl e \<Rightarrow> Inl e
              | Inr response \<Rightarrow> Inr (Option.bind (Option.bind (Option.bind (json_get response ''result'')
                    (\<lambda>result. json_get result ''number'')) as_str) hex_u64))))"

definition get_transaction_by_hash :: "rpc_lib \<Rightarrow> backends \<Rightarrow> string \<Rightarrow> string + string option" where
  "get_transaction_by_hash L bk hash =
     (let params = ''[\"'' @ hash @ ''\"]'' in
      case rl_raw_error L params of
        Some _ \<Rightarrow> Inr None
      | None \<Rightarrow>
          (case rl_from_str L (mr_text (bk_inner bk (own_request ''eth_getTransactionByHash'' params))) of
             Inl e \<Rightarrow> Inl e
           | Inr response \<Rightarrow> Inr (Option.bind (Option.bind (json_get response ''result'') (\<lambda>result. json_get result ''hash'')) as_str)))"

definition get_transaction_block_number :: "rpc_lib \<Rightarrow> backends \<Rightarrow> string \<Rightarrow> string + nat option" where
  "get_transaction_block_number L bk hash =
     (if \<not> is_valid_32_bytes_string hash then Inl (''Invalid tx hash format: '' @ hash)
      else
        let params = ''[\"'' @ hash @ ''\"]'' in
        (case rl_raw_error L params of
           Some e \<Rightarrow> Inl (''Failed to create JSON params: '' @ e)
         | None \<Rightarrow>
             (case rl_from_str L (mr_text (bk_inner bk (own_request ''eth_getTransactionByHash'' params))) of
                Inl e \<Rightarrow> Inl e
              | Inr response \<Rightarrow>
                  (case json_get response ''result'' of
                     None \<Rightarrow> Inr None
                   | Some JNull \<Rightarrow> Inr None
                   | Some result \<Rightarrow>
                       (case Option.bind (Option.bind (json_get result ''blockNumber'') as_str) hex_u64 of
                          Some n \<Rightarrow> Inr (Some n)
                        | None \<Rightarrow> Inl ''Missing or invalid blockNumber in transaction'')))))"

section \<open>Block parameters\<close>

definition parse_block_string :: "string \<Rightarrow> string option" where
  "parse_block_string s =
     (if s \<in> {''latest'', ''pending'', ''safe'', ''finalized''} then None
      else if s = ''earliest'' then Some ''0''
      else if prefix ''0x'' s then
        (if length s = 66 then (if is_valid_32_bytes_string s then Some s else None)
         else map_option (show_radix 10) (from_str_radix (2 ^ 64) 16 (drop 2 s)))
      else None)"

definition parse_block_object :: "(string \<times> json) list \<Rightarrow> string option" where
  "parse_block_object obj = (case map_of obj ''blockHash'' of
       Some (JString hash) \<Rightarrow> if is_valid_32_bytes_string hash then Some hash else None
     | _ \<Rightarrow>
         (case map_of obj ''blockNumber'' of
            Some (JString num) \<Rightarrow>
              (case strip_prefix ''0x'' num of
                 Some stripped \<Rightarrow> map_option (show_radix 10) (from_str_radix (2 ^ 64) 16 stripped)
               | None \<Rightarrow> Some num)
          | _ \<Rightarrow> None))"

definition parse_block_param :: "rpc_lib \<Rightarrow> string \<Rightarrow> nat \<Rightarrow> string option" where
  "parse_block_param L params index =
     Option.bind (Option.bind (Option.bind (ok (rl_from_str L params)) as_array) (\<lambda>arr. list_get arr index))
       (\<lambda>v. case v of JString s \<Rightarrow> parse_block_string s | JObject obj \<Rightarrow> parse_block_object obj | _ \<Rightarrow> None)"

section \<open>Methods\<close>

definition is_legacy_routable :: "string \<Rightarrow> bool" where
  "is_legacy_routable method \<longleftrightarrow> method \<in> set
     [''eth_getBlockByNumber'', ''eth_getBlockByHash'', ''eth_getBlockTransactionCountByNumber'', ''eth_getBlockTransactionCountByHash'',
      ''eth_getBlockReceipts'', ''eth_getHeaderByNumber'', ''eth_getHeaderByHash'', ''eth_getTransactionByHash'', ''eth_getTransactionReceipt'',
      ''eth_getTransactionByBlockHashAndIndex'', ''eth_getTransactionByBlockNumberAndIndex'', ''eth_getRawTransactionByHash'',
      ''eth_getRawTransactionByBlockHashAndIndex'', ''eth_getRawTransactionByBlockNumberAndIndex'', ''eth_getBalance'', ''eth_getCode'',
      ''eth_getStorageAt'', ''eth_getTransactionCount'', ''eth_call'', ''eth_estimateGas'', ''eth_createAccessList'', ''eth_getLogs'',
      ''debug_traceTransaction'', ''debug_traceBlockByNumber'', ''debug_traceBlockByHash'', ''debug_traceCall'']"

definition need_parse_block :: "string \<Rightarrow> bool" where
  "need_parse_block method \<longleftrightarrow> method \<in> set
     [''eth_getBlockByNumber'', ''eth_getBlockTransactionCountByNumber'', ''eth_getHeaderByNumber'', ''eth_getTransactionByBlockNumberAndIndex'',
      ''eth_getRawTransactionByBlockNumberAndIndex'', ''eth_getBlockReceipts'', ''eth_getBalance'', ''eth_getCode'', ''eth_getStorageAt'',
      ''eth_getTransactionCount'', ''eth_call'', ''eth_estimateGas'', ''eth_createAccessList'']"

definition can_use_block_hash_as_param :: "string \<Rightarrow> bool" where
  "can_use_block_hash_as_param method \<longleftrightarrow> method \<in> set
     [''eth_getBlockReceipts'', ''eth_getBalance'', ''eth_getCode'', ''eth_getStorageAt'', ''eth_getTransactionCount'', ''eth_call'',
      ''eth_estimateGas'', ''eth_createAccessList'']"

definition need_try_local_then_legacy :: "string \<Rightarrow> bool" where
  "need_try_local_then_legacy method \<longleftrightarrow> method \<in> set
     [''eth_getTransactionByHash'', ''eth_getTransactionReceipt'', ''eth_getRawTransactionByHash'', ''eth_getBlockByHash'', ''eth_getHeaderByHash'',
      ''eth_getBlockTransactionCountByHash'', ''eth_getTransactionByBlockHashAndIndex'', ''eth_getRawTransactionByBlockHashAndIndex'']"

definition is_result_empty :: "rpc_lib \<Rightarrow> method_response \<Rightarrow> bool" where
  "is_result_empty L response = (case Option.bind (ok (rl_from_str L (mr_text response))) (\<lambda>v. json_get v ''result'') of
       Some JNull \<Rightarrow> True
     | Some (JObject obj) \<Rightarrow> obj = []
     | Some (JArray arr) \<Rightarrow> arr = []
     | _ \<Rightarrow> False)"

definition block_param_pos :: "string \<Rightarrow> nat" where
  "block_param_pos method =
     (if method \<in> set [''eth_getBalance'', ''eth_getCode'', ''eth_getTransactionCount'', ''eth_call'', ''eth_estimateGas'',
          ''eth_createAccessList'', ''debug_traceCall''] then 1
      else if method = ''eth_getStorageAt'' then 2 else 0)"

definition is_special_block_tag :: "string \<Rightarrow> bool" where
  "is_special_block_tag raw \<longleftrightarrow> raw \<in> {''latest'', ''pending'', ''safe'', ''finalized'', ''earliest''}"

definition raw_block_param_at :: "rpc_lib \<Rightarrow> string \<Rightarrow> nat \<Rightarrow> string option" where
  "raw_block_param_at L params index =
     Option.bind (Option.bind (Option.bind (ok (rl_from_str L params)) as_array) (\<lambda>arr. list_get arr index)) as_str"

section \<open>Handlers\<close>

definition handle_try_local_then_legacy :: "rpc_lib \<Rightarrow> legacy_config \<Rightarrow> backends \<Rightarrow> request \<Rightarrow> method_response" where
  "handle_try_local_then_legacy L cfg bk req =
     (let res = bk_inner bk req in
      if \<not> mr_success res \<or> mr_success res \<and> is_result_empty L res then forward_to_legacy L cfg bk req else res)"

definition handle_block_param_methods :: "rpc_lib \<Rightarrow> legacy_config \<Rightarrow> backends \<Rightarrow> request \<Rightarrow> method_response" where
  "handle_block_param_methods L cfg bk req = (case rq_params req of
       None \<Rightarrow> response_error L (rq_id req) INVALID_PARAMS_CODE ''Missing required params''
     | Some params \<Rightarrow>
         (case parse_block_param L params (block_param_pos (rq_method req)) of
            Some block_param \<Rightarrow>
              if can_use_block_hash_as_param (rq_method req) \<and> is_valid_32_bytes_string block_param then
                (case call_eth_get_block_by_hash L bk block_param False of
                   Inr None \<Rightarrow> forward_to_legacy L cfg bk req
                 | Inr (Some n) \<Rightarrow> bk_inner bk req
                 | Inl e \<Rightarrow> forward_to_legacy L cfg bk req)
              else
                (case from_str_radix (2 ^ 64) 10 block_param of
                   Some block_num \<Rightarrow>
                     if block_num < lc_cutoff_block cfg then forward_to_legacy L cfg bk req else bk_inner bk req
                 | None \<Rightarrow> bk_inner bk req)
          | None \<Rightarrow> bk_inner bk req))"

definition route_by_resolved_height :: "rpc_lib \<Rightarrow> legacy_config \<Rightarrow> backends \<Rightarrow> request \<Rightarrow> string + nat option \<Rightarrow> method_response" where
  "route_by_resolved_height L cfg bk req resolved = (case resolved of
       Inr (Some height) \<Rightarrow> if height < lc_cutoff_block cfg then forward_to_legacy L cfg bk req else bk_inner bk req
     | Inr None \<Rightarrow> forward_to_legacy L cfg bk req
     | Inl err \<Rightarrow> bk_inner bk req)"

definition handle_debug_block_by_hash :: "rpc_lib \<Rightarrow> legacy_config \<Rightarrow> backends \<Rightarrow> request \<Rightarrow> method_response" where
  "handle_debug_block_by_hash L cfg bk req = (case Option.bind (rq_params req) (\<lambda>p. parse_block_param L p 0) of
       None \<Rightarrow> bk_inner bk req
     | Some block_hash \<Rightarrow> route_by_resolved_height L cfg bk req (call_eth_get_block_by_hash L bk block_hash False))"

definition handle_debug_trace_transaction :: "rpc_lib \<Rightarrow> legacy_config \<Rightarrow> backends \<Rightarrow> request \<Rightarrow> method_response" where
  "handle_debug_trace_transaction L cfg bk req = (case Option.bind (rq_params req) (\<lambda>p. raw_block_param_at L p 0) of
       None \<Rightarrow> bk_inner bk req
     | Some tx_hash \<Rightarrow> route_by_resolved_height L cfg bk req (get_transaction_block_number L bk tx_hash))"

section \<open>Log queries\<close>

definition parse_block_number_string :: "string \<Rightarrow> nat option" where
  "parse_block_number_string s =
     (if s \<in> {''latest'', ''pending'', ''safe'', ''finalized''} then Some (2 ^ 64 - 1)
      else if s = ''earliest'' then Some 0
      else if prefix ''0x'' s then from_str_radix (2 ^ 64) 16 (drop 2 s)
      else None)"

datatype get_logs_params = GlRange nat nat | GlBlockHash string

definition filter_bound :: "(string \<times> json) list \<Rightarrow> string \<Rightarrow> nat" where
  "filter_bound obj k = (case Option.bind (Option.bind (map_of obj k) as_str) parse_block_number_string of
       Some n \<Rightarrow> n | None \<Rightarrow> 2 ^ 64 - 1)"

definition parse_eth_get_logs_params :: "rpc_lib \<Rightarrow> string \<Rightarrow> get_logs_params option" where
  "parse_eth_get_logs_params L params =
     Option.bind (Option.bind (Option.bind (Option.bind (ok (rl_from_str L params)) as_array) (\<lambda>arr. list_get arr 0)) as_object)
       (\<lambda>filter_obj. case Option.bind (map_of filter_obj ''blockHash'') as_str of
          Some block_hash \<Rightarrow> if is_valid_32_bytes_string block_hash then Some (GlBlockHash block_hash) else None
        | None \<Rightarrow>
            let from_block = filter_bound filter_obj ''fromBlock''; to_block = filter_bound filter_obj ''toBlock'' in
            if from_block > to_block then None else Some (GlRange from_block to_block))"

text \<open>\<open>Map::insert\<close>; where a new key is placed does not matter here.\<close>

definition set_bound :: "string \<Rightarrow> nat option \<Rightarrow> (string \<times> json) list \<Rightarrow> (string \<times> json) list" where
  "set_bound k n obj = (case n of None \<Rightarrow> obj | Some b \<Rightarrow> AList.update k (JString (''0x'' @ show_radix 16 b)) obj)"

definition modify_eth_get_logs_params :: "rpc_lib \<Rightarrow> request \<Rightarrow> nat option \<Rightarrow> nat option \<Rightarrow> request option" where
  "modify_eth_get_logs_params L req from_block to_block =
     (case Option.bind (Option.bind (rq_params req) (\<lambda>s. ok (rl_from_str L s))) as_array of
        Some (JObject filter_obj # rest) \<Rightarrow>
          (case rl_to_string L (JArray (JObject (set_bound ''toBlock'' to_block (set_bound ''fromBlock'' from_block filter_obj)) # rest)) of
             Some new_params \<Rightarrow>
               if rl_raw_error L new_params = None
               then Some \<lparr>rq_id = rq_id req, rq_method = rq_method req, rq_params = Some new_params\<rparr> else None
           | None \<Rightarrow> None)
      | _ \<Rightarrow> None)"

definition log_block :: "json \<Rightarrow> nat" where
  "log_block l = (case Option.bind (Option.bind (json_get l ''blockNumber'') as_str) hex_u64 of Some n \<Rightarrow> n | None \<Rightarrow> 0)"

definition result_array :: "json \<Rightarrow> json list" where
  "result_array v = (case Option.bind (json_get v ''result'') as_array of Some xs \<Rightarrow> xs | None \<Rightarrow> [])"

text \<open>\<open>sort_by\<close> is stable, as is \<open>sort_key\<close>.\<close>

definition merge_eth_get_logs_responses :: "rpc_lib \<Rightarrow> method_response \<Rightarrow> method_response \<Rightarrow> rpc_id \<Rightarrow> method_response" where
  "merge_eth_get_logs_responses L legacy_response local_response request_id =
     (case rl_from_str L (mr_text legacy_response) of
        Inl _ \<Rightarrow> legacy_response
      | Inr legacy_parsed \<Rightarrow>
          (case rl_from_str L (mr_text local_response) of
             Inl _ \<Rightarrow> local_response
           | Inr local_parsed \<Rightarrow>
               response_value L request_id (JArray (sort_key log_block (result_array legacy_parsed @ result_array local_parsed)))))"

definition handle_eth_get_logs :: "rpc_lib \<Rightarrow> legacy_config \<Rightarrow> backends \<Rightarrow> request \<Rightarrow> method_response" where
  "handle_eth_get_logs L cfg bk req = (case rq_params req of
       None \<Rightarrow> response_error L (rq_id req) INVALID_PARAMS_CODE ''Missing required params''
     | Some params \<Rightarrow>
         (case parse_eth_get_logs_params L params of
            Some (GlRange from_block to_block) \<Rightarrow>
              if to_block < lc_cutoff_block cfg then forward_to_legacy L cfg bk req
              else if from_block \<ge> lc_cutoff_block cfg then bk_inner bk req
              else
                (case (modify_eth_get_logs_params L req (Some from_block) (Some (lc_cutoff_block cfg - 1)),
                       modify_eth_get_logs_params L req (Some (lc_cutoff_block cfg)) (Some to_block)) of
                   (Some legacy_req, Some local_req) \<Rightarrow>
                     merge_eth_get_logs_responses L (forward_to_legacy L cfg bk legacy_req) (bk_inner bk local_req) (rq_id req)
                 | _ \<Rightarrow> bk_inner bk req)
          | Some (GlBlockHash block_hash) \<Rightarrow>
              (case call_eth_get_block_by_hash L bk block_hash False of
                 Inr (Some _) \<Rightarrow> bk_inner bk req
               | Inr None \<Rightarrow> forward_to_legacy L cfg bk req
               | Inl _ \<Rightarrow> forward_to_legacy L cfg bk req)
          | None \<Rightarrow> bk_inner bk req))"

section \<open>The service\<close>

definition legacy_call :: "rpc_lib \<Rightarrow> legacy_config \<Rightarrow> backends \<Rightarrow> request \<Rightarrow> method_response" where
  "legacy_call L cfg bk req =
     (let method = rq_method req in
      if \<not> lc_enabled cfg \<or> \<not> is_legacy_routable method then bk_inner bk req
      else if method = ''eth_getLogs'' then handle_eth_get_logs L cfg bk req
      else if method = ''debug_traceBlockByHash'' then handle_debug_block_by_hash L cfg bk req
      else if method = ''debug_traceTransaction'' then handle_debug_trace_transaction L cfg bk req
      else if method = ''debug_traceBlockByNumber'' \<or> method = ''debug_traceCall'' then
        (case Option.bind (rq_params req) (\<lambda>p. raw_block_param_at L p (block_param_pos method)) of
           Some raw \<Rightarrow> if is_special_block_tag raw then bk_inner bk req else handle_block_param_methods L cfg bk req
         | None \<Rightarrow> handle_block_param_methods L cfg bk req)
      else if need_try_local_then_legacy method then handle_try_local_then_legacy L cfg bk req
      else if need_parse_block method then handle_block_param_methods L cfg bk req
      else bk_inner bk req)"

datatype batch_entry = BeCall request | BeNotification | BeInvalid

text \<open>
  \<open>FuturesOrdered\<close> yields the answers in the order of the calls; the response builder's limit is
  \<open>usize::MAX\<close>, so appending does not fail. \<open>batch_inner\<close> is the inner service's batch.
\<close>

definition legacy_batch :: "rpc_lib \<Rightarrow> legacy_config \<Rightarrow> backends \<Rightarrow> (batch_entry list \<Rightarrow> method_response) \<Rightarrow> batch_entry list \<Rightarrow> method_response" where
  "legacy_batch L cfg bk batch_inner entries =
     (if \<not> lc_enabled cfg then batch_inner entries
      else rl_from_batch L (List.map_filter (\<lambda>e. case e of
             BeCall req \<Rightarrow> Some (legacy_call L cfg bk req)
           | BeNotification \<Rightarrow> None
           | BeInvalid \<Rightarrow> Some (response_error L IdNull INVALID_REQUEST_CODE ''Invalid request'')) entries))"

section \<open>Routing by height\<close>

lemma parse_block_number_hex: "n < 2 ^ 64 \<Longrightarrow> parse_block_number_string (''0x'' @ show_radix 16 n) = Some n"
  by (simp add: parse_block_number_string_def from_str_radix_show_radix)

lemma length_show_radix_16: "n < 16 ^ k \<Longrightarrow> 0 < k \<Longrightarrow> length (show_radix 16 n) \<le> k"
proof (induction k arbitrary: n)
  case (Suc k)
  show ?case
  proof (cases "n < 16")
    case False
    with Suc.prems have "0 < k" "n div 16 < 16 ^ k" by (auto simp: less_mult_imp_div_less mult.commute intro: gr0I)
    with Suc.IH [of "n div 16"] False show ?thesis by (simp add: show_radix.simps [of 16 n])
  qed (simp add: show_radix.simps [of 16 n])
qed simp

lemma length_hex_u64: "n < 2 ^ 64 \<Longrightarrow> length (''0x'' @ show_radix 16 n) \<noteq> 66"
  using length_show_radix_16 [of n 16] by simp

lemma parse_block_string_hex: "n < 2 ^ 64 \<Longrightarrow> parse_block_string (''0x'' @ show_radix 16 n) = Some (show_radix 10 n)"
  using length_hex_u64 [of n] by (simp add: parse_block_string_def from_str_radix_show_radix)

lemma show_radix_10_not_hash: "n < 2 ^ 64 \<Longrightarrow> \<not> is_valid_32_bytes_string (show_radix 10 n)"
proof
  assume "n < 2 ^ 64" "is_valid_32_bytes_string (show_radix 10 n)"
  then have "digits_value 10 0 (show_radix 10 n) = Some n" "prefix ''0x'' (show_radix 10 n)"
    by (auto simp: digits_value_show_radix is_valid_32_bytes_string_def split: if_splits)
  then show False by (auto simp: prefix_def to_digit_def split: option.splits)
qed

definition number_methods :: "string list" where
  "number_methods = [''eth_getBlockByNumber'', ''eth_getBlockTransactionCountByNumber'', ''eth_getHeaderByNumber'',
     ''eth_getTransactionByBlockNumberAndIndex'', ''eth_getRawTransactionByBlockNumberAndIndex'', ''eth_getBlockReceipts'',
     ''eth_getBalance'', ''eth_getCode'', ''eth_getStorageAt'', ''eth_getTransactionCount'', ''eth_call'', ''eth_estimateGas'',
     ''eth_createAccessList'', ''debug_traceBlockByNumber'', ''debug_traceCall'']"

lemma number_methods_dispatch:
  assumes "m \<in> set number_methods"
  shows "is_legacy_routable m \<and> m \<notin> {''eth_getLogs'', ''debug_traceBlockByHash'', ''debug_traceTransaction''} \<and>
    \<not> need_try_local_then_legacy m \<and> (m \<in> {''debug_traceBlockByNumber'', ''debug_traceCall''} \<or> need_parse_block m)"
  using assms unfolding number_methods_def
  by (auto simp: is_legacy_routable_def need_try_local_then_legacy_def need_parse_block_def)

lemma block_param_at:
  assumes "rl_from_str L p = Inr (JArray arr)" "list_get arr i = Some (JString s)"
  shows "parse_block_param L p i = parse_block_string s" "raw_block_param_at L p i = Some s"
  using assms by (simp_all add: parse_block_param_def raw_block_param_at_def ok_def as_array_def as_str_def)

text \<open>
  A request that names its block by a hexadecimal number, in whatever position the method has it,
  goes to the legacy endpoint exactly when the block is below the cutoff and to the local node
  otherwise; the tags for the head of the chain always stay local; and \<open>earliest\<close> is block 0 for the
  \<open>eth\<close> methods but local for the tracing ones.
\<close>

lemma block_number_routing:
  assumes "lc_enabled cfg" "rq_method req \<in> set number_methods" "rq_params req = Some p"
    and "rl_from_str L p = Inr (JArray arr)" "list_get arr (block_param_pos (rq_method req)) = Some (JString s)"
    and "n < 2 ^ 64" "s = ''0x'' @ show_radix 16 n \<or> s = ''earliest'' \<and> n = 0 \<or> s \<in> {''latest'', ''pending'', ''safe'', ''finalized''}"
  shows "legacy_call L cfg bk req =
    (if n < lc_cutoff_block cfg \<and> (prefix ''0x'' s \<or> s = ''earliest'' \<and> need_parse_block (rq_method req))
     then forward_to_legacy L cfg bk req else bk_inner bk req)"
proof -
  note d = number_methods_dispatch [OF assms(2)]
  note at = block_param_at [OF assms(4,5)]
  let ?tagged = "is_special_block_tag s"
  have h: "handle_block_param_methods L cfg bk req =
      (if n < lc_cutoff_block cfg \<and> (prefix ''0x'' s \<or> s = ''earliest'') then forward_to_legacy L cfg bk req else bk_inner bk req)"
    using assms(7)
  proof (elim disjE)
    assume s: "s = ''0x'' @ show_radix 16 n"
    with at(1) assms(3,6) show ?thesis
      using parse_block_string_hex [OF assms(6)] show_radix_10_not_hash [OF assms(6)]
      by (simp add: handle_block_param_methods_def from_str_radix_show_radix)
  next
    assume s: "s = ''earliest'' \<and> n = 0"
    have "\<not> is_valid_32_bytes_string ''0''" "from_str_radix 18446744073709551616 10 ''0'' = Some 0"
      by (simp_all add: is_valid_32_bytes_string_def from_str_radix_def to_digit_def)
    with s at(1) assms(3) show ?thesis by (simp add: handle_block_param_methods_def parse_block_string_def)
  next
    assume s: "s \<in> {''latest'', ''pending'', ''safe'', ''finalized''}"
    with at(1) assms(3) show ?thesis by (auto simp: handle_block_param_methods_def parse_block_string_def)
  qed
  show ?thesis
  proof (cases "rq_method req \<in> {''debug_traceBlockByNumber'', ''debug_traceCall''}")
    case True
    then have np: "\<not> need_parse_block (rq_method req)" by (auto simp: need_parse_block_def)
    have "legacy_call L cfg bk req = (if ?tagged then bk_inner bk req else handle_block_param_methods L cfg bk req)"
      using True d assms(1,3) at(2) by (auto simp: legacy_call_def Let_def)
    with h np assms(7) show ?thesis by (auto simp: is_special_block_tag_def)
  next
    case False
    with d have np: "need_parse_block (rq_method req)" by simp
    have "legacy_call L cfg bk req = handle_block_param_methods L cfg bk req"
      using False d assms(1) by (auto simp: legacy_call_def Let_def)
    with h np show ?thesis by simp
  qed
qed

section \<open>Splitting log queries\<close>

lemma trim_0x_idem: "to_digit 16 c \<noteq> None \<Longrightarrow> list_all (\<lambda>c. to_digit 16 c \<noteq> None) cs \<Longrightarrow>
    trim_start_with [''0x''] (''0x'' @ c # cs) = c # cs"
proof -
  assume a: "to_digit 16 c \<noteq> None" "list_all (\<lambda>c. to_digit 16 c \<noteq> None) cs"
  have "to_digit 16 CHR ''x'' = None" by (simp add: to_digit_def)
  with a have "\<not> prefix ''0x'' (c # cs)" by (cases cs) auto
  then show ?thesis
    by (subst trim_start_with.simps, simp add: strip_any_def, subst trim_start_with.simps, auto simp: strip_any_def)
qed

lemma digits_value_digits: "digits_value r a s = Some n \<Longrightarrow> list_all (\<lambda>c. to_digit r c \<noteq> None) s"
  by (induction r a s rule: digits_value.induct) (auto split: option.splits)

lemma hex_u64_show: "n < 2 ^ 64 \<Longrightarrow> hex_u64 (''0x'' @ show_radix 16 n) = Some n"
proof -
  assume n: "n < 2 ^ 64"
  obtain c cs where s: "show_radix 16 n = c # cs" by (cases "show_radix 16 n") auto
  have "list_all (\<lambda>c. to_digit 16 c \<noteq> None) (c # cs)"
    using digits_value_digits [OF digits_value_show_radix [of 16 n]] by (simp add: s)
  then have "trim_start_with [''0x''] (''0x'' @ c # cs) = c # cs" by (intro trim_0x_idem) simp_all
  with from_str_radix_show_radix [of 16 n "2 ^ 64"] n show ?thesis by (simp add: hex_u64_def s)
qed

text \<open>What is assumed of the JSON codec: values print and read back, and a rendered answer can be read.\<close>

definition id_json :: "rpc_id \<Rightarrow> json" where
  "id_json i = (case i of IdNull \<Rightarrow> JNull | IdNumber n \<Rightarrow> JNumber (show_radix 10 n) | IdStr s \<Rightarrow> JString s)"

definition reads_as :: "rpc_lib \<Rightarrow> string \<Rightarrow> rpc_id \<Rightarrow> json \<Rightarrow> bool" where
  "reads_as L body i v \<longleftrightarrow> (\<exists>r. rl_from_str L body = Inr r \<and> json_get r ''result'' = Some v \<and> json_get r ''id'' = Some (id_json i))"

definition json_codec :: "rpc_lib \<Rightarrow> bool" where
  "json_codec L \<longleftrightarrow>
     (\<forall>v. \<exists>t. rl_to_string L v = Some t \<and> rl_from_str L t = Inr v \<and> rl_raw_error L t = None) \<and>
     (\<forall>i v. reads_as L (rl_response_value L i v) i v) \<and>
     (\<forall>i t v. rl_from_str L t = Inr v \<longrightarrow> reads_as L (rl_response_raw L i t) i v)"

definition answers :: "rpc_lib \<Rightarrow> method_response \<Rightarrow> rpc_id \<Rightarrow> json list \<Rightarrow> bool" where
  "answers L resp i logs \<longleftrightarrow> mr_success resp \<and> reads_as L (mr_text resp) i (JArray logs)"

lemma answers_response: "json_codec L \<Longrightarrow> answers L (response_value L i (JArray logs)) i logs"
  by (simp add: json_codec_def answers_def response_value_def)

text \<open>
  What a query asks for, as the interface of the nodes has it: a bound is a tag, a number, or omitted; the
  logs are those of the chain between the bounds that its address and its topics select (\<open>sel\<close>). A chain
  is the list of its logs with their block numbers; \<open>head\<close> is the number of its last block.
\<close>

definition block_bound :: "nat \<Rightarrow> json option \<Rightarrow> nat \<Rightarrow> bool" where
  "block_bound head v n \<longleftrightarrow> v \<in> {None, Some (JString ''latest'')} \<and> n = head \<or> v = Some (JString ''earliest'') \<and> n = 0 \<or>
     v = Some (JString (''0x'' @ show_radix 16 n)) \<and> n < 2 ^ 64"

definition asks :: "nat \<Rightarrow> json \<Rightarrow> (string \<times> json) list \<Rightarrow> nat \<Rightarrow> nat \<Rightarrow> bool" where
  "asks head params obj a b \<longleftrightarrow> (\<exists>rest. params = JArray (JObject obj # rest)) \<and> map_of obj ''blockHash'' = None \<and>
     block_bound head (map_of obj ''fromBlock'') a \<and> block_bound head (map_of obj ''toBlock'') b \<and> a \<le> b"

type_synonym log_selection = "json option \<Rightarrow> json option \<Rightarrow> json \<Rightarrow> bool"

definition logs_of :: "log_selection \<Rightarrow> (nat \<times> json) list \<Rightarrow> (string \<times> json) list \<Rightarrow> nat \<Rightarrow> nat \<Rightarrow> json list" where
  "logs_of sel chain obj a b =
     map snd (filter (\<lambda>(n, l). a \<le> n \<and> n \<le> b \<and> sel (map_of obj ''address'') (map_of obj ''topics'') l) chain)"

text \<open>A chain in order; its logs carry their block numbers in the form of the interface.\<close>

definition chain_ok :: "nat \<Rightarrow> (nat \<times> json) list \<Rightarrow> bool" where
  "chain_ok head chain \<longleftrightarrow> head < 2 ^ 64 \<and> sorted (map fst chain) \<and>
     list_all (\<lambda>(n, l). n \<le> head \<and> json_get l ''blockNumber'' = Some (JString (''0x'' @ show_radix 16 n))) chain"

text \<open>
  What the two nodes do with queries whose bounds are among the blocks they have: the local node answers a
  request with the logs and its id, the legacy endpoint answers a posted JSON-RPC call with a body that has
  the logs as its result. A bound past the last block does not matter to them.
\<close>

definition local_serves :: "rpc_lib \<Rightarrow> (request \<Rightarrow> method_response) \<Rightarrow> (nat \<Rightarrow> bool) \<Rightarrow> nat \<Rightarrow> log_selection \<Rightarrow> (nat \<times> json) list \<Rightarrow> bool" where
  "local_serves L srv held head sel chain \<longleftrightarrow> (\<forall>q p params obj a b.
     rq_method q = ''eth_getLogs'' \<and> rq_params q = Some p \<and> rl_from_str L p = Inr params \<and> asks head params obj a b \<and> held a \<and> held b \<longrightarrow>
     answers L (srv q) (rq_id q) (logs_of sel chain obj a b))"


lemma parse_get_logs_object:
  assumes "rl_from_str L p = Inr (JArray (JObject obj # rest))"
  shows "parse_eth_get_logs_params L p = (case Option.bind (map_of obj ''blockHash'') as_str of
      Some h \<Rightarrow> if is_valid_32_bytes_string h then Some (GlBlockHash h) else None
    | None \<Rightarrow> if filter_bound obj ''fromBlock'' > filter_bound obj ''toBlock'' then None
              else Some (GlRange (filter_bound obj ''fromBlock'') (filter_bound obj ''toBlock'')))"
  using assms by (simp add: parse_eth_get_logs_params_def ok_def as_array_def as_object_def Let_def split: option.split)

lemma parse_get_logs_shape:
  assumes "parse_eth_get_logs_params L p = Some (GlRange a b)"
  obtains obj rest where "rl_from_str L p = Inr (JArray (JObject obj # rest))" "Option.bind (map_of obj ''blockHash'') as_str = None"
    "a = filter_bound obj ''fromBlock''" "b = filter_bound obj ''toBlock''" "a \<le> b"
proof -
  obtain v where v: "rl_from_str L p = Inr v" using assms by (auto simp: parse_eth_get_logs_params_def ok_def split: sum.splits Option.bind_splits)
  moreover obtain arr where arr: "v = JArray arr" using assms v by (cases v) (auto simp: parse_eth_get_logs_params_def ok_def as_array_def)
  moreover obtain x rest where "arr = x # rest" using assms v arr by (cases arr) (auto simp: parse_eth_get_logs_params_def ok_def as_array_def)
  moreover from this obtain obj where "x = JObject obj"
    using assms v arr by (cases x) (auto simp: parse_eth_get_logs_params_def ok_def as_array_def as_object_def)
  ultimately have p: "rl_from_str L p = Inr (JArray (JObject obj # rest))" by simp
  with assms show ?thesis
    by (intro that [OF p]) (auto simp: parse_get_logs_object [OF p] split: option.splits if_splits)
qed

lemma filter_bound_le: "filter_bound obj k \<le> 2 ^ 64 - 1"
proof -
  have "n \<le> 2 ^ 64 - 1" if "parse_block_number_string s = Some n" for s n
    using that by (auto simp: parse_block_number_string_def from_str_radix_def Let_def split: if_splits option.splits)
  then show ?thesis by (auto simp: filter_bound_def split: option.splits Option.bind_splits)
qed

lemma filter_bound_set:
  assumes "n < 2 ^ 64"
  shows "filter_bound (set_bound k (Some n) obj) k = n" "k' \<noteq> k \<Longrightarrow> filter_bound (set_bound k (Some n) obj) k' = filter_bound obj k'"
    "k' \<noteq> k \<Longrightarrow> map_of (set_bound k (Some n) obj) k' = map_of obj k'"
  using parse_block_number_hex [OF assms] by (simp_all add: filter_bound_def set_bound_def update_conv' as_str_def)

text \<open>The code reads the head of the chain as the largest number.\<close>

lemma block_bound_parsed:
  assumes "block_bound head (map_of obj k) n"
  shows "filter_bound obj k = (if map_of obj k \<in> {None, Some (JString ''latest'')} then 2 ^ 64 - 1 else n)"
  using assms parse_block_number_hex [of n]
  by (auto simp: block_bound_def filter_bound_def as_str_def parse_block_number_string_def)

lemma set_bound_lookup: "map_of (set_bound k (Some n) obj) k' = (if k' = k then Some (JString (''0x'' @ show_radix 16 n)) else map_of obj k')"
  by (simp add: set_bound_def update_conv')

lemma modify_get_logs:
  assumes "json_codec L" "rq_params req = Some p" "rl_from_str L p = Inr (JArray (JObject obj # rest))" "map_of obj ''blockHash'' = None"
    and "a < 2 ^ 64" "b < 2 ^ 64" "a \<le> b"
  obtains q p' params obj' where "modify_eth_get_logs_params L req (Some a) (Some b) = Some q" "rq_method q = rq_method req" "rq_id q = rq_id req"
    "rq_params q = Some p'" "rl_from_str L p' = Inr params" "asks head params obj' a b" "logs_of sel chain obj' = logs_of sel chain obj"
proof -
  let ?obj = "set_bound ''toBlock'' (Some b) (set_bound ''fromBlock'' (Some a) obj)"
  obtain t where t: "rl_to_string L (JArray (JObject ?obj # rest)) = Some t" "rl_from_str L t = Inr (JArray (JObject ?obj # rest))" "rl_raw_error L t = None"
    using assms(1) unfolding json_codec_def by blast
  have m: "modify_eth_get_logs_params L req (Some a) (Some b) = Some \<lparr>rq_id = rq_id req, rq_method = rq_method req, rq_params = Some t\<rparr>"
    using assms(2,3) t by (simp add: modify_eth_get_logs_params_def ok_def as_array_def)
  have "asks head (JArray (JObject ?obj # rest)) ?obj a b" using assms(4-7) by (simp add: asks_def block_bound_def set_bound_lookup)
  moreover have "logs_of sel chain ?obj = logs_of sel chain obj" by (simp add: logs_of_def set_bound_lookup fun_eq_iff)
  ultimately show ?thesis using that [OF m _ _ _ t(2)] by simp
qed

lemma log_block_hex: "json_get l ''blockNumber'' = Some (JString (''0x'' @ show_radix 16 n)) \<Longrightarrow> n < 2 ^ 64 \<Longrightarrow> log_block l = n"
  using hex_u64_show [of n] by (simp add: log_block_def as_str_def)


lemma logs_sorted:
  assumes "chain_ok head chain"
  shows "sorted (map log_block (logs_of sel chain obj a b))"
proof -
  have "log_block (snd x) = fst x" if "x \<in> set chain" for x
    using assms that by (intro log_block_hex) (auto simp: chain_ok_def list_all_iff)
  then have "map log_block (logs_of sel chain obj a b) = map fst (filter (\<lambda>(n, l). a \<le> n \<and> n \<le> b \<and> sel (map_of obj ''address'') (map_of obj ''topics'') l) chain)"
    by (auto simp: logs_of_def)
  with assms show ?thesis by (simp add: chain_ok_def sorted_filter)
qed


text \<open>A bound at or past the head selects the same logs as the head.\<close>

lemma logs_of_head: "chain_ok head chain \<Longrightarrow> head \<le> b \<Longrightarrow> logs_of sel chain obj a b = logs_of sel chain obj a head"
  by (auto simp: logs_of_def chain_ok_def list_all_iff intro!: arg_cong [where f = "map snd"] filter_cong)


lemma get_logs_call:
  assumes "lc_enabled cfg" "rq_method req = ''eth_getLogs''" "rq_params req = Some p" "rl_from_str L p = Inr params" "asks head params obj a b"
  defines "f \<equiv> filter_bound obj ''fromBlock''" and "t \<equiv> filter_bound obj ''toBlock''" and "c \<equiv> lc_cutoff_block cfg"
  shows "legacy_call L cfg bk req =
    (if f > t then bk_inner bk req
     else if t < c then forward_to_legacy L cfg bk req
     else if f \<ge> c then bk_inner bk req
     else case (modify_eth_get_logs_params L req (Some f) (Some (c - 1)), modify_eth_get_logs_params L req (Some c) (Some t)) of
            (Some legacy_req, Some local_req) \<Rightarrow> merge_eth_get_logs_responses L (forward_to_legacy L cfg bk legacy_req) (bk_inner bk local_req) (rq_id req)
          | _ \<Rightarrow> bk_inner bk req)"
proof -
  obtain rest where "rl_from_str L p = Inr (JArray (JObject obj # rest))" "map_of obj ''blockHash'' = None"
    using assms(4,5) by (auto simp: asks_def)
  from parse_get_logs_object [OF this(1)] this(2) assms(1-3) show ?thesis
    unfolding f_def t_def c_def by (simp add: legacy_call_def is_legacy_routable_def handle_eth_get_logs_def)
qed

lemma hybrid_requests:
  assumes "json_codec L" "lc_enabled cfg" "rq_method req = ''eth_getLogs''" "rq_params req = Some p" "rl_from_str L p = Inr params"
    and "asks head params obj a b" "lc_cutoff_block cfg \<le> head" "head < 2 ^ 64" "a < lc_cutoff_block cfg" "lc_cutoff_block cfg \<le> b"
  obtains q1 p1 params1 obj1 q2 p2 params2 obj2 t where
    "rq_method q1 = ''eth_getLogs''" "rq_params q1 = Some p1" "rl_from_str L p1 = Inr params1" "asks head params1 obj1 a (lc_cutoff_block cfg - 1)"
    "logs_of sel chain obj1 = logs_of sel chain obj"
    "rq_method q2 = ''eth_getLogs''" "rq_params q2 = Some p2" "rl_from_str L p2 = Inr params2" "asks head params2 obj2 (lc_cutoff_block cfg) t"
    "logs_of sel chain obj2 = logs_of sel chain obj" "t = b \<or> b = head \<and> head \<le> t"
    "legacy_call L cfg bk req = merge_eth_get_logs_responses L (forward_to_legacy L cfg bk q1) (bk_inner bk q2) (rq_id req)"
proof -
  let ?c = "lc_cutoff_block cfg" and ?f = "filter_bound obj ''fromBlock''" and ?t = "filter_bound obj ''toBlock''"
  obtain rest where p: "rl_from_str L p = Inr (JArray (JObject obj # rest))" "map_of obj ''blockHash'' = None"
    and bf: "block_bound head (map_of obj ''fromBlock'') a" and bt: "block_bound head (map_of obj ''toBlock'') b"
    using assms(5,6) by (auto simp: asks_def)
  have f: "?f = a" using block_bound_parsed [OF bf] bf assms(7,9) by (auto simp: block_bound_def)
  have t: "?t = b \<or> b = head \<and> head \<le> ?t" using block_bound_parsed [OF bt] bt assms(8) by (auto simp: block_bound_def)
  have l: "a < 2 ^ 64" "?c - 1 < 2 ^ 64" "?c < 2 ^ 64" "?t < 2 ^ 64" "a \<le> ?c - 1" "?c \<le> ?t"
    using assms(7-10) t filter_bound_le [of obj "''toBlock''"] by auto
  obtain q1 p1 params1 obj1 where q1: "modify_eth_get_logs_params L req (Some a) (Some (?c - 1)) = Some q1" "rq_method q1 = rq_method req"
    "rq_params q1 = Some p1" "rl_from_str L p1 = Inr params1" "asks head params1 obj1 a (?c - 1)" "logs_of sel chain obj1 = logs_of sel chain obj"
    by (rule modify_get_logs [OF assms(1,4) p l(1,2,5)])
  obtain q2 p2 params2 obj2 where q2: "modify_eth_get_logs_params L req (Some ?c) (Some ?t) = Some q2" "rq_method q2 = rq_method req"
    "rq_params q2 = Some p2" "rl_from_str L p2 = Inr params2" "asks head params2 obj2 ?c ?t" "logs_of sel chain obj2 = logs_of sel chain obj"
    by (rule modify_get_logs [OF assms(1,4) p l(3,4,6)])
  have "legacy_call L cfg bk req = merge_eth_get_logs_responses L (forward_to_legacy L cfg bk q1) (bk_inner bk q2) (rq_id req)"
    using l assms(9) unfolding get_logs_call [OF assms(2-6)] f q1(1) q2(1) by simp
  with q1 q2 assms(3) t show ?thesis by (intro that [of q1 p1 params1 obj1 q2 p2 params2 obj2 ?t]) simp_all
qed

lemma answers_array:
  assumes "answers L resp i logs"
  obtains v where "rl_from_str L (mr_text resp) = Inr v" "result_array v = logs"
  using assms by (auto simp: answers_def reads_as_def result_array_def as_array_def)


text \<open>
  When one half of a query across the cutoff fails, the caller is not told: with a legacy endpoint that
  cannot be reached the answer is a success with the logs from the cutoff on only.
\<close>

lemma hybrid_logs_drop_errors:
  assumes "json_codec L" "lc_enabled cfg" "rq_method req = ''eth_getLogs''" "rq_params req = Some p" "rl_from_str L p = Inr params"
    and "asks head params obj a b" "lc_cutoff_block cfg \<le> head" "a < lc_cutoff_block cfg" "lc_cutoff_block cfg \<le> b" "chain_ok head chain"
    and "bk_post bk = (\<lambda>endpoint body. HttpSendError e)" "\<And>i c m. \<exists>v. rl_from_str L (rl_error L i c m) = Inr v \<and> json_get v ''result'' = None"
    and "local_serves L (bk_inner bk) (\<lambda>n. lc_cutoff_block cfg \<le> n) head sel chain"
  shows "answers L (legacy_call L cfg bk req) (rq_id req) (logs_of sel chain obj (lc_cutoff_block cfg) b)"
proof -
  let ?c = "lc_cutoff_block cfg"
  have head: "head < 2 ^ 64" using assms(10) by (simp add: chain_ok_def)
  obtain q1 p1 params1 obj1 q2 p2 params2 obj2 t where
      q2: "rq_method q2 = ''eth_getLogs''" "rq_params q2 = Some p2" "rl_from_str L p2 = Inr params2" "asks head params2 obj2 ?c t"
        "logs_of sel chain obj2 = logs_of sel chain obj" "t = b \<or> b = head \<and> head \<le> t"
      and m: "legacy_call L cfg bk req = merge_eth_get_logs_responses L (forward_to_legacy L cfg bk q1) (bk_inner bk q2) (rq_id req)"
    by (rule hybrid_requests [OF assms(1-7) head assms(8,9)])
  have "?c \<le> t" using q2(4) by (simp add: asks_def)
  moreover have logs: "logs_of sel chain obj2 ?c t = logs_of sel chain obj ?c b" using q2(5,6) logs_of_head [OF assms(10)] by auto
  ultimately have "answers L (bk_inner bk q2) (rq_id q2) (logs_of sel chain obj ?c b)" using assms(13) q2(1-4) by (fastforce simp: local_serves_def)
  then obtain v2 where v2: "rl_from_str L (mr_text (bk_inner bk q2)) = Inr v2" "result_array v2 = logs_of sel chain obj ?c b" by (rule answers_array)
  obtain v1 where v1: "rl_from_str L (mr_text (forward_to_legacy L cfg bk q1)) = Inr v1" "json_get v1 ''result'' = None"
    using assms(12) by (fastforce simp: forward_to_legacy_def assms(11) response_error_def)
  have "sort_key log_block (logs_of sel chain obj ?c b) = logs_of sel chain obj ?c b" using logs_sorted [OF assms(10)] by (rule sort_key_id_if_sorted)
  then have "legacy_call L cfg bk req = response_value L (rq_id req) (JArray (logs_of sel chain obj ?c b))"
    using v1 v2 by (simp add: m merge_eth_get_logs_responses_def result_array_def)
  then show ?thesis using answers_response [OF assms(1)] by simp
qed

text \<open>
  The tags of blocks behind the head are lost when a query is split: the local half of a query up to the
  finalized block asks up to the largest number instead.
\<close>

lemma finalized_bound_is_lost:
  assumes "rq_params req = Some p" "rl_from_str L p = Inr (JArray (JObject obj # rest))" "map_of obj ''toBlock'' = Some (JString ''finalized'')"
    and "filter_bound obj ''toBlock'' = to_block" "modify_eth_get_logs_params L req (Some c) (Some to_block) = Some q"
    and "\<And>v t. rl_to_string L v = Some t \<Longrightarrow> rl_from_str L t = Inr v"
  shows "\<exists>p' obj'. rq_params q = Some p' \<and> rl_from_str L p' = Inr (JArray (JObject obj' # rest)) \<and>
    map_of obj' ''toBlock'' = Some (JString (''0x'' @ show_radix 16 (2 ^ 64 - 1)))"
proof -
  have "to_block = 2 ^ 64 - 1" using assms(3,4) by (auto simp: filter_bound_def as_str_def parse_block_number_string_def)
  with assms(1,2,5,6) show ?thesis
    by (fastforce simp: modify_eth_get_logs_params_def ok_def as_array_def set_bound_lookup split: option.splits if_splits)
qed

section \<open>Routing traces\<close>

text \<open>What the local node knows of a transaction, as the router reads it.\<close>

datatype tx_location = TlUnknown | TlPending | TlMined nat

definition locates :: "rpc_lib \<Rightarrow> backends \<Rightarrow> string \<Rightarrow> tx_location \<Rightarrow> bool" where
  "locates L bk hash loc \<longleftrightarrow>
     (let params = ''[\"'' @ hash @ ''\"]'' in
      rl_raw_error L params = None \<and>
      (case rl_from_str L (mr_text (bk_inner bk (own_request ''eth_getTransactionByHash'' params))) of
         Inl _ \<Rightarrow> False
       | Inr response \<Rightarrow>
           (case loc of
              TlUnknown \<Rightarrow> json_get response ''result'' = Some JNull
            | TlPending \<Rightarrow> (\<exists>obj. json_get response ''result'' = Some (JObject obj) \<and> map_of obj ''blockNumber'' = Some JNull)
            | TlMined n \<Rightarrow> (\<exists>obj. json_get response ''result'' = Some (JObject obj) \<and>
                map_of obj ''blockNumber'' = Some (JString (''0x'' @ show_radix 16 n)) \<and> n < 2 ^ 64))))"

lemma get_transaction_block_number_locates:
  assumes "is_valid_32_bytes_string hash" "locates L bk hash loc"
  shows "get_transaction_block_number L bk hash = (case loc of
      TlUnknown \<Rightarrow> Inr None
    | TlPending \<Rightarrow> Inl ''Missing or invalid blockNumber in transaction''
    | TlMined n \<Rightarrow> Inr (Some n))"
proof -
  let ?params = "''[\"'' @ hash @ ''\"]''"
  obtain response where r: "rl_from_str L (mr_text (bk_inner bk (own_request ''eth_getTransactionByHash'' ?params))) = Inr response"
    "rl_raw_error L ?params = None"
    using assms(2) by (auto simp: locates_def Let_def split: sum.splits)
  with assms show ?thesis
    by (cases loc) (auto simp: get_transaction_block_number_def locates_def Let_def json_get_def as_str_def hex_u64_show [simplified])
qed

text \<open>
  \<open>debug_traceTransaction\<close> is decided by where the transaction is, not by whether the local trace
  would work: a transaction mined below the cutoff or unknown to the local node goes to the legacy
  endpoint, one mined from the cutoff on or still pending stays local, and so does a request whose
  hash is malformed, about which the local node is not even asked.
\<close>

lemma trace_transaction_routing:
  assumes "lc_enabled cfg" "rq_method req = ''debug_traceTransaction''" "rq_params req = Some p"
    and "rl_from_str L p = Inr (JArray arr)" "list_get arr 0 = Some (JString hash)"
    and "is_valid_32_bytes_string hash \<longrightarrow> locates L bk hash loc"
  shows "legacy_call L cfg bk req =
    (if is_valid_32_bytes_string hash \<and> (loc = TlUnknown \<or> (\<exists>n. loc = TlMined n \<and> n < lc_cutoff_block cfg))
     then forward_to_legacy L cfg bk req else bk_inner bk req)"
proof -
  have "legacy_call L cfg bk req = route_by_resolved_height L cfg bk req (get_transaction_block_number L bk hash)"
    using assms(1-3) block_param_at(2) [OF assms(4,5)]
    by (simp add: legacy_call_def is_legacy_routable_def handle_debug_trace_transaction_def)
  then show ?thesis
    using assms(6) get_transaction_block_number_locates [of hash L bk loc]
    by (cases "is_valid_32_bytes_string hash"; cases loc) (simp_all add: route_by_resolved_height_def get_transaction_block_number_def)
qed

section \<open>An instance\<close>

text \<open>A codec that numbers the JSON values, and two backends that serve one chain of two logs.\<close>

instance json :: countable
  by countable_datatype

definition sample_enc :: "json \<Rightarrow> string" where
  "sample_enc v = replicate (to_nat v) CHR ''1''"

definition sample_dec :: "string \<Rightarrow> json" where
  "sample_dec s = from_nat (length s)"

lemma sample_dec_enc [simp]: "sample_dec (sample_enc v) = v"
  by (simp add: sample_enc_def sample_dec_def)

definition sample_lib :: rpc_lib where
  "sample_lib = \<lparr>rl_from_str = (\<lambda>s. Inr (sample_dec s)), rl_to_string = (\<lambda>v. Some (sample_enc v)), rl_raw_error = (\<lambda>s. None),
     rl_fields = (\<lambda>s. case sample_dec s of JObject kvs \<Rightarrow> Inr (map (\<lambda>(k, v). (k, sample_enc v)) kvs) | _ \<Rightarrow> Inl ''not an object''),
     rl_as_i64 = (\<lambda>s. None),
     rl_response_raw = (\<lambda>i raw. sample_enc (JObject [(''result'', sample_dec raw), (''id'', id_json i)])),
     rl_response_value = (\<lambda>i v. sample_enc (JObject [(''result'', v), (''id'', id_json i)])),
     rl_error = (\<lambda>i c m. sample_enc (JObject [(''error'', JString m)])),
     rl_from_batch = (\<lambda>rs. \<lparr>mr_text = [], mr_success = True\<rparr>)\<rparr>"

lemma sample_json_codec: "json_codec sample_lib"
  by (auto simp: json_codec_def reads_as_def sample_lib_def json_get_def)

definition sample_log :: "nat \<Rightarrow> nat \<Rightarrow> json" where
  "sample_log n a = JObject [(''blockNumber'', JString (''0x'' @ show_radix 16 n)), (''address'', JNumber (show_radix 10 a))]"

definition sample_chain :: "(nat \<times> json) list" where
  "sample_chain = [(5, sample_log 5 3), (7, sample_log 7 4), (15, sample_log 15 3)]"

text \<open>Logs are selected by their address.\<close>

definition sample_sel :: log_selection where
  "sample_sel address topics l \<longleftrightarrow> address = None \<or> json_get l ''address'' = address"

definition sample_bound :: "json option \<Rightarrow> nat" where
  "sample_bound v = (case v of Some (JString s) \<Rightarrow> if s = ''latest'' then 20 else if s = ''earliest'' then 0 else the (from_str_radix (2 ^ 64) 16 (drop 2 s)) | _ \<Rightarrow> 20)"

lemma sample_bound: "block_bound 20 v n \<Longrightarrow> sample_bound v = n"
  by (auto simp: block_bound_def sample_bound_def from_str_radix_show_radix)

definition sample_logs_of :: "json option \<Rightarrow> json" where
  "sample_logs_of params = (case params of
       Some (JArray (JObject obj # _)) \<Rightarrow> JArray (logs_of sample_sel sample_chain obj (sample_bound (map_of obj ''fromBlock'')) (sample_bound (map_of obj ''toBlock'')))
     | _ \<Rightarrow> JNull)"

lemma sample_logs_asked: "asks 20 params obj a b \<Longrightarrow> sample_logs_of (Some params) = JArray (logs_of sample_sel sample_chain obj a b)"
  by (auto simp: asks_def sample_logs_of_def dest!: sample_bound)

definition sample_backends :: "bool \<Rightarrow> backends" where
  "sample_backends reachable = \<lparr>bk_inner = (\<lambda>q. response_value sample_lib (rq_id q)
        (if rq_method q = ''eth_getLogs'' then sample_logs_of (map_option sample_dec (rq_params q)) else JNull)),
     bk_post = (\<lambda>endpoint body. if reachable
        then HttpBody (sample_enc (JObject [(''result'', sample_logs_of (json_get body ''params''))]))
        else HttpSendError ''connection refused'')\<rparr>"

definition sample_cfg :: legacy_config where
  "sample_cfg = \<lparr>lc_enabled = True, lc_legacy_endpoint = ''http://legacy'', lc_cutoff_block = 10\<rparr>"

definition sample_query :: request where
  "sample_query = \<lparr>rq_id = IdNumber 3, rq_method = ''eth_getLogs'',
     rq_params = Some (sample_enc (JArray [JObject [(''fromBlock'', JString (''0x'' @ show_radix 16 2)), (''address'', JNumber (show_radix 10 3))]]))\<rparr>"

lemma sample_local_serves: "local_serves sample_lib (bk_inner (sample_backends r)) held 20 sample_sel sample_chain"
  unfolding local_serves_def
proof (intro allI impI, elim conjE)
  fix q :: request and p params obj a b
  assume q: "rq_method q = ''eth_getLogs''" "rq_params q = Some p" "rl_from_str sample_lib p = Inr params" "asks 20 params obj a b"
  then have "sample_logs_of (map_option sample_dec (rq_params q)) = JArray (logs_of sample_sel sample_chain obj a b)"
    using sample_logs_asked [OF q(4)] by (simp add: sample_lib_def)
  with q(1) show "answers sample_lib (bk_inner (sample_backends r) q) (rq_id q) (logs_of sample_sel sample_chain obj a b)"
    by (simp add: sample_backends_def answers_response [OF sample_json_codec])
qed


lemma sample_chain_ok: "chain_ok 20 sample_chain"
  by (simp add: chain_ok_def sample_chain_def sample_log_def json_get_def)

lemma sample_query_asks:
  "rl_from_str sample_lib (the (rq_params sample_query)) = Inr (JArray [JObject [(''fromBlock'', JString (''0x'' @ show_radix 16 2)), (''address'', JNumber (show_radix 10 3))]])"
  "asks 20 (JArray [JObject [(''fromBlock'', JString (''0x'' @ show_radix 16 2)), (''address'', JNumber (show_radix 10 3))]])
     [(''fromBlock'', JString (''0x'' @ show_radix 16 2)), (''address'', JNumber (show_radix 10 3))] 2 20"
  by (simp_all add: sample_query_def sample_lib_def asks_def block_bound_def)

lemma sample_logs_selected:
  "logs_of sample_sel sample_chain [(''fromBlock'', v), (''address'', JNumber (show_radix 10 3))] a 20 =
     map snd (filter (\<lambda>(n, l). a \<le> n) [(5, sample_log 5 3), (15, sample_log 15 3)])"
proof -
  have "show_radix 10 3 \<noteq> show_radix 10 4" by code_simp
  then show ?thesis by (simp add: logs_of_def sample_chain_def sample_sel_def sample_log_def json_get_def)
qed


lemma hybrid_logs_drop_errors_witness:
  "answers sample_lib (legacy_call sample_lib sample_cfg (sample_backends False) sample_query) (IdNumber 3) [sample_log 15 3]"
proof -
  have "answers sample_lib (legacy_call sample_lib sample_cfg (sample_backends False) sample_query) (rq_id sample_query)
      (logs_of sample_sel sample_chain [(''fromBlock'', JString (''0x'' @ show_radix 16 2)), (''address'', JNumber (show_radix 10 3))] (lc_cutoff_block sample_cfg) 20)"
    by (rule hybrid_logs_drop_errors [OF sample_json_codec _ _ _ sample_query_asks _ _ _ sample_chain_ok _ _ sample_local_serves, where e = "''connection refused''"])
      (simp_all add: sample_cfg_def sample_query_def sample_backends_def sample_lib_def json_get_def)
  then show ?thesis by (simp add: sample_logs_selected sample_cfg_def sample_query_def)
qed

lemma block_number_routing_witness:
  "legacy_call sample_lib sample_cfg (sample_backends True)
      \<lparr>rq_id = IdNull, rq_method = ''eth_getBalance'', rq_params = Some (sample_enc (JArray [JString ''0xAB'', JString ''0x9'']))\<rparr> =
    forward_to_legacy sample_lib sample_cfg (sample_backends True)
      \<lparr>rq_id = IdNull, rq_method = ''eth_getBalance'', rq_params = Some (sample_enc (JArray [JString ''0xAB'', JString ''0x9'']))\<rparr>"
proof -
  have "show_radix 16 9 = ''9''" by code_simp
  then show ?thesis
    using block_number_routing [of sample_cfg "\<lparr>rq_id = IdNull, rq_method = ''eth_getBalance'',
        rq_params = Some (sample_enc (JArray [JString ''0xAB'', JString ''0x9'']))\<rparr>"
        "sample_enc (JArray [JString ''0xAB'', JString ''0x9''])" sample_lib "[JString ''0xAB'', JString ''0x9'']" "''0x9''" 9 "sample_backends True"]
    by (simp add: sample_cfg_def number_methods_def sample_lib_def block_param_pos_def)
qed

definition sample_hash :: string where
  "sample_hash = ''0x'' @ replicate 64 CHR ''a''"

lemma trace_transaction_routing_witness:
  "legacy_call sample_lib sample_cfg (sample_backends True)
      \<lparr>rq_id = IdNull, rq_method = ''debug_traceTransaction'', rq_params = Some (sample_enc (JArray [JString sample_hash]))\<rparr> =
    forward_to_legacy sample_lib sample_cfg (sample_backends True)
      \<lparr>rq_id = IdNull, rq_method = ''debug_traceTransaction'', rq_params = Some (sample_enc (JArray [JString sample_hash]))\<rparr>"
proof -
  let ?req = "\<lparr>rq_id = IdNull, rq_method = ''debug_traceTransaction'', rq_params = Some (sample_enc (JArray [JString sample_hash]))\<rparr>"
  have valid: "is_valid_32_bytes_string sample_hash"
    by (simp add: is_valid_32_bytes_string_def sample_hash_def is_ascii_hexdigit_def list_all_iff)
  have "locates sample_lib (sample_backends True) sample_hash TlUnknown"
    by (simp add: locates_def own_request_def sample_backends_def response_value_def sample_lib_def json_get_def)
  with valid show ?thesis
    using trace_transaction_routing [of sample_cfg ?req "sample_enc (JArray [JString sample_hash])" sample_lib "[JString sample_hash]" sample_hash
        "sample_backends True" TlUnknown]
    by (simp add: sample_cfg_def sample_lib_def)
qed

end
