(* ===== verification/Node_Binaries.thy ===== *)
theory Node_Binaries
  imports Service_Startup Node_Secrets Node_Monitor Chain_Specs Legacy_Rpc
begin

text \<open>
  The programs: the start of the node (\<open>bin/node/src/main.rs\<close>, \<open>bin/node/src/payload.rs\<close>) and of the tools
  (\<open>bin/tools/main.rs\<close>, \<open>bin/tools/import.rs\<close>), the RPC services the node adds and the relay of flashblocks it
  starts. The parser of the command line and the node library are parameters: what is modelled is
  which part is started, in which order the checks come, and with which configuration.
\<close>

section \<open>The payload service\<close>

text \<open>The options of the node; the switch of the flashblocks, the pending block and the source of flashblocks are options of other groups.\<close>

record node_args =
  na_flashblocks_enabled :: bool
  na_builder :: builder_args
  na_legacy :: legacy_rpc_args
  na_monitor :: full_link_monitor_args
  na_intercept :: x_layer_intercept_args
  na_enable_flashblocks_subscription :: bool
  na_flashblocks_subscription_max_addresses :: nat
  na_sequencer_mode :: bool
  na_compute_pending_block :: bool
  na_flashblocks_url :: "string option"

text \<open>The strategy; the basic builder is the library's, with the limit of gasless transactions that is set for it.\<close>

datatype payload_service_builder = PsFlashblocks builder_config bridge_intercept_config | PsDefault bool nat

definition default_bridge_config :: bridge_intercept_config where
  "default_bridge_config = \<lparr>bi_enabled = False, bi_bridge_contract_address = 0, bi_target_token_address = 0, bi_wildcard = False\<rparr>"

definition payload_service_builder_new :: "(string \<Rightarrow> bool) \<Rightarrow> (filter_config \<Rightarrow> bool) \<Rightarrow> node_args \<Rightarrow> config_error + payload_service_builder" where
  "payload_service_builder_new addr_parses client_ok args =
     (let gasless = (case gasless_block_gas_limit (na_builder args) of Some v \<Rightarrow> v | None \<Rightarrow> 0) in
      if na_flashblocks_enabled args
      then map_sum id (\<lambda>config. PsFlashblocks config default_bridge_config) (builder_config_try_from addr_parses client_ok (na_builder args))
      else Inr (PsDefault (na_compute_pending_block args) gasless))"

definition with_bridge_config :: "bridge_intercept_config \<Rightarrow> payload_service_builder \<Rightarrow> payload_service_builder" where
  "with_bridge_config bridge b = (case b of PsFlashblocks config _ \<Rightarrow> PsFlashblocks config bridge | PsDefault p g \<Rightarrow> PsDefault p g)"

datatype started_payload = StartedFlashblocks payload_service | StartedBasic bool nat

definition spawn_payload :: "('k, 'b) service_env \<Rightarrow> (string + unit) \<Rightarrow> payload_service_builder \<Rightarrow> string + started_payload" where
  "spawn_payload se basic b = (case b of
       PsFlashblocks config bridge \<Rightarrow> map_sum id StartedFlashblocks (spawn_payload_builder_service se config bridge)
     | PsDefault p g \<Rightarrow> map_sum id (\<lambda>_. StartedBasic p g) basic)"

section \<open>RPC services\<close>

text \<open>\<open>eth_flashblocksEnabled\<close>: a receiver of pending blocks, a pending block in it, and that not expired.\<close>

definition has_pending_flashblock :: "nat option option \<Rightarrow> nat \<Rightarrow> bool" where
  "has_pending_flashblock pending_block_rx now = (case pending_block_rx of
       Some (Some expires_at) \<Rightarrow> now < expires_at
     | _ \<Rightarrow> False)"

datatype relay_task = TaskFlashblocksPersistence | TaskFlashblocksPublish

definition flashblocks_service_new :: "(string \<Rightarrow> bool) \<Rightarrow> (string \<times> nat \<Rightarrow> string + unit) \<Rightarrow> builder_args \<Rightarrow> string + unit" where
  "flashblocks_service_new addr_parses bind args =
     (if \<not> addr_parses (ba_flashblocks_addr args) then Inl ''invalid address''
      else map_sum (\<lambda>e. ''Failed to create WebSocket publisher: '' @ e) id (bind (ba_flashblocks_addr args, ba_flashblocks_port args)))"

definition flashblocks_service_spawn :: "bool \<Rightarrow> relay_task list" where
  "flashblocks_service_spawn relay_flashblocks = (if relay_flashblocks then [TaskFlashblocksPersistence, TaskFlashblocksPublish] else [])"

datatype rpc_module = RpcFlashblocksPubSub nat | RpcXlayerExt | RpcXlayerAudit | RpcTransactionCount

record node_rpc =
  nr_relay :: "relay_task list"
  nr_modules :: "rpc_module list"

fun register_all :: "(rpc_module \<Rightarrow> string + unit) \<Rightarrow> rpc_module list \<Rightarrow> string + rpc_module list" where
  "register_all register [] = Inr []"
| "register_all register (m # ms) = and_then (register m) (\<lambda>_. map_sum id (Cons m) (register_all register ms))"

text \<open>What the library offers: the streams of received flashblocks and of pending blocks, if any, and whether a module can be added.\<close>

record rpc_env =
  re_received_flashblocks :: bool
  re_pending_block_rx :: bool
  re_register :: "rpc_module \<Rightarrow> string + unit"
  re_addr_parses :: "string \<Rightarrow> bool"
  re_bind :: "string \<times> nat \<Rightarrow> string + unit"

definition extend_rpc_modules :: "rpc_env \<Rightarrow> node_args \<Rightarrow> string + node_rpc" where
  "extend_rpc_modules re args =
     (let flashblocks_rpc = \<not> na_flashblocks_enabled args in
      and_then (if flashblocks_rpc \<and> re_received_flashblocks re
                then map_sum id (\<lambda>_. flashblocks_service_spawn (na_flashblocks_url args \<noteq> None))
                  (flashblocks_service_new (re_addr_parses re) (re_bind re) (na_builder args))
                else Inr []) (\<lambda>relay.
      map_sum id (\<lambda>modules. \<lparr>nr_relay = relay, nr_modules = modules\<rparr>)
        (register_all (re_register re)
          ((if flashblocks_rpc \<and> na_enable_flashblocks_subscription args \<and> re_pending_block_rx re
            then [RpcFlashblocksPubSub (na_flashblocks_subscription_max_addresses args)] else []) @
           [RpcXlayerExt, RpcXlayerAudit, RpcTransactionCount]))))"

section \<open>The node\<close>

definition legacy_config_of :: "legacy_rpc_args \<Rightarrow> nat \<Rightarrow> legacy_config" where
  "legacy_config_of args genesis_block =
     \<lparr>lc_enabled = (la_legacy_rpc_url args \<noteq> None),
      lc_legacy_endpoint = (case la_legacy_rpc_url args of Some url \<Rightarrow> url | None \<Rightarrow> []), lc_cutoff_block = genesis_block\<rparr>"

definition monitor_new :: "full_link_monitor_args \<Rightarrow> bool \<Rightarrow> bool \<Rightarrow> x_layer_monitor" where
  "monitor_new args flashblocks_enabled is_sequencer_mode =
     \<lparr>xm_args = args, xm_flashblocks_enabled = flashblocks_enabled, xm_is_sequencer_mode = is_sequencer_mode\<rparr>"

record running_node =
  rn_args :: node_args
  rn_process :: process
  rn_tracer :: "string option"
  rn_legacy :: legacy_config
  rn_monitor :: x_layer_monitor
  rn_payload :: started_payload
  rn_rpc :: node_rpc

text \<open>
  The environment of the program. \<open>ne_parse\<close> is the parser of the command line, which falls back on the
  environment; \<open>ne_genesis_number\<close> the number in the genesis of the chain.
\<close>

record ('k, 'b) node_env =
  ne_secrets :: secret_services
  ne_parse :: "string list \<Rightarrow> process \<Rightarrow> string + node_args"
  ne_parse_url :: "string \<Rightarrow> string + unit"
  ne_parse_address :: "string \<Rightarrow> address option"
  ne_addr_parses :: "string \<Rightarrow> bool"
  ne_client_ok :: "filter_config \<Rightarrow> bool"
  ne_genesis_number :: "nat option"
  ne_service :: "process \<Rightarrow> ('k, 'b) service_env"
  ne_basic :: "string + unit"
  ne_rpc :: rpc_env

text \<open>How a start ends that fails: the program exits with a message, or it panics.\<close>

datatype start_failure = InitRefused | KmsError string | ParseError string | ConfigurationError string | InterceptPanic
  | InterceptError string | BuilderError config_error | LaunchError string

definition node_main :: "('k, 'b) node_env \<Rightarrow> string list \<Rightarrow> process \<Rightarrow> start_failure + running_node" where
  "node_main ne argv w =
     (if \<not> validate_init_command argv then Inl InitRefused
      else
        and_then (map_sum KmsError id (resolve_kms_secret_flags (ne_secrets ne) argv w)) (\<lambda>(argv, w).
        and_then (map_sum ParseError id (ne_parse ne argv w)) (\<lambda>args.
        and_then (map_sum ConfigurationError id (validate_xlayer_args (ne_parse_url ne) (ne_parse_address ne) (na_legacy args) (na_intercept args))) (\<lambda>_.
        let tracer = (if fm_enable (na_monitor args) then Some (fm_output_path (na_monitor args)) else None);
            genesis_block = (case ne_genesis_number ne of Some n \<Rightarrow> n | None \<Rightarrow> 0);
            legacy_config = legacy_config_of (na_legacy args) genesis_block;
            monitor = monitor_new (na_monitor args) (na_flashblocks_enabled args) (na_sequencer_mode args) in
        case to_bridge_intercept_config (ne_parse_address ne) (na_intercept args) of
          None \<Rightarrow> Inl InterceptPanic
        | Some bridge \<Rightarrow>
            and_then (map_sum InterceptError id bridge) (\<lambda>bridge_config.
            and_then (map_sum BuilderError id (payload_service_builder_new (ne_addr_parses ne) (ne_client_ok ne) args)) (\<lambda>b.
            and_then (map_sum LaunchError id (spawn_payload (ne_service ne w) (ne_basic ne) (with_bridge_config bridge_config b))) (\<lambda>payload.
            and_then (map_sum LaunchError id (extend_rpc_modules (ne_rpc ne) args)) (\<lambda>rpc.
            Inr \<lparr>rn_args = args, rn_process = w, rn_tracer = tracer, rn_legacy = legacy_config, rn_monitor = monitor,
              rn_payload = payload, rn_rpc = rpc\<rparr>))))))))"

text \<open>The tasks of the monitor, started at the end: the global tracer is there exactly when monitoring is enabled.\<close>

definition node_traces :: "running_node \<Rightarrow> 'h \<Rightarrow> bool \<Rightarrow> 'h monitor_input list \<Rightarrow> 'h list \<Rightarrow> 'h trace_record list \<times> 'h trace_record list" where
  "node_traces node zero subscribed inputs admissions =
     (start_monitor_handle (rn_tracer node \<noteq> None) zero (rn_monitor node) subscribed inputs,
      start_pool_admission_trace_handle (rn_tracer node \<noteq> None) (rn_monitor node) admissions)"

section \<open>The tools\<close>

record import_result =
  ir_total_decoded_blocks :: nat
  ir_total_imported_blocks :: nat
  ir_complete :: bool

text \<open>The import: opening the environment and reading the file are the library's, and so is whether a result is complete.\<close>

definition import_execute :: "(string + unit) \<Rightarrow> (string + import_result) \<Rightarrow> string + import_result" where
  "import_execute init imported =
     and_then init (\<lambda>_. and_then imported (\<lambda>result.
       if ir_complete result then Inr result
       else Inl (''Chain was partially imported. Imported '' @ show_radix 10 (ir_total_imported_blocks result) @ ''/'' @
         show_radix 10 (ir_total_decoded_blocks result) @ '' blocks'')))"

datatype tool_command = ToolImport "string + import_result" | ToolExport "string + unit" | ToolGenGenesis "string + unit" | ToolMigrateV2 "string + unit"

text \<open>A command is its result here; the exit code tells whether it failed.\<close>

fun tools_main :: "tool_command \<Rightarrow> nat" where
  "tools_main (ToolImport r) = (case r of Inr _ \<Rightarrow> 0 | Inl _ \<Rightarrow> 1)"
| "tools_main (ToolExport r) = (case r of Inr _ \<Rightarrow> 0 | Inl _ \<Rightarrow> 1)"
| "tools_main (ToolGenGenesis r) = (case r of Inr _ \<Rightarrow> 0 | Inl _ \<Rightarrow> 1)"
| "tools_main (ToolMigrateV2 r) = (case r of Inr _ \<Rightarrow> 0 | Inl _ \<Rightarrow> 1)"

lemma partial_import_fails:
  "tools_main (ToolImport (import_execute init (Inr result))) = 0 \<longleftrightarrow> init = Inr () \<and> ir_complete result"
  by (cases init) (auto simp: import_execute_def and_then_def)

section \<open>A node that starts runs what was configured\<close>

lemma bridge_config_exists:
  assumes "validate_intercept_args parse args = Inr ()"
  shows "\<exists>bridge. to_bridge_intercept_config parse args = Some (Inr bridge)"
proof -
  obtain r where r: "to_bridge_intercept_config parse args = Some r"
    "\<And>e. r = Inl e \<Longrightarrow> validate_intercept_args parse args = Inl e"
    using intercept_config_as_asked [of parse args] by (fastforce split: sum.splits)
  with assms show ?thesis by (cases r) auto
qed

lemma validate_xlayer_args_Inr:
  "validate_xlayer_args parse_url parse legacy intercept = Inr () \<longleftrightarrow>
     validate_legacy_args parse_url legacy = Inr () \<and> validate_intercept_args parse intercept = Inr ()"
  by (auto simp: validate_xlayer_args_def and_then_Inr)

text \<open>The steps of a start, in their order; the checked conversion of the interception never fails at that place.\<close>

lemma node_main_Inr:
  assumes "node_main ne argv w = Inr node"
  obtains argv' bridge b where "validate_init_command argv" "resolve_kms_secret_flags (ne_secrets ne) argv w = Inr (argv', rn_process node)"
    "ne_parse ne argv' (rn_process node) = Inr (rn_args node)"
    "validate_legacy_args (ne_parse_url ne) (na_legacy (rn_args node)) = Inr ()"
    "to_bridge_intercept_config (ne_parse_address ne) (na_intercept (rn_args node)) = Some (Inr bridge)"
    "payload_service_builder_new (ne_addr_parses ne) (ne_client_ok ne) (rn_args node) = Inr b"
    "spawn_payload (ne_service ne (rn_process node)) (ne_basic ne) (with_bridge_config bridge b) = Inr (rn_payload node)"
    "extend_rpc_modules (ne_rpc ne) (rn_args node) = Inr (rn_rpc node)"
    "rn_legacy node = legacy_config_of (na_legacy (rn_args node)) (case ne_genesis_number ne of Some n \<Rightarrow> n | None \<Rightarrow> 0)"
    "rn_tracer node = (if fm_enable (na_monitor (rn_args node)) then Some (fm_output_path (na_monitor (rn_args node))) else None)"
    "rn_monitor node = monitor_new (na_monitor (rn_args node)) (na_flashblocks_enabled (rn_args node)) (na_sequencer_mode (rn_args node))"
proof -
  have init: "validate_init_command argv" using assms by (simp add: node_main_def split: if_splits)
  obtain argv' w' args where r: "resolve_kms_secret_flags (ne_secrets ne) argv w = Inr (argv', w')" "ne_parse ne argv' w' = Inr args"
    "validate_xlayer_args (ne_parse_url ne) (ne_parse_address ne) (na_legacy args) (na_intercept args) = Inr ()"
    using assms init by (auto simp: node_main_def and_then_Inr map_sum_Inr_iff)
  then obtain bridge where bridge: "to_bridge_intercept_config (ne_parse_address ne) (na_intercept args) = Some (Inr bridge)"
    using bridge_config_exists by (auto simp: validate_xlayer_args_Inr)
  show thesis
    by (rule that [of argv' bridge "projr (payload_service_builder_new (ne_addr_parses ne) (ne_client_ok ne) args)"])
      (use assms init r bridge in \<open>auto simp: node_main_def and_then_Inr map_sum_Inr_iff validate_xlayer_args_Inr Let_def\<close>)
qed

text \<open>
  A start never fails on the interception after the arguments were accepted: the conversion that
  could panic is only reached with what was validated.
\<close>

lemma interception_checked_before: "node_main ne argv w \<notin> Inl ` insert InterceptPanic (range InterceptError)"
proof
  assume "node_main ne argv w \<in> Inl ` insert InterceptPanic (range InterceptError)"
  then obtain e where e: "node_main ne argv w = Inl e" "e = InterceptPanic \<or> (\<exists>m. e = InterceptError m)" by auto
  have "validate_init_command argv" using e by (auto simp: node_main_def split: if_splits)
  with e have "\<exists>args :: node_args. validate_xlayer_args (ne_parse_url ne) (ne_parse_address ne) (na_legacy args) (na_intercept args) = Inr () \<and>
      (\<forall>bridge. to_bridge_intercept_config (ne_parse_address ne) (na_intercept args) \<noteq> Some (Inr bridge))"
    by (auto simp: node_main_def and_then_Inl and_then_Inr map_sum_Inl_iff map_sum_Inr_iff Let_def split: option.splits prod.splits)
  then show False using bridge_config_exists by (auto simp: validate_xlayer_args_Inr)
qed

text \<open>
  C15. The node runs with the parts that its arguments ask for. Historical requests are routed exactly when a
  legacy address was given, below the number of the genesis; with flashblocks the payloads are built by
  the flashblocks builder, which screens exactly when the filter is enabled and intercepts exactly as
  asked; without flashblocks they are built by the basic builder, without either; and records are traced
  exactly when monitoring is enabled.
\<close>

theorem node_runs_as_configured:
  assumes "node_main ne argv w = Inr node"
  defines "args \<equiv> rn_args node"
  shows "lc_enabled (rn_legacy node) = (la_legacy_rpc_url (na_legacy args) \<noteq> None) \<and>
    lc_cutoff_block (rn_legacy node) = (case ne_genesis_number ne of Some n \<Rightarrow> n | None \<Rightarrow> 0) \<and>
    (lc_enabled (rn_legacy node) \<longrightarrow> ne_parse_url ne (lc_legacy_endpoint (rn_legacy node)) = Inr () \<and> 0 < la_legacy_rpc_timeout (na_legacy args)) \<and>
    (case rn_payload node of
        StartedFlashblocks sv \<Rightarrow> na_flashblocks_enabled args \<and> st_rcs_filter (sv_settings sv) = ra_enabled (ba_rcs_filter (na_builder args)) \<and>
          to_bridge_intercept_config (ne_parse_address ne) (na_intercept args) = Some (Inr (st_bridge_intercept (sv_settings sv)))
      | StartedBasic p g \<Rightarrow> \<not> na_flashblocks_enabled args) \<and>
    (rn_tracer node \<noteq> None) = fm_enable (na_monitor args)"
proof -
  from assms(1) obtain argv' bridge b where s: "validate_init_command argv" "resolve_kms_secret_flags (ne_secrets ne) argv w = Inr (argv', rn_process node)"
    "ne_parse ne argv' (rn_process node) = Inr (rn_args node)"
    "validate_legacy_args (ne_parse_url ne) (na_legacy (rn_args node)) = Inr ()"
    "to_bridge_intercept_config (ne_parse_address ne) (na_intercept (rn_args node)) = Some (Inr bridge)"
    "payload_service_builder_new (ne_addr_parses ne) (ne_client_ok ne) (rn_args node) = Inr b"
    "spawn_payload (ne_service ne (rn_process node)) (ne_basic ne) (with_bridge_config bridge b) = Inr (rn_payload node)"
    "rn_legacy node = legacy_config_of (na_legacy (rn_args node)) (case ne_genesis_number ne of Some n \<Rightarrow> n | None \<Rightarrow> 0)"
    "rn_tracer node = (if fm_enable (na_monitor (rn_args node)) then Some (fm_output_path (na_monitor (rn_args node))) else None)"
    by (rule node_main_Inr)
  have a: "lc_enabled (rn_legacy node) = (la_legacy_rpc_url (na_legacy args) \<noteq> None)"
    "lc_cutoff_block (rn_legacy node) = (case ne_genesis_number ne of Some n \<Rightarrow> n | None \<Rightarrow> 0)"
    by (simp_all add: s(8) args_def legacy_config_of_def)
  have b: "lc_enabled (rn_legacy node) \<longrightarrow> ne_parse_url ne (lc_legacy_endpoint (rn_legacy node)) = Inr () \<and> 0 < la_legacy_rpc_timeout (na_legacy args)"
    using s(4) by (auto simp: s(8) args_def legacy_config_of_def validate_legacy_args_def and_then_Inr map_sum_Inr_iff split: if_splits option.splits)
  have c: "(rn_tracer node \<noteq> None) = fm_enable (na_monitor args)" by (simp add: s(9) args_def)
  have "case rn_payload node of
        StartedFlashblocks sv \<Rightarrow> na_flashblocks_enabled args \<and> st_rcs_filter (sv_settings sv) = ra_enabled (ba_rcs_filter (na_builder args)) \<and>
          to_bridge_intercept_config (ne_parse_address ne) (na_intercept args) = Some (Inr (st_bridge_intercept (sv_settings sv)))
      | StartedBasic p g \<Rightarrow> \<not> na_flashblocks_enabled args"
  proof (cases "na_flashblocks_enabled args")
    case True
    then obtain config where c: "builder_config_try_from (ne_addr_parses ne) (ne_client_ok ne) (na_builder args) = Inr config"
        "b = PsFlashblocks config default_bridge_config"
      using s(6) by (auto simp: args_def payload_service_builder_new_def Let_def map_sum_Inr_iff)
    with s(7) obtain sv where sv: "spawn_payload_builder_service (ne_service ne (rn_process node)) config bridge = Inr sv" "rn_payload node = StartedFlashblocks sv"
      by (auto simp: spawn_payload_def with_bridge_config_def map_sum_Inr_iff)
    show ?thesis using service_screens_as_a_whole(1,5) [OF c(1) sv(1)] True s(5) by (simp add: sv(2) args_def)
  next
    case False
    with s(6,7) show ?thesis by (auto simp: args_def payload_service_builder_new_def spawn_payload_def with_bridge_config_def Let_def map_sum_Inr_iff)
  qed
  with a b c show ?thesis by simp
qed

text \<open>
  Without flashblocks the option of the interception is accepted and has no effect: the program logs that
  it is enabled, and the payload service is the one it would be without the option.
\<close>

lemma interception_needs_flashblocks:
  assumes "payload_service_builder_new addr_parses client_ok args = Inr b" "\<not> na_flashblocks_enabled args"
  shows "with_bridge_config bridge b = b"
  using assms by (auto simp: payload_service_builder_new_def with_bridge_config_def Let_def)

text \<open>
  Nor are the options of the filter looked at: an enabled filter is left out, whatever its options, and
  a budget of zero, described as an error even with the filter disabled, is accepted.
\<close>

lemma filter_needs_flashblocks:
  "\<not> na_flashblocks_enabled args \<Longrightarrow>
     \<exists>p g. payload_service_builder_new addr_parses client_ok args = Inr (PsDefault p g)"
  by (simp add: payload_service_builder_new_def Let_def)

lemma zero_budget_refused_with_flashblocks:
  assumes "na_flashblocks_enabled args" "ra_max_event_bindings_per_tx (ba_rcs_filter (na_builder args)) = 0"
  shows "\<exists>e. payload_service_builder_new addr_parses client_ok args = Inl e"
  using assms by (auto simp: payload_service_builder_new_def builder_config_try_from_def build_rcs_filter_handle_def build_rcs_filter_config_def
      and_then_def Let_def)

text \<open>
  The identity of the peer-to-peer node is the key of the key service: with the staged path as the
  option, a node that is built has the peer of the key that the reference stands for.
\<close>

lemma kms_key_reaches_node:
  assumes "flashblocks_key ss val w = Inr (Some path, w')" "pa_p2p_private_key_file p2p = Some path"
    and "read_path ss w' path = Some (read_file path)" "service_node pl read_file p2p = Inr (Some n)"
  shows "\<exists>reference plain keypair. kms_ref_in_value_or_file ss w val = Inr (Some reference) \<and> ss_maybe_resolve ss reference = Inr plain \<and>
    build_keypair pl (Some (trim (trim plain))) = Inr keypair \<and> bn_peer_id n = pl_peer_id pl keypair"
proof -
  obtain reference plain where r: "kms_ref_in_value_or_file ss w val = Inr (Some reference)" "ss_maybe_resolve ss reference = Inr plain"
      "read_path ss w' path = Some (Inr (trim plain))"
    using staged_key_is_read [OF assms(1)] by blast
  have "path \<noteq> []" using assms(1) by (cases rule: flashblocks_key_cases) (auto simp: fd_path_def)
  have "read_file path = Inr (trim plain)" using r(3) assms(3) by simp
  with \<open>path \<noteq> []\<close> assms(2,4) obtain b where "try_build_node pl b = Inr n" "nb_keypair_hex b = Some (trim (trim plain))"
    by (auto simp: service_node_def and_then_def map_sum_Inr_iff with_max_peer_count_def with_port_def with_known_peers_def with_protocol_def
        with_agent_version_def with_keypair_hex_string_def split: if_splits)
  with r(1,2) show ?thesis by (auto elim!: try_build_node_Inr)
qed

text \<open>
  A relay of flashblocks and the subscription to them belong to nodes that do not build flashblocks
  themselves, and the three services of X Layer are added to every node.
\<close>

lemma register_all_Inr: "register_all register ms = Inr ms' \<Longrightarrow> ms' = ms"
  by (induction ms arbitrary: ms') (auto simp: and_then_Inr map_sum_Inr_iff)

lemma rpc_services:
  assumes "extend_rpc_modules re args = Inr rpc"
  shows "{RpcXlayerExt, RpcXlayerAudit, RpcTransactionCount} \<subseteq> set (nr_modules rpc)"
    and "na_flashblocks_enabled args \<Longrightarrow> nr_relay rpc = [] \<and> (\<forall>n. RpcFlashblocksPubSub n \<notin> set (nr_modules rpc))"
    and "nr_relay rpc \<noteq> [] \<longleftrightarrow> \<not> na_flashblocks_enabled args \<and> re_received_flashblocks re \<and> na_flashblocks_url args \<noteq> None"
  using assms by (auto simp: extend_rpc_modules_def Let_def and_then_Inr map_sum_Inr_iff flashblocks_service_spawn_def dest!: register_all_Inr split: if_splits)

section \<open>An instance\<close>

definition sample_p2p_args :: flashblocks_p2p_args where
  "sample_p2p_args = \<lparr>pa_p2p_enabled = True, pa_p2p_port = 9009, pa_p2p_private_key_file = Some ''/proc/self/fd/3'', pa_p2p_known_peers = None,
     pa_p2p_max_peer_count = 50, pa_p2p_send_full_payload = False, pa_p2p_process_full_payload = True\<rparr>"

definition sample_builder_args :: builder_args where
  "sample_builder_args = \<lparr>ba_builder_signer = None, ba_chain_block_time = 1000, ba_max_gas_per_txn = None, ba_extra_block_deadline_secs = 20,
     ba_gasless_block_gas_limit_raw = None, ba_flashblocks_addr = ''127.0.0.1'', ba_flashblocks_port = 1111, ba_flashblocks_block_time = 250,
     ba_flashblocks_disable_state_root = False, ba_flashblocks_disable_async_calculate_state_root = False,
     ba_flashblocks_number_contract_address = None, ba_flashblocks_send_offset_ms = 0, ba_flashblocks_end_buffer_ms = 0,
     ba_p2p = sample_p2p_args, ba_ws_subscriber_limit = None, ba_replay_from_persistence_file = False, ba_rcs_filter = sample_rcs_args\<rparr>"

definition sample_node_args :: node_args where
  "sample_node_args = \<lparr>na_flashblocks_enabled = True, na_builder = sample_builder_args,
     na_legacy = \<lparr>la_legacy_rpc_url = Some ''http://old'', la_legacy_rpc_timeout = 30\<rparr>, na_monitor = \<lparr>fm_enable = True, fm_output_path = ''/trace''\<rparr>,
     na_intercept = \<lparr>xi_enabled = True, xi_bridge_contract = Some ''0x1'', xi_target_token = None\<rparr>, na_enable_flashblocks_subscription = False,
     na_flashblocks_subscription_max_addresses = 1000, na_sequencer_mode = True, na_compute_pending_block = False, na_flashblocks_url = None\<rparr>"

definition sample_p2p_lib :: "unit p2p_lib" where
  "sample_p2p_lib = \<lparr>pl_hex_decode = (\<lambda>s. Inr (as_bytes s)), pl_keypair = (\<lambda>_. Inr ()), pl_generate = (), pl_peer_id = (\<lambda>_. 7),
     pl_transport = (\<lambda>_. Inr ()), pl_behaviour = (\<lambda>_ _ _. Inr ()), pl_accept = (\<lambda>_ _. Inr ()), pl_parse_addr = (\<lambda>_. None),
     pl_with_p2p = (\<lambda>addr p. Some (addr @ [P2pId p]))\<rparr>"

text \<open>The node reads the key that was resolved: the file system of the service is the one of the process.\<close>

definition sample_node_env :: "(unit, unit) node_env" where
  "sample_node_env = \<lparr>ne_secrets = sample_services, ne_parse = (\<lambda>_ _. Inr sample_node_args), ne_parse_url = (\<lambda>_. Inr ()),
     ne_parse_address = (\<lambda>s. if s = ''0x1'' then Some 1 else None), ne_addr_parses = (\<lambda>_. True), ne_client_ok = (\<lambda>_. True),
     ne_genesis_number = Some 42810021,
     ne_service = (\<lambda>w. \<lparr>se_p2p = sample_p2p_lib,
       se_read_file = (\<lambda>path. case read_path sample_services w path of Some r \<Rightarrow> r | None \<Rightarrow> Inl ''no such file''),
       se_signer_address = (\<lambda>_. 0), se_bind = (\<lambda>_. Inr ()), se_from_slice = (\<lambda>_. None), se_datadir = True, se_files = (\<lambda>_. None), se_interop = False\<rparr>),
     ne_basic = Inr (), ne_rpc = \<lparr>re_received_flashblocks = False, re_pending_block_rx = False, re_register = (\<lambda>_. Inr ()),
       re_addr_parses = (\<lambda>_. True), re_bind = (\<lambda>_. Inr ())\<rparr>\<rparr>"

definition payload_tasks :: "started_payload \<Rightarrow> service_task list" where
  "payload_tasks p = (case p of StartedFlashblocks sv \<Rightarrow> sv_tasks sv | StartedBasic _ _ \<Rightarrow> [])"

lemma sample_node_starts:
  "map_sum id (\<lambda>node. (payload_tasks (rn_payload node), rn_args node = sample_node_args)) (node_main sample_node_env sample_argv sample_process) =
   Inr ([TaskP2pNode, TaskCanonicalCleanup, TaskTerminalDiscard, TaskPayloadBuilderService, TaskPayloadHandler, TaskMetricsCollector], True)"
  by code_simp

theorem node_runs_as_configured_witness:
  "\<exists>node sv. node_main sample_node_env sample_argv sample_process = Inr node \<and> rn_payload node = StartedFlashblocks sv \<and>
     st_rcs_filter (sv_settings sv) \<and> lc_enabled (rn_legacy node) \<and> lc_cutoff_block (rn_legacy node) = 42810021"
proof -
  obtain node where node: "node_main sample_node_env sample_argv sample_process = Inr node" "rn_args node = sample_node_args"
    and tasks: "[TaskP2pNode, TaskCanonicalCleanup, TaskTerminalDiscard, TaskPayloadBuilderService, TaskPayloadHandler, TaskMetricsCollector] =
      payload_tasks (rn_payload node)"
    using sample_node_starts by (auto simp: map_sum_Inr_iff)
  obtain sv where sv: "rn_payload node = StartedFlashblocks sv" using tasks by (cases "rn_payload node") (auto simp: payload_tasks_def)
  from node_runs_as_configured [OF node(1)] node sv show ?thesis
    by (simp add: sample_node_args_def sample_builder_args_def sample_rcs_args_def sample_node_env_def)
qed

end
