(* ===== verification/Spec2Isabelle.thy ===== *)
theory Spec2Isabelle
  imports Payload_Jobs Txpool_Discard Audit_Rpc Flashblock_Subscription Flashblock_Relay Submit_Batch Rcs_Client Tx_Signer Node_Binaries
begin

text \<open>
  A verification development for the X Layer node (\<open>src/\<close>): the risk-control filter, the flashblock
  builder with its jobs, its failover and its peers, what subscribers are sent, the node's own RPC, its
  start from the command line, and its offline tools.

  The program. The consensus client asks the node for a payload; a job builds it as a fallback block and
  a series of flashblocks on top of it, each published to websocket subscribers and to the other
  builders as soon as it is sealed, the last one resolving the job. The builder takes transactions from
  the pool, executes each candidate and commits its state only if it passes the bridge interception and
  the filter. An inspector hooked into the EVM captures, in order, the logs and the internal native
  transfers of the frames that commit. The filter matches that stream against rules loaded from the
  risk-control service: a rule can deny a transaction or demand an audit. Audited transactions wait in a
  buffer pool; workers submit them to the service, in an order that respects nonce and quota conflicts,
  poll for verdicts and resolve time-outs; a later screening releases a transaction only if its verdict
  allows it and its recomputed quota is the submitted one. What is dropped is discarded from the node's
  transaction pool. Builders send each other flashblocks and payloads: one that takes over replays what
  another one packaged, and a peer executes a received payload again before it announces it. Nodes that
  do not build relay and store flashblocks, and answer subscriptions and queries over them; old blocks
  are served by a legacy node; an audit call classifies deposits without committing them. Before it parses
  its arguments the node replaces references to a key service by the secrets; then it chooses the payload
  service, the middleware and the RPC modules that the arguments ask for.

  The theories, in dependency order, and what they model (file names under \<open>src/crates\<close>, or as given):
    \<^item> \<open>Prelude\<close>: result and option helpers, saturating arithmetic, association lists in the roles
      of hash maps and (sorted) tree maps, byte strings, words, and the locales of step systems.
    \<^item> \<open>Externals\<close>: the record \<open>ext\<close> of library functions the filter calls (address, number and
      hex formats, JSON text, ABI type resolution and decoding, Keccak) and a sample instance.
    \<^item> \<open>Json_Logic\<close>: \<open>rcs-filter\<close> \<open>rules/jsonlogic.rs\<close>, the condition language, its validator and compiler.
    \<^item> \<open>Rules\<close>: \<open>rules/model.rs\<close> and \<open>rules/validation.rs\<close>, compiling and loading rule sets.
    \<^item> \<open>Filter_Types\<close>: \<open>config.rs\<close>, \<open>error.rs\<close> and the wire format of \<open>client.rs\<close>.
    \<^item> \<open>Matching\<close>: \<open>matching.rs\<close>, evaluating rules over every binding of events to logs.
    \<^item> \<open>Quota_Hash\<close>: \<open>quota_hash.rs\<close>, the canonical encoding of a transaction's quota items.
    \<^item> \<open>Buffer_Pool\<close>: \<open>pool.rs\<close>, the pool of audited transactions with generations.
    \<^item> \<open>Filter_Handle\<close>: \<open>handle.rs\<close> and the counters of \<open>metrics.rs\<close>; \<open>shared\<close> is the state behind
      the mutex, every operation a critical section, \<open>screen_run\<close> screening among other threads.
    \<^item> \<open>Submit_Scheduler\<close>: \<open>submit.rs\<close>, conflict profiles, dependency graph and submission rounds.
    \<^item> \<open>Filter_Worker\<close>: \<open>worker.rs\<close>, back-off, rule loading, query and timeout rounds, and the step
      relation of the whole filter.
    \<^item> \<open>Submit_Batch\<close>: \<open>submit_once\<close> of \<open>submit.rs\<close> as a whole: the segments of a batch with their requests
      in flight, among all other steps of the filter.
    \<^item> \<open>Rcs_Client\<close>: the four requests of \<open>client.rs\<close>.
    \<^item> \<open>Rcs_Capture\<close>: \<open>builder/src/flashblocks\<close> \<open>rcs_capture.rs\<close> and the capture guard and fail-closed
      mapping of \<open>context.rs\<close>.
    \<^item> \<open>Bridge_Intercept\<close>: \<open>intercept/src/lib.rs\<close>.
    \<^item> \<open>Execution\<close>: \<open>utils/execution.rs\<close> and, of \<open>context.rs\<close>, the execution of one transaction, of
      the sequencer's transactions and of cached transactions.
    \<^item> \<open>Tx_Loop\<close>: \<open>best_txs.rs\<close> and the transaction loop of \<open>context.rs\<close>.
    \<^item> \<open>Flashblock_Timing\<close>: \<open>timing.rs\<close>, when the flashblocks of a block are built.
    \<^item> \<open>Flashblock_Cache\<close>: \<open>utils/cache.rs\<close>, the pending sequence of flashblocks and its file.
    \<^item> \<open>Builder_Tx\<close>: \<open>builder_tx.rs\<close>, the builder's own transactions. \<open>Tx_Signer\<close>: \<open>builder/src/signer.rs\<close>.
    \<^item> \<open>Flashblock_Builder\<close>: \<open>builder.rs\<close>, \<open>build_payload\<close> from the fallback block to the resolved payload.
    \<^item> \<open>Flashblock_Failover\<close>: what a build that replays cached flashblocks does.
    \<^item> \<open>Payload_Handler\<close>: \<open>handler.rs\<close>, \<open>handler_ctx.rs\<close> and \<open>utils/p2p.rs\<close>, executing received payloads.
    \<^item> \<open>Payload_Jobs\<close>: \<open>generator.rs\<close>, the jobs, their tokens, deadlines and cached reads.
    \<^item> \<open>Txpool_Discard\<close>: the discard task and the canonical clean-up of \<open>service.rs\<close>.
    \<^item> \<open>P2p_Node\<close>: \<open>builder/src/p2p\<close>, the event loop of the node and its outgoing streams.
    \<^item> \<open>Flashblock_Relay\<close>: \<open>utils/wspub.rs\<close>, the websocket publisher; \<open>flashblocks/src/handler.rs\<close>, relay
      and persistence; \<open>rpc/src/eth.rs\<close>, the transaction count over flashblocks.
    \<^item> \<open>Flashblock_Subscription\<close>: \<open>flashblocks/src/subscription.rs\<close> and \<open>pubsub.rs\<close>.
    \<^item> \<open>Audit_Rpc\<close>: \<open>rpc/src/audit\<close>. \<open>Legacy_Rpc\<close>: \<open>legacy-rpc\<close>.
    \<^item> \<open>Node_Config\<close>: \<open>builder/src/args/op.rs\<close>, the conversions of \<open>flashblocks/mod.rs\<close> and
      \<open>src/bin/node/src/args.rs\<close>: from the command line to the configurations.
    \<^item> \<open>Service_Startup\<close>: the start of \<open>service.rs\<close> and of the node of \<open>builder/src/p2p\<close>.
    \<^item> \<open>Node_Secrets\<close>: the references to a key service in \<open>src/bin/node/src/main.rs\<close>.
    \<^item> \<open>Node_Monitor\<close>: \<open>monitor\<close>, the records of transactions and blocks and the loops that make them.
    \<^item> \<open>Storage_Migration\<close>: \<open>src/bin/tools/migrate_v2/mod.rs\<close>, the phases of the migration and their failures.
    \<^item> \<open>Chain_Tools\<close>: \<open>src/bin/tools/export.rs\<close>, \<open>gen_genesis.rs\<close>, and \<open>chainspec/src/parser.rs\<close>.
    \<^item> \<open>Chain_Specs\<close>: the rest of \<open>chainspec\<close>, the fork tables and the networks.
    \<^item> \<open>Node_Binaries\<close>: \<open>src/bin/node/src/main.rs\<close> and \<open>payload.rs\<close>, \<open>rpc/src/xlayer_ext.rs\<close>,
      \<open>src/bin/tools/main.rs\<close> and \<open>import.rs\<close>.
    \<^item> this theory: the property that spans the builder and the filter.

  What is shown.
    \<^item> The block: every pool transaction in a built block was screened and not intercepted (below); the
      flashblocks handed to the peers add up to the block that is resolved; building returns.
    \<^item> Conditions and rules: the compiled form of a condition agrees with the interpreted one on every
      accepted rule; loading partitions the rules into installed and rejected, and indexes them exactly.
    \<^item> Matching: evaluation within the budget is the reference outcome over the full product of
      candidate logs; over the budget it never truncates silently but fails closed.
    \<^item> Pool: one lifecycle per generation, a status machine, terminal states are final, late answers
      for an old generation change nothing, time-outs are complete and release only fail-open entries.
    \<^item> Screening, whatever other threads do between its critical sections: a release has a cause in
      the pool, an allowance has a cause in the rules, an undecided transaction is never released; and
      an approved transaction that re-simulates to the same quota is released.
    \<^item> Workers: every worker step is a step that screening tolerates (a refinement), conflicting
      groups are submitted in order within the bound on concurrency and every batch ends, a negative verdict wins over a positive one
      in the same answer, rules are installed completely or not at all, a published discard is final;
      the discard task removes only what is dropped for good, and a tick makes up for lost events.
    \<^item> Capture: the stream is exactly the committed frames' logs and transfers, or the matching failure;
      candidates do not influence each other.
    \<^item> The loop returns, keeps gas, gasless and data-availability limits, packages a subsequence of the
      iterator, and is reproduced by replay.
    \<^item> Failover: a builder that takes over with the cached flashblocks resolves the same block; a peer
      accepts a payload that was built with the same settings. Where this fails is proved too: gasless
      transactions, and builder transactions in the base flashblock.
    \<^item> Jobs: only the newest one runs, a resolved payload answers its request, a finished build decides
      the resolution, cached reads are transparent; a failed build never resolves.
    \<^item> Publication: a peer receives the broadcasts in order, a websocket client a subsequence without
      repetition of what is published, a subscriber every transaction it asked for once; what is
      persisted is there after a restart. Peers that fall silent and subscriptions that die are proved.
    \<^item> RPC and configuration: a log query over the cutoff is complete when both halves answer, audits see
      the effects of earlier ones, an enabled filter is always configured, interception is as asked.
    \<^item> Start: no reference to the key service is left for a consumer, and the node runs with the parts its
      arguments ask for. That interception and filter need flashblocks, that a missing key file, a known
      peer without an ID and a listen address with a foreign one stop the node is proved too.
    \<^item> Tools: a migration that succeeds has moved every change set and index; one that fails midway cannot
      be resumed; an export ends with the complete file or none, as far as the end of a compressed one is
      written; a generated genesis is the state.

  Conventions. A hash map is an association list in its iteration order, a tree map a sorted one. Sizes
  and counters are natural numbers with the bound \<open>usize_max\<close> where the code saturates or checks;
  generations are 64-bit words; token amounts and addresses are words. Errors are values of sum types, a
  panic is an error value. Times are natural numbers of seconds (durations of nanoseconds). The loop
  over pool transactions and that of an export are each a \<open>partial_function\<close>, with a theorem that it
  returns; all other recursion is structural or has a termination proof, so there is no fuel. Threads
  and tasks are interleavings of their critical sections, as step relations. Interfaces are locales with their interpretation on the
  model: step systems with an invariant or a simulation, the lifecycle pool, the early-exit visitor of
  the matcher, the prefix codes of the quota encoding, the capture control.

  Assumed of code outside the repository, as named hypotheses: the address and number formats of \<open>ext\<close>
  (where a theorem says so); that the EVM calls its hooks well bracketed (\<open>bracketed\<close>), does not
  use more gas than a transaction's limit (\<open>gas_sound\<close>) and charges the base fee (\<open>charges_base_fee\<close>);
  that the pool's iterator only shrinks when a sender is marked invalid (\<open>marks_shrink\<close>); that roots can
  be computed (\<open>providers_answer\<close>) and the environment of the next block is built from its attributes
  (\<open>client_laws\<close>); that state notifications carry present values (\<open>bundle_true\<close>); that JSON reads back
  what it wrote (\<open>json_codec\<close>) and each backend answers a log query with the logs it holds that match its filter
  (\<open>local_serves\<close>, \<open>legacy_serves\<close>); that a header is found under its own hash and the attributes for the
  builder are those of the request (\<open>client_ok\<close>); that the cache
  of seen transactions keeps what fits into it (\<open>cache_keeps\<close>); that a static file segment holds what was
  appended (\<open>segment_laws\<close>), that a cursor gives the rows the table has at that time (\<open>walks\<close>), a range query
  the available blocks of the range (\<open>serves_blocks\<close>) and a finished gzip stream what was written to it (\<open>gunzips\<close>); that a signature of the curve recovers to its public key (\<open>secp_laws\<close>); that the
  secrets of the key service are no references themselves and no file is named like an option (\<open>services_ok\<close>).

  Not modelled: the EVM, tries and databases, hashes and signatures (the node library's, and parameters);
  the sockets, HTTP and the libp2p transport; the command line parser and the launcher of the node, also
  in development mode; metric registration, log output and the version strings; the contents
  of genesis files; the import, which the node library does; the vendored yamux; tests.
\<close>

section \<open>The filter guards the block\<close>

text \<open>The hooks of an execution are well bracketed: some tree of frames explains them.\<close>

definition bracketed :: "'d world \<Rightarrow> bool" where
  "bracketed w \<longleftrightarrow> (\<forall>db tx gasless. \<exists>evs. fst (w_transact w db tx gasless) = concat (map hooks_of evs))"

definition screened :: "ext \<Rightarrow> (create_inputs \<Rightarrow> nat \<Rightarrow> address) \<Rightarrow> builder_ctx \<Rightarrow> 'd world \<Rightarrow> nat \<Rightarrow> (shared \<Rightarrow> bool) \<Rightarrow> pool_tx \<Rightarrow> bool" where
  "screened E C cx w limit during tx \<longleftrightarrow> (\<exists>db gasless evs r db' sh.
     w_transact w db tx gasless = (concat (map hooks_of evs), Inr (r, db')) \<and>
     (let stream = concat (map (committed E C) evs) in
      concat (map (mismatches C 0) evs) = [] \<and> sum_list (map (attempts C) evs) \<le> limit \<and>
      real_log_subsequence stream = er_logs r \<and> during sh \<and> cleared E cx tx (map into_log stream) sh) \<and>
     intercept_bridge_transaction_if_need (er_logs r) (px_signer tx) (cx_bridge_intercept_config cx) = Inr ())"

lemma admitted_screened:
  assumes "admitted E cx w (rcs_ops E C) lim it tx st r db' g oc" "cx_filter cx" "bracketed w" "\<not> ri_active (ls_inspector st)"
    and "during (it_env_screen it (it_env_pre it (ls_shared st)))"
  shows "screened E C cx w (ri_limit (ls_inspector st)) during tx"
proof -
  let ?sh = "it_env_screen it (it_env_pre it (ls_shared st))"
  have t: "fst (transact_maybe_gasless cx w (rcs_ops E C) (ls_db st) tx (ls_inspector st)) = Inr (r, db', g, oc)"
    and s: "fst (screen_candidate E cx (it_now it) tx oc ?sh) \<in> {ScAllow, ScAuditApproved}"
    and b: "intercept_bridge_transaction_if_need (er_logs r) (px_signer tx) (cx_bridge_intercept_config cx) = Inr ()"
    using assms(1,2) by (simp_all add: admitted_def)
  obtain hooks where h: "w_transact w (ls_db st) tx g = (hooks, Inr (r, db'))"
    "oc = fst (finish_capture (er_logs r) (inspect_all E C hooks (start_capture (ls_inspector st))))"
    using transact_rcs_outcome [OF assms(4) t] .
  obtain evs where evs: "hooks = concat (map hooks_of evs)" using assms(3) h(1) unfolding bracketed_def by (metis fst_conv)
  let ?stream = "concat (map (committed E C) evs)"
  obtain stream where oc: "oc = CoComplete stream" "cleared E cx tx stream ?sh" using screen_candidate_cleared [OF s] .
  have "concat (map (mismatches C 0) evs) = [] \<and> sum_list (map (attempts C) evs) \<le> ri_limit (ls_inspector st) \<and>
      real_log_subsequence ?stream = er_logs r \<and> stream = map into_log ?stream"
    using h(2) unfolding evs oc(1) capture_outcome_eq by (simp add: Let_def split: if_splits)
  with h(1) evs oc(2) b assms(5) show ?thesis unfolding screened_def Let_def by blast
qed

lemma run_tx_loop_screened:
  assumes run: "run_tx_loop E cx w (rcs_ops E C) lim its st = Some c" and "cx_filter cx" "bracketed w" "\<not> ri_active (ls_inspector st)"
  shows "\<exists>txs. ei_executed_transactions (ls_info (control_state c)) = ei_executed_transactions (ls_info st) @ txs \<and>
    list_all (screened E C cx w (ri_limit (ls_inspector st)) ((loop_shared_step E cx its)\<^sup>*\<^sup>* (ls_shared st))) txs \<and>
    (loop_shared_step E cx its)\<^sup>*\<^sup>* (ls_shared st) (ls_shared (control_state c))"
proof -
  let ?during = "(loop_shared_step E cx its)\<^sup>*\<^sup>* (ls_shared st)"
  let ?Q = "screened E C cx w (ri_limit (ls_inspector st)) ?during"
  let ?I = "\<lambda>s. \<not> ri_active (ls_inspector s) \<and> ri_limit (ls_inspector s) = ri_limit (ls_inspector st) \<and> ?during (ls_shared s) \<and>
    (\<exists>txs. ei_executed_transactions (ls_info s) = ei_executed_transactions (ls_info st) @ txs \<and> list_all ?Q txs)"
  have "?I (control_state c)"
  proof (rule run_tx_loop_invariant [where I = ?I, OF run])
    show "?I st" using assms(4) by simp
    fix s :: "('a, rcs_inspector) loop_state" and tx best
    assume I: "?I s"
    let ?it = "its (ls_considered s)" and ?s = "s\<lparr>ls_best := best, ls_considered := ls_considered s + 1\<rparr>"
    let ?s' = "control_state (tx_step E cx w (rcs_ops E C) lim ?it tx ?s)"
    obtain txs where txs: "ei_executed_transactions (ls_info s) = ei_executed_transactions (ls_info st) @ txs" "list_all ?Q txs" using I by blast
    have idle: "\<not> ri_active (ls_inspector ?s)" using I by simp
    have d: "?during (ls_shared ?s')"
      using I tx_step_shared [of E cx its ?s w "rcs_ops E C" lim "ls_considered s" tx] by (auto intro: rtranclp_trans)
    have e: "?during (it_env_screen ?it (it_env_pre ?it (ls_shared ?s)))"
      using I by (auto intro: rtranclp.rtrancl_into_rtrancl ls_env_screen ls_env_pre)
    note i = tx_step_inspector [OF idle, of E cx w C lim ?it tx]
    have "\<exists>txs. ei_executed_transactions (ls_info ?s') = ei_executed_transactions (ls_info st) @ txs \<and> list_all ?Q txs"
    proof (cases "\<exists>r db' g oc. admitted E cx w (rcs_ops E C) lim ?it tx ?s r db' g oc \<and> ls_info ?s' = commit_tx cx w tx r g (ls_info ?s)")
      case True
      then obtain r db' g oc where a: "admitted E cx w (rcs_ops E C) lim ?it tx ?s r db' g oc" "ls_info ?s' = commit_tx cx w tx r g (ls_info ?s)"
        by blast
      from admitted_screened [OF a(1) assms(2,3) idle, of ?during] e I have "?Q tx" by simp
      with txs a(2) show ?thesis by (intro exI [of _ "txs @ [tx]"]) simp
    next
      case False
      with tx_step_effect [OF refl, of E cx w "rcs_ops E C" lim ?it tx ?s] obtain b where
        "ls_info ?s' = (ls_info ?s)\<lparr>ei_gasless_budget_exhausted := b\<rparr>" by blast
      with txs show ?thesis by (intro exI [of _ txs]) simp
    qed
    with d i I show "?I ?s'" by simp
  qed
  then show ?thesis by blast
qed

lemma execute_best_screened:
  assumes "execute_best_transactions E C cx w lim its info db sh best pool = Some res" "cx_filter cx" "bracketed w"
  shows "\<exists>txs. ei_executed_transactions (lr_info res) = ei_executed_transactions info @ txs \<and>
    list_all (screened E C cx w (fc_max_native_transfers_per_tx (sh_config sh)) ((loop_shared_step E cx its)\<^sup>*\<^sup>* sh)) txs \<and>
    (loop_shared_step E cx its)\<^sup>*\<^sup>* sh (lr_shared res)"
proof -
  let ?i = "rcs_inspector_new (fc_max_native_transfers_per_tx (sh_config sh))"
  obtain c where c: "run_tx_loop E cx w (rcs_ops E C) lim its (start_state info db ?i sh best pool) = Some c" "res = loop_result_of c"
    using assms(1,2) by (auto simp: execute_best_transactions_def)
  have "\<not> ri_active ?i" by (simp add: rcs_inspector_new_def)
  with run_tx_loop_screened [OF c(1) assms(2,3)] c(2) show ?thesis by simp
qed

text \<open>The states the filter goes through while a block is built: the loops of all its rounds.\<close>

definition block_shared_step :: "ext \<Rightarrow> builder_ctx \<Rightarrow> fb_round list \<Rightarrow> shared \<Rightarrow> shared \<Rightarrow> bool" where
  "block_shared_step E cx rds s s' \<longleftrightarrow> (\<exists>rd \<in> set rds. loop_shared_step E cx (fr_its rd) s s')"

lemma loop_steps_block_steps:
  "(loop_shared_step E cx (fr_its rd))\<^sup>*\<^sup>* s s' \<Longrightarrow> rd \<in> set rds \<Longrightarrow> (block_shared_step E cx rds)\<^sup>*\<^sup>* s s'"
  by (erule rtranclp_mono [THEN predicate2D, rotated]) (auto simp: block_shared_step_def)

lemma screened_mono: "screened E C cx w n D tx \<Longrightarrow> (\<And>sh. D sh \<Longrightarrow> D' sh) \<Longrightarrow> screened E C cx w n D' tx"
  unfolding screened_def Let_def by blast

definition block_screened :: "ext \<Rightarrow> (create_inputs \<Rightarrow> nat \<Rightarrow> address) \<Rightarrow> builder_ctx \<Rightarrow> 'd world \<Rightarrow> 'd build_env \<Rightarrow> pool_tx \<Rightarrow> bool" where
  "block_screened E C cx w en tx \<longleftrightarrow>
     (\<exists>sh. (block_shared_step E cx (en_rounds en))\<^sup>*\<^sup>* (en_shared en) sh \<and>
       screened E C cx w (fc_max_native_transfers_per_tx (sh_config sh)) ((block_shared_step E cx (en_rounds en))\<^sup>*\<^sup>* (en_shared en)) tx)"

text \<open>
  C1. With the filter enabled, every transaction of the block that is resolved, and every one that was
  published in a flashblock on the way, is one of the sequencer's, one the builder made itself, or was
  screened: its execution had no create at an unexpected address and no more internal transfers than
  allowed, the captured real logs are the logs of its result, the bridge interception let it pass, and
  in a state that the filter went through while this very block was built, the stream of all logs and
  internal native transfers of the frames that committed was cleared: by the rules' complete
  enumeration, or by an audit that is approved for the same quota or timed out fail-open.
\<close>

theorem block_only_if_screened:
  assumes "build_payload E C cx w L ch btx cfg pl en = Some out" "bo_cell out = Some p" "cx_filter cx" "bracketed w"
    and "tx \<in> set (ob_transactions p) \<union> set (all_transactions (bo_ws out))"
  shows "tx \<in> set (pl_transactions pl) \<or> own_tx E cx w L btx tx \<or> block_screened E C cx w en tx"
proof -
  let ?reach = "(block_shared_step E cx (en_rounds en))\<^sup>*\<^sup>* (en_shared en)"
  let ?Q = "\<lambda>tx. tx \<in> set (pl_transactions pl) \<or> own_tx E cx w L btx tx \<or> block_screened E C cx w en tx"
  have "list_all ?Q (ob_transactions p) \<and> list_all ?Q (all_transactions (bo_ws out))"
  proof (rule build_payload_pass [OF assms(1,3), where S = ?reach])
    fix rd info db lim sh best res
    assume rd: "rd \<in> set (en_rounds en)" and sh: "?reach sh" and Q: "list_all ?Q (ei_executed_transactions info)"
      and run: "execute_best_transactions E C cx w lim (fr_its rd) info db sh best (fr_tx_pool rd) = Some res"
    obtain txs where txs: "ei_executed_transactions (lr_info res) = ei_executed_transactions info @ txs"
      "list_all (screened E C cx w (fc_max_native_transfers_per_tx (sh_config sh)) ((loop_shared_step E cx (fr_its rd))\<^sup>*\<^sup>* sh)) txs"
      "(loop_shared_step E cx (fr_its rd))\<^sup>*\<^sup>* sh (lr_shared res)"
      using execute_best_screened [OF run assms(3,4)] by blast
    have reach: "?reach s" if "(loop_shared_step E cx (fr_its rd))\<^sup>*\<^sup>* sh s" for s
      using loop_steps_block_steps [OF that rd] sh by (rule rtranclp_trans [rotated])
    have "block_screened E C cx w en tx" if "tx \<in> set txs" for tx
    proof -
      have "screened E C cx w (fc_max_native_transfers_per_tx (sh_config sh)) ?reach tx"
        using txs(2) that by (intro screened_mono [where D' = ?reach, OF _ reach]) (auto simp: list_all_iff)
      with sh show ?thesis unfolding block_screened_def by blast
    qed
    with Q txs(1) reach [OF txs(3)] show "list_all ?Q (ei_executed_transactions (lr_info res)) \<and> ?reach (lr_shared res)"
      by (auto simp: list_all_iff)
  qed (use assms(2) in auto)
  with assms(5) show ?thesis by (auto simp: list_all_iff)
qed

text \<open>The sample block: its one transaction is neither the sequencer's nor the builder's.\<close>

theorem block_only_if_screened_witness:
  "\<exists>out p. sample_output True = Some out \<and> bo_cell out = Some p \<and> sample_tx \<in> set (ob_transactions p) \<and>
     block_screened sample_ext (\<lambda>_ _. 0) (sample_bcx True) sample_world sample_env sample_tx"
proof -
  obtain out p where r: "sample_output True = Some out" "bo_cell out = Some p" "ob_transactions p = [sample_tx]" by (rule sample_output)
  have b: "bracketed sample_world"
    unfolding bracketed_def by (intro allI exI [of _ "[EvCall (Some 5) 1 2 [] True]"]) (simp add: sample_world_def)
  have f: "cx_filter (sample_bcx True)" by (simp add: sample_bcx_def)
  have n: "\<not> own_tx sample_ext (sample_bcx True) sample_world sample_builder_lib (BaseTx None) sample_tx" "pl_transactions sample_pl = []"
    by (auto simp: own_tx_def sample_pl_def simulate_builder_txs_def simulate_base_builder_txs_def simulate_builder_tx_def opt_list_def)
  from block_only_if_screened [OF r(1) [unfolded sample_output_def] r(2) f b, of sample_tx] r n show ?thesis by auto
qed

end
